(* ===== verification/Prelude.thy ===== *)
theory Prelude
  imports Main "HOL-Library.Word" "HOL-Library.Multiset" "HOL-Library.Monad_Syntax"
begin

text \<open>
  Shared vocabulary of the road-side-unit development: the machine-integer types of the
  C sources, byte order conversions, the bit-mask idioms, the collections of rewrite
  rules the component theories extend, and generic lemmas on lists, options and maps.

  The target is little endian (\<open>include/cv_cms_def.h\<close> selects the swapping
  variants of \<open>cv_ntohs\<close>, \<open>cv_ntohl\<close> and \<open>cv_ntohf\<close>).
\<close>

unbundle bit_operations_syntax

type_synonym u8 = "8 word"
type_synonym u16 = "16 word"
type_synonym u32 = "32 word"
type_synonym u64 = "64 word"
type_synonym bytes = "8 word list"

named_theorems heap_simps \<open>reading a field of an updated list heap\<close>
named_theorems flag_simps \<open>testing, setting and clearing single flag bits\<close>
named_theorems inv_intros \<open>operations preserve the invariant of their component\<close>

section \<open>Flag words\<close>

text \<open>The idioms \<open>x & m\<close>, \<open>x |= m\<close> and \<open>x &= ~m\<close> on a flag word.\<close>

definition has_flag :: "'w::len word \<Rightarrow> 'w word \<Rightarrow> bool" where
  "has_flag x m \<longleftrightarrow> x AND m \<noteq> 0"

definition set_flag :: "'w::len word \<Rightarrow> 'w word \<Rightarrow> 'w word" where
  "set_flag x m = x OR m"

definition clear_flag :: "'w::len word \<Rightarrow> 'w word \<Rightarrow> 'w word" where
  "clear_flag x m = x AND NOT m"

lemma word_and_eq_0_iff: "(x::'w::len word) AND m = 0 \<longleftrightarrow> (\<forall>i. \<not> (bit x i \<and> bit m i))"
  by (auto simp: bit_eq_iff bit_and_iff dest: bit_imp_le_length)

lemma has_flag_bits: "has_flag x m \<longleftrightarrow> (\<exists>i. bit x i \<and> bit m i)"
  by (simp add: has_flag_def word_and_eq_0_iff)

lemma has_flag_zero [simp, flag_simps]: "\<not> has_flag 0 m"
  by (simp add: has_flag_def)

lemma has_clear_same [simp, flag_simps]: "\<not> has_flag (clear_flag x m) m"
  by (auto simp: has_flag_bits clear_flag_def bit_simps)

lemma has_set_same [flag_simps]: "m \<noteq> 0 \<Longrightarrow> has_flag (set_flag x m) m"
  by (auto simp: has_flag_bits set_flag_def bit_simps bit_eq_iff)

lemma has_clear_other [flag_simps]: "m AND k = 0 \<Longrightarrow> has_flag (clear_flag x m) k = has_flag x k"
  by (auto simp: has_flag_bits clear_flag_def bit_simps word_and_eq_0_iff dest: bit_imp_le_length)

lemma has_set_other [flag_simps]: "m AND k = 0 \<Longrightarrow> has_flag (set_flag x m) k = has_flag x k"
  by (auto simp: has_flag_bits set_flag_def bit_simps word_and_eq_0_iff)

lemma clear_flag_absent: "\<not> has_flag x m \<Longrightarrow> clear_flag x m = x"
  by (auto simp: has_flag_bits clear_flag_def bit_simps bit_eq_iff)

lemma clear_flag_le: "clear_flag x m \<le> x"
  unfolding clear_flag_def by (rule word_and_le2)

section \<open>Byte order\<close>

definition cv_ntohs :: "u16 \<Rightarrow> u16" where
  "cv_ntohs s = push_bit 8 (s AND 0xFF) OR drop_bit 8 (s AND 0xFF00)"

definition cv_ntohl :: "u32 \<Rightarrow> u32" where
  "cv_ntohl l = push_bit 24 (l AND 0xFF) OR push_bit 8 (l AND 0xFF00)
     OR drop_bit 8 (l AND 0xFF0000) OR drop_bit 24 (l AND 0xFF000000)"

text \<open>The memory image of an integer on the little-endian target, and back.\<close>

definition le16 :: "u16 \<Rightarrow> bytes" where
  "le16 x = [ucast x, ucast (drop_bit 8 x)]"

definition le32 :: "u32 \<Rightarrow> bytes" where
  "le32 x = [ucast x, ucast (drop_bit 8 x), ucast (drop_bit 16 x), ucast (drop_bit 24 x)]"

fun get16 :: "bytes \<Rightarrow> nat \<Rightarrow> u16" where
  "get16 bs i = ucast (bs ! i) OR push_bit 8 (ucast (bs ! (i + 1)))"

fun get32 :: "bytes \<Rightarrow> nat \<Rightarrow> u32" where
  "get32 bs i = ucast (bs ! i) OR push_bit 8 (ucast (bs ! (i + 1)))
     OR push_bit 16 (ucast (bs ! (i + 2))) OR push_bit 24 (ucast (bs ! (i + 3)))"

definition be16 :: "u16 \<Rightarrow> bytes" where
  "be16 x = [ucast (drop_bit 8 x), ucast x]"

definition be32 :: "u32 \<Rightarrow> bytes" where
  "be32 x = [ucast (drop_bit 24 x), ucast (drop_bit 16 x), ucast (drop_bit 8 x), ucast x]"

definition get_be16 :: "bytes \<Rightarrow> nat \<Rightarrow> u16" where
  "get_be16 bs i = ucast (bs ! (i + 1)) OR push_bit 8 (ucast (bs ! i))"

definition get_be32 :: "bytes \<Rightarrow> nat \<Rightarrow> u32" where
  "get_be32 bs i = ucast (bs ! (i + 3)) OR push_bit 8 (ucast (bs ! (i + 2)))
     OR push_bit 16 (ucast (bs ! (i + 1))) OR push_bit 24 (ucast (bs ! i))"

lemma len16 [simp]: "length (le16 x) = 2" "length (be16 x) = 2"
  by (simp_all add: le16_def be16_def)

lemma len32 [simp]: "length (le32 x) = 4" "length (be32 x) = 4"
  by (simp_all add: le32_def be32_def)

text \<open>Equality of two words of a concrete width, bit by bit.\<close>

lemma word_eq_upt:
  "(x :: 'w::len word) = y \<longleftrightarrow> list_all (\<lambda>n. bit x n = bit y n) [0..<LENGTH('w)]"
  by (auto simp: bit_eq_iff list_all_iff)

lemma upt_16: "[0..<16] = [0,1,2,3,4,5,6,7,8,9,10,11,12,13,14,15::nat]"
  by (simp add: upt_rec)

lemma upt_32: "[0..<32] = [0..<16] @ [16,17,18,19,20,21,22,23,24,25,26,27,28,29,30,31::nat]"
  by (simp add: upt_rec)

lemma upt_8: "[0..<8] = [0,1,2,3,4,5,6,7::nat]"
  by (simp add: upt_rec)

lemma bit_beyond [simp]: "LENGTH('w) \<le> n \<Longrightarrow> \<not> bit (x :: 'w::len word) n"
  by (auto dest: bit_imp_le_length)

lemmas bitwise = word_eq_upt bit_simps upt_8 upt_16 upt_32

lemma cv_ntohs_cv_ntohs [simp]: "cv_ntohs (cv_ntohs x) = x"
  by (simp add: cv_ntohs_def bitwise)

lemma cv_ntohl_cv_ntohl [simp]: "cv_ntohl (cv_ntohl x) = x"
  by (simp add: cv_ntohl_def bitwise)

lemma cv_ntoh_zero [simp]: "cv_ntohs 0 = 0" "cv_ntohl 0 = 0"
  by (simp_all add: cv_ntohs_def cv_ntohl_def)

lemma le16_swap: "le16 (cv_ntohs x) = be16 x"
  by (simp add: le16_def be16_def cv_ntohs_def bitwise)

lemma le32_swap: "le32 (cv_ntohl x) = be32 x"
  by (simp add: le32_def be32_def cv_ntohl_def bitwise)

lemma get16_append: "get16 (xs @ le16 v @ ys) (length xs) = v"
  by (simp add: le16_def nth_append bitwise)

lemma get32_append: "get32 (xs @ le32 v @ ys) (length xs) = v"
  by (simp add: le32_def nth_append bitwise)

lemma get_be16_swap: "get_be16 bs i = cv_ntohs (get16 bs i)"
  by (simp add: get_be16_def cv_ntohs_def bitwise)

lemma get_be32_swap: "get_be32 bs i = cv_ntohl (get32 bs i)"
  by (simp add: get_be32_def cv_ntohl_def bitwise)

text \<open>An integer put together again from its bytes.\<close>

lemma join16: "(ucast (ucast x :: u8) :: u16) OR push_bit 8 (ucast (ucast (drop_bit 8 x) :: u8)) = x"
  by (simp add: bitwise)

lemma join32: "(ucast (ucast x :: u8) :: u32) OR push_bit 8 (ucast (ucast (drop_bit 8 x) :: u8))
    OR push_bit 16 (ucast (ucast (drop_bit 16 x) :: u8)) OR push_bit 24 (ucast (ucast (drop_bit 24 x) :: u8)) = x"
  by (simp add: bitwise)

lemma length_4E:
  assumes "length xs = 4"
  obtains a b c d where "xs = [a, b, c, d]"
  using assms by (auto simp: length_Suc_conv numeral_eq_Suc)

declare get16.simps [simp del] get32.simps [simp del]

lemma get16_at: "length xs = n \<Longrightarrow> get16 (xs @ le16 v @ ys) n = v"
  using get16_append by blast

end
