(* ===== verification/Osal.thy ===== *)
theory Osal
  imports Prelude
begin

text \<open>
  The operating-system layer of \<open>osal/\<close> as far as the modules above depend on what it
  computes: status codes, the arithmetic on \<open>struct timespec\<close>, software timers (the
  per-timer state kept by \<open>osal/linux/os_timer.c\<close>), message queues over POSIX
  \<open>mqueue\<close>, and the system time.

  A timer is its node: kind, period, whether it is armed and the value it was armed with.
  The instants at which an armed timer fires are left to the clock: the modules only
  start, stop and change timers, and their callbacks are operations of those modules. The module that
  runs them is in \<open>OsTimer\<close>, and \<open>OsTimerRun\<close> shows that it implements the timers of this theory.
  A message queue is bounded in the number of messages and in the length of one message,
  all messages are sent with priority 0, so the queue is first in, first out.
\<close>

section \<open>Status codes\<close>

definition OSAL_STATUS_SUCCESS :: int where "OSAL_STATUS_SUCCESS = 0"
definition OSAL_STATUS_TIMEOUT :: int where "OSAL_STATUS_TIMEOUT = -2"
definition OSAL_STATUS_EMPTY :: int where "OSAL_STATUS_EMPTY = -5"
definition OSAL_STATUS_NOMEM :: int where "OSAL_STATUS_NOMEM = -5"
definition OSAL_STATUS_ERROR_UNDEFINED :: int where "OSAL_STATUS_ERROR_UNDEFINED = -1"

lemmas osal_status_defs = OSAL_STATUS_SUCCESS_def OSAL_STATUS_TIMEOUT_def
  OSAL_STATUS_EMPTY_def OSAL_STATUS_NOMEM_def OSAL_STATUS_ERROR_UNDEFINED_def

section \<open>Seconds and nanoseconds\<close>

record timespec =
  tv_sec :: int
  tv_nsec :: int

definition zero_timespec :: timespec where
  "zero_timespec = \<lparr>tv_sec = 0, tv_nsec = 0\<rparr>"

text \<open>C division truncates; every caller passes a positive period.\<close>

definition ms2ts :: "int \<Rightarrow> timespec" where
  "ms2ts ms = \<lparr>tv_sec = sgn ms * (\<bar>ms\<bar> div 1000), tv_nsec = sgn ms * (\<bar>ms\<bar> mod 1000) * 1000000\<rparr>"

definition timespec_compare :: "timespec \<Rightarrow> timespec \<Rightarrow> int" where
  "timespec_compare l r =
     (if tv_sec l < tv_sec r then -1
      else if tv_sec l > tv_sec r then 1
      else if tv_nsec l < tv_nsec r then -1
      else if tv_nsec l > tv_nsec r then 1
      else 0)"

definition timespec_add :: "timespec \<Rightarrow> timespec \<Rightarrow> timespec" where
  "timespec_add l r =
     (let s = tv_sec l + tv_sec r; n = tv_nsec l + tv_nsec r
      in if n \<ge> 1000000000 then \<lparr>tv_sec = s + 1, tv_nsec = n - 1000000000\<rparr>
         else \<lparr>tv_sec = s, tv_nsec = n\<rparr>)"

definition timespec_sub :: "timespec \<Rightarrow> timespec \<Rightarrow> timespec" where
  "timespec_sub l r =
     (let s = tv_sec l - tv_sec r; n = tv_nsec l - tv_nsec r
      in if n < 0 then \<lparr>tv_sec = s - 1, tv_nsec = n + 1000000000\<rparr>
         else \<lparr>tv_sec = s, tv_nsec = n\<rparr>)"

text \<open>The absolute deadline of a timed queue operation: the current time of day (seconds and
  microseconds) plus a timeout in milliseconds.\<close>

definition os_millisec_2_timespec :: "int \<Rightarrow> int \<Rightarrow> u32 \<Rightarrow> timespec" where
  "os_millisec_2_timespec now_sec now_usec timeout =
     (let t = uint timeout; s = now_sec + t div 1000; u = (t mod 1000) * 1000 + now_usec
      in if u \<ge> 1000000 then \<lparr>tv_sec = s + 1, tv_nsec = (u mod 1000000) * 1000\<rparr>
         else \<lparr>tv_sec = s, tv_nsec = u * 1000\<rparr>)"

definition ts_ns :: "timespec \<Rightarrow> int" where
  "ts_ns t = tv_sec t * 1000000000 + tv_nsec t"

definition ts_normal :: "timespec \<Rightarrow> bool" where
  "ts_normal t \<longleftrightarrow> 0 \<le> tv_nsec t \<and> tv_nsec t < 1000000000"

lemma timespec_add_sound:
  "ts_ns (timespec_add a b) = ts_ns a + ts_ns b"
  "ts_normal a \<Longrightarrow> ts_normal b \<Longrightarrow> ts_normal (timespec_add a b)"
  by (auto simp: timespec_add_def ts_ns_def ts_normal_def Let_def)

lemma timespec_sub_sound:
  "ts_ns (timespec_sub a b) = ts_ns a - ts_ns b"
  "ts_normal a \<Longrightarrow> ts_normal b \<Longrightarrow> ts_normal (timespec_sub a b)"
  by (auto simp: timespec_sub_def ts_ns_def ts_normal_def Let_def)

lemma timespec_compare_sound:
  assumes "ts_normal a" "ts_normal b"
  shows "timespec_compare a b = sgn (ts_ns a - ts_ns b)"
proof -
  have n: "0 \<le> tv_nsec a" "tv_nsec a < 1000000000" "0 \<le> tv_nsec b" "tv_nsec b < 1000000000"
    using assms by (auto simp: ts_normal_def)
  consider "tv_sec a < tv_sec b" | "tv_sec a > tv_sec b" | "tv_sec a = tv_sec b" by linarith
  then show ?thesis
  proof cases
    case 1
    then have "ts_ns a < ts_ns b" using n by (simp add: ts_ns_def)
    with 1 show ?thesis by (simp add: timespec_compare_def)
  next
    case 2
    then have "ts_ns b < ts_ns a" using n by (simp add: ts_ns_def)
    with 2 show ?thesis by (simp add: timespec_compare_def)
  next
    case 3
    then show ?thesis by (simp add: timespec_compare_def ts_ns_def sgn_if)
  qed
qed

lemma ms2ts_sound: "ts_ns (ms2ts ms) = ms * 1000000"
proof -
  define d m where "d = \<bar>ms\<bar> div 1000" and "m = \<bar>ms\<bar> mod 1000"
  have "ts_ns (ms2ts ms) = sgn ms * (d * 1000 + m) * 1000000"
    by (simp add: ts_ns_def ms2ts_def algebra_simps flip: d_def m_def)
  also have "d * 1000 + m = \<bar>ms\<bar>" by (simp add: d_def m_def)
  finally show ?thesis by (simp add: sgn_mult_abs)
qed

text \<open>The deadline is normalised and exact whenever the time of day is.\<close>

lemma os_millisec_2_timespec_sound:
  assumes "0 \<le> us" "us < 1000000"
  shows "ts_normal (os_millisec_2_timespec s us t)"
    "ts_ns (os_millisec_2_timespec s us t) = (s * 1000000 + us) * 1000 + uint t * 1000000"
proof -
  have m: "(uint t mod 1000 * 1000 + us) mod 1000000 = uint t mod 1000 * 1000 + us - 1000000"
    if "uint t mod 1000 * 1000 + us \<ge> 1000000"
  proof -
    let ?x = "uint t mod 1000 * 1000 + us"
    have "?x mod 1000000 = (?x - 1000000) mod 1000000" by simp
    also have "?x - 1000000 < 1000000"
      using pos_mod_bound[of 1000 "uint t"] assms by linarith
    then have "(?x - 1000000) mod 1000000 = ?x - 1000000"
      using that by (intro mod_pos_pos_trivial) auto
    finally show ?thesis .
  qed
  show "ts_normal (os_millisec_2_timespec s us t)"
    using assms by (auto simp: os_millisec_2_timespec_def ts_normal_def Let_def)
  show "ts_ns (os_millisec_2_timespec s us t) = (s * 1000000 + us) * 1000 + uint t * 1000000"
  proof -
    define d k where "d = uint t div 1000" and "k = uint t mod 1000"
    have t: "uint t = d * 1000 + k" by (simp add: d_def k_def)
    have "ts_ns (os_millisec_2_timespec s us t) = (s * 1000000 + us) * 1000 + (d * 1000 + k) * 1000000"
      using m unfolding os_millisec_2_timespec_def Let_def d_def[symmetric] k_def[symmetric]
      by (auto simp: ts_ns_def)
    then show ?thesis by (simp only: t)
  qed
qed

section \<open>Timers\<close>

datatype timer_state = TIMER_FREE | TIMER_INUSE | TIMER_DELETED

record os_timer =
  tm_inuse :: timer_state
  tm_oneshot :: bool
  tm_millisec :: int
  tm_armed :: bool
  tm_value :: timespec
  tm_interval :: timespec

definition timer_valid :: "os_timer \<Rightarrow> bool" where
  "timer_valid t \<longleftrightarrow> tm_inuse t = TIMER_INUSE"

text \<open>\<open>__timer_settime\<close> on a valid timer; the status is 0 or -1.\<close>

definition timer_settime :: "timespec \<Rightarrow> timespec \<Rightarrow> os_timer \<Rightarrow> int \<times> os_timer" where
  "timer_settime val itv t =
     (if tv_nsec itv < 0 \<or> tv_nsec itv \<ge> 1000000000
         \<or> tv_nsec val < 0 \<or> tv_nsec val \<ge> 1000000000 then (-1, t)
      else if \<not> timer_valid t then (-1, t)
      else (0, t\<lparr>tm_value := val, tm_interval := itv,
                 tm_armed := (tv_sec val \<noteq> 0 \<or> tv_nsec val \<noteq> 0)\<rparr>))"

definition os_timer_start :: "os_timer \<Rightarrow> int \<times> os_timer" where
  "os_timer_start t =
     (if \<not> timer_valid t then (-1, t)
      else let val = ms2ts (tm_millisec t)
        in timer_settime val (if tm_oneshot t then zero_timespec else val) t)"

definition os_timer_stop :: "os_timer \<Rightarrow> int \<times> os_timer" where
  "os_timer_stop t = timer_settime zero_timespec zero_timespec t"

definition os_timer_settime :: "int \<Rightarrow> os_timer \<Rightarrow> int \<times> os_timer" where
  "os_timer_settime ms t =
     (if ms \<le> 0 then (-1, t)
      else if \<not> timer_valid t then (-1, t)
      else (0, t\<lparr>tm_millisec := ms\<rparr>))"

definition osal_status_of :: "int \<Rightarrow> int" where
  "osal_status_of ret = (if ret = 0 then OSAL_STATUS_SUCCESS else OSAL_STATUS_ERROR_UNDEFINED)"

text \<open>\<open>None\<close> is a creation that fails (a period that is not positive); the timer array and
  the threads serving it are not exhausted by the timers this program creates.\<close>

definition osal_timer_create :: "int \<Rightarrow> bool \<Rightarrow> bool \<Rightarrow> os_timer option" where
  "osal_timer_create millisec oneshot stopped =
     (if millisec \<le> 0 then None
      else let t = \<lparr>tm_inuse = TIMER_INUSE, tm_oneshot = oneshot, tm_millisec = millisec,
                    tm_armed = False, tm_value = zero_timespec, tm_interval = zero_timespec\<rparr>;
               val = (if stopped then zero_timespec else ms2ts millisec);
               itv = (if oneshot then zero_timespec else val);
               (ret, t) = timer_settime val itv t
        in if ret \<noteq> 0 then None else Some t)"

definition osal_timer_start :: "os_timer \<Rightarrow> int \<times> os_timer" where
  "osal_timer_start t = (let (ret, t) = os_timer_start t in (osal_status_of ret, t))"

definition osal_timer_stop :: "os_timer \<Rightarrow> int \<times> os_timer" where
  "osal_timer_stop t = (let (ret, t) = os_timer_stop t in (osal_status_of ret, t))"

definition osal_timer_change :: "int \<Rightarrow> os_timer \<Rightarrow> int \<times> os_timer" where
  "osal_timer_change millisec t =
     (let (r1, t) = os_timer_stop t;
          (r2, t) = os_timer_settime millisec t;
          (r3, t) = os_timer_start t
      in (osal_status_of (if r1 = 0 \<and> r2 = 0 \<and> r3 = 0 then 0 else -1), t))"

definition osal_timer_delete :: "os_timer \<Rightarrow> int \<times> os_timer" where
  "osal_timer_delete t =
     (if timer_valid t then (OSAL_STATUS_SUCCESS, t\<lparr>tm_inuse := TIMER_DELETED, tm_armed := False\<rparr>)
      else (OSAL_STATUS_ERROR_UNDEFINED, t))"

text \<open>A timer the modules hold: created, with a positive period.\<close>

definition timer_ok :: "os_timer \<Rightarrow> bool" where
  "timer_ok t \<longleftrightarrow> timer_valid t \<and> 0 < tm_millisec t"

lemma ms2ts_range: "0 < ms \<Longrightarrow> ts_normal (ms2ts ms) \<and> (tv_sec (ms2ts ms) \<noteq> 0 \<or> tv_nsec (ms2ts ms) \<noteq> 0)"
proof -
  assume "0 < ms"
  moreover have "ms = ms div 1000 * 1000 + ms mod 1000" by simp
  ultimately show ?thesis
    by (auto simp: ms2ts_def ts_normal_def sgn_if dest: pos_mod_bound)
qed

lemma osal_timer_start_ok:
  assumes "timer_ok t"
  shows "fst (osal_timer_start t) = OSAL_STATUS_SUCCESS"
    "tm_armed (snd (osal_timer_start t))"
    "tm_value (snd (osal_timer_start t)) = ms2ts (tm_millisec t)"
    "tm_millisec (snd (osal_timer_start t)) = tm_millisec t"
    "timer_ok (snd (osal_timer_start t))"
  using assms ms2ts_range[of "tm_millisec t"]
  by (auto simp: osal_timer_start_def os_timer_start_def timer_settime_def timer_ok_def Let_def
      ts_normal_def zero_timespec_def osal_status_of_def timer_valid_def)

lemma osal_timer_stop_ok:
  assumes "timer_ok t"
  shows "fst (osal_timer_stop t) = OSAL_STATUS_SUCCESS"
    "\<not> tm_armed (snd (osal_timer_stop t))"
    "tm_millisec (snd (osal_timer_stop t)) = tm_millisec t"
    "timer_ok (snd (osal_timer_stop t))"
  using assms
  by (auto simp: osal_timer_stop_def os_timer_stop_def timer_settime_def timer_ok_def Let_def
      zero_timespec_def osal_status_of_def timer_valid_def)

text \<open>Changing the period also starts the timer, whatever state it was in; a period that is
  not positive is refused, and the timer then runs with its old period.\<close>

lemma osal_timer_change_ok:
  assumes "timer_ok t"
  shows "tm_armed (snd (osal_timer_change ms t))"
    "tm_millisec (snd (osal_timer_change ms t)) = (if 0 < ms then ms else tm_millisec t)"
    "tm_value (snd (osal_timer_change ms t)) = ms2ts (if 0 < ms then ms else tm_millisec t)"
    "timer_ok (snd (osal_timer_change ms t))"
    "fst (osal_timer_change ms t) = (if 0 < ms then OSAL_STATUS_SUCCESS else OSAL_STATUS_ERROR_UNDEFINED)"
  using assms ms2ts_range[of "tm_millisec t"] ms2ts_range[of ms]
  by (cases "0 < ms"; simp add: osal_timer_change_def os_timer_start_def os_timer_stop_def
      os_timer_settime_def timer_settime_def timer_ok_def Let_def ts_normal_def zero_timespec_def
      osal_status_of_def timer_valid_def osal_status_defs)+

lemma osal_timer_create_ok:
  "0 < ms \<Longrightarrow> \<exists>t. osal_timer_create ms oneshot stopped = Some t \<and> timer_ok t
     \<and> tm_millisec t = ms \<and> tm_oneshot t = oneshot \<and> tm_armed t = (\<not> stopped)"
  using ms2ts_range[of ms]
  by (auto simp: osal_timer_create_def timer_settime_def timer_ok_def timer_valid_def Let_def
      ts_normal_def zero_timespec_def)

section \<open>Message queues\<close>

record 'm queue =
  q_depth :: nat
  q_msgs :: "'m list"

definition osal_queue_create :: "nat \<Rightarrow> 'm queue" where
  "osal_queue_create depth = \<lparr>q_depth = depth, q_msgs = []\<rparr>"

text \<open>Sending without waiting: a full queue makes \<open>mq_timedsend\<close> fail at its deadline.\<close>

definition osal_queue_send :: "'m \<Rightarrow> 'm queue \<Rightarrow> int \<times> 'm queue" where
  "osal_queue_send m q =
     (if length (q_msgs q) < q_depth q then (OSAL_STATUS_SUCCESS, q\<lparr>q_msgs := q_msgs q @ [m]\<rparr>)
      else (OSAL_STATUS_TIMEOUT, q))"

text \<open>Receiving takes the oldest message; on an empty queue the caller keeps waiting.\<close>

definition osal_queue_recv :: "'m queue \<Rightarrow> ('m \<times> 'm queue) option" where
  "osal_queue_recv q =
     (case q_msgs q of [] \<Rightarrow> None | m # ms \<Rightarrow> Some (m, q\<lparr>q_msgs := ms\<rparr>))"

definition queue_ok :: "'m queue \<Rightarrow> bool" where
  "queue_ok q \<longleftrightarrow> length (q_msgs q) \<le> q_depth q"

lemma osal_queue_send_ok [inv_intros]: "queue_ok q \<Longrightarrow> queue_ok (snd (osal_queue_send m q))"
  by (simp add: queue_ok_def osal_queue_send_def)

lemma osal_queue_send_depth [simp]: "q_depth (snd (osal_queue_send m q)) = q_depth q"
  by (simp add: osal_queue_send_def)

lemma osal_queue_send_full: "\<not> length (q_msgs q) < q_depth q \<Longrightarrow> snd (osal_queue_send m q) = q"
  by (simp add: osal_queue_send_def)

lemma osal_queue_recv_ok:
  "queue_ok q \<Longrightarrow> osal_queue_recv q = Some (m, q') \<Longrightarrow> queue_ok q' \<and> q_msgs q = m # q_msgs q'"
  by (auto simp: queue_ok_def osal_queue_recv_def split: list.splits)

section \<open>Event queues\<close>

text \<open>
  Every task owns a bounded queue into which the other tasks put events without waiting; each
  component wraps \<open>osal_queue_send\<close> in an operation of its own on its own state. What their
  clients rely on is stated once: an event is appended while there is room, and dropped, with
  an error, when there is none.
\<close>

locale event_queue =
  fixes add :: "'m \<Rightarrow> 's \<Rightarrow> int \<times> 's" and events :: "'s \<Rightarrow> 'm list" and depth :: "'s \<Rightarrow> nat"
  assumes add_room: "length (events s) < depth s \<Longrightarrow> fst (add m s) = OSAL_STATUS_SUCCESS
      \<and> events (snd (add m s)) = events s @ [m]"
    and add_full: "\<not> length (events s) < depth s \<Longrightarrow> fst (add m s) \<noteq> OSAL_STATUS_SUCCESS
      \<and> events (snd (add m s)) = events s"
    and add_depth: "depth (snd (add m s)) = depth s"
begin

definition put :: "'m \<Rightarrow> 's \<Rightarrow> 's" where "put m s = snd (add m s)"

lemma put_events: "events (put m s) = (if length (events s) < depth s then events s @ [m] else events s)"
  using add_room add_full by (simp add: put_def)

lemma put_depth: "depth (put m s) = depth s"
  by (simp add: put_def add_depth)

lemma put_bound: "length (events s) \<le> depth s \<Longrightarrow> length (events (put m s)) \<le> depth (put m s)"
  by (simp add: put_events put_depth)

text \<open>A burst of events: the queue keeps its old events and the first of the new ones, in order.\<close>

lemma burst_depth: "depth (fold put ms s) = depth s"
  by (induction ms arbitrary: s) (simp_all add: put_depth)

lemma burst_events:
  "length (events s) \<le> depth s \<Longrightarrow> events (fold put ms s) = take (depth s) (events s @ ms)"
proof (induction ms arbitrary: s)
  case (Cons m ms)
  then have "events (fold put ms (put m s)) = take (depth (put m s)) (events (put m s) @ ms)"
    by (intro Cons.IH) (rule put_bound)
  then show ?case
    using Cons.prems by (cases "length (events s) < depth s") (simp_all add: put_events put_depth)
qed simp

lemma status_tells: "fst (add m s) = OSAL_STATUS_SUCCESS \<longleftrightarrow> events (snd (add m s)) = events s @ [m]"
  using add_room add_full by (cases "length (events s) < depth s") auto

end

interpretation oq: event_queue osal_queue_send q_msgs q_depth
  by unfold_locales (auto simp: osal_queue_send_def osal_status_defs)

section \<open>The system time\<close>

text \<open>
  \<open>os_get_reltime\<close> returns 0 when the clock could be read, and \<open>osal_get_systemtime\<close> takes that
  for a failure. The argument is the result of reading the monotonic clock: \<open>Some\<close> seconds
  and nanoseconds. After a failed reading \<open>os_get_reltime\<close> returns no value at all, which is
  the outer \<open>None\<close> here.
\<close>

definition os_get_reltime :: "(int \<times> int) option \<Rightarrow> (int \<times> int \<times> int) option" where
  "os_get_reltime clk = (case clk of Some (s, ns) \<Rightarrow> Some (0, s, ns div 1000) | None \<Rightarrow> None)"

definition osal_get_systemtime :: "(int \<times> int) option \<Rightarrow> u32 option" where
  "osal_get_systemtime clk =
     (case os_get_reltime clk of
        None \<Rightarrow> None
      | Some (ret, sec, usec) \<Rightarrow>
          Some (if ret \<noteq> 0 then word_of_int (sec * 1000 + usec div 1000) else 0))"

lemma osal_get_systemtime_zero: "osal_get_systemtime (Some c) = Some 0"
  by (cases c) (simp add: osal_get_systemtime_def os_get_reltime_def)

section \<open>Properties\<close>

text \<open>The timer arithmetic is exact: sum, difference and comparison of normalised times are
  those of the nanoseconds they stand for, and sums and differences are normalised again.\<close>

theorem timespec_arithmetic:
  assumes "ts_normal a" "ts_normal b"
  shows "ts_normal (timespec_add a b) \<and> ts_ns (timespec_add a b) = ts_ns a + ts_ns b
    \<and> ts_normal (timespec_sub a b) \<and> ts_ns (timespec_sub a b) = ts_ns a - ts_ns b
    \<and> timespec_compare a b = sgn (ts_ns a - ts_ns b)"
  using assms by (simp add: timespec_add_sound timespec_sub_sound timespec_compare_sound)

theorem timespec_arithmetic_witness:
  "timespec_sub \<lparr>tv_sec = 3, tv_nsec = 1\<rparr> \<lparr>tv_sec = 1, tv_nsec = 2\<rparr> = \<lparr>tv_sec = 1, tv_nsec = 999999999\<rparr>
    \<and> ts_ns (timespec_sub \<lparr>tv_sec = 3, tv_nsec = 1\<rparr> \<lparr>tv_sec = 1, tv_nsec = 2\<rparr>) = 1999999999"
  using timespec_arithmetic[of "\<lparr>tv_sec = 3, tv_nsec = 1\<rparr>" "\<lparr>tv_sec = 1, tv_nsec = 2\<rparr>"]
  by (simp add: ts_normal_def timespec_sub_def ts_ns_def)

text \<open>Changing the period of a timer always leaves it running: it expires after the new period
  if that is positive, and after the old one, with an error reported, if it is not - also when
  the timer had been stopped before the call.\<close>

theorem osal_timer_change_starts:
  assumes "timer_ok t"
  shows "case osal_timer_change ms t of (r, t') \<Rightarrow>
    timer_ok t' \<and> tm_armed t' \<and> tm_value t' = ms2ts (if 0 < ms then ms else tm_millisec t)
    \<and> r = (if 0 < ms then OSAL_STATUS_SUCCESS else OSAL_STATUS_ERROR_UNDEFINED)"
  using osal_timer_change_ok[OF assms, of ms] by (simp add: case_prod_beta)

theorem osal_timer_change_starts_witness:
  "\<exists>t. osal_timer_create 1000 False True = Some t \<and> \<not> tm_armed t \<and> tm_armed (snd (osal_timer_change 200 t))"
proof -
  obtain t where "osal_timer_create 1000 False True = Some t" "timer_ok t" "\<not> tm_armed t"
    using osal_timer_create_ok[of 1000 False True] by auto
  then show ?thesis using osal_timer_change_starts[of t 200] by (auto simp: case_prod_beta)
qed

end
