(* ===== verification/CFloat.thy ===== *)
theory CFloat
  imports Prelude "HOL-Library.Log_Nat"
begin

text \<open>
  The C types \<open>float\<close> and \<open>double\<close> as IEEE 754 binary32 and binary64 with the default
  rounding mode (to nearest, ties to even). A finite number is the rational it denotes;
  every operation is exact rational arithmetic followed by one rounding, and all of it
  computes. The sign of zero is not kept: the only observer of it in the modelled code
  would be a division by a zero, and the C code divides by a variable only where the
  dividend is then zero too (the result is a NaN whatever the signs are) or where it has
  excluded zero by a test.

  A conversion to an integer type truncates, and is undefined in C when the truncated
  value does not fit: it is an option here, with \<open>None\<close> for the undefined conversion.

  The functions of \<open>libm\<close> are not determined by the C standard; they are fields of a
  record that the definitions using them take as an argument.
\<close>

section \<open>Powers of two and rounding\<close>

definition pow2 :: "int \<Rightarrow> rat" where
  "pow2 e = (if 0 \<le> e then 2 ^ nat e else 1 / 2 ^ nat (- e))"

definition rne :: "rat \<Rightarrow> int" where
  "rne q = (let f = \<lfloor>q\<rfloor>; r = q - of_int f
     in if r < 1 / 2 then f else if 1 / 2 < r then f + 1 else if even f then f else f + 1)"

definition ilog2 :: "rat \<Rightarrow> int" where
  "ilog2 q = (let (n, d) = quotient_of q; e = bitlen n - bitlen d
     in if q < pow2 e then e - 1 else e)"

datatype fmt = Single | Double

primrec prec :: "fmt \<Rightarrow> int" where "prec Single = 24" | "prec Double = 53"
primrec emin :: "fmt \<Rightarrow> int" where "emin Single = -126" | "emin Double = -1022"
primrec emax :: "fmt \<Rightarrow> int" where "emax Single = 127" | "emax Double = 1023"

definition ulp :: "fmt \<Rightarrow> rat \<Rightarrow> rat" where
  "ulp F q = pow2 (max (ilog2 \<bar>q\<bar>) (emin F) - (prec F - 1))"

definition rnd :: "fmt \<Rightarrow> rat \<Rightarrow> rat" where
  "rnd F q = (if q = 0 then 0 else of_int (rne (q / ulp F q)) * ulp F q)"

section \<open>Values and operations\<close>

datatype fl = NaN | Inf bool | Fin rat

text \<open>The argument of \<open>Inf\<close> says whether it is the negative infinity.\<close>

definition to_fl :: "fmt \<Rightarrow> rat \<Rightarrow> fl" where
  "to_fl F q = (let r = rnd F q in if pow2 (emax F + 1) \<le> \<bar>r\<bar> then Inf (r < 0) else Fin r)"

definition fl_of_int :: "fmt \<Rightarrow> int \<Rightarrow> fl" where
  "fl_of_int F k = to_fl F (of_int k)"

fun fl_cast :: "fmt \<Rightarrow> fl \<Rightarrow> fl" where
  "fl_cast F (Fin q) = to_fl F q"
| "fl_cast F x = x"

fun fl_neg :: "fl \<Rightarrow> fl" where
  "fl_neg NaN = NaN"
| "fl_neg (Inf s) = Inf (\<not> s)"
| "fl_neg (Fin q) = Fin (- q)"

fun fl_abs :: "fl \<Rightarrow> fl" where
  "fl_abs NaN = NaN"
| "fl_abs (Inf s) = Inf False"
| "fl_abs (Fin q) = Fin \<bar>q\<bar>"

fun fl_add :: "fmt \<Rightarrow> fl \<Rightarrow> fl \<Rightarrow> fl" where
  "fl_add F (Fin p) (Fin q) = to_fl F (p + q)"
| "fl_add F (Inf s) (Inf t) = (if s = t then Inf s else NaN)"
| "fl_add F (Inf s) (Fin q) = Inf s"
| "fl_add F (Fin p) (Inf t) = Inf t"
| "fl_add F x y = NaN"

definition fl_sub :: "fmt \<Rightarrow> fl \<Rightarrow> fl \<Rightarrow> fl" where
  "fl_sub F x y = fl_add F x (fl_neg y)"

fun fl_mul :: "fmt \<Rightarrow> fl \<Rightarrow> fl \<Rightarrow> fl" where
  "fl_mul F (Fin p) (Fin q) = to_fl F (p * q)"
| "fl_mul F (Inf s) (Inf t) = Inf (s \<noteq> t)"
| "fl_mul F (Inf s) (Fin q) = (if q = 0 then NaN else Inf (s \<noteq> (q < 0)))"
| "fl_mul F (Fin p) (Inf t) = (if p = 0 then NaN else Inf (t \<noteq> (p < 0)))"
| "fl_mul F x y = NaN"

fun fl_div :: "fmt \<Rightarrow> fl \<Rightarrow> fl \<Rightarrow> fl" where
  "fl_div F (Fin p) (Fin q) =
     (if q \<noteq> 0 then to_fl F (p / q) else if p = 0 then NaN else Inf (p < 0))"
| "fl_div F (Inf s) (Fin q) = Inf (s \<noteq> (q < 0))"
| "fl_div F (Fin p) (Inf t) = Fin 0"
| "fl_div F x y = NaN"

text \<open>Comparisons are false on a NaN, except \<open>!=\<close>.\<close>

fun fl_lt :: "fl \<Rightarrow> fl \<Rightarrow> bool" where
  "fl_lt (Fin p) (Fin q) = (p < q)"
| "fl_lt (Inf s) (Inf t) = (s \<and> \<not> t)"
| "fl_lt (Inf s) (Fin q) = s"
| "fl_lt (Fin p) (Inf t) = (\<not> t)"
| "fl_lt x y = False"

fun fl_eq :: "fl \<Rightarrow> fl \<Rightarrow> bool" where
  "fl_eq (Fin p) (Fin q) = (p = q)"
| "fl_eq (Inf s) (Inf t) = (s = t)"
| "fl_eq x y = False"

definition fl_le :: "fl \<Rightarrow> fl \<Rightarrow> bool" where
  "fl_le x y \<longleftrightarrow> fl_lt x y \<or> fl_eq x y"

text \<open>Truncation towards zero, then the range test of the target type.\<close>

definition trunc :: "rat \<Rightarrow> int" where
  "trunc q = (if 0 \<le> q then \<lfloor>q\<rfloor> else - \<lfloor>- q\<rfloor>)"

fun fl_to_int :: "int \<Rightarrow> int \<Rightarrow> fl \<Rightarrow> int option" where
  "fl_to_int lo hi (Fin q) = (if lo \<le> trunc q \<and> trunc q \<le> hi then Some (trunc q) else None)"
| "fl_to_int lo hi x = None"

definition fl_to_u8 :: "fl \<Rightarrow> u8 option" where
  "fl_to_u8 x = map_option word_of_int (fl_to_int 0 255 x)"

definition fl_to_u16 :: "fl \<Rightarrow> u16 option" where
  "fl_to_u16 x = map_option word_of_int (fl_to_int 0 65535 x)"

definition fl_to_u32 :: "fl \<Rightarrow> u32 option" where
  "fl_to_u32 x = map_option word_of_int (fl_to_int 0 4294967295 x)"

definition fl_to_i16 :: "fl \<Rightarrow> 16 word option" where
  "fl_to_i16 x = map_option word_of_int (fl_to_int (-32768) 32767 x)"

definition fl_to_i32 :: "fl \<Rightarrow> 32 word option" where
  "fl_to_i32 x = map_option word_of_int (fl_to_int (-2147483648) 2147483647 x)"

text \<open>The mathematical library, as the parameter it is.\<close>

record libm =
  m_sin :: "fl \<Rightarrow> fl"
  m_cos :: "fl \<Rightarrow> fl"
  m_asin :: "fl \<Rightarrow> fl"
  m_acos :: "fl \<Rightarrow> fl"
  m_atan2 :: "fl \<Rightarrow> fl \<Rightarrow> fl"
  m_sqrt :: "fl \<Rightarrow> fl"
  m_pow :: "fl \<Rightarrow> fl \<Rightarrow> fl"

section \<open>Rounding is monotone and exact on representable numbers\<close>

lemma pow2_pos [simp]: "0 < pow2 e" "pow2 e \<noteq> 0" "0 \<le> pow2 e"
  by (auto simp: pow2_def)

lemma pow2_not_nonpos [simp]: "\<not> pow2 e \<le> 0"
  by (simp add: not_le)

lemma pow2_powi: "pow2 e = 2 powi e"
  by (auto simp: pow2_def power_int_def field_simps)

lemma pow2_add: "pow2 (a + b) = pow2 a * pow2 b"
  by (simp add: pow2_powi power_int_add)

lemma pow2_diff: "pow2 (a - b) = pow2 a / pow2 b"
  by (simp add: pow2_powi power_int_diff)

lemma pow2_strict_mono: "a < b \<Longrightarrow> pow2 a < pow2 b"
  unfolding pow2_powi by (rule power_int_strict_increasing) auto

lemma pow2_less_iff [simp]: "pow2 a < pow2 b \<longleftrightarrow> a < b"
  using pow2_strict_mono[of a b] pow2_strict_mono[of b a] by (cases a b rule: linorder_cases) auto

lemma pow2_le_iff [simp]: "pow2 a \<le> pow2 b \<longleftrightarrow> a \<le> b"
  by (simp add: linorder_not_less[symmetric])

lemma pow2_nat: "0 \<le> e \<Longrightarrow> pow2 e = of_int (2 ^ nat e)"
  by (simp add: pow2_def)

lemma rne_mono: "p \<le> q \<Longrightarrow> rne p \<le> rne q"
proof -
  assume pq: "p \<le> q"
  then have fl: "\<lfloor>p\<rfloor> \<le> \<lfloor>q\<rfloor>" by (rule floor_mono)
  show ?thesis
  proof (cases "\<lfloor>p\<rfloor> = \<lfloor>q\<rfloor>")
    case True
    then show ?thesis using pq by (auto simp: rne_def Let_def)
  next
    case False
    then have "\<lfloor>p\<rfloor> + 1 \<le> \<lfloor>q\<rfloor>" using fl by simp
    moreover have "rne p \<le> \<lfloor>p\<rfloor> + 1" by (simp add: rne_def Let_def)
    moreover have "\<lfloor>q\<rfloor> \<le> rne q" by (simp add: rne_def Let_def)
    ultimately show ?thesis by linarith
  qed
qed

lemma rne_of_int [simp]: "rne (of_int k) = k"
  by (simp add: rne_def)

lemma rne_error: "\<bar>of_int (rne q) - q\<bar> \<le> 1 / 2"
  by (simp add: rne_def Let_def abs_if) linarith

lemma ilog2_bounds:
  assumes "0 < q"
  shows "pow2 (ilog2 q) \<le> q" "q < pow2 (ilog2 q + 1)"
proof -
  obtain n d where nd: "quotient_of q = (n, d)" by fastforce
  then have q: "q = of_int n / of_int d" by (rule quotient_of_div)
  have d: "0 < d" using nd by (rule quotient_of_denom_pos)
  have n: "0 < n" using assms d q by (auto simp: zero_less_divide_iff)
  have bl: "0 < bitlen n" "0 < bitlen d" using n d by (simp_all add: bitlen_eq_zero_iff order.strict_iff_order bitlen_nonneg)
  have N: "pow2 (bitlen n - 1) \<le> of_int n" "of_int n < pow2 (bitlen n)"
    using bitlen_bounds[OF n] bl by (simp_all only: pow2_nat of_int_less_iff of_int_le_iff)
  have D: "pow2 (bitlen d - 1) \<le> of_int d" "of_int d < pow2 (bitlen d)"
    using bitlen_bounds[OF d] bl by (simp_all only: pow2_nat of_int_less_iff of_int_le_iff)
  have "pow2 (bitlen n - bitlen d - 1) = pow2 (bitlen n - 1) / pow2 (bitlen d)"
    by (simp add: pow2_diff[symmetric] algebra_simps)
  also have "\<dots> \<le> q"
    unfolding q using N(1) D(2) d by (intro frac_le) (auto simp: n less_imp_le)
  finally have lo: "pow2 (bitlen n - bitlen d - 1) \<le> q" .
  have "q < pow2 (bitlen n) / pow2 (bitlen d - 1)"
    unfolding q using N(2) D(1) d n by (intro frac_less) auto
  also have "\<dots> = pow2 (bitlen n - bitlen d + 1)"
    by (simp add: pow2_diff[symmetric] algebra_simps)
  finally have hi: "q < pow2 (bitlen n - bitlen d + 1)" .
  show "pow2 (ilog2 q) \<le> q" "q < pow2 (ilog2 q + 1)"
    using lo hi by (auto simp: ilog2_def nd Let_def)
qed

lemma ilog2_mono: "0 < p \<Longrightarrow> p \<le> q \<Longrightarrow> ilog2 p \<le> ilog2 q"
  using ilog2_bounds(1)[of p] ilog2_bounds(2)[of q] pow2_less_iff[of "ilog2 p" "ilog2 q + 1"]
  by linarith

lemma ulp_pos [simp]: "0 < ulp F q" "ulp F q \<noteq> 0" "0 \<le> ulp F q"
  by (simp_all add: ulp_def)

lemma prec_pos [simp]: "1 < prec F" "0 < prec F" by (cases F; simp)+

lemma rnd_nonneg: "0 \<le> q \<Longrightarrow> 0 \<le> rnd F q"
  using rne_mono[of 0 "q / ulp F q"] rne_of_int[of 0] by (auto simp: rnd_def)

lemma rnd_upper:
  assumes "0 < q"
  shows "rnd F q \<le> pow2 (max (ilog2 q) (emin F) + 1)"
proof -
  let ?e = "max (ilog2 q) (emin F)"
  have "q \<le> pow2 (?e + 1)"
    using ilog2_bounds(2)[OF assms] pow2_le_iff[of "ilog2 q + 1" "?e + 1"] by linarith
  then have "q / ulp F q \<le> pow2 (?e + 1) / ulp F q" by (simp add: divide_right_mono)
  also have "\<dots> = pow2 (prec F)"
    using assms by (simp add: ulp_def pow2_diff[symmetric] algebra_simps)
  also have "\<dots> = of_int (2 ^ nat (prec F))" by (simp add: pow2_nat less_imp_le)
  finally have "rne (q / ulp F q) \<le> 2 ^ nat (prec F)"
    using rne_mono rne_of_int by metis
  then have "of_int (rne (q / ulp F q)) \<le> pow2 (prec F)"
    by (simp add: pow2_nat less_imp_le del: of_int_power)
  then have "rnd F q \<le> pow2 (prec F) * ulp F q"
    using assms by (simp add: rnd_def mult_right_mono)
  also have "\<dots> = pow2 (?e + 1)"
    using assms by (simp add: ulp_def pow2_add[symmetric])
  finally show ?thesis .
qed

lemma rnd_lower:
  assumes "0 < q" "pow2 e \<le> q" "emin F \<le> e"
  shows "pow2 e \<le> rnd F q"
proof -
  let ?f = "max (ilog2 q) (emin F)"
  have ef: "e \<le> ?f"
    using ilog2_bounds(2)[OF assms(1)] assms(2) pow2_less_iff[of e "ilog2 q + 1"] by linarith
  have f: "?f = ilog2 q" using assms ef
    using ilog2_bounds(2)[OF assms(1)] pow2_less_iff[of e "ilog2 q + 1"] by linarith
  have "pow2 ?f \<le> q" using ilog2_bounds(1)[OF assms(1)] f by simp
  then have "pow2 ?f / ulp F q \<le> q / ulp F q" by (simp add: divide_right_mono)
  moreover have "pow2 ?f / ulp F q = pow2 (prec F - 1)"
    using assms by (simp add: ulp_def pow2_diff[symmetric])
  moreover have "pow2 (prec F - 1) = of_int (2 ^ nat (prec F - 1))"
    using prec_pos[of F] by (simp only: pow2_nat)
  ultimately have "2 ^ nat (prec F - 1) \<le> rne (q / ulp F q)"
    using rne_mono rne_of_int by metis
  then have "pow2 (prec F - 1) \<le> of_int (rne (q / ulp F q))"
    using prec_pos[of F] by (simp add: pow2_nat del: of_int_power)
  then have "pow2 (prec F - 1) * ulp F q \<le> rnd F q"
    using assms by (simp add: rnd_def mult_right_mono)
  moreover have "pow2 (prec F - 1) * ulp F q = pow2 ?f"
    using assms by (simp add: ulp_def pow2_add[symmetric])
  ultimately show ?thesis using ef pow2_le_iff[of e ?f] by linarith
qed

lemma rnd_mono_pos:
  assumes "0 < p" "p \<le> q"
  shows "rnd F p \<le> rnd F q"
proof (cases "max (ilog2 p) (emin F) = max (ilog2 q) (emin F)")
  case True
  then have u: "ulp F p = ulp F q" using assms by (simp add: ulp_def)
  have "rne (p / ulp F q) \<le> rne (q / ulp F q)"
    using assms by (intro rne_mono divide_right_mono) auto
  then show ?thesis using assms u by (simp add: rnd_def mult_right_mono)
next
  case False
  have "ilog2 p \<le> ilog2 q" using assms by (rule ilog2_mono)
  then have lt: "max (ilog2 p) (emin F) + 1 \<le> ilog2 q" "emin F \<le> ilog2 q" using False by auto
  have "rnd F p \<le> pow2 (max (ilog2 p) (emin F) + 1)" using assms by (intro rnd_upper)
  also have "\<dots> \<le> pow2 (ilog2 q)" using lt by simp
  also have "\<dots> \<le> rnd F q"
    using assms lt ilog2_bounds(1)[of q] by (intro rnd_lower) auto
  finally show ?thesis .
qed

lemma rnd_mono: "0 \<le> p \<Longrightarrow> p \<le> q \<Longrightarrow> rnd F p \<le> rnd F q"
  using rnd_mono_pos[of p q F] rnd_nonneg[of q F] by (cases "p = 0") (auto simp: rnd_def)

lemma rnd_of_int:
  assumes "\<bar>k\<bar> < 2 ^ nat (prec F)"
  shows "rnd F (of_int k) = of_int k"
proof (cases "k = 0")
  case False
  let ?q = "\<bar>of_int k\<bar> :: rat"
  let ?e = "max (ilog2 ?q) (emin F) - (prec F - 1)"
  have q: "0 < ?q" using False by simp
  have "?q = of_int \<bar>k\<bar>" by simp
  also have "\<dots> < of_int (2 ^ nat (prec F))" using assms of_int_less_iff by blast
  also have "\<dots> = pow2 (prec F)" by (simp add: pow2_nat less_imp_le)
  finally have "ilog2 ?q < prec F"
    using ilog2_bounds(1)[OF q] pow2_less_iff[of "ilog2 ?q" "prec F"] by linarith
  then have e: "?e \<le> 0" by (cases F) auto
  have "of_int k / ulp F (of_int k) = of_int (k * 2 ^ nat (- ?e))"
    using e by (simp add: ulp_def pow2_def)
  then show ?thesis by (simp only: rnd_def rne_of_int) (use e in \<open>simp add: ulp_def pow2_def\<close>)
qed (simp add: rnd_def)

lemma rnd_0 [simp]: "rnd F 0 = 0" by (simp add: rnd_def)

lemma to_fl_0 [simp]: "to_fl F 0 = Fin 0"
  by (simp add: to_fl_def)

lemma pow2_emax: "of_int (2 ^ nat (prec F)) < pow2 (emax F + 1)"
  by (cases F) (simp_all add: pow2_def)

lemma fl_of_int_exact: "\<bar>k\<bar> < 2 ^ nat (prec F) \<Longrightarrow> fl_of_int F k = Fin (of_int k)"
proof -
  assume k: "\<bar>k\<bar> < 2 ^ nat (prec F)"
  have "\<bar>of_int k :: rat\<bar> = of_int \<bar>k\<bar>" by simp
  also have "\<dots> < of_int (2 ^ nat (prec F))" using k of_int_less_iff by blast
  also have "\<dots> < pow2 (emax F + 1)" by (rule pow2_emax)
  finally show ?thesis using rnd_of_int[OF k] by (simp add: fl_of_int_def to_fl_def)
qed

text \<open>A result between 0 and an integer that the format holds exactly stays between them.\<close>

lemma rnd_int_bound: "0 \<le> q \<Longrightarrow> q \<le> of_int k \<Longrightarrow> \<bar>k\<bar> < 2 ^ nat (prec F) \<Longrightarrow> rnd F q \<le> of_int k"
  using rnd_mono[of q "of_int k" F] by (simp add: rnd_of_int)

lemma to_fl_range:
  assumes "0 \<le> q" "q \<le> of_int k" "k < 2 ^ nat (prec F)"
  shows "to_fl F q = Fin (rnd F q)" "0 \<le> rnd F q" "rnd F q \<le> of_int k"
proof -
  have k: "0 \<le> k" using assms by (metis of_int_0_le_iff order_trans)
  show r: "0 \<le> rnd F q" "rnd F q \<le> of_int k"
    using assms k by (auto intro!: rnd_nonneg rnd_int_bound)
  have "(of_int k :: rat) < of_int (2 ^ nat (prec F))" using assms by (simp only: of_int_less_iff)
  then have "\<not> pow2 (emax F + 1) \<le> \<bar>rnd F q\<bar>"
    using r pow2_emax[of F] by linarith
  then show "to_fl F q = Fin (rnd F q)" by (simp add: to_fl_def Let_def)
qed

lemma rne_minus: "rne (- q) = - rne q"
proof (cases "q = of_int \<lfloor>q\<rfloor>")
  case True
  then show ?thesis by (metis of_int_minus rne_of_int)
next
  case False
  define f where "f = \<lfloor>q\<rfloor>"
  have "of_int f \<le> q" "q \<noteq> of_int f" using False by (simp_all add: f_def)
  then have b: "of_int f < q" by simp
  have c: "q < of_int f + 1" using floor_correct[of q] by (simp add: f_def)
  have "\<lfloor>- q\<rfloor> = - f - 1" using b c by (intro floor_unique) simp_all
  then show ?thesis using b c by (auto simp: rne_def Let_def f_def[symmetric])
qed

lemma rnd_minus: "rnd F (- q) = - rnd F q"
proof -
  have "ulp F (- q) = ulp F q" by (simp add: ulp_def)
  then show ?thesis using rne_minus[of "q / ulp F q"] by (simp add: rnd_def)
qed

lemma to_fl_between:
  assumes "of_int a \<le> q" "q \<le> of_int k" "0 \<le> a" "k < 2 ^ nat (prec F)"
  obtains r where "to_fl F q = Fin r" "of_int a \<le> r" "r \<le> of_int k"
proof -
  have "a \<le> k" using assms(1,2) by (metis of_int_le_iff order_trans)
  then have "rnd F (of_int a) = of_int a" using assms(3,4) by (simp add: rnd_of_int)
  then have "of_int a \<le> rnd F q" using rnd_mono[OF _ assms(1), of F] assms(3) by simp
  moreover have "0 \<le> q" using assms(1,3) by (metis of_int_0_le_iff order_trans)
  ultimately show thesis using that to_fl_range[of q k F] assms(2,4) by blast
qed

lemma trunc_0: "trunc 0 = 0"
  by (simp add: trunc_def)

lemma trunc_mono: "0 \<le> p \<Longrightarrow> p \<le> q \<Longrightarrow> trunc p \<le> trunc q"
  by (simp add: trunc_def floor_mono)

end
