(* ===== verification/CmsDef.thy ===== *)
theory CmsDef
  imports Osal CFloat
begin

text \<open>
  The shared data types of \<open>include/cv_vam.h\<close>, \<open>include/cv_vsa.h\<close>, \<open>include/cv_wnet.h\<close> and
  \<open>include/cv_cms_def.h\<close>: station status, configuration records, message identifiers and
  messages between tasks. Field names carry a prefix, since record fields are global here.
\<close>

section \<open>Station status\<close>

record vam_position =
  p_lat :: fl
  p_lon :: fl
  p_elev :: fl
  p_accu :: fl

record vam_acce =
  a_lon :: fl
  a_lat :: fl
  a_vert :: fl
  a_yaw :: fl

record vam_stastatus =
  s_pid :: bytes
  s_timestamp :: u16
  s_pos :: vam_position
  s_dir :: fl
  s_speed :: fl
  s_acce :: vam_acce
  s_alert_mask :: u16
  s_time :: u32
  s_cnt :: u8

record vam_sta_node =
  n_s :: vam_stastatus
  n_life :: u16
  n_alert_life :: u16

record vam_rsa_evt_info =
  r_rsa_mask :: u16
  r_priority :: u8
  r_head :: u16
  r_pos :: vam_position

record vam_pos_data =
  d_distance_1_2 :: fl
  d_distance_2_3 :: fl
  d_angle :: fl

definition RCP_TEMP_ID_LEN :: nat where "RCP_TEMP_ID_LEN = 4"

text \<open>The all-zero structures \<open>memset\<close> leaves behind.\<close>

definition zero_pos :: vam_position where
  "zero_pos = \<lparr>p_lat = Fin 0, p_lon = Fin 0, p_elev = Fin 0, p_accu = Fin 0\<rparr>"

definition zero_acce :: vam_acce where
  "zero_acce = \<lparr>a_lon = Fin 0, a_lat = Fin 0, a_vert = Fin 0, a_yaw = Fin 0\<rparr>"

definition zero_sta :: vam_stastatus where
  "zero_sta = \<lparr>s_pid = [0, 0, 0, 0], s_timestamp = 0, s_pos = zero_pos, s_dir = Fin 0,
     s_speed = Fin 0, s_acce = zero_acce, s_alert_mask = 0, s_time = 0, s_cnt = 0\<rparr>"

definition zero_node :: vam_sta_node where
  "zero_node = \<lparr>n_s = zero_sta, n_life = 0, n_alert_life = 0\<rparr>"

section \<open>VAM constants\<close>

definition RCP_MSG_ID_BSM :: u32 where "RCP_MSG_ID_BSM = 2"
definition RCP_MSG_ID_EVAM :: u32 where "RCP_MSG_ID_EVAM = 5"
definition RCP_MSG_ID_RSA :: u32 where "RCP_MSG_ID_RSA = 11"
definition RCP_MSG_ID_RTCM :: u32 where "RCP_MSG_ID_RTCM = 12"

lemmas rcp_msg_id_defs = RCP_MSG_ID_BSM_def RCP_MSG_ID_EVAM_def RCP_MSG_ID_RSA_def
  RCP_MSG_ID_RTCM_def

definition BSM_BC_MODE_DISABLE :: u8 where "BSM_BC_MODE_DISABLE = 0"
definition BSM_BC_MODE_AUTO :: u8 where "BSM_BC_MODE_AUTO = 1"
definition BSM_BC_MODE_FIXED :: u8 where "BSM_BC_MODE_FIXED = 2"

lemmas bsm_mode_defs = BSM_BC_MODE_DISABLE_def BSM_BC_MODE_AUTO_def BSM_BC_MODE_FIXED_def

abbreviation (input) VAM_FLAG_RX :: u32 where "VAM_FLAG_RX \<equiv> 0x0001"
abbreviation (input) VAM_FLAG_TX_BSM :: u32 where "VAM_FLAG_TX_BSM \<equiv> 0x0002"
abbreviation (input) VAM_FLAG_TX_BSM_ALERT :: u32 where "VAM_FLAG_TX_BSM_ALERT \<equiv> 0x0004"
abbreviation (input) VAM_FLAG_TX_BSM_PAUSE :: u32 where "VAM_FLAG_TX_BSM_PAUSE \<equiv> 0x0008"
abbreviation (input) VAM_FLAG_TX_EVAM :: u32 where "VAM_FLAG_TX_EVAM \<equiv> 0x0010"
abbreviation (input) VAM_FLAG_GPS_FIXED :: u32 where "VAM_FLAG_GPS_FIXED \<equiv> 0x0020"
abbreviation (input) VAM_FLAG_TX_RSA :: u32 where "VAM_FLAG_TX_RSA \<equiv> 0x0100"

definition VAM_NEIGHBOUR_MAXNUM :: nat where "VAM_NEIGHBOUR_MAXNUM = 80"
definition VAM_NEIGHBOUR_MAXLIFE :: u16 where "VAM_NEIGHBOUR_MAXLIFE = 5"
definition VAM_REMOTE_ALERT_MAXLIFE :: u16 where "VAM_REMOTE_ALERT_MAXLIFE = 5"
definition VAM_NO_ALERT_EVAM_TX_TIMES :: u8 where "VAM_NO_ALERT_EVAM_TX_TIMES = 5"

abbreviation (input) VAM_ALERT_MASK_VBD :: u16 where "VAM_ALERT_MASK_VBD \<equiv> 1"
abbreviation (input) VAM_ALERT_MASK_EBD :: u16 where "VAM_ALERT_MASK_EBD \<equiv> 2"
abbreviation (input) VAM_ALERT_MASK_VOT :: u16 where "VAM_ALERT_MASK_VOT \<equiv> 4"

datatype vam_evt = VAM_EVT_LOCAL_UPDATE | VAM_EVT_PEER_UPDATE | VAM_EVT_PEER_ALARM
  | VAM_EVT_GPS_STATUS | VAM_EVT_GSNR_EBD_DETECT | VAM_EVT_RSA_UPDATE | VAM_EVT_EVA_UPDATE

definition vam_evt_of :: "u32 \<Rightarrow> vam_evt option" where
  "vam_evt_of n =
     (if n = 0 then Some VAM_EVT_LOCAL_UPDATE else if n = 1 then Some VAM_EVT_PEER_UPDATE
      else if n = 2 then Some VAM_EVT_PEER_ALARM else if n = 3 then Some VAM_EVT_GPS_STATUS
      else if n = 4 then Some VAM_EVT_GSNR_EBD_DETECT else if n = 5 then Some VAM_EVT_RSA_UPDATE
      else if n = 6 then Some VAM_EVT_EVA_UPDATE else None)"

section \<open>Configuration\<close>

record vam_config =
  bsm_hops :: u8
  bsm_boardcast_mode :: u8
  bsm_boardcast_saftyfactor :: u8
  bsm_pause_mode :: u8
  bsm_pause_hold_time :: u8
  bsm_boardcast_period :: u16
  evam_hops :: u8
  evam_broadcast_type :: u8
  evam_broadcast_peroid :: u16

record vsa_config =
  danger_detect_speed_threshold :: u8
  lane_dis :: u16
  crd_saftyfactor :: u8
  crd_oppsite_speed :: u8
  crd_oppsite_rear_speed :: u8
  crd_rear_distance :: u8
  ebd_mode :: u8
  ebd_acceleration_threshold :: u8
  ebd_alert_hold_time :: u8

record wnet_config =
  w_channel :: u8
  w_txrate :: u8
  w_mode :: u8

record cfg_param =
  c_pid :: bytes
  c_vam :: vam_config
  c_vsa :: vsa_config
  c_wnet :: wnet_config
  c_print_xxx :: u8

section \<open>Messages between tasks\<close>

text \<open>
  The two pointer-sized arguments of a message; what \<open>argv\<close> points to is given by the type
  of messages of the receiving task, so it is a type variable.
\<close>

record 'a sys_msg =
  m_id :: u16
  m_len :: u16
  m_argc :: u32
  m_argv :: 'a

abbreviation (input) SYS_MSG_BASE :: u16 where "SYS_MSG_BASE \<equiv> 0x0000"
abbreviation (input) SYS_MSG_INITED :: u16 where "SYS_MSG_INITED \<equiv> 0x0001"
abbreviation (input) SYS_MSG_KEY_PRESSED :: u16 where "SYS_MSG_KEY_PRESSED \<equiv> 0x0002"
abbreviation (input) SYS_MSG_KEY_RELEASED :: u16 where "SYS_MSG_KEY_RELEASED \<equiv> 0x0003"
abbreviation (input) SYS_MSG_START_ALERT :: u16 where "SYS_MSG_START_ALERT \<equiv> 0x0004"
abbreviation (input) SYS_MSG_STOP_ALERT :: u16 where "SYS_MSG_STOP_ALERT \<equiv> 0x0005"
abbreviation (input) SYS_MSG_ALARM_ACTIVE :: u16 where "SYS_MSG_ALARM_ACTIVE \<equiv> 0x0006"
abbreviation (input) SYS_MSG_ALARM_CANCEL :: u16 where "SYS_MSG_ALARM_CANCEL \<equiv> 0x0007"
abbreviation (input) SYS_MSG_GPS_UPDATE :: u16 where "SYS_MSG_GPS_UPDATE \<equiv> 0x0008"
abbreviation (input) SYS_MSG_BSM_UPDATE :: u16 where "SYS_MSG_BSM_UPDATE \<equiv> 0x0009"
abbreviation (input) SYS_MSG_HI_IN_UPDATE :: u16 where "SYS_MSG_HI_IN_UPDATE \<equiv> 0x000A"
abbreviation (input) SYS_MSG_HI_OUT_UPDATE :: u16 where "SYS_MSG_HI_OUT_UPDATE \<equiv> 0x000B"

abbreviation (input) VAM_MSG_START :: u16 where "VAM_MSG_START \<equiv> 0x0201"
abbreviation (input) VAM_MSG_STOP :: u16 where "VAM_MSG_STOP \<equiv> 0x0202"
abbreviation (input) VAM_MSG_RCPTX :: u16 where "VAM_MSG_RCPTX \<equiv> 0x0203"
abbreviation (input) VAM_MSG_RCPRX :: u16 where "VAM_MSG_RCPRX \<equiv> 0x0204"
abbreviation (input) VAM_MSG_NEIGH_TIMEOUT :: u16 where "VAM_MSG_NEIGH_TIMEOUT \<equiv> 0x0205"
abbreviation (input) VAM_MSG_GPSDATA :: u16 where "VAM_MSG_GPSDATA \<equiv> 0x0206"

abbreviation (input) VSA_MSG_BASE :: u16 where "VSA_MSG_BASE \<equiv> 0x0300"
abbreviation (input) VSA_MSG_MANUAL_BC :: u16 where "VSA_MSG_MANUAL_BC \<equiv> 0x0301"
abbreviation (input) VSA_MSG_EEBL_BC :: u16 where "VSA_MSG_EEBL_BC \<equiv> 0x0302"
abbreviation (input) VSA_MSG_AUTO_BC :: u16 where "VSA_MSG_AUTO_BC \<equiv> 0x0303"
abbreviation (input) VSA_MSG_CFCW_ALARM :: u16 where "VSA_MSG_CFCW_ALARM \<equiv> 0x0304"
abbreviation (input) VSA_MSG_CRCW_ALARM :: u16 where "VSA_MSG_CRCW_ALARM \<equiv> 0x0305"
abbreviation (input) VSA_MSG_OPPOSITE_ALARM :: u16 where "VSA_MSG_OPPOSITE_ALARM \<equiv> 0x0306"
abbreviation (input) VSA_MSG_SIDE_ALARM :: u16 where "VSA_MSG_SIDE_ALARM \<equiv> 0x0307"
abbreviation (input) VSA_MSG_ACC_RC :: u16 where "VSA_MSG_ACC_RC \<equiv> 0x0308"
abbreviation (input) VSA_MSG_EEBL_RC :: u16 where "VSA_MSG_EEBL_RC \<equiv> 0x0309"
abbreviation (input) VSA_MSG_X_RC :: u16 where "VSA_MSG_X_RC \<equiv> 0x030A"
abbreviation (input) VSA_MSG_XX_RC :: u16 where "VSA_MSG_XX_RC \<equiv> 0x030B"
abbreviation (input) VSA_MSG_XXX_RC :: u16 where "VSA_MSG_XXX_RC \<equiv> 0x030C"

abbreviation (input) VAM_QUEUE_SIZE :: nat where "VAM_QUEUE_SIZE \<equiv> 20"
abbreviation (input) VSA_QUEUE_SIZE :: nat where "VSA_QUEUE_SIZE \<equiv> 16"
abbreviation (input) SYS_QUEUE_SIZE :: nat where "SYS_QUEUE_SIZE \<equiv> 16"
abbreviation (input) WNET_QUEUE_SIZE :: nat where "WNET_QUEUE_SIZE \<equiv> 20"

datatype hi_out_type = HI_OUT_NONE | HI_OUT_SYS_INIT | HI_OUT_BSM_UPDATE | HI_OUT_BSM_NONE
  | HI_OUT_GPS_CAPTURED | HI_OUT_GPS_LOST | HI_OUT_CRD_ALERT | HI_OUT_CRD_CANCEL
  | HI_OUT_CRD_REAR_ALERT | HI_OUT_CRD_REAR_CANCEL | HI_OUT_VBD_ALERT | HI_OUT_VBD_CANCEL
  | HI_OUT_VBD_STATUS | HI_OUT_VBD_STOP | HI_OUT_EBD_ALERT | HI_OUT_EBD_CANCEL
  | HI_OUT_EBD_STATUS | HI_OUT_EBD_STOP | HI_OUT_CANCEL_ALERT

section \<open>Wireless interface types\<close>

record wnet_txinfo =
  tx_dest_mac :: bytes
  tx_aid :: u32
  tx_protocol :: u8
  tx_encryption :: u8
  tx_prority :: u8
  tx_timestamp :: u32

record wnet_rxinfo =
  rx_src_mac :: bytes
  rx_aid :: u32
  rx_protocol :: u8
  rx_encryption :: u8
  rx_rssi :: u8
  rx_timestamp :: u32

abbreviation (input) TXBUF_LENGTH :: nat where "TXBUF_LENGTH \<equiv> 512"
abbreviation (input) RXBUF_LENGTH :: nat where "RXBUF_LENGTH \<equiv> 512"
abbreviation (input) TXBUF_RESERVE_LENGTH :: nat where "TXBUF_RESERVE_LENGTH \<equiv> 20"

end
