(* ===== verification/ListH.thy ===== *)
theory ListH
  imports Prelude
begin

text \<open>
  The intrusive doubly linked lists of \<open>include/list.h\<close>. A \<open>list_head\<close> is two
  pointers; a heap gives both for every address, and the type \<open>'p\<close> of the addresses is
  chosen by the component that embeds the links (its list heads and its nodes).
  The operations are the writes of the C code, in the order of the C code.
  The predicate \<open>dll\<close> relates a head to the list of the nodes linked behind it, and the
  laws of each operation are stated once over \<open>dll\<close>: what it does to its own list and
  that it leaves a disjoint list alone.
\<close>

section \<open>Heap and operations\<close>

record 'p list_heap =
  lnext :: "'p \<Rightarrow> 'p"
  lprev :: "'p \<Rightarrow> 'p"

definition set_next :: "'p \<Rightarrow> 'p \<Rightarrow> 'p list_heap \<Rightarrow> 'p list_heap" where
  "set_next a b h = h\<lparr>lnext := (lnext h)(a := b)\<rparr>"

definition set_prev :: "'p \<Rightarrow> 'p \<Rightarrow> 'p list_heap \<Rightarrow> 'p list_heap" where
  "set_prev a b h = h\<lparr>lprev := (lprev h)(a := b)\<rparr>"

definition INIT_LIST_HEAD :: "'p \<Rightarrow> 'p list_heap \<Rightarrow> 'p list_heap" where
  "INIT_LIST_HEAD ptr h = set_prev ptr ptr (set_next ptr ptr h)"

definition list_add_between :: "'p \<Rightarrow> 'p \<Rightarrow> 'p \<Rightarrow> 'p list_heap \<Rightarrow> 'p list_heap" where
  "list_add_between new prv nxt h =
     (let h = set_prev nxt new h;
          h = set_next new nxt h;
          h = set_prev new prv h
      in set_next prv new h)"

definition list_add :: "'p \<Rightarrow> 'p \<Rightarrow> 'p list_heap \<Rightarrow> 'p list_heap" where
  "list_add new head h = list_add_between new head (lnext h head) h"

definition list_add_tail :: "'p \<Rightarrow> 'p \<Rightarrow> 'p list_heap \<Rightarrow> 'p list_heap" where
  "list_add_tail new head h = list_add_between new (lprev h head) head h"

definition list_del_between :: "'p \<Rightarrow> 'p \<Rightarrow> 'p list_heap \<Rightarrow> 'p list_heap" where
  "list_del_between prv nxt h = set_next prv nxt (set_prev nxt prv h)"

definition list_del :: "'p \<Rightarrow> 'p list_heap \<Rightarrow> 'p list_heap" where
  "list_del entry h = list_del_between (lprev h entry) (lnext h entry) h"

definition list_del_init :: "'p \<Rightarrow> 'p list_heap \<Rightarrow> 'p list_heap" where
  "list_del_init entry h =
     INIT_LIST_HEAD entry (list_del_between (lprev h entry) (lnext h entry) h)"

definition list_replace :: "'p \<Rightarrow> 'p \<Rightarrow> 'p list_heap \<Rightarrow> 'p list_heap" where
  "list_replace old new h =
     (let h = set_next new (lnext h old) h;
          h = set_prev (lnext h new) new h;
          h = set_prev new (lprev h old) h
      in set_next (lprev h new) new h)"

definition list_move :: "'p \<Rightarrow> 'p \<Rightarrow> 'p list_heap \<Rightarrow> 'p list_heap" where
  "list_move entry head h =
     list_add entry head (list_del_between (lprev h entry) (lnext h entry) h)"

definition list_move_tail :: "'p \<Rightarrow> 'p \<Rightarrow> 'p list_heap \<Rightarrow> 'p list_heap" where
  "list_move_tail entry head h =
     list_add_tail entry head (list_del_between (lprev h entry) (lnext h entry) h)"

definition list_empty :: "'p \<Rightarrow> 'p list_heap \<Rightarrow> bool" where
  "list_empty head h \<longleftrightarrow> lnext h head = head"

definition list_first_entry :: "'p \<Rightarrow> 'p list_heap \<Rightarrow> 'p" where
  "list_first_entry head h = lnext h head"

text \<open>
  \<open>list_for_each_entry\<close> with a body that only looks at the node: the nodes visited, in
  order. A corrupted list may never come back to its head, so the value is an option, and
  \<open>None\<close> stands for a loop that does not end.
\<close>

partial_function (option) list_walk :: "'p list_heap \<Rightarrow> 'p \<Rightarrow> 'p \<Rightarrow> 'p list option" where
  "list_walk h head pos =
     (if pos = head then Some []
      else Option.bind (list_walk h head (lnext h pos)) (\<lambda>ps. Some (pos # ps)))"

definition list_entries :: "'p list_heap \<Rightarrow> 'p \<Rightarrow> 'p list option" where
  "list_entries h head = list_walk h head (lnext h head)"

text \<open>The same loop with a body that stops at the first node satisfying a test.\<close>

partial_function (option) list_seek ::
    "('p \<Rightarrow> bool) \<Rightarrow> 'p list_heap \<Rightarrow> 'p \<Rightarrow> 'p \<Rightarrow> 'p option option" where
  "list_seek P h head pos =
     (if pos = head then Some None
      else if P pos then Some (Some pos)
      else list_seek P h head (lnext h pos))"

definition list_find :: "('p \<Rightarrow> bool) \<Rightarrow> 'p list_heap \<Rightarrow> 'p \<Rightarrow> 'p option option" where
  "list_find P h head = list_seek P h head (lnext h head)"

lemma set_next_sel [heap_simps, simp]:
  "lnext (set_next a b h) = (lnext h)(a := b)" "lprev (set_next a b h) = lprev h"
  by (simp_all add: set_next_def)

lemma set_prev_sel [heap_simps, simp]:
  "lnext (set_prev a b h) = lnext h" "lprev (set_prev a b h) = (lprev h)(a := b)"
  by (simp_all add: set_prev_def)

section \<open>Well-linked lists\<close>

text \<open>
  \<open>chain h x zs y\<close>: following \<open>lnext\<close> from \<open>x\<close> visits \<open>zs\<close> and arrives at \<open>y\<close>, and
  every \<open>lprev\<close> is the inverse of the \<open>lnext\<close> taken.
\<close>

fun chain :: "'p list_heap \<Rightarrow> 'p \<Rightarrow> 'p list \<Rightarrow> 'p \<Rightarrow> bool" where
  "chain h x [] y \<longleftrightarrow> lnext h x = y \<and> lprev h y = x"
| "chain h x (z # zs) y \<longleftrightarrow> lnext h x = z \<and> lprev h z = x \<and> chain h z zs y"

definition dll :: "'p list_heap \<Rightarrow> 'p \<Rightarrow> 'p list \<Rightarrow> bool" where
  "dll h head xs \<longleftrightarrow> chain h head xs head \<and> distinct (head # xs)"

lemma chain_append [simp]:
  "chain h x (xs @ z # zs) y \<longleftrightarrow> chain h x xs z \<and> chain h z zs y"
  by (induction xs arbitrary: x) auto

lemma chain_cong:
  assumes "\<And>a. a \<in> set (x # zs) \<Longrightarrow> lnext h' a = lnext h a"
    and "\<And>a. a \<in> set (zs @ [y]) \<Longrightarrow> lprev h' a = lprev h a"
  shows "chain h' x zs y = chain h x zs y"
  using assms by (induction zs arbitrary: x) auto

lemma chain_first: "chain h x zs y \<Longrightarrow> lnext h x = hd (zs @ [y])"
  by (cases zs) auto

lemma chain_last: "chain h x zs y \<Longrightarrow> lprev h y = last (x # zs)"
  by (induction zs arbitrary: x) auto

lemma dll_next_in: "dll h head xs \<Longrightarrow> lnext h head \<in> set (head # xs)"
  by (auto simp: dll_def dest!: chain_first) (cases xs, auto)

lemma dll_prev_in: "dll h head xs \<Longrightarrow> lprev h head \<in> set (head # xs)"
  by (auto simp: dll_def dest!: chain_last split: if_splits)

lemma dll_next_node_in:
  assumes "dll h head xs" "e \<in> set xs"
  shows "lnext h e \<in> set (head # xs)" "lprev h e \<in> set (head # xs)"
proof -
  obtain us vs where xs: "xs = us @ e # vs" using assms(2) split_list by fast
  with assms(1) have "chain h head us e" "chain h e vs head" by (auto simp: dll_def)
  from chain_last[OF this(1)] chain_first[OF this(2)]
  show "lnext h e \<in> set (head # xs)" "lprev h e \<in> set (head # xs)"
    by (cases vs; auto simp: xs)+
qed

lemma dll_distinct: "dll h head xs \<Longrightarrow> distinct xs \<and> head \<notin> set xs"
  by (simp add: dll_def)

section \<open>What the operations do to their list\<close>

lemma dll_init: "dll (INIT_LIST_HEAD head h) head []"
  by (simp add: dll_def INIT_LIST_HEAD_def)

lemma chain_upd_next: "a \<notin> set (x # zs) \<Longrightarrow> chain (set_next a b h) x zs y = chain h x zs y"
  by (rule chain_cong) auto

lemma chain_upd_prev: "a \<notin> set (zs @ [y]) \<Longrightarrow> chain (set_prev a b h) x zs y = chain h x zs y"
  by (rule chain_cong) auto

lemma chain_replace_prev_end:
  "a \<notin> set (x # zs) \<Longrightarrow> b \<notin> set zs \<Longrightarrow> y \<notin> set zs \<Longrightarrow> chain h x zs y \<Longrightarrow>
    chain (set_prev y (last (x # zs)) h) x zs y"
  by (induction zs arbitrary: x) auto

lemma dll_add_between:
  assumes "dll h head (xs @ ys)" "new \<notin> set (head # xs @ ys)"
  shows "dll (list_add_between new (last (head # xs)) (hd (ys @ [head])) h) head (xs @ new # ys)"
proof -
  define p where "p = last (head # xs)"
  define n where "n = hd (ys @ [head])"
  define k where "k = list_add_between new p n h"
  have nx: "lnext k = (lnext h)(new := n, p := new)"
    and pv: "lprev k = (lprev h)(n := new, new := p)"
    by (auto simp: list_add_between_def Let_def k_def)
  have d: "distinct (head # xs @ ys)" and c: "chain h head (xs @ ys) head"
    using assms(1) by (auto simp: dll_def)
  have pn: "p \<noteq> new" "n \<noteq> new"
    using assms(2) by (auto simp: p_def n_def hd_append split: if_splits)
  have left: "chain k head xs new"
  proof (cases xs rule: rev_cases)
    case Nil
    then show ?thesis using nx pv by (simp add: p_def)
  next
    case (snoc us q)
    then have q: "p = q" by (simp add: p_def)
    have "chain h head us q" using c by (simp add: snoc)
    moreover have "n \<notin> set us \<union> {q}"
      using d by (cases ys) (auto simp: n_def snoc)
    then have "chain k head us q = chain h head us q"
      using assms(2) d by (intro chain_cong) (auto simp: nx pv snoc q)
    ultimately show ?thesis by (simp add: snoc nx pv q)
  qed
  have right: "chain k new ys head"
  proof (cases ys)
    case Nil
    then show ?thesis using pn by (simp add: nx pv n_def)
  next
    case (Cons m vs)
    then have m: "n = m" by (simp add: n_def)
    have "chain h m vs head" using c by (simp add: Cons)
    moreover have "p \<notin> set ys"
      using d by (cases xs rule: rev_cases) (auto simp: p_def)
    then have "chain k m vs head = chain h m vs head"
      using assms(2) d by (intro chain_cong) (auto simp: nx pv Cons m)
    ultimately show ?thesis using pn by (simp add: Cons nx pv m)
  qed
  have "dll k head (xs @ new # ys)"
    using left right assms by (auto simp: dll_def)
  then show ?thesis by (simp only: k_def p_def n_def)
qed

lemma dll_list_add:
  "dll h head xs \<Longrightarrow> new \<notin> set (head # xs) \<Longrightarrow> dll (list_add new head h) head (new # xs)"
  using dll_add_between[of h head "[]" xs new] chain_first[of h head xs head]
  by (simp add: list_add_def dll_def)

lemma dll_list_add_tail:
  "dll h head xs \<Longrightarrow> new \<notin> set (head # xs) \<Longrightarrow> dll (list_add_tail new head h) head (xs @ [new])"
  using dll_add_between[of h head xs "[]" new] chain_last[of h head xs head]
  by (simp add: list_add_tail_def dll_def)

lemma dll_list_del:
  assumes "dll h head (xs @ e # ys)"
  shows "dll (list_del e h) head (xs @ ys)"
proof -
  define p where "p = last (head # xs)"
  define n where "n = hd (ys @ [head])"
  define k where "k = list_del e h"
  have ch: "chain h head xs e" "chain h e ys head"
    and d: "distinct (head # xs @ e # ys)" using assms by (auto simp: dll_def)
  have "lprev h e = p" "lnext h e = n"
    using ch chain_first chain_last unfolding p_def n_def by fast+
  then have nx: "lnext k = (lnext h)(p := n)" and pv: "lprev k = (lprev h)(n := p)"
    by (simp_all add: k_def list_del_def list_del_between_def)
  have left: "chain k head xs n"
  proof (cases xs rule: rev_cases)
    case Nil
    then show ?thesis using nx pv by (simp add: p_def)
  next
    case (snoc us q)
    then have q: "p = q" by (simp add: p_def)
    have "n \<notin> set us \<union> {q}" using d by (cases ys) (auto simp: n_def snoc)
    then have "chain k head us q = chain h head us q"
      using d by (intro chain_cong) (auto simp: nx pv snoc q)
    then show ?thesis using ch by (simp add: snoc nx pv q)
  qed
  have "chain k head (xs @ ys) head"
  proof (cases ys)
    case Nil
    then show ?thesis using left by (simp add: n_def)
  next
    case (Cons m vs)
    then have m: "n = m" by (simp add: n_def)
    have "p \<notin> set ys" using d by (cases xs rule: rev_cases) (auto simp: p_def)
    then have "chain k m vs head = chain h m vs head"
      using d by (intro chain_cong) (auto simp: nx pv Cons m)
    then show ?thesis using ch left by (simp add: Cons m)
  qed
  with d show ?thesis by (simp add: dll_def k_def)
qed

section \<open>Disjoint lists are left alone\<close>

lemma dll_frame:
  assumes "dll h b ys"
    and "\<And>a. a \<in> set (b # ys) \<Longrightarrow> lnext h' a = lnext h a \<and> lprev h' a = lprev h a"
  shows "dll h' b ys"
proof -
  have "chain h' b ys b = chain h b ys b" by (rule chain_cong) (use assms(2) in auto)
  with assms(1) show ?thesis by (simp add: dll_def)
qed

lemma dll_frame_add_between:
  assumes "dll h b ys" "{new, p, n} \<inter> set (b # ys) = {}"
  shows "dll (list_add_between new p n h) b ys"
  using assms(1) by (rule dll_frame) (use assms(2) in \<open>auto simp: list_add_between_def Let_def\<close>)

lemma dll_frame_del:
  assumes "dll h b ys" "{lprev h e, lnext h e} \<inter> set (b # ys) = {}"
  shows "dll (list_del e h) b ys"
  using assms(1)
  by (rule dll_frame) (use assms(2) in \<open>auto simp: list_del_def list_del_between_def\<close>)

lemma dll_frame_list_add:
  assumes "dll h a xs" "dll h b ys" "set (a # xs) \<inter> set (b # ys) = {}" "new \<notin> set (b # ys)"
  shows "dll (list_add new a h) b ys"
  unfolding list_add_def
  using dll_next_in[OF assms(1)] assms by (intro dll_frame_add_between) auto

lemma dll_frame_list_add_tail:
  assumes "dll h a xs" "dll h b ys" "set (a # xs) \<inter> set (b # ys) = {}" "new \<notin> set (b # ys)"
  shows "dll (list_add_tail new a h) b ys"
  unfolding list_add_tail_def
  using dll_prev_in[OF assms(1)] assms by (intro dll_frame_add_between) auto

lemma dll_frame_list_del:
  assumes "dll h a xs" "e \<in> set xs" "dll h b ys" "set (a # xs) \<inter> set (b # ys) = {}"
  shows "dll (list_del e h) b ys"
  using dll_next_node_in[OF assms(1,2)] assms by (intro dll_frame_del) auto

section \<open>Traversals\<close>

lemma list_walk_chain:
  "chain h x zs head \<Longrightarrow> head \<notin> set zs \<Longrightarrow> list_walk h head (lnext h x) = Some zs"
proof (induction zs arbitrary: x)
  case (Cons z zs)
  then show ?case by (subst list_walk.simps) auto
qed (simp add: list_walk.simps)

lemma list_entries_dll: "dll h head xs \<Longrightarrow> list_entries h head = Some xs"
  by (simp add: dll_def list_entries_def list_walk_chain)

lemma list_seek_chain:
  "chain h x zs head \<Longrightarrow> head \<notin> set zs \<Longrightarrow>
    list_seek P h head (lnext h x) = Some (List.find P zs)"
proof (induction zs arbitrary: x)
  case (Cons z zs)
  then show ?case by (subst list_seek.simps) auto
qed (simp add: list_seek.simps)

lemma list_find_dll: "dll h head xs \<Longrightarrow> list_find P h head = Some (List.find P xs)"
  by (simp add: dll_def list_find_def list_seek_chain)

lemma list_empty_dll: "dll h head xs \<Longrightarrow> list_empty head h \<longleftrightarrow> xs = []"
  by (cases xs) (auto simp: dll_def list_empty_def)

lemma list_first_dll: "dll h head (x # xs) \<Longrightarrow> list_first_entry head h = x"
  by (simp add: dll_def list_first_entry_def)

section \<open>Moving a node between two lists\<close>

text \<open>Two lists without a common node or head, as every pool of nodes in the code has them.\<close>

definition two_lists ::
    "('h \<Rightarrow> 'p \<Rightarrow> 'p list \<Rightarrow> bool) \<Rightarrow> 'h \<Rightarrow> 'p \<Rightarrow> 'p \<Rightarrow> 'p list \<Rightarrow> 'p list \<Rightarrow> bool" where
  "two_lists rep h a b xs ys \<longleftrightarrow>
     rep h a xs \<and> rep h b ys \<and> set (a # xs) \<inter> set (b # ys) = {}"

lemma list_move_alt: "list_move e head h = list_add e head (list_del e h)"
  by (simp add: list_move_def list_del_def)

lemma list_move_tail_alt: "list_move_tail e head h = list_add_tail e head (list_del e h)"
  by (simp add: list_move_tail_def list_del_def)

lemma two_lists_move:
  assumes "two_lists dll h a b (xs @ e # ys) zs"
  shows "two_lists dll (list_move e b h) a b (xs @ ys) (e # zs)"
proof -
  let ?k = "list_del e h"
  have k: "dll ?k a (xs @ ys)" "dll ?k b zs"
    using assms dll_list_del dll_frame_list_del[of h a "xs @ e # ys" e b zs]
    by (auto simp: two_lists_def)
  have "e \<notin> set (b # zs)" "e \<notin> set (a # xs @ ys)"
    using assms by (auto simp: two_lists_def dll_def)
  with k assms show ?thesis
    using dll_list_add[OF k(2)] dll_frame_list_add[OF k(2) k(1), of e]
    by (auto simp: list_move_alt two_lists_def)
qed

lemma two_lists_move_tail:
  assumes "two_lists dll h a b (xs @ e # ys) zs"
  shows "two_lists dll (list_move_tail e b h) a b (xs @ ys) (zs @ [e])"
proof -
  let ?k = "list_del e h"
  have k: "dll ?k a (xs @ ys)" "dll ?k b zs"
    using assms dll_list_del dll_frame_list_del[of h a "xs @ e # ys" e b zs]
    by (auto simp: two_lists_def)
  have "e \<notin> set (b # zs)" "e \<notin> set (a # xs @ ys)"
    using assms by (auto simp: two_lists_def dll_def)
  with k assms show ?thesis
    using dll_list_add_tail[OF k(2)] dll_frame_list_add_tail[OF k(2) k(1), of e]
    by (auto simp: list_move_tail_alt two_lists_def)
qed

lemma two_lists_sym: "two_lists rep h a b xs ys = two_lists rep h b a ys xs"
  by (auto simp: two_lists_def)

section \<open>The interface the node pools use\<close>

text \<open>
  The neighbour table of \<open>app/vam\<close> and the collision-warning list of \<open>app/vsa\<close> keep their nodes in
  two lists: one of nodes in use, one of free nodes. What they rely on is stated here
  once; their lemmas on allocation and release are proved from it.
\<close>

locale node_lists =
  fixes rep :: "'h \<Rightarrow> 'p \<Rightarrow> 'p list \<Rightarrow> bool"
    and move :: "'p \<Rightarrow> 'p \<Rightarrow> 'h \<Rightarrow> 'h"
    and move_tail :: "'p \<Rightarrow> 'p \<Rightarrow> 'h \<Rightarrow> 'h"
    and is_empty :: "'p \<Rightarrow> 'h \<Rightarrow> bool"
    and first :: "'p \<Rightarrow> 'h \<Rightarrow> 'p"
  assumes move: "two_lists rep h a b (xs @ e # ys) zs \<Longrightarrow>
      two_lists rep (move e b h) a b (xs @ ys) (e # zs)"
    and move_tail: "two_lists rep h a b (xs @ e # ys) zs \<Longrightarrow>
      two_lists rep (move_tail e b h) a b (xs @ ys) (zs @ [e])"
    and is_empty: "rep h a xs \<Longrightarrow> is_empty a h \<longleftrightarrow> xs = []"
    and first: "rep h a (x # xs) \<Longrightarrow> first a h = x"
    and distinct_nodes: "rep h a xs \<Longrightarrow> distinct xs"
begin

lemma alloc_first:
  assumes "two_lists rep h used free xs (y # ys)"
  shows "\<not> is_empty free h" "first free h = y"
    "two_lists rep (move (first free h) used h) used free (y # xs) ys"
proof -
  have r: "rep h free (y # ys)" using assms by (simp add: two_lists_def)
  show "\<not> is_empty free h" using is_empty[OF r] by simp
  show f: "first free h = y" by (rule first[OF r])
  show "two_lists rep (move (first free h) used h) used free (y # xs) ys"
    using move[of h free used "[]" y ys xs] assms f by (simp add: two_lists_sym)
qed

lemma alloc_none: "two_lists rep h used free xs [] \<Longrightarrow> is_empty free h"
  using is_empty by (auto simp: two_lists_def)

lemma release_tail:
  "two_lists rep h used free (xs @ e # ys) zs \<Longrightarrow>
    two_lists rep (move_tail e free h) used free (xs @ ys) (zs @ [e])"
  by (rule move_tail)

lemma nodes_distinct:
  "two_lists rep h used free xs ys \<Longrightarrow> distinct (xs @ ys)"
  using distinct_nodes by (auto simp: two_lists_def)

lemma release_conserves:
  "two_lists rep h used free (xs @ e # ys) zs \<Longrightarrow>
    mset (xs @ ys) + mset (zs @ [e]) = mset (xs @ e # ys) + mset zs"
  by simp

end

interpretation lh: node_lists dll list_move list_move_tail list_empty list_first_entry
  by unfold_locales
    (auto simp: two_lists_move two_lists_move_tail list_empty_dll list_first_dll dll_def)

end
