(* ===== verification/Vsm.thy ===== *)
theory Vsm
  imports CmsDef ListH
begin

text \<open>
  The vehicle-state manager \<open>app/vam/cv_vam_vsm.c\<close> and the state it works on, the structure
  \<open>vam_envar_t\<close> of \<open>include/cv_vam.h\<close>: configuration, flags, counters, the station table with
  its two intrusive lists, the timers and the event queue of the VAM task. The function-local
  \<open>static\<close> variables of the timer callbacks are fields too (\<open>st_\<dots>\<close>).

  A station node is known by the address of its list head; \<open>remote\<close> gives the node at an
  address. What leaves the module is recorded: \<open>calls\<close> lists the event handlers called, in
  order, with their arguments.

  An undefined floating-point conversion and a list traversal that does not end make an
  operation \<open>None\<close>.
\<close>

section \<open>State\<close>

datatype laddr = NeighbourList | StaFreeList | Remote nat

datatype evt_arg = EvtNull | EvtInt nat | EvtSta vam_stastatus | EvtRsa vam_rsa_evt_info

datatype vam_ptr = VNull | VRx wnet_rxinfo bytes | VGps bytes

record vam_envar =
  working_param :: vam_config
  flag :: u32
  bsm_send_period_ticks :: u16
  tx_bsm_msg_cnt :: u8
  tx_evam_msg_cnt :: u8
  tx_rsa_msg_cnt :: u8
  neighbour_cnt :: u8
  local :: vam_stastatus
  remote :: "laddr \<Rightarrow> vam_sta_node"
  links :: "laddr list_heap"
  evt_handler :: "vam_evt \<Rightarrow> nat option"
  queue_vam :: "vam_ptr sys_msg queue"
  timer_send_bsm :: os_timer
  timer_send_evam :: os_timer
  timer_bsm_pause :: os_timer
  timer_gps_life :: os_timer
  timer_neighbour_life :: os_timer
  st_bsm_count :: u8
  st_evam_mask :: u16
  st_evam_count :: u8
  st_gotNeighbour :: bool
  calls :: "(nat \<times> evt_arg) list"

definition vam_add_event_queue ::
    "vam_envar \<Rightarrow> u16 \<Rightarrow> u16 \<Rightarrow> u32 \<Rightarrow> vam_ptr \<Rightarrow> int \<times> vam_envar" where
  "vam_add_event_queue v msg_id msg_len msg_argc msg_argv =
     (let (err, q) = osal_queue_send
            \<lparr>m_id = msg_id, m_len = msg_len, m_argc = msg_argc, m_argv = msg_argv\<rparr> (queue_vam v)
      in (err, v\<lparr>queue_vam := q\<rparr>))"

definition vam_event :: "vam_ptr sys_msg \<Rightarrow> vam_envar \<Rightarrow> int \<times> vam_envar" where
  "vam_event m v = vam_add_event_queue v (m_id m) (m_len m) (m_argc m) (m_argv m)"

interpretation vamq: event_queue vam_event "\<lambda>v. q_msgs (queue_vam v)" "\<lambda>v. q_depth (queue_vam v)"
  by unfold_locales
    (auto simp: vam_event_def vam_add_event_queue_def osal_queue_send_def osal_status_defs)

text \<open>\<open>if (p_vam->evt_handler[e]) (p_vam->evt_handler[e])(arg);\<close>\<close>

definition call_evt :: "vam_evt \<Rightarrow> evt_arg \<Rightarrow> vam_envar \<Rightarrow> vam_envar" where
  "call_evt e arg v =
     (case evt_handler v e of None \<Rightarrow> v | Some h \<Rightarrow> v\<lparr>calls := calls v @ [(h, arg)]\<rparr>)"

section \<open>Broadcast periods and timers\<close>

definition cal_peroid_from_speed :: "fl \<Rightarrow> u8 \<Rightarrow> u16 option" where
  "cal_peroid_from_speed speed factor =
     do {
       period \<leftarrow> (if fl_eq (Fin 0) speed then Some 3000
                  else fl_to_u16 (fl_div Single (fl_of_int Single (uint factor * 3600)) speed));
       Some (if period < 100 then 100 else if period > 3000 then 3000 else period div 10 * 10)
     }"

definition vsm_start_bsm_broadcast :: "vam_envar \<Rightarrow> vam_envar option" where
  "vsm_start_bsm_broadcast v =
     do {
       period \<leftarrow> (if bsm_boardcast_mode (working_param v) = BSM_BC_MODE_AUTO
                  then cal_peroid_from_speed (s_speed (local v))
                         (bsm_boardcast_saftyfactor (working_param v))
                  else if bsm_boardcast_mode (working_param v) = BSM_BC_MODE_FIXED
                  then Some (bsm_boardcast_period (working_param v))
                  else Some 0);
       let v = v\<lparr>bsm_send_period_ticks := period\<rparr>;
       let (_, t) = osal_timer_change (uint (bsm_send_period_ticks v)) (timer_send_bsm v);
       let (_, t) = osal_timer_start t;
       Some (v\<lparr>timer_send_bsm := t\<rparr>)
     }"

definition vsm_stop_bsm_broadcast :: "vam_envar \<Rightarrow> vam_envar" where
  "vsm_stop_bsm_broadcast v = v\<lparr>timer_send_bsm := snd (osal_timer_stop (timer_send_bsm v))\<rparr>"

definition vsm_pause_bsm_broadcast :: "vam_envar \<Rightarrow> vam_envar" where
  "vsm_pause_bsm_broadcast v =
     (if \<not> has_flag (flag v) VAM_FLAG_TX_BSM_PAUSE then
        let v = v\<lparr>flag := set_flag (flag v) VAM_FLAG_TX_BSM_PAUSE\<rparr>;
            period = uint (bsm_pause_hold_time (working_param v));
            ticks = period * 1000;
            (_, t) = osal_timer_change ticks (timer_bsm_pause v);
            (_, t) = osal_timer_start t
        in v\<lparr>timer_bsm_pause := t\<rparr>
      else v)"

definition timer_send_bsm_callback :: "vam_envar \<Rightarrow> vam_envar" where
  "timer_send_bsm_callback v =
     (let v = (if has_flag (flag v) VAM_FLAG_TX_BSM_ALERT then
                 if s_alert_mask (local v) = 0 then
                   let c = st_bsm_count v; v = v\<lparr>st_bsm_count := c - 1\<rparr>
                   in if c = 0 then v\<lparr>flag := clear_flag (flag v) VAM_FLAG_TX_BSM_ALERT\<rparr> else v
                 else v\<lparr>st_bsm_count := VAM_NO_ALERT_EVAM_TX_TIMES\<rparr>
               else v)
      in if has_flag (flag v) VAM_FLAG_TX_BSM \<and> \<not> has_flag (flag v) VAM_FLAG_TX_BSM_PAUSE
         then snd (vam_add_event_queue v VAM_MSG_RCPTX 0 RCP_MSG_ID_BSM VNull)
         else v)"

definition vsm_update_bsm_bcast_timer :: "vam_envar \<Rightarrow> vam_envar option" where
  "vsm_update_bsm_bcast_timer v =
     do {
       period \<leftarrow> (if bsm_boardcast_mode (working_param v) = BSM_BC_MODE_AUTO
                  then cal_peroid_from_speed (s_speed (local v))
                         (bsm_boardcast_saftyfactor (working_param v))
                  else if neighbour_cnt v > 50 then Some 200
                  else Some (bsm_boardcast_period (working_param v)));
       let timeout = period;
       Some (if bsm_send_period_ticks v \<noteq> timeout
             then v\<lparr>timer_send_bsm := snd (osal_timer_change (uint timeout) (timer_send_bsm v)),
                    bsm_send_period_ticks := timeout\<rparr>
             else v)
     }"

definition timer_bsm_pause_callback :: "vam_envar \<Rightarrow> vam_envar" where
  "timer_bsm_pause_callback v =
     (if has_flag (flag v) VAM_FLAG_TX_BSM
      then v\<lparr>flag := clear_flag (flag v) VAM_FLAG_TX_BSM_PAUSE\<rparr> else v)"

definition timer_gps_life_callback :: "vam_envar \<Rightarrow> vam_envar" where
  "timer_gps_life_callback v =
     (if has_flag (flag v) VAM_FLAG_GPS_FIXED
      then call_evt VAM_EVT_GPS_STATUS EvtNull
             (v\<lparr>flag := clear_flag (flag v) VAM_FLAG_GPS_FIXED\<rparr>)
      else v)"

definition vsm_start_evam_broadcast :: "vam_envar \<Rightarrow> vam_envar option" where
  "vsm_start_evam_broadcast v =
     do {
       period \<leftarrow> (if evam_broadcast_type (working_param v) = BSM_BC_MODE_AUTO
                  then cal_peroid_from_speed (s_speed (local v))
                         (bsm_boardcast_saftyfactor (working_param v))
                  else if evam_broadcast_type (working_param v) = BSM_BC_MODE_FIXED
                  then Some (evam_broadcast_peroid (working_param v))
                  else Some 0);
       let (_, t) = osal_timer_change (uint period) (timer_send_evam v);
       let (_, t) = osal_timer_start t;
       Some (v\<lparr>timer_send_evam := t\<rparr>)
     }"

definition timer_send_evam_callback :: "vam_envar \<Rightarrow> vam_envar" where
  "timer_send_evam_callback v =
     (if has_flag (flag v) VAM_FLAG_TX_EVAM then
        let v = (if bsm_pause_mode (working_param v) = 1 \<and> s_alert_mask (local v) \<noteq> st_evam_mask v
                 then (vsm_pause_bsm_broadcast v)\<lparr>st_evam_mask := s_alert_mask (local v)\<rparr>
                 else v);
            v = snd (vam_add_event_queue v VAM_MSG_RCPTX 0 RCP_MSG_ID_EVAM VNull)
        in if s_alert_mask (local v) = 0 then
             let c = st_evam_count v; v = v\<lparr>st_evam_count := c - 1\<rparr>
             in if c = 0 then
                  let v = v\<lparr>flag := clear_flag (flag v) VAM_FLAG_TX_EVAM,
                            timer_send_evam := snd (osal_timer_stop (timer_send_evam v))\<rparr>
                  in if has_flag (flag v) VAM_FLAG_TX_BSM_PAUSE
                     then v\<lparr>flag := clear_flag (flag v) VAM_FLAG_TX_BSM_PAUSE,
                            timer_bsm_pause := snd (osal_timer_stop (timer_bsm_pause v))\<rparr>
                     else v
                else v
           else v\<lparr>st_evam_count := VAM_NO_ALERT_EVAM_TX_TIMES\<rparr>
      else v)"

definition timer_neigh_time_callback :: "vam_envar \<Rightarrow> vam_envar" where
  "timer_neigh_time_callback v = snd (vam_add_event_queue v VAM_MSG_NEIGH_TIMEOUT 0 0 VNull)"

section \<open>The station table\<close>

text \<open>\<open>memcmp\<close> of two temporary identifiers.\<close>

definition pid_eq :: "bytes \<Rightarrow> bytes \<Rightarrow> bool" where
  "pid_eq a b \<longleftrightarrow> take RCP_TEMP_ID_LEN a = take RCP_TEMP_ID_LEN b"

definition vam_find_sta :: "bytes \<Rightarrow> vam_envar \<Rightarrow> (laddr option \<times> vam_envar) option" where
  "vam_find_sta temporary_id v =
     do {
       p_sta \<leftarrow> list_find (\<lambda>pos. pid_eq (s_pid (n_s (remote v pos))) temporary_id)
                  (links v) NeighbourList;
       Some (case p_sta of
           Some pos \<Rightarrow> (Some pos, v)
         | None \<Rightarrow>
             if \<not> list_empty StaFreeList (links v) then
               let p = list_first_entry StaFreeList (links v);
                   v = v\<lparr>links := list_move p NeighbourList (links v)\<rparr>;
                   v = v\<lparr>neighbour_cnt := neighbour_cnt v + 1\<rparr>;
                   n = remote v p;
                   n = n\<lparr>n_s := (n_s n)\<lparr>s_pid := take RCP_TEMP_ID_LEN temporary_id\<rparr>\<rparr>
               in (Some p, v\<lparr>remote := (remote v)(p := n)\<rparr>)
             else (None, v))
     }"

text \<open>One round of the loop of \<open>vam_update_sta\<close> for the node at \<open>p\<close>: both lifetimes run down,
  an alert that outlived its lifetime is withdrawn and its copy kept for the handler, and a
  node both of whose lifetimes are over goes to the free list.\<close>

definition age_node :: "vam_sta_node \<Rightarrow> vam_sta_node \<times> bool" where
  "age_node n =
     (let n = (if n_life n \<noteq> 0 then n\<lparr>n_life := n_life n - 1\<rparr> else n);
          n = (if n_alert_life n \<noteq> 0 then n\<lparr>n_alert_life := n_alert_life n - 1\<rparr> else n)
      in if n_alert_life n = 0 \<and> s_alert_mask (n_s n) \<noteq> 0
         then (n\<lparr>n_s := (n_s n)\<lparr>s_alert_mask := 0\<rparr>\<rparr>, True)
         else (n, False))"

definition sta_tick :: "laddr \<Rightarrow> vam_envar \<Rightarrow> vam_envar \<times> vam_stastatus list" where
  "sta_tick p v =
     (let (n, timeout) = age_node (remote v p);
          v = v\<lparr>remote := (remote v)(p := n)\<rparr>;
          v = (if n_life n = 0 \<and> n_alert_life n = 0
               then v\<lparr>links := list_move_tail p StaFreeList (links v),
                      neighbour_cnt := neighbour_cnt v - 1\<rparr>
               else v)
      in (v, if timeout then [n_s n] else []))"

partial_function (option) sta_loop ::
    "laddr \<Rightarrow> vam_envar \<Rightarrow> vam_stastatus list \<Rightarrow> (vam_envar \<times> vam_stastatus list) option" where
  "sta_loop pos v p_sta =
     (if pos = NeighbourList then Some (v, p_sta)
      else let nxt = lnext (links v) pos; (v', al) = sta_tick pos v
        in sta_loop nxt v' (p_sta @ al))"

definition vam_update_sta :: "vam_envar \<Rightarrow> vam_envar option" where
  "vam_update_sta v =
     do {
       let isEmpty = (lnext (links v) NeighbourList = NeighbourList);
       let gotNeighbour = (st_gotNeighbour v \<or> \<not> isEmpty);
       (v, p_sta) \<leftarrow> sta_loop (lnext (links v) NeighbourList) v [];
       let v = v\<lparr>st_gotNeighbour := gotNeighbour\<rparr>;
       let v = fold (\<lambda>s. call_evt VAM_EVT_PEER_ALARM (EvtSta s)) (rev p_sta) v;
       let v = (if st_gotNeighbour v \<and> isEmpty
                then (call_evt VAM_EVT_PEER_UPDATE EvtNull v)\<lparr>st_gotNeighbour := False, neighbour_cnt := 0\<rparr>
                else v);
       vsm_update_bsm_bcast_timer v
     }"

text \<open>\<open>vam_list_sta\<close> prints the number of free and used nodes and each neighbour.\<close>

definition vam_list_sta :: "vam_envar \<Rightarrow> (int \<times> int \<times> (bytes \<times> u16 \<times> u16 \<times> u16) list) option" where
  "vam_list_sta v =
     do {
       fs \<leftarrow> list_entries (links v) StaFreeList;
       ns \<leftarrow> list_entries (links v) NeighbourList;
       Some (int (length fs), int VAM_NEIGHBOUR_MAXNUM - int (length fs),
         map (\<lambda>p. (s_pid (n_s (remote v p)), n_life (remote v p), n_alert_life (remote v p),
                    s_alert_mask (n_s (remote v p)))) ns)
     }"

section \<open>Periods\<close>

text \<open>The range the comment above \<open>_cal_peroid_from_speed\<close> promises, in both outcomes that are
  defined: the period is at least 100, at most 3000 and a multiple of 10.\<close>

definition period_ok :: "u16 \<Rightarrow> bool" where
  "period_ok p \<longleftrightarrow> 100 \<le> p \<and> p \<le> 3000 \<and> p mod 10 = 0"

lemma clamp_period_ok:
  "period_ok (if p < 100 then 100 else if p > 3000 then 3000 else p div 10 * 10)" for p :: u16
proof -
  have "100 \<le> p div 10 * 10 \<and> p div 10 * 10 \<le> 3000 \<and> p div 10 * 10 mod 10 = 0"
    if "\<not> p < 100" "\<not> p > 3000"
  proof -
    have u: "100 \<le> unat p" "unat p \<le> 3000"
      using that by (simp_all add: word_le_nat_alt not_less)
    have d: "unat (p div 10) = unat p div 10" by (simp add: unat_div)
    have m: "unat (p div 10 * 10) = unat p div 10 * 10"
      using u by (subst unat_mult_lem[THEN iffD1]) (auto simp: d)
    have "unat (p div 10 * 10 mod 10) = 0" by (simp add: unat_mod m)
    then show ?thesis using u by (auto simp: word_le_nat_alt m unat_eq_0)
  qed
  then show ?thesis by (auto simp: period_ok_def)
qed

lemma cal_peroid_range: "cal_peroid_from_speed speed factor = Some p \<Longrightarrow> period_ok p"
  unfolding cal_peroid_from_speed_def
  by (auto split: bind_splits simp del: if_split intro: clamp_period_ok)

section \<open>The station table: abstraction and invariant\<close>

text \<open>
  \<open>sta_pool v nb fr\<close>: the neighbours are the nodes \<open>nb\<close>, in list order, the free nodes are
  \<open>fr\<close>; together they are the 80 nodes of the array; the counter agrees; no two neighbours
  have the same identifier; free nodes carry neither lifetimes nor an alert.
\<close>

definition pid_of :: "vam_envar \<Rightarrow> laddr \<Rightarrow> bytes" where
  "pid_of v p = take RCP_TEMP_ID_LEN (s_pid (n_s (remote v p)))"

definition node_idle :: "vam_sta_node \<Rightarrow> bool" where
  "node_idle n \<longleftrightarrow> n_life n = 0 \<and> n_alert_life n = 0 \<and> s_alert_mask (n_s n) = 0"

definition sta_pool :: "vam_envar \<Rightarrow> laddr list \<Rightarrow> laddr list \<Rightarrow> bool" where
  "sta_pool v nb fr \<longleftrightarrow>
     two_lists dll (links v) NeighbourList StaFreeList nb fr
     \<and> mset nb + mset fr = mset (map Remote [0..<VAM_NEIGHBOUR_MAXNUM])
     \<and> neighbour_cnt v = of_nat (length nb)
     \<and> distinct (map (pid_of v) nb)
     \<and> (\<forall>p \<in> set fr. node_idle (remote v p))"

lemma sta_poolD:
  assumes "sta_pool v nb fr"
  shows "dll (links v) NeighbourList nb" "dll (links v) StaFreeList fr"
    "two_lists dll (links v) NeighbourList StaFreeList nb fr"
    "distinct (map (pid_of v) nb)" "distinct (nb @ fr)"
    "length nb + length fr = VAM_NEIGHBOUR_MAXNUM"
    "NeighbourList \<notin> set (nb @ fr)" "StaFreeList \<notin> set (nb @ fr)"
proof -
  show t: "two_lists dll (links v) NeighbourList StaFreeList nb fr" and "distinct (map (pid_of v) nb)"
    using assms by (auto simp: sta_pool_def)
  then show "dll (links v) NeighbourList nb" "dll (links v) StaFreeList fr"
    by (auto simp: two_lists_def)
  show "distinct (nb @ fr)" using t by (rule lh.nodes_distinct)
  show "NeighbourList \<notin> set (nb @ fr)" "StaFreeList \<notin> set (nb @ fr)"
    using t by (auto simp: two_lists_def dll_def)
  have "size (mset nb + mset fr) = size (mset (map Remote [0..<VAM_NEIGHBOUR_MAXNUM]))"
    using assms by (simp add: sta_pool_def)
  then show "length nb + length fr = VAM_NEIGHBOUR_MAXNUM" by simp
qed

lemma pid_eq_pid_of: "pid_eq (s_pid (n_s (remote v p))) i \<longleftrightarrow> pid_of v p = take RCP_TEMP_ID_LEN i"
  by (simp add: pid_eq_def pid_of_def)

lemma find_in_pool:
  assumes "sta_pool v nb fr"
  shows "list_find (\<lambda>pos. pid_eq (s_pid (n_s (remote v pos))) i) (links v) NeighbourList
    = Some (List.find (\<lambda>p. pid_of v p = take RCP_TEMP_ID_LEN i) nb)"
  using list_find_dll[OF sta_poolD(1)[OF assms]] by (simp add: pid_eq_pid_of)

lemma find_image_None: "k \<notin> f ` set xs \<Longrightarrow> List.find (\<lambda>y. f y = k) xs = None"
  by (induction xs) auto

lemma find_distinct_map:
  "distinct (map f xs) \<Longrightarrow> x \<in> set xs \<Longrightarrow> List.find (\<lambda>y. f y = f x) xs = Some x"
  by (induction xs) auto

text \<open>A station that is in the table is found, whatever its position, and nothing changes.\<close>

lemma vam_find_sta_hit:
  assumes "sta_pool v nb fr" "p \<in> set nb" "pid_of v p = take RCP_TEMP_ID_LEN i"
  shows "vam_find_sta i v = Some (Some p, v)"
  using find_in_pool[OF assms(1), of i] find_distinct_map[of "pid_of v" nb p]
    sta_poolD(4)[OF assms(1)] assms(2,3)
  by (simp add: vam_find_sta_def)

text \<open>A new station takes the first free node and becomes the first neighbour.\<close>

definition sta_join :: "bytes \<Rightarrow> laddr \<Rightarrow> vam_envar \<Rightarrow> vam_envar" where
  "sta_join i p v = v\<lparr>links := list_move p NeighbourList (links v),
     neighbour_cnt := neighbour_cnt v + 1,
     remote := (remote v)(p := (remote v p)\<lparr>n_s := (n_s (remote v p))\<lparr>s_pid := take RCP_TEMP_ID_LEN i\<rparr>\<rparr>)\<rparr>"

lemma vam_find_sta_new:
  assumes pool: "sta_pool v nb (p # fr)"
    and new: "take RCP_TEMP_ID_LEN i \<notin> pid_of v ` set nb"
  shows "vam_find_sta i v = Some (Some p, sta_join i p v)"
    and "sta_pool (sta_join i p v) (p # nb) fr"
proof -
  note t = sta_poolD(3)[OF pool]
  have none: "List.find (\<lambda>p. pid_of v p = take RCP_TEMP_ID_LEN i) nb = None"
    using new by (rule find_image_None)
  show "vam_find_sta i v = Some (Some p, sta_join i p v)"
    using find_in_pool[OF pool, of i] none lh.alloc_first[OF t]
    by (simp add: vam_find_sta_def sta_join_def Let_def)
  have d: "distinct (nb @ p # fr)" by (rule sta_poolD(5)[OF pool])
  define w where "w = sta_join i p v"
  have cnt: "neighbour_cnt w = neighbour_cnt v + 1" and rem: "q \<noteq> p \<Longrightarrow> remote w q = remote v q" for q
    by (simp_all add: w_def sta_join_def)
  have pid: "map (pid_of w) nb = map (pid_of v) nb"
  proof (rule map_cong)
    show "pid_of w q = pid_of v q" if "q \<in> set nb" for q
      using that d rem[of q] by (cases "q = p") (auto simp: pid_of_def)
  qed simp
  have "pid_of w p = take RCP_TEMP_ID_LEN i"
    by (simp add: pid_of_def w_def sta_join_def)
  then have "distinct (map (pid_of w) (p # nb))"
    using new sta_poolD(4)[OF pool] by (simp only: list.map pid distinct.simps set_map) simp
  moreover have "two_lists dll (links w) NeighbourList StaFreeList (p # nb) fr"
    using lh.alloc_first(2,3)[OF t] by (simp add: w_def sta_join_def)
  moreover have "\<forall>q \<in> set fr. remote w q = remote v q"
  proof
    fix q assume "q \<in> set fr"
    then have "q \<noteq> p" using d by auto
    then show "remote w q = remote v q" by (rule rem)
  qed
  ultimately have "sta_pool w (p # nb) fr"
    using pool by (simp add: sta_pool_def cnt)
  then show "sta_pool (sta_join i p v) (p # nb) fr" by (simp add: w_def)
qed

lemma vam_find_sta_full:
  assumes "sta_pool v nb []" "take RCP_TEMP_ID_LEN i \<notin> pid_of v ` set nb"
  shows "vam_find_sta i v = Some (None, v)"
  using find_in_pool[OF assms(1), of i] assms(2) lh.alloc_none[OF sta_poolD(3)[OF assms(1)]]
  by (simp add: vam_find_sta_def find_image_None)

section \<open>Ageing the table\<close>

definition expires :: "vam_sta_node \<Rightarrow> bool" where
  "expires n \<longleftrightarrow> n_life (fst (age_node n)) = 0 \<and> n_alert_life (fst (age_node n)) = 0"

definition alert_copy :: "vam_sta_node \<Rightarrow> vam_stastatus list" where
  "alert_copy n = (if snd (age_node n) then [n_s (fst (age_node n))] else [])"

lemma age_node_pid: "s_pid (n_s (fst (age_node n))) = s_pid (n_s n)"
  by (simp add: age_node_def Let_def)

lemma expires_idle: "expires n \<Longrightarrow> node_idle (fst (age_node n))"
  by (auto simp: expires_def node_idle_def age_node_def Let_def split: if_splits)

lemma sta_tick_alt:
  "sta_tick p v =
    (v\<lparr>remote := (remote v)(p := fst (age_node (remote v p))),
       links := (if expires (remote v p) then list_move_tail p StaFreeList (links v) else links v),
       neighbour_cnt := (if expires (remote v p) then neighbour_cnt v - 1 else neighbour_cnt v)\<rparr>,
     alert_copy (remote v p))"
  by (simp add: sta_tick_def expires_def alert_copy_def case_prod_beta Let_def)

text \<open>The whole traversal, with the nodes \<open>us\<close> already passed and \<open>rest\<close> to come.\<close>

lemma sta_loop_spec:
  assumes "two_lists dll (links v) NeighbourList StaFreeList (us @ rest) fr"
  shows "\<exists>h. sta_loop (hd (rest @ [NeighbourList])) v acc
      = Some (v\<lparr>links := h,
                remote := (\<lambda>p. if p \<in> set rest then fst (age_node (remote v p)) else remote v p),
                neighbour_cnt := neighbour_cnt v
                  - of_nat (length (filter (\<lambda>p. expires (remote v p)) rest))\<rparr>,
              acc @ concat (map (\<lambda>p. alert_copy (remote v p)) rest))
    \<and> two_lists dll h NeighbourList StaFreeList
        (us @ filter (\<lambda>p. \<not> expires (remote v p)) rest)
        (fr @ filter (\<lambda>p. expires (remote v p)) rest)"
  using assms
proof (induction rest arbitrary: v us fr acc)
  case Nil
  then show ?case by (intro exI[of _ "links v"]) (simp add: sta_loop.simps)
next
  case (Cons p rest)
  let ?v = "fst (sta_tick p v)"
  have dl: "dll (links v) NeighbourList (us @ p # rest)" using Cons.prems by (simp add: two_lists_def)
  then have pN: "p \<noteq> NeighbourList" and nx: "lnext (links v) p = hd (rest @ [NeighbourList])"
    and p_rest: "p \<notin> set rest"
    using chain_first[of "links v" p rest NeighbourList] by (auto simp: dll_def)
  have step: "sta_loop p v acc
      = sta_loop (hd (rest @ [NeighbourList])) ?v (acc @ alert_copy (remote v p))"
    using pN by (subst sta_loop.simps) (simp add: nx sta_tick_alt)
  have rem: "remote ?v q = remote v q" if "q \<in> set rest" for q
    using that p_rest by (auto simp: sta_tick_alt)
  have flt: "filter (\<lambda>p. expires (remote ?v p)) rest = filter (\<lambda>p. expires (remote v p)) rest"
    "filter (\<lambda>p. \<not> expires (remote ?v p)) rest = filter (\<lambda>p. \<not> expires (remote v p)) rest"
    "map (\<lambda>p. alert_copy (remote ?v p)) rest = map (\<lambda>p. alert_copy (remote v p)) rest"
    using rem by (auto intro: filter_cong)
  have fn: "(\<lambda>q. if q \<in> set rest then fst (age_node (remote ?v q)) else remote ?v q)
      = (\<lambda>q. if q \<in> set (p # rest) then fst (age_node (remote v q)) else remote v q)"
    using p_rest by (auto simp: sta_tick_alt)
  show ?case
  proof (cases "expires (remote v p)")
    case True
    then have "two_lists dll (links ?v) NeighbourList StaFreeList (us @ rest) (fr @ [p])"
      using lh.release_tail[OF Cons.prems] by (simp add: sta_tick_alt)
    from Cons.IH[OF this, of "acc @ alert_copy (remote v p)"] obtain h where
      "sta_loop (hd (rest @ [NeighbourList])) ?v (acc @ alert_copy (remote v p)) =
        Some (?v\<lparr>links := h, remote := (\<lambda>q. if q \<in> set (p # rest) then fst (age_node (remote v q)) else remote v q),
             neighbour_cnt := neighbour_cnt ?v - of_nat (length (filter (\<lambda>p. expires (remote v p)) rest))\<rparr>,
           (acc @ alert_copy (remote v p)) @ concat (map (\<lambda>p. alert_copy (remote v p)) rest))"
      "two_lists dll h NeighbourList StaFreeList (us @ filter (\<lambda>p. \<not> expires (remote v p)) rest)
        ((fr @ [p]) @ filter (\<lambda>p. expires (remote v p)) rest)"
      unfolding flt fn by blast
    with True step show ?thesis
      by (intro exI[of _ h]) (simp add: sta_tick_alt algebra_simps)
  next
    case False
    then have "two_lists dll (links ?v) NeighbourList StaFreeList ((us @ [p]) @ rest) fr"
      using Cons.prems by (simp add: sta_tick_alt)
    from Cons.IH[OF this, of "acc @ alert_copy (remote v p)"] obtain h where
      "sta_loop (hd (rest @ [NeighbourList])) ?v (acc @ alert_copy (remote v p)) =
        Some (?v\<lparr>links := h, remote := (\<lambda>q. if q \<in> set (p # rest) then fst (age_node (remote v q)) else remote v q),
             neighbour_cnt := neighbour_cnt ?v - of_nat (length (filter (\<lambda>p. expires (remote v p)) rest))\<rparr>,
           (acc @ alert_copy (remote v p)) @ concat (map (\<lambda>p. alert_copy (remote v p)) rest))"
      "two_lists dll h NeighbourList StaFreeList ((us @ [p]) @ filter (\<lambda>p. \<not> expires (remote v p)) rest)
        (fr @ filter (\<lambda>p. expires (remote v p)) rest)"
      unfolding flt fn by blast
    with False step show ?thesis
      by (intro exI[of _ h]) (simp add: sta_tick_alt)
  qed
qed

lemma fold_call_evt:
  "fold (\<lambda>s. call_evt e (EvtSta s)) ss v =
    (case evt_handler v e of None \<Rightarrow> v | Some h \<Rightarrow> v\<lparr>calls := calls v @ map (\<lambda>s. (h, EvtSta s)) ss\<rparr>)"
  by (induction ss arbitrary: v) (auto simp: call_evt_def split: option.splits)

text \<open>The calls one update makes: the withdrawn alerts, last neighbour first, and the
  notification that the table has just become empty.\<close>

definition update_calls :: "vam_envar \<Rightarrow> laddr list \<Rightarrow> (nat \<times> evt_arg) list" where
  "update_calls v nb =
     (case evt_handler v VAM_EVT_PEER_ALARM of None \<Rightarrow> []
      | Some h \<Rightarrow> map (\<lambda>s. (h, EvtSta s)) (rev (concat (map (\<lambda>p. alert_copy (remote v p)) nb))))
     @ (if st_gotNeighbour v \<and> nb = [] then
          (case evt_handler v VAM_EVT_PEER_UPDATE of None \<Rightarrow> [] | Some h \<Rightarrow> [(h, EvtNull)])
        else [])"

definition bsm_period :: "vam_envar \<Rightarrow> u16 option" where
  "bsm_period v =
     (if bsm_boardcast_mode (working_param v) = BSM_BC_MODE_AUTO
      then cal_peroid_from_speed (s_speed (local v)) (bsm_boardcast_saftyfactor (working_param v))
      else if neighbour_cnt v > 50 then Some 200
      else Some (bsm_boardcast_period (working_param v)))"

lemma vsm_update_bsm_bcast_timer_alt:
  "vsm_update_bsm_bcast_timer v = map_option (\<lambda>period.
     if bsm_send_period_ticks v \<noteq> period
     then v\<lparr>timer_send_bsm := snd (osal_timer_change (uint period) (timer_send_bsm v)),
            bsm_send_period_ticks := period\<rparr>
     else v) (bsm_period v)"
  by (simp add: vsm_update_bsm_bcast_timer_def bsm_period_def bind_map_option map_option_case
      split: option.split)

lemma vsm_update_bsm_bcast_timer_frame:
  assumes "vsm_update_bsm_bcast_timer v = Some w"
  shows "working_param w = working_param v" "local w = local v" "remote w = remote v"
    "links w = links v" "neighbour_cnt w = neighbour_cnt v" "calls w = calls v"
    "flag w = flag v" "evt_handler w = evt_handler v" "queue_vam w = queue_vam v"
    "st_gotNeighbour w = st_gotNeighbour v"
  using assms by (auto simp: vsm_update_bsm_bcast_timer_alt split: if_splits)

lemma mset_partition: "mset (filter P xs) + mset (filter (\<lambda>x. \<not> P x) xs) = mset xs"
  by (induction xs) auto

text \<open>An update ages the table and then adjusts the broadcast timer.\<close>

lemma vam_update_sta_before:
  assumes pool: "sta_pool v nb fr"
  shows "\<exists>u. vam_update_sta v = vsm_update_bsm_bcast_timer u
    \<and> sta_pool u (filter (\<lambda>p. \<not> expires (remote v p)) nb) (fr @ filter (\<lambda>p. expires (remote v p)) nb)
    \<and> (\<forall>p. remote u p = (if p \<in> set nb then fst (age_node (remote v p)) else remote v p))
    \<and> calls u = calls v @ update_calls v nb
    \<and> working_param u = working_param v \<and> local u = local v \<and> evt_handler u = evt_handler v
    \<and> flag u = flag v \<and> queue_vam u = queue_vam v
    \<and> u = v\<lparr>links := links u, remote := remote u, neighbour_cnt := neighbour_cnt u,
             st_gotNeighbour := st_gotNeighbour u, calls := calls u\<rparr>"
proof -
  note t = sta_poolD(3)[OF pool]
  have start: "lnext (links v) NeighbourList = hd (nb @ [NeighbourList])"
    using sta_poolD(1)[OF pool] by (auto simp: dll_def dest: chain_first)
  have empt: "(lnext (links v) NeighbourList = NeighbourList) = (nb = [])"
    using list_empty_dll[OF sta_poolD(1)[OF pool]] by (simp add: list_empty_def)
  let ?surv = "filter (\<lambda>p. \<not> expires (remote v p)) nb" and ?exp = "filter (\<lambda>p. expires (remote v p)) nb"
  let ?al = "concat (map (\<lambda>p. alert_copy (remote v p)) nb)"
  define rm where "rm = (\<lambda>p. if p \<in> set nb then fst (age_node (remote v p)) else remote v p)"
  obtain h where loop: "sta_loop (hd (nb @ [NeighbourList])) v []
      = Some (v\<lparr>links := h, remote := rm, neighbour_cnt := neighbour_cnt v - of_nat (length ?exp)\<rparr>, ?al)"
    and h: "two_lists dll h NeighbourList StaFreeList ?surv (fr @ ?exp)"
    using sta_loop_spec[of v "[]" nb fr "[]"] t unfolding rm_def by auto
  have len: "length nb = length ?surv + length ?exp"
    using sum_length_filter_compl[of "\<lambda>p. expires (remote v p)" nb] by simp
  have cnt: "neighbour_cnt v - of_nat (length ?exp) = of_nat (length ?surv)"
  proof -
    have "neighbour_cnt v = of_nat (length ?surv + length ?exp)"
      using pool len by (simp add: sta_pool_def)
    then show ?thesis by simp
  qed
  define u where "u = v\<lparr>links := h, remote := rm, neighbour_cnt := of_nat (length ?surv),
      st_gotNeighbour := (st_gotNeighbour v \<or> nb \<noteq> []) \<and> nb \<noteq> [],
      calls := calls v @ update_calls v nb\<rparr>"
  have upd: "vam_update_sta v = vsm_update_bsm_bcast_timer u"
    unfolding vam_update_sta_def start[symmetric] Let_def
    using loop[unfolded start[symmetric]]
    by (auto simp: empt fold_call_evt u_def update_calls_def call_evt_def cnt split: option.splits
        intro!: arg_cong[of _ _ vsm_update_bsm_bcast_timer] vam_envar.equality)
  have pid: "pid_of u p = pid_of v p" for p
    by (simp add: pid_of_def u_def rm_def age_node_pid)
  have idle: "\<forall>p \<in> set (fr @ ?exp). node_idle (remote u p)"
    using pool sta_poolD(5)[OF pool]
    by (auto simp: u_def rm_def expires_idle sta_pool_def)
  have "mset ?surv + mset (fr @ ?exp) = mset nb + mset fr"
    using mset_partition[of "\<lambda>p. expires (remote v p)" nb] by (simp add: ac_simps)
  also have "\<dots> = mset (map Remote [0..<VAM_NEIGHBOUR_MAXNUM])"
    using pool unfolding sta_pool_def by blast
  finally have ms: "mset ?surv + mset (fr @ ?exp) = mset (map Remote [0..<VAM_NEIGHBOUR_MAXNUM])" .
  have "distinct (map (pid_of u) ?surv)"
    using sta_poolD(4)[OF pool] by (simp add: pid distinct_map_filter cong: map_cong)
  moreover have "two_lists dll (links u) NeighbourList StaFreeList ?surv (fr @ ?exp)"
    "neighbour_cnt u = of_nat (length ?surv)"
    using h by (simp_all add: u_def)
  ultimately have "sta_pool u ?surv (fr @ ?exp)"
    using idle ms unfolding sta_pool_def by blast
  then show ?thesis using upd by (auto simp: u_def rm_def)
qed

lemma sta_pool_cong:
  assumes "links w = links v" "remote w = remote v" "neighbour_cnt w = neighbour_cnt v"
  shows "sta_pool w nb fr = sta_pool v nb fr"
proof -
  have "pid_of w = pid_of v" by (simp add: pid_of_def fun_eq_iff assms)
  then show ?thesis by (simp add: sta_pool_def assms)
qed

lemma sta_pool_timer:
  "vsm_update_bsm_bcast_timer u = Some w \<Longrightarrow> sta_pool w nb fr = sta_pool u nb fr"
  by (intro sta_pool_cong vsm_update_bsm_bcast_timer_frame)

text \<open>The period of the automatic mode depends on the local speed only, so an update is defined
  exactly when that conversion is.\<close>

lemma vam_update_sta_spec:
  assumes pool: "sta_pool v nb fr" and per: "\<And>c. bsm_period (v\<lparr>neighbour_cnt := c\<rparr>) \<noteq> None"
  shows "\<exists>w. vam_update_sta v = Some w
    \<and> sta_pool w (filter (\<lambda>p. \<not> expires (remote v p)) nb) (fr @ filter (\<lambda>p. expires (remote v p)) nb)
    \<and> (\<forall>p. remote w p = (if p \<in> set nb then fst (age_node (remote v p)) else remote v p))
    \<and> calls w = calls v @ update_calls v nb
    \<and> working_param w = working_param v \<and> local w = local v \<and> evt_handler w = evt_handler v
    \<and> flag w = flag v \<and> queue_vam w = queue_vam v"
proof -
  obtain u where u: "vam_update_sta v = vsm_update_bsm_bcast_timer u"
      "sta_pool u (filter (\<lambda>p. \<not> expires (remote v p)) nb) (fr @ filter (\<lambda>p. expires (remote v p)) nb)"
      "\<And>p. remote u p = (if p \<in> set nb then fst (age_node (remote v p)) else remote v p)"
      "calls u = calls v @ update_calls v nb" "working_param u = working_param v" "local u = local v"
      "evt_handler u = evt_handler v" "flag u = flag v" "queue_vam u = queue_vam v"
    using vam_update_sta_before[OF pool] by blast
  have "bsm_period u = bsm_period (v\<lparr>neighbour_cnt := neighbour_cnt u\<rparr>)"
    by (simp add: bsm_period_def u)
  then obtain w where w: "vsm_update_bsm_bcast_timer u = Some w"
    using per[of "neighbour_cnt u"] by (auto simp: vsm_update_bsm_bcast_timer_alt)
  note fr = vsm_update_bsm_bcast_timer_frame[OF w]
  show ?thesis using u w by (auto simp: sta_pool_timer[OF w] fr)
qed

lemma vam_update_sta_pool:
  assumes "sta_pool v nb fr" "vam_update_sta v = Some w"
  shows "\<exists>nb' fr'. sta_pool w nb' fr'"
  using vam_update_sta_before[OF assms(1)] assms(2) sta_pool_timer by fastforce

section \<open>A silent station leaves the table\<close>

definition updates :: "nat \<Rightarrow> vam_envar \<Rightarrow> vam_envar option" where
  "updates k v = ((\<lambda>w. Option.bind w vam_update_sta) ^^ k) (Some v)"

lemma updates_0 [simp]: "updates 0 v = Some v"
  and updates_Suc: "updates (Suc k) v = Option.bind (updates k v) vam_update_sta"
  by (simp_all add: updates_def)

definition lifetime :: "vam_sta_node \<Rightarrow> nat" where
  "lifetime n = max (unat (n_life n)) (unat (n_alert_life n))"

lemma unat_dec: "x \<noteq> 0 \<Longrightarrow> unat (x - 1) = unat x - 1" for x :: "'w::len word"
  by (rule unat_minus_one)

lemma lifetime_age: "lifetime (fst (age_node n)) = lifetime n - 1"
  by (auto simp: lifetime_def age_node_def Let_def unat_dec max_def)

lemma expires_lifetime: "expires n \<longleftrightarrow> lifetime n \<le> 1"
proof -
  have "expires n \<longleftrightarrow> lifetime (fst (age_node n)) = 0"
    by (auto simp: expires_def lifetime_def unat_eq_0 max_def split: if_splits)
  then show ?thesis by (simp add: lifetime_age)
qed

lemma updates_spec:
  assumes pool: "sta_pool v nb fr" and mode: "bsm_boardcast_mode (working_param v) \<noteq> BSM_BC_MODE_AUTO"
  shows "\<exists>w fr'. updates k v = Some w \<and> working_param w = working_param v
    \<and> sta_pool w (filter (\<lambda>p. k = 0 \<or> k < lifetime (remote v p)) nb) fr'
    \<and> (\<forall>p \<in> set nb. k = 0 \<or> k < lifetime (remote v p) \<longrightarrow> lifetime (remote w p) = lifetime (remote v p) - k)"
proof (induction k)
  case 0
  show ?case using pool by auto
next
  case (Suc k)
  let ?L = "\<lambda>p. lifetime (remote v p)"
  let ?nb = "filter (\<lambda>p. k = 0 \<or> k < ?L p) nb"
  obtain u fu where u: "updates k v = Some u" "working_param u = working_param v" "sta_pool u ?nb fu"
    and life: "\<And>p. p \<in> set nb \<Longrightarrow> k = 0 \<or> k < ?L p \<Longrightarrow> lifetime (remote u p) = ?L p - k"
    using Suc.IH by blast
  have "bsm_period (u\<lparr>neighbour_cnt := c\<rparr>) \<noteq> None" for c
    using mode by (simp add: bsm_period_def u(2))
  from vam_update_sta_spec[OF u(3) this] obtain w where w: "vam_update_sta u = Some w"
    "sta_pool w (filter (\<lambda>p. \<not> expires (remote u p)) ?nb) (fu @ filter (\<lambda>p. expires (remote u p)) ?nb)"
    "\<And>p. remote w p = (if p \<in> set ?nb then fst (age_node (remote u p)) else remote u p)"
    "working_param w = working_param u" by blast
  have "filter (\<lambda>p. \<not> expires (remote u p)) ?nb = filter (\<lambda>p. Suc k < ?L p) nb"
    unfolding filter_filter
    by (rule filter_cong) (auto simp: expires_lifetime life)
  moreover have "lifetime (remote w p) = ?L p - Suc k" if "p \<in> set nb" "Suc k < ?L p" for p
    using that life[of p] by (auto simp: w(3) lifetime_age)
  ultimately show ?case
    using u w by (intro exI[of _ w]) (auto simp: updates_Suc)
qed

section \<open>How long alerts are repeated\<close>

definition bsm_ticks :: "nat \<Rightarrow> vam_envar \<Rightarrow> vam_envar" where
  "bsm_ticks k v = (timer_send_bsm_callback ^^ k) v"

text \<open>The fields the callback reads or writes, without the message queue.\<close>

lemma timer_send_bsm_callback_fields:
  "flag (timer_send_bsm_callback v) =
     (if has_flag (flag v) VAM_FLAG_TX_BSM_ALERT \<and> s_alert_mask (local v) = 0 \<and> st_bsm_count v = 0
      then clear_flag (flag v) VAM_FLAG_TX_BSM_ALERT else flag v)"
  "st_bsm_count (timer_send_bsm_callback v) =
     (if has_flag (flag v) VAM_FLAG_TX_BSM_ALERT
      then (if s_alert_mask (local v) = 0 then st_bsm_count v - 1 else VAM_NO_ALERT_EVAM_TX_TIMES)
      else st_bsm_count v)"
  "local (timer_send_bsm_callback v) = local v"
  by (simp_all add: timer_send_bsm_callback_def vam_add_event_queue_def Let_def case_prod_beta)

lemma bsm_alert_ticks:
  assumes "has_flag (flag v) VAM_FLAG_TX_BSM_ALERT" "s_alert_mask (local v) = 0"
    "k \<le> unat (st_bsm_count v)"
  shows "flag (bsm_ticks k v) = flag v" "st_bsm_count (bsm_ticks k v) = st_bsm_count v - of_nat k"
    "local (bsm_ticks k v) = local v"
  using assms(3)
proof (induction k)
  case (Suc k)
  { case 1
    have "st_bsm_count v - of_nat k \<noteq> 0"
    proof
      assume "st_bsm_count v - of_nat k = 0"
      then have "st_bsm_count v = of_nat k" by simp
      then have "unat (st_bsm_count v) = k"
        using 1 by (metis Suc_leD Suc_n_not_le_n le_unat_uoi)
      with 1 show False by simp
    qed
    with Suc 1 assms show ?case by (simp add: bsm_ticks_def timer_send_bsm_callback_fields) }
  { case 2
    with Suc assms show ?case by (simp add: bsm_ticks_def timer_send_bsm_callback_fields algebra_simps) }
  { case 3
    with Suc assms show ?case by (simp add: bsm_ticks_def timer_send_bsm_callback_fields) }
qed (simp_all add: bsm_ticks_def)

section \<open>Properties\<close>

text \<open>C33. The broadcast period computed from the speed, whenever the conversion is defined, is at
  least 100 ms, at most 3000 ms and a multiple of 10 ms, as the configuration promises.\<close>

theorem bsm_period_bounds:
  assumes "cal_peroid_from_speed speed factor = Some p"
  shows "100 \<le> p \<and> p \<le> 3000 \<and> p mod 10 = 0"
  using cal_peroid_range[OF assms] by (simp add: period_ok_def)

theorem bsm_period_bounds_witness:
  "cal_peroid_from_speed (Fin 0) 5 = Some 3000 \<and> (100::u16) \<le> 3000 \<and> (3000::u16) mod 10 = 0"
proof -
  have "cal_peroid_from_speed (Fin 0) 5 = Some 3000" by (simp add: cal_peroid_from_speed_def)
  then show ?thesis using bsm_period_bounds[of "Fin 0" 5 3000] by simp
qed

text \<open>A cancelled alert is announced a fixed number of times: after the local alert mask went to
  zero the alert flag survives exactly \<open>VAM_NO_ALERT_EVAM_TX_TIMES\<close> further ticks of the
  broadcast timer and is withdrawn by the next one.\<close>

theorem cancelled_alert_repeats:
  assumes "has_flag (flag v) VAM_FLAG_TX_BSM_ALERT" "s_alert_mask (local v) = 0"
    "st_bsm_count v = VAM_NO_ALERT_EVAM_TX_TIMES"
  shows "(\<forall>k \<le> 5. has_flag (flag (bsm_ticks k v)) VAM_FLAG_TX_BSM_ALERT)
    \<and> \<not> has_flag (flag (bsm_ticks 6 v)) VAM_FLAG_TX_BSM_ALERT"
proof -
  have c: "unat (st_bsm_count v) = 5" using assms(3) by (simp add: VAM_NO_ALERT_EVAM_TX_TIMES_def)
  have k: "flag (bsm_ticks k v) = flag v" if "k \<le> 5" for k
    using bsm_alert_ticks(1)[OF assms(1,2)] that c by simp
  have "st_bsm_count (bsm_ticks 5 v) = 0" "local (bsm_ticks 5 v) = local v"
    using bsm_alert_ticks(2,3)[OF assms(1,2), of 5] c assms(3)
    by (simp_all add: VAM_NO_ALERT_EVAM_TX_TIMES_def)
  then have "flag (bsm_ticks 6 v) = clear_flag (flag v) VAM_FLAG_TX_BSM_ALERT"
    using k[of 5] assms(1,2)
    by (simp add: bsm_ticks_def timer_send_bsm_callback_fields numeral_eq_Suc)
  then show ?thesis using k assms(1) by (simp add: has_flag_def clear_flag_def bit_eq_iff bit_simps)
qed

end
