(* ===== verification/Util.thy ===== *)
theory Util
  imports CmsDef
begin

text \<open>
  The geometry of \<open>app/vam/cv_vam_util.c\<close>: distance of two positions, the signed distance
  seen from a station (negative when the other one is not in front), relative heading, and
  dead reckoning. Each C expression is evaluated in the type C gives it: \<open>float\<close> operands in
  single precision, and in double precision as soon as a literal or a library function is
  involved, rounded to single on assignment. Widening a \<open>float\<close> is exact and not written.
\<close>

section \<open>Literals\<close>

definition EARTH_RADIUS :: fl where "EARTH_RADIUS = to_fl Double (6371004 / 1000)"
definition PI :: fl where "PI = to_fl Double (31415926 / 10000000)"

abbreviation int_f :: "int \<Rightarrow> fl" where "int_f k \<equiv> fl_of_int Single k"

definition RAD :: "fl \<Rightarrow> fl" where
  "RAD d = fl_div Double (fl_mul Double d PI) (Fin 180)"

section \<open>Distance and angle\<close>

definition getDistanceVer2 :: "libm \<Rightarrow> fl \<Rightarrow> fl \<Rightarrow> fl \<Rightarrow> fl \<Rightarrow> fl" where
  "getDistanceVer2 M lat1 lng1 lat2 lng2 =
     (let a = fl_sub Single lat1 lat2;
          b = fl_sub Single lng1 lng2;
          sa = m_pow M (m_sin M (fl_div Single a (int_f 2))) (Fin 2);
          sb = m_pow M (m_sin M (fl_div Single b (int_f 2))) (Fin 2);
          cc = fl_mul Double (m_cos M lat1) (m_cos M lat2);
          s = fl_cast Single (fl_mul Double (Fin 2)
                (m_asin M (m_sqrt M (fl_add Double sa (fl_mul Double cc sb)))))
      in fl_cast Single (fl_mul Double s EARTH_RADIUS))"

definition vsm_get_distance :: "libm \<Rightarrow> vam_position \<Rightarrow> vam_position \<Rightarrow> fl" where
  "vsm_get_distance M p_src p_dest =
     fl_mul Single (int_f 1000)
       (getDistanceVer2 M (p_lat p_src) (p_lon p_src) (p_lat p_dest) (p_lon p_dest))"

datatype compass = North | NorthEast | East | SouthEast | South | SouthWest | West | NorthWest

definition directfromangle :: "int \<Rightarrow> compass" where
  "directfromangle angle =
     (if angle \<le> 10 then North
      else if angle < 80 then NorthEast
      else if angle \<le> 100 then East
      else if angle < 170 then SouthEast
      else if angle \<le> 190 then South
      else if angle < 260 then SouthWest
      else if angle \<le> 280 then West
      else if angle < 350 then NorthWest
      else North)"

definition vsm_get_data :: "libm \<Rightarrow> vam_stastatus \<Rightarrow> vam_stastatus \<Rightarrow> vam_pos_data" where
  "vsm_get_data M p_src p_dest =
     (let lat1 = p_lat (s_pos p_src); lng1 = p_lon (s_pos p_src);
          lat2 = p_lat (s_pos p_dest); lng2 = p_lon (s_pos p_dest);
          lat3 = lat1; lng3 = lng2;
          distance_1_2 = getDistanceVer2 M lat1 lng1 lat2 lng2;
          distance_2_3 = getDistanceVer2 M lat2 lng2 lat3 lng3;
          angle = fl_cast Single (fl_div Double (fl_mul Double
                    (m_acos M (fl_div Single distance_2_3 distance_1_2)) (Fin 180)) PI)
      in \<lparr>d_distance_1_2 = distance_1_2, d_distance_2_3 = distance_2_3, d_angle = angle\<rparr>)"

definition vsm_get_pos :: "vam_stastatus \<Rightarrow> vam_stastatus \<Rightarrow> vam_pos_data \<Rightarrow> fl" where
  "vsm_get_pos p_src p_dest pos_data =
     (let lat1 = p_lat (s_pos p_src); lng1 = p_lon (s_pos p_src);
          lat2 = p_lat (s_pos p_dest); lng2 = p_lon (s_pos p_dest);
          distance_1_2 = d_distance_1_2 pos_data;
          angle = d_angle pos_data;
          angle = (if fl_le lat1 lat2
                   then if fl_le lng1 lng2 then angle else fl_sub Single (int_f 360) angle
                   else if fl_le lng1 lng2 then fl_sub Single (int_f 180) angle
                   else fl_add Single (int_f 180) angle);
          delta = (if fl_lt (s_dir p_src) angle then fl_sub Single angle (s_dir p_src)
                   else fl_sub Single (s_dir p_src) angle);
          delta = (if fl_lt (int_f 180) delta then fl_sub Single (int_f 360) delta else delta);
          distance_1_2 = fl_mul Single distance_1_2 (int_f 1000)
      in if fl_le delta (int_f 45) then distance_1_2 else fl_neg distance_1_2)"

definition vsm_get_relative_pos :: "libm \<Rightarrow> vam_stastatus \<Rightarrow> vam_stastatus \<Rightarrow> fl" where
  "vsm_get_relative_pos M p_src p_dest =
     (let lat1 = p_lat (s_pos p_src); lng1 = p_lon (s_pos p_src);
          lat2 = p_lat (s_pos p_dest); lng2 = p_lon (s_pos p_dest);
          lat3 = lat1; lng3 = lng2;
          distance_1_2 = getDistanceVer2 M lat1 lng1 lat2 lng2;
          distance_2_3 = getDistanceVer2 M lat2 lng2 lat3 lng3;
          angle = fl_cast Single (fl_div Double (fl_mul Double
                    (m_acos M (fl_div Single distance_2_3 distance_1_2)) (Fin 180)) PI);
          angle = (if fl_le lat1 lat2
                   then if fl_le lng1 lng2 then angle else fl_sub Single (int_f 360) angle
                   else if fl_le lng1 lng2 then fl_sub Single (int_f 180) angle
                   else fl_add Single (int_f 180) angle);
          delta = (if fl_lt (s_dir p_src) angle then fl_sub Single angle (s_dir p_src)
                   else fl_sub Single (s_dir p_src) angle);
          delta = (if fl_lt (int_f 180) delta then fl_sub Single (int_f 360) delta else delta);
          distance_1_2 = fl_mul Single distance_1_2 (int_f 1000)
      in if fl_le delta (int_f 45) then distance_1_2 else fl_neg distance_1_2)"

definition vsm_get_relative_dir :: "vam_stastatus \<Rightarrow> vam_stastatus \<Rightarrow> fl" where
  "vsm_get_relative_dir p_src p_dest =
     (let delta = (if fl_lt (s_dir p_src) (s_dir p_dest)
                   then fl_sub Single (s_dir p_dest) (s_dir p_src)
                   else fl_sub Single (s_dir p_src) (s_dir p_dest))
      in if fl_lt (int_f 180) delta then fl_sub Single (int_f 360) delta else delta)"

definition vsm_get_rear_dir :: "vam_stastatus \<Rightarrow> int" where
  "vsm_get_rear_dir p_dest =
     (if fl_lt (int_f 270) (s_dir p_dest) \<or> fl_lt (s_dir p_dest) (int_f 90) then -1 else 1)"

section \<open>Dead reckoning\<close>

definition dr_delta :: "u32 \<Rightarrow> u32 \<Rightarrow> fl" where
  "dr_delta t last_s =
     fl_div Single (fl_of_int Single (uint (if last_s \<le> t then t - last_s else t + 0xFFFFFFFF - last_s)))
       (int_f 1000)"

text \<open>The station status extrapolated to the system time \<open>t\<close>; both pointers are valid.\<close>

definition vsm_get_dr_current :: "libm \<Rightarrow> u32 \<Rightarrow> vam_stastatus \<Rightarrow> vam_stastatus" where
  "vsm_get_dr_current M t last_s =
     (let deltaT = dr_delta t (s_time last_s)
      in if fl_le deltaT (int_f 20) \<or> fl_lt (s_speed last_s) (int_f 10) then last_s
         else
           let lon1 = p_lon (s_pos last_s); lat1 = p_lat (s_pos last_s);
               dir = fl_cast Single (RAD (s_dir last_s));
               v = fl_div Single (s_speed last_s) (to_fl Single (36 / 10));
               s = fl_mul Single v deltaT;
               dR = fl_cast Single (fl_div Double (fl_div Double s EARTH_RADIUS) (Fin 1000));
               lat2 = fl_cast Single (m_asin M
                 (fl_add Double (fl_mul Double (m_sin M lat1) (m_cos M dR))
                    (fl_mul Double (fl_mul Double (m_cos M lat1) (m_sin M dR)) (m_cos M dir))));
               lon2 = fl_cast Single (fl_add Double lon1 (m_atan2 M
                 (fl_mul Double (fl_mul Double (m_sin M dir) (m_sin M dR)) (m_cos M lat1))
                 (fl_sub Double (m_cos M dR) (fl_mul Double (m_sin M lat1) (m_sin M lat2)))))
           in last_s\<lparr>s_time := t, s_pos := (s_pos last_s)\<lparr>p_lon := lon2, p_lat := lat2\<rparr>\<rparr>)"

section \<open>Facts\<close>

lemma int_f_small: "\<bar>k\<bar> < 16777216 \<Longrightarrow> int_f k = Fin (of_int k)"
  by (rule fl_of_int_exact) simp

lemma relative_pos_via_data:
  "vsm_get_relative_pos M a b = vsm_get_pos a b (vsm_get_data M a b)"
  by (simp add: vsm_get_relative_pos_def vsm_get_pos_def vsm_get_data_def Let_def)

text \<open>Subtraction of two headings in order: at most 360 and not negative, whatever the
  rounding does.\<close>

lemma fl_sub_ordered:
  assumes "q \<le> p" "p - q \<le> of_int k" "k < 2 ^ 24"
  shows "\<exists>r. fl_sub Single (Fin p) (Fin q) = Fin r \<and> 0 \<le> r \<and> r \<le> of_int k"
  using to_fl_range[of "p - q" k Single] assms by (simp add: fl_sub_def)

text \<open>Only the order of two headings matters, so the relative heading is symmetric.\<close>

lemma relative_dir_sym:
  assumes "s_dir a = Fin p" "s_dir b = Fin q"
  shows "vsm_get_relative_dir a b = vsm_get_relative_dir b a"
  using assms by (cases "p = q") (auto simp: vsm_get_relative_dir_def Let_def fl_sub_def)

lemma relative_dir_range:
  assumes "s_dir a = Fin p" "0 \<le> p" "p \<le> 360" "s_dir b = Fin q" "0 \<le> q" "q \<le> 360"
  shows "\<exists>r. vsm_get_relative_dir a b = Fin r \<and> 0 \<le> r \<and> r \<le> 180"
proof -
  define d where "d = (if p < q then fl_sub Single (Fin q) (Fin p) else fl_sub Single (Fin p) (Fin q))"
  have "\<exists>r. d = Fin r \<and> 0 \<le> r \<and> r \<le> 360"
    using fl_sub_ordered[of p q 360] fl_sub_ordered[of q p 360] assms
    by (cases "p < q") (auto simp: d_def)
  then obtain r where r: "d = Fin r" "0 \<le> r" "r \<le> 360" by blast
  have e: "vsm_get_relative_dir a b = (if 180 < r then fl_sub Single (Fin 360) (Fin r) else Fin r)"
    using assms r(1) by (simp add: vsm_get_relative_dir_def d_def int_f_small Let_def split: if_splits)
  show ?thesis
  proof (cases "180 < r")
    case True
    then show ?thesis using e fl_sub_ordered[of r 360 180] r by auto
  next
    case False
    then show ?thesis using e r by auto
  qed
qed

text \<open>A station whose time stamp equals the system time is not moved.\<close>

lemma dr_current_same_time: "s_time last_s = t \<Longrightarrow> vsm_get_dr_current M t last_s = last_s"
proof -
  assume "s_time last_s = t"
  then have "dr_delta t (s_time last_s) = Fin 0"
    by (simp add: dr_delta_def int_f_small)
  then show ?thesis by (simp add: vsm_get_dr_current_def int_f_small fl_le_def)
qed

section \<open>Properties\<close>

text \<open>The relative direction of two stations with headings between 0 and 360 degrees is a
  number from 0 to 180, and does not depend on which of the two is asked.\<close>

theorem relative_direction:
  assumes "s_dir a = Fin p" "0 \<le> p" "p \<le> 360" "s_dir b = Fin q" "0 \<le> q" "q \<le> 360"
  shows "\<exists>r. vsm_get_relative_dir a b = Fin r \<and> vsm_get_relative_dir b a = Fin r \<and> 0 \<le> r \<and> r \<le> 180"
  using relative_dir_range[OF assms] relative_dir_sym[OF assms(1,4)] by auto

theorem relative_direction_witness:
  "\<exists>r. vsm_get_relative_dir (zero_sta\<lparr>s_dir := Fin 350\<rparr>) (zero_sta\<lparr>s_dir := Fin 10\<rparr>) = Fin r \<and> 0 \<le> r \<and> r \<le> 180"
  using relative_direction[of "zero_sta\<lparr>s_dir := Fin 350\<rparr>" 350 "zero_sta\<lparr>s_dir := Fin 10\<rparr>" 10] by auto

end
