(* ===== verification/VamApi.thy ===== *)
theory VamApi
  imports Vsm Util
begin

text \<open>
  The interface the applications use, \<open>app/vam/cv_vam_api.c\<close>. Functions that fill a structure
  through a pointer take the previous contents of that structure and return the new ones
  together with the return code; a local variable that the C code leaves uninitialised when a
  station is not found is the argument \<open>junk\<close>. Pointers are never null here; the null checks
  of the C code only guard against programming errors of the caller.
  The semaphore around a traversal is held by one task at a time and given back on every path,
  so the traversal is atomic.
\<close>

section \<open>Configuration, events, local status\<close>

definition vam_start :: "vam_envar \<Rightarrow> int \<times> vam_envar" where
  "vam_start v = (0, snd (vam_add_event_queue v VAM_MSG_START 0 0 VNull))"

definition vam_stop :: "vam_envar \<Rightarrow> int \<times> vam_envar" where
  "vam_stop v = (0, snd (vam_add_event_queue v VAM_MSG_STOP 0 0 VNull))"

definition vam_get_config :: "vam_envar \<Rightarrow> int \<times> vam_config" where
  "vam_get_config v = (0, working_param v)"

definition vam_set_config :: "vam_config \<Rightarrow> vam_envar \<Rightarrow> int \<times> vam_envar" where
  "vam_set_config c v = (0, v\<lparr>working_param := c\<rparr>)"

text \<open>The second argument is the callback, \<open>None\<close> for a null pointer.\<close>

definition vam_set_event_handler :: "u32 \<Rightarrow> nat option \<Rightarrow> vam_envar \<Rightarrow> int \<times> vam_envar" where
  "vam_set_event_handler evt callback v =
     (case (vam_evt_of evt, callback) of
        (Some e, Some h) \<Rightarrow> (0, v\<lparr>evt_handler := (evt_handler v)(e := Some h)\<rparr>)
      | _ \<Rightarrow> (-1, v))"

definition vam_get_local_status :: "vam_envar \<Rightarrow> int \<times> vam_stastatus" where
  "vam_get_local_status v = (0, local v)"

definition vam_get_local_current_status :: "libm \<Rightarrow> u32 \<Rightarrow> vam_envar \<Rightarrow> int \<times> vam_stastatus" where
  "vam_get_local_current_status M t v = (0, vsm_get_dr_current M t (local v))"

definition vam_get_gps_status :: "vam_envar \<Rightarrow> u8" where
  "vam_get_gps_status v = (if has_flag (flag v) VAM_FLAG_GPS_FIXED then 1 else 0)"

definition vam_set_local_status :: "vam_stastatus \<Rightarrow> vam_envar \<Rightarrow> int \<times> vam_envar" where
  "vam_set_local_status s v = (0, v\<lparr>local := s\<rparr>)"

section \<open>Neighbours\<close>

definition find_peer :: "bytes \<Rightarrow> vam_envar \<Rightarrow> laddr option option" where
  "find_peer pid v =
     list_find (\<lambda>p. pid_eq (s_pid (n_s (remote v p))) pid) (links v) NeighbourList"

definition vam_get_all_peer_pid :: "nat \<Rightarrow> vam_envar \<Rightarrow> (int \<times> bytes list \<times> nat) option" where
  "vam_get_all_peer_pid maxitem v =
     do {
       ps \<leftarrow> list_entries (links v) NeighbourList;
       Some (0, map (\<lambda>p. take RCP_TEMP_ID_LEN (s_pid (n_s (remote v p)))) (take maxitem ps), length ps)
     }"

definition vam_get_peer_status ::
    "bytes \<Rightarrow> vam_stastatus \<Rightarrow> vam_envar \<Rightarrow> (int \<times> vam_stastatus) option" where
  "vam_get_peer_status pid buf v =
     do {
       r \<leftarrow> find_peer pid v;
       Some (0, case r of Some p \<Rightarrow> n_s (remote v p) | None \<Rightarrow> buf)
     }"

definition vam_set_peer_cnt :: "bytes \<Rightarrow> u8 \<Rightarrow> vam_envar \<Rightarrow> (int \<times> vam_envar) option" where
  "vam_set_peer_cnt pid cnt v =
     do {
       r \<leftarrow> find_peer pid v;
       Some (0, case r of
           Some p \<Rightarrow> v\<lparr>remote := (remote v)(p := (remote v p)\<lparr>n_s := (n_s (remote v p))\<lparr>s_cnt := cnt\<rparr>\<rparr>)\<rparr>
         | None \<Rightarrow> v)
     }"

definition vam_get_peer_current_status ::
    "libm \<Rightarrow> u32 \<Rightarrow> bytes \<Rightarrow> vam_stastatus \<Rightarrow> vam_envar \<Rightarrow> (int \<times> vam_stastatus) option" where
  "vam_get_peer_current_status M t pid buf v =
     do {
       r \<leftarrow> find_peer pid v;
       Some (0, case r of Some p \<Rightarrow> vsm_get_dr_current M t (n_s (remote v p)) | None \<Rightarrow> buf)
     }"

definition vam_get_peer_relative_pos ::
    "libm \<Rightarrow> u32 \<Rightarrow> vam_stastatus \<Rightarrow> bytes \<Rightarrow> u8 \<Rightarrow> vam_envar \<Rightarrow> int option" where
  "vam_get_peer_relative_pos M t junk pid fl v =
     do {
       (loc, sta) \<leftarrow>
         (if fl = 0 then do {
            (_, sta) \<leftarrow> vam_get_peer_status pid junk v;
            Some (snd (vam_get_local_status v), sta) }
          else if fl = 1 then do {
            (_, sta) \<leftarrow> vam_get_peer_status pid junk v;
            Some (snd (vam_get_local_current_status M t v), sta) }
          else if fl = 2 then do {
            (_, sta) \<leftarrow> vam_get_peer_current_status M t pid junk v;
            Some (snd (vam_get_local_current_status M t v), sta) }
          else Some (junk, junk));
       fl_to_int (-2147483648) 2147483647 (vsm_get_relative_pos M loc sta)
     }"

definition vam_get_peer_relative_dir :: "vam_stastatus \<Rightarrow> vam_stastatus \<Rightarrow> int option" where
  "vam_get_peer_relative_dir loc rem =
     do {
       delta \<leftarrow> fl_to_int (-2147483648) 2147483647 (vsm_get_relative_dir loc rem);
       Some (if delta \<le> 10 \<or> fl_lt (s_speed loc) (int_f 1) \<or> fl_lt (s_speed rem) (int_f 1) then 1 else -1)
     }"

definition vam_get_peer_absolute_speed :: "vam_stastatus \<Rightarrow> bytes \<Rightarrow> vam_envar \<Rightarrow> int option" where
  "vam_get_peer_absolute_speed junk pid v =
     do {
       (_, sta) \<leftarrow> vam_get_peer_status pid junk v;
       fl_to_int (-2147483648) 2147483647 (s_speed sta)
     }"

definition vam_get_peer_alert_status :: "vam_envar \<Rightarrow> (int \<times> u16) option" where
  "vam_get_peer_alert_status v =
     do {
       ps \<leftarrow> list_entries (links v) NeighbourList;
       Some (0, fold (\<lambda>p mask. mask OR s_alert_mask (n_s (remote v p))) ps 0)
     }"

section \<open>Alerts of this station\<close>

definition vam_active_alert :: "u16 \<Rightarrow> vam_envar \<Rightarrow> int \<times> vam_envar" where
  "vam_active_alert alert v =
     (let v = v\<lparr>local := (local v)\<lparr>s_alert_mask := set_flag (s_alert_mask (local v)) alert\<rparr>\<rparr>
      in (0, if \<not> has_flag (flag v) VAM_FLAG_TX_BSM_ALERT
             then v\<lparr>flag := set_flag (flag v) VAM_FLAG_TX_BSM_ALERT\<rparr> else v))"

definition vam_cancel_alert :: "u16 \<Rightarrow> vam_envar \<Rightarrow> int \<times> vam_envar" where
  "vam_cancel_alert alert v =
     (0, v\<lparr>local := (local v)\<lparr>s_alert_mask := clear_flag (s_alert_mask (local v)) alert\<rparr>\<rparr>)"

definition vam_stop_alert :: "vam_envar \<Rightarrow> vam_envar" where
  "vam_stop_alert v =
     v\<lparr>flag := clear_flag (flag v) VAM_FLAG_TX_EVAM,
       timer_send_evam := snd (osal_timer_stop (timer_send_evam v))\<rparr>"

text \<open>The roadside alert type is a bit number.\<close>

definition vam_active_rsa :: "nat \<Rightarrow> vam_envar \<Rightarrow> int \<times> vam_envar" where
  "vam_active_rsa rsaType v =
     (0, v\<lparr>local := (local v)\<lparr>s_alert_mask := set_flag (s_alert_mask (local v)) (push_bit rsaType 1)\<rparr>\<rparr>)"

definition vam_cancel_rsa :: "nat \<Rightarrow> vam_envar \<Rightarrow> int \<times> vam_envar" where
  "vam_cancel_rsa rsaType v =
     (0, v\<lparr>local := (local v)\<lparr>s_alert_mask := clear_flag (s_alert_mask (local v)) (push_bit rsaType 1)\<rparr>\<rparr>)"

definition vam_gsnr_ebd_detected :: "u8 \<Rightarrow> vam_envar \<Rightarrow> vam_envar" where
  "vam_gsnr_ebd_detected status v = call_evt VAM_EVT_GSNR_EBD_DETECT (EvtSta (local v)) v"

definition vam_alert :: "int \<Rightarrow> u16 \<Rightarrow> vam_envar \<Rightarrow> vam_envar" where
  "vam_alert mode type v =
     (if mode = 0 then vam_stop_alert v
      else if mode = 1 then snd (vam_active_alert type v)
      else snd (vam_cancel_alert type v))"

section \<open>Facts\<close>

lemma find_peer_pool:
  "sta_pool v nb fr \<Longrightarrow>
    find_peer pid v = Some (List.find (\<lambda>p. pid_of v p = take RCP_TEMP_ID_LEN pid) nb)"
  unfolding find_peer_def by (rule find_in_pool)

lemma vam_get_all_peer_pid_pool:
  "sta_pool v nb fr \<Longrightarrow>
    vam_get_all_peer_pid maxitem v = Some (0, map (pid_of v) (take maxitem nb), length nb)"
  by (simp add: vam_get_all_peer_pid_def list_entries_dll[OF sta_poolD(1)] pid_of_def)

text \<open>Every identifier the enumeration returns can be looked up, and gives that station.\<close>

lemma enumerate_then_lookup:
  assumes "sta_pool v nb fr" "p \<in> set nb"
  shows "vam_get_peer_status (pid_of v p) buf v = Some (0, n_s (remote v p))"
proof -
  have "take RCP_TEMP_ID_LEN (pid_of v p) = pid_of v p" by (simp add: pid_of_def)
  with find_peer_pool[OF assms(1), of "pid_of v p"]
    find_distinct_map[OF sta_poolD(4)[OF assms(1)] assms(2)]
  show ?thesis by (simp add: vam_get_peer_status_def)
qed

lemma vam_get_peer_status_unknown:
  assumes "sta_pool v nb fr" "take RCP_TEMP_ID_LEN pid \<notin> pid_of v ` set nb"
  shows "vam_get_peer_status pid buf v = Some (0, buf)"
  using find_peer_pool[OF assms(1), of pid] find_image_None[OF assms(2)]
  by (simp add: vam_get_peer_status_def)

lemma fold_or_bit:
  "bit (fold (\<lambda>p mask. mask OR f p) ps m) i \<longleftrightarrow> bit m i \<or> (\<exists>p \<in> set ps. bit (f p) i)"
  for f :: "'p \<Rightarrow> u16"
  by (induction ps arbitrary: m) (auto simp: bit_or_iff)

lemma vam_get_peer_alert_status_bits:
  assumes "sta_pool v nb fr"
  shows "\<exists>m. vam_get_peer_alert_status v = Some (0, m)
    \<and> (\<forall>i. bit m i \<longleftrightarrow> (\<exists>p \<in> set nb. bit (s_alert_mask (n_s (remote v p))) i))"
  by (simp add: vam_get_peer_alert_status_def list_entries_dll[OF sta_poolD(1)[OF assms]] fold_or_bit)

lemma vam_set_peer_cnt_pool:
  assumes "sta_pool v nb fr"
  shows "\<exists>w. vam_set_peer_cnt pid cnt v = Some (0, w) \<and> sta_pool w nb fr
    \<and> (\<forall>p. (remote w p)\<lparr>n_s := (n_s (remote w p))\<lparr>s_cnt := 0\<rparr>\<rparr> = (remote v p)\<lparr>n_s := (n_s (remote v p))\<lparr>s_cnt := 0\<rparr>\<rparr>)"
proof -
  let ?r = "List.find (\<lambda>p. pid_of v p = take RCP_TEMP_ID_LEN pid) nb"
  define w where "w = (case ?r of Some p \<Rightarrow> v\<lparr>remote := (remote v)(p := (remote v p)\<lparr>n_s := (n_s (remote v p))\<lparr>s_cnt := cnt\<rparr>\<rparr>)\<rparr>
      | None \<Rightarrow> v)"
  have "vam_set_peer_cnt pid cnt v = Some (0, w)"
    using find_peer_pool[OF assms, of pid] by (simp add: vam_set_peer_cnt_def w_def)
  moreover have pid: "pid_of w = pid_of v" and idle: "\<And>p. node_idle (remote w p) = node_idle (remote v p)"
    by (auto simp: w_def pid_of_def node_idle_def fun_eq_iff split: option.splits)
  moreover have "sta_pool w nb fr"
    using assms pid idle by (auto simp: sta_pool_def w_def split: option.splits)
  moreover have "(remote w p)\<lparr>n_s := (n_s (remote w p))\<lparr>s_cnt := 0\<rparr>\<rparr> = (remote v p)\<lparr>n_s := (n_s (remote v p))\<lparr>s_cnt := 0\<rparr>\<rparr>" for p
    by (auto simp: w_def split: option.splits)
  ultimately show ?thesis by blast
qed

end
