(* ===== verification/Wnet.thy ===== *)
theory Wnet
  imports CmsDef
begin

text \<open>
  The wireless network layer \<open>app/wnet\<close> and its 802.11 driver \<open>drivers/vnet/wifi/cv_drv_wifi.c\<close>:
  how a message is wrapped (DSMP, security, LLC, beacon) on its way to the air, and how a
  received frame is unwrapped down to the call of the message handler.

  A transmit buffer is the pair of the bytes in front of the data pointer (the head room the
  headers are written into) and the data behind it; pushing a header moves bytes from the
  end of the head room to the front of the data. Writing in front of the buffer is undefined
  (\<open>None\<close>). A receive buffer is the list of the 512 bytes of the C buffer, so reads behind the
  end of a short frame give the zeros \<open>memset\<close> left there, as in the code.

  What the monitor socket is given is recorded in \<open>wn_air\<close>; whether \<open>sendmsg\<close> succeeds is the
  field \<open>wn_sendmsg_ok\<close>, a fact of the outside world.
\<close>

section \<open>State\<close>

record wnet_envar =
  wn_param :: wnet_config
  wn_mac :: bytes
  wn_monitor_sock :: int
  wn_sendmsg_ok :: bool
  wn_air :: "bytes list"
  wnet_dbg_rx_actual :: int
  wnet_dbg_rx_fresh :: int

record wnet_txbuf =
  tb_info :: wnet_txinfo
  tb_room :: bytes
  tb_data :: bytes
  tb_len :: nat

abbreviation (input) LLC_ETHERTYPE_DSMPv1 :: u16 where "LLC_ETHERTYPE_DSMPv1 \<equiv> 0x88E2"
abbreviation (input) LLC_SAP :: u8 where "LLC_SAP \<equiv> 0xAA"
abbreviation (input) DSMP_VERSION :: u8 where "DSMP_VERSION \<equiv> 1"
abbreviation (input) SEC_VERSION :: u8 where "SEC_VERSION \<equiv> 2"
abbreviation (input) WAVE_AID_vehicle_safety :: u32 where "WAVE_AID_vehicle_safety \<equiv> 20"
abbreviation (input) WAVE_ELEMENT_ID_WSM :: u8 where "WAVE_ELEMENT_ID_WSM \<equiv> 128"
abbreviation (input) WNET_TRANS_PROT_DSMP :: u8 where "WNET_TRANS_PROT_DSMP \<equiv> 0"

definition BroadcastAddr :: bytes where "BroadcastAddr = [0xff, 0xff, 0xff, 0xff, 0xff, 0xff]"
definition BssidForV2V :: bytes where "BssidForV2V = [0x00, 0x63, 0x73, 0x76, 0x32, 0x76]"

definition BeaconFixedElement :: bytes where
  "BeaconFixedElement = [0, 0, 0, 0, 0, 0, 0, 0, 0x64, 0x00, 0x22, 0x04, 0x00, 0x00]"

definition drv_vnet_mac_header_len :: nat where
  "drv_vnet_mac_header_len = 24 + length BeaconFixedElement"

section \<open>Buffers\<close>

definition zero_txinfo :: wnet_txinfo where
  "zero_txinfo = \<lparr>tx_dest_mac = replicate 6 0, tx_aid = 0, tx_protocol = 0, tx_encryption = 0,
     tx_prority = 0, tx_timestamp = 0\<rparr>"

definition wnet_get_txbuf :: wnet_txbuf where
  "wnet_get_txbuf =
     (let off = TXBUF_RESERVE_LENGTH + drv_vnet_mac_header_len
      in \<lparr>tb_info = zero_txinfo, tb_room = replicate off 0,
          tb_data = replicate (TXBUF_LENGTH - off) 0, tb_len = 0\<rparr>)"

definition wnet_get_rxbuf :: bytes where
  "wnet_get_rxbuf = replicate RXBUF_LENGTH 0"

text \<open>\<open>pdata -= len\<close>: the \<open>n\<close> bytes in front of the data become its first bytes.\<close>

definition push :: "nat \<Rightarrow> bytes \<times> bytes \<Rightarrow> (bytes \<times> bytes) option" where
  "push n b = (let (room, d) = b in
     if n \<le> length room then Some (take (length room - n) room, drop (length room - n) room @ d)
     else None)"

text \<open>Writing a block of bytes at an offset behind the data pointer.\<close>

definition poke :: "nat \<Rightarrow> bytes \<Rightarrow> bytes \<Rightarrow> bytes" where
  "poke off bs d = take off d @ bs @ drop (off + length bs) d"

section \<open>Sending\<close>

definition nl80211_send_monitor :: "wnet_envar \<Rightarrow> bytes \<Rightarrow> int \<times> wnet_envar" where
  "nl80211_send_monitor w frame =
     (if wn_monitor_sock w < 0 then (-1, w)
      else if \<not> wn_sendmsg_ok w then (-1, w)
      else (0, w\<lparr>wn_air := wn_air w @ [frame]\<rparr>))"

text \<open>The 802.11 header: a beacon to everyone, from this station, in the V2V cell.\<close>

definition hdr80211 :: "bytes \<Rightarrow> bytes" where
  "hdr80211 mac = [0x80, 0x00] @ [0, 0] @ BroadcastAddr @ mac @ BssidForV2V @ [0, 0]"

definition drv_vnet_send ::
    "wnet_envar \<Rightarrow> wnet_txinfo \<Rightarrow> bytes \<times> bytes \<Rightarrow> nat \<Rightarrow> (int \<times> wnet_envar) option" where
  "drv_vnet_send w txinfo b len =
     do {
       (room, d) \<leftarrow> push (length BeaconFixedElement) b;
       let d = poke 0 BeaconFixedElement d;
       (room, d) \<leftarrow> push 24 (room, d);
       let d = poke 0 (hdr80211 (wn_mac w)) d;
       Some (if wn_monitor_sock w \<noteq> 0
             then nl80211_send_monitor w (take (len + length BeaconFixedElement + 24) d)
             else (-1, w))
     }"

definition fp_send ::
    "wnet_envar \<Rightarrow> wnet_txinfo \<Rightarrow> bytes \<times> bytes \<Rightarrow> nat \<Rightarrow> (int \<times> wnet_envar) option" where
  "fp_send w txinfo b len =
     do {
       (ret, w) \<leftarrow> drv_vnet_send w txinfo b len;
       Some (if ret < 0 then (-1, w) else (0, w))
     }"

definition llc_send ::
    "wnet_envar \<Rightarrow> wnet_txinfo \<Rightarrow> bytes \<times> bytes \<Rightarrow> nat \<Rightarrow> (int \<times> wnet_envar) option" where
  "llc_send w txinfo b len =
     do {
       (room, d) \<leftarrow> push 8 b;
       let len = len + 8;
       let d = poke 0 (replicate 8 0) d;
       let d = poke 0 [LLC_SAP, LLC_SAP] d;
       if tx_protocol txinfo = WNET_TRANS_PROT_DSMP
       then let d = poke 6 (le16 (cv_ntohs LLC_ETHERTYPE_DSMPv1)) d in fp_send w txinfo (room, d) len
       else Some (-1, w)
     }"

definition dsmp_send ::
    "wnet_envar \<Rightarrow> wnet_txinfo \<Rightarrow> bytes \<times> bytes \<Rightarrow> nat \<Rightarrow> (int \<times> wnet_envar) option" where
  "dsmp_send w txinfo b len =
     do {
       (room, d) \<leftarrow> push 8 b;
       let d = poke 0 ([DSMP_VERSION] @ le32 (cv_ntohl WAVE_AID_vehicle_safety)
                 @ [WAVE_ELEMENT_ID_WSM] @ le16 (cv_ntohs (of_nat len))) d;
       let len = len + 8;
       if tx_encryption txinfo = 0
       then do {
         (room, d) \<leftarrow> push 4 (room, d);
         let len = len + 4;
         let d = poke 0 [SEC_VERSION, 0] d;
         llc_send w txinfo (room, d) len
       }
       else Some (0, w)
     }"

definition wnet_send ::
    "wnet_envar \<Rightarrow> wnet_txinfo \<Rightarrow> bytes \<times> bytes \<Rightarrow> nat \<Rightarrow> (int \<times> wnet_envar) option" where
  "wnet_send w txinfo b len =
     (if tx_protocol txinfo = WNET_TRANS_PROT_DSMP then dsmp_send w txinfo b len else Some (-1, w))"

section \<open>Receiving\<close>

text \<open>
  One frame from the monitor socket, without its radiotap header. Three outcomes: the frame
  is not one of ours and the driver waits for the next (\<open>Some None\<close>), it is delivered with
  its source address, or reading or writing it leaves the buffers of the driver (\<open>None\<close>): the
  receive buffer of 2048 bytes, or the 1280 bytes the receive thread provides.
\<close>

definition drv_vnet_recv :: "bytes \<Rightarrow> bytes \<Rightarrow> (bytes \<times> bytes) option option" where
  "drv_vnet_recv mac fr =
     (if length fr < 24 + 14 + 2 then None
      else if take 6 (drop 16 fr) = BssidForV2V \<and> take 6 (drop 10 fr) \<noteq> mac then
        let len = length fr - 24;
            p = drop 24 fr;
            eid = p ! 14;
            (pay, len) = (if eid = 0xDD then (take 8 p @ drop 16 p, len - 8)
                          else if eid = 0xAA then (drop 14 p, len - 14)
                          else (drop 16 p, len))
        in if length pay < len \<or> 1280 < len then None
           else Some (Some (take 6 (drop 10 fr), take len pay))
      else Some None)"

text \<open>The upper layer is a parameter: it gets the rest of the receive buffer and the length
  the DSMP header claims.\<close>

definition dsmp_recv ::
    "(wnet_rxinfo \<Rightarrow> bytes \<Rightarrow> nat \<Rightarrow> 's \<Rightarrow> (int \<times> 's) option) \<Rightarrow>
      wnet_rxinfo \<Rightarrow> bytes \<Rightarrow> nat \<Rightarrow> 's \<Rightarrow> (int \<times> 's) option" where
  "dsmp_recv rcp_recv rxinfo pdata len s =
     (if length pdata < 20 then None
      else
        let pdata = (if pdata ! 1 \<noteq> 0 then drop (4 + (4 + 4)) pdata else drop 4 pdata);
            aid = cv_ntohl (get32 pdata 1)
        in if aid = WAVE_AID_vehicle_safety then
             if pdata ! 5 = WAVE_ELEMENT_ID_WSM then
               rcp_recv rxinfo (drop 8 pdata) (unat (cv_ntohs (get16 pdata 6))) s
             else Some (-1, s)
           else Some (-1, s))"

definition llc_recv ::
    "(wnet_rxinfo \<Rightarrow> bytes \<Rightarrow> nat \<Rightarrow> 's \<Rightarrow> (int \<times> 's) option) \<Rightarrow>
      wnet_rxinfo \<Rightarrow> bytes \<Rightarrow> nat \<Rightarrow> 's \<Rightarrow> (int \<times> 's) option" where
  "llc_recv rcp_recv rxinfo pdata len s =
     (if len < 8 then Some (-1, s)
      else
        let ether_type = get16 pdata 6; pdata = drop 8 pdata; len = len - 8
        in if cv_ntohs ether_type = LLC_ETHERTYPE_DSMPv1
           then dsmp_recv rcp_recv (rxinfo\<lparr>rx_protocol := WNET_TRANS_PROT_DSMP\<rparr>) pdata len s
           else Some (-1, s))"

text \<open>The frame is copied to the front of a zeroed buffer of 512 bytes; nothing checks that it
  fits.\<close>

definition fp_recv ::
    "(wnet_rxinfo \<Rightarrow> bytes \<Rightarrow> nat \<Rightarrow> 's \<Rightarrow> (int \<times> 's) option) \<Rightarrow>
      wnet_rxinfo \<Rightarrow> bytes \<Rightarrow> 's \<Rightarrow> (int \<times> 's) option" where
  "fp_recv rcp_recv rxinfo frame s =
     (if RXBUF_LENGTH < length frame then None
      else do {
        let rxbuf = frame @ drop (length frame) wnet_get_rxbuf;
        (_, s) \<leftarrow> llc_recv rcp_recv rxinfo rxbuf (length frame) s;
        Some (0, s)
      })"

definition wnet_recv_stat :: "u8 \<Rightarrow> wnet_envar \<Rightarrow> wnet_envar" where
  "wnet_recv_stat dbg w =
     (if dbg \<noteq> 0 then w\<lparr>wnet_dbg_rx_fresh := wnet_dbg_rx_fresh w + 1,
                         wnet_dbg_rx_actual := wnet_dbg_rx_actual w + 1\<rparr>
      else w)"

definition zero_rxinfo :: wnet_rxinfo where
  "zero_rxinfo = \<lparr>rx_src_mac = replicate 6 0, rx_aid = 0, rx_protocol = 0, rx_encryption = 0,
     rx_rssi = 0, rx_timestamp = 0\<rparr>"

section \<open>Wrapping and unwrapping\<close>

text \<open>The frame a message becomes when nothing fails; \<open>r\<close> are the two reserved bytes of the
  security header, which keep what the buffer held before.\<close>

definition llc_frame :: "bytes \<Rightarrow> bytes \<Rightarrow> bytes" where
  "llc_frame r msg =
     [LLC_SAP, LLC_SAP, 0, 0, 0, 0] @ be16 LLC_ETHERTYPE_DSMPv1
     @ [SEC_VERSION, 0] @ r
     @ [DSMP_VERSION] @ be32 WAVE_AID_vehicle_safety @ [WAVE_ELEMENT_ID_WSM] @ be16 (of_nat (length msg))
     @ msg"

lemma push_append: "length x = n \<Longrightarrow> push n (room @ x, d) = Some (room, x @ d)"
  by (simp add: push_def)

lemma poke_prefix: "length x = length bs \<Longrightarrow> poke 0 bs (x @ d) = bs @ d"
  by (simp add: poke_def)

lemma poke_part: "length x = n \<Longrightarrow> length y = length bs \<Longrightarrow> poke n bs (x @ y @ d) = x @ bs @ d"
  by (simp add: poke_def)

lemma length_consts [simp]:
  "length BroadcastAddr = 6" "length BssidForV2V = 6" "length BeaconFixedElement = 14"
  by (simp_all add: BroadcastAddr_def BssidForV2V_def BeaconFixedElement_def)

lemma be16_ethertype: "be16 LLC_ETHERTYPE_DSMPv1 = [0x88, 0xE2]"
  by (simp add: be16_def)

lemma be32_aid: "be32 WAVE_AID_vehicle_safety = [0, 0, 0, 20]"
  by (simp add: be32_def)

lemma length_hdr80211: "length mac = 6 \<Longrightarrow> length (hdr80211 mac) = 24"
  by (simp add: hdr80211_def)

lemma drv_vnet_send_frame:
  assumes "length (wn_mac w) = 6" "length a = 24" "length b = 14" "len \<le> length d"
    "0 < wn_monitor_sock w" "wn_sendmsg_ok w"
  shows "drv_vnet_send w txinfo (room @ a @ b, d) len
    = Some (0, w\<lparr>wn_air := wn_air w @ [hdr80211 (wn_mac w) @ BeaconFixedElement @ take len d]\<rparr>)"
  using assms push_append[of b 14 "room @ a" d] push_append[of a 24 room]
  by (simp add: drv_vnet_send_def poke_prefix nl80211_send_monitor_def length_hdr80211)

lemma wnet_send_frame:
  assumes mac: "length (wn_mac w) = 6" and sock: "0 < wn_monitor_sock w" "wn_sendmsg_ok w"
    and info: "tx_protocol txinfo = 0" "tx_encryption txinfo = 0"
    and len: "len \<le> length d"
    and room: "length a = 24" "length b = 14" "length c = 8" "length r = 2" "length e = 8"
  shows "wnet_send w txinfo (room @ a @ b @ c @ [s0, s1] @ r @ e, d) len
    = Some (0, w\<lparr>wn_air := wn_air w @ [hdr80211 (wn_mac w) @ BeaconFixedElement
        @ llc_frame r (take len d)]\<rparr>)"
proof -
  let ?d1 = "([DSMP_VERSION] @ be32 20 @ [WAVE_ELEMENT_ID_WSM] @ be16 (of_nat len)) @ d"
  let ?d2 = "[SEC_VERSION, 0] @ r @ ?d1"
  let ?d3 = "[LLC_SAP, LLC_SAP, 0, 0, 0, 0] @ be16 LLC_ETHERTYPE_DSMPv1 @ ?d2"
  have fp: "fp_send w txinfo (room @ a @ b, ?d3) (len + 20)
      = Some (0, w\<lparr>wn_air := wn_air w @ [hdr80211 (wn_mac w) @ BeaconFixedElement @ take (len + 20) ?d3]\<rparr>)"
    using drv_vnet_send_frame[of w a b "len + 20" ?d3] mac sock len room
    by (simp add: fp_send_def be16_ethertype be32_aid)
  have tk: "take (len + 20) ?d3 = llc_frame r (take len d)"
  proof -
    define H where "H = [LLC_SAP, LLC_SAP, 0, 0, 0, 0] @ be16 LLC_ETHERTYPE_DSMPv1 @ [SEC_VERSION, 0] @ r
      @ [DSMP_VERSION] @ be32 20 @ [WAVE_ELEMENT_ID_WSM] @ be16 (of_nat len)"
    have l: "length H = 20" using room by (simp add: H_def)
    have e: "?d3 = H @ d" by (simp add: H_def)
    have f: "llc_frame r (take len d) = H @ take len d"
      using len by (simp add: llc_frame_def H_def min_def)
    show ?thesis unfolding e f using l by simp
  qed
  have rep: "replicate 8 (0 :: u8) = [0, 0, 0, 0, 0, 0, 0, 0]" by (simp add: eval_nat_numeral)
  have pk: "poke 6 (le16 (cv_ntohs LLC_ETHERTYPE_DSMPv1)) (poke 0 [LLC_SAP, LLC_SAP] (poke 0 (replicate 8 0) (c @ ?d2))) = ?d3"
    using room by (simp add: poke_prefix rep) (simp add: poke_def le16_swap)
  have llc: "llc_send w txinfo ((room @ a @ b) @ c, ?d2) (len + 12) = fp_send w txinfo (room @ a @ b, ?d3) (len + 20)"
    unfolding llc_send_def push_append[OF room(3)] using pk info by (simp add: Let_def add.assoc)
  have sec: "poke 0 [SEC_VERSION, 0] (([s0, s1] @ r) @ ?d1) = ?d2"
    by (simp add: poke_def)
  have "push 4 (((room @ a @ b) @ c) @ [s0, s1] @ r, ?d1) = Some ((room @ a @ b) @ c, ([s0, s1] @ r) @ ?d1)"
    using room by (intro push_append) simp
  moreover have "push 8 ((((room @ a @ b) @ c) @ [s0, s1] @ r) @ e, d) = Some (((room @ a @ b) @ c) @ [s0, s1] @ r, e @ d)"
    using room by (intro push_append) simp
  moreover have "poke 0 ([DSMP_VERSION] @ le32 (cv_ntohl 20) @ [WAVE_ELEMENT_ID_WSM] @ le16 (cv_ntohs (of_nat len))) (e @ d) = ?d1"
    using room by (simp add: poke_prefix le16_swap le32_swap)
  ultimately show ?thesis
    using llc sec fp tk info
    by (simp add: wnet_send_def dsmp_send_def Let_def add.assoc del: append_Cons)
qed

lemma length_llc_frame: "length r = 2 \<Longrightarrow> length (llc_frame r msg) = 20 + length msg"
  by (simp add: llc_frame_def)

text \<open>What the driver of another station makes of such a frame.\<close>

lemma drv_vnet_recv_frame:
  assumes "length src = 6" "src \<noteq> mac" "length r = 2" "length msg \<le> 1260"
  shows "drv_vnet_recv mac (hdr80211 src @ BeaconFixedElement @ llc_frame r msg)
    = Some (Some (src, llc_frame r msg))"
proof -
  let ?f = "hdr80211 src @ BeaconFixedElement @ llc_frame r msg"
  have len: "length ?f = 58 + length msg"
    using assms length_hdr80211[OF assms(1)] by (simp add: length_llc_frame)
  have "take 6 (drop 16 ?f) = BssidForV2V" "take 6 (drop 10 ?f) = src"
    using assms(1) by (simp_all add: hdr80211_def)
  moreover have d24: "drop 24 ?f = BeaconFixedElement @ llc_frame r msg"
    using length_hdr80211[OF assms(1)] by simp
  moreover have "(BeaconFixedElement @ llc_frame r msg) ! 14 = 0xAA"
    by (simp add: nth_append llc_frame_def)
  ultimately show ?thesis
    using assms len by (simp add: drv_vnet_recv_def length_llc_frame Let_def)
qed

lemma cv_ntohs_get16_be: "cv_ntohs (get16 (be16 x @ ys) 0) = x"
  using get16_append[of "[]" "cv_ntohs x" ys] by (simp add: le16_swap)

lemma get16_skip: "length xs = n \<Longrightarrow> get16 (xs @ ys) n = get16 ys 0"
  by (simp add: get16.simps nth_append)

lemma get32_skip: "length xs = n \<Longrightarrow> get32 (xs @ ys) n = get32 ys 0"
  by (simp add: get32.simps nth_append numeral_2_eq_2)

lemma cv_ntohl_get32_be: "cv_ntohl (get32 (be32 x @ ys) 0) = x"
  using get32_append[of "[]" "cv_ntohl x" ys] by (simp add: le32_swap)

lemma dsmp_recv_frame:
  assumes r: "length r = 2" and len: "len \<le> 65535" "8 \<le> length msg"
  shows "dsmp_recv rcp rxinfo ([SEC_VERSION, 0] @ r @ [DSMP_VERSION] @ be32 WAVE_AID_vehicle_safety
      @ [WAVE_ELEMENT_ID_WSM] @ be16 (of_nat len) @ msg) k s = rcp rxinfo msg len s"
proof -
  let ?h = "[DSMP_VERSION] @ be32 WAVE_AID_vehicle_safety @ [WAVE_ELEMENT_ID_WSM] @ be16 (of_nat len) @ msg"
  have "cv_ntohl (get32 ?h 1) = 20"
    using get32_skip[of "[DSMP_VERSION]" 1] cv_ntohl_get32_be[of 20] by simp
  moreover have "?h ! 5 = WAVE_ELEMENT_ID_WSM" by (simp add: nth_append)
  moreover have "get16 ?h 6 = get16 (be16 (of_nat len) @ msg) 0"
    using get16_skip[of "[DSMP_VERSION] @ be32 20 @ [WAVE_ELEMENT_ID_WSM]" 6 "be16 (of_nat len) @ msg"] by simp
  moreover have "drop 8 ?h = msg" by simp
  moreover have "unat (of_nat len :: u16) = len" using len by (simp add: unat_of_nat take_bit_nat_eq_self)
  moreover have "drop 4 ([SEC_VERSION, 0] @ r @ ?h) = ?h" using r by simp
  moreover have "([SEC_VERSION, 0] @ r @ ?h) ! 1 = 0" by simp
  moreover have "20 \<le> length ([SEC_VERSION, 0] @ r @ ?h)" using len r by simp
  ultimately show ?thesis
    unfolding dsmp_recv_def Let_def using cv_ntohs_get16_be[of "of_nat len" msg] by simp
qed

text \<open>The receive path hands the message, followed by the zeros of the buffer, to the upper
  layer, with its length.\<close>

lemma fp_recv_frame:
  assumes r: "length r = 2" and len: "length msg \<le> 484"
  shows "fp_recv rcp rxinfo (llc_frame r msg) s
    = map_option (\<lambda>(_, s). (0, s))
        (rcp (rxinfo\<lparr>rx_protocol := 0\<rparr>) (msg @ replicate (492 - length msg) 0) (length msg) s)"
proof -
  let ?z = "replicate (492 - length msg) (0 :: u8)"
  let ?d = "[SEC_VERSION, 0] @ r @ [DSMP_VERSION] @ be32 WAVE_AID_vehicle_safety
      @ [WAVE_ELEMENT_ID_WSM] @ be16 (of_nat (length msg)) @ msg @ ?z"
  have buf: "llc_frame r msg @ drop (length (llc_frame r msg)) wnet_get_rxbuf
      = [LLC_SAP, LLC_SAP, 0, 0, 0, 0] @ be16 LLC_ETHERTYPE_DSMPv1 @ ?d"
    using len r by (simp add: length_llc_frame wnet_get_rxbuf_def) (simp add: llc_frame_def)
  have "llc_recv rcp rxinfo ([LLC_SAP, LLC_SAP, 0, 0, 0, 0] @ be16 LLC_ETHERTYPE_DSMPv1 @ ?d) (20 + length msg) s
      = dsmp_recv rcp (rxinfo\<lparr>rx_protocol := 0\<rparr>) ?d (12 + length msg) s"
    using get16_skip[of "[LLC_SAP, LLC_SAP, 0, 0, 0, 0]" 6 "be16 LLC_ETHERTYPE_DSMPv1 @ ?d"]
      cv_ntohs_get16_be[of LLC_ETHERTYPE_DSMPv1 ?d]
    by (simp add: llc_recv_def Let_def)
  also have "\<dots> = rcp (rxinfo\<lparr>rx_protocol := 0\<rparr>) (msg @ ?z) (length msg) s"
    using len by (intro dsmp_recv_frame[OF r]) auto
  finally show ?thesis
    using len r unfolding fp_recv_def buf
    by (simp add: length_llc_frame) (simp add: map_option_case case_prod_beta split: option.splits bind_splits)
qed

text \<open>The head room of a transmit buffer is exactly the four headers.\<close>

lemma split_length: "length xs = m + n \<Longrightarrow> \<exists>a b. xs = a @ b \<and> length a = m \<and> length b = n"
  by (intro exI[of _ "take m xs"] exI[of _ "drop m xs"]) simp

lemma split_room:
  assumes "length room = 58"
  obtains a b c s0 s1 r e where "room = a @ b @ c @ [s0, s1] @ r @ e"
    "length a = 24" "length b = 14" "length c = 8" "length r = 2" "length e = 8"
proof -
  obtain a x where x: "room = a @ x" "length a = 24" "length x = 34"
    using split_length[of room 24 34] assms by auto
  obtain b y where y: "x = b @ y" "length b = 14" "length y = 20"
    using split_length[of x 14 20] x by auto
  obtain c z where z: "y = c @ z" "length c = 8" "length z = 12"
    using split_length[of y 8 12] y by auto
  obtain t u where t: "z = t @ u" "length t = 2" "length u = 10"
    using split_length[of z 2 10] z by auto
  obtain r e where r: "u = r @ e" "length r = 2" "length e = 8"
    using split_length[of u 2 8] t by auto
  obtain s0 s1 where "t = [s0, s1]"
    using t(2) by (auto simp: length_Suc_conv numeral_2_eq_2)
  then show thesis using x y z t r by (intro that[of a b c s0 s1 r e]) simp_all
qed

lemma wnet_get_txbuf_room: "length (tb_room wnet_get_txbuf) = 58" "length (tb_data wnet_get_txbuf) = 454"
  by (simp_all add: wnet_get_txbuf_def drv_vnet_mac_header_len_def)

lemma frame_through:
  assumes "length (wn_mac w) = 6" "0 < wn_monitor_sock w" "wn_sendmsg_ok w"
    and "tx_protocol txinfo = 0" "tx_encryption txinfo = 0" "len \<le> length d" "len \<le> 484"
    and "wn_mac w \<noteq> mac" "length room = 58"
  shows "\<exists>frame x. wnet_send w txinfo (room, d) len = Some (0, w\<lparr>wn_air := wn_air w @ [frame]\<rparr>)
    \<and> drv_vnet_recv mac frame = Some (Some (wn_mac w, x))
    \<and> (\<forall>rcp rxinfo s. fp_recv rcp rxinfo x s = map_option (\<lambda>(_, s). (0, s))
        (rcp (rxinfo\<lparr>rx_protocol := 0\<rparr>) (take len d @ replicate (492 - len) 0) len s))"
proof -
  obtain a b c s0 s1 r e where room: "room = [] @ a @ b @ c @ [s0, s1] @ r @ e"
    "length a = 24" "length b = 14" "length c = 8" "length r = 2" "length e = 8"
    using split_room[OF assms(9)] by (metis append_Nil)
  define f where "f = hdr80211 (wn_mac w) @ BeaconFixedElement @ llc_frame r (take len d)"
  have "wnet_send w txinfo (room, d) len = Some (0, w\<lparr>wn_air := wn_air w @ [f]\<rparr>)"
    unfolding f_def room(1) by (rule wnet_send_frame) (use assms room in simp_all)
  moreover have "drv_vnet_recv mac f = Some (Some (wn_mac w, llc_frame r (take len d)))"
    unfolding f_def by (rule drv_vnet_recv_frame) (use assms room in simp_all)
  moreover have "fp_recv rcp rxinfo (llc_frame r (take len d)) s = map_option (\<lambda>(_, s). (0, s))
        (rcp (rxinfo\<lparr>rx_protocol := 0\<rparr>) (take len d @ replicate (492 - len) 0) len s)" for rcp rxinfo s
    using fp_recv_frame[OF room(5), of "take len d" rcp rxinfo s] assms(6,7) by (simp add: min_def)
  ultimately show ?thesis by blast
qed

section \<open>Properties\<close>

text \<open>A message handed to \<open>wnet_send\<close> in a transmit buffer goes on the air as one frame, and the
  receive path of another station - driver, frame process, link layer, short-message layer -
  takes all headers off again: the upper layer is called with exactly the message, zero-padded,
  and its length.\<close>

theorem frame_roundtrip:
  assumes "length (wn_mac w) = 6" "0 < wn_monitor_sock w" "wn_sendmsg_ok w"
    and "tx_protocol txinfo = 0" "tx_encryption txinfo = 0" "len \<le> length d" "len \<le> 484"
    and "wn_mac w \<noteq> mac" "length room = 58"
  shows "\<exists>frame x. wnet_send w txinfo (room, d) len = Some (0, w\<lparr>wn_air := wn_air w @ [frame]\<rparr>)
    \<and> drv_vnet_recv mac frame = Some (Some (wn_mac w, x))
    \<and> (\<forall>rcp rxinfo s. fp_recv rcp rxinfo x s = map_option (\<lambda>(_, s). (0, s))
        (rcp (rxinfo\<lparr>rx_protocol := 0\<rparr>) (take len d @ replicate (492 - len) 0) len s))"
  by (rule frame_through[OF assms])

theorem frame_roundtrip_witness:
  "\<exists>frame x w. wnet_send \<lparr>wn_param = \<lparr>w_channel = 13, w_txrate = 12, w_mode = 0\<rparr>, wn_mac = [2, 0, 0, 0, 0, 1],
        wn_monitor_sock = 3, wn_sendmsg_ok = True, wn_air = [], wnet_dbg_rx_actual = 0, wnet_dbg_rx_fresh = 0\<rparr>
      zero_txinfo (replicate 58 0, [10, 20, 30]) 3 = Some (0, w) \<and> wn_air w = [frame]
    \<and> drv_vnet_recv [2, 0, 0, 0, 0, 2] frame = Some (Some ([2, 0, 0, 0, 0, 1], x))"
proof -
  let ?w = "\<lparr>wn_param = \<lparr>w_channel = 13, w_txrate = 12, w_mode = 0\<rparr>, wn_mac = [2, 0, 0, 0, 0, 1],
        wn_monitor_sock = 3, wn_sendmsg_ok = True, wn_air = [], wnet_dbg_rx_actual = 0, wnet_dbg_rx_fresh = 0\<rparr>
      :: wnet_envar"
  obtain frame x where "wnet_send ?w zero_txinfo (replicate 58 0, [10, 20, 30]) 3 = Some (0, ?w\<lparr>wn_air := [frame]\<rparr>)"
    "drv_vnet_recv [2, 0, 0, 0, 0, 2] frame = Some (Some ([2, 0, 0, 0, 0, 1], x))"
    using frame_roundtrip[of ?w zero_txinfo 3 "[10, 20, 30]" "[2, 0, 0, 0, 0, 2]" "replicate 58 0"]
    by (auto simp: zero_txinfo_def)
  then show ?thesis by auto
qed

end
