(* ===== verification/Mda.thy ===== *)
theory Mda
  imports VamApi Wnet
begin

text \<open>
  Multi-hop forwarding, \<open>app/vam/cv_vam_mda.c\<close>, with the two functions of
  \<open>app/vam/cv_vam_rcp.c\<close> that make and send a forwarded message.

  A message heard for the first time and with hops left is kept back for a time that is
  shorter the farther its sender is away; whoever waits longest hears the message repeated by
  somebody else and drops it. The waiting messages are transmit buffers linked through the
  intrusive list of \<open>ListH\<close>; the bookkeeping structure \<open>mda_forward_t\<close> lies in the head room
  of the buffer, in the 16 bytes in front of the message.

  \<open>cms\<close> collects the global structures these modules share. The system time comes from
  \<open>osal_get_systemtime\<close> at the clock reading \<open>g_clock\<close>; \<open>g_junk\<close> and
  \<open>g_junk_rsa\<close> are the contents of uninitialised local variables of those types.
\<close>

section \<open>State\<close>

record mda_msg_info =
  mi_temorary_id :: bytes
  mi_forward_id :: bytes
  mi_msg_count :: u8
  mi_left_hops :: u8

record mda_history =
  h_msg :: mda_msg_info
  h_life_time :: int

record mda_forward =
  fw_msg :: mda_msg_info
  fw_delay_time :: int

datatype faddr = ForwardWaiting | Tx nat

record mda_envar =
  flag_history_timeout :: bool
  forward_links :: "faddr list_heap"
  forward_buf :: "faddr \<Rightarrow> wnet_txbuf"
  forward_fw :: "faddr \<Rightarrow> mda_forward"
  next_txbuf :: nat
  rx_history_table :: "mda_history list"

record test_comm_node =
  tc_pid :: bytes
  tc_rx_cnt :: u32
  tc_distance_dev :: fl

record cms =
  g_vam :: vam_envar
  g_mda :: mda_envar
  g_wnet :: wnet_envar
  g_clock :: "int \<times> int"
  g_junk :: vam_stastatus
  g_junk_rsa :: vam_rsa_evt_info
  g_dbg_print_type :: u8
  rcp_dbg_distance :: fl
  test_comm_list :: "test_comm_node list"

definition RX_HISTORY_NUM :: nat where "RX_HISTORY_NUM = 16"
definition MAX_HISTORY_LIFE :: int where "MAX_HISTORY_LIFE = 10"
definition V2V_COMMUNICATION_RANGE :: fl where "V2V_COMMUNICATION_RANGE = Fin 350"
definition MDA_FORWARD_DELAY_TIME_UNIT :: fl where "MDA_FORWARD_DELAY_TIME_UNIT = Fin 70"

definition systime :: "cms \<Rightarrow> u32" where
  "systime c = (case osal_get_systemtime (Some (g_clock c)) of Some t \<Rightarrow> t | None \<Rightarrow> 0)"

section \<open>The forwarding delay\<close>

text \<open>From the distance to the relaying station, in metres, to the delay in milliseconds.\<close>

definition delay_of_distance :: "int \<Rightarrow> int option" where
  "delay_of_distance dis =
     (if dis > 0 then
        do {
          dis \<leftarrow> fl_to_int (-2147483648) 2147483647
                  (if fl_lt V2V_COMMUNICATION_RANGE (int_f dis) then V2V_COMMUNICATION_RANGE
                   else int_f dis);
          fl_to_int (-2147483648) 2147483647
            (fl_mul Single (fl_sub Single (int_f 1) (fl_div Single (int_f dis) V2V_COMMUNICATION_RANGE))
               MDA_FORWARD_DELAY_TIME_UNIT)
        }
      else Some (-1))"

definition alg_farest_node :: "libm \<Rightarrow> cms \<Rightarrow> mda_msg_info \<Rightarrow> int option" where
  "alg_farest_node M c src_sta =
     do {
       dis \<leftarrow> vam_get_peer_relative_pos M (systime c) (g_junk c) (mi_forward_id src_sta) 0 (g_vam c);
       delay_of_distance dis
     }"

section \<open>The history of received messages\<close>

definition update_history_record :: "mda_envar \<Rightarrow> mda_envar" where
  "update_history_record m =
     m\<lparr>rx_history_table := map (\<lambda>h. h\<lparr>h_life_time := h_life_time h - 1\<rparr>) (rx_history_table m)\<rparr>"

definition same_msg :: "mda_msg_info \<Rightarrow> mda_msg_info \<Rightarrow> bool" where
  "same_msg a b \<longleftrightarrow> pid_eq (mi_temorary_id a) (mi_temorary_id b) \<and> mi_msg_count a = mi_msg_count b"

definition find_history_record :: "mda_envar \<Rightarrow> mda_msg_info \<Rightarrow> mda_history option" where
  "find_history_record m src_sta =
     List.find (\<lambda>pos. h_life_time pos > 0 \<and> same_msg (h_msg pos) src_sta) (rx_history_table m)"

text \<open>The loop of \<open>add_history_record\<close> from index \<open>i\<close> on: the first record that has expired, else
  the last of those with the shortest life.\<close>

fun history_slot :: "mda_history list \<Rightarrow> nat \<Rightarrow> int \<Rightarrow> nat option \<Rightarrow> nat option" where
  "history_slot [] i oldest new = new"
| "history_slot (pos # hs) i oldest new =
     (if h_life_time pos \<le> 0 then Some i
      else if h_life_time pos \<le> oldest then history_slot hs (i + 1) (h_life_time pos) (Some i)
      else history_slot hs (i + 1) oldest new)"

definition add_history_record :: "mda_msg_info \<Rightarrow> mda_envar \<Rightarrow> mda_envar option" where
  "add_history_record src_sta m =
     do {
       new \<leftarrow> history_slot (rx_history_table m) 0 (MAX_HISTORY_LIFE + 1) None;
       Some (m\<lparr>rx_history_table := (rx_history_table m)
                [new := \<lparr>h_msg = src_sta, h_life_time = MAX_HISTORY_LIFE\<rparr>]\<rparr>)
     }"

definition history_handler :: "mda_envar \<Rightarrow> mda_envar" where
  "history_handler m =
     (if flag_history_timeout m then update_history_record (m\<lparr>flag_history_timeout := False\<rparr>) else m)"

section \<open>The forward list\<close>

definition set_delay :: "faddr \<Rightarrow> int \<Rightarrow> mda_envar \<Rightarrow> mda_envar" where
  "set_delay p d m =
     m\<lparr>forward_fw := (forward_fw m)(p := (forward_fw m p)\<lparr>fw_delay_time := d\<rparr>)\<rparr>"

abbreviation delay :: "mda_envar \<Rightarrow> faddr \<Rightarrow> int" where
  "delay m p \<equiv> fw_delay_time (forward_fw m p)"

text \<open>The loop over the waiting messages, at \<open>ptx\<close>; \<open>tx\<close> is the new buffer. The list is
  changed under the traversal.\<close>

partial_function (option) add_forward_loop ::
    "faddr \<Rightarrow> faddr \<Rightarrow> int \<Rightarrow> int \<Rightarrow> bool \<Rightarrow> mda_envar \<Rightarrow> mda_envar option" where
  "add_forward_loop tx ptx tot adj inserted m =
     (if ptx = ForwardWaiting then Some m
      else
        let (tot, adj, inserted, m) =
          (if \<not> inserted then
             let tot = tot + delay m ptx in
             if tot > delay m tx then
               (tot, delay m tx - (tot - delay m ptx), True,
                m\<lparr>forward_links := list_add_between tx (lprev (forward_links m) ptx) ptx (forward_links m)\<rparr>)
             else
               (let m = set_delay tx (delay m tx - tot) m
                in (tot, adj, False, m\<lparr>forward_links := list_add tx ptx (forward_links m)\<rparr>))
           else (tot, adj, inserted, m));
          m = (if adj > 0 then set_delay ptx (delay m ptx - adj) m else m)
        in add_forward_loop tx (lnext (forward_links m) ptx) tot adj inserted m)"

definition add_forward_list ::
    "faddr \<Rightarrow> mda_msg_info \<Rightarrow> int \<Rightarrow> mda_envar \<Rightarrow> mda_envar option" where
  "add_forward_list txbuf src_sta forward_delay_time m =
     (let m = m\<lparr>forward_fw := (forward_fw m)
                 (txbuf := \<lparr>fw_msg = src_sta, fw_delay_time = forward_delay_time\<rparr>)\<rparr>
      in if list_empty ForwardWaiting (forward_links m)
         then Some (m\<lparr>forward_links := list_add_tail txbuf ForwardWaiting (forward_links m)\<rparr>)
         else add_forward_loop txbuf (lnext (forward_links m) ForwardWaiting) 0 0 False m)"

definition remove_from_forward_list :: "faddr \<Rightarrow> mda_envar \<Rightarrow> mda_envar" where
  "remove_from_forward_list txbuf m = m\<lparr>forward_links := list_del txbuf (forward_links m)\<rparr>"

definition find_forward_list :: "mda_envar \<Rightarrow> mda_msg_info \<Rightarrow> faddr option option" where
  "find_forward_list m src_sta =
     list_find (\<lambda>ptx. same_msg (fw_msg (forward_fw m ptx)) src_sta) (forward_links m) ForwardWaiting"

section \<open>Making and sending a forwarded message\<close>

text \<open>The first byte of a message: the identifier in the low five bits, the hops above.\<close>

definition msgid_byte :: "u8 \<Rightarrow> u8 \<Rightarrow> u8" where
  "msgid_byte hops i = push_bit 5 (hops AND 7) OR (i AND 0x1F)"

definition msgid_id :: "u8 \<Rightarrow> u8" where "msgid_id b = b AND 0x1F"
definition msgid_hops :: "u8 \<Rightarrow> u8" where "msgid_hops b = drop_bit 5 b"

text \<open>\<open>None\<close>: the copy leaves the received message's buffer or the transmit buffer.\<close>

definition rcp_create_forward_msg :: "u8 \<Rightarrow> bytes \<Rightarrow> nat \<Rightarrow> wnet_txbuf option" where
  "rcp_create_forward_msg left_hops pdata len =
     (if len = 0 \<or> length pdata < len \<or> length (tb_data wnet_get_txbuf) < len then None
      else
        let pdata = pdata[0 := msgid_byte left_hops (msgid_id (pdata ! 0))]
        in Some (wnet_get_txbuf\<lparr>tb_data := poke 0 (take len pdata) (tb_data wnet_get_txbuf),
                                tb_len := len\<rparr>))"

definition rcp_txinfo :: "u8 \<Rightarrow> u32 \<Rightarrow> wnet_txinfo" where
  "rcp_txinfo prority t =
     zero_txinfo\<lparr>tx_dest_mac := replicate 6 0xFF, tx_aid := 0x20, tx_protocol := WNET_TRANS_PROT_DSMP,
       tx_encryption := 0, tx_prority := prority, tx_timestamp := t\<rparr>"

text \<open>The head room of a buffer that was on the forward list ends with its bookkeeping
  structure: ten bytes of message information, two of padding, the delay.\<close>

definition fw_bytes :: "mda_forward \<Rightarrow> bytes" where
  "fw_bytes f = take 4 (mi_temorary_id (fw_msg f)) @ take 4 (mi_forward_id (fw_msg f))
     @ [mi_msg_count (fw_msg f), mi_left_hops (fw_msg f)] @ [0, 0] @ le32 (word_of_int (fw_delay_time f))"

definition rcp_send_forward_msg :: "wnet_txbuf \<Rightarrow> mda_forward \<Rightarrow> cms \<Rightarrow> (int \<times> cms) option" where
  "rcp_send_forward_msg txbuf fw c =
     (let txinfo = rcp_txinfo 0 (systime c);
          pid = take RCP_TEMP_ID_LEN (s_pid (local (g_vam c)));
          room = take (length (tb_room txbuf) - 16) (tb_room txbuf) @ fw_bytes fw;
          i = ucast (msgid_id (tb_data txbuf ! 0)) :: u32;
          send = (\<lambda>d. do {
            (r, w) \<leftarrow> wnet_send (g_wnet c) txinfo (room, d) (tb_len txbuf);
            Some (r, c\<lparr>g_wnet := w\<rparr>)
          })
      in if i = RCP_MSG_ID_BSM then send (poke 6 pid (tb_data txbuf))
         else if i = RCP_MSG_ID_EVAM then send (poke 5 pid (tb_data txbuf))
         else Some (-1, c))"

text \<open>One run of the handler: a millisecond has passed for the first waiting message.\<close>

definition forward_handler :: "cms \<Rightarrow> cms option" where
  "forward_handler c =
     (let m = g_mda c in
      if \<not> list_empty ForwardWaiting (forward_links m) then
        let first = list_first_entry ForwardWaiting (forward_links m);
            m = set_delay first (delay m first - 1) m
        in if delay m first \<le> 0 then
             let m = m\<lparr>forward_links := list_del first (forward_links m)\<rparr>
             in do {
               (_, c) \<leftarrow> rcp_send_forward_msg (forward_buf m first) (forward_fw m first) (c\<lparr>g_mda := m\<rparr>);
               Some c
             }
           else Some (c\<lparr>g_mda := m\<rparr>)
      else Some c)"

definition timer_rx_history_callback :: "mda_envar \<Rightarrow> mda_envar" where
  "timer_rx_history_callback m = m\<lparr>flag_history_timeout := True\<rparr>"

text \<open>One round of the thread, released by the one-millisecond timer.\<close>

definition mda_thread_step :: "cms \<Rightarrow> cms option" where
  "mda_thread_step c =
     do {
       c \<leftarrow> forward_handler c;
       Some (c\<lparr>g_mda := history_handler (g_mda c)\<rparr>)
     }"

definition mda_init :: "faddr list_heap \<Rightarrow> mda_envar" where
  "mda_init h =
     \<lparr>flag_history_timeout = False,
      forward_links = INIT_LIST_HEAD ForwardWaiting h,
      forward_buf = (\<lambda>_. wnet_get_txbuf),
      forward_fw = (\<lambda>_. \<lparr>fw_msg = \<lparr>mi_temorary_id = [0,0,0,0], mi_forward_id = [0,0,0,0],
                           mi_msg_count = 0, mi_left_hops = 0\<rparr>, fw_delay_time = 0\<rparr>),
      next_txbuf = 0,
      rx_history_table = replicate RX_HISTORY_NUM
        \<lparr>h_msg = \<lparr>mi_temorary_id = [0,0,0,0], mi_forward_id = [0,0,0,0], mi_msg_count = 0,
                  mi_left_hops = 0\<rparr>, h_life_time = 0\<rparr>\<rparr>"

section \<open>The handler\<close>

definition mda_handle :: "libm \<Rightarrow> mda_msg_info \<Rightarrow> bytes \<Rightarrow> nat \<Rightarrow> cms \<Rightarrow> (int \<times> cms) option" where
  "mda_handle M src_sta msg_data msg_length c =
     (let src_sta = src_sta\<lparr>mi_left_hops := mi_left_hops src_sta - 1\<rparr>; m = g_mda c in
      case find_history_record m src_sta of
        None \<Rightarrow>
          if mi_left_hops src_sta \<le> 0 then Some (0, c)
          else do {
            forward_delay_time \<leftarrow> alg_farest_node M c src_sta;
            if forward_delay_time \<ge> 0 then do {
              txbuf \<leftarrow> rcp_create_forward_msg (mi_left_hops src_sta) msg_data msg_length;
              let a = Tx (next_txbuf m);
              let m = m\<lparr>next_txbuf := next_txbuf m + 1, forward_buf := (forward_buf m)(a := txbuf)\<rparr>;
              m \<leftarrow> add_history_record src_sta m;
              m \<leftarrow> add_forward_list a src_sta forward_delay_time m;
              Some (0, c\<lparr>g_mda := m\<rparr>)
            }
            else Some (0, c)
          }
      | Some p_hr \<Rightarrow>
          do {
            r \<leftarrow> find_forward_list m src_sta;
            Some (case r of
                Some txbuf \<Rightarrow>
                  if mi_left_hops src_sta < mi_left_hops (fw_msg (forward_fw m txbuf))
                  then (0, c\<lparr>g_mda := remove_from_forward_list txbuf m\<rparr>)
                  else (0, c)
              | None \<Rightarrow> (0, c))
          })"

section \<open>Facts about the delay\<close>

text \<open>The delay as the rounding of an exact value, for a distance already cut to the range.\<close>

definition delay_frac :: "rat \<Rightarrow> rat" where
  "delay_frac d = rnd Single (rnd Single (1 - rnd Single (d / 350)) * 70)"

lemma delay_frac_bounds:
  assumes "0 \<le> d" "d \<le> 350"
  shows "0 \<le> rnd Single (d / 350)" "rnd Single (d / 350) \<le> 1"
    "0 \<le> rnd Single (1 - rnd Single (d / 350))" "rnd Single (1 - rnd Single (d / 350)) \<le> 1"
    "0 \<le> delay_frac d" "delay_frac d \<le> 70"
proof -
  show a: "0 \<le> rnd Single (d / 350)" "rnd Single (d / 350) \<le> 1"
    using to_fl_range[of "d / 350" 1 Single] assms by auto
  show b: "0 \<le> rnd Single (1 - rnd Single (d / 350))" "rnd Single (1 - rnd Single (d / 350)) \<le> 1"
    using to_fl_range[of "1 - rnd Single (d / 350)" 1 Single] a by auto
  show "0 \<le> delay_frac d" "delay_frac d \<le> 70"
    using to_fl_range[of "rnd Single (1 - rnd Single (d / 350)) * 70" 70 Single] b
    by (auto simp: delay_frac_def)
qed

lemma delay_frac_antimono:
  assumes "0 \<le> d" "d \<le> e" "e \<le> 350"
  shows "delay_frac e \<le> delay_frac d"
proof -
  have "rnd Single (d / 350) \<le> rnd Single (e / 350)"
    using assms by (intro rnd_mono) (auto simp: divide_right_mono)
  then have "rnd Single (1 - rnd Single (e / 350)) \<le> rnd Single (1 - rnd Single (d / 350))"
    using delay_frac_bounds(2)[of e] assms by (intro rnd_mono) auto
  then show ?thesis
    unfolding delay_frac_def using delay_frac_bounds(3)[of e] assms by (intro rnd_mono) auto
qed

lemma delay_frac_one: "delay_frac 1 < 70"
proof -
  have "pow2 (-9) \<le> rnd Single (1 / 350)"
    by (rule rnd_lower) (auto simp: pow2_def)
  then have "1 - rnd Single (1 / 350) \<le> 511 / 512" by (simp add: pow2_def)
  then have "rnd Single (1 - rnd Single (1 / 350)) \<le> rnd Single (511 / 512)"
    using delay_frac_bounds(2)[of 1] by (intro rnd_mono) auto
  also have "rnd Single (511 / 512) = 511 / 512" by code_simp
  finally have "delay_frac 1 \<le> rnd Single (511 / 512 * 70)"
    unfolding delay_frac_def using delay_frac_bounds(3)[of 1] by (intro rnd_mono) auto
  also have "rnd Single (511 / 512 * 70) < 70" by code_simp
  finally show ?thesis .
qed

lemma delay_of_distance_frac:
  assumes "0 < d" and that: "d < 2 ^ 24"
  shows "delay_of_distance d = Some (trunc (delay_frac (min (of_int d) 350)))"
proof -
  let ?c = "min d 350"
  have c: "(0 :: rat) \<le> of_int ?c" "(of_int ?c :: rat) \<le> 350" using assms by auto
  have f: "int_f d = Fin (of_int d)" "int_f ?c = Fin (of_int ?c)"
    using assms that by (auto intro!: int_f_small)
  have cut: "fl_to_int (-2147483648) 2147483647
      (if fl_lt V2V_COMMUNICATION_RANGE (int_f d) then V2V_COMMUNICATION_RANGE else int_f d) = Some ?c"
    using assms that by (auto simp: f V2V_COMMUNICATION_RANGE_def trunc_def min_def)
  note b = delay_frac_bounds[OF c]
  have x: "fl_div Single (int_f ?c) V2V_COMMUNICATION_RANGE = Fin (rnd Single (of_int ?c / 350))"
    using c to_fl_range[of "of_int ?c / 350" 1 Single] unfolding f V2V_COMMUNICATION_RANGE_def by simp
  have y: "fl_sub Single (int_f 1) (Fin (rnd Single (of_int ?c / 350)))
      = Fin (rnd Single (1 - rnd Single (of_int ?c / 350)))"
    using b to_fl_range[of "1 - rnd Single (of_int ?c / 350)" 1 Single] by (simp add: fl_sub_def int_f_small)
  have z: "fl_mul Single (Fin (rnd Single (1 - rnd Single (of_int ?c / 350)))) MDA_FORWARD_DELAY_TIME_UNIT
      = Fin (delay_frac (of_int ?c))"
    using b to_fl_range[of "rnd Single (1 - rnd Single (of_int ?c / 350)) * 70" 70 Single]
    by (simp add: MDA_FORWARD_DELAY_TIME_UNIT_def delay_frac_def)
  have "trunc (delay_frac (of_int ?c)) \<le> trunc 70" "trunc 0 \<le> trunc (delay_frac (of_int ?c))"
    using b by (auto intro: trunc_mono)
  then have t: "fl_to_int (-2147483648) 2147483647 (Fin (delay_frac (of_int ?c))) = Some (trunc (delay_frac (of_int ?c)))"
    by (simp add: trunc_def)
  have m: "(of_int ?c :: rat) = min (of_int d) 350" by (simp add: of_int_min)
  show ?thesis
    unfolding delay_of_distance_def cut bind.bind_lunit x y z t using assms by (simp add: m)
qed

text \<open>A farther relay never makes this station wait longer, and every delay is less than the
  unit of 70 milliseconds.\<close>

lemma delay_range:
  assumes "0 < d" "d < 2 ^ 24"
  shows "\<exists>t. delay_of_distance d = Some t \<and> 0 \<le> t \<and> t \<le> 69"
proof -
  let ?c = "min (of_int d) 350 :: rat"
  have c: "1 \<le> ?c" "?c \<le> 350" using assms by (auto simp: min_def)
  have "delay_frac ?c < 70"
    using delay_frac_antimono[of 1 ?c] delay_frac_one c by linarith
  moreover have "0 \<le> delay_frac ?c" using delay_frac_bounds(5)[of ?c] c by simp
  ultimately have "0 \<le> trunc (delay_frac ?c) \<and> trunc (delay_frac ?c) \<le> 69"
    by (auto simp: trunc_def)
  then show ?thesis using delay_of_distance_frac[OF assms] by simp
qed

lemma delay_antimono:
  assumes "0 < d" "d \<le> e" "e < 2 ^ 24"
  shows "the (delay_of_distance e) \<le> the (delay_of_distance d)"
proof -
  have "delay_frac (min (of_int e) 350) \<le> delay_frac (min (of_int d) 350)"
    using assms by (intro delay_frac_antimono) (auto simp: min_def)
  then show ?thesis
    using assms delay_frac_bounds(5)[of "min (of_int e) 350"]
    by (auto simp: delay_of_distance_frac min_def intro!: trunc_mono)
qed

section \<open>Facts about the history\<close>

definition history_ok :: "mda_envar \<Rightarrow> bool" where
  "history_ok m \<longleftrightarrow> length (rx_history_table m) = RX_HISTORY_NUM
     \<and> (\<forall>h \<in> set (rx_history_table m). h_life_time h \<le> MAX_HISTORY_LIFE)"

text \<open>The slot is an expired record when there is one, else a live one with the shortest life.\<close>

lemma history_slot_spec:
  assumes "history_slot hs i oldest new = r"
    and "hs \<noteq> []" "\<forall>h \<in> set hs. h_life_time h < oldest"
  shows "\<exists>k. r = Some (i + k) \<and> k < length hs
    \<and> (0 < h_life_time (hs ! k) \<longrightarrow> (\<forall>h \<in> set hs. h_life_time (hs ! k) \<le> h_life_time h))"
proof -
  have gen: "\<exists>r. history_slot hs i oldest new = r \<and>
      (if \<exists>h \<in> set hs. h_life_time h \<le> 0
       then \<exists>k. r = Some (i + k) \<and> k < length hs \<and> h_life_time (hs ! k) \<le> 0
       else if \<exists>h \<in> set hs. h_life_time h \<le> oldest
       then \<exists>k. r = Some (i + k) \<and> k < length hs \<and> (\<forall>h \<in> set hs. h_life_time (hs ! k) \<le> h_life_time h)
         \<and> h_life_time (hs ! k) \<le> oldest
       else r = new)" for hs i oldest new
  proof (induction hs i oldest new rule: history_slot.induct)
    case (2 pos hs i oldest new)
    show ?case
    proof (cases "h_life_time pos \<le> 0")
      case True
      then show ?thesis by (intro exI[of _ "Some i"]) (auto intro!: exI[of _ 0])
    next
      case pos: False
      show ?thesis
      proof (cases "h_life_time pos \<le> oldest")
        case True
        with pos 2(1) show ?thesis
          by (auto split: if_splits intro: exI[of _ "Suc _"] exI[of _ 0])
      next
        case False
        with pos 2(2) show ?thesis
          by (auto split: if_splits)
      qed
    qed
  qed simp
  obtain h where h: "h \<in> set hs" using assms(2) by (cases hs) auto
  show ?thesis
  proof (cases "\<exists>h \<in> set hs. h_life_time h \<le> 0")
    case True
    then show ?thesis using gen[of hs i oldest new] assms(1) by auto
  next
    case False
    moreover have "\<exists>h \<in> set hs. h_life_time h \<le> oldest" using h assms(3) by force
    ultimately show ?thesis using gen[of hs i oldest new] assms(1) by auto
  qed
qed

text \<open>Recording a message keeps the table well formed, the message is then known, and the live
  records of other messages survive as long as some record has expired.\<close>

lemma add_history_record_spec:
  assumes "history_ok m"
  shows "\<exists>k m'. add_history_record src m = Some m' \<and> k < RX_HISTORY_NUM \<and> history_ok m'
    \<and> m' = m\<lparr>rx_history_table := (rx_history_table m)[k := \<lparr>h_msg = src, h_life_time = MAX_HISTORY_LIFE\<rparr>]\<rparr>
    \<and> (0 < h_life_time (rx_history_table m ! k) \<longrightarrow>
        (\<forall>h \<in> set (rx_history_table m). h_life_time (rx_history_table m ! k) \<le> h_life_time h))"
proof -
  let ?t = "rx_history_table m"
  have t: "length ?t = RX_HISTORY_NUM" "?t \<noteq> []" "\<forall>h \<in> set ?t. h_life_time h < MAX_HISTORY_LIFE + 1"
    using assms by (auto simp: history_ok_def RX_HISTORY_NUM_def)
  obtain k where k: "history_slot ?t 0 (MAX_HISTORY_LIFE + 1) None = Some k" "k < length ?t"
      "0 < h_life_time (?t ! k) \<longrightarrow> (\<forall>h \<in> set ?t. h_life_time (?t ! k) \<le> h_life_time h)"
    using history_slot_spec[OF refl t(2,3), of 0 None] by auto
  have "history_ok (m\<lparr>rx_history_table := ?t[k := \<lparr>h_msg = src, h_life_time = MAX_HISTORY_LIFE\<rparr>]\<rparr>)"
    using assms by (auto simp: history_ok_def dest!: set_update_subset_insert[THEN subsetD])
  with k t show ?thesis
    by (intro exI[of _ k]) (simp add: add_history_record_def)
qed

definition history_ticks :: "nat \<Rightarrow> mda_envar \<Rightarrow> mda_envar" where
  "history_ticks n m = (update_history_record ^^ n) m"

lemma history_ticks_table:
  "rx_history_table (history_ticks n m)
    = map (\<lambda>h. h\<lparr>h_life_time := h_life_time h - int n\<rparr>) (rx_history_table m)"
  by (induction n) (auto simp: history_ticks_def update_history_record_def)

lemma find_history_some:
  "find_history_record m src \<noteq> None \<longleftrightarrow>
    (\<exists>h \<in> set (rx_history_table m). 0 < h_life_time h \<and> same_msg (h_msg h) src)"
  by (auto simp: find_history_record_def find_None_iff)

text \<open>A recorded message is recognised for the next ten seconds, and no longer if it was not
  recorded a second time.\<close>

lemma recorded_message_known:
  assumes "history_ok m" "add_history_record src m = Some m'" "int n < MAX_HISTORY_LIFE"
  shows "find_history_record (history_ticks n m') src \<noteq> None"
proof -
  obtain k where "k < RX_HISTORY_NUM"
    "m' = m\<lparr>rx_history_table := (rx_history_table m)[k := \<lparr>h_msg = src, h_life_time = MAX_HISTORY_LIFE\<rparr>]\<rparr>"
    using add_history_record_spec[OF assms(1), of src] assms(2) by auto
  then have "\<lparr>h_msg = src, h_life_time = MAX_HISTORY_LIFE\<rparr> \<in> set (rx_history_table m')"
    using assms(1) by (auto simp: history_ok_def intro: set_update_memI)
  then show ?thesis
    using assms(3) unfolding find_history_some history_ticks_table
    by (auto simp: same_msg_def pid_eq_def intro!: bexI[rotated])
qed

lemma history_forgets:
  assumes "history_ok m" "MAX_HISTORY_LIFE \<le> int n"
  shows "find_history_record (history_ticks n m) src = None"
proof -
  have "h_life_time h - int n \<le> 0" if "h \<in> set (rx_history_table m)" for h
    using assms that by (force simp: history_ok_def)
  then show ?thesis
    using find_history_some[of "history_ticks n m" src] by (force simp: history_ticks_table)
qed

section \<open>Facts about the forward list\<close>

definition fwd_list :: "mda_envar \<Rightarrow> faddr list \<Rightarrow> bool" where
  "fwd_list m xs \<longleftrightarrow> dll (forward_links m) ForwardWaiting xs"

lemma set_delay_sel [simp]:
  "forward_links (set_delay p d m) = forward_links m"
  "forward_buf (set_delay p d m) = forward_buf m"
  "rx_history_table (set_delay p d m) = rx_history_table m"
  "delay (set_delay p d m) q = (if q = p then d else delay m q)"
  "fw_msg (forward_fw (set_delay p d m) q) = fw_msg (forward_fw m q)"
  by (simp_all add: set_delay_def)

lemma next_self_between: "lnext (list_add_between tx p tx h) tx = tx"
  by (simp add: list_add_between_def Let_def)

lemma next_self_add: "lnext (list_add tx tx h) tx = tx"
  by (simp add: list_add_def list_add_between_def Let_def)

text \<open>A node linked to itself is never left again.\<close>

lemma add_forward_loop_stuck_aux:
  assumes "add_forward_loop tx ptx tot adj inserted m = Some r"
  shows "\<not> (ptx = tx \<and> tx \<noteq> ForwardWaiting \<and> lnext (forward_links m) tx = tx)"
proof (rule add_forward_loop.raw_induct[where P = "\<lambda>tx ptx tot adj inserted m r.
    \<not> (ptx = tx \<and> tx \<noteq> ForwardWaiting \<and> lnext (forward_links m) tx = tx)", OF _ assms], rule notI)
  fix loop tx ptx tot adj inserted m r
  assume IH: "\<And>tx ptx tot adj inserted m r. loop tx ptx tot adj inserted m = Some r \<Longrightarrow>
      \<not> (ptx = tx \<and> tx \<noteq> ForwardWaiting \<and> lnext (forward_links m) tx = tx)"
    and body: "(if ptx = ForwardWaiting then Some m
      else let (tot, adj, inserted, m) =
          (if \<not> inserted then
             let tot = tot + delay m ptx in
             if tot > delay m tx then
               (tot, delay m tx - (tot - delay m ptx), True,
                m\<lparr>forward_links := list_add_between tx (lprev (forward_links m) ptx) ptx (forward_links m)\<rparr>)
             else
               (let m = set_delay tx (delay m tx - tot) m
                in (tot, adj, False, m\<lparr>forward_links := list_add tx ptx (forward_links m)\<rparr>))
           else (tot, adj, inserted, m));
          m = (if adj > 0 then set_delay ptx (delay m ptx - adj) m else m)
        in loop tx (lnext (forward_links m) ptx) tot adj inserted m) = Some r"
    and a: "ptx = tx \<and> tx \<noteq> ForwardWaiting \<and> lnext (forward_links m) tx = tx"
  from a body show False
    by (auto simp: Let_def next_self_between next_self_add split: if_splits dest!: IH)
qed

lemma add_forward_loop_stuck:
  assumes "tx \<noteq> ForwardWaiting" "lnext (forward_links m) tx = tx"
  shows "add_forward_loop tx tx tot adj inserted m = None"
  using add_forward_loop_stuck_aux[of tx tx tot adj inserted m] assms by fastforce

text \<open>The first comparison decides: when the first waiting message is due no later than the new
  one, the new buffer is linked behind it, the traversal arrives at the new buffer, and links
  it to itself.\<close>

lemma add_forward_list_hangs:
  assumes l: "fwd_list m (a # xs)" and tx: "tx \<notin> set (ForwardWaiting # a # xs)"
    and d: "delay m a \<le> d"
  shows "add_forward_list tx src d m = None"
proof -
  define m0 where "m0 = m\<lparr>forward_fw := (forward_fw m)(tx := \<lparr>fw_msg = src, fw_delay_time = d\<rparr>)\<rparr>"
  have a: "lnext (forward_links m) ForwardWaiting = a" "a \<noteq> ForwardWaiting" "a \<noteq> tx"
    using l tx by (auto simp: fwd_list_def dll_def)
  have start: "add_forward_list tx src d m = add_forward_loop tx a 0 0 False m0"
    using a by (simp add: add_forward_list_def list_empty_def m0_def)
  define m1 where "m1 = (set_delay tx (d - delay m a) m0)
      \<lparr>forward_links := list_add tx a (forward_links m)\<rparr>"
  have "lnext (forward_links m1) a = tx"
    by (simp add: m1_def list_add_def list_add_between_def Let_def)
  then have one: "add_forward_loop tx a 0 0 False m0 = add_forward_loop tx tx (delay m a) 0 False m1"
    using a d by (subst add_forward_loop.simps) (simp add: m0_def m1_def Let_def)
  have "add_forward_loop tx tx t 0 False m1 = None" for t
    using tx by (subst add_forward_loop.simps)
      (simp add: Let_def add_forward_loop_stuck next_self_between next_self_add)
  with start one show ?thesis by simp
qed

text \<open>An empty list, or a first message that is due later, is the case that works.\<close>

lemma add_forward_list_empty:
  assumes "fwd_list m []" "tx \<noteq> ForwardWaiting"
  shows "\<exists>m'. add_forward_list tx src d m = Some m' \<and> fwd_list m' [tx]
    \<and> forward_fw m' tx = \<lparr>fw_msg = src, fw_delay_time = d\<rparr>
    \<and> forward_buf m' = forward_buf m \<and> rx_history_table m' = rx_history_table m"
  using assms dll_list_add_tail[of "forward_links m" ForwardWaiting "[]" tx]
  by (auto simp: add_forward_list_def list_empty_dll fwd_list_def)

lemma add_forward_loop_rest:
  assumes "chain (forward_links m) p xs ForwardWaiting" "distinct (p # xs)" "ForwardWaiting \<notin> set (p # xs)"
  shows "\<exists>m'. add_forward_loop tx p tot adj True m = Some m' \<and> forward_links m' = forward_links m
    \<and> forward_buf m' = forward_buf m \<and> rx_history_table m' = rx_history_table m
    \<and> (\<forall>q. fw_msg (forward_fw m' q) = fw_msg (forward_fw m q))
    \<and> (\<forall>q. delay m' q = (if q \<in> set (p # xs) \<and> 0 < adj then delay m q - adj else delay m q))"
  using assms
proof (induction xs arbitrary: p m)
  case Nil
  let ?m = "if 0 < adj then set_delay p (delay m p - adj) m else m"
  have "add_forward_loop tx p tot adj True m = Some ?m"
    using Nil by (subst add_forward_loop.simps, subst add_forward_loop.simps) (auto simp: Let_def)
  then show ?case by auto
next
  case (Cons x xs)
  let ?m = "if 0 < adj then set_delay p (delay m p - adj) m else m"
  have step: "add_forward_loop tx p tot adj True m = add_forward_loop tx x tot adj True ?m"
    using Cons.prems by (subst add_forward_loop.simps) (auto simp: Let_def)
  have "chain (forward_links ?m) x xs ForwardWaiting" using Cons.prems by auto
  from Cons.IH[OF this] Cons.prems obtain m' where m':
    "add_forward_loop tx x tot adj True ?m = Some m'" "forward_links m' = forward_links ?m"
    "forward_buf m' = forward_buf ?m" "rx_history_table m' = rx_history_table ?m"
    "\<forall>q. fw_msg (forward_fw m' q) = fw_msg (forward_fw ?m q)"
    "\<forall>q. delay m' q = (if q \<in> set (x # xs) \<and> 0 < adj then delay ?m q - adj else delay ?m q)"
    by auto
  show ?case
    using step m' Cons.prems by (intro exI[of _ m']) auto
qed

lemma add_forward_list_front:
  assumes l: "fwd_list m (a # xs)" and tx: "tx \<notin> set (ForwardWaiting # a # xs)" and d: "d < delay m a"
  shows "\<exists>m'. add_forward_list tx src d m = Some m' \<and> fwd_list m' (tx # a # xs)
    \<and> forward_fw m' tx = \<lparr>fw_msg = src, fw_delay_time = d\<rparr>
    \<and> forward_buf m' = forward_buf m \<and> rx_history_table m' = rx_history_table m
    \<and> (\<forall>q \<in> set (a # xs). delay m' q = (if 0 < d then delay m q - d else delay m q))
    \<and> (\<forall>q \<in> set (a # xs). fw_msg (forward_fw m' q) = fw_msg (forward_fw m q))"
proof -
  define m0 where "m0 = m\<lparr>forward_fw := (forward_fw m)(tx := \<lparr>fw_msg = src, fw_delay_time = d\<rparr>)\<rparr>"
  have a: "lnext (forward_links m) ForwardWaiting = a" "lprev (forward_links m) a = ForwardWaiting"
    "a \<noteq> ForwardWaiting" "a \<noteq> tx"
    using l tx by (auto simp: fwd_list_def dll_def)
  have start: "add_forward_list tx src d m = add_forward_loop tx a 0 0 False m0"
    using a by (simp add: add_forward_list_def list_empty_def m0_def)
  let ?h = "list_add_between tx ForwardWaiting a (forward_links m)"
  define m1 where "m1 = (if 0 < d then set_delay a (delay m a - d) (m0\<lparr>forward_links := ?h\<rparr>)
      else m0\<lparr>forward_links := ?h\<rparr>)"
  have l1: "dll ?h ForwardWaiting (tx # a # xs)"
    using dll_add_between[of "forward_links m" ForwardWaiting "[]" "a # xs" tx] l tx
    by (simp add: fwd_list_def)
  have one: "add_forward_loop tx a 0 0 False m0
      = add_forward_loop tx (lnext ?h a) (delay m a) d True m1"
    using a d by (subst add_forward_loop.simps) (simp add: m0_def m1_def Let_def)
  have links: "forward_links m1 = ?h" and buf: "forward_buf m1 = forward_buf m"
    "rx_history_table m1 = rx_history_table m" and ftx: "forward_fw m1 tx = \<lparr>fw_msg = src, fw_delay_time = d\<rparr>"
    using a(4) by (auto simp: m1_def m0_def set_delay_def)
  have dm1: "q \<noteq> tx \<Longrightarrow> delay m1 q = (if q = a \<and> 0 < d then delay m q - d else delay m q)"
    and mm1: "q \<noteq> tx \<Longrightarrow> fw_msg (forward_fw m1 q) = fw_msg (forward_fw m q)" for q
    by (auto simp: m1_def m0_def set_delay_def)
  show ?thesis
  proof (cases xs)
    case Nil
    then have "lnext ?h a = ForwardWaiting" using l1 by (simp add: dll_def)
    then have "add_forward_loop tx (lnext ?h a) (delay m a) d True m1 = Some m1"
      by (simp add: add_forward_loop.simps)
    then show ?thesis
      using start one links buf ftx dm1 mm1 l1 a(4) Nil
      by (intro exI[of _ m1]) (auto simp: fwd_list_def)
  next
    case (Cons b ys)
    have nb: "lnext ?h a = b" and ch: "chain ?h b ys ForwardWaiting"
      and ds: "distinct (b # ys)" "ForwardWaiting \<notin> set (b # ys)" "a \<notin> set (b # ys)" "tx \<notin> set (b # ys)"
      using l1 Cons by (auto simp: dll_def)
    obtain m' where m': "add_forward_loop tx b (delay m a) d True m1 = Some m'"
      "forward_links m' = ?h" "forward_buf m' = forward_buf m" "rx_history_table m' = rx_history_table m"
      "\<forall>q. fw_msg (forward_fw m' q) = fw_msg (forward_fw m1 q)"
      "\<forall>q. delay m' q = (if q \<in> set (b # ys) \<and> 0 < d then delay m1 q - d else delay m1 q)"
      using add_forward_loop_rest[of m1 b ys tx "delay m a" d] ch ds unfolding links buf by auto
    have "forward_fw m' tx = forward_fw m1 tx"
      using m'(5,6) ds(4) by (intro mda_forward.equality) auto
    moreover have "delay m1 q = (if q = a \<and> 0 < d then delay m q - d else delay m q)
        \<and> fw_msg (forward_fw m1 q) = fw_msg (forward_fw m q)" if "q \<in> set (a # xs)" for q
    proof -
      have "q \<noteq> tx" using that tx by auto
      then show ?thesis using dm1 mm1 by blast
    qed
    ultimately show ?thesis
      using start one nb m' l1 ds Cons ftx
      by (intro exI[of _ m']) (auto simp: fwd_list_def)
  qed
qed

lemma remove_from_forward_list_spec:
  "fwd_list m (xs @ p # ys) \<Longrightarrow> fwd_list (remove_from_forward_list p m) (xs @ ys)"
  by (simp add: fwd_list_def remove_from_forward_list_def dll_list_del)

lemma find_forward_list_spec:
  "fwd_list m xs \<Longrightarrow>
    find_forward_list m src = Some (List.find (\<lambda>p. same_msg (fw_msg (forward_fw m p)) src) xs)"
  unfolding fwd_list_def find_forward_list_def by (rule list_find_dll)

section \<open>Facts about the handlers\<close>

text \<open>The handler counts down the first message only and sends it when its time has come.\<close>

lemma forward_handler_idle: "fwd_list (g_mda c) [] \<Longrightarrow> forward_handler c = Some c"
  by (simp add: forward_handler_def fwd_list_def list_empty_dll)

lemma forward_handler_wait:
  assumes "fwd_list (g_mda c) (a # xs)" "1 < delay (g_mda c) a"
  shows "forward_handler c = Some (c\<lparr>g_mda := set_delay a (delay (g_mda c) a - 1) (g_mda c)\<rparr>)"
  using assms list_empty_dll[of "forward_links (g_mda c)" ForwardWaiting "a # xs"]
    list_first_dll[of "forward_links (g_mda c)" ForwardWaiting a xs]
  by (simp add: forward_handler_def fwd_list_def Let_def)

lemma forward_handler_send:
  assumes "fwd_list (g_mda c) (a # xs)" "delay (g_mda c) a \<le> 1"
  shows "\<exists>m. forward_handler c = map_option snd
      (rcp_send_forward_msg (forward_buf (g_mda c) a) (forward_fw m a) (c\<lparr>g_mda := m\<rparr>)) \<and> fwd_list m xs"
proof -
  let ?m = "set_delay a (delay (g_mda c) a - 1) (g_mda c)"
  let ?m' = "?m\<lparr>forward_links := list_del a (forward_links ?m)\<rparr>"
  have "fwd_list ?m' xs"
    using assms(1) dll_list_del[of "forward_links (g_mda c)" ForwardWaiting "[]" a xs]
    by (simp add: fwd_list_def)
  moreover have "forward_handler c = map_option snd
      (rcp_send_forward_msg (forward_buf (g_mda c) a) (forward_fw ?m' a) (c\<lparr>g_mda := ?m'\<rparr>))"
    using assms list_empty_dll[of "forward_links (g_mda c)" ForwardWaiting "a # xs"]
      list_first_dll[of "forward_links (g_mda c)" ForwardWaiting a xs]
    by (simp add: forward_handler_def fwd_list_def Let_def map_option_case case_prod_beta split: option.splits)
  ultimately show ?thesis by blast
qed

text \<open>A message on its last hop stops here.\<close>

lemma mda_handle_last_hop:
  assumes "mi_left_hops src = 1" "find_history_record (g_mda c) src = None"
  shows "mda_handle M src d n c = Some (0, c)"
proof -
  have "find_history_record (g_mda c) (src\<lparr>mi_left_hops := x\<rparr>) = find_history_record (g_mda c) src" for x
    by (simp add: find_history_record_def same_msg_def)
  with assms show ?thesis by (simp add: mda_handle_def)
qed

lemma find_history_hops [simp]:
  "find_history_record m (src\<lparr>mi_left_hops := x\<rparr>) = find_history_record m src"
  by (simp add: find_history_record_def same_msg_def)

lemma find_forward_hops [simp]:
  "find_forward_list m (src\<lparr>mi_left_hops := x\<rparr>) = find_forward_list m src"
  by (simp add: find_forward_list_def same_msg_def)

text \<open>A known message is never queued a second time; it can only take the waiting copy away,
  and does so exactly when the copy heard has fewer hops left.\<close>

lemma mda_handle_known:
  assumes known: "find_history_record (g_mda c) src \<noteq> None" and l: "fwd_list (g_mda c) xs"
  shows "mda_handle M src d n c =
    (case List.find (\<lambda>p. same_msg (fw_msg (forward_fw (g_mda c) p)) src) xs of
       Some p \<Rightarrow> Some (0, if mi_left_hops src - 1 < mi_left_hops (fw_msg (forward_fw (g_mda c) p))
                        then c\<lparr>g_mda := remove_from_forward_list p (g_mda c)\<rparr> else c)
     | None \<Rightarrow> Some (0, c))"
  using known find_forward_list_spec[OF l, of src]
  by (auto simp: mda_handle_def split: option.splits)

lemma create_forward_msg_overflow:
  "454 < len \<Longrightarrow> rcp_create_forward_msg hops d len = None"
  by (simp add: rcp_create_forward_msg_def wnet_get_txbuf_def drv_vnet_mac_header_len_def)

section \<open>Properties\<close>





text \<open>C32. The relay does not come back from queueing a message behind another one: with a
  non-empty waiting list whose first delay is at most the new one, the traversal meets the node
  it has just inserted, makes it its own successor and never ends.\<close>

theorem relay_queueing_diverges:
  assumes "fwd_list m (a # xs)" "tx \<notin> set (ForwardWaiting # a # xs)" "delay m a \<le> d"
  shows "add_forward_list tx src d m = None"
  by (rule add_forward_list_hangs[OF assms])

theorem relay_queueing_diverges_witness:
  "\<exists>m. fwd_list m [Tx 0] \<and> add_forward_list (Tx 1)
      \<lparr>mi_temorary_id = [1, 2, 3, 4], mi_forward_id = [1, 2, 3, 4], mi_msg_count = 7, mi_left_hops = 2\<rparr> 20 m = None"
proof -
  let ?s = "\<lparr>mi_temorary_id = [1, 2, 3, 4], mi_forward_id = [1, 2, 3, 4], mi_msg_count = 7, mi_left_hops = 2\<rparr> :: mda_msg_info"
  let ?m = "mda_init \<lparr>lnext = \<lambda>x. x, lprev = \<lambda>x. x\<rparr>"
  have "fwd_list ?m []" by (simp add: fwd_list_def mda_init_def dll_init)
  then obtain m where "fwd_list m [Tx 0]" "forward_fw m (Tx 0) = \<lparr>fw_msg = ?s, fw_delay_time = 10\<rparr>"
    using add_forward_list_empty[of ?m "Tx 0" ?s 10] by auto
  then show ?thesis using relay_queueing_diverges[of m "Tx 0" "[]" "Tx 1" 20 ?s] by auto
qed

text \<open>A message on its last hop is not relayed. A message heard before is not queued again:
  the waiting list stays as it is, except that a waiting copy of the message is withdrawn when
  the copy just heard has fewer hops left than it.\<close>

theorem relay_suppression:
  assumes "fwd_list (g_mda c) xs"
  shows "(mi_left_hops src = 1 \<and> find_history_record (g_mda c) src = None \<longrightarrow> mda_handle M src d n c = Some (0, c))
    \<and> (find_history_record (g_mda c) src \<noteq> None \<longrightarrow>
        (mda_handle M src d n c = Some (0, c)
         \<or> (\<exists>us p vs c'. xs = us @ p # vs \<and> mda_handle M src d n c = Some (0, c') \<and> fwd_list (g_mda c') (us @ vs)
             \<and> same_msg (fw_msg (forward_fw (g_mda c) p)) src
             \<and> mi_left_hops src - 1 < mi_left_hops (fw_msg (forward_fw (g_mda c) p)))))"
proof (intro conjI impI)
  assume "mi_left_hops src = 1 \<and> find_history_record (g_mda c) src = None"
  then show "mda_handle M src d n c = Some (0, c)" by (simp add: mda_handle_last_hop)
next
  assume known: "find_history_record (g_mda c) src \<noteq> None"
  let ?f = "List.find (\<lambda>p. same_msg (fw_msg (forward_fw (g_mda c) p)) src) xs"
  show "mda_handle M src d n c = Some (0, c)
         \<or> (\<exists>us p vs c'. xs = us @ p # vs \<and> mda_handle M src d n c = Some (0, c') \<and> fwd_list (g_mda c') (us @ vs)
             \<and> same_msg (fw_msg (forward_fw (g_mda c) p)) src
             \<and> mi_left_hops src - 1 < mi_left_hops (fw_msg (forward_fw (g_mda c) p)))"
  proof (cases ?f)
    case None
    then show ?thesis using mda_handle_known[OF known assms] by simp
  next
    case (Some p)
    then have p: "p \<in> set xs" "same_msg (fw_msg (forward_fw (g_mda c) p)) src" by (auto simp: find_Some_iff)
    then obtain us vs where xs: "xs = us @ p # vs" by (auto dest: split_list)
    have l: "fwd_list (remove_from_forward_list p (g_mda c)) (us @ vs)"
      using assms remove_from_forward_list_spec by (simp add: xs)
    have run: "mda_handle M src d n c =
        Some (0, if mi_left_hops src - 1 < mi_left_hops (fw_msg (forward_fw (g_mda c) p))
                 then c\<lparr>g_mda := remove_from_forward_list p (g_mda c)\<rparr> else c)"
      using mda_handle_known[OF known assms, of M d n] Some by simp
    show ?thesis
    proof (cases "mi_left_hops src - 1 < mi_left_hops (fw_msg (forward_fw (g_mda c) p))")
      case True
      with run have "mda_handle M src d n c = Some (0, c\<lparr>g_mda := remove_from_forward_list p (g_mda c)\<rparr>)" by simp
      moreover have "fwd_list (g_mda (c\<lparr>g_mda := remove_from_forward_list p (g_mda c)\<rparr>)) (us @ vs)" using l by simp
      ultimately show ?thesis using xs p(2) True by blast
    qed (use run in simp)
  qed
qed

text \<open>A message that arrives with no hop left counts down to 255, which is not taken for an end:
  the relay creates a copy of it.\<close>

lemma zero_hops_wrap: "(0 :: u8) - 1 = 255" "\<not> (0 :: u8) - 1 \<le> 0"
  by simp_all

text \<open>A message that arrives with no hop left is relayed nevertheless: the counter wraps to
  255, and the copy that is queued carries seven hops in its three-bit field.\<close>

theorem relay_zero_hops:
  assumes "fwd_list (g_mda c) []" "history_ok (g_mda c)" "find_history_record (g_mda c) src = None"
    "mi_left_hops src = 0" "0 < n" "n \<le> length d" "n \<le> 454"
    "alg_farest_node M c (src\<lparr>mi_left_hops := 255\<rparr>) = Some t" "0 \<le> t"
  shows "\<exists>c' a. mda_handle M src d n c = Some (0, c') \<and> fwd_list (g_mda c') [a]
    \<and> msgid_hops (tb_data (forward_buf (g_mda c') a) ! 0) = 7"
proof -
  let ?src = "src\<lparr>mi_left_hops := 255\<rparr>" and ?m = "g_mda c"
  obtain b where b: "rcp_create_forward_msg 255 d n = Some b"
    "tb_data b ! 0 = msgid_byte 255 (msgid_id (d ! 0))"
  proof -
    have "length (tb_data wnet_get_txbuf) = 454"
      by (simp add: wnet_get_txbuf_def drv_vnet_mac_header_len_def)
    then show thesis
      using assms(5-7)
      by (intro that) (auto simp: rcp_create_forward_msg_def poke_def nth_append Let_def simp flip: length_greater_0_conv)
  qed
  let ?a = "Tx (next_txbuf ?m)"
  let ?m1 = "?m\<lparr>next_txbuf := next_txbuf ?m + 1, forward_buf := (forward_buf ?m)(?a := b)\<rparr>"
  have "history_ok ?m1" using assms(2) by (simp add: history_ok_def)
  then obtain k m2 where m2: "add_history_record ?src ?m1 = Some m2"
    "m2 = ?m1\<lparr>rx_history_table := (rx_history_table ?m1)[k := \<lparr>h_msg = ?src, h_life_time = MAX_HISTORY_LIFE\<rparr>]\<rparr>"
    using add_history_record_spec by blast
  have "fwd_list m2 []" using assms(1) by (simp add: m2(2) fwd_list_def)
  then obtain m3 where m3: "add_forward_list ?a ?src t m2 = Some m3" "fwd_list m3 [?a]" "forward_buf m3 = forward_buf m2"
    using add_forward_list_empty[of m2 ?a ?src t] by auto
  have "forward_buf m3 ?a = b" by (simp add: m3(3) m2(2))
  moreover have "mda_handle M src d n c = Some (0, c\<lparr>g_mda := m3\<rparr>)"
  proof -
    have "mi_left_hops src - 1 = 255" by (simp add: assms(4))
    then show ?thesis
      using assms(3,8,9) b(1) m2(1) m3(1) unfolding mda_handle_def Let_def by simp
  qed
  ultimately show ?thesis
    using m3(2) b(2) by (intro exI[of _ "c\<lparr>g_mda := m3\<rparr>"] exI[of _ ?a]) (simp add: msgid_hops_def msgid_byte_def bitwise)
qed

end
