(* ===== verification/SysQueue.thy ===== *)
theory SysQueue
  imports CmsDef Osal
begin

text \<open>
  The queues of the system manager, \<open>app/sys/cv_sys_manager.c\<close>: the structure
  \<open>sys_envar_t\<close> of \<open>include/cv_cms_def.h\<close> and the two operations by which every task informs
  the manager and the manager informs the human interface. Allocating a message does not fail.
  The fields nobody reads (LED periods, the copy of the configuration) and the task handles are
  left out.
\<close>

section \<open>Identifiers\<close>

primrec hi_code :: "hi_out_type \<Rightarrow> nat" where
  "hi_code HI_OUT_NONE = 0"
| "hi_code HI_OUT_SYS_INIT = 1"
| "hi_code HI_OUT_BSM_UPDATE = 2"
| "hi_code HI_OUT_BSM_NONE = 3"
| "hi_code HI_OUT_GPS_CAPTURED = 4"
| "hi_code HI_OUT_GPS_LOST = 5"
| "hi_code HI_OUT_CRD_ALERT = 6"
| "hi_code HI_OUT_CRD_CANCEL = 7"
| "hi_code HI_OUT_CRD_REAR_ALERT = 8"
| "hi_code HI_OUT_CRD_REAR_CANCEL = 9"
| "hi_code HI_OUT_VBD_ALERT = 10"
| "hi_code HI_OUT_VBD_CANCEL = 11"
| "hi_code HI_OUT_VBD_STATUS = 12"
| "hi_code HI_OUT_VBD_STOP = 13"
| "hi_code HI_OUT_EBD_ALERT = 14"
| "hi_code HI_OUT_EBD_CANCEL = 15"
| "hi_code HI_OUT_EBD_STATUS = 16"
| "hi_code HI_OUT_EBD_STOP = 17"
| "hi_code HI_OUT_CANCEL_ALERT = 18"

abbreviation hi_argc :: "hi_out_type \<Rightarrow> u32" where "hi_argc t \<equiv> of_nat (hi_code t)"

text \<open>The applications, as the numbers \<open>enum VSA_APP_ID\<close> gives them.\<close>

definition VSA_ID_NONE :: nat where "VSA_ID_NONE = 0"
definition VSA_ID_CRD :: nat where "VSA_ID_CRD = 1"
definition VSA_ID_CRD_REAR :: nat where "VSA_ID_CRD_REAR = 2"
definition VSA_ID_OPS :: nat where "VSA_ID_OPS = 3"
definition VSA_ID_SIDE :: nat where "VSA_ID_SIDE = 4"
definition VSA_ID_VBD :: nat where "VSA_ID_VBD = 5"
definition VSA_ID_EBD :: nat where "VSA_ID_EBD = 6"
definition VSA_ID_VOT :: nat where "VSA_ID_VOT = 7"

lemmas vsa_id_defs = VSA_ID_NONE_def VSA_ID_CRD_def VSA_ID_CRD_REAR_def VSA_ID_OPS_def VSA_ID_SIDE_def
  VSA_ID_VBD_def VSA_ID_EBD_def VSA_ID_VOT_def

section \<open>State and queues\<close>

record sys_envar =
  sys_status :: u32
  queue_sys_mng :: "unit sys_msg queue"
  queue_sys_hi :: "unit sys_msg queue"

definition sys_add_event_queue :: "sys_envar \<Rightarrow> u16 \<Rightarrow> u16 \<Rightarrow> u32 \<Rightarrow> int \<times> sys_envar" where
  "sys_add_event_queue p_sys msg_id msg_len msg_argc =
     (let (err, q) = osal_queue_send
            \<lparr>m_id = msg_id, m_len = msg_len, m_argc = msg_argc, m_argv = ()\<rparr> (queue_sys_mng p_sys)
      in (err, p_sys\<lparr>queue_sys_mng := q\<rparr>))"

definition hi_add_event_queue :: "sys_envar \<Rightarrow> u16 \<Rightarrow> u16 \<Rightarrow> u32 \<Rightarrow> int \<times> sys_envar" where
  "hi_add_event_queue p_sys msg_id msg_len msg_argc =
     (let (err, q) = osal_queue_send
            \<lparr>m_id = msg_id, m_len = msg_len, m_argc = msg_argc, m_argv = ()\<rparr> (queue_sys_hi p_sys)
      in (err, p_sys\<lparr>queue_sys_hi := q\<rparr>))"

text \<open>\<open>sys_init\<close>: the two queues; the tasks are the steps of the model. The structure was zeroed by
  \<open>global_init\<close>.\<close>

definition sys_init :: sys_envar where
  "sys_init = \<lparr>sys_status = 0, queue_sys_mng = osal_queue_create SYS_QUEUE_SIZE,
     queue_sys_hi = osal_queue_create SYS_QUEUE_SIZE\<rparr>"

definition sys_event :: "unit sys_msg \<Rightarrow> sys_envar \<Rightarrow> int \<times> sys_envar" where
  "sys_event m p_sys = sys_add_event_queue p_sys (m_id m) (m_len m) (m_argc m)"

definition hi_event :: "unit sys_msg \<Rightarrow> sys_envar \<Rightarrow> int \<times> sys_envar" where
  "hi_event m p_sys = hi_add_event_queue p_sys (m_id m) (m_len m) (m_argc m)"

interpretation sysq: event_queue sys_event "\<lambda>s. q_msgs (queue_sys_mng s)" "\<lambda>s. q_depth (queue_sys_mng s)"
  by unfold_locales
    (auto simp: sys_event_def sys_add_event_queue_def osal_queue_send_def osal_status_defs)

interpretation hiq: event_queue hi_event "\<lambda>s. q_msgs (queue_sys_hi s)" "\<lambda>s. q_depth (queue_sys_hi s)"
  by unfold_locales
    (auto simp: hi_event_def hi_add_event_queue_def osal_queue_send_def osal_status_defs)

text \<open>The two queues do not disturb each other, nor the status word.\<close>

lemma sys_queue_frames [simp]:
  "queue_sys_hi (snd (sys_add_event_queue s i l a)) = queue_sys_hi s"
  "sys_status (snd (sys_add_event_queue s i l a)) = sys_status s"
  "queue_sys_mng (snd (hi_add_event_queue s i l a)) = queue_sys_mng s"
  "sys_status (snd (hi_add_event_queue s i l a)) = sys_status s"
  by (simp_all add: sys_add_event_queue_def hi_add_event_queue_def Let_def split: prod.split)

lemma sys_event_queue:
  "snd (sys_add_event_queue s i l a) = sysq.put \<lparr>m_id = i, m_len = l, m_argc = a, m_argv = ()\<rparr> s"
  "snd (hi_add_event_queue s i l a) = hiq.put \<lparr>m_id = i, m_len = l, m_argc = a, m_argv = ()\<rparr> s"
  by (simp_all add: sysq.put_def hiq.put_def sys_event_def hi_event_def)

end
