(* ===== verification/Vsa.thy ===== *)
theory Vsa
  imports VamApi Mda SysQueue
begin

text \<open>
  The vehicle safety applications, \<open>app/vsa/cv_vsa_main.c\<close>, with the structures of
  \<open>include/cv_vsa.h\<close>. One task classifies every neighbour ten times a second and keeps the
  list of stations that are dangerously close; a second one handles the events of its queue.
  The applications see the neighbours through the interface of the vehicle manager and report
  to the system manager, so the state is the three of them.

  The close-range list is an intrusive list of allocated nodes; allocation does not fail. After
  a node was freed \<open>ccw_del_list\<close> still reads its application number. What such a read yields
  is not determined by C: the definitions take it as an argument \<open>freed\<close>, a function of the
  node that was freed.

  As elsewhere \<open>None\<close> is undefined behaviour: a floating-point value converted to an integer
  type that does not hold it, a null pointer read, a call through a null entry of the table.
\<close>

section \<open>State\<close>

definition POSITION_ERROR :: u32 where "POSITION_ERROR = 0"
definition AHEAD_LEFT :: u32 where "AHEAD_LEFT = 1"
definition AHEAD :: u32 where "AHEAD = 2"
definition AHEAD_RIGHT :: u32 where "AHEAD_RIGHT = 3"
definition RIGHT :: u32 where "RIGHT = 4"
definition BEHIND_RIGHT :: u32 where "BEHIND_RIGHT = 5"
definition BEHIND :: u32 where "BEHIND = 6"
definition BEHIND_LEFT :: u32 where "BEHIND_LEFT = 7"
definition LEFT :: u32 where "LEFT = 8"

lemmas location_defs = POSITION_ERROR_def AHEAD_LEFT_def AHEAD_def AHEAD_RIGHT_def RIGHT_def
  BEHIND_RIGHT_def BEHIND_def BEHIND_LEFT_def LEFT_def

record vsa_info =
  i_pid :: bytes
  vsa_location :: u32
  local_speed :: fl
  remote_speed :: fl
  relative_speed :: fl
  v_offset :: u32
  h_offset :: u32
  linear_distance :: int
  safe_distance :: u32
  i_dir :: fl
  flag_dir :: int

datatype paddr = PositionList | PNode nat

record vsa_crd_node =
  k_pid :: bytes
  ccw_id :: u8
  ccw_cnt :: u8

datatype caddr = CrdList | CNode nat

datatype vsa_handler = VsaManualBroadcast | VsaEeblBroadcast | VsaAutoBroadcast
  | VsaCfcwAlarm | VsaCrcwAlarm | VsaOppositeAlarm | VsaSideAlarm
  | VsaAccidentRecieve | VsaEeblRecieve | VsaXRecieve | VsaXxRecieve | VsaXxxRecieve

record vsa_envar =
  vsa_mode :: u32
  vsa_param :: vsa_config
  gps_status :: u32
  alert_mask :: u32
  alert_pend :: u32
  vsa_local :: vam_stastatus
  vsa_remote :: vam_stastatus
  crd_links :: "caddr list_heap"
  crd_node :: "caddr \<Rightarrow> vsa_crd_node"
  next_crd :: nat
  position_links :: "paddr list_heap"
  position_node :: "paddr \<Rightarrow> vsa_info"
  sem_vsa_proc :: nat
  queue_vsa :: "unit sys_msg queue"
  timer_ebd_send :: os_timer
  timer_position_prepro :: os_timer
  vsa_app_handler_tbl :: "vsa_handler option list"

record cms_global =
  cg :: cms
  vsa :: vsa_envar
  sys :: sys_envar

definition upd_vsa :: "(vsa_envar \<Rightarrow> vsa_envar) \<Rightarrow> cms_global \<Rightarrow> cms_global" where
  "upd_vsa f g = g\<lparr>vsa := f (vsa g)\<rparr>"

definition upd_cg_vam :: "(vam_envar \<Rightarrow> vam_envar) \<Rightarrow> cms_global \<Rightarrow> cms_global" where
  "upd_cg_vam f g = g\<lparr>cg := (cg g)\<lparr>g_vam := f (g_vam (cg g))\<rparr>\<rparr>"

text \<open>An event for the system manager, with its number and argument.\<close>

definition tell_sys :: "u16 \<Rightarrow> u32 \<Rightarrow> cms_global \<Rightarrow> cms_global" where
  "tell_sys i a g = g\<lparr>sys := snd (sys_add_event_queue (sys g) i 0 a)\<rparr>"

abbreviation id_bit :: "nat \<Rightarrow> u32" where "id_bit i \<equiv> push_bit i 1"

abbreviation (input) CCW_DEBOUNCE :: u8 where "CCW_DEBOUNCE \<equiv> 5"

definition vsa_add_event_queue :: "vsa_envar \<Rightarrow> u16 \<Rightarrow> u16 \<Rightarrow> u32 \<Rightarrow> int \<times> vsa_envar" where
  "vsa_add_event_queue p_vsa msg_id msg_len msg_argc =
     (let (err, q) = osal_queue_send
            \<lparr>m_id = msg_id, m_len = msg_len, m_argc = msg_argc, m_argv = ()\<rparr> (queue_vsa p_vsa)
      in (err, p_vsa\<lparr>queue_vsa := q\<rparr>))"

definition vsa_event :: "unit sys_msg \<Rightarrow> vsa_envar \<Rightarrow> int \<times> vsa_envar" where
  "vsa_event m p_vsa = vsa_add_event_queue p_vsa (m_id m) (m_len m) (m_argc m)"

interpretation vsaq: event_queue vsa_event "\<lambda>s. q_msgs (queue_vsa s)" "\<lambda>s. q_depth (queue_vsa s)"
  by unfold_locales
    (auto simp: vsa_event_def vsa_add_event_queue_def osal_queue_send_def osal_status_defs)

definition tell_vsa :: "u16 \<Rightarrow> u16 \<Rightarrow> u32 \<Rightarrow> cms_global \<Rightarrow> cms_global" where
  "tell_vsa i l a g = g\<lparr>vsa := snd (vsa_add_event_queue (vsa g) i l a)\<rparr>"

section \<open>Where a neighbour is\<close>

definition DIRECTION_DIVIDE :: fl where "DIRECTION_DIVIDE = Fin (45 / 2)"

abbreviation div_step :: "int \<Rightarrow> fl" where "div_step k \<equiv> fl_mul Single (int_f k) DIRECTION_DIVIDE"

text \<open>The second result is the new value of \<open>*delta_offset\<close>, if it is assigned.\<close>

definition vsa_position_classify ::
    "vam_stastatus \<Rightarrow> vam_stastatus \<Rightarrow> vam_pos_data \<Rightarrow> u32 \<times> fl option" where
  "vsa_position_classify loc rem pos_data =
     (let lat1 = p_lat (s_pos loc); lng1 = p_lon (s_pos loc);
          lat2 = p_lat (s_pos rem); lng2 = p_lon (s_pos rem);
          angle = d_angle pos_data;
          angle = (if fl_le lat1 lat2
                   then if fl_le lng1 lng2 then angle else fl_sub Single (int_f 360) angle
                   else if fl_le lng1 lng2 then fl_sub Single (int_f 180) angle
                   else fl_add Single (int_f 180) angle);
          delta = (if fl_lt (s_dir loc) angle then fl_sub Single angle (s_dir loc)
                   else fl_sub Single (int_f 360) (fl_sub Single (s_dir loc) angle))
      in if fl_lt (int_f 360) delta \<or> fl_lt delta (Fin 0) then (POSITION_ERROR, None)
         else
           (if fl_lt (div_step 15) delta \<or> fl_le delta DIRECTION_DIVIDE then AHEAD
            else if fl_lt DIRECTION_DIVIDE delta \<and> fl_le delta (div_step 3) then AHEAD_RIGHT
            else if fl_lt (div_step 3) delta \<and> fl_le delta (div_step 5) then RIGHT
            else if fl_lt (div_step 5) delta \<and> fl_le delta (div_step 7) then BEHIND_RIGHT
            else if fl_lt (div_step 7) delta \<and> fl_le delta (div_step 9) then BEHIND
            else if fl_lt (div_step 9) delta \<and> fl_le delta (div_step 11) then BEHIND_LEFT
            else if fl_lt (div_step 11) delta \<and> fl_le delta (div_step 13) then LEFT
            else if fl_lt (div_step 13) delta \<and> fl_le delta (div_step 15) then AHEAD_LEFT
            else POSITION_ERROR, Some delta))"

text \<open>The braking distance kept as a safety margin, in metres.\<close>

definition vsa_safe_distance :: "vsa_config \<Rightarrow> int \<Rightarrow> vam_stastatus \<Rightarrow> vam_stastatus \<Rightarrow> u32 option" where
  "vsa_safe_distance param position loc rem =
     (if position < 0 then Some (ucast (crd_rear_distance param))
      else if fl_lt (s_speed rem) (s_speed loc) then
        fl_to_i32 (fl_div Single (fl_mul Single (fl_mul Single
          (fl_sub Single (fl_mul Single (s_speed loc) (int_f 2)) (s_speed rem))
          (int_f (uint (crd_saftyfactor param)))) (int_f 1000)) (int_f 3600))
      else Some 0)"

text \<open>Everything else in \<open>vsa_set_period\<close> is commented out.\<close>

definition vsa_set_period :: "vsa_info \<Rightarrow> vam_stastatus \<Rightarrow> vam_stastatus" where
  "vsa_set_period node_info rem = rem\<lparr>s_cnt := 0\<rparr>"

definition PI_f :: fl where "PI_f = to_fl Single (31415926 / 10000000)"

text \<open>\<open>(uint32_t)(linear_distance*cos(temp_delta*PI/180.0f))\<close>, and the same with the sine.\<close>

definition offset_of :: "(fl \<Rightarrow> fl) \<Rightarrow> int \<Rightarrow> fl \<Rightarrow> u32 option" where
  "offset_of trig distance delta =
     fl_to_u32 (fl_mul Double (fl_of_int Double distance)
       (trig (fl_div Single (fl_mul Single delta PI_f) (int_f 180))))"

text \<open>What the task works out for one neighbour.\<close>

definition vsa_assess ::
    "libm \<Rightarrow> vsa_config \<Rightarrow> vam_stastatus \<Rightarrow> vam_stastatus \<Rightarrow> fl \<Rightarrow> vsa_info \<Rightarrow> (vsa_info \<times> fl) option" where
  "vsa_assess M param loc rem temp_delta info =
     do {
       let temp_data = vsm_get_data M loc rem;
       let (place, d) = vsa_position_classify loc rem temp_data;
       let temp_delta = (case d of Some d \<Rightarrow> d | None \<Rightarrow> temp_delta);
       dis \<leftarrow> fl_to_int (-2147483648) 2147483647 (vsm_get_pos loc rem temp_data);
       v \<leftarrow> offset_of (m_cos M) dis temp_delta;
       h \<leftarrow> offset_of (m_sin M) dis temp_delta;
       safe \<leftarrow> vsa_safe_distance param dis loc rem;
       dir \<leftarrow> vam_get_peer_relative_dir loc rem;
       Some (info\<lparr>vsa_location := place, local_speed := s_speed loc, remote_speed := s_speed rem,
                  relative_speed := fl_sub Single (s_speed loc) (s_speed rem),
                  linear_distance := dis, v_offset := v, h_offset := h, safe_distance := safe,
                  i_dir := s_dir rem, flag_dir := dir\<rparr>, temp_delta)
     }"

text \<open>
  The loop over the neighbours from index \<open>i\<close> on. The local variables \<open>remote_status\<close> and
  \<open>temp_delta\<close> live across its rounds.
\<close>

fun preprocess_loop ::
    "libm \<Rightarrow> vam_stastatus \<Rightarrow> nat \<Rightarrow> bytes list \<Rightarrow> vam_stastatus \<Rightarrow> fl \<Rightarrow> cms_global \<Rightarrow> cms_global option" where
  "preprocess_loop M local_status i [] remote_status temp_delta g = Some g"
| "preprocess_loop M local_status i (pid # pids) remote_status temp_delta g =
     do {
       (_, remote_status) \<leftarrow> vam_get_peer_status pid remote_status (g_vam (cg g));
       let p_pnt = (position_node (vsa g) (PNode i))\<lparr>i_pid := take RCP_TEMP_ID_LEN (s_pid remote_status)\<rparr>;
       (p_pnt, temp_delta, remote_status) \<leftarrow>
         (if s_cnt remote_status = 0 then do {
            (p_pnt, temp_delta) \<leftarrow> vsa_assess M (vsa_param (vsa g)) local_status remote_status temp_delta p_pnt;
            Some (p_pnt, temp_delta, vsa_set_period p_pnt remote_status) }
          else Some (p_pnt, temp_delta, remote_status\<lparr>s_cnt := s_cnt remote_status - 1\<rparr>));
       let g = upd_vsa (\<lambda>v. v\<lparr>position_node := (position_node v)(PNode i := p_pnt)\<rparr>) g;
       (_, v) \<leftarrow> vam_set_peer_cnt (s_pid remote_status) (s_cnt remote_status) (g_vam (cg g));
       preprocess_loop M local_status (i + 1) pids remote_status temp_delta
         (g\<lparr>cg := (cg g)\<lparr>g_vam := v\<rparr>\<rparr>)
     }"

text \<open>\<open>junk\<close> is what the uninitialised \<open>remote_status\<close> holds; printing is left out.\<close>

definition vsa_preprocess_pos :: "libm \<Rightarrow> cms_global \<Rightarrow> (nat \<times> cms_global) option" where
  "vsa_preprocess_pos M g =
     do {
       (_, peer_pid, peer_count) \<leftarrow> vam_get_all_peer_pid VAM_NEIGHBOUR_MAXNUM (g_vam (cg g));
       if peer_count \<noteq> 0 then do {
         let local_status = snd (vam_get_local_current_status M (systime (cg g)) (g_vam (cg g)));
         g \<leftarrow> preprocess_loop M local_status 0 peer_pid (g_junk (cg g)) (Fin 0) g;
         Some (peer_count, g)
       } else Some (0, g)
     }"

definition timer_preprocess_pos_callback :: "cms_global \<Rightarrow> cms_global" where
  "timer_preprocess_pos_callback g = upd_vsa (\<lambda>v. v\<lparr>sem_vsa_proc := sem_vsa_proc v + 1\<rparr>) g"

definition vsa_find_pn :: "vsa_envar \<Rightarrow> bytes \<Rightarrow> paddr option option" where
  "vsa_find_pn p_vsa temporary_id =
     list_find (\<lambda>pos. pid_eq (i_pid (position_node p_vsa pos)) temporary_id) (position_links p_vsa) PositionList"

section \<open>The close-range list\<close>

definition vsa_search_warning :: "nat \<Rightarrow> cms_global \<Rightarrow> bool option" where
  "vsa_search_warning warning_id g =
     (let p_vsa = vsa g in
      if list_empty CrdList (crd_links p_vsa) then Some False
      else map_option (\<lambda>r. r \<noteq> None)
             (list_find (\<lambda>pos. unat (ccw_id (crd_node p_vsa pos)) = warning_id) (crd_links p_vsa) CrdList))"

definition vsa_send_ccw_warning :: "nat \<Rightarrow> cms_global \<Rightarrow> cms_global" where
  "vsa_send_ccw_warning warning_id g =
     (if has_flag (alert_pend (vsa g)) (id_bit warning_id) then g
      else tell_sys SYS_MSG_START_ALERT (of_nat warning_id)
             (upd_vsa (\<lambda>v. v\<lparr>alert_pend := set_flag (alert_pend v) (id_bit warning_id)\<rparr>) g))"

definition vsa_cancel_ccw_warning :: "nat \<Rightarrow> cms_global \<Rightarrow> cms_global option" where
  "vsa_cancel_ccw_warning warning_id g =
     do {
       found \<leftarrow> vsa_search_warning warning_id g;
       Some (if has_flag (alert_pend (vsa g)) (id_bit warning_id) \<and> \<not> found
             then tell_sys SYS_MSG_STOP_ALERT (of_nat warning_id)
                    (upd_vsa (\<lambda>v. v\<lparr>alert_pend := clear_flag (alert_pend v) (id_bit warning_id)\<rparr>) g)
             else g)
     }"

text \<open>\<open>osal_malloc\<close>, filling and linking in of a new node at the head of the list.\<close>

definition crd_create :: "nat \<Rightarrow> bytes \<Rightarrow> vsa_envar \<Rightarrow> vsa_envar" where
  "crd_create warning_id pid v =
     (let p_crd = CNode (next_crd v) in
      v\<lparr>next_crd := next_crd v + 1,
        crd_node := (crd_node v)(p_crd := \<lparr>k_pid = take RCP_TEMP_ID_LEN pid, ccw_id = of_nat warning_id, ccw_cnt = 1\<rparr>),
        crd_links := list_add p_crd CrdList (crd_links v)\<rparr>)"

definition ccw_add_list :: "nat \<Rightarrow> vsa_info \<Rightarrow> cms_global \<Rightarrow> cms_global option" where
  "ccw_add_list warning_id p_pnt g =
     (let p_vsa = vsa g in
      if warning_id = 0 then Some g
      else if has_flag (alert_mask p_vsa) (id_bit warning_id) then
        if list_empty CrdList (crd_links p_vsa) then Some (upd_vsa (crd_create warning_id (i_pid p_pnt)) g)
        else do {
          r \<leftarrow> list_find (\<lambda>pos. pid_eq (i_pid p_pnt) (k_pid (crd_node p_vsa pos))) (crd_links p_vsa) CrdList;
          Some (case r of
              Some pos \<Rightarrow>
                let n = crd_node p_vsa pos in
                if unat (ccw_id n) = warning_id then
                  if ccw_cnt n \<ge> CCW_DEBOUNCE then vsa_send_ccw_warning warning_id g
                  else upd_vsa (\<lambda>v. v\<lparr>crd_node := (crd_node v)(pos := n\<lparr>ccw_cnt := ccw_cnt n + 1\<rparr>)\<rparr>) g
                else g
            | None \<Rightarrow> upd_vsa (crd_create warning_id (i_pid p_pnt)) g)
        }
      else Some g)"

definition ccw_del_list :: "(vsa_crd_node \<Rightarrow> u8) \<Rightarrow> vsa_info \<Rightarrow> cms_global \<Rightarrow> cms_global option" where
  "ccw_del_list freed p_pnt g =
     do {
       let p_vsa = vsa g;
       r \<leftarrow> list_find (\<lambda>pos. pid_eq (i_pid p_pnt) (k_pid (crd_node p_vsa pos))) (crd_links p_vsa) CrdList;
       case r of
         Some pos \<Rightarrow>
           let n = crd_node p_vsa pos in
           if ccw_cnt n \<noteq> 0
           then Some (upd_vsa (\<lambda>v. v\<lparr>crd_node := (crd_node v)(pos := n\<lparr>ccw_cnt := ccw_cnt n - 1\<rparr>)\<rparr>) g)
           else do {
             g \<leftarrow> (if list_empty CrdList (crd_links p_vsa) then vsa_cancel_ccw_warning (unat (ccw_id n)) g else Some g);
             let g = upd_vsa (\<lambda>v. v\<lparr>crd_links := list_del pos (crd_links v)\<rparr>) g;
             vsa_cancel_ccw_warning (unat (freed n)) g
           }
       | None \<Rightarrow> Some g
     }"

section \<open>Which danger a neighbour is\<close>

abbreviation above :: "fl \<Rightarrow> u8 \<Rightarrow> bool" where "above x k \<equiv> \<not> fl_le x (int_f (uint k))"

definition ebd_judge :: "vsa_envar \<Rightarrow> bool option" where
  "ebd_judge p_vsa =
     do {
       r \<leftarrow> vsa_find_pn p_vsa (s_pid (vsa_remote p_vsa));
       p \<leftarrow> r;
       let n = position_node p_vsa p;
       Some (above (local_speed n) (danger_detect_speed_threshold (vsa_param p_vsa))
         \<and> above (remote_speed n) (danger_detect_speed_threshold (vsa_param p_vsa))
         \<and> \<not> flag_dir n < 0 \<and> \<not> linear_distance n \<le> 0)
     }"

definition vbd_judge :: "vsa_envar \<Rightarrow> bool option" where
  "vbd_judge p_vsa =
     do {
       r \<leftarrow> vsa_find_pn p_vsa (s_pid (vsa_remote p_vsa));
       p \<leftarrow> r;
       let n = position_node p_vsa p;
       Some (above (local_speed n) (danger_detect_speed_threshold (vsa_param p_vsa))
         \<and> \<not> h_offset n > ucast (lane_dis (vsa_param p_vsa))
         \<and> \<not> flag_dir n < 0 \<and> \<not> linear_distance n \<le> 0)
     }"

definition cfcw_judge :: "vsa_config \<Rightarrow> vsa_info \<Rightarrow> nat" where
  "cfcw_judge param n =
     (if fl_le (local_speed n) (int_f (uint (danger_detect_speed_threshold param))) then 0
      else if flag_dir n < 0 then 0
      else if h_offset n > ucast (lane_dis param) then 0
      else if fl_le (local_speed n) (fl_add Single (remote_speed n) (int_f (uint (crd_oppsite_speed param)))) then 0
      else if linear_distance n \<le> 0 then 0
      else if linear_distance n > sint (safe_distance n) then 0
      else VSA_ID_CRD)"

text \<open>Distances are metres between two positions on the earth, so negating one does not overflow.\<close>

definition crcw_judge :: "vsa_config \<Rightarrow> vsa_info \<Rightarrow> nat" where
  "crcw_judge param n =
     (if fl_le (local_speed n) (int_f (uint (danger_detect_speed_threshold param))) then 0
      else if fl_le (remote_speed n) (int_f (uint (danger_detect_speed_threshold param))) then 0
      else if flag_dir n < 0 then 0
      else if fl_le (remote_speed n) (fl_add Single (local_speed n) (int_f (uint (crd_oppsite_speed param)))) then 0
      else if linear_distance n > 0 then 0
      else if - linear_distance n > uint (crd_rear_distance param) then 0
      else VSA_ID_CRD_REAR)"

definition vsa_get_alarm :: "nat \<Rightarrow> vsa_envar \<Rightarrow> u32" where
  "vsa_get_alarm vsa_id p_vsa =
     (if vsa_id = VSA_ID_NONE then alert_pend p_vsa else alert_pend p_vsa AND id_bit vsa_id)"

section \<open>Events of the vehicle manager\<close>

definition vsa_local_status_update :: "evt_arg \<Rightarrow> cms_global \<Rightarrow> cms_global option" where
  "vsa_local_status_update parameter g =
     (case parameter of EvtSta s \<Rightarrow> Some (upd_vsa (\<lambda>v. v\<lparr>vsa_local := s\<rparr>) g) | _ \<Rightarrow> None)"

definition vsa_bsm_status_update :: "evt_arg \<Rightarrow> cms_global \<Rightarrow> cms_global option" where
  "vsa_bsm_status_update parameter g =
     Some (if parameter \<noteq> EvtNull
           then if \<not> has_flag (sys_status (sys g)) (id_bit (hi_code HI_OUT_BSM_UPDATE))
                then tell_sys SYS_MSG_BSM_UPDATE (hi_argc HI_OUT_BSM_UPDATE) g else g
           else tell_sys SYS_MSG_BSM_UPDATE (hi_argc HI_OUT_BSM_NONE) g)"

text \<open>The status is the pointer value itself.\<close>

definition vsa_gps_status_update :: "evt_arg \<Rightarrow> cms_global \<Rightarrow> cms_global option" where
  "vsa_gps_status_update parameter g =
     (let set = (\<lambda>n. tell_sys SYS_MSG_GPS_UPDATE n (upd_vsa (\<lambda>v. v\<lparr>gps_status := n\<rparr>) g)) in
      case parameter of EvtNull \<Rightarrow> Some (set 0) | EvtInt n \<Rightarrow> Some (set (of_nat n)) | _ \<Rightarrow> None)"

text \<open>One of the three alarms: raised when it is announced and judged relevant, else withdrawn.\<close>

definition relay_alarm :: "bool \<Rightarrow> nat \<Rightarrow> u16 \<Rightarrow> u16 \<Rightarrow> cms_global \<Rightarrow> cms_global" where
  "relay_alarm on vsa_id msg_id alert g =
     (let pend = has_flag (alert_pend (vsa g)) (id_bit vsa_id) in
      if on then if \<not> pend then tell_vsa msg_id 1 (ucast alert) g else g
      else if pend then tell_vsa msg_id 0 (ucast alert) g else g)"

definition vsa_receive_alarm_update :: "evt_arg \<Rightarrow> cms_global \<Rightarrow> cms_global option" where
  "vsa_receive_alarm_update parameter g =
     do {
       (_, peer_alert) \<leftarrow> vam_get_peer_alert_status (g_vam (cg g));
       s \<leftarrow> (case parameter of EvtSta s \<Rightarrow> Some s | _ \<Rightarrow> None);
       let g = upd_vsa (\<lambda>v. v\<lparr>vsa_remote := s\<rparr>) g;
       vbd \<leftarrow> (if has_flag peer_alert VAM_ALERT_MASK_VBD then vbd_judge (vsa g) else Some False);
       let g = relay_alarm vbd VSA_ID_VBD VSA_MSG_ACC_RC VAM_ALERT_MASK_VBD g;
       ebd \<leftarrow> (if has_flag peer_alert VAM_ALERT_MASK_EBD then ebd_judge (vsa g) else Some False);
       let g = relay_alarm ebd VSA_ID_EBD VSA_MSG_EEBL_RC VAM_ALERT_MASK_EBD g;
       Some (relay_alarm (has_flag peer_alert VAM_ALERT_MASK_VOT) VSA_ID_VOT VSA_MSG_ACC_RC VAM_ALERT_MASK_VOT g)
     }"

definition vsa_receive_rsa_update :: "evt_arg \<Rightarrow> cms_global \<Rightarrow> cms_global option" where
  "vsa_receive_rsa_update parameter g =
     (case parameter of
        EvtRsa param \<Rightarrow> Some (if r_rsa_mask param \<noteq> 0 then tell_vsa VSA_MSG_XXX_RC 0 0 g else g)
      | _ \<Rightarrow> None)"

definition vsa_eebl_broadcast_update :: "evt_arg \<Rightarrow> cms_global \<Rightarrow> cms_global option" where
  "vsa_eebl_broadcast_update parameter g = Some (tell_vsa VSA_MSG_EEBL_BC 0 0 g)"

text \<open>The addresses of the six functions, and a call through such an address.\<close>

definition vsa_callback :: "nat \<Rightarrow> (evt_arg \<Rightarrow> cms_global \<Rightarrow> cms_global option) option" where
  "vsa_callback h =
     (if h = 1 then Some vsa_local_status_update else if h = 2 then Some vsa_bsm_status_update
      else if h = 3 then Some vsa_receive_alarm_update else if h = 4 then Some vsa_gps_status_update
      else if h = 5 then Some vsa_eebl_broadcast_update else if h = 6 then Some vsa_receive_rsa_update
      else None)"

definition vsa_start :: "cms_global \<Rightarrow> cms_global option" where
  "vsa_start g =
     (let h = (\<lambda>e n g. upd_cg_vam (\<lambda>v. snd (vam_set_event_handler e (Some n) v)) g);
          g = h 5 6 (h 4 5 (h 3 4 (h 2 3 (h 1 2 (h 0 1 g)))));
          g = upd_vsa (\<lambda>v. v\<lparr>timer_position_prepro := snd (osal_timer_start (timer_position_prepro v))\<rparr>) g
      in if vam_get_gps_status (g_vam (cg g)) \<noteq> 0 then vsa_gps_status_update (EvtInt 1) g else Some g)"

text \<open>The calls the vehicle manager has made and that were not served yet, the oldest first.\<close>

definition vsa_deliver :: "cms_global \<Rightarrow> cms_global option" where
  "vsa_deliver g =
     (case calls (g_vam (cg g)) of
        [] \<Rightarrow> Some g
      | (h, a) # cs \<Rightarrow> do {
          f \<leftarrow> vsa_callback h;
          f a (upd_cg_vam (\<lambda>v. v\<lparr>calls := cs\<rparr>) g)
        })"

section \<open>Handlers\<close>

text \<open>The argument of a handler is a message, or the index of a neighbour.\<close>

datatype vsa_arg = ArgMsg "unit sys_msg" | ArgIndex nat

definition timer_ebd_send_callback :: "cms_global \<Rightarrow> cms_global" where
  "timer_ebd_send_callback g =
     tell_sys SYS_MSG_ALARM_CANCEL (of_nat VSA_ID_EBD) (upd_cg_vam (\<lambda>v. snd (vam_cancel_alert VAM_ALERT_MASK_EBD v)) g)"

definition vsa_manual_broadcast_proc :: "unit sys_msg \<Rightarrow> cms_global \<Rightarrow> cms_global" where
  "vsa_manual_broadcast_proc p_msg g =
     (if m_argc p_msg \<noteq> 0
      then tell_sys SYS_MSG_ALARM_ACTIVE (of_nat VSA_ID_VBD)
             (upd_cg_vam (\<lambda>v. snd (vam_active_alert VAM_ALERT_MASK_VBD v)) g)
      else tell_sys SYS_MSG_ALARM_CANCEL (of_nat VSA_ID_VBD)
             (upd_cg_vam (\<lambda>v. snd (vam_cancel_alert VAM_ALERT_MASK_VBD v)) g))"

definition vsa_eebl_broadcast_proc :: "cms_global \<Rightarrow> cms_global" where
  "vsa_eebl_broadcast_proc g =
     tell_sys SYS_MSG_ALARM_ACTIVE (of_nat VSA_ID_EBD)
       (upd_vsa (\<lambda>v. v\<lparr>timer_ebd_send := snd (osal_timer_start (snd (osal_timer_stop (timer_ebd_send v))))\<rparr>)
         (upd_cg_vam (\<lambda>v. snd (vam_active_alert VAM_ALERT_MASK_EBD v)) g))"

definition latch_alarm :: "nat \<Rightarrow> u16 \<Rightarrow> cms_global \<Rightarrow> cms_global" where
  "latch_alarm vsa_id len g =
     (if len \<noteq> 0
      then tell_sys SYS_MSG_START_ALERT (of_nat vsa_id)
             (upd_vsa (\<lambda>v. v\<lparr>alert_pend := set_flag (alert_pend v) (id_bit vsa_id)\<rparr>) g)
      else tell_sys SYS_MSG_STOP_ALERT (of_nat vsa_id)
             (upd_vsa (\<lambda>v. v\<lparr>alert_pend := clear_flag (alert_pend v) (id_bit vsa_id)\<rparr>) g))"

definition vsa_accident_recieve_proc :: "unit sys_msg \<Rightarrow> cms_global \<Rightarrow> cms_global" where
  "vsa_accident_recieve_proc p_msg g =
     (if m_argc p_msg = ucast VAM_ALERT_MASK_VBD then latch_alarm VSA_ID_VBD (m_len p_msg) g else g)"

definition vsa_eebl_recieve_proc :: "unit sys_msg \<Rightarrow> cms_global \<Rightarrow> cms_global" where
  "vsa_eebl_recieve_proc p_msg g =
     (if m_argc p_msg = ucast VAM_ALERT_MASK_EBD then latch_alarm VSA_ID_EBD (m_len p_msg) g else g)"

definition vsa_cfcw_alarm_proc :: "nat \<Rightarrow> cms_global \<Rightarrow> nat" where
  "vsa_cfcw_alarm_proc i g = cfcw_judge (vsa_param (vsa g)) (position_node (vsa g) (PNode i))"

definition vsa_crcw_alarm_proc :: "nat \<Rightarrow> cms_global \<Rightarrow> nat" where
  "vsa_crcw_alarm_proc i g = crcw_judge (vsa_param (vsa g)) (position_node (vsa g) (PNode i))"

text \<open>A call through the table: the result and the new state. A handler that is given the wrong
  kind of argument would read it as the other.\<close>

definition vsa_app :: "vsa_handler \<Rightarrow> vsa_arg \<Rightarrow> cms_global \<Rightarrow> (nat \<times> cms_global) option" where
  "vsa_app h arg g =
     (case (h, arg) of
        (VsaManualBroadcast, ArgMsg m) \<Rightarrow> Some (1, vsa_manual_broadcast_proc m g)
      | (VsaManualBroadcast, ArgIndex _) \<Rightarrow> None
      | (VsaEeblBroadcast, _) \<Rightarrow> Some (0, vsa_eebl_broadcast_proc g)
      | (VsaAutoBroadcast, _) \<Rightarrow> Some (0, g)
      | (VsaCfcwAlarm, ArgIndex i) \<Rightarrow> if i < VAM_NEIGHBOUR_MAXNUM then Some (vsa_cfcw_alarm_proc i g, g) else None
      | (VsaCfcwAlarm, ArgMsg _) \<Rightarrow> None
      | (VsaCrcwAlarm, ArgIndex i) \<Rightarrow> if i < VAM_NEIGHBOUR_MAXNUM then Some (vsa_crcw_alarm_proc i g, g) else None
      | (VsaCrcwAlarm, ArgMsg _) \<Rightarrow> None
      | (VsaOppositeAlarm, _) \<Rightarrow> Some (0, g)
      | (VsaSideAlarm, _) \<Rightarrow> Some (0, g)
      | (VsaAccidentRecieve, ArgMsg m) \<Rightarrow> Some (1, vsa_accident_recieve_proc m g)
      | (VsaAccidentRecieve, ArgIndex _) \<Rightarrow> None
      | (VsaEeblRecieve, ArgMsg m) \<Rightarrow> Some (0, vsa_eebl_recieve_proc m g)
      | (VsaEeblRecieve, ArgIndex _) \<Rightarrow> None
      | (VsaXRecieve, _) \<Rightarrow> Some (0, g)
      | (VsaXxRecieve, _) \<Rightarrow> Some (0, g)
      | (VsaXxxRecieve, _) \<Rightarrow> Some (0, g))"

section \<open>The two tasks\<close>

text \<open>One of the four questions the task asks about neighbour \<open>i\<close>. The variable \<open>vsa_id\<close> has no
  value before the first answer, which is the inner \<open>None\<close>; it is read when \<open>guarded\<close>.\<close>

definition ask :: "bool \<Rightarrow> nat \<Rightarrow> nat \<Rightarrow> nat option \<times> cms_global \<Rightarrow> (nat option \<times> cms_global) option" where
  "ask guarded k i r =
     (let (vsa_id, g) = r in do {
        go \<leftarrow> (if guarded then map_option (\<lambda>n. n = 0) vsa_id else Some True);
        if go then (case vsa_app_handler_tbl (vsa g) ! k of
            None \<Rightarrow> Some (vsa_id, g)
          | Some h \<Rightarrow> map_option (\<lambda>(n, g). (Some n, g)) (vsa_app h (ArgIndex i) g))
        else Some (vsa_id, g)
      })"

fun alarm_loop ::
    "(vsa_crd_node \<Rightarrow> u8) \<Rightarrow> nat list \<Rightarrow> nat option \<Rightarrow> cms_global \<Rightarrow> cms_global option" where
  "alarm_loop freed [] vsa_id g = Some g"
| "alarm_loop freed (i # is) vsa_id g =
     do {
       r \<leftarrow> ask False 3 i (vsa_id, g);
       r \<leftarrow> ask True 4 i r;
       r \<leftarrow> ask True 5 i r;
       (vsa_id, g) \<leftarrow> ask True 6 i r;
       n \<leftarrow> vsa_id;
       g \<leftarrow> (if n \<noteq> 0 then ccw_add_list n (position_node (vsa g) (PNode i)) g
             else ccw_del_list freed (position_node (vsa g) (PNode i)) g);
       alarm_loop freed is vsa_id g
     }"

definition stop_alert :: "nat \<Rightarrow> cms_global \<Rightarrow> cms_global" where
  "stop_alert vsa_id g =
     (if has_flag (alert_pend (vsa g)) (id_bit vsa_id)
      then tell_sys SYS_MSG_STOP_ALERT (of_nat vsa_id)
             (upd_vsa (\<lambda>v. v\<lparr>alert_pend := clear_flag (alert_pend v) (id_bit vsa_id)\<rparr>) g)
      else g)"

text \<open>One round of the task; while the semaphore is zero it waits.\<close>

definition vsa_base_proc :: "libm \<Rightarrow> (vsa_crd_node \<Rightarrow> u8) \<Rightarrow> cms_global \<Rightarrow> cms_global option" where
  "vsa_base_proc M freed g =
     (if sem_vsa_proc (vsa g) = 0 then Some g
      else do {
        let g = upd_vsa (\<lambda>v. v\<lparr>sem_vsa_proc := sem_vsa_proc v - 1\<rparr>) g;
        (count_neighour, g) \<leftarrow> vsa_preprocess_pos M g;
        if count_neighour > VAM_NEIGHBOUR_MAXNUM then Some g
        else if count_neighour = 0 then Some (stop_alert VSA_ID_CRD_REAR (stop_alert VSA_ID_CRD g))
        else alarm_loop freed [0..<count_neighour] None g
      })"

definition vsa_thread_entry :: "cms_global \<Rightarrow> cms_global option" where
  "vsa_thread_entry g =
     (case osal_queue_recv (queue_vsa (vsa g)) of
        None \<Rightarrow> Some g
      | Some (p_msg, q) \<Rightarrow>
          let g = upd_vsa (\<lambda>v. v\<lparr>queue_vsa := q\<rparr>) g; k = unat (m_id p_msg) in
          if k < 0x301 \<or> 0x301 + length (vsa_app_handler_tbl (vsa g)) \<le> k then None
          else case vsa_app_handler_tbl (vsa g) ! (k - 0x301) of
              None \<Rightarrow> Some g
            | Some h \<Rightarrow> map_option snd (vsa_app h (ArgMsg p_msg) g))"

section \<open>Initialisation\<close>

definition vsa_app_handlers :: "vsa_handler option list" where
  "vsa_app_handlers = map Some [VsaManualBroadcast, VsaEeblBroadcast, VsaAutoBroadcast, VsaCfcwAlarm,
     VsaCrcwAlarm, VsaOppositeAlarm, VsaSideAlarm, VsaAccidentRecieve, VsaEeblRecieve, VsaXRecieve,
     VsaXxRecieve, VsaXxxRecieve]"

definition zero_info :: vsa_info where
  "zero_info = \<lparr>i_pid = [0, 0, 0, 0], vsa_location = 0, local_speed = Fin 0, remote_speed = Fin 0,
     relative_speed = Fin 0, v_offset = 0, h_offset = 0, linear_distance = 0, safe_distance = 0,
     i_dir = Fin 0, flag_dir = 0\<rparr>"

text \<open>The mode that was assigned first is wiped out with the rest of the structure, so no handler is
  removed. \<open>hc\<close> and \<open>hp\<close> are the list heads before.\<close>

definition vsa_init :: "caddr list_heap \<Rightarrow> paddr list_heap \<Rightarrow> cfg_param \<Rightarrow> vsa_envar option" where
  "vsa_init hc hp cfg =
     do {
       let mode = 0;
       let alert = id_bit VSA_ID_CRD OR id_bit VSA_ID_CRD_REAR OR id_bit VSA_ID_VBD OR id_bit VSA_ID_EBD;
       t_ebd \<leftarrow> osal_timer_create 5000 False True;
       t_pos \<leftarrow> osal_timer_create 100 False True;
       Some \<lparr>vsa_mode = mode, vsa_param = c_vsa cfg, gps_status = 0, alert_mask = alert, alert_pend = 0,
             vsa_local = zero_sta, vsa_remote = zero_sta,
             crd_links = INIT_LIST_HEAD CrdList hc,
             crd_node = (\<lambda>_. \<lparr>k_pid = [], ccw_id = 0, ccw_cnt = 0\<rparr>), next_crd = 0,
             position_links = fold (\<lambda>i. list_add_tail (PNode i) PositionList) [0..<VAM_NEIGHBOUR_MAXNUM]
                                (INIT_LIST_HEAD PositionList hp),
             position_node = (\<lambda>_. zero_info), sem_vsa_proc = 0, queue_vsa = osal_queue_create VSA_QUEUE_SIZE,
             timer_ebd_send = t_ebd, timer_position_prepro = t_pos,
             vsa_app_handler_tbl = map (\<lambda>(i, h). if bit mode i then None else h)
                                     (zip [0..<12] vsa_app_handlers)\<rparr>
     }"

end
