(* ===== verification/Rcp.thy ===== *)
theory Rcp
  imports Mda
begin

text \<open>
  The message layer \<open>app/vam/cv_vam_rcp.c\<close>: conversion of the physical quantities to and from
  their representation on the air, the layout of the four messages (\<open>include/cv_rcp.h\<close>, packed
  structures, little-endian bit fields), parsing into the station table and the event
  handlers, and building and sending.

  A message is the list of its bytes. The structures are laid out by their fields in order;
  fields the code never writes are the zeros of a fresh transmit buffer. Conversions of a
  floating-point number outside the range of the integer type are undefined (\<open>None\<close>), as are
  reads outside the received buffer.
\<close>

section \<open>The test list of received stations\<close>

text \<open>The list is in link order, which \<open>ListH\<close> justifies: \<open>list_add\<close> puts a node in front.\<close>

definition test_find_sta :: "bytes \<Rightarrow> test_comm_node list \<Rightarrow> test_comm_node list" where
  "test_find_sta temporary_id xs =
     (case List.find (\<lambda>pos. pid_eq (tc_pid pos) temporary_id) xs of
        Some _ \<Rightarrow> xs
      | None \<Rightarrow> \<lparr>tc_pid = take RCP_TEMP_ID_LEN temporary_id, tc_rx_cnt = 0, tc_distance_dev = Fin 0\<rparr> # xs)"

fun test_count :: "bytes \<Rightarrow> fl \<Rightarrow> test_comm_node list \<Rightarrow> test_comm_node list" where
  "test_count i d [] = []"
| "test_count i d (x # xs) =
     (if pid_eq (tc_pid x) i then x\<lparr>tc_distance_dev := d, tc_rx_cnt := tc_rx_cnt x + 1\<rparr> # xs
      else x # test_count i d xs)"

definition empty_test_list :: "test_comm_node list \<Rightarrow> test_comm_node list" where
  "empty_test_list xs = []"

section \<open>Quantities on the air\<close>

definition encode_longtitude :: "fl \<Rightarrow> u32 option" where
  "encode_longtitude x = map_option cv_ntohl (fl_to_i32 (fl_mul Single x (int_f 10000000)))"

definition decode_longtitude :: "u32 \<Rightarrow> fl" where
  "decode_longtitude x = fl_div Single (int_f (sint (cv_ntohl x))) (int_f 10000000)"

definition encode_elevation :: "fl \<Rightarrow> u16 option" where
  "encode_elevation x = map_option cv_ntohs (fl_to_u16 x)"

definition decode_elevation :: "u16 \<Rightarrow> fl" where
  "decode_elevation x = int_f (uint (cv_ntohs x))"

definition encode_speed :: "fl \<Rightarrow> u16 option" where
  "encode_speed x = map_option cv_ntohs
     (fl_to_u16 (fl_div Single (fl_mul Single x (int_f 100000)) (int_f 3600)))"

definition decode_speed :: "u16 \<Rightarrow> fl" where
  "decode_speed x = fl_div Single (int_f (uint (cv_ntohs x) * 3600)) (int_f 100000)"

definition encode_heading :: "fl \<Rightarrow> u16 option" where
  "encode_heading x = map_option cv_ntohs (fl_to_u16 (fl_mul Single x (int_f 80)))"

definition decode_heading :: "u16 \<Rightarrow> fl" where
  "decode_heading x =
     fl_cast Single (fl_div Double (fl_of_int Double (uint (cv_ntohs x))) (Fin 80))"

definition encode_acce_lon :: "fl \<Rightarrow> u16 option" where
  "encode_acce_lon x = map_option cv_ntohs (fl_to_u16 x)"

definition decode_acce_lon :: "u16 \<Rightarrow> fl" where
  "decode_acce_lon x = int_f (uint (cv_ntohs x))"

definition encode_acce_lat :: "fl \<Rightarrow> u16 option" where
  "encode_acce_lat x = map_option cv_ntohs (fl_to_u16 x)"

definition decode_acce_lat :: "u16 \<Rightarrow> fl" where
  "decode_acce_lat x = int_f (uint (cv_ntohs x))"

definition encode_acce_vert :: "fl \<Rightarrow> u16 option" where
  "encode_acce_vert x = map_option cv_ntohs (fl_to_u16 x)"

definition decode_acce_vert :: "u16 \<Rightarrow> fl" where
  "decode_acce_vert x = int_f (uint (cv_ntohs x))"

definition encode_acce_yaw :: "fl \<Rightarrow> u8 option" where
  "encode_acce_yaw x = fl_to_u8 x"

definition decode_acce_yaw :: "u8 \<Rightarrow> fl" where
  "decode_acce_yaw x = int_f (uint x)"

section \<open>Alerts\<close>

abbreviation (input) EventHazardLights :: u16 where "EventHazardLights \<equiv> 0x0001"
abbreviation (input) EventHardBraking :: u16 where "EventHardBraking \<equiv> 0x0080"
abbreviation (input) EventDisabledVehicle :: u16 where "EventDisabledVehicle \<equiv> 0x0800"

definition encode_vehicle_alert :: "u16 \<Rightarrow> u16" where
  "encode_vehicle_alert x =
     (let r = 0;
          r = (if has_flag x VAM_ALERT_MASK_VBD then set_flag r EventHazardLights
               else clear_flag r EventHazardLights);
          r = (if has_flag x VAM_ALERT_MASK_EBD then set_flag r EventHardBraking
               else clear_flag r EventHardBraking);
          r = (if has_flag x VAM_ALERT_MASK_VOT then set_flag r EventDisabledVehicle
               else clear_flag r EventDisabledVehicle)
      in cv_ntohs r)"

definition decode_vehicle_alert :: "u16 \<Rightarrow> u16" where
  "decode_vehicle_alert x =
     (let r = 0;
          x = cv_ntohs x;
          r = (if has_flag x EventHazardLights then set_flag r VAM_ALERT_MASK_VBD else r);
          r = (if has_flag x EventHardBraking then set_flag r VAM_ALERT_MASK_EBD else r)
      in if has_flag x EventDisabledVehicle then set_flag r VAM_ALERT_MASK_VOT else r)"

definition RSA_TYPE_MAX :: nat where "RSA_TYPE_MAX = 8"
definition RSA_TYPE_CURVE :: nat where "RSA_TYPE_CURVE = 1"

definition itiscode :: "u16 list" where
  "itiscode = [0x1C07, 0x1F5A, 0x2029, 0x2025, 0x1F60, 0x1D07, 0x0A04, 0x0704, 0x0000]"

definition encode_itiscode :: "u16 \<Rightarrow> u16 list \<Rightarrow> u16 \<times> u16 list" where
  "encode_itiscode rsa_mask p_des =
     fold (\<lambda>b (r, des).
         if bit rsa_mask b then
           if b = 0 then (cv_ntohs (itiscode ! b), des)
           else (r, des[b - 1 := cv_ntohs (itiscode ! b)])
         else (r, des)) [0..<9] (0, p_des)"

definition itiscode_2_rsa_mask :: "u16 \<Rightarrow> u16 \<Rightarrow> u16" where
  "itiscode_2_rsa_mask type rsa_mask =
     (case List.find (\<lambda>i. itiscode ! i = type) [0..<RSA_TYPE_MAX] of
        Some i \<Rightarrow> rsa_mask OR push_bit i 1
      | None \<Rightarrow> rsa_mask)"

definition decode_itiscode :: "u16 \<Rightarrow> u16 list \<Rightarrow> u16" where
  "decode_itiscode typeEvent p_des =
     fold (\<lambda>k. itiscode_2_rsa_mask (cv_ntohs (p_des ! k))) [0..<8]
       (itiscode_2_rsa_mask (cv_ntohs typeEvent) 0)"

text \<open>The 16-bit field with the speed in its low 13 bits and the transmission state above.\<close>

definition transmission_speed :: "u16 \<Rightarrow> u16 \<Rightarrow> u16" where
  "transmission_speed speed state = (speed AND 0x1FFF) OR push_bit 13 (state AND 7)"

definition speed_field :: "u16 \<Rightarrow> u16" where "speed_field x = x AND 0x1FFF"

abbreviation (input) TRANS_STATE_Forward :: u16 where "TRANS_STATE_Forward \<equiv> 2"

section \<open>Parsing\<close>

definition slice :: "nat \<Rightarrow> nat \<Rightarrow> bytes \<Rightarrow> bytes" where
  "slice off n bs = take n (drop off bs)"

definition rcp_mda_process ::
    "libm \<Rightarrow> u8 \<Rightarrow> u8 \<Rightarrow> bytes \<Rightarrow> bytes \<Rightarrow> bytes \<Rightarrow> nat \<Rightarrow> cms \<Rightarrow> (int \<times> cms) option" where
  "rcp_mda_process M msg_hops msg_count p_temp_id p_forward_id data datalen c =
     mda_handle M \<lparr>mi_temorary_id = take RCP_TEMP_ID_LEN p_temp_id,
                   mi_forward_id = take RCP_TEMP_ID_LEN p_forward_id,
                   mi_msg_count = msg_count, mi_left_hops = msg_hops\<rparr> data datalen c"

definition rcp_get_system_time :: "cms \<Rightarrow> u16" where
  "rcp_get_system_time c = ucast (systime c)"

definition put_node :: "laddr \<Rightarrow> vam_sta_node \<Rightarrow> cms \<Rightarrow> cms" where
  "put_node p n c = c\<lparr>g_vam := (g_vam c)\<lparr>remote := (remote (g_vam c))(p := n)\<rparr>\<rparr>"

definition vam_call :: "vam_evt \<Rightarrow> evt_arg \<Rightarrow> cms \<Rightarrow> cms" where
  "vam_call e arg c = c\<lparr>g_vam := call_evt e arg (g_vam c)\<rparr>"

text \<open>The station status a basic safety message carries.\<close>

definition bsm_status :: "bytes \<Rightarrow> u32 \<Rightarrow> vam_stastatus \<Rightarrow> vam_stastatus" where
  "bsm_status b t s =
     s\<lparr>s_timestamp := get16 b 10, s_time := t,
       s_pos := \<lparr>p_lat = decode_longtitude (get32 b 12), p_lon = decode_longtitude (get32 b 16),
                 p_elev = decode_elevation (get16 b 20), p_accu = decode_longtitude (get32 b 22)\<rparr>,
       s_dir := decode_heading (get16 b 28),
       s_speed := decode_speed (get16 b 26),
       s_acce := \<lparr>a_lon = decode_acce_lon (get16 b 30), a_lat = decode_acce_lat (get16 b 32),
                  a_vert = decode_acce_vert (get16 b 34), a_yaw = decode_acce_yaw (b ! 36)\<rparr>\<rparr>"

definition rcp_dbg_count :: "libm \<Rightarrow> vam_stastatus \<Rightarrow> cms \<Rightarrow> cms" where
  "rcp_dbg_count M s c =
     (if g_dbg_print_type c = 1 then
        let d = vsm_get_distance M (s_pos (local (g_vam c))) (s_pos s)
        in c\<lparr>rcp_dbg_distance := d,
             test_comm_list := test_count (s_pid s) d (test_find_sta (s_pid s) (test_comm_list c))\<rparr>
      else c)"

definition rcp_parse_bsm :: "libm \<Rightarrow> bytes \<Rightarrow> nat \<Rightarrow> cms \<Rightarrow> (int \<times> cms) option" where
  "rcp_parse_bsm M databuf datalen c =
     (if datalen < 44 - 2 then Some (-1, c)
      else if length databuf < (if 44 - 2 < datalen then 44 else 44 - 2) then None
      else
        let temporary_id = slice 2 4 databuf in
        if pid_eq temporary_id (s_pid (local (g_vam c))) then Some (0, c)
        else do {
          (_, c) \<leftarrow> rcp_mda_process M (msgid_hops (databuf ! 0)) (databuf ! 1) temporary_id
                      (slice 6 4 databuf) databuf datalen c;
          (p_sta, v) \<leftarrow> vam_find_sta temporary_id (g_vam c);
          let c = c\<lparr>g_vam := v\<rparr>;
          Some (case p_sta of
              None \<Rightarrow> (0, c)
            | Some p \<Rightarrow>
                let n = remote v p;
                    n = n\<lparr>n_life := VAM_NEIGHBOUR_MAXLIFE, n_s := bsm_status databuf (systime c) (n_s n)\<rparr>;
                    c = rcp_dbg_count M (n_s n) (put_node p n c);
                    c = vam_call VAM_EVT_PEER_UPDATE (EvtSta (n_s n)) c
                in if datalen > 44 - 2 then
                     let n = n\<lparr>n_alert_life := VAM_REMOTE_ALERT_MAXLIFE,
                               n_s := (n_s n)\<lparr>s_alert_mask := decode_vehicle_alert (get16 databuf 42)\<rparr>\<rparr>;
                         c = put_node p n c
                     in (0, vam_call VAM_EVT_PEER_ALARM (EvtSta (n_s n)) c)
                   else (0, c))
        })"

text \<open>The eight description codes of a roadside alert that starts at offset \<open>off\<close>.\<close>

definition rsa_description :: "nat \<Rightarrow> bytes \<Rightarrow> u16 list" where
  "rsa_description off b = map (\<lambda>k. get16 b (off + 4 + 2 * k)) [0..<8]"

definition evam_status :: "bytes \<Rightarrow> u32 \<Rightarrow> u16 \<Rightarrow> vam_stastatus \<Rightarrow> vam_stastatus" where
  "evam_status b t alert_mask s =
     s\<lparr>s_time := t,
       s_pos := (s_pos s)\<lparr>p_lon := decode_longtitude (get32 b 33), p_lat := decode_longtitude (get32 b 37),
                          p_elev := decode_elevation (get16 b 41)\<rparr>,
       s_dir := decode_heading (get16 b 43),
       s_speed := decode_speed (speed_field (get16 b 45)),
       s_alert_mask := alert_mask\<rparr>"

definition rcp_parse_evam :: "libm \<Rightarrow> bytes \<Rightarrow> nat \<Rightarrow> cms \<Rightarrow> (int \<times> cms) option" where
  "rcp_parse_evam M databuf datalen c =
     (if datalen < 71 then Some (-1, c)
      else if length databuf < 71 then None
      else
        let temporary_id = slice 1 4 databuf in
        if pid_eq temporary_id (s_pid (local (g_vam c))) then Some (0, c)
        else do {
          (_, c) \<leftarrow> rcp_mda_process M (msgid_hops (databuf ! 0)) (databuf ! 10) temporary_id
                      (slice 5 4 databuf) databuf datalen c;
          let alert_mask = decode_itiscode (get16 databuf 11) (rsa_description 9 databuf);
          (p_sta, v) \<leftarrow> vam_find_sta temporary_id (g_vam c);
          let c = c\<lparr>g_vam := v\<rparr>;
          Some (case p_sta of
              None \<Rightarrow> (0, c)
            | Some p \<Rightarrow>
                let n = remote v p;
                    n = n\<lparr>n_alert_life := VAM_REMOTE_ALERT_MAXLIFE,
                          n_s := evam_status databuf (systime c) alert_mask (n_s n)\<rparr>
                in (0, vam_call VAM_EVT_EVA_UPDATE (EvtSta (n_s n)) (put_node p n c)))
        })"

definition rcp_parse_rsa :: "bytes \<Rightarrow> nat \<Rightarrow> cms \<Rightarrow> (int \<times> cms) option" where
  "rcp_parse_rsa databuf datalen c =
     (if datalen < 50 then Some (-1, c)
      else if length databuf < 50 then None
      else
        let param = (g_junk_rsa c)\<lparr>r_rsa_mask := decode_itiscode (get16 databuf 2) (rsa_description 0 databuf)\<rparr>;
            param = param\<lparr>r_pos := (r_pos param)\<lparr>p_lon := decode_longtitude (get32 databuf 24),
                                                   p_lat := decode_longtitude (get32 databuf 28)\<rparr>\<rparr>
        in Some (0, vam_call VAM_EVT_RSA_UPDATE (EvtRsa param) c))"

definition rcp_parse_msg :: "libm \<Rightarrow> bytes \<Rightarrow> nat \<Rightarrow> cms \<Rightarrow> (int \<times> cms) option" where
  "rcp_parse_msg M databuf datalen c =
     (if datalen < 6 then Some (-1, c)
      else if databuf = [] then None
      else
        let i = msgid_id (databuf ! 0) in do {
          (_, c) \<leftarrow>
            (if ucast i = RCP_MSG_ID_BSM then rcp_parse_bsm M databuf datalen c
             else if ucast i = RCP_MSG_ID_EVAM then
               rcp_parse_evam M databuf datalen
                 (if bsm_pause_mode (working_param (g_vam c)) = 2
                  then c\<lparr>g_vam := vsm_pause_bsm_broadcast (g_vam c)\<rparr> else c)
             else if ucast i = RCP_MSG_ID_RSA then rcp_parse_rsa databuf datalen c
             else Some (0, c));
          Some (uint i, c)
        })"

definition vam_rcp_recv :: "libm \<Rightarrow> wnet_rxinfo \<Rightarrow> bytes \<Rightarrow> nat \<Rightarrow> cms \<Rightarrow> (int \<times> cms) option" where
  "vam_rcp_recv M rxinfo databuf datalen c =
     do {
       (_, c) \<leftarrow> rcp_parse_msg M databuf datalen c;
       Some (0, c)
     }"

section \<open>Building and sending\<close>

text \<open>The message is written at the data pointer of a fresh buffer and handed to the wireless
  layer with its length.\<close>

definition rcp_transmit :: "u8 \<Rightarrow> bytes \<Rightarrow> nat \<Rightarrow> cms \<Rightarrow> (int \<times> cms) option" where
  "rcp_transmit prority msg len c =
     do {
       let txbuf = wnet_get_txbuf;
       (r, w) \<leftarrow> wnet_send (g_wnet c) (rcp_txinfo prority (systime c))
                   (tb_room txbuf, poke 0 msg (tb_data txbuf)) len;
       Some (r, c\<lparr>g_wnet := w\<rparr>)
     }"

definition upd_vam :: "(vam_envar \<Rightarrow> vam_envar) \<Rightarrow> cms \<Rightarrow> cms" where
  "upd_vam f c = c\<lparr>g_vam := f (g_vam c)\<rparr>"

definition bsm_message :: "vam_envar \<Rightarrow> vam_stastatus \<Rightarrow> u16 \<Rightarrow> bytes option" where
  "bsm_message v cur dsecond =
     do {
       lat \<leftarrow> encode_longtitude (p_lat (s_pos cur));
       lon \<leftarrow> encode_longtitude (p_lon (s_pos cur));
       elev \<leftarrow> encode_elevation (p_elev (s_pos cur));
       accu \<leftarrow> encode_longtitude (p_accu (s_pos cur));
       heading \<leftarrow> encode_heading (s_dir cur);
       speed \<leftarrow> encode_speed (s_speed cur);
       alon \<leftarrow> encode_acce_lon (a_lon (s_acce cur));
       alat \<leftarrow> encode_acce_lat (a_lat (s_acce cur));
       avert \<leftarrow> encode_acce_vert (a_vert (s_acce cur));
       ayaw \<leftarrow> encode_acce_yaw (a_yaw (s_acce cur));
       let alert = has_flag (flag v) VAM_FLAG_TX_BSM_ALERT;
       let pid = take RCP_TEMP_ID_LEN (s_pid cur);
       Some ([msgid_byte (if alert then bsm_hops (working_param v) else 1) (ucast RCP_MSG_ID_BSM),
              tx_bsm_msg_cnt v] @ pid
         @ (if bsm_hops (working_param v) > 1 then pid else [0, 0, 0, 0])
         @ le16 dsecond
         @ le32 lat @ le32 lon @ le16 elev @ le32 accu
         @ le16 speed @ le16 heading @ le16 alon @ le16 alat @ le16 avert @ [ayaw]
         @ [0, 0] @ [0, 0, 0]
         @ (if alert then le16 (encode_vehicle_alert (s_alert_mask (local v))) else [0, 0]))
     }"

definition rcp_send_bsm :: "libm \<Rightarrow> cms \<Rightarrow> (int \<times> cms) option" where
  "rcp_send_bsm M c =
     do {
       let v = g_vam c;
       let cur = snd (vam_get_local_current_status M (systime c) v);
       msg \<leftarrow> bsm_message v cur (rcp_get_system_time c);
       let len = (if has_flag (flag v) VAM_FLAG_TX_BSM_ALERT then 44 else 44 - 2);
       let c = upd_vam (\<lambda>v. v\<lparr>tx_bsm_msg_cnt := tx_bsm_msg_cnt v + 1\<rparr>) c;
       rcp_transmit 0 msg len c
     }"

text \<open>The 50 bytes of a roadside alert, as a message of its own or inside an emergency alert.\<close>

definition rsa_message ::
    "u8 \<Rightarrow> u8 \<Rightarrow> u16 \<Rightarrow> u16 list \<Rightarrow> u32 \<Rightarrow> u32 \<Rightarrow> u16 \<Rightarrow> u16 \<Rightarrow> u16 \<Rightarrow> bytes" where
  "rsa_message msgid cnt typeEvent description lon lat elev heading speed =
     [msgid, cnt] @ le16 typeEvent @ concat (map le16 description)
     @ [0] @ [0, 0] @ [0]
     @ le32 lon @ le32 lat @ le16 elev @ le16 heading @ le16 speed
     @ [0, 0, 0, 0] @ [0] @ [0] @ [0, 0] @ [0, 0] @ [0, 0]"

definition evam_message :: "vam_envar \<Rightarrow> vam_stastatus \<Rightarrow> bytes option" where
  "evam_message v cur =
     do {
       lon \<leftarrow> encode_longtitude (p_lon (s_pos cur));
       lat \<leftarrow> encode_longtitude (p_lat (s_pos cur));
       elev \<leftarrow> encode_elevation (p_elev (s_pos cur));
       heading \<leftarrow> encode_heading (s_dir cur);
       speed \<leftarrow> encode_speed (s_speed cur);
       let pid = take RCP_TEMP_ID_LEN (s_pid cur);
       let (typeEvent, description) = encode_itiscode (s_alert_mask cur) (replicate 8 0);
       Some ([msgid_byte (evam_hops (working_param v)) (ucast RCP_MSG_ID_EVAM)] @ pid
         @ (if evam_hops (working_param v) > 1 then pid else [0, 0, 0, 0])
         @ rsa_message 0 (tx_evam_msg_cnt v) typeEvent description lon lat elev heading
             (transmission_speed speed TRANS_STATE_Forward)
         @ replicate 12 0)
     }"

definition rcp_send_evam :: "libm \<Rightarrow> cms \<Rightarrow> (int \<times> cms) option" where
  "rcp_send_evam M c =
     do {
       let v = g_vam c;
       let cur = snd (vam_get_local_current_status M (systime c) v);
       msg \<leftarrow> evam_message v cur;
       let c = upd_vam (\<lambda>v. v\<lparr>tx_evam_msg_cnt := tx_evam_msg_cnt v + 1\<rparr>) c;
       rcp_transmit 1 msg 71 c
     }"

definition rcp_send_rsa :: "cms \<Rightarrow> (int \<times> cms) option" where
  "rcp_send_rsa c =
     do {
       let cnt = tx_rsa_msg_cnt (g_vam c);
       let c = upd_vam (\<lambda>v. v\<lparr>tx_rsa_msg_cnt := tx_rsa_msg_cnt v + 1\<rparr>) c;
       let c = upd_vam (\<lambda>v. snd (vam_active_rsa RSA_TYPE_CURVE v)) c;
       let v = g_vam c;
       let (typeEvent, description) = encode_itiscode (s_alert_mask (local v)) (replicate 8 0);
       lon \<leftarrow> encode_longtitude (p_lon (s_pos (local v)));
       lat \<leftarrow> encode_longtitude (p_lat (s_pos (local v)));
       elev \<leftarrow> encode_elevation (p_elev (s_pos (local v)));
       heading \<leftarrow> encode_heading (s_dir (local v));
       speed \<leftarrow> encode_speed (s_speed (local v));
       rcp_transmit 1
         (rsa_message (msgid_byte (bsm_hops (working_param v)) (ucast RCP_MSG_ID_RSA)) cnt
            typeEvent description lon lat elev heading (transmission_speed speed 0)) 50 c
     }"

text \<open>Differential corrections. The payload field has 256 bytes, the copy has \<open>len\<close>; it is
  undefined once it leaves the transmit buffer.\<close>

definition rcp_send_rtcm :: "bytes \<Rightarrow> nat \<Rightarrow> cms \<Rightarrow> (int \<times> cms) option" where
  "rcp_send_rtcm buff len c =
     (if length buff < len \<or> length (tb_data wnet_get_txbuf) < 12 + len then None
      else do {
        let c = upd_vam (\<lambda>v. snd (vam_active_rsa RSA_TYPE_CURVE v)) c;
        (_, c) \<leftarrow> rcp_transmit 1
          ([msgid_byte 0 (ucast RCP_MSG_ID_RTCM), 1] @ le32 21 @ [0, 0] @ le32 (of_nat len)
           @ take len buff) 268 c;
        Some (int len, c)
      })"

definition timer_send_rsa_callback :: "cms \<Rightarrow> (int \<times> cms) option" where
  "timer_send_rsa_callback c = rcp_send_rsa c"

section \<open>Round trips\<close>

lemma msgid_roundtrip:
  "msgid_id (msgid_byte h i) = i AND 0x1F" "msgid_hops (msgid_byte h i) = h AND 7"
  by (simp_all add: msgid_id_def msgid_hops_def msgid_byte_def bitwise)

lemma has_flag_bit: "has_flag x (push_bit n 1) = bit x n" for x :: u16
  by (auto simp: has_flag_bits bit_simps dest: bit_imp_le_length)

lemma vehicle_alert_flags:
  "has_flag x 1 = bit x 0" "has_flag x 2 = bit x 1" "has_flag x 4 = bit x 2"
  "has_flag x 0x80 = bit x 7" "has_flag x 0x800 = bit x 11" for x :: u16
  using has_flag_bit[of x 0] has_flag_bit[of x 1] has_flag_bit[of x 2] has_flag_bit[of x 7]
    has_flag_bit[of x 11] by simp_all

lemma vehicle_alert_roundtrip: "decode_vehicle_alert (encode_vehicle_alert x) = x AND 7"
  by (cases "bit x 0"; cases "bit x 1"; cases "bit x 2";
      simp add: decode_vehicle_alert_def encode_vehicle_alert_def vehicle_alert_flags set_flag_def
        clear_flag_def Let_def bit_simps; simp add: bitwise)

lemma encode_itiscode_upto:
  "n \<le> 9 \<Longrightarrow> fold (\<lambda>b (r, des).
         if bit m b then
           if b = 0 then (cv_ntohs (itiscode ! b), des)
           else (r, des[b - 1 := cv_ntohs (itiscode ! b)])
         else (r, des)) [0..<n] (0, replicate 8 0)
    = (if 0 < n \<and> bit m 0 then cv_ntohs (itiscode ! 0) else 0,
       map (\<lambda>k. if k + 1 < n \<and> bit m (k + 1) then cv_ntohs (itiscode ! (k + 1)) else 0) [0..<8])"
  for m :: u16
proof (induction n)
  case 0
  show ?case by (simp add: map_replicate_const)
next
  case (Suc n)
  show ?case
  proof (cases "n = 0")
    case True
    then show ?thesis by (simp add: map_replicate_const)
  next
    case False
    then have "(map (\<lambda>k. if k + 1 < n \<and> bit m (k + 1) then cv_ntohs (itiscode ! (k + 1)) else 0) [0..<8])
        [n - 1 := cv_ntohs (itiscode ! n)]
      = map (\<lambda>k. if k + 1 < Suc n \<and> bit m (k + 1) then cv_ntohs (itiscode ! (k + 1)) else 0) [0..<8]"
      if "bit m n"
      using that Suc.prems by (intro nth_equalityI) (auto simp: nth_list_update less_Suc_eq)
    moreover have "map (\<lambda>k. if k + 1 < n \<and> bit m (k + 1) then cv_ntohs (itiscode ! (k + 1)) else 0) [0..<8]
      = map (\<lambda>k. if k + 1 < Suc n \<and> bit m (k + 1) then cv_ntohs (itiscode ! (k + 1)) else 0) [0..<8]"
      if "\<not> bit m n"
      using that by (auto simp: less_Suc_eq)
    ultimately show ?thesis using Suc False by auto
  qed
qed

lemma encode_itiscode_zero:
  "encode_itiscode m (replicate 8 0)
    = (if bit m 0 then cv_ntohs (itiscode ! 0) else 0,
       map (\<lambda>k. if bit m (k + 1) then cv_ntohs (itiscode ! (k + 1)) else 0) [0..<8])"
  using encode_itiscode_upto[of 9 m] by (simp add: encode_itiscode_def cong: map_cong)

text \<open>Each code is found again at its own position, and no code is zero.\<close>

lemma itiscode_position: "i < 8 \<Longrightarrow> List.find (\<lambda>j. itiscode ! j = itiscode ! i) [0..<RSA_TYPE_MAX] = Some i"
proof -
  assume "i < 8"
  then have "i \<in> set [0..<8]" by simp
  then show ?thesis by (auto simp: upt_8 itiscode_def RSA_TYPE_MAX_def)
qed

lemma itiscode_zero: "List.find (\<lambda>j. itiscode ! j = 0) [0..<RSA_TYPE_MAX] = None"
  by (simp add: upt_8 itiscode_def RSA_TYPE_MAX_def)

lemma itiscode_last: "itiscode ! 8 = 0"
  by (simp add: itiscode_def)

lemma rsa_mask_of_code:
  "i < 8 \<Longrightarrow> itiscode_2_rsa_mask (cv_ntohs (if b then cv_ntohs (itiscode ! i) else 0)) k
    = k OR (if b then push_bit i 1 else 0)"
  by (simp add: itiscode_2_rsa_mask_def itiscode_position itiscode_zero)

lemma rsa_mask_of_last:
  "itiscode_2_rsa_mask (cv_ntohs (if b then cv_ntohs (itiscode ! 8) else 0)) k = k"
  by (simp add: itiscode_2_rsa_mask_def itiscode_last itiscode_zero)

lemma itiscode_roundtrip:
  "(case encode_itiscode m (replicate 8 0) of (t, des) \<Rightarrow> decode_itiscode t des) = m AND 0xFF"
proof -
  let ?b = "\<lambda>k. if k < 7 \<and> bit m (k + 1) then push_bit (k + 1) 1 else (0 :: u16)"
  let ?des = "map (\<lambda>k. if bit m (k + 1) then cv_ntohs (itiscode ! (k + 1)) else 0) [0..<8]"
  have step: "itiscode_2_rsa_mask (cv_ntohs (?des ! k)) acc = acc OR ?b k" if "k < 8" for k acc
  proof (cases "k < 7")
    case True
    then show ?thesis
      using rsa_mask_of_code[of "Suc k" "bit m (Suc k)" acc] by (cases "bit m (Suc k)") simp_all
  next
    case False
    then have "k = 7" using that by simp
    then show ?thesis
      using rsa_mask_of_last[of "bit m 8" acc] by (cases "bit m 8") simp_all
  qed
  have "(case encode_itiscode m (replicate 8 0) of (t, des) \<Rightarrow> decode_itiscode t des)
      = fold (\<lambda>k. itiscode_2_rsa_mask (cv_ntohs (?des ! k))) [0..<8] (if bit m 0 then 1 else 0)"
    using rsa_mask_of_code[of 0 "bit m 0" 0] by (simp add: encode_itiscode_zero decode_itiscode_def)
  also have "\<dots> = fold (\<lambda>k acc. acc OR ?b k) [0..<8] (if bit m 0 then 1 else 0)"
  proof (rule fold_cong)
    show "itiscode_2_rsa_mask (cv_ntohs (?des ! k)) = (\<lambda>acc. acc OR ?b k)" if "k \<in> set [0..<8]" for k
      using that by (intro ext step) simp
  qed simp_all
  also have "\<dots> = m AND 0xFF"
    by (simp add: upt_8) (simp add: word_eq_upt upt_16 bit_simps flip: numeral_2_eq_2)
  finally show ?thesis .
qed

text \<open>The emergency alert and the roadside alert keep only 13 bits of the speed.\<close>

lemma speed_field_truncates: "speed_field (transmission_speed s st) = s AND 0x1FFF"
  by (simp add: speed_field_def transmission_speed_def bitwise)

section \<open>Layout of the basic safety message\<close>

text \<open>The fields of a message of this module, read at the offsets the parser uses.\<close>

lemma bsm_message_fields:
  assumes "bsm_message v cur ds = Some msg" "length (s_pid cur) = 4"
  shows "length msg = 44"
    "msgid_id (msg ! 0) = 2"
    "msg ! 1 = tx_bsm_msg_cnt v"
    "slice 2 4 (msg @ z) = s_pid cur"
    "get16 (msg @ z) 10 = ds"
    "encode_longtitude (p_lat (s_pos cur)) = Some (get32 (msg @ z) 12)"
    "encode_longtitude (p_lon (s_pos cur)) = Some (get32 (msg @ z) 16)"
    "encode_elevation (p_elev (s_pos cur)) = Some (get16 (msg @ z) 20)"
    "encode_longtitude (p_accu (s_pos cur)) = Some (get32 (msg @ z) 22)"
    "encode_speed (s_speed cur) = Some (get16 (msg @ z) 26)"
    "encode_heading (s_dir cur) = Some (get16 (msg @ z) 28)"
    "encode_acce_lon (a_lon (s_acce cur)) = Some (get16 (msg @ z) 30)"
    "encode_acce_lat (a_lat (s_acce cur)) = Some (get16 (msg @ z) 32)"
    "encode_acce_vert (a_vert (s_acce cur)) = Some (get16 (msg @ z) 34)"
    "encode_acce_yaw (a_yaw (s_acce cur)) = Some ((msg @ z) ! 36)"
    "has_flag (flag v) VAM_FLAG_TX_BSM_ALERT \<Longrightarrow>
      get16 (msg @ z) 42 = encode_vehicle_alert (s_alert_mask (local v))"
proof -
  obtain p0 p1 p2 p3 where pid: "s_pid cur = [p0, p1, p2, p3]"
    using assms(2) by (rule length_4E)
  have t4: "take RCP_TEMP_ID_LEN (s_pid cur) = [p0, p1, p2, p3]"
    by (simp add: pid RCP_TEMP_ID_LEN_def)
  define f where "f = (if bsm_hops (working_param v) > 1 then [p0, p1, p2, p3] else [0, 0, 0, 0])"
  obtain f0 f1 f2 f3 where f: "f = [f0, f1, f2, f3]" by (cases "bsm_hops (working_param v) > 1") (auto simp: f_def)
  define e where "e = (if has_flag (flag v) VAM_FLAG_TX_BSM_ALERT
      then le16 (encode_vehicle_alert (s_alert_mask (local v))) else [0, 0])"
  obtain lat lon elev accu heading speed alon alat avert ayaw where enc:
    "encode_longtitude (p_lat (s_pos cur)) = Some lat" "encode_longtitude (p_lon (s_pos cur)) = Some lon"
    "encode_elevation (p_elev (s_pos cur)) = Some elev" "encode_longtitude (p_accu (s_pos cur)) = Some accu"
    "encode_heading (s_dir cur) = Some heading" "encode_speed (s_speed cur) = Some speed"
    "encode_acce_lon (a_lon (s_acce cur)) = Some alon" "encode_acce_lat (a_lat (s_acce cur)) = Some alat"
    "encode_acce_vert (a_vert (s_acce cur)) = Some avert" "encode_acce_yaw (a_yaw (s_acce cur)) = Some ayaw"
    and msg: "msg = [msgid_byte (if has_flag (flag v) VAM_FLAG_TX_BSM_ALERT then bsm_hops (working_param v) else 1) 2,
        tx_bsm_msg_cnt v] @ [p0, p1, p2, p3] @ [f0, f1, f2, f3] @ le16 ds @ le32 lat @ le32 lon @ le16 elev
        @ le32 accu @ le16 speed @ le16 heading @ le16 alon @ le16 alat @ le16 avert @ [ayaw]
        @ [0, 0] @ [0, 0, 0] @ e"
    using assms(1) unfolding bsm_message_def t4
    by (auto simp: Let_def RCP_MSG_ID_BSM_def f_def e_def simp flip: f split: bind_splits)
  have le: "length e = 2" by (simp add: e_def)
  show "length msg = 44" by (simp add: msg le)
  show "msgid_id (msg ! 0) = 2" by (simp add: msg msgid_roundtrip)
  show "msg ! 1 = tx_bsm_msg_cnt v" by (simp add: msg)
  show "slice 2 4 (msg @ z) = s_pid cur" by (simp add: msg slice_def pid)
  show "get16 (msg @ z) 10 = ds" by (simp add: msg get16.simps le16_def join16)
  show "encode_longtitude (p_lat (s_pos cur)) = Some (get32 (msg @ z) 12)"
    by (simp add: msg get32.simps enc le16_def le32_def join32)
  show "encode_longtitude (p_lon (s_pos cur)) = Some (get32 (msg @ z) 16)"
    by (simp add: msg get32.simps enc le16_def le32_def join32)
  show "encode_elevation (p_elev (s_pos cur)) = Some (get16 (msg @ z) 20)"
    by (simp add: msg get16.simps enc le16_def le32_def join16)
  show "encode_longtitude (p_accu (s_pos cur)) = Some (get32 (msg @ z) 22)"
    by (simp add: msg get32.simps enc le16_def le32_def join32)
  show "encode_speed (s_speed cur) = Some (get16 (msg @ z) 26)"
    by (simp add: msg get16.simps enc le16_def le32_def join16)
  show "encode_heading (s_dir cur) = Some (get16 (msg @ z) 28)"
    by (simp add: msg get16.simps enc le16_def le32_def join16)
  show "encode_acce_lon (a_lon (s_acce cur)) = Some (get16 (msg @ z) 30)"
    by (simp add: msg get16.simps enc le16_def le32_def join16)
  show "encode_acce_lat (a_lat (s_acce cur)) = Some (get16 (msg @ z) 32)"
    by (simp add: msg get16.simps enc le16_def le32_def join16)
  show "encode_acce_vert (a_vert (s_acce cur)) = Some (get16 (msg @ z) 34)"
    by (simp add: msg get16.simps enc le16_def le32_def join16)
  show "encode_acce_yaw (a_yaw (s_acce cur)) = Some ((msg @ z) ! 36)"
    by (simp add: msg enc le16_def le32_def)
  show "has_flag (flag v) VAM_FLAG_TX_BSM_ALERT \<Longrightarrow>
      get16 (msg @ z) 42 = encode_vehicle_alert (s_alert_mask (local v))"
    by (simp add: msg get16.simps e_def le16_def le32_def join16)
qed

section \<open>Parsing and the station table\<close>

lemma sta_pool_put:
  assumes "sta_pool v nb fr" "p \<in> set nb"
    "take RCP_TEMP_ID_LEN (s_pid (n_s n)) = pid_of v p"
  shows "sta_pool (v\<lparr>remote := (remote v)(p := n)\<rparr>) nb fr"
proof -
  let ?w = "v\<lparr>remote := (remote v)(p := n)\<rparr>"
  have pid: "pid_of ?w = pid_of v"
    using assms(3) by (auto simp: pid_of_def fun_eq_iff)
  have "p \<notin> set fr" using assms(2) sta_poolD(5)[OF assms(1)] by auto
  with assms(1) pid show ?thesis by (auto simp: sta_pool_def)
qed

lemma call_evt_frame [simp]:
  "links (call_evt e a v) = links v" "remote (call_evt e a v) = remote v"
  "neighbour_cnt (call_evt e a v) = neighbour_cnt v" "evt_handler (call_evt e a v) = evt_handler v"
  "working_param (call_evt e a v) = working_param v" "local (call_evt e a v) = local v"
  "flag (call_evt e a v) = flag v"
  by (simp_all add: call_evt_def split: option.split)

lemma sta_pool_call [simp]: "sta_pool (call_evt e a v) nb fr = sta_pool v nb fr"
  by (rule sta_pool_cong) simp_all

lemma sta_pool_pause [simp]: "sta_pool (vsm_pause_bsm_broadcast v) nb fr = sta_pool v nb fr"
  by (rule sta_pool_cong) (simp_all add: vsm_pause_bsm_broadcast_def Let_def case_prod_beta)

text \<open>Looking a station up, in all three cases.\<close>

lemma vam_find_sta_cases:
  assumes "sta_pool v nb fr"
  obtains (known) p where "vam_find_sta i v = Some (Some p, v)" "p \<in> set nb"
      "pid_of v p = take RCP_TEMP_ID_LEN i"
    | (joined) p fr' where "fr = p # fr'" "vam_find_sta i v = Some (Some p, sta_join i p v)"
      "sta_pool (sta_join i p v) (p # nb) fr'" "take RCP_TEMP_ID_LEN i \<notin> pid_of v ` set nb"
    | (full) "fr = []" "vam_find_sta i v = Some (None, v)" "take RCP_TEMP_ID_LEN i \<notin> pid_of v ` set nb"
proof (cases "take RCP_TEMP_ID_LEN i \<in> pid_of v ` set nb")
  case True
  then obtain p where "p \<in> set nb" "pid_of v p = take RCP_TEMP_ID_LEN i" by auto
  then show thesis using vam_find_sta_hit[OF assms] known by blast
next
  case new: False
  show thesis
  proof (cases fr)
    case Nil
    then show thesis using vam_find_sta_full[of v nb i] assms new full by blast
  next
    case (Cons p fr')
    then show thesis using vam_find_sta_new[of v nb p fr' i] assms new joined by blast
  qed
qed

text \<open>Forwarding does not touch the station table.\<close>

lemma mda_handle_frame:
  assumes "mda_handle M src d n c = Some (r, c')"
  shows "g_vam c' = g_vam c" "g_clock c' = g_clock c" "g_junk_rsa c' = g_junk_rsa c"
    "g_dbg_print_type c' = g_dbg_print_type c" "g_wnet c' = g_wnet c"
  using assms
  by (auto simp: mda_handle_def Let_def split: option.splits bind_splits if_splits)

lemma systime_cong: "g_clock c' = g_clock c \<Longrightarrow> systime c' = systime c"
  by (simp add: systime_def)

lemma rcp_dbg_count_frame [simp]:
  "g_vam (rcp_dbg_count M s c) = g_vam c" "g_clock (rcp_dbg_count M s c) = g_clock c"
  by (simp_all add: rcp_dbg_count_def Let_def)

lemma bsm_status_pid [simp]: "s_pid (bsm_status b t s) = s_pid s"
  by (simp add: bsm_status_def)

lemma evam_status_pid [simp]: "s_pid (evam_status b t m s) = s_pid s"
  by (simp add: evam_status_def)

text \<open>What a basic safety message of a station that is in the table, or gets into it, does: the
  handler for peer updates is told the new status before the alert part is looked at.\<close>

definition bsm_effect :: "bytes \<Rightarrow> nat \<Rightarrow> u32 \<Rightarrow> laddr \<Rightarrow> vam_envar \<Rightarrow> vam_envar" where
  "bsm_effect b len t p v =
     (let n = (remote v p)\<lparr>n_life := VAM_NEIGHBOUR_MAXLIFE, n_s := bsm_status b t (n_s (remote v p))\<rparr>;
          v = call_evt VAM_EVT_PEER_UPDATE (EvtSta (n_s n)) (v\<lparr>remote := (remote v)(p := n)\<rparr>)
      in if 42 < len then
           let n = n\<lparr>n_alert_life := VAM_REMOTE_ALERT_MAXLIFE,
                     n_s := (n_s n)\<lparr>s_alert_mask := decode_vehicle_alert (get16 b 42)\<rparr>\<rparr>
           in call_evt VAM_EVT_PEER_ALARM (EvtSta (n_s n)) (v\<lparr>remote := (remote v)(p := n)\<rparr>)
         else v)"

lemma rcp_parse_bsm_effect:
  assumes len: "42 \<le> len" "(if 42 < len then 44 else 42) \<le> length b"
    and foreign: "\<not> pid_eq (slice 2 4 b) (s_pid (local (g_vam c)))"
    and mda: "rcp_mda_process M (msgid_hops (b ! 0)) (b ! 1) (slice 2 4 b) (slice 6 4 b) b len c = Some (x, c1)"
    and find: "vam_find_sta (slice 2 4 b) (g_vam c) = Some (Some p, v)"
  shows "\<exists>c'. rcp_parse_bsm M b len c = Some (0, c') \<and> g_vam c' = bsm_effect b len (systime c) p v"
proof -
  have g: "g_vam c1 = g_vam c" "g_clock c1 = g_clock c"
    using mda_handle_frame mda unfolding rcp_mda_process_def by blast+
  have t: "systime (c1\<lparr>g_vam := v\<rparr>) = systime c" by (rule systime_cong) (simp add: g)
  have l: "\<not> length b < 42" "\<not> len < 42" "42 < len \<Longrightarrow> \<not> length b < 44"
    using len by (auto split: if_splits)
  show ?thesis
    using foreign mda find g l
    by (cases "42 < len")
      (simp_all add: rcp_parse_bsm_def Let_def bsm_effect_def vam_call_def put_node_def t not_less)
qed

lemma bsm_effect_pool:
  assumes "sta_pool v nb fr" "p \<in> set nb"
  shows "sta_pool (bsm_effect b len t p v) nb fr"
proof -
  define n1 where "n1 = (remote v p)\<lparr>n_life := VAM_NEIGHBOUR_MAXLIFE, n_s := bsm_status b t (n_s (remote v p))\<rparr>"
  define v1 where "v1 = call_evt VAM_EVT_PEER_UPDATE (EvtSta (n_s n1)) (v\<lparr>remote := (remote v)(p := n1)\<rparr>)"
  have p1: "sta_pool v1 nb fr"
    unfolding v1_def sta_pool_call
    by (rule sta_pool_put[OF assms]) (simp add: n1_def pid_of_def)
  have r: "remote v1 p = n1" by (simp add: v1_def)
  have "sta_pool (v1\<lparr>remote := (remote v1)(p := n)\<rparr>) nb fr" if "s_pid (n_s n) = s_pid (n_s n1)" for n
    by (rule sta_pool_put[OF p1 assms(2)]) (simp add: that pid_of_def r)
  then show ?thesis
    using p1 by (simp add: bsm_effect_def Let_def flip: n1_def v1_def)
qed


text \<open>The whole parser keeps the station table well formed, whatever bytes arrive.\<close>

definition table_ok :: "vam_envar \<Rightarrow> bool" where
  "table_ok v \<longleftrightarrow> (\<exists>nb fr. sta_pool v nb fr)"

lemma table_okI [intro]: "sta_pool v nb fr \<Longrightarrow> table_ok v"
  by (auto simp: table_ok_def)

lemma table_ok_call [simp]: "table_ok (call_evt e a v) = table_ok v"
  and table_ok_pause [simp]: "table_ok (vsm_pause_bsm_broadcast v) = table_ok v"
  by (simp_all add: table_ok_def)

lemma table_ok_cong:
  "links w = links v \<Longrightarrow> remote w = remote v \<Longrightarrow> neighbour_cnt w = neighbour_cnt v
    \<Longrightarrow> table_ok w = table_ok v"
  using sta_pool_cong[of w v] by (simp add: table_ok_def)

lemma table_ok_put:
  assumes "table_ok v" "vam_find_sta i v = Some (Some p, w)"
    "s_pid (n_s n) = s_pid (n_s (remote w p))"
  shows "table_ok (w\<lparr>remote := (remote w)(p := n)\<rparr>)"
proof -
  obtain nb fr where pool: "sta_pool v nb fr" using assms(1) by (auto simp: table_ok_def)
  from pool show ?thesis
  proof (cases rule: vam_find_sta_cases[where i = i])
    case (known q)
    with assms pool show ?thesis by (auto intro!: table_okI sta_pool_put simp: pid_of_def)
  next
    case (joined q fr')
    then have "w = sta_join i q v" "p = q" using assms(2) by auto
    with joined(3) assms(3) show ?thesis
      by (auto intro!: table_okI[of _ "q # nb"] sta_pool_put simp: pid_of_def)
  qed (use assms in auto)
qed

lemma table_ok_find:
  assumes "table_ok v" "vam_find_sta i v = Some (r, w)"
  shows "table_ok w"
proof -
  obtain nb fr where pool: "sta_pool v nb fr" using assms(1) by (auto simp: table_ok_def)
  from pool show ?thesis
    by (cases rule: vam_find_sta_cases[where i = i]) (use assms pool in auto)
qed

lemma rcp_parse_bsm_cases:
  assumes run: "rcp_parse_bsm M b len c = Some (r, c')"
  obtains (same) "g_vam c' = g_vam c"
    | (full) v where "vam_find_sta (slice 2 4 b) (g_vam c) = Some (None, v)" "g_vam c' = v"
    | (node) p v where "vam_find_sta (slice 2 4 b) (g_vam c) = Some (Some p, v)"
        "g_vam c' = bsm_effect b len (systime c) p v"
proof (cases "42 \<le> len \<and> (if 42 < len then 44 else 42) \<le> length b
    \<and> \<not> pid_eq (slice 2 4 b) (s_pid (local (g_vam c)))")
  case False
  with run have "g_vam c' = g_vam c" by (auto simp: rcp_parse_bsm_def Let_def split: if_splits)
  then show thesis by (rule that)
next
  case True
  then have l: "\<not> len < 42" "\<not> length b < (if 42 < len then 44 else 42)" by auto
  from run l True obtain x c1 where
    mda: "rcp_mda_process M (msgid_hops (b ! 0)) (b ! 1) (slice 2 4 b) (slice 6 4 b) b len c = Some (x, c1)"
    by (auto simp: rcp_parse_bsm_def Let_def split: bind_splits if_splits)
  have g: "g_vam c1 = g_vam c"
    using mda_handle_frame(1) mda unfolding rcp_mda_process_def by blast
  from run l True mda g obtain s v where find: "vam_find_sta (slice 2 4 b) (g_vam c) = Some (s, v)"
    by (auto simp: rcp_parse_bsm_def Let_def split: bind_splits if_splits)
  show thesis
  proof (cases s)
    case None
    have "g_vam c' = v"
      using run l True mda g find None by (auto simp: rcp_parse_bsm_def Let_def split: if_splits)
    then show thesis using that(2) find None by simp
  next
    case (Some p)
    have "g_vam c' = bsm_effect b len (systime c) p v"
      using rcp_parse_bsm_effect[of len b c M x c1 p v] True mda find Some run by auto
    then show thesis using that(3) find Some by simp
  qed
qed

lemma rcp_parse_evam_cases:
  assumes run: "rcp_parse_evam M b len c = Some (r, c')"
  obtains (same) "g_vam c' = g_vam c"
    | (full) v where "vam_find_sta (slice 1 4 b) (g_vam c) = Some (None, v)" "g_vam c' = v"
    | (node) p v n where "vam_find_sta (slice 1 4 b) (g_vam c) = Some (Some p, v)"
        "n = (remote v p)\<lparr>n_alert_life := VAM_REMOTE_ALERT_MAXLIFE,
               n_s := evam_status b (systime c) (decode_itiscode (get16 b 11) (rsa_description 9 b)) (n_s (remote v p))\<rparr>"
        "g_vam c' = call_evt VAM_EVT_EVA_UPDATE (EvtSta (n_s n)) (v\<lparr>remote := (remote v)(p := n)\<rparr>)"
proof (cases "71 \<le> len \<and> 71 \<le> length b \<and> \<not> pid_eq (slice 1 4 b) (s_pid (local (g_vam c)))")
  case False
  with run have "g_vam c' = g_vam c" by (auto simp: rcp_parse_evam_def Let_def split: if_splits)
  then show thesis by (rule that)
next
  case True
  from run True obtain x c1 where
    mda: "rcp_mda_process M (msgid_hops (b ! 0)) (b ! 10) (slice 1 4 b) (slice 5 4 b) b len c = Some (x, c1)"
    by (auto simp: rcp_parse_evam_def Let_def split: bind_splits if_splits)
  have g: "g_vam c1 = g_vam c" "g_clock c1 = g_clock c"
    using mda_handle_frame mda unfolding rcp_mda_process_def by blast+
  from run True mda g obtain s v where find: "vam_find_sta (slice 1 4 b) (g_vam c) = Some (s, v)"
    by (auto simp: rcp_parse_evam_def Let_def split: bind_splits if_splits)
  have t: "systime (c1\<lparr>g_vam := v\<rparr>) = systime c" by (rule systime_cong) (simp add: g)
  show thesis
  proof (cases s)
    case None
    have "g_vam c' = v"
      using run True mda g find None by (auto simp: rcp_parse_evam_def Let_def split: if_splits)
    then show thesis using that(2) find None by simp
  next
    case (Some p)
    then show thesis
      using run True mda g find t
      by (intro that(3)[of p v]) (auto simp: rcp_parse_evam_def Let_def vam_call_def put_node_def split: if_splits)
  qed
qed

lemma rcp_parse_bsm_table:
  assumes ok: "table_ok (g_vam c)" and run: "rcp_parse_bsm M b len c = Some (r, c')"
  shows "table_ok (g_vam c')"
  using run
proof (cases rule: rcp_parse_bsm_cases)
  case (full v)
  then show ?thesis using table_ok_find[OF ok] by simp
next
  case (node p v)
  obtain nb fr where pool: "sta_pool (g_vam c) nb fr" using ok by (auto simp: table_ok_def)
  then have "\<exists>nb fr. sta_pool v nb fr \<and> p \<in> set nb"
    by (cases rule: vam_find_sta_cases[where i = "slice 2 4 b"]) (use node pool in auto)
  then show ?thesis using bsm_effect_pool unfolding node(2) by blast
qed (use ok in simp)

lemma rcp_parse_evam_table:
  assumes ok: "table_ok (g_vam c)" and run: "rcp_parse_evam M b len c = Some (r, c')"
  shows "table_ok (g_vam c')"
  using run
proof (cases rule: rcp_parse_evam_cases)
  case (full v)
  then show ?thesis using table_ok_find[OF ok] by simp
next
  case (node p v n)
  then show ?thesis using table_ok_put[OF ok node(1), of n] by simp
qed (use ok in simp)

lemma rcp_parse_msg_table:
  assumes ok: "table_ok (g_vam c)" and run: "rcp_parse_msg M b len c = Some (r, c')"
  shows "table_ok (g_vam c')"
proof -
  have ok': "table_ok (g_vam (c\<lparr>g_vam := vsm_pause_bsm_broadcast (g_vam c)\<rparr>))" using ok by simp
  have rsa: "table_ok (g_vam c'')" if "rcp_parse_rsa b len c = Some (x, c'')" for x c''
    using that ok by (auto simp: rcp_parse_rsa_def vam_call_def Let_def split: if_splits)
  show ?thesis
    using run ok rcp_parse_bsm_table[OF ok] rcp_parse_evam_table[OF ok] rcp_parse_evam_table[OF ok'] rsa
    by (auto simp: rcp_parse_msg_def Let_def split: if_splits bind_splits)
qed

lemma vam_rcp_recv_table:
  "table_ok (g_vam c) \<Longrightarrow> vam_rcp_recv M rx b len c = Some (r, c') \<Longrightarrow> table_ok (g_vam c')"
  using rcp_parse_msg_table by (auto simp: vam_rcp_recv_def split: bind_splits)

text \<open>A message of the station itself, relayed back to it, changes nothing.\<close>

lemma rcp_parse_bsm_own:
  assumes "42 \<le> len" "(if 42 < len then 44 else 42) \<le> length b"
    "pid_eq (slice 2 4 b) (s_pid (local (g_vam c)))"
  shows "rcp_parse_bsm M b len c = Some (0, c)"
  using assms by (auto simp: rcp_parse_bsm_def Let_def split: if_splits)

section \<open>The alert of an emergency message\<close>

lemma length_concat_le16: "length (concat (map le16 xs)) = 2 * length xs"
  by (induction xs) (simp_all add: le16_def)

lemma get16_le16_concat:
  "k < length xs \<Longrightarrow> length pre = off \<Longrightarrow>
    get16 (pre @ concat (map le16 xs) @ post) (off + 2 * k) = xs ! k"
proof (induction xs arbitrary: pre off k)
  case (Cons x xs)
  show ?case
  proof (cases k)
    case 0
    then show ?thesis using Cons.prems by (simp add: get16_at)
  next
    case (Suc j)
    have "get16 ((pre @ le16 x) @ concat (map le16 xs) @ post) (off + 2 + 2 * j) = xs ! j"
      using Cons.prems by (intro Cons.IH) (simp_all add: Suc le16_def)
    then show ?thesis by (simp add: Suc)
  qed
qed simp

text \<open>The type code and the descriptions behind a prefix of \<open>off + 2\<close> bytes.\<close>

lemma itis_fields:
  assumes "length pre = off + 2" "length des = 8"
  shows "get16 (pre @ le16 t @ concat (map le16 des) @ post) (off + 2) = t"
    "rsa_description off (pre @ le16 t @ concat (map le16 des) @ post) = des"
proof -
  show "get16 (pre @ le16 t @ concat (map le16 des) @ post) (off + 2) = t"
    using assms(1) by (intro get16_at)
  have "get16 ((pre @ le16 t) @ concat (map le16 des) @ post) (off + 4 + 2 * k) = des ! k" if "k < 8" for k
    using that assms by (intro get16_le16_concat) (simp_all add: le16_def)
  then show "rsa_description off (pre @ le16 t @ concat (map le16 des) @ post) = des"
    using assms(2) by (intro nth_equalityI) (simp_all add: rsa_description_def)
qed

lemma evam_message_alert:
  assumes "evam_message v cur = Some msg" "length (s_pid cur) = 4"
  shows "length msg = 71" "msgid_id (msg ! 0) = 5" "slice 1 4 (msg @ z) = s_pid cur"
    "decode_itiscode (get16 (msg @ z) 11) (rsa_description 9 (msg @ z)) = s_alert_mask cur AND 0xFF"
proof -
  let ?f = "if evam_hops (working_param v) > 1 then take RCP_TEMP_ID_LEN (s_pid cur) else [0, 0, 0, 0]"
  obtain t des where e: "encode_itiscode (s_alert_mask cur) (replicate 8 0) = (t, des)" by fastforce
  have des: "length des = 8"
    using arg_cong[OF e, of "\<lambda>x. length (snd x)"] by (simp add: encode_itiscode_zero)
  obtain lon lat elev heading speed where msg: "msg =
      [msgid_byte (evam_hops (working_param v)) 5] @ take RCP_TEMP_ID_LEN (s_pid cur) @ ?f
         @ rsa_message 0 (tx_evam_msg_cnt v) t des lon lat elev heading (transmission_speed speed 2)
         @ replicate 12 0"
    using assms(1) unfolding evam_message_def
    by (auto simp: e Let_def RCP_MSG_ID_EVAM_def split: bind_splits)
  have f: "length ?f = 4" "take RCP_TEMP_ID_LEN (s_pid cur) = s_pid cur"
    using assms(2) by (simp_all add: RCP_TEMP_ID_LEN_def)
  show "length msg = 71"
    using f assms(2) by (simp add: msg rsa_message_def length_concat_le16 des le16_def le32_def)
  show "msgid_id (msg ! 0) = 5" by (simp add: msg msgid_roundtrip)
  show "slice 1 4 (msg @ z) = s_pid cur" using assms(2) f(2) by (simp add: msg slice_def)
  let ?pre = "[msgid_byte (evam_hops (working_param v)) 5] @ s_pid cur @ ?f @ [0, tx_evam_msg_cnt v]"
  obtain post where "msg @ z = ?pre @ le16 t @ concat (map le16 des) @ post"
    unfolding msg rsa_message_def f(2) by (simp only: append_assoc append.append_Cons append.append_Nil)
  moreover have "length ?pre = 9 + 2" using f(1) assms(2) by simp
  ultimately have "get16 (msg @ z) (9 + 2) = t" "rsa_description 9 (msg @ z) = des"
    using itis_fields[OF _ des] by metis+
  then show "decode_itiscode (get16 (msg @ z) 11) (rsa_description 9 (msg @ z)) = s_alert_mask cur AND 0xFF"
    using itiscode_roundtrip[of "s_alert_mask cur"] e by simp
qed

lemma rsa_message_length: "length ds = 8 \<Longrightarrow> length (rsa_message a b ev ds lo la el he ts) = 50"
  by (simp add: rsa_message_def length_concat_le16 le16_def le32_def)

lemma encode_itiscode_length: "encode_itiscode m (replicate 8 0) = (ev, ds) \<Longrightarrow> length ds = 8"
  using encode_itiscode_zero[of m] by auto

text \<open>A quantity that is zero can always be sent.\<close>

lemma encode_zero:
  "encode_longtitude (Fin 0) = Some 0" "encode_elevation (Fin 0) = Some 0"
  "encode_heading (Fin 0) = Some 0" "encode_speed (Fin 0) = Some 0"
  by (simp_all add: encode_longtitude_def encode_elevation_def encode_heading_def encode_speed_def
      int_f_small fl_to_u16_def fl_to_i32_def trunc_0 cv_ntohs_def cv_ntohl_def)

text \<open>A message that fits the transmit buffer goes on the air, and the receive path of any other
  station hands it on.\<close>

definition wnet_ready :: "wnet_envar \<Rightarrow> bool" where
  "wnet_ready w \<longleftrightarrow> length (wn_mac w) = 6 \<and> 0 < wn_monitor_sock w \<and> wn_sendmsg_ok w"

lemma rcp_transmit_through:
  assumes "wnet_ready (g_wnet c)" "length msg \<le> 454" "wn_mac (g_wnet c) \<noteq> mac"
  obtains frame x where
    "rcp_transmit pr msg (length msg) c
      = Some (0, c\<lparr>g_wnet := (g_wnet c)\<lparr>wn_air := wn_air (g_wnet c) @ [frame]\<rparr>\<rparr>)"
    "drv_vnet_recv mac frame = Some (Some (wn_mac (g_wnet c), x))"
    "\<And>rcp rxinfo s. fp_recv rcp rxinfo x s = map_option (\<lambda>(_, s). (0, s))
        (rcp (rxinfo\<lparr>rx_protocol := 0\<rparr>) (msg @ replicate (492 - length msg) 0) (length msg) s)"
proof -
  let ?d = "poke 0 msg (tb_data wnet_get_txbuf)"
  have "length msg \<le> length ?d" "take (length msg) ?d = msg"
    using assms(2) wnet_get_txbuf_room(2) by (simp_all add: poke_def)
  then show thesis
    using frame_through[of "g_wnet c" "rcp_txinfo pr (systime c)" "length msg" ?d mac "tb_room wnet_get_txbuf"]
      assms wnet_get_txbuf_room(1) that
    by (fastforce simp: rcp_transmit_def wnet_ready_def rcp_txinfo_def)
qed

section \<open>Properties\<close>

text \<open>The event flags of a basic safety message carry the three vehicle alerts and nothing else:
  decoding what was encoded gives the alert mask back, reduced to the bits for break-down,
  emergency braking and overturning.\<close>

theorem vehicle_alert_codec: "decode_vehicle_alert (encode_vehicle_alert x) = x AND 7"
  by (rule vehicle_alert_roundtrip)

text \<open>C34. An emergency alert built from a station status is 71 bytes, is recognised by its type, names
  its sender, and the receiver's code table recovers the sender's alert mask for all eight alert
  types from the type code and the descriptions.\<close>

theorem emergency_alert_roundtrip:
  assumes "evam_message v cur = Some msg" "length (s_pid cur) = 4"
  shows "length msg = 71 \<and> msgid_id (msg ! 0) = 5 \<and> slice 1 4 (msg @ z) = s_pid cur
    \<and> decode_itiscode (get16 (msg @ z) 11) (rsa_description 9 (msg @ z)) = s_alert_mask cur AND 0xFF"
  using evam_message_alert[OF assms] by blast

text \<open>The speed of an emergency alert is stored in 13 bits after its bytes were swapped, so what is
  lost are bits 5 to 7 of the speed: it arrives unchanged exactly when these are zero.\<close>

theorem evam_speed_survives:
  "speed_field (transmission_speed (cv_ntohs x) state) = cv_ntohs x \<longleftrightarrow> x AND 0xE0 = 0"
  unfolding speed_field_truncates by (auto simp: cv_ntohs_def bitwise)

text \<open>Sending a roadside alert announces a curve whatever the configuration says: afterwards the
  curve bit of the local alert mask is set, and every other bit is as before.\<close>

theorem send_rsa_sets_curve:
  assumes "rcp_send_rsa c = Some (r, c')"
  shows "s_alert_mask (local (g_vam c')) = s_alert_mask (local (g_vam c)) OR 2"
proof -
  have "g_vam d' = g_vam d" if "rcp_transmit p m n d = Some (x, d')" for p m n d x d'
    using that by (auto simp: rcp_transmit_def Let_def split: bind_splits)
  then show ?thesis
    using assms
    by (auto simp: rcp_send_rsa_def upd_vam_def Let_def vam_active_rsa_def set_flag_def RSA_TYPE_CURVE_def
        split: bind_splits prod.splits)
qed

text \<open>A message too short for its type is refused: the parser of basic safety messages reports an
  error and leaves the whole state alone, and so do those of the two alerts.\<close>

theorem short_messages_refused:
  "rcp_parse_bsm M b (min n 41) c = Some (-1, c) \<and> rcp_parse_evam M b (min n 70) c = Some (-1, c)
    \<and> rcp_parse_rsa b (min n 49) c = Some (-1, c) \<and> rcp_parse_msg M b (min n 5) c = Some (-1, c)"
proof -
  have "min n 41 < 44 - 2" "min n 70 < 71" "min n 49 < 50" "min n 5 < 6" by simp_all
  then show ?thesis
    by (simp only: rcp_parse_bsm_def rcp_parse_evam_def rcp_parse_rsa_def rcp_parse_msg_def if_True
        simp_thms)
qed

text \<open>Dead reckoning never moves a station: whenever the status of a basic safety message was
  stored and whenever it is asked for, the extrapolated status is the stored one, because the
  clock both of them read is always zero.\<close>

theorem dead_reckoning_frozen:
  "vsm_get_dr_current M (systime c') (bsm_status b (systime c) s) = bsm_status b (systime c) s"
proof -
  have z: "systime c = 0" for c by (simp add: systime_def osal_get_systemtime_zero)
  have "dr_delta 0 0 = Fin 0"
    using int_f_small[of 0] int_f_small[of 1000] by (simp add: dr_delta_def)
  then have "fl_le (dr_delta (systime c') (s_time (bsm_status b (systime c) s))) (int_f 20)"
    by (simp add: z bsm_status_def int_f_small fl_le_def)
  then show ?thesis by (simp add: vsm_get_dr_current_def)
qed

end
