(* ===== verification/Lip.thy ===== *)
theory Lip
  imports Vsm Util
begin

text \<open>
  The positioning input of the VAM task: \<open>app/vam/cv_vam_lip_nmea.c\<close> parses the sentences of
  the satellite receiver, \<open>app/vam/cv_vam_lip.c\<close> writes what they say into the local status.

  A sentence is a byte buffer and pointers into it are positions. A read outside the buffer,
  a copy longer than its target and an integer conversion out of range are undefined: such a
  step is \<open>None\<close>. The conversions \<open>atoi\<close> and \<open>atof\<close> of the C library are defined here on the
  bytes before the terminating zero.

  The file-scope variables \<open>IsLocate\<close> and \<open>Issend\<close> and the function-local \<open>getGps\<close> are the
  fields of \<open>gps_envar\<close>; the times written to the clock device and the sentences passed on to
  the correction service are recorded in order.
\<close>

section \<open>Characters and numbers of the C library\<close>

definition c_isdigit :: "u8 \<Rightarrow> bool" where "c_isdigit c \<longleftrightarrow> 48 \<le> c \<and> c \<le> 57"

definition c_isalpha :: "u8 \<Rightarrow> bool" where
  "c_isalpha c \<longleftrightarrow> (65 \<le> c \<and> c \<le> 90) \<or> (97 \<le> c \<and> c \<le> 122)"

definition c_isspace :: "u8 \<Rightarrow> bool" where "c_isspace c \<longleftrightarrow> c = 32 \<or> (9 \<le> c \<and> c \<le> 13)"

definition c_lower :: "u8 \<Rightarrow> u8" where "c_lower c = (if 65 \<le> c \<and> c \<le> 90 then c + 32 else c)"

definition c_isxdigit :: "u8 \<Rightarrow> bool" where
  "c_isxdigit c \<longleftrightarrow> c_isdigit c \<or> (97 \<le> c_lower c \<and> c_lower c \<le> 102)"

definition digit_val :: "u8 \<Rightarrow> int" where
  "digit_val c = (if c_isdigit c then uint c - 48 else uint (c_lower c) - 87)"

definition num_val :: "int \<Rightarrow> bytes \<Rightarrow> int" where
  "num_val base ds = fold (\<lambda>c v. v * base + digit_val c) ds 0"

definition c_string :: "bytes \<Rightarrow> bytes" where
  "c_string b = dropWhile c_isspace (takeWhile (\<lambda>c. c \<noteq> 0) b)"

definition sign_of :: "bytes \<Rightarrow> bool \<times> bytes" where
  "sign_of s = (case s of c # r \<Rightarrow> if c = 45 then (True, r) else if c = 43 then (False, r) else (False, s)
                | [] \<Rightarrow> (False, []))"

definition c_atoi :: "bytes \<Rightarrow> int option" where
  "c_atoi b =
     (if 0 \<notin> set b then None
      else let (neg, s) = sign_of (c_string b);
               k = num_val 10 (takeWhile c_isdigit s);
               k = (if neg then - k else k)
        in if -2147483648 \<le> k \<and> k \<le> 2147483647 then Some k else None)"

text \<open>The significand of a number in the given base, and what follows it.\<close>

definition significand :: "int \<Rightarrow> (u8 \<Rightarrow> bool) \<Rightarrow> bytes \<Rightarrow> (rat \<times> bytes) option" where
  "significand base isdig s =
     (let ip = takeWhile isdig s; r = dropWhile isdig s;
          (fp, r) = (if r \<noteq> [] \<and> hd r = 46 then (takeWhile isdig (tl r), dropWhile isdig (tl r)) else ([], r))
      in if ip = [] \<and> fp = [] then None
         else Some (of_int (num_val base (ip @ fp)) / of_int base ^ length fp, r))"

definition exponent :: "u8 \<Rightarrow> bytes \<Rightarrow> int" where
  "exponent marker r =
     (if r \<noteq> [] \<and> c_lower (hd r) = marker then
        let (neg, s) = sign_of (tl r); k = num_val 10 (takeWhile c_isdigit s)
        in if neg then - k else k
      else 0)"

definition rat_pow :: "rat \<Rightarrow> int \<Rightarrow> rat" where
  "rat_pow b e = (if 0 \<le> e then b ^ nat e else 1 / b ^ nat (- e))"

definition c_atof :: "bytes \<Rightarrow> fl option" where
  "c_atof b =
     (if 0 \<notin> set b then None
      else let (neg, s) = sign_of (c_string b); l = map c_lower s;
               x = (if take 3 l = [105, 110, 102] then Inf False
                    else if take 3 l = [110, 97, 110] then NaN
                    else if take 2 l = [48, 120] \<and> significand 16 c_isxdigit (drop 2 s) \<noteq> None then
                      (case significand 16 c_isxdigit (drop 2 s) of
                         Some (m, r) \<Rightarrow> to_fl Double (m * rat_pow 2 (exponent 112 r)) | None \<Rightarrow> Fin 0)
                    else (case significand 10 c_isdigit s of
                         Some (m, r) \<Rightarrow> to_fl Double (m * rat_pow 10 (exponent 101 r)) | None \<Rightarrow> Fin 0))
        in Some (if neg then fl_neg x else x))"

section \<open>Reading the buffer\<close>

definition rd :: "bytes \<Rightarrow> nat \<Rightarrow> u8 option" where
  "rd b i = (if i < length b then Some (b ! i) else None)"

definition rd_n :: "bytes \<Rightarrow> nat \<Rightarrow> nat \<Rightarrow> bytes option" where
  "rd_n b i n = (if i + n \<le> length b then Some (take n (drop i b)) else None)"

fun strchr_list :: "u8 \<Rightarrow> bytes \<Rightarrow> nat \<Rightarrow> nat option option" where
  "strchr_list c [] i = None"
| "strchr_list c (x # xs) i =
     (if x = c then Some (Some i) else if x = 0 then Some None else strchr_list c xs (i + 1))"

definition strchr :: "bytes \<Rightarrow> nat \<Rightarrow> u8 \<Rightarrow> nat option option" where
  "strchr b i c = strchr_list c (drop i b) i"

abbreviation comma :: u8 where "comma \<equiv> 44"

text \<open>\<open>if ((p = strchr(s, ',')) != NULL) \<dots> else return;\<close>\<close>

definition at_comma :: "bytes \<Rightarrow> nat \<Rightarrow> 'a \<Rightarrow> (nat \<Rightarrow> 'a option) \<Rightarrow> 'a option" where
  "at_comma b i ret k =
     (case strchr b i comma of None \<Rightarrow> None | Some None \<Rightarrow> Some ret | Some (Some j) \<Rightarrow> k j)"

text \<open>A zeroed array of \<open>cap\<close> bytes into which \<open>s\<close> was copied.\<close>

definition tmp_buff :: "nat \<Rightarrow> bytes \<Rightarrow> bytes option" where
  "tmp_buff cap s = (if length s \<le> cap then Some (s @ replicate (cap - length s) 0) else None)"

section \<open>The recommended minimum sentence\<close>

record t_time =
  t_year :: u16
  t_mon :: u8
  t_day :: u8
  t_hour :: u8
  t_min :: u8
  t_sec :: u8
  t_diffsec :: u32

record t_nmea_rmc =
  g_isTrue :: u8
  g_speed :: fl
  g_latitude :: fl
  g_longitude :: fl
  g_heading :: fl
  g_tt :: t_time

definition atoi_at :: "bytes \<Rightarrow> nat \<Rightarrow> nat \<Rightarrow> int option" where
  "atoi_at b i n = do { s \<leftarrow> rd_n b i n; t \<leftarrow> tmp_buff 5 s; c_atoi t }"

definition nmea_rmc_time :: "bytes \<Rightarrow> nat \<Rightarrow> t_time \<Rightarrow> t_time option" where
  "nmea_rmc_time b s tt =
     do {
       h \<leftarrow> atoi_at b s 2;
       m \<leftarrow> atoi_at b (s + 2) 2;
       sec \<leftarrow> atoi_at b (s + 4) 2;
       d \<leftarrow> atoi_at b (s + 7) 3;
       Some (tt\<lparr>t_hour := word_of_int h, t_min := word_of_int m, t_sec := word_of_int sec,
                t_diffsec := word_of_int d\<rparr>)
     }"

definition nmea_rmc_date :: "bytes \<Rightarrow> nat \<Rightarrow> t_time \<Rightarrow> t_time option" where
  "nmea_rmc_date b s tt =
     do {
       d \<leftarrow> atoi_at b s 2;
       m \<leftarrow> atoi_at b (s + 2) 2;
       y \<leftarrow> atoi_at b (s + 4) 2;
       Some (tt\<lparr>t_day := word_of_int d, t_mon := word_of_int m, t_year := word_of_int y + 2000\<rparr>)
     }"

fun scan_number :: "bytes \<Rightarrow> nat \<Rightarrow> nat \<Rightarrow> bytes option" where
  "scan_number b i 0 = Some []"
| "scan_number b i (Suc n) =
     do {
       c \<leftarrow> rd b i;
       if c_isdigit c \<or> c = 46 then do { r \<leftarrow> scan_number b (i + 1) n; Some (c # r) } else Some []
     }"

text \<open>Degrees in the first \<open>deg\<close> characters, minutes after them; \<open>Some None\<close> is the return
  value -1. \<open>pos\<close> and \<open>neg\<close> are the hemisphere letters.\<close>

definition nmea_rmc_angle :: "nat \<Rightarrow> u8 \<Rightarrow> u8 \<Rightarrow> bytes \<Rightarrow> nat \<Rightarrow> nat \<Rightarrow> fl option option" where
  "nmea_rmc_angle deg pos neg b s e =
     do {
       h \<leftarrow> rd b (e + 1);
       bad \<leftarrow> (if h \<noteq> pos \<and> h \<noteq> neg then do { c \<leftarrow> rd b (s + deg + 2); Some (c \<noteq> 46) } else Some False);
       if bad then Some None
       else do {
         ds \<leftarrow> rd_n b s deg;
         t \<leftarrow> tmp_buff 15 ds;
         k \<leftarrow> c_atoi t;
         let angle = fl_of_int Single k;
         ms \<leftarrow> scan_number b (s + deg) 8;
         t \<leftarrow> tmp_buff 15 ms;
         m \<leftarrow> c_atof t;
         let angle = fl_cast Single (fl_add Double angle (fl_div Double m (Fin 60)));
         Some (Some (if h = neg then fl_mul Single angle (Fin (-1)) else angle))
       }
     }"

definition nmea_rmc_lat :: "bytes \<Rightarrow> nat \<Rightarrow> nat \<Rightarrow> fl option option" where
  "nmea_rmc_lat = nmea_rmc_angle 2 78 83"

definition nmea_rmc_lon :: "bytes \<Rightarrow> nat \<Rightarrow> nat \<Rightarrow> fl option option" where
  "nmea_rmc_lon = nmea_rmc_angle 3 69 87"

text \<open>A number between two positions, copied to an array of \<open>cap\<close> bytes first.\<close>

definition atof_field :: "nat \<Rightarrow> bytes \<Rightarrow> nat \<Rightarrow> nat \<Rightarrow> fl option" where
  "atof_field cap b s e = do { x \<leftarrow> rd_n b s (e - s); t \<leftarrow> tmp_buff cap x; c_atof t }"

definition KNOT :: fl where "KNOT = to_fl Single (1852 / 1000)"

definition junk_time :: t_time where
  "junk_time = \<lparr>t_year = 0, t_mon = 0, t_day = 0, t_hour = 0, t_min = 0, t_sec = 0, t_diffsec = 0\<rparr>"

text \<open>The fields of a sentence with status \<open>A\<close>; \<open>Some None\<close> when the parser gives up.\<close>

definition rmc_fields :: "bytes \<Rightarrow> t_nmea_rmc option option" where
  "rmc_fields b =
     at_comma b 0 None (\<lambda>p. let s = p + 1 in
     at_comma b s None (\<lambda>e. do {
       tt \<leftarrow> nmea_rmc_time b s junk_time;
       at_comma b (e + 1) None (\<lambda>p. let s = p + 1 in
       at_comma b s None (\<lambda>e. do {
         la \<leftarrow> nmea_rmc_lat b s e;
         case la of None \<Rightarrow> Some None | Some latitude \<Rightarrow>
         at_comma b (e + 1) None (\<lambda>p. let s = p + 1 in
         at_comma b s None (\<lambda>e. do {
           lo \<leftarrow> nmea_rmc_lon b s e;
           case lo of None \<Rightarrow> Some None | Some longitude \<Rightarrow>
           at_comma b (e + 1) None (\<lambda>p. let s = p + 1 in
           at_comma b s None (\<lambda>e. do {
             x \<leftarrow> atof_field 10 b s e;
             let speed = fl_cast Single (fl_mul Double x KNOT);
             at_comma b s None (\<lambda>p. let s = p + 1 in
             at_comma b s None (\<lambda>e. do {
               x \<leftarrow> atof_field 10 b s e;
               let heading = fl_cast Single x;
               at_comma b s None (\<lambda>s.
               at_comma b (s + 1) None (\<lambda>e. do {
                 tt \<leftarrow> nmea_rmc_date b (s + 1) tt;
                 Some (Some \<lparr>g_isTrue = 1, g_speed = speed, g_latitude = latitude,
                             g_longitude = longitude, g_heading = heading, g_tt = tt\<rparr>)
               }))
             }))
           }))
         }))
       }))
     }))"

section \<open>The local status\<close>

record gps_envar =
  IsLocate :: bool
  Issend :: bool
  getGps :: bool
  rtc_writes :: "t_time list"
  gga_sent :: "bytes list"

definition lip_rmc_valid_check :: "t_nmea_rmc \<Rightarrow> u32 \<Rightarrow> int" where
  "lip_rmc_valid_check p_rmc t = 1"

text \<open>The assignments both accepting branches of \<open>lip_update_local\<close> make.\<close>

definition take_rmc :: "u32 \<Rightarrow> t_nmea_rmc \<Rightarrow> vam_stastatus \<Rightarrow> vam_stastatus" where
  "take_rmc now r s =
     (let s = s\<lparr>s_time := now,
                s_pos := (s_pos s)\<lparr>p_lat := fl_cast Single (RAD (g_latitude r)),
                                   p_lon := fl_cast Single (RAD (g_longitude r))\<rparr>\<rparr>;
          s = (if fl_le (int_f 5) (g_speed r) \<and> fl_le (g_heading r) (int_f 360)
               then s\<lparr>s_dir := g_heading r\<rparr> else s)
      in s\<lparr>s_speed := g_speed r\<rparr>)"

definition lip_update_rmc ::
    "libm \<Rightarrow> u32 \<Rightarrow> t_nmea_rmc \<Rightarrow> gps_envar \<times> vam_envar \<Rightarrow> (gps_envar \<times> vam_envar) option" where
  "lip_update_rmc M now r gv =
     (let (g, v) = gv; last_s = local v;
          res = lip_rmc_valid_check r now;
          v = v\<lparr>local := (if \<not> getGps g then take_rmc now r (local v)
                          else if res \<noteq> 0 then take_rmc now r (local v)
                          else vsm_get_dr_current M now last_s)\<rparr>
      in do {
        v \<leftarrow> (if \<not> fl_eq (s_speed last_s) (s_speed (local v)) then vsm_update_bsm_bcast_timer v else Some v);
        let (g, v) = (if \<not> has_flag (flag v) VAM_FLAG_GPS_FIXED then
                        (g\<lparr>getGps := True, rtc_writes := rtc_writes g @ [g_tt r]\<rparr>,
                         call_evt VAM_EVT_GPS_STATUS (EvtInt 1)
                           (v\<lparr>flag := set_flag (flag v) VAM_FLAG_GPS_FIXED\<rparr>))
                      else (g, v));
        let t = snd (osal_timer_start (snd (osal_timer_stop (timer_gps_life v))));
        let v = v\<lparr>timer_gps_life := t\<rparr>;
        Some (g, call_evt VAM_EVT_LOCAL_UPDATE (EvtSta (local v)) v)
      })"

definition lip_update_accu :: "fl \<Rightarrow> vam_envar \<Rightarrow> vam_envar" where
  "lip_update_accu accu v = v\<lparr>local := (local v)\<lparr>s_pos := (s_pos (local v))\<lparr>p_accu := accu\<rparr>\<rparr>\<rparr>"

definition lip_update_local ::
    "libm \<Rightarrow> u32 \<Rightarrow> t_nmea_rmc option \<Rightarrow> fl option \<Rightarrow> gps_envar \<times> vam_envar
      \<Rightarrow> (gps_envar \<times> vam_envar) option" where
  "lip_update_local M now rmc_ptr accu_ptr gv =
     do {
       (g, v) \<leftarrow> (case rmc_ptr of Some r \<Rightarrow> lip_update_rmc M now r gv | None \<Rightarrow> Some gv);
       Some (case accu_ptr of Some a \<Rightarrow> (g, lip_update_accu a v) | None \<Rightarrow> (g, v))
     }"

definition lip_update_local_acc :: "fl \<Rightarrow> fl \<Rightarrow> fl \<Rightarrow> vam_envar \<Rightarrow> vam_envar" where
  "lip_update_local_acc x y z v =
     v\<lparr>local := (local v)\<lparr>s_acce := (s_acce (local v))\<lparr>a_lon := x, a_lat := y, a_vert := z\<rparr>\<rparr>\<rparr>"

section \<open>Sentences\<close>

datatype e_nmea_type = GPS_PACK_GPGGA | GPS_PACK_GPGSA | GPS_PACK_GPRMC

text \<open>\<open>$GPRMC\<close>, \<open>$GPGSA\<close> and \<open>$GPGGA\<close>.\<close>

definition pack_type :: "bytes \<Rightarrow> e_nmea_type option" where
  "pack_type b =
     (if take 6 b = [36, 71, 80, 82, 77, 67] then Some GPS_PACK_GPRMC
      else if take 6 b = [36, 71, 80, 71, 83, 65] then Some GPS_PACK_GPGSA
      else if take 6 b = [36, 71, 80, 71, 71, 65] then Some GPS_PACK_GPGGA
      else None)"

text \<open>The checksum of the body and the one in the sentence.\<close>

definition nmea_crc :: "bytes \<Rightarrow> nat \<Rightarrow> u8" where
  "nmea_crc b len = fold (\<lambda>x c. c XOR x) (drop 1 (take (len - 5) b)) 0"

definition crc_digits :: "u8 \<Rightarrow> u8 \<Rightarrow> u8 option" where
  "crc_digits hi lo =
     do {
       h \<leftarrow> (if c_isdigit hi then Some (push_bit 4 hi AND 0xF0)
             else if c_isalpha hi then Some ((push_bit 4 hi + 0x90) AND 0xF0) else None);
       l \<leftarrow> (if c_isdigit lo then Some (lo AND 0x0F)
             else if c_isalpha lo then Some ((lo + 0x09) AND 0x0F) else None);
       Some (h OR l)
     }"

definition crc_ok :: "bytes \<Rightarrow> nat \<Rightarrow> bool" where
  "crc_ok b len \<longleftrightarrow> b ! (len - 5) = 42
     \<and> crc_digits (b ! (len - 4)) (b ! (len - 3)) = Some (nmea_crc b len)"

text \<open>The position just after the \<open>n\<close>-th comma behind position \<open>i\<close>.\<close>

fun nth_comma :: "bytes \<Rightarrow> nat \<Rightarrow> nat \<Rightarrow> nat option option" where
  "nth_comma b i 0 = Some (Some (i + 1))"
| "nth_comma b i (Suc n) =
     (case strchr b (i + 1) comma of None \<Rightarrow> None | Some None \<Rightarrow> Some None
      | Some (Some j) \<Rightarrow> nth_comma b j n)"

text \<open>A field of the satellite sentence: \<open>Some None\<close> when the parser returns, an empty field
  is reported as such.\<close>

datatype gsa_result = GsaStop | GsaEmpty | GsaText bytes

definition gsa_field :: "bytes \<Rightarrow> nat \<Rightarrow> gsa_result option" where
  "gsa_field b n =
     do {
       r \<leftarrow> nth_comma b 0 n;
       case r of None \<Rightarrow> Some GsaStop | Some s \<Rightarrow> do {
         c \<leftarrow> rd b s;
         if c = comma then Some GsaEmpty
         else do {
           e \<leftarrow> strchr b s comma;
           case e of None \<Rightarrow> Some GsaStop | Some e \<Rightarrow>
             if e - s > 15 then Some GsaStop
             else do { x \<leftarrow> rd_n b s (e - s); t \<leftarrow> tmp_buff 16 x; Some (GsaText t) }
         }
       }
     }"

definition nmea_gsa :: "libm \<Rightarrow> u32 \<Rightarrow> bytes \<Rightarrow> gps_envar \<times> vam_envar \<Rightarrow> (gps_envar \<times> vam_envar) option" where
  "nmea_gsa M now b gv =
     (let lost = (case gv of (g, v) \<Rightarrow> (g\<lparr>IsLocate := False\<rparr>, v)) in
      do {
        f \<leftarrow> gsa_field b 2;
        case f of GsaStop \<Rightarrow> Some gv | GsaEmpty \<Rightarrow> Some lost
        | GsaText t \<Rightarrow> do {
            k \<leftarrow> c_atoi t;
            if k = 1 then Some lost
            else do {
              f \<leftarrow> gsa_field b 15;
              case f of GsaStop \<Rightarrow> Some gv | GsaEmpty \<Rightarrow> Some lost
              | GsaText t \<Rightarrow> do {
                  x \<leftarrow> c_atof t;
                  let accu = fl_cast Single x;
                  if fl_lt (int_f 49) accu then Some lost
                  else lip_update_local M now None (Some accu)
                         (case gv of (g, v) \<Rightarrow> (g\<lparr>IsLocate := True\<rparr>, v))
                }
            }
          }
      })"

definition nmea_rmc :: "libm \<Rightarrow> u32 \<Rightarrow> bytes \<Rightarrow> gps_envar \<times> vam_envar \<Rightarrow> (gps_envar \<times> vam_envar) option" where
  "nmea_rmc M now b gv =
     (if \<not> IsLocate (fst gv) then Some gv
      else at_comma b 0 gv (\<lambda>p. at_comma b (p + 1) gv (\<lambda>p. do {
        c \<leftarrow> rd b (p + 1);
        if c = 65 then do {
          r \<leftarrow> rmc_fields b;
          case r of None \<Rightarrow> Some gv | Some rmc \<Rightarrow> lip_update_local M now (Some rmc) None gv
        }
        else Some (case gv of (g, v) \<Rightarrow> (g\<lparr>IsLocate := False\<rparr>, v))
      })))"

definition nmea_gga :: "bytes \<Rightarrow> gps_envar \<times> vam_envar \<Rightarrow> gps_envar \<times> vam_envar" where
  "nmea_gga b gv =
     (case gv of (g, v) \<Rightarrow>
        if IsLocate g \<and> \<not> Issend g then (g\<lparr>gga_sent := gga_sent g @ [b], Issend := True\<rparr>, v) else (g, v))"

definition nmea_parse ::
    "libm \<Rightarrow> u32 \<Rightarrow> bytes \<Rightarrow> nat \<Rightarrow> gps_envar \<times> vam_envar \<Rightarrow> (gps_envar \<times> vam_envar) option" where
  "nmea_parse M now buff len gv =
     (if length buff < 6 then None
      else case pack_type buff of None \<Rightarrow> Some gv
      | Some p \<Rightarrow>
          if len < 5 \<or> length buff < len then None
          else if \<not> crc_ok buff len then Some gv
          else (case p of
              GPS_PACK_GPRMC \<Rightarrow> nmea_rmc M now buff gv
            | GPS_PACK_GPGSA \<Rightarrow> nmea_gsa M now buff gv
            | GPS_PACK_GPGGA \<Rightarrow> Some (nmea_gga buff gv)))"

definition lip_gps_proc ::
    "libm \<Rightarrow> u32 \<Rightarrow> bytes \<Rightarrow> nat \<Rightarrow> gps_envar \<times> vam_envar \<Rightarrow> (gps_envar \<times> vam_envar) option" where
  "lip_gps_proc M now databuf len gv = nmea_parse M now databuf len gv"

section \<open>The checksum\<close>

lemma fold_xor_shift: "fold (\<lambda>x c. c XOR x) xs (a XOR d) = fold (\<lambda>x c. c XOR x) xs a XOR d" for d :: u8
proof (induction xs arbitrary: a)
  case (Cons x xs)
  have "(a XOR d) XOR x = (a XOR x) XOR d" by (simp add: ac_simps)
  then show ?case using Cons[of "a XOR x"] by simp
qed simp

lemma fold_xor_update:
  "i < length xs \<Longrightarrow> fold (\<lambda>x c. c XOR x) (xs[i := y]) a = fold (\<lambda>x c. c XOR x) xs a XOR (xs ! i XOR y)"
  for y :: u8
proof (induction xs arbitrary: i a)
  case (Cons x xs)
  show ?case
  proof (cases i)
    case 0
    have "a XOR y = (a XOR x) XOR (x XOR y)"
      by (simp add: xor.assoc xor.left_commute[of x])
    then show ?thesis using fold_xor_shift[of xs "a XOR x" "x XOR y"] by (simp add: 0)
  qed (use Cons in simp)
qed simp

lemma nmea_crc_update:
  assumes "1 \<le> i" "i < len - 5" "len \<le> length b"
  shows "nmea_crc (b[i := x]) len = nmea_crc b len XOR (b ! i XOR x)"
proof -
  have "drop 1 (take (len - 5) (b[i := x])) = (drop 1 (take (len - 5) b))[i - 1 := x]"
    using assms by (simp add: take_update_swap drop_update_swap)
  moreover have "i - 1 < length (drop 1 (take (len - 5) b))" using assms by auto
  moreover have "drop 1 (take (len - 5) b) ! (i - 1) = b ! i" using assms by simp
  ultimately show ?thesis by (simp add: nmea_crc_def fold_xor_update del: drop_update_swap)
qed

text \<open>A sentence in which one byte of the body was changed is ignored.\<close>

lemma crc_detects:
  assumes "crc_ok b len" "1 \<le> i" "i < len - 5" "len \<le> length b" "x \<noteq> b ! i"
  shows "\<not> crc_ok (b[i := x]) len"
proof
  assume "crc_ok (b[i := x]) len"
  then have "nmea_crc (b[i := x]) len = nmea_crc b len"
    using assms unfolding crc_ok_def by auto
  then have "nmea_crc b len XOR (nmea_crc b len XOR (b ! i XOR x)) = nmea_crc b len XOR nmea_crc b len"
    by (simp add: nmea_crc_update[OF assms(2,3,4)])
  then have "b ! i XOR x = 0" by (simp flip: xor.assoc)
  then have "b ! i XOR (b ! i XOR x) = b ! i" by simp
  then show False using assms(5) by (simp flip: xor.assoc)
qed

lemma nmea_parse_corrupted:
  assumes "crc_ok b len" "1 \<le> i" "i < len - 5" "len \<le> length b" "x \<noteq> b ! i" "6 \<le> length b"
  shows "nmea_parse M now (b[i := x]) len gv = Some gv"
  using crc_detects[OF assms(1-5)] assms(2,3,4,6)
  by (auto simp: nmea_parse_def split: option.split)

section \<open>What a sentence leaves alone\<close>

text \<open>\<open>same_table v w\<close>: the station table, the configuration and the message queue are those
  of \<open>v\<close>.\<close>

definition same_table :: "vam_envar \<Rightarrow> vam_envar \<Rightarrow> bool" where
  "same_table v w \<longleftrightarrow> links w = links v \<and> remote w = remote v \<and> neighbour_cnt w = neighbour_cnt v
     \<and> working_param w = working_param v \<and> queue_vam w = queue_vam v"

lemma same_table_refl [simp]: "same_table v v"
  by (simp add: same_table_def)

lemma same_table_trans: "same_table u v \<Longrightarrow> same_table v w \<Longrightarrow> same_table u w"
  by (simp add: same_table_def)

lemma same_table_call [simp]: "same_table v (call_evt e a w) = same_table v w"
  by (simp add: same_table_def call_evt_def split: option.split)

lemma same_table_updates [simp]:
  "same_table v (w\<lparr>local := s\<rparr>) = same_table v w"
  "same_table v (w\<lparr>flag := f\<rparr>) = same_table v w"
  "same_table v (w\<lparr>timer_gps_life := t\<rparr>) = same_table v w"
  by (simp_all add: same_table_def)

lemma same_table_timer:
  "vsm_update_bsm_bcast_timer w = Some u \<Longrightarrow> same_table v u = same_table v w"
  by (simp add: same_table_def vsm_update_bsm_bcast_timer_frame)

lemma lip_update_rmc_table:
  assumes "lip_update_rmc M now r (g, v) = Some (g', v')"
  shows "same_table v v'" "IsLocate g' = IsLocate g"
proof -
  define w where "w = v\<lparr>local := (if \<not> getGps g then take_rmc now r (local v)
                          else if lip_rmc_valid_check r now \<noteq> 0 then take_rmc now r (local v)
                          else vsm_get_dr_current M now (local v))\<rparr>"
  define W where "W = (if \<not> fl_eq (s_speed (local v)) (s_speed (local w)) then vsm_update_bsm_bcast_timer w else Some w)"
  from assms obtain u where u: "W = Some u"
    unfolding lip_update_rmc_def Let_def case_prod_conv W_def[symmetric] w_def[symmetric]
    by (auto split: bind_splits)
  have "same_table v w" by (simp add: w_def)
  then have st: "same_table v u"
    using u same_table_timer[of w u v] by (auto simp: W_def split: if_splits)
  with assms u show "same_table v v'" "IsLocate g' = IsLocate g"
    unfolding lip_update_rmc_def Let_def case_prod_conv W_def[symmetric] w_def[symmetric]
    by (auto split: if_splits)
qed

text \<open>The three kinds of sentences, seen from the state: a position sentence goes through
  \<open>lip_update_rmc\<close>, a satellite sentence changes the accuracy and the location flag only.\<close>

lemma nmea_rmc_cases:
  assumes "nmea_rmc M now b (g, v) = Some (g', v')"
  obtains (same) "g' = g" "v' = v" | (lost) "g' = g\<lparr>IsLocate := False\<rparr>" "v' = v"
    | (rmc) r where "rmc_fields b = Some (Some r)" "lip_update_rmc M now r (g, v) = Some (g', v')"
      "IsLocate g"
  using assms
  by (auto simp: nmea_rmc_def at_comma_def lip_update_local_def
      split: if_splits option.splits bind_splits prod.splits)

lemma nmea_gsa_cases:
  assumes "nmea_gsa M now b (g, v) = Some (g', v')"
  obtains (same) "g' = g" "v' = v" | (lost) "g' = g\<lparr>IsLocate := False\<rparr>" "v' = v"
    | (accu) a where "\<not> fl_lt (int_f 49) a" "g' = g\<lparr>IsLocate := True\<rparr>" "v' = lip_update_accu a v"
  using assms
  by (auto simp: nmea_gsa_def lip_update_local_def Let_def
      split: if_splits gsa_result.splits bind_splits)

lemma nmea_parse_cases:
  assumes "nmea_parse M now b len (g, v) = Some (g', v')"
  obtains (same) "g' = g" "v' = v"
    | (rmc) "nmea_rmc M now b (g, v) = Some (g', v')"
    | (gsa) "nmea_gsa M now b (g, v) = Some (g', v')"
    | (gga) "v' = v" "IsLocate g' = IsLocate g"
  using assms
  by (auto simp: nmea_parse_def nmea_gga_def
      split: if_splits option.splits e_nmea_type.splits)

lemma nmea_parse_table:
  assumes "nmea_parse M now b len (g, v) = Some (g', v')"
  shows "same_table v v'"
  using assms
proof (cases rule: nmea_parse_cases)
  case rmc
  then show ?thesis
    by (cases rule: nmea_rmc_cases) (auto simp: lip_update_rmc_table)
next
  case gsa
  then show ?thesis
    by (cases rule: nmea_gsa_cases) (auto simp: lip_update_accu_def)
qed simp_all

text \<open>Without a fix no sentence moves the station: position, speed, heading and time stay, and
  only a satellite sentence that establishes the fix writes the accuracy.\<close>

lemma nmea_parse_no_fix:
  assumes "nmea_parse M now b len (g, v) = Some (g', v')" "\<not> IsLocate g"
  shows "v' = v \<or> (IsLocate g' \<and> (\<exists>a. \<not> fl_lt (int_f 49) a \<and> v' = lip_update_accu a v))"
  using assms(1)
proof (cases rule: nmea_parse_cases)
  case rmc
  then show ?thesis using assms(2) by (cases rule: nmea_rmc_cases) auto
next
  case gsa
  then show ?thesis by (cases rule: nmea_gsa_cases) auto
qed simp_all

section \<open>Reading well formed sentences\<close>

definition plain :: "bytes \<Rightarrow> bool" where
  "plain f \<longleftrightarrow> (\<forall>c \<in> set f. c \<noteq> 0 \<and> c \<noteq> comma)"

lemma strchr_list_field:
  "plain f \<Longrightarrow> strchr_list comma (f @ comma # r) i = Some (Some (i + length f))"
  by (induction f arbitrary: i) (auto simp: plain_def)

lemma strchr_field:
  assumes "drop i b = f @ comma # r" "plain f"
  shows "strchr b i comma = Some (Some (i + length f))" "drop (i + length f + 1) b = r"
proof -
  show "strchr b i comma = Some (Some (i + length f))"
    using strchr_list_field[OF assms(2), of r i] by (simp add: strchr_def assms(1))
  have "drop (i + length f + 1) b = drop (length f + 1) (drop i b)"
    by (simp add: add.commute)
  then show "drop (i + length f + 1) b = r" by (simp add: assms(1))
qed

lemma rd_drop: "drop i b = c # r \<Longrightarrow> rd b i = Some c"
  unfolding rd_def by (metis drop_all list.distinct(1) list.sel(1) hd_drop_conv_nth not_le)

lemma rd_n_drop:
  assumes "drop i b = x @ r" "length x = n" "0 < n"
  shows "rd_n b i n = Some x"
proof -
  have "length b - i = length x + length r" using arg_cong[OF assms(1), of length] by simp
  then have "i + n \<le> length b" using assms(2,3) by linarith
  then show ?thesis using assms by (simp add: rd_n_def)
qed

text \<open>Digits followed by a zero byte are the number they spell.\<close>

definition digits :: "bytes \<Rightarrow> bool" where "digits ds \<longleftrightarrow> (\<forall>c \<in> set ds. c_isdigit c)"

lemma digit_not [simp]: "c_isdigit c \<Longrightarrow> c \<noteq> 0 \<and> \<not> c_isspace c \<and> c \<noteq> 45 \<and> c \<noteq> 43 \<and> c \<noteq> 46 \<and> c \<noteq> comma
    \<and> c_lower c = c \<and> c \<noteq> 120"
  by (auto simp: c_isdigit_def c_isspace_def c_lower_def word_le_nat_alt)

lemma digits_plain: "digits ds \<Longrightarrow> plain ds"
  by (auto simp: digits_def plain_def)

lemma digits_no: "digits ds \<Longrightarrow> 0 \<notin> set ds" "digits ds \<Longrightarrow> comma \<notin> set ds"
  by (auto simp: digits_def c_isdigit_def word_le_nat_alt dest!: bspec)

lemma digits_append [simp]: "digits (xs @ ys) \<longleftrightarrow> digits xs \<and> digits ys"
  by (auto simp: digits_def)

lemma takeWhile_digits: "digits ds \<Longrightarrow> \<not> c_isdigit c \<Longrightarrow> takeWhile c_isdigit (ds @ c # r) = ds"
  "digits ds \<Longrightarrow> takeWhile c_isdigit ds = ds"
  "digits ds \<Longrightarrow> \<not> c_isdigit c \<Longrightarrow> dropWhile c_isdigit (ds @ c # r) = c # r"
  "digits ds \<Longrightarrow> dropWhile c_isdigit ds = []"
  by (auto simp: digits_def takeWhile_append2 dropWhile_append3 takeWhile_eq_all_conv dropWhile_eq_Nil_conv)

lemma c_string_plain:
  assumes "\<forall>c \<in> set s. c \<noteq> 0" "s \<noteq> [] \<longrightarrow> \<not> c_isspace (hd s)" "0 < n"
  shows "c_string (s @ replicate n 0) = s"
proof -
  have "takeWhile (\<lambda>c. c \<noteq> 0) (s @ replicate n 0) = s"
    using assms(1,3) by (cases n) (simp_all add: takeWhile_append2)
  then show ?thesis using assms(2) by (cases s) (auto simp: c_string_def)
qed

lemma num_val_nonneg: "digits ds \<Longrightarrow> 0 \<le> num_val 10 ds \<and> num_val 10 ds < 10 ^ length ds"
proof (induction ds rule: rev_induct)
  case (snoc c ds)
  then have "0 \<le> digit_val c \<and> digit_val c \<le> 9"
    by (auto simp: digits_def digit_val_def c_isdigit_def word_le_def)
  with snoc show ?case by (auto simp: num_val_def)
qed (simp add: num_val_def)

lemma sign_of_digit: "digits (take 1 s) \<Longrightarrow> sign_of s = (False, s)"
  by (cases s) (auto simp: sign_of_def digits_def)

lemma c_atoi_digits:
  assumes "digits ds" "0 < n" "length ds \<le> 9"
  shows "c_atoi (ds @ replicate n 0) = Some (num_val 10 ds)"
proof -
  have "c_string (ds @ replicate n 0) = ds"
    using assms(1,2) by (intro c_string_plain) (auto simp: digits_def)
  moreover have "sign_of ds = (False, ds)"
    using assms(1) by (intro sign_of_digit) (auto simp: digits_def dest: in_set_takeD)
  moreover have "num_val 10 ds < 10 ^ 9"
    using num_val_nonneg[OF assms(1)] power_increasing[of "length ds" 9 "10::int"] assms(3) by simp
  ultimately show ?thesis
    using assms num_val_nonneg[OF assms(1)] by (simp add: c_atoi_def takeWhile_digits)
qed

definition decimal :: "bytes \<Rightarrow> bytes \<Rightarrow> fl" where
  "decimal ip fp = to_fl Double (of_int (num_val 10 (ip @ fp)) / 10 ^ length fp)"

text \<open>A decimal fraction is converted to the nearest double.\<close>

lemma c_atof_decimal:
  assumes "digits ip" "ip \<noteq> []" "digits fp" "0 < n"
  shows "c_atof (ip @ 46 # fp @ replicate n 0) = Some (decimal ip fp)"
proof -
  let ?s = "ip @ 46 # fp"
  obtain c cs where ip: "ip = c # cs" using assms(2) by (cases ip) auto
  have c: "c_isdigit c" using assms(1) by (simp add: ip digits_def)
  have str: "c_string (?s @ replicate n 0) = ?s"
    using assms c digits_no[OF assms(1)] digits_no[OF assms(3)]
    by (intro c_string_plain) (auto simp: ip)
  have sg: "sign_of ?s = (False, ?s)"
    using c by (intro sign_of_digit) (simp add: digits_def ip)
  have low: "map c_lower ?s = ?s"
  proof -
    have "map c_lower ds = ds" if "digits ds" for ds
      using that by (intro map_idI) (auto simp: digits_def)
    then show ?thesis using assms(1,3) by (simp add: c_lower_def)
  qed
  have c_not: "c \<noteq> 105" "c \<noteq> 110"
    using c by (auto simp: c_isdigit_def word_le_def)
  have hex: "take 2 ?s \<noteq> [48, 120]"
    using assms(1) by (cases cs) (auto simp: ip digits_def)
  have sig: "significand 10 c_isdigit ?s = Some (of_int (num_val 10 (ip @ fp)) / 10 ^ length fp, [])"
    using assms c by (simp add: significand_def takeWhile_digits c_isdigit_def[of 46] Let_def)
  have "take 3 ?s \<noteq> [105, 110, 102]" "take 3 ?s \<noteq> [110, 97, 110]"
    using c_not by (auto simp: ip)
  moreover have "0 \<in> set (?s @ replicate n 0)" using assms(4) by simp
  ultimately have "c_atof (?s @ replicate n 0) = Some (decimal ip fp)"
    unfolding c_atof_def str using sg low hex sig
    by (simp add: decimal_def exponent_def rat_pow_def del: take_append map_append append_assoc
        append.append_Cons set_append)
  then show ?thesis by simp
qed

lemma tmp_buff_Some: "length s \<le> n \<Longrightarrow> tmp_buff n s = Some (s @ replicate (n - length s) 0)"
  by (simp add: tmp_buff_def)

lemma atoi_at_digits:
  assumes "drop i b = ds @ r" "digits ds" "length ds = n" "0 < n" "n \<le> 4"
  shows "atoi_at b i n = Some (num_val 10 ds)"
  using assms by (simp add: atoi_at_def rd_n_drop tmp_buff_Some c_atoi_digits)

text \<open>Numbers with a fraction, as the receiver writes them.\<close>

definition frac :: "bytes \<Rightarrow> bytes \<Rightarrow> bytes" where "frac ip fp = ip @ 46 # fp"

lemma frac_plain: "digits ip \<Longrightarrow> digits fp \<Longrightarrow> plain (frac ip fp)"
  using digits_no[of ip] digits_no[of fp] by (auto simp: frac_def plain_def)

lemma atof_field_frac:
  assumes "drop s b = frac ip fp @ r" "digits ip" "ip \<noteq> []" "digits fp" "length (frac ip fp) < n"
  shows "atof_field n b s (s + length (frac ip fp)) = Some (decimal ip fp)"
proof -
  have "rd_n b s (length (frac ip fp)) = Some (frac ip fp)"
    using assms(1) by (intro rd_n_drop) (simp_all add: frac_def)
  then show ?thesis
    using assms(2-5) c_atof_decimal[of ip fp "n - length (frac ip fp)"]
    by (simp add: atof_field_def tmp_buff_Some) (simp add: frac_def)
qed

lemma scan_number_field:
  assumes "drop i b = f @ comma # r" "\<forall>c \<in> set f. c_isdigit c \<or> c = 46" "length f \<le> n"
  shows "scan_number b i n = Some f"
  using assms
proof (induction n arbitrary: i f)
  case (Suc n)
  show ?case
  proof (cases f)
    case Nil
    then show ?thesis using Suc.prems by (simp add: rd_drop c_isdigit_def)
  next
    case (Cons c f')
    have "drop (i + 1) b = f' @ comma # r"
      using Suc.prems(1) by (simp add: Cons drop_Suc flip: drop_tl tl_drop)
    then have "scan_number b (i + 1) n = Some f'"
      using Suc.prems by (intro Suc.IH) (auto simp: Cons)
    then show ?thesis using Suc.prems by (simp add: Cons rd_drop)
  qed
qed simp

lemma angle_field:
  assumes "drop s b = ds @ frac ip fp @ comma # r" "digits ds" "length ds = deg" "0 < deg" "deg \<le> 9"
    "digits ip" "ip \<noteq> []" "digits fp" "length (frac ip fp) \<le> 8"
    "rd b (e + 1) = Some h" "h = p \<or> h = n \<or> rd b (s + deg + 2) = Some 46"
  shows "nmea_rmc_angle deg p n b s e = Some (Some
    (let a = fl_cast Single (fl_add Double (fl_of_int Single (num_val 10 ds)) (fl_div Double (decimal ip fp) (Fin 60)))
     in if h = n then fl_mul Single a (Fin (-1)) else a))"
proof -
  have ds: "rd_n b s deg = Some ds" using assms(1,3,4) by (intro rd_n_drop) simp_all
  have "drop (s + deg) b = frac ip fp @ comma # r"
    using assms(1,3) by (simp add: add.commute flip: drop_drop)
  then have sc: "scan_number b (s + deg) 8 = Some (frac ip fp)"
    using assms(6,8,9) by (intro scan_number_field) (auto simp: frac_def digits_def)
  have "c_atof (frac ip fp @ replicate (15 - length (frac ip fp)) 0) = Some (decimal ip fp)"
    using c_atof_decimal[OF assms(6,7,8), of "15 - length (frac ip fp)"] assms(9)
    by (simp add: frac_def)
  then show ?thesis
    using assms(2-5,9-11) ds sc
    by (auto simp: nmea_rmc_angle_def tmp_buff_Some c_atoi_digits Let_def)
qed

definition rmc_line ::
    "bytes \<Rightarrow> bytes \<Rightarrow> bytes \<Rightarrow> bytes \<Rightarrow> bytes \<Rightarrow> bytes \<Rightarrow> bytes \<Rightarrow> u8 \<Rightarrow> bytes \<Rightarrow> bytes \<Rightarrow> bytes \<Rightarrow> u8
      \<Rightarrow> bytes \<Rightarrow> bytes \<Rightarrow> bytes \<Rightarrow> bytes \<Rightarrow> bytes \<Rightarrow> bytes \<Rightarrow> bytes \<Rightarrow> bytes \<Rightarrow> bytes" where
  "rmc_line hh mi ss ms lad lai laf ns lod loi lof ew spi spf hdi hdf dd mo yy rest =
     [36, 71, 80, 82, 77, 67] @ comma # (hh @ mi @ ss @ 46 # ms) @ comma # [65]
     @ comma # (lad @ frac lai laf) @ comma # [ns] @ comma # (lod @ frac loi lof) @ comma # [ew]
     @ comma # frac spi spf @ comma # frac hdi hdf @ comma # (dd @ mo @ yy) @ comma # rest"

definition angle_fl :: "bytes \<Rightarrow> bytes \<Rightarrow> bytes \<Rightarrow> bool \<Rightarrow> fl" where
  "angle_fl ds ip fp south =
     (let a = fl_cast Single (fl_add Double (fl_of_int Single (num_val 10 ds)) (fl_div Double (decimal ip fp) (Fin 60)))
      in if south then fl_mul Single a (Fin (-1)) else a)"

lemma plainI: "0 \<notin> set f \<Longrightarrow> comma \<notin> set f \<Longrightarrow> plain f"
  by (auto simp: plain_def)

lemma drop_field: "drop s b = x @ r \<Longrightarrow> drop (s + length x) b = r"
  by (metis add.commute append_eq_conv_conj drop_drop)

lemma date_fields:
  assumes "drop s b = (dd @ mo @ yy) @ r" "digits dd" "digits mo" "digits yy"
    "length dd = 2" "length mo = 2" "length yy = 2"
  shows "nmea_rmc_date b s tt = Some (tt\<lparr>t_day := word_of_int (num_val 10 dd),
    t_mon := word_of_int (num_val 10 mo), t_year := word_of_int (num_val 10 yy) + 2000\<rparr>)"
proof -
  have "drop (s + 2) b = mo @ yy @ r" "drop (s + 4) b = yy @ r"
    using drop_field[of s b dd] drop_field[of s b "dd @ mo"] assms(1,5,6) by simp_all
  then have "atoi_at b s 2 = Some (num_val 10 dd)" "atoi_at b (s + 2) 2 = Some (num_val 10 mo)"
    "atoi_at b (s + 4) 2 = Some (num_val 10 yy)"
    using assms by (auto intro!: atoi_at_digits)
  then show ?thesis by (simp add: nmea_rmc_date_def)
qed

lemma time_fields:
  assumes "drop s b = (hh @ mi @ ss @ 46 # ms) @ r" "digits hh" "digits mi" "digits ss" "digits ms"
    "length hh = 2" "length mi = 2" "length ss = 2" "length ms = 3"
  shows "nmea_rmc_time b s tt = Some (tt\<lparr>t_hour := word_of_int (num_val 10 hh),
    t_min := word_of_int (num_val 10 mi), t_sec := word_of_int (num_val 10 ss),
    t_diffsec := word_of_int (num_val 10 ms)\<rparr>)"
proof -
  have "drop (s + 2) b = mi @ ss @ 46 # ms @ r" "drop (s + 4) b = ss @ 46 # ms @ r"
    "drop (s + 7) b = ms @ r"
    using drop_field[of s b hh] drop_field[of s b "hh @ mi"] drop_field[of s b "hh @ mi @ ss @ [46]"]
      assms(1,6-8) by simp_all
  then have "atoi_at b s 2 = Some (num_val 10 hh)" "atoi_at b (s + 2) 2 = Some (num_val 10 mi)"
    "atoi_at b (s + 4) 2 = Some (num_val 10 ss)" "atoi_at b (s + 7) 3 = Some (num_val 10 ms)"
    using assms by (auto intro!: atoi_at_digits)
  then show ?thesis by (simp add: nmea_rmc_time_def)
qed

lemma rmc_fields_line:
  fixes rest :: bytes
  assumes t: "digits hh" "digits mi" "digits ss" "digits ms"
      "length hh = 2" "length mi = 2" "length ss = 2" "length ms = 3"
    and la: "digits lad" "length lad = 2" "digits lai" "lai \<noteq> []" "digits laf" "length (frac lai laf) \<le> 8"
      "ns = 78 \<or> ns = 83"
    and lo: "digits lod" "length lod = 3" "digits loi" "loi \<noteq> []" "digits lof" "length (frac loi lof) \<le> 8"
      "ew = 69 \<or> ew = 87"
    and sp: "digits spi" "spi \<noteq> []" "digits spf" "length (frac spi spf) < 10"
    and hd: "digits hdi" "hdi \<noteq> []" "digits hdf" "length (frac hdi hdf) < 10"
    and da: "digits dd" "digits mo" "digits yy" "length dd = 2" "length mo = 2" "length yy = 2"
  defines "b \<equiv> rmc_line hh mi ss ms lad lai laf ns lod loi lof ew spi spf hdi hdf dd mo yy rest"
  shows "rmc_fields b = Some (Some \<lparr>g_isTrue = 1,
    g_speed = fl_cast Single (fl_mul Double (decimal spi spf) KNOT),
    g_latitude = angle_fl lad lai laf (ns = 83), g_longitude = angle_fl lod loi lof (ew = 87),
    g_heading = fl_cast Single (decimal hdi hdf),
    g_tt = \<lparr>t_year = word_of_int (num_val 10 yy) + 2000, t_mon = word_of_int (num_val 10 mo),
            t_day = word_of_int (num_val 10 dd), t_hour = word_of_int (num_val 10 hh),
            t_min = word_of_int (num_val 10 mi), t_sec = word_of_int (num_val 10 ss),
            t_diffsec = word_of_int (num_val 10 ms)\<rparr>\<rparr>)"
    (is "_ = Some (Some ?r)")
proof -
  note no = digits_no
  have pt: "plain (hh @ mi @ ss @ 46 # ms)" "plain (lad @ frac lai laf)" "plain [ns]"
    "plain (lod @ frac loi lof)" "plain [ew]" "plain (frac spi spf)" "plain (frac hdi hdf)"
    "plain (dd @ mo @ yy)" "plain [65]" "plain [36, 71, 80, 82, 77, 67]"
    using t la lo sp hd da no[of hh] no[of mi] no[of ss] no[of ms] no[of lad] no[of lai] no[of laf]
      no[of lod] no[of loi] no[of lof] no[of dd] no[of mo] no[of yy]
    by (auto intro!: plainI frac_plain simp: frac_def digits_no)
  have d0: "drop 0 b = [36, 71, 80, 82, 77, 67] @ comma # (hh @ mi @ ss @ 46 # ms) @ comma # [65]
     @ comma # (lad @ frac lai laf) @ comma # [ns] @ comma # (lod @ frac loi lof) @ comma # [ew]
     @ comma # frac spi spf @ comma # frac hdi hdf @ comma # (dd @ mo @ yy) @ comma # rest"
    by (simp add: b_def rmc_line_def)
  note s0 = strchr_field[OF d0 pt(10)]
  define e0 where "e0 = 0 + length [36::u8, 71, 80, 82, 77, 67]"
  note s0 = s0[folded e0_def]
  note s1 = strchr_field[OF s0(2) pt(1)]
  define e1 where "e1 = e0 + 1 + length (hh @ mi @ ss @ 46 # ms)"
  note s1 = s1[folded e1_def]
  note s2 = strchr_field[OF s1(2) pt(9)]
  define e2 where "e2 = e1 + 1 + length [65::u8]"
  note s2 = s2[folded e2_def]
  note s3 = strchr_field[OF s2(2) pt(2)]
  define e3 where "e3 = e2 + 1 + length (lad @ frac lai laf)"
  note s3 = s3[folded e3_def]
  note s4 = strchr_field[OF s3(2) pt(3)]
  define e4 where "e4 = e3 + 1 + length [ns]"
  note s4 = s4[folded e4_def]
  note s5 = strchr_field[OF s4(2) pt(4)]
  define e5 where "e5 = e4 + 1 + length (lod @ frac loi lof)"
  note s5 = s5[folded e5_def]
  note s6 = strchr_field[OF s5(2) pt(5)]
  define e6 where "e6 = e5 + 1 + length [ew]"
  note s6 = s6[folded e6_def]
  note s7 = strchr_field[OF s6(2) pt(6)]
  define e7 where "e7 = e6 + 1 + length (frac spi spf)"
  note s7 = s7[folded e7_def]
  note s8 = strchr_field[OF s7(2) pt(7)]
  define e8 where "e8 = e7 + 1 + length (frac hdi hdf)"
  note s8 = s8[folded e8_def]
  note s9 = strchr_field[OF s8(2) pt(8)]
  define e9 where "e9 = e8 + 1 + length (dd @ mo @ yy)"
  note s9 = s9[folded e9_def]
  note time = time_fields[OF s0(2) t]
  have lat: "nmea_rmc_lat b (e2 + 1) e3 = Some (Some (angle_fl lad lai laf (ns = 83)))"
    using s2(2) la s3(2)
    unfolding nmea_rmc_lat_def angle_fl_def by (intro angle_field) (auto intro: rd_drop)
  have lon: "nmea_rmc_lon b (e4 + 1) e5 = Some (Some (angle_fl lod loi lof (ew = 87)))"
    using s4(2) lo s5(2)
    unfolding nmea_rmc_lon_def angle_fl_def by (intro angle_field) (auto intro: rd_drop)
  have speed: "atof_field 10 b (e6 + 1) e7 = Some (decimal spi spf)"
    unfolding e7_def using s6(2) sp by (intro atof_field_frac) auto
  have heading: "atof_field 10 b (e7 + 1) e8 = Some (decimal hdi hdf)"
    unfolding e8_def using s7(2) hd by (intro atof_field_frac) auto
  note date = date_fields[OF s8(2) da]
  show ?thesis
    unfolding rmc_fields_def at_comma_def Let_def
    by (simp only: s0(1) s1(1) s2(1) s3(1) s4(1) s5(1) s6(1) s7(1) s8(1) s9(1)
        option.case bind.bind_lunit time lat lon speed heading date) (simp add: junk_time_def)
qed

section \<open>Properties\<close>

text \<open>C35. A well formed position sentence is read correctly: time, date, latitude, longitude, speed
  and heading are the numbers its fields spell, with degrees and minutes combined, southern and
  western coordinates negative and knots converted.\<close>

theorem rmc_sentence_read:
  fixes rest :: bytes
  assumes "digits hh" "digits mi" "digits ss" "digits ms"
      "length hh = 2" "length mi = 2" "length ss = 2" "length ms = 3"
    and "digits lad" "length lad = 2" "digits lai" "lai \<noteq> []" "digits laf" "length (frac lai laf) \<le> 8"
      "ns = 78 \<or> ns = 83"
    and "digits lod" "length lod = 3" "digits loi" "loi \<noteq> []" "digits lof" "length (frac loi lof) \<le> 8"
      "ew = 69 \<or> ew = 87"
    and "digits spi" "spi \<noteq> []" "digits spf" "length (frac spi spf) < 10"
    and "digits hdi" "hdi \<noteq> []" "digits hdf" "length (frac hdi hdf) < 10"
    and "digits dd" "digits mo" "digits yy" "length dd = 2" "length mo = 2" "length yy = 2"
  shows "rmc_fields (rmc_line hh mi ss ms lad lai laf ns lod loi lof ew spi spf hdi hdf dd mo yy rest)
    = Some (Some \<lparr>g_isTrue = 1,
        g_speed = fl_cast Single (fl_mul Double (decimal spi spf) KNOT),
        g_latitude = angle_fl lad lai laf (ns = 83), g_longitude = angle_fl lod loi lof (ew = 87),
        g_heading = fl_cast Single (decimal hdi hdf),
        g_tt = \<lparr>t_year = word_of_int (num_val 10 yy) + 2000, t_mon = word_of_int (num_val 10 mo),
                t_day = word_of_int (num_val 10 dd), t_hour = word_of_int (num_val 10 hh),
                t_min = word_of_int (num_val 10 mi), t_sec = word_of_int (num_val 10 ss),
                t_diffsec = word_of_int (num_val 10 ms)\<rparr>\<rparr>)"
  by (rule rmc_fields_line[OF assms])

text \<open>The sentence of a station at 39 degrees 54.2 minutes north, 116 degrees 23.5 minutes east.\<close>

theorem rmc_sentence_read_witness:
  "\<exists>r. rmc_fields (rmc_line [49, 50] [51, 48] [48, 53] [48, 48, 48] [51, 57] [53, 52] [50] 78
      [49, 49, 54] [50, 51] [53] 69 [49, 48] [48] [57, 48] [48] [48, 49] [49, 50] [49, 55] [0])
    = Some (Some r) \<and> t_hour (g_tt r) = 12 \<and> t_day (g_tt r) = 1 \<and> t_year (g_tt r) = 2017"
  by (subst rmc_sentence_read)
    (simp_all add: digits_def c_isdigit_def frac_def num_val_def digit_val_def)

text \<open>C36. A sentence with one corrupted byte between the dollar sign and the checksum is ignored: the
  parser returns and neither the positioning state nor the vehicle state changes.\<close>

theorem corrupted_sentence_ignored:
  assumes "crc_ok b len" "1 \<le> i" "i < len - 5" "len \<le> length b" "x \<noteq> b ! i" "6 \<le> length b"
  shows "nmea_parse M now (b[i := x]) len gv = Some gv"
  by (rule nmea_parse_corrupted[OF assms])

theorem corrupted_sentence_ignored_witness:
  "\<forall>M now gv. nmea_parse M now ([36, 71, 80, 71, 71, 65, 44, 49, 44, 42, 54, 55, 13, 10][7 := 50]) 14 gv = Some gv"
  by (intro allI, rule corrupted_sentence_ignored)
    (simp_all add: crc_ok_def crc_digits_def c_isdigit_def nmea_crc_def)

text \<open>Without a fix no sentence moves the station: the vehicle state does not change, except that a
  satellite sentence whose precision is not worse than 49 establishes the fix and stores it.\<close>

theorem no_fix_no_position:
  assumes "nmea_parse M now b len (g, v) = Some (g', v')" "\<not> IsLocate g"
  shows "v' = v \<or> (IsLocate g' \<and> (\<exists>a. \<not> fl_lt (int_f 49) a \<and> v' = lip_update_accu a v))"
  by (rule nmea_parse_no_fix[OF assms])

text \<open>The hemisphere letter is not checked: with two digits of whole minutes any letter after the
  latitude is accepted, and every letter other than S is taken as north. The test of the code
  joins its three conditions with a conjunction, so the decimal point alone satisfies it.\<close>

theorem hemisphere_not_checked:
  assumes "drop s b = ds @ frac ip fp @ comma # r" "digits ds" "length ds = 2"
    "digits ip" "length ip = 2" "digits fp" "length fp \<le> 5" "rd b (e + 1) = Some h"
  shows "nmea_rmc_lat b s e = Some (Some (angle_fl ds ip fp (h = 83)))"
proof -
  have "drop (s + length (ds @ ip)) b = 46 # fp @ comma # r"
    using assms(1) by (intro drop_field) (simp add: frac_def)
  then have "rd b (s + 2 + 2) = Some 46"
    using assms(3,5) rd_drop[of "s + 4" b 46] by (simp add: eval_nat_numeral)
  then show ?thesis
    unfolding nmea_rmc_lat_def angle_fl_def
    using assms by (intro angle_field) (auto simp: frac_def)
qed

text \<open>39 degrees 54.2 minutes, hemisphere X.\<close>

theorem hemisphere_not_checked_witness:
  "nmea_rmc_lat [51, 57, 53, 52, 46, 50, 44, 88, 44] 0 6
    = Some (Some (angle_fl [51, 57] [53, 52] [50] False))"
  by (subst hemisphere_not_checked[where ds = "[51, 57]" and ip = "[53, 52]" and fp = "[50]" and h = 88])
    (simp_all add: digits_def c_isdigit_def frac_def rd_def)

end
