(* ===== verification/VamMain.thy ===== *)
theory VamMain
  imports Rcp Lip
begin

text \<open>
  \<open>app/vam/cv_vam_main.c\<close>: what the VAM task does with each message of its queue, how it is
  initialised and taken down. The state is the global structure together with the variables
  of the positioning input.

  The sections after the code show what holds in every run: the station table, the timers and
  the queue stay well formed whatever messages arrive.
\<close>

section \<open>The task\<close>

record vam_task =
  vt_cms :: cms
  vt_gps :: gps_envar

definition vt_vam :: "(vam_envar \<Rightarrow> vam_envar) \<Rightarrow> vam_task \<Rightarrow> vam_task" where
  "vt_vam f s = s\<lparr>vt_cms := upd_vam f (vt_cms s)\<rparr>"

definition vt_send :: "(int \<times> cms) option \<Rightarrow> vam_task \<Rightarrow> vam_task option" where
  "vt_send r s = map_option (\<lambda>(_, c). s\<lparr>vt_cms := c\<rparr>) r"

definition vam_main_proc :: "libm \<Rightarrow> vam_ptr sys_msg \<Rightarrow> vam_task \<Rightarrow> vam_task option" where
  "vam_main_proc M p_msg s =
     (let v = g_vam (vt_cms s) in
      if m_id p_msg = VAM_MSG_START then
        let v = v\<lparr>flag := set_flag (flag v) VAM_FLAG_RX,
                  timer_neighbour_life := snd (osal_timer_start (timer_neighbour_life v))\<rparr>
        in do {
          v \<leftarrow> (if bsm_boardcast_mode (working_param v) \<noteq> BSM_BC_MODE_DISABLE
                then vsm_start_bsm_broadcast (v\<lparr>flag := set_flag (flag v) VAM_FLAG_TX_BSM\<rparr>)
                else Some v);
          Some (vt_vam (\<lambda>_. v) s)
        }
      else if m_id p_msg = VAM_MSG_STOP then
        let v = (if has_flag (flag v) VAM_FLAG_TX_BSM then vsm_stop_bsm_broadcast v else v);
            v = v\<lparr>flag := clear_flag (flag v) (VAM_FLAG_RX OR VAM_FLAG_TX_BSM),
                  timer_neighbour_life := snd (osal_timer_stop (timer_neighbour_life v))\<rparr>
        in Some (vt_vam (\<lambda>_. v) s)
      else if m_id p_msg = VAM_MSG_RCPTX then
        do {
          s \<leftarrow> (if m_argc p_msg = RCP_MSG_ID_BSM then vt_send (rcp_send_bsm M (vt_cms s)) s else Some s);
          s \<leftarrow> (if m_argc p_msg = RCP_MSG_ID_EVAM then vt_send (rcp_send_evam M (vt_cms s)) s else Some s);
          if m_argc p_msg = RCP_MSG_ID_RSA then vt_send (rcp_send_rsa (vt_cms s)) s else Some s
        }
      else if m_id p_msg = VAM_MSG_RCPRX then
        (case m_argv p_msg of
           VRx rxinfo databuf \<Rightarrow> vt_send (rcp_parse_msg M databuf (unat (m_len p_msg)) (vt_cms s)) s
         | _ \<Rightarrow> None)
      else if m_id p_msg = VAM_MSG_NEIGH_TIMEOUT then
        do { v \<leftarrow> vam_update_sta v; Some (vt_vam (\<lambda>_. v) s) }
      else if m_id p_msg = VAM_MSG_GPSDATA then
        (case m_argv p_msg of
           VGps databuf \<Rightarrow>
             do {
               (g, v) \<leftarrow> lip_gps_proc M (systime (vt_cms s)) databuf (unat (m_len p_msg)) (vt_gps s, v);
               Some (vt_vam (\<lambda>_. v) (s\<lparr>vt_gps := g\<rparr>))
             }
         | _ \<Rightarrow> None)
      else Some s)"

text \<open>One round of the loop of \<open>vam_thread_entry\<close>; with an empty queue the task waits.\<close>

definition vam_thread_step :: "libm \<Rightarrow> vam_task \<Rightarrow> vam_task option" where
  "vam_thread_step M s =
     (case osal_queue_recv (queue_vam (g_vam (vt_cms s))) of
        None \<Rightarrow> Some s
      | Some (p_msg, q) \<Rightarrow> vam_main_proc M p_msg (vt_vam (\<lambda>v. v\<lparr>queue_vam := q\<rparr>) s))"

definition vam_add_event_queue_2 :: "vam_envar \<Rightarrow> vam_ptr sys_msg \<Rightarrow> int \<times> vam_envar" where
  "vam_add_event_queue_2 v p_msg =
     (let (err, q) = osal_queue_send p_msg (queue_vam v) in (err, v\<lparr>queue_vam := q\<rparr>))"

section \<open>Initialisation\<close>

definition init_lists :: "laddr list_heap \<Rightarrow> laddr list_heap" where
  "init_lists h =
     fold (\<lambda>i. list_add_tail (Remote i) StaFreeList) [0..<VAM_NEIGHBOUR_MAXNUM]
       (INIT_LIST_HEAD StaFreeList (INIT_LIST_HEAD NeighbourList h))"

definition local_pid :: "bytes \<Rightarrow> bytes" where
  "local_pid pid = (if take RCP_TEMP_ID_LEN pid = [0, 0, 0, 0] then replicate RCP_TEMP_ID_LEN 0xaa
                    else take RCP_TEMP_ID_LEN pid)"

text \<open>The structure is zeroed, so the lists start from arbitrary (null) pointers \<open>h\<close>. The
  static variables of the callbacks have their initial values.\<close>

definition vam_init :: "laddr list_heap \<Rightarrow> cfg_param \<Rightarrow> vam_envar option" where
  "vam_init h cfg =
     do {
       t_sb \<leftarrow> osal_timer_create 1000 False True;
       t_bp \<leftarrow> osal_timer_create 5000 True True;
       t_se \<leftarrow> osal_timer_create 50 False True;
       t_gl \<leftarrow> osal_timer_create 5000 False True;
       t_nl \<leftarrow> osal_timer_create 1000 False True;
       Some \<lparr>working_param = c_vam cfg, flag = 0, bsm_send_period_ticks = 0,
             tx_bsm_msg_cnt = 0, tx_evam_msg_cnt = 0, tx_rsa_msg_cnt = 0, neighbour_cnt = 0,
             local = zero_sta\<lparr>s_pid := local_pid (c_pid cfg)\<rparr>,
             remote = (\<lambda>_. zero_node), links = init_lists h, evt_handler = (\<lambda>_. None),
             queue_vam = osal_queue_create VAM_QUEUE_SIZE,
             timer_send_bsm = t_sb, timer_send_evam = t_se, timer_bsm_pause = t_bp,
             timer_gps_life = t_gl, timer_neighbour_life = t_nl,
             st_bsm_count = VAM_NO_ALERT_EVAM_TX_TIMES, st_evam_mask = 0,
             st_evam_count = VAM_NO_ALERT_EVAM_TX_TIMES, st_gotNeighbour = False,
             calls = []\<rparr>
     }"

definition vam_deinit :: "vam_envar \<Rightarrow> vam_envar" where
  "vam_deinit v =
     v\<lparr>timer_send_bsm := snd (osal_timer_delete (timer_send_bsm v)),
       timer_send_evam := snd (osal_timer_delete (timer_send_evam v)),
       timer_bsm_pause := snd (osal_timer_delete (timer_bsm_pause v)),
       timer_gps_life := snd (osal_timer_delete (timer_gps_life v)),
       timer_neighbour_life := snd (osal_timer_delete (timer_neighbour_life v))\<rparr>"


section \<open>The invariant of the task\<close>

definition timers_ok :: "vam_envar \<Rightarrow> bool" where
  "timers_ok v \<longleftrightarrow> timer_ok (timer_send_bsm v) \<and> timer_ok (timer_send_evam v)
     \<and> timer_ok (timer_bsm_pause v) \<and> timer_ok (timer_gps_life v) \<and> timer_ok (timer_neighbour_life v)"

definition vam_inv :: "vam_envar \<Rightarrow> bool" where
  "vam_inv v \<longleftrightarrow> table_ok v \<and> timers_ok v \<and> queue_ok (queue_vam v) \<and> q_depth (queue_vam v) = VAM_QUEUE_SIZE"

lemma init_lists_dll:
  "n \<le> VAM_NEIGHBOUR_MAXNUM \<Longrightarrow> two_lists dll
    (fold (\<lambda>i. list_add_tail (Remote i) StaFreeList) [0..<n]
       (INIT_LIST_HEAD StaFreeList (INIT_LIST_HEAD NeighbourList h)))
    NeighbourList StaFreeList [] (map Remote [0..<n])"
proof (induction n)
  case 0
  have "dll (INIT_LIST_HEAD StaFreeList (INIT_LIST_HEAD NeighbourList h)) NeighbourList []"
    using dll_init[of NeighbourList h] by (rule dll_frame) (simp add: INIT_LIST_HEAD_def)
  then show ?case by (simp add: two_lists_def dll_init)
next
  case (Suc n)
  let ?h = "fold (\<lambda>i. list_add_tail (Remote i) StaFreeList) [0..<n]
       (INIT_LIST_HEAD StaFreeList (INIT_LIST_HEAD NeighbourList h))"
  from Suc have t: "dll ?h NeighbourList []" "dll ?h StaFreeList (map Remote [0..<n])"
    by (simp_all add: two_lists_def)
  have "dll (list_add_tail (Remote n) StaFreeList ?h) StaFreeList (map Remote [0..<n] @ [Remote n])"
    using t(2) by (rule dll_list_add_tail) auto
  moreover have "dll (list_add_tail (Remote n) StaFreeList ?h) NeighbourList []"
    using t(2,1) by (rule dll_frame_list_add_tail) auto
  ultimately show ?case by (auto simp: two_lists_def)
qed

lemma vam_init_spec:
  "\<exists>v. vam_init h cfg = Some v \<and> sta_pool v [] (map Remote [0..<VAM_NEIGHBOUR_MAXNUM])
    \<and> timers_ok v \<and> queue_vam v = osal_queue_create VAM_QUEUE_SIZE
    \<and> working_param v = c_vam cfg \<and> local v = zero_sta\<lparr>s_pid := local_pid (c_pid cfg)\<rparr>
    \<and> flag v = 0 \<and> evt_handler v = (\<lambda>_. None) \<and> calls v = []
    \<and> \<not> tm_armed (timer_send_bsm v) \<and> \<not> tm_armed (timer_neighbour_life v)"
proof -
  obtain t1 t2 t3 t4 t5 where t: "osal_timer_create 1000 False True = Some t1" "osal_timer_create 5000 True True = Some t2"
    "osal_timer_create 50 False True = Some t3" "osal_timer_create 5000 False True = Some t4"
    "osal_timer_create 1000 False True = Some t5"
    and ok: "timer_ok t1" "timer_ok t2" "timer_ok t3" "timer_ok t4" "timer_ok t5"
    and arm: "\<not> tm_armed t1" "\<not> tm_armed t5"
    using osal_timer_create_ok[of 1000 False True] osal_timer_create_ok[of 5000 True True]
      osal_timer_create_ok[of 50 False True] osal_timer_create_ok[of 5000 False True] by auto
  show ?thesis
    using init_lists_dll[of VAM_NEIGHBOUR_MAXNUM h] ok arm
    by (auto simp: vam_init_def t timers_ok_def sta_pool_def init_lists_def node_idle_def
        zero_node_def zero_sta_def)
qed

lemma vam_init_inv: "vam_init h cfg = Some v \<Longrightarrow> vam_inv v"
  using vam_init_spec[of h cfg]
  by (auto simp: vam_inv_def table_ok_def queue_ok_def osal_queue_create_def)


text \<open>What the operations the task calls do to the timers and the queue.\<close>

definition os_same :: "vam_envar \<Rightarrow> vam_envar \<Rightarrow> bool" where
  "os_same v w \<longleftrightarrow> queue_vam w = queue_vam v \<and> (timers_ok v \<longrightarrow> timers_ok w)"

lemma os_same_refl [simp]: "os_same v v"
  by (simp add: os_same_def)

lemma os_same_trans: "os_same u v \<Longrightarrow> os_same v w \<Longrightarrow> os_same u w"
  by (simp add: os_same_def)

lemma os_same_updates [simp]:
  "os_same v (w\<lparr>local := s\<rparr>) = os_same v w" "os_same v (w\<lparr>flag := f\<rparr>) = os_same v w"
  "os_same v (w\<lparr>links := h\<rparr>) = os_same v w" "os_same v (w\<lparr>remote := r\<rparr>) = os_same v w"
  "os_same v (w\<lparr>neighbour_cnt := k\<rparr>) = os_same v w" "os_same v (w\<lparr>calls := cl\<rparr>) = os_same v w"
  "os_same v (w\<lparr>st_gotNeighbour := g\<rparr>) = os_same v w"
  "os_same v (w\<lparr>tx_bsm_msg_cnt := a\<rparr>) = os_same v w" "os_same v (w\<lparr>tx_evam_msg_cnt := a\<rparr>) = os_same v w"
  "os_same v (w\<lparr>tx_rsa_msg_cnt := a\<rparr>) = os_same v w"
  "os_same v (w\<lparr>bsm_send_period_ticks := per\<rparr>) = os_same v w"
  by (simp_all add: os_same_def timers_ok_def)

lemma os_same_call [simp]: "os_same v (call_evt e a w) = os_same v w"
  by (simp add: call_evt_def split: option.split)

lemma timer_ok_ops [simp]:
  "timer_ok t \<Longrightarrow> timer_ok (snd (osal_timer_start t))"
  "timer_ok t \<Longrightarrow> timer_ok (snd (osal_timer_stop t))"
  "timer_ok t \<Longrightarrow> timer_ok (snd (osal_timer_change ms t))"
  by (simp_all add: osal_timer_start_ok osal_timer_stop_ok osal_timer_change_ok)

lemma os_same_start: "vsm_start_bsm_broadcast v = Some w \<Longrightarrow> os_same v w"
  by (auto simp: vsm_start_bsm_broadcast_def case_prod_beta os_same_def timers_ok_def split: bind_splits)

lemma os_same_stop [simp]: "os_same v (vsm_stop_bsm_broadcast v)"
  by (simp add: vsm_stop_bsm_broadcast_def os_same_def timers_ok_def)

lemma os_same_pause [simp]: "os_same v (vsm_pause_bsm_broadcast v)"
  by (simp add: vsm_pause_bsm_broadcast_def Let_def case_prod_beta os_same_def timers_ok_def)

lemma os_same_update: "vsm_update_bsm_bcast_timer v = Some w \<Longrightarrow> os_same v w"
  by (auto simp: vsm_update_bsm_bcast_timer_alt os_same_def timers_ok_def split: if_splits)

lemma os_same_age:
  assumes "sta_pool v nb fr" "vam_update_sta v = Some w"
  shows "os_same v w"
proof -
  obtain u where "vsm_update_bsm_bcast_timer u = Some w"
    and "u = v\<lparr>links := links u, remote := remote u, neighbour_cnt := neighbour_cnt u,
             st_gotNeighbour := st_gotNeighbour u, calls := calls u\<rparr>"
    using vam_update_sta_before[OF assms(1)] assms(2) by auto
  moreover from this(2) have "os_same v u" by (metis os_same_refl os_same_updates(3-7))
  ultimately show ?thesis using os_same_update os_same_trans by blast
qed

lemma os_same_find: "vam_find_sta i v = Some (r, w) \<Longrightarrow> os_same v w"
  by (auto simp: vam_find_sta_def Let_def split: bind_splits option.splits if_splits)


lemma os_same_bsm_effect: "os_same v (bsm_effect b len t p v)"
  by (simp add: bsm_effect_def Let_def)

lemma os_same_parse:
  assumes "rcp_parse_msg M b len c = Some (r, c')"
  shows "os_same (g_vam c) (g_vam c')"
proof -
  have bsm: "os_same (g_vam c) (g_vam c'')" if "rcp_parse_bsm M b len c = Some (x, c'')" for x c''
    using that
    by (cases rule: rcp_parse_bsm_cases)
      (auto dest!: os_same_find intro: os_same_trans os_same_bsm_effect)
  have evam: "os_same (g_vam d) (g_vam d')" if "rcp_parse_evam M b len d = Some (x, d')" for x d d'
    using that
    by (cases rule: rcp_parse_evam_cases) (auto dest!: os_same_find intro: os_same_trans)
  have pause: "os_same (g_vam c) (g_vam d')"
    if "rcp_parse_evam M b len (c\<lparr>g_vam := vsm_pause_bsm_broadcast (g_vam c)\<rparr>) = Some (x, d')" for x d'
    using evam[OF that] os_same_trans[OF os_same_pause] by simp
  have rsa: "os_same (g_vam c) (g_vam c'')" if "rcp_parse_rsa b len c = Some (x, c'')" for x c''
    using that by (auto simp: rcp_parse_rsa_def vam_call_def Let_def split: if_splits)
  show ?thesis
    using assms bsm evam[of c] pause rsa
    by (auto simp: rcp_parse_msg_def Let_def split: if_splits bind_splits)
qed

lemma transmit_frame: "rcp_transmit p m n c = Some (r, c') \<Longrightarrow> g_vam c' = g_vam c"
  by (auto simp: rcp_transmit_def Let_def split: bind_splits)

text \<open>Sending keeps the table and the timers; it counts the message and a roadside alert sets
  its bit in the local alert mask.\<close>

definition send_same :: "vam_envar \<Rightarrow> vam_envar \<Rightarrow> bool" where
  "send_same v w \<longleftrightarrow> os_same v w \<and> links w = links v \<and> remote w = remote v
     \<and> neighbour_cnt w = neighbour_cnt v \<and> flag w = flag v \<and> calls w = calls v"

lemma send_bsm_same: "rcp_send_bsm M c = Some (r, c') \<Longrightarrow> send_same (g_vam c) (g_vam c')"
  by (auto simp: rcp_send_bsm_def upd_vam_def Let_def send_same_def split: bind_splits dest!: transmit_frame)

lemma send_evam_same: "rcp_send_evam M c = Some (r, c') \<Longrightarrow> send_same (g_vam c) (g_vam c')"
  by (auto simp: rcp_send_evam_def upd_vam_def Let_def send_same_def split: bind_splits dest!: transmit_frame)

lemma send_rsa_same: "rcp_send_rsa c = Some (r, c') \<Longrightarrow> send_same (g_vam c) (g_vam c')"
  by (auto simp: rcp_send_rsa_def upd_vam_def Let_def send_same_def vam_active_rsa_def
      split: bind_splits prod.splits dest!: transmit_frame)

lemma os_same_lip:
  assumes "lip_gps_proc M now b len (g, v) = Some (g', v')"
  shows "os_same v v'"
proof -
  have rmc: "os_same v v'" if r: "lip_update_rmc M now r (g, v) = Some (g', v')" for r
  proof -
    define w where "w = v\<lparr>local := (if \<not> getGps g then take_rmc now r (local v)
                            else if lip_rmc_valid_check r now \<noteq> 0 then take_rmc now r (local v)
                            else vsm_get_dr_current M now (local v))\<rparr>"
    define W where "W = (if \<not> fl_eq (s_speed (local v)) (s_speed (local w)) then vsm_update_bsm_bcast_timer w else Some w)"
    from r obtain u where u: "W = Some u"
      unfolding lip_update_rmc_def Let_def case_prod_conv W_def[symmetric] w_def[symmetric]
      by (auto split: bind_splits)
    have "os_same v w" by (simp add: w_def)
    then have st: "os_same v u"
      using u os_same_update[of w u] os_same_trans by (auto simp: W_def split: if_splits)
    have gl: "os_same v x \<Longrightarrow> os_same v (x\<lparr>timer_gps_life := snd (osal_timer_start (snd (osal_timer_stop (timer_gps_life x))))\<rparr>)" for x
      by (simp add: os_same_def timers_ok_def)
    from r u st show ?thesis
      unfolding lip_update_rmc_def Let_def case_prod_conv W_def[symmetric] w_def[symmetric]
      by (auto split: if_splits intro!: gl)
  qed
  from assms[unfolded lip_gps_proc_def] show ?thesis
  proof (cases rule: nmea_parse_cases)
    case r: rmc
    then show ?thesis by (cases rule: nmea_rmc_cases) (auto intro: rmc)
  next
    case gsa
    then show ?thesis by (cases rule: nmea_gsa_cases) (auto simp: lip_update_accu_def)
  qed simp_all
qed

section \<open>Every message keeps the invariant\<close>

lemma vam_invI:
  "vam_inv v \<Longrightarrow> table_ok w \<Longrightarrow> os_same v w \<Longrightarrow> vam_inv w"
  by (simp add: vam_inv_def os_same_def)

lemma vam_invD: "vam_inv v \<Longrightarrow> table_ok v"
  by (simp add: vam_inv_def)

lemma vam_inv_send:
  assumes "vam_inv v" "send_same v w"
  shows "vam_inv w"
proof (rule vam_invI[OF assms(1)])
  show "table_ok w" using assms table_ok_cong[of w v] by (simp add: send_same_def vam_invD)
  show "os_same v w" using assms(2) by (simp add: send_same_def)
qed

lemma vam_inv_parse:
  "vam_inv (g_vam c) \<Longrightarrow> rcp_parse_msg M b len c = Some (r, c') \<Longrightarrow> vam_inv (g_vam c')"
  by (rule vam_invI[OF _ rcp_parse_msg_table[OF vam_invD] os_same_parse])

lemma vam_inv_update:
  assumes "vam_inv v" "vam_update_sta v = Some w"
  shows "vam_inv w"
proof -
  obtain nb fr where pool: "sta_pool v nb fr" using vam_invD[OF assms(1)] by (auto simp: table_ok_def)
  show ?thesis
    using vam_update_sta_pool[OF pool assms(2)] os_same_age[OF pool assms(2)]
    by (intro vam_invI[OF assms(1)]) (auto simp: table_ok_def)
qed

lemma vam_inv_lip:
  assumes "vam_inv v" "lip_gps_proc M now b len (g, v) = Some (g', v')"
  shows "vam_inv v'"
proof (rule vam_invI[OF assms(1)])
  show "os_same v v'" by (rule os_same_lip[OF assms(2)])
  have "same_table v v'" using nmea_parse_table assms(2) unfolding lip_gps_proc_def by blast
  then show "table_ok v'"
    using table_ok_cong[of v' v] vam_invD[OF assms(1)] by (simp add: same_table_def)
qed


lemma vt_vam_sel [simp]: "g_vam (vt_cms (vt_vam f s)) = f (g_vam (vt_cms s))" "vt_gps (vt_vam f s) = vt_gps s"
  by (simp_all add: vt_vam_def upd_vam_def)

definition task_inv :: "vam_task \<Rightarrow> bool" where
  "task_inv s \<longleftrightarrow> vam_inv (g_vam (vt_cms s))"

lemma vt_send_inv:
  assumes "vt_send r s = Some s'" "\<And>x c. r = Some (x, c) \<Longrightarrow> vam_inv (g_vam c)"
  shows "task_inv s'"
  using assms by (auto simp: vt_send_def task_inv_def)

lemma vam_inv_timer: "vam_inv v \<Longrightarrow> os_same v w \<Longrightarrow> links w = links v \<Longrightarrow> remote w = remote v
    \<Longrightarrow> neighbour_cnt w = neighbour_cnt v \<Longrightarrow> vam_inv w"
  by (rule vam_invI, assumption) (simp_all add: table_ok_cong[of w v] vam_invD)

lemma vsm_start_table:
  "vsm_start_bsm_broadcast v = Some w \<Longrightarrow>
    links w = links v \<and> remote w = remote v \<and> neighbour_cnt w = neighbour_cnt v"
  by (auto simp: vsm_start_bsm_broadcast_def case_prod_beta split: bind_splits)

lemma vam_inv_start:
  assumes "vam_inv v" "vsm_start_bsm_broadcast v = Some w"
  shows "vam_inv w"
  using vsm_start_table[OF assms(2)] os_same_start[OF assms(2)] assms(1) by (auto intro: vam_inv_timer)

lemma vam_inv_flag [simp]: "vam_inv (v\<lparr>flag := f\<rparr>) = vam_inv v"
  using table_ok_cong[of "v\<lparr>flag := f\<rparr>" v] by (simp add: vam_inv_def timers_ok_def)

lemma vam_inv_neigh [simp]:
  "vam_inv v \<Longrightarrow> timer_ok t \<Longrightarrow> vam_inv (v\<lparr>timer_neighbour_life := t\<rparr>)"
  using table_ok_cong[of "v\<lparr>timer_neighbour_life := t\<rparr>" v] by (simp add: vam_inv_def timers_ok_def)

lemma vam_inv_timers: "vam_inv v \<Longrightarrow> timers_ok v"
  by (simp add: vam_inv_def)

lemma vam_main_proc_inv:
  assumes inv: "task_inv s" and run: "vam_main_proc M m s = Some s'"
  shows "task_inv s'"
proof -
  let ?v = "g_vam (vt_cms s)"
  have v: "vam_inv ?v" using inv by (simp add: task_inv_def)
  have t: "timer_ok (timer_neighbour_life ?v)" using vam_inv_timers[OF v] by (simp add: timers_ok_def)
  consider (start) "m_id m = VAM_MSG_START" | (stop) "m_id m = VAM_MSG_STOP"
    | (tx) "m_id m = VAM_MSG_RCPTX" | (rx) "m_id m = VAM_MSG_RCPRX"
    | (neigh) "m_id m = VAM_MSG_NEIGH_TIMEOUT" | (gps) "m_id m = VAM_MSG_GPSDATA"
    | (other) "m_id m \<notin> {VAM_MSG_START, VAM_MSG_STOP, VAM_MSG_RCPTX, VAM_MSG_RCPRX,
        VAM_MSG_NEIGH_TIMEOUT, VAM_MSG_GPSDATA}" by blast
  then show ?thesis
  proof cases
    case start
    define u where "u = ?v\<lparr>flag := set_flag (flag ?v) VAM_FLAG_RX,
                  timer_neighbour_life := snd (osal_timer_start (timer_neighbour_life ?v))\<rparr>"
    have u: "vam_inv u" using v t by (simp add: u_def)
    have "vam_inv w" if "vsm_start_bsm_broadcast (u\<lparr>flag := f\<rparr>) = Some w" for f w
      by (rule vam_inv_start[OF _ that]) (simp add: u)
    then show ?thesis
      using run u
      unfolding vam_main_proc_def Let_def u_def[symmetric]
      by (auto simp: start task_inv_def split: bind_splits if_splits)
  next
    case stop
    have "vam_inv (vsm_stop_bsm_broadcast ?v)"
      using v by (rule vam_inv_timer) (simp_all add: vsm_stop_bsm_broadcast_def[of ?v] os_same_stop[unfolded vsm_stop_bsm_broadcast_def])
    moreover have "timer_ok (timer_neighbour_life (vsm_stop_bsm_broadcast ?v))"
      using t by (simp add: vsm_stop_bsm_broadcast_def)
    ultimately show ?thesis
      using run v t by (auto simp: vam_main_proc_def stop task_inv_def Let_def)
  next
    case tx
    have bsm: "task_inv s2" if "vt_send (rcp_send_bsm M (vt_cms s1)) s1 = Some s2" "task_inv s1" for s1 s2
      using that(1) by (rule vt_send_inv) (use send_bsm_same that(2) vam_inv_send task_inv_def in blast)
    have evam: "task_inv s2" if "vt_send (rcp_send_evam M (vt_cms s1)) s1 = Some s2" "task_inv s1" for s1 s2
      using that(1) by (rule vt_send_inv) (use send_evam_same that(2) vam_inv_send task_inv_def in blast)
    have rsa: "task_inv s2" if "vt_send (rcp_send_rsa (vt_cms s1)) s1 = Some s2" "task_inv s1" for s1 s2
      using that(1) by (rule vt_send_inv) (use send_rsa_same that(2) vam_inv_send task_inv_def in blast)
    show ?thesis
      using run inv bsm evam rsa
      by (auto simp: vam_main_proc_def tx Let_def split: bind_splits if_splits)
  next
    case rx
    then obtain ri b where "m_argv m = VRx ri b"
      "vt_send (rcp_parse_msg M b (unat (m_len m)) (vt_cms s)) s = Some s'"
      using run by (auto simp: vam_main_proc_def Let_def split: vam_ptr.splits)
    then show ?thesis using vam_inv_parse[OF v] by (blast intro: vt_send_inv)
  next
    case neigh
    then show ?thesis
      using run vam_inv_update[OF v] by (auto simp: vam_main_proc_def task_inv_def split: bind_splits)
  next
    case gps
    then show ?thesis
      using run vam_inv_lip[OF v]
      by (auto simp: vam_main_proc_def task_inv_def Let_def split: bind_splits vam_ptr.splits)
  next
    case other
    then show ?thesis using run inv by (simp add: vam_main_proc_def Let_def)
  qed
qed

lemma vam_thread_step_inv:
  assumes inv: "task_inv s" and run: "vam_thread_step M s = Some s'"
  shows "task_inv s'"
proof (cases "osal_queue_recv (queue_vam (g_vam (vt_cms s)))")
  case None
  then show ?thesis using assms by (simp add: vam_thread_step_def)
next
  case (Some x)
  obtain m q where x: "x = (m, q)" by (cases x)
  let ?s = "vt_vam (\<lambda>v. v\<lparr>queue_vam := q\<rparr>) s"
  have "queue_ok q \<and> q_depth q = VAM_QUEUE_SIZE"
    using inv Some x by (auto simp: task_inv_def vam_inv_def queue_ok_def osal_queue_recv_def split: list.splits)
  then have "task_inv ?s"
    using inv table_ok_cong[of "(g_vam (vt_cms s))\<lparr>queue_vam := q\<rparr>" "g_vam (vt_cms s)"]
    by (simp add: task_inv_def vam_inv_def timers_ok_def)
  then show ?thesis
    using run Some x vam_main_proc_inv by (auto simp: vam_thread_step_def)
qed


section \<open>Runs of the system\<close>

text \<open>
  One step of the running system, for the station table's sake: a round of the VAM task, a timer
  callback, a frame handed up by the wireless layer, a round of the relay task, a call of the
  application interface, or the environment (the clock advances, other globals change).
\<close>

inductive task_step :: "libm \<Rightarrow> vam_task \<Rightarrow> vam_task \<Rightarrow> bool" for M where
  thread: "vam_thread_step M s = Some s' \<Longrightarrow> task_step M s s'"
| tm_bsm: "task_step M s (vt_vam timer_send_bsm_callback s)"
| tm_evam: "task_step M s (vt_vam timer_send_evam_callback s)"
| tm_pause: "task_step M s (vt_vam timer_bsm_pause_callback s)"
| tm_gps: "task_step M s (vt_vam timer_gps_life_callback s)"
| tm_neigh: "task_step M s (vt_vam timer_neigh_time_callback s)"
| tm_rsa: "timer_send_rsa_callback (vt_cms s) = Some (r, c) \<Longrightarrow> task_step M s (s\<lparr>vt_cms := c\<rparr>)"
| tm_history: "task_step M s (s\<lparr>vt_cms := (vt_cms s)\<lparr>g_mda := timer_rx_history_callback (g_mda (vt_cms s))\<rparr>\<rparr>)"
| receive: "vam_rcp_recv M rxinfo buf len (vt_cms s) = Some (r, c) \<Longrightarrow> task_step M s (s\<lparr>vt_cms := c\<rparr>)"
| relay: "mda_thread_step (vt_cms s) = Some c \<Longrightarrow> task_step M s (s\<lparr>vt_cms := c\<rparr>)"
| api_start: "task_step M s (vt_vam (\<lambda>v. snd (vam_start v)) s)"
| api_stop: "task_step M s (vt_vam (\<lambda>v. snd (vam_stop v)) s)"
| api_config: "task_step M s (vt_vam (\<lambda>v. snd (vam_set_config cfg v)) s)"
| api_handler: "task_step M s (vt_vam (\<lambda>v. snd (vam_set_event_handler e h v)) s)"
| api_alert: "task_step M s (vt_vam (vam_alert mode type) s)"
| api_status: "task_step M s (vt_vam (\<lambda>v. snd (vam_set_local_status st v)) s)"
| api_cnt: "vam_set_peer_cnt pid cnt (g_vam (vt_cms s)) = Some (r, v) \<Longrightarrow> task_step M s (vt_vam (\<lambda>_. v) s)"
| env: "g_vam c = g_vam (vt_cms s) \<Longrightarrow> task_step M s (s\<lparr>vt_cms := c\<rparr>)"

inductive reachable :: "libm \<Rightarrow> vam_task \<Rightarrow> bool" for M where
  start: "vam_init h cfg = Some (g_vam (vt_cms s)) \<Longrightarrow> reachable M s"
| step: "reachable M s \<Longrightarrow> task_step M s s' \<Longrightarrow> reachable M s'"

lemma vam_inv_frame:
  assumes "vam_inv v" "timers_ok v \<Longrightarrow> timers_ok w"
    "queue_vam w = queue_vam v \<or> queue_vam w = snd (osal_queue_send m (queue_vam v))"
    "links w = links v" "remote w = remote v" "neighbour_cnt w = neighbour_cnt v"
  shows "vam_inv w"
  using assms table_ok_cong[of w v] by (auto simp: vam_inv_def osal_queue_send_ok)

lemma vam_inv_send_timer: "vam_inv v \<Longrightarrow> vam_inv (timer_send_bsm_callback v)"
  by (erule vam_inv_frame[where m = "\<lparr>m_id = VAM_MSG_RCPTX, m_len = 0, m_argc = RCP_MSG_ID_BSM, m_argv = VNull\<rparr>"])
    (auto simp: timer_send_bsm_callback_def vam_add_event_queue_def Let_def case_prod_beta timers_ok_def)

lemma vsm_pause_sel [simp]:
  "links (vsm_pause_bsm_broadcast v) = links v" "remote (vsm_pause_bsm_broadcast v) = remote v"
  "neighbour_cnt (vsm_pause_bsm_broadcast v) = neighbour_cnt v" "queue_vam (vsm_pause_bsm_broadcast v) = queue_vam v"
  "local (vsm_pause_bsm_broadcast v) = local v" "timer_send_evam (vsm_pause_bsm_broadcast v) = timer_send_evam v"
  by (simp_all add: vsm_pause_bsm_broadcast_def Let_def case_prod_beta)

lemma timers_ok_pause: "timers_ok v \<Longrightarrow> timers_ok (vsm_pause_bsm_broadcast v)"
  using os_same_pause[of v] by (simp add: os_same_def)

lemma vam_inv_evam_timer: "vam_inv v \<Longrightarrow> vam_inv (timer_send_evam_callback v)"
proof (erule vam_inv_frame[where m = "\<lparr>m_id = VAM_MSG_RCPTX, m_len = 0, m_argc = RCP_MSG_ID_EVAM, m_argv = VNull\<rparr>"])
  show "timers_ok v \<Longrightarrow> timers_ok (timer_send_evam_callback v)"
    using timers_ok_pause[of v]
    by (auto simp: timer_send_evam_callback_def vam_add_event_queue_def Let_def case_prod_beta timers_ok_def)
qed (auto simp: timer_send_evam_callback_def vam_add_event_queue_def Let_def case_prod_beta)

lemma vam_inv_post: "vam_inv v \<Longrightarrow> vam_inv (snd (vam_add_event_queue v i l a p))"
  by (erule vam_inv_frame[where m = "\<lparr>m_id = i, m_len = l, m_argc = a, m_argv = p\<rparr>"])
    (auto simp: vam_add_event_queue_def case_prod_beta timers_ok_def)

lemma vam_inv_callbacks:
  assumes "vam_inv v"
  shows "vam_inv (timer_bsm_pause_callback v)" "vam_inv (timer_gps_life_callback v)"
    "vam_inv (snd (vam_set_config cfg v))" "vam_inv (snd (vam_set_event_handler e h v))"
    "vam_inv (vam_alert mode ty v)" "vam_inv (snd (vam_set_local_status st v))"
  by (rule vam_inv_frame[OF assms], auto simp: timer_bsm_pause_callback_def timer_gps_life_callback_def
        vam_set_config_def vam_set_event_handler_def vam_alert_def vam_stop_alert_def
        vam_active_alert_def vam_cancel_alert_def vam_set_local_status_def call_evt_def
        Let_def timers_ok_def split: option.splits)+

lemma vam_inv_set_cnt:
  assumes "vam_inv v" "vam_set_peer_cnt pid cnt v = Some (r, w)"
  shows "vam_inv w"
proof (rule vam_invI[OF assms(1)])
  obtain nb fr where pool: "sta_pool v nb fr" using vam_invD[OF assms(1)] by (auto simp: table_ok_def)
  have "sta_pool (v\<lparr>remote := (remote v)(p := (remote v p)\<lparr>n_s := (n_s (remote v p))\<lparr>s_cnt := cnt\<rparr>\<rparr>)\<rparr>) nb fr"
    if "p \<in> set nb" for p
    using sta_pool_put[OF pool that] by (simp add: pid_of_def)
  then show "table_ok w"
    using assms(2) pool find_peer_pool[OF pool, of pid]
    by (fastforce simp: vam_set_peer_cnt_def find_Some_iff table_ok_def split: option.splits)
  show "os_same v w"
    using assms(2) by (auto simp: vam_set_peer_cnt_def split: bind_splits option.splits)
qed

lemma relay_vam:
  assumes "mda_thread_step c = Some c'"
  shows "g_vam c' = g_vam c"
proof -
  have snd: "g_vam d' = g_vam d" if "rcp_send_forward_msg t f d = Some (r, d')" for t f d d' r
    using that by (auto simp: rcp_send_forward_msg_def Let_def split: if_splits bind_splits)
  have "g_vam c1 = g_vam c" if "forward_handler c = Some c1" for c1
    using that snd by (fastforce simp: forward_handler_def Let_def split: if_splits bind_splits)
  then show ?thesis using assms by (auto simp: mda_thread_step_def split: bind_splits)
qed

lemma task_step_inv: "task_step M s s' \<Longrightarrow> task_inv s \<Longrightarrow> task_inv s'"
proof (induction rule: task_step.induct)
  case (thread s s')
  then show ?case using vam_thread_step_inv by blast
next
  case (tm_rsa s r c)
  then show ?case using send_rsa_same vam_inv_send by (auto simp: task_inv_def timer_send_rsa_callback_def)
next
  case (receive rxinfo buf len s r c)
  then show ?case using vam_inv_parse by (auto simp: task_inv_def vam_rcp_recv_def split: bind_splits)
next
  case (relay s c)
  then show ?case by (simp add: task_inv_def relay_vam)
next
  case (api_cnt pid cnt s r v)
  then show ?case using vam_inv_set_cnt by (simp add: task_inv_def)
qed (simp_all add: task_inv_def vam_inv_callbacks vam_inv_send_timer vam_inv_evam_timer
    timer_neigh_time_callback_def vam_start_def vam_stop_def vam_inv_post)

lemma reachable_inv: "reachable M s \<Longrightarrow> task_inv s"
proof (induction rule: reachable.induct)
  case (start h cfg s)
  then show ?case using vam_init_inv by (simp add: task_inv_def)
qed (use task_step_inv in blast)


section \<open>What the application sees of a message\<close>

lemma pid_eq_sym: "pid_eq a b = pid_eq b a"
  by (auto simp: pid_eq_def)

lemma bsm_effect_node:
  "n_s (remote (bsm_effect b len t p v) p) = (bsm_status b t (n_s (remote v p)))
     \<lparr>s_alert_mask := if 42 < len then decode_vehicle_alert (get16 b 42) else s_alert_mask (n_s (remote v p))\<rparr>"
  by (simp add: bsm_effect_def Let_def) (simp add: bsm_status_def)

lemma lookup_pool:
  assumes "sta_pool v nb fr" "p \<in> set nb" "pid_of v p = take RCP_TEMP_ID_LEN i"
  shows "vam_get_peer_status i junk v = Some (0, n_s (remote v p))"
  using find_peer_pool[OF assms(1), of i] find_distinct_map[of "pid_of v" nb p]
    sta_poolD(4)[OF assms(1)] assms(2,3)
  by (simp add: vam_get_peer_status_def)

lemma bsm_effect_lookup:
  assumes pool: "sta_pool v nb fr" and p: "p \<in> set nb" and pid: "pid_of v p = take RCP_TEMP_ID_LEN i"
  shows "vam_get_peer_status i junk (bsm_effect b len t p v) = Some (0, n_s (remote (bsm_effect b len t p v) p))"
proof (rule lookup_pool[OF bsm_effect_pool[OF pool p] p])
  show "pid_of (bsm_effect b len t p v) p = take RCP_TEMP_ID_LEN i"
    using pid by (simp add: pid_of_def bsm_effect_node)
qed

lemma sta_join_pid: "pid_of (sta_join i p v) p = take RCP_TEMP_ID_LEN i"
  by (simp add: pid_of_def sta_join_def)

lemma free_node_exists:
  assumes "sta_pool v nb fr" "neighbour_cnt v < 80"
  shows "fr \<noteq> []"
proof
  assume "fr = []"
  then have "length nb = 80" using sta_poolD(6)[OF assms(1)] by (simp add: VAM_NEIGHBOUR_MAXNUM_def)
  then show False using assms by (simp add: sta_pool_def)
qed

lemma find_sta_with_room:
  assumes ok: "table_ok v" and room: "neighbour_cnt v < 80" and find: "vam_find_sta i v = Some (r, w)"
  shows "\<exists>p nb fr. r = Some p \<and> sta_pool w nb fr \<and> p \<in> set nb \<and> pid_of w p = take RCP_TEMP_ID_LEN i"
proof -
  obtain nb fr where pool: "sta_pool v nb fr" using ok by (auto simp: table_ok_def)
  from pool show ?thesis
  proof (cases rule: vam_find_sta_cases[where i = i])
    case (known p)
    then show ?thesis using find pool by auto
  next
    case (joined p fr')
    then have "r = Some p" "w = sta_join i p v" using find by auto
    then show ?thesis using joined sta_join_pid by (intro exI[of _ p] exI[of _ "p # nb"] exI[of _ fr']) auto
  next
    case full
    then show ?thesis using free_node_exists[OF pool room] by simp
  qed
qed

lemma bsm_known_after:
  assumes ok: "table_ok (g_vam c)" and run: "rcp_parse_bsm M b len c = Some (r, c')"
    and len: "42 \<le> len" "len \<le> length b"
    and foreign: "\<not> pid_eq (slice 2 4 b) (s_pid (local (g_vam c)))"
    and room: "neighbour_cnt (g_vam c) < 80"
  shows "\<exists>p v. vam_find_sta (slice 2 4 b) (g_vam c) = Some (Some p, v)
    \<and> g_vam c' = bsm_effect b len (systime c) p v"
proof -
  have l: "42 < len \<longrightarrow> 44 \<le> length b"
    using run len foreign by (auto simp: rcp_parse_bsm_def Let_def split: if_splits)
  from run len foreign l obtain x c1 where
    mda: "rcp_mda_process M (msgid_hops (b ! 0)) (b ! 1) (slice 2 4 b) (slice 6 4 b) b len c = Some (x, c1)"
    by (auto simp: rcp_parse_bsm_def Let_def split: bind_splits if_splits)
  have g: "g_vam c1 = g_vam c"
    using mda_handle_frame(1) mda unfolding rcp_mda_process_def by blast
  from run len foreign l mda g obtain s v where find: "vam_find_sta (slice 2 4 b) (g_vam c) = Some (s, v)"
    by (auto simp: rcp_parse_bsm_def Let_def split: bind_splits if_splits)
  with find_sta_with_room[OF ok room] obtain p where "s = Some p" by blast
  moreover have "(if 42 < len then 44 else 42) \<le> length b" using l len by simp
  ultimately show ?thesis
    using rcp_parse_bsm_effect[OF len(1) _ foreign mda] find run by fastforce
qed


section \<open>A concrete system\<close>

text \<open>A configuration with a fixed broadcast period, and a global structure over it; the
  mathematical library is instantiated by constant functions.\<close>

definition demo_libm :: libm where
  "demo_libm = \<lparr>m_sin = (\<lambda>_. Fin 0), m_cos = (\<lambda>_. Fin 1), m_asin = (\<lambda>_. Fin 1), m_acos = (\<lambda>_. Fin 0),
     m_atan2 = (\<lambda>_ _. Fin 0), m_sqrt = (\<lambda>_. Fin 0), m_pow = (\<lambda>_ _. Fin 0)\<rparr>"

definition demo_cfg :: cfg_param where
  "demo_cfg = \<lparr>c_pid = [1, 2, 3, 4],
     c_vam = \<lparr>bsm_hops = 1, bsm_boardcast_mode = 2, bsm_boardcast_saftyfactor = 5, bsm_pause_mode = 1,
       bsm_pause_hold_time = 5, bsm_boardcast_period = 1000, evam_hops = 1, evam_broadcast_type = 2,
       evam_broadcast_peroid = 1000\<rparr>,
     c_vsa = \<lparr>danger_detect_speed_threshold = 30, lane_dis = 5, crd_saftyfactor = 5, crd_oppsite_speed = 1,
       crd_oppsite_rear_speed = 1, crd_rear_distance = 5, ebd_mode = 1, ebd_acceleration_threshold = 4,
       ebd_alert_hold_time = 5\<rparr>,
     c_wnet = \<lparr>w_channel = 13, w_txrate = 12, w_mode = 0\<rparr>, c_print_xxx = 0\<rparr>"

definition demo_vam :: vam_envar where
  "demo_vam = the (vam_init \<lparr>lnext = \<lambda>x. x, lprev = \<lambda>x. x\<rparr> demo_cfg)"

definition demo_cms :: cms where
  "demo_cms = \<lparr>g_vam = demo_vam, g_mda = mda_init \<lparr>lnext = \<lambda>x. x, lprev = \<lambda>x. x\<rparr>,
     g_wnet = \<lparr>wn_param = c_wnet demo_cfg, wn_mac = [2, 0, 0, 0, 0, 1], wn_monitor_sock = 3,
       wn_sendmsg_ok = True, wn_air = [], wnet_dbg_rx_actual = 0, wnet_dbg_rx_fresh = 0\<rparr>,
     g_clock = (100, 0), g_junk = zero_sta,
     g_junk_rsa = \<lparr>r_rsa_mask = 0, r_priority = 0, r_head = 0, r_pos = zero_pos\<rparr>,
     g_dbg_print_type = 0, rcp_dbg_distance = Fin 0, test_comm_list = []\<rparr>"

definition demo_task :: vam_task where
  "demo_task = \<lparr>vt_cms = demo_cms,
     vt_gps = \<lparr>IsLocate = False, Issend = False, getGps = False, rtc_writes = [], gga_sent = []\<rparr>\<rparr>"

lemma demo_vam_init:
  "vam_init \<lparr>lnext = \<lambda>x. x, lprev = \<lambda>x. x\<rparr> demo_cfg = Some demo_vam"
  "sta_pool demo_vam [] (map Remote [0..<VAM_NEIGHBOUR_MAXNUM])"
  "working_param demo_vam = c_vam demo_cfg" "s_pid (local demo_vam) = [1, 2, 3, 4]"
  "evt_handler demo_vam = (\<lambda>_. None)" "flag demo_vam = 0" "neighbour_cnt demo_vam = 0"
proof -
  obtain v where v: "vam_init \<lparr>lnext = \<lambda>x. x, lprev = \<lambda>x. x\<rparr> demo_cfg = Some v"
    "sta_pool v [] (map Remote [0..<VAM_NEIGHBOUR_MAXNUM])" "working_param v = c_vam demo_cfg"
    "local v = zero_sta\<lparr>s_pid := local_pid (c_pid demo_cfg)\<rparr>" "evt_handler v = (\<lambda>_. None)" "flag v = 0"
    using vam_init_spec by blast
  moreover have "demo_vam = v" by (simp add: demo_vam_def v(1))
  moreover have "neighbour_cnt v = 0" using v(2) by (simp add: sta_pool_def)
  ultimately show "vam_init \<lparr>lnext = \<lambda>x. x, lprev = \<lambda>x. x\<rparr> demo_cfg = Some demo_vam"
    "sta_pool demo_vam [] (map Remote [0..<VAM_NEIGHBOUR_MAXNUM])"
    "working_param demo_vam = c_vam demo_cfg" "s_pid (local demo_vam) = [1, 2, 3, 4]"
    "evt_handler demo_vam = (\<lambda>_. None)" "flag demo_vam = 0" "neighbour_cnt demo_vam = 0"
    by (simp_all add: local_pid_def demo_cfg_def RCP_TEMP_ID_LEN_def)
qed

lemma demo_free: "map Remote [0..<VAM_NEIGHBOUR_MAXNUM] = Remote 0 # map Remote [1..<VAM_NEIGHBOUR_MAXNUM]"
  by (simp add: VAM_NEIGHBOUR_MAXNUM_def upt_conv_Cons)

text \<open>The same system after one station has been heard.\<close>

definition demo_vam1 :: vam_envar where
  "demo_vam1 = (let v = sta_join [9, 8, 7, 6] (Remote 0) demo_vam
     in v\<lparr>remote := (remote v)(Remote 0 := (remote v (Remote 0))\<lparr>n_life := 5\<rparr>)\<rparr>)"

lemma demo_vam1:
  "sta_pool demo_vam1 [Remote 0] (map Remote [1..<VAM_NEIGHBOUR_MAXNUM])"
  "working_param demo_vam1 = c_vam demo_cfg" "pid_of demo_vam1 (Remote 0) = [9, 8, 7, 6]"
  "lifetime (remote demo_vam1 (Remote 0)) = 5"
proof -
  have j: "sta_pool (sta_join [9, 8, 7, 6] (Remote 0) demo_vam) [Remote 0] (map Remote [1..<VAM_NEIGHBOUR_MAXNUM])"
    using vam_find_sta_new(2)[OF demo_vam_init(2)[unfolded demo_free]] by simp
  show "sta_pool demo_vam1 [Remote 0] (map Remote [1..<VAM_NEIGHBOUR_MAXNUM])"
    unfolding demo_vam1_def Let_def by (rule sta_pool_put[OF j]) (simp_all add: pid_of_def)
  show "working_param demo_vam1 = c_vam demo_cfg"
    by (simp add: demo_vam1_def sta_join_def demo_vam_init(3) Let_def)
  show "pid_of demo_vam1 (Remote 0) = [9, 8, 7, 6]"
    by (simp add: demo_vam1_def sta_join_def pid_of_def RCP_TEMP_ID_LEN_def Let_def)
  have "n_alert_life (remote demo_vam (Remote 0)) = 0"
    using demo_vam_init(2) by (simp add: demo_free sta_pool_def node_idle_def)
  then show "lifetime (remote demo_vam1 (Remote 0)) = 5"
    by (simp add: demo_vam1_def sta_join_def lifetime_def Let_def)
qed


section \<open>Properties\<close>



text \<open>C7. Looking a station up: a station in the table is found and nothing changes; an unknown
  one takes the first free node, which becomes the first neighbour and carries the new
  identifier; with no node free the table stays as it is and the caller gets none.\<close>

theorem vam_find_sta_contract:
  assumes "sta_pool v nb fr"
  shows "if \<exists>p \<in> set nb. pid_of v p = take RCP_TEMP_ID_LEN i
    then \<exists>p \<in> set nb. pid_of v p = take RCP_TEMP_ID_LEN i \<and> vam_find_sta i v = Some (Some p, v)
    else case fr of
        [] \<Rightarrow> vam_find_sta i v = Some (None, v)
      | p # fr' \<Rightarrow> \<exists>w. vam_find_sta i v = Some (Some p, w) \<and> sta_pool w (p # nb) fr'
          \<and> pid_of w p = take RCP_TEMP_ID_LEN i \<and> (\<forall>q. q \<noteq> p \<longrightarrow> remote w q = remote v q)"
  using assms
proof (cases rule: vam_find_sta_cases[where i = i])
  case (known p)
  then show ?thesis by auto
next
  case (joined p fr')
  have "remote (sta_join i p v) q = remote v q" if "q \<noteq> p" for q
    using that by (simp add: sta_join_def)
  moreover have "\<not> (\<exists>p \<in> set nb. pid_of v p = take RCP_TEMP_ID_LEN i)"
    using joined(4) by (metis image_eqI)
  ultimately show ?thesis
    using joined(1,2,3) sta_join_pid[of i p v] by auto
next
  case full
  then have "\<not> (\<exists>p \<in> set nb. pid_of v p = take RCP_TEMP_ID_LEN i)" by (metis image_eqI)
  then show ?thesis using full by simp
qed

theorem vam_find_sta_contract_witness:
  "\<exists>p \<in> set [Remote 0]. pid_of demo_vam1 p = take RCP_TEMP_ID_LEN [9, 8, 7, 6]
    \<and> vam_find_sta [9, 8, 7, 6] demo_vam1 = Some (Some p, demo_vam1)"
  using vam_find_sta_contract[OF demo_vam1(1), of "[9, 8, 7, 6]"] demo_vam1(3)
  by (simp add: RCP_TEMP_ID_LEN_def)

text \<open>C8. A silent station leaves: with a broadcast period that is not speed-dependent, after
  \<open>k\<close> rounds of the neighbour timer a station of the table is still there exactly when \<open>k\<close> is
  below its remaining lifetime (the larger of its two counters), and the table is well formed.\<close>

theorem silent_station_leaves:
  assumes "sta_pool v nb fr" "bsm_boardcast_mode (working_param v) \<noteq> BSM_BC_MODE_AUTO" "p \<in> set nb" "0 < k"
  shows "\<exists>w nb' fr'. updates k v = Some w \<and> sta_pool w nb' fr'
    \<and> (p \<in> set nb' \<longleftrightarrow> k < lifetime (remote v p))"
proof -
  obtain w fr' where "updates k v = Some w"
    "sta_pool w (filter (\<lambda>p. k = 0 \<or> k < lifetime (remote v p)) nb) fr'"
    using updates_spec[OF assms(1,2), of k] by blast
  then show ?thesis
    using assms(3,4) by (intro exI[of _ w] exI[of _ "filter (\<lambda>p. k = 0 \<or> k < lifetime (remote v p)) nb"] exI[of _ fr']) auto
qed

theorem silent_station_leaves_witness:
  "\<exists>w nb' fr'. updates 5 demo_vam1 = Some w \<and> sta_pool w nb' fr' \<and> Remote 0 \<notin> set nb'"
proof -
  have "bsm_boardcast_mode (working_param demo_vam1) \<noteq> BSM_BC_MODE_AUTO"
    by (simp add: demo_vam1(2) demo_cfg_def BSM_BC_MODE_AUTO_def)
  from silent_station_leaves[OF demo_vam1(1) this, of "Remote 0" 5] show ?thesis
    by (simp add: demo_vam1(4))
qed

text \<open>After a basic safety message of another station was accepted while the table had room,
  the application interface returns for that identifier the status the message carried: every
  field decoded from its own place in the frame, stamped with the receiver's clock, and the
  alert mask from the extension when there is one.\<close>

theorem peer_status_after_bsm:
  assumes "table_ok (g_vam c)" "rcp_parse_bsm M b len c = Some (r, c')" "42 \<le> len" "len \<le> length b"
    and "\<not> pid_eq (slice 2 4 b) (s_pid (local (g_vam c)))" "neighbour_cnt (g_vam c) < 80"
  shows "\<exists>old. vam_get_peer_status (slice 2 4 b) junk (g_vam c') = Some (0, (bsm_status b (systime c) old)
    \<lparr>s_alert_mask := if 42 < len then decode_vehicle_alert (get16 b 42) else s_alert_mask old\<rparr>)"
proof -
  obtain p v where find: "vam_find_sta (slice 2 4 b) (g_vam c) = Some (Some p, v)"
    and v: "g_vam c' = bsm_effect b len (systime c) p v"
    using bsm_known_after[OF assms] by blast
  with find_sta_with_room[OF assms(1,6) find] obtain nb fr where
    "sta_pool v nb fr" "p \<in> set nb" "pid_of v p = take RCP_TEMP_ID_LEN (slice 2 4 b)" by auto
  then show ?thesis
    using bsm_effect_lookup bsm_effect_node by (metis v)
qed

definition demo_bsm :: bytes where
  "demo_bsm = [0x22, 7, 9, 8, 7, 6] @ replicate 36 0"

lemma demo_bsm_runs:
  "\<exists>c'. rcp_parse_bsm demo_libm demo_bsm 42 demo_cms = Some (0, c')"
proof -
  have sl: "slice 2 4 demo_bsm = [9, 8, 7, 6]" by (simp add: demo_bsm_def slice_def)
  have "find_history_record (g_mda demo_cms) src = None" for src
    by (auto simp: find_history_record_def demo_cms_def mda_init_def find_None_iff)
  then have mda: "rcp_mda_process demo_libm (msgid_hops (demo_bsm ! 0)) (demo_bsm ! 1) (slice 2 4 demo_bsm)
      (slice 6 4 demo_bsm) demo_bsm 42 demo_cms = Some (0, demo_cms)"
    unfolding rcp_mda_process_def
    by (intro mda_handle_last_hop) (simp_all add: demo_bsm_def msgid_hops_def)
  have "vam_find_sta (slice 2 4 demo_bsm) (g_vam demo_cms)
      = Some (Some (Remote 0), sta_join (slice 2 4 demo_bsm) (Remote 0) demo_vam)"
    using vam_find_sta_new(1)[OF demo_vam_init(2)[unfolded demo_free]] by (simp add: demo_cms_def)
  moreover have "\<not> pid_eq (slice 2 4 demo_bsm) (s_pid (local (g_vam demo_cms)))"
    by (simp add: sl demo_cms_def pid_eq_def demo_vam_init(4) RCP_TEMP_ID_LEN_def)
  moreover have "length demo_bsm = 42" by (simp add: demo_bsm_def)
  ultimately show ?thesis
    using rcp_parse_bsm_effect[OF _ _ _ mda] by fastforce
qed

theorem peer_status_after_bsm_witness:
  "\<exists>c' old. rcp_parse_bsm demo_libm demo_bsm 42 demo_cms = Some (0, c')
    \<and> vam_get_peer_status (slice 2 4 demo_bsm) zero_sta (g_vam c')
      = Some (0, (bsm_status demo_bsm (systime demo_cms) old)\<lparr>s_alert_mask := s_alert_mask old\<rparr>)"
proof -
  obtain c' where run: "rcp_parse_bsm demo_libm demo_bsm 42 demo_cms = Some (0, c')"
    using demo_bsm_runs by blast
  have "table_ok (g_vam demo_cms)" using demo_vam_init(2) by (auto simp: demo_cms_def)
  moreover have "\<not> pid_eq (slice 2 4 demo_bsm) (s_pid (local (g_vam demo_cms)))"
    by (simp add: demo_bsm_def slice_def demo_cms_def pid_eq_def demo_vam_init(4) RCP_TEMP_ID_LEN_def)
  moreover have "length demo_bsm = 42" by (simp add: demo_bsm_def)
  moreover have "neighbour_cnt (g_vam demo_cms) < 80" by (simp add: demo_cms_def demo_vam_init(7))
  ultimately show ?thesis
    using peer_status_after_bsm[OF _ run, of zero_sta] run by auto
qed

section \<open>Instances of the properties of the parts\<close>

lemma demo_local: "local demo_vam = zero_sta\<lparr>s_pid := [1, 2, 3, 4]\<rparr>"
proof -
  obtain v where "vam_init \<lparr>lnext = \<lambda>x. x, lprev = \<lambda>x. x\<rparr> demo_cfg = Some v"
    "local v = zero_sta\<lparr>s_pid := local_pid (c_pid demo_cfg)\<rparr>"
    using vam_init_spec by blast
  then show ?thesis
    by (simp add: demo_vam_def local_pid_def demo_cfg_def RCP_TEMP_ID_LEN_def)
qed

theorem cancelled_alert_repeats_witness:
  "\<not> has_flag (flag (bsm_ticks 6 (demo_vam\<lparr>flag := VAM_FLAG_TX_BSM_ALERT, st_bsm_count := 5\<rparr>))) VAM_FLAG_TX_BSM_ALERT"
proof -
  have "s_alert_mask (local demo_vam) = 0" by (simp add: demo_local zero_sta_def)
  then show ?thesis
    using cancelled_alert_repeats[of "demo_vam\<lparr>flag := VAM_FLAG_TX_BSM_ALERT, st_bsm_count := 5\<rparr>"]
    by (simp add: has_flag_def VAM_NO_ALERT_EVAM_TX_TIMES_def)
qed

lemma demo_mda: "fwd_list (g_mda demo_cms) []" "history_ok (g_mda demo_cms)"
  "find_history_record (g_mda demo_cms) src = None"
  by (auto simp: demo_cms_def fwd_list_def mda_init_def dll_init history_ok_def MAX_HISTORY_LIFE_def
      find_history_record_def find_None_iff)

abbreviation (input) demo_msg :: "u8 \<Rightarrow> mda_msg_info" where
  "demo_msg h \<equiv> \<lparr>mi_temorary_id = [1, 2, 3, 4], mi_forward_id = [9, 8, 7, 6], mi_msg_count = 7, mi_left_hops = h\<rparr>"

theorem relay_suppression_witness:
  "find_history_record (g_mda demo_cms) (demo_msg 1) = None
    \<and> mda_handle demo_libm (demo_msg 1) demo_bsm 42 demo_cms = Some (0, demo_cms)"
  using relay_suppression[OF demo_mda(1), of "demo_msg 1" demo_libm demo_bsm 42] demo_mda(3) by simp

theorem emergency_alert_roundtrip_witness:
  "\<exists>msg. evam_message demo_vam (zero_sta\<lparr>s_alert_mask := 3\<rparr>) = Some msg \<and> length msg = 71
    \<and> decode_itiscode (get16 msg 11) (rsa_description 9 msg) = 3"
proof -
  obtain ev ds where "encode_itiscode 3 (replicate 8 0) = (ev, ds)" by (rule prod.exhaust)
  then obtain msg where m: "evam_message demo_vam (zero_sta\<lparr>s_alert_mask := 3\<rparr>) = Some msg"
    by (simp add: evam_message_def zero_sta_def zero_pos_def encode_zero Let_def)
  show ?thesis
    using emergency_alert_roundtrip[OF m, of "[]"] m by (auto simp: zero_sta_def)
qed

lemma demo_wnet: "wnet_ready (g_wnet demo_cms)"
  by (simp add: wnet_ready_def demo_cms_def)

theorem send_rsa_sets_curve_witness:
  "\<exists>c'. rcp_send_rsa demo_cms = Some (0, c') \<and> s_alert_mask (local (g_vam c')) = 2"
proof -
  obtain c' where run: "rcp_send_rsa demo_cms = Some (0, c')"
  proof -
    define c where "c = upd_vam (\<lambda>v. snd (vam_active_rsa RSA_TYPE_CURVE v))
      (upd_vam (\<lambda>v. v\<lparr>tx_rsa_msg_cnt := tx_rsa_msg_cnt v + 1\<rparr>) demo_cms)"
    have w: "wnet_ready (g_wnet c)" using demo_wnet by (simp add: c_def upd_vam_def)
    obtain ev ds where enc: "encode_itiscode (s_alert_mask (local (g_vam c))) (replicate 8 0) = (ev, ds)"
      by (rule prod.exhaust)
    define msg where "msg = rsa_message (msgid_byte (bsm_hops (working_param (g_vam c))) (ucast RCP_MSG_ID_RSA))
      (tx_rsa_msg_cnt (g_vam demo_cms)) ev ds 0 0 0 0 (transmission_speed 0 0)"
    have len: "length msg = 50"
      unfolding msg_def by (rule rsa_message_length) (rule encode_itiscode_length[OF enc])
    have fields: "s_pos (local (g_vam c)) = zero_pos" "s_dir (local (g_vam c)) = Fin 0"
      "s_speed (local (g_vam c)) = Fin 0"
      by (simp_all add: c_def upd_vam_def vam_active_rsa_def demo_cms_def demo_local zero_sta_def)
    have "rcp_send_rsa demo_cms = rcp_transmit 1 msg 50 c"
      unfolding rcp_send_rsa_def Let_def c_def[symmetric] enc prod.case fields zero_pos_def
        vam_position.simps encode_zero bind.bind_lunit msg_def ..
    moreover obtain c' where "rcp_transmit 1 msg 50 c = Some (0, c')"
    proof -
      have "wn_mac (g_wnet c) \<noteq> []" using w by (auto simp: wnet_ready_def)
      then show thesis
        using rcp_transmit_through[OF w, of msg "[]" 1 thesis] that unfolding len by simp
    qed
    ultimately show thesis using that by simp
  qed
  then show ?thesis using send_rsa_sets_curve[OF run] by (simp add: demo_cms_def demo_local zero_sta_def)
qed

text \<open>A message without hops from a station some twelve thousand kilometres away.\<close>

lemma demo_distance:
  assumes "s_pos a = zero_pos" "s_pos b = zero_pos" "s_dir a = Fin 0"
  obtains d where "vsm_get_relative_pos demo_libm a b = Fin d" "12742000 \<le> d" "d \<le> 12744000"
proof -
  have E: "EARTH_RADIUS = to_fl Double (6371004 / 1000)" by (simp add: EARTH_RADIUS_def)
  obtain r where r: "EARTH_RADIUS = Fin r" "6371 \<le> r" "r \<le> 6372"
    unfolding E by (rule to_fl_between[of 6371 "6371004 / 1000" 6372 Double]) auto
  obtain t where t: "to_fl Double (2 * r) = Fin t" "12742 \<le> t" "t \<le> 12744"
    by (rule to_fl_between[of 12742 "2 * r" 12744 Double]) (use r in auto)
  obtain u where u: "to_fl Single t = Fin u" "12742 \<le> u" "u \<le> 12744"
    by (rule to_fl_between[of 12742 t 12744 Single]) (use t in auto)
  obtain d where d: "to_fl Single (u * 1000) = Fin d" "12742000 \<le> d" "d \<le> 12744000"
    by (rule to_fl_between[of 12742000 "u * 1000" 12744000 Single]) (use u in auto)
  obtain p where p: "PI = Fin p" "3 \<le> p" "p \<le> 4"
    unfolding PI_def by (rule to_fl_between[of 3 "31415926 / 10000000" 4 Double]) auto
  have div: "fl_div Double (Fin 0) PI = Fin 0" using p(2) by (simp add: p(1))
  have acos: "m_acos demo_libm x = Fin 0" for x by (simp add: demo_libm_def)
  have two: "to_fl Double 2 = Fin 2" "to_fl Single 2 = Fin 2"
    using fl_of_int_exact[of 2 Double] fl_of_int_exact[of 2 Single] by (simp_all add: fl_of_int_def)
  have dist: "getDistanceVer2 demo_libm (Fin 0) (Fin 0) (Fin 0) (Fin 0) = Fin u"
    by (simp add: getDistanceVer2_def demo_libm_def fl_sub_def int_f_small Let_def two r(1) t(1) u(1))
  have "vsm_get_relative_pos demo_libm a b = Fin d"
    using d(1) u(2)
    by (simp add: vsm_get_relative_pos_def assms zero_pos_def dist div acos Let_def fl_le_def
        fl_sub_def int_f_small)
  then show thesis using that d by simp
qed

theorem relay_zero_hops_witness:
  "\<exists>c' a. mda_handle demo_libm (demo_msg 0) demo_bsm 42 demo_cms = Some (0, c') \<and> fwd_list (g_mda c') [a]
    \<and> msgid_hops (tb_data (forward_buf (g_mda c') a) ! 0) = 7"
proof -
  obtain d where d: "vsm_get_relative_pos demo_libm (local demo_vam) zero_sta = Fin d"
    "12742000 \<le> d" "d \<le> 12744000"
    by (rule demo_distance[of "local demo_vam" zero_sta]) (simp_all add: demo_local zero_sta_def)
  define k where "k = trunc d"
  have kb: "12742000 \<le> k" "k \<le> 12744000"
    using d(2,3) unfolding k_def trunc_def by (auto simp: le_floor_iff floor_le_iff)
  have k: "0 < k" "k < 2 ^ 24" using kb by simp_all
  have pos: "vam_get_peer_relative_pos demo_libm (systime demo_cms) zero_sta [9, 8, 7, 6] 0 demo_vam = Some k"
    using kb find_peer_pool[OF demo_vam_init(2), of "[9, 8, 7, 6]"] d(1)
    by (simp add: vam_get_peer_relative_pos_def vam_get_peer_status_def vam_get_local_status_def
        fl_to_int.simps flip: k_def)
  obtain t where t: "delay_of_distance k = Some t" "0 \<le> t" using delay_range[OF k] by blast
  have "alg_farest_node demo_libm demo_cms ((demo_msg 0)\<lparr>mi_left_hops := 255\<rparr>) = Some t"
    using pos t(1) by (simp add: alg_farest_node_def demo_cms_def)
  then show ?thesis
    using t(2) by (intro relay_zero_hops) (simp_all add: demo_mda demo_bsm_def)
qed

theorem no_fix_no_position_witness:
  "\<exists>g' v'. nmea_parse demo_libm 100 [36, 71, 80, 71, 71, 65, 44, 49, 44, 42, 54, 54, 13, 10] 14
      (vt_gps demo_task, demo_vam) = Some (g', v') \<and> v' = demo_vam"
proof -
  let ?b = "[36, 71, 80, 71, 71, 65, 44, 49, 44, 42, 54, 54, 13, 10] :: bytes"
  have "nmea_parse demo_libm 100 ?b 14 (vt_gps demo_task, demo_vam) = Some (vt_gps demo_task, demo_vam)"
    by (simp add: nmea_parse_def pack_type_def nmea_gga_def demo_task_def)
  moreover have "\<not> IsLocate (vt_gps demo_task)" by (simp add: demo_task_def)
  ultimately show ?thesis using no_fix_no_position by fastforce
qed

end
