(* ===== verification/VsaSafe.thy ===== *)
theory VsaSafe
  imports Vsa VamMain
begin

text \<open>
  What the safety applications guarantee. The close-range list is abstracted to the sequence of
  stations with their application and counter; the operations of the code refine those of an
  abstract specification, from which the debouncing of alerts and the connection between
  pending alerts and listed stations follow for every interleaving of the two tasks, the timers
  and the events of the vehicle manager.
\<close>

section \<open>The close-range list, abstractly\<close>

type_synonym danger = "bytes \<times> nat \<times> nat"

definition danger_find :: "bytes \<Rightarrow> danger list \<Rightarrow> danger option" where
  "danger_find pid = List.find (\<lambda>d. fst d = pid)"

text \<open>A station is dangerous once more: enter it, count it up, or raise the alert.\<close>

definition spec_danger :: "nat \<Rightarrow> bytes \<Rightarrow> danger list \<Rightarrow> danger list \<times> bool" where
  "spec_danger i pid ds =
     (case danger_find pid ds of
        None \<Rightarrow> ((pid, i, 1) # ds, False)
      | Some (p, j, c) \<Rightarrow>
          if j \<noteq> i then (ds, False)
          else if 5 \<le> c then (ds, True)
          else (map (\<lambda>d. if fst d = pid then (pid, i, c + 1) else d) ds, False))"

text \<open>A station is not dangerous: count it down, or let it go and report its application.\<close>

definition spec_clear :: "bytes \<Rightarrow> danger list \<Rightarrow> danger list \<times> nat option" where
  "spec_clear pid ds =
     (case danger_find pid ds of
        None \<Rightarrow> (ds, None)
      | Some (p, j, c) \<Rightarrow>
          if c \<noteq> 0 then (map (\<lambda>d. if fst d = pid then (pid, j, c - 1) else d) ds, None)
          else (filter (\<lambda>d. fst d \<noteq> pid) ds, Some j))"

abbreviation apps :: "danger list \<Rightarrow> nat set" where "apps ds \<equiv> (\<lambda>d. fst (snd d)) ` set ds"

definition key :: "vsa_envar \<Rightarrow> caddr \<Rightarrow> bytes" where
  "key v p = take RCP_TEMP_ID_LEN (k_pid (crd_node v p))"

definition danger_of :: "vsa_envar \<Rightarrow> caddr \<Rightarrow> danger" where
  "danger_of v p = (key v p, unat (ccw_id (crd_node v p)), unat (ccw_cnt (crd_node v p)))"

text \<open>\<open>crd_list v xs\<close>: the list of \<open>v\<close> has the nodes \<open>xs\<close>, of different stations, none of them beyond the
  allocated ones, with small counters and one of the two close-range applications.\<close>

definition crd_list :: "vsa_envar \<Rightarrow> caddr list \<Rightarrow> bool" where
  "crd_list v xs \<longleftrightarrow> dll (crd_links v) CrdList xs \<and> set xs \<subseteq> CNode ` {..<next_crd v}
     \<and> distinct (map (key v) xs)
     \<and> (\<forall>p \<in> set xs. ccw_cnt (crd_node v p) \<le> 5 \<and> unat (ccw_id (crd_node v p)) \<in> {VSA_ID_CRD, VSA_ID_CRD_REAR})"

abbreviation dangers :: "vsa_envar \<Rightarrow> caddr list \<Rightarrow> danger list" where
  "dangers v xs \<equiv> map (danger_of v) xs"

lemma crd_listD:
  assumes "crd_list v xs"
  shows "dll (crd_links v) CrdList xs" "distinct (map (key v) xs)" "distinct xs" "CNode (next_crd v) \<notin> set xs"
    "CrdList \<notin> set xs"
  using assms by (auto simp: crd_list_def dest: dll_distinct)

lemma crd_find:
  assumes "crd_list v xs"
  shows "list_find (\<lambda>pos. pid_eq pid (k_pid (crd_node v pos))) (crd_links v) CrdList
    = Some (List.find (\<lambda>p. key v p = take RCP_TEMP_ID_LEN pid) xs)"
  using list_find_dll[OF crd_listD(1)[OF assms]] by (simp add: pid_eq_def key_def eq_commute)

lemma danger_find_map: "danger_find k (dangers v xs) = map_option (danger_of v) (List.find (\<lambda>p. key v p = k) xs)"
  by (induction xs) (simp_all add: danger_find_def danger_of_def)

text \<open>Writing one node of the list.\<close>

lemma crd_list_node:
  assumes "crd_list v xs" "p \<in> set xs" "k_pid n = k_pid (crd_node v p)" "ccw_id n = ccw_id (crd_node v p)"
    "ccw_cnt n \<le> 5"
  shows "crd_list (v\<lparr>crd_node := (crd_node v)(p := n)\<rparr>) xs"
    "dangers (v\<lparr>crd_node := (crd_node v)(p := n)\<rparr>) xs
      = map (\<lambda>d. if fst d = key v p then (key v p, unat (ccw_id n), unat (ccw_cnt n)) else d) (dangers v xs)"
proof -
  let ?w = "v\<lparr>crd_node := (crd_node v)(p := n)\<rparr>"
  have k: "key ?w q = key v q" for q using assms(3) by (simp add: key_def)
  then have km: "key ?w = key v" by (simp add: fun_eq_iff)
  show "crd_list ?w xs"
    using assms unfolding crd_list_def km by auto
  have "danger_of ?w q = (if key v q = key v p then (key v p, unat (ccw_id n), unat (ccw_cnt n)) else danger_of v q)"
    if "q \<in> set xs" for q
  proof (cases "q = p")
    case False
    then have "key v q \<noteq> key v p"
      using crd_listD(2)[OF assms(1)] that assms(2) by (auto simp: distinct_map dest: inj_onD)
    then show ?thesis using False k by (simp add: danger_of_def key_def)
  qed (use assms k in \<open>simp add: danger_of_def key_def\<close>)
  then show "dangers ?w xs
      = map (\<lambda>d. if fst d = key v p then (key v p, unat (ccw_id n), unat (ccw_cnt n)) else d) (dangers v xs)"
    by (auto simp: danger_of_def)
qed

lemma crd_list_create:
  assumes "crd_list v xs" "take RCP_TEMP_ID_LEN pid \<notin> key v ` set xs" "i \<in> {VSA_ID_CRD, VSA_ID_CRD_REAR}"
  shows "crd_list (crd_create i pid v) (CNode (next_crd v) # xs)"
    "dangers (crd_create i pid v) (CNode (next_crd v) # xs) = (take RCP_TEMP_ID_LEN pid, i, 1) # dangers v xs"
proof -
  let ?n = "CNode (next_crd v)" and ?w = "crd_create i pid v"
  have new: "?n \<notin> set (CrdList # xs)" using crd_listD(4)[OF assms(1)] by simp
  have k: "key ?w q = (if q = ?n then take RCP_TEMP_ID_LEN pid else key v q)" for q
    by (simp add: crd_create_def key_def Let_def)
  have old: "q \<in> set xs \<Longrightarrow> q \<noteq> ?n" for q using new by auto
  then have d: "q \<in> set xs \<Longrightarrow> crd_node ?w q = crd_node v q" for q
    by (simp add: crd_create_def Let_def)
  have i: "unat (of_nat i :: u8) = i" using assms(3) by (auto simp: vsa_id_defs)
  have "map (key ?w) xs = map (key v) xs" using old k by simp
  then have "distinct (map (key ?w) (?n # xs))"
    using crd_listD(2)[OF assms(1)] assms(2) k[of ?n] by (metis distinct.simps(2) list.set_map list.simps(9))
  moreover have "dll (crd_links ?w) CrdList (?n # xs)"
    using dll_list_add[OF crd_listD(1)[OF assms(1)] new] by (simp add: crd_create_def Let_def)
  moreover have "crd_node ?w ?n = \<lparr>k_pid = take RCP_TEMP_ID_LEN pid, ccw_id = of_nat i, ccw_cnt = 1\<rparr>" "next_crd ?w = next_crd v + 1"
    by (simp_all add: crd_create_def Let_def)
  ultimately show "crd_list ?w (?n # xs)"
    using assms(1,3) i d by (auto simp: crd_list_def)
  show "dangers ?w (?n # xs) = (take RCP_TEMP_ID_LEN pid, i, 1) # dangers v xs"
    using d old k i by (auto simp: danger_of_def crd_create_def Let_def)
qed

lemma crd_list_remove:
  assumes "crd_list v (us @ p # vs)"
  shows "crd_list (v\<lparr>crd_links := list_del p (crd_links v)\<rparr>) (us @ vs)"
    "dangers (v\<lparr>crd_links := list_del p (crd_links v)\<rparr>) (us @ vs)
      = filter (\<lambda>d. fst d \<noteq> key v p) (dangers v (us @ p # vs))"
proof -
  let ?w = "v\<lparr>crd_links := list_del p (crd_links v)\<rparr>"
  have km: "key ?w = key v" "danger_of ?w = danger_of v" by (simp_all add: key_def danger_of_def fun_eq_iff)
  have d: "dll (crd_links ?w) CrdList (us @ vs)"
    using dll_list_del[OF crd_listD(1)[OF assms]] by simp
  have dk: "distinct (map (key v) us @ key v p # map (key v) vs)"
    using crd_listD(2)[OF assms] by simp
  then have "distinct (map (key v) (us @ vs))" by simp
  then show "crd_list ?w (us @ vs)"
    using assms d unfolding crd_list_def km by simp
  have "key v q \<noteq> key v p" if "q \<in> set (us @ vs)" for q
    using dk that by (metis Un_iff distinct.simps(2) distinct_append image_eqI list.set_map
        disjoint_insert(1) list.simps(15) set_append)
  then have "filter (\<lambda>d. fst d \<noteq> key v p) (dangers v (us @ vs)) = dangers v (us @ vs)"
    by (intro filter_True) (auto simp: danger_of_def)
  moreover have "filter (\<lambda>d. fst d \<noteq> key v p) (dangers v (us @ p # vs))
      = filter (\<lambda>d. fst d \<noteq> key v p) (dangers v (us @ vs))"
    by (simp add: danger_of_def)
  ultimately show "dangers ?w (us @ vs) = filter (\<lambda>d. fst d \<noteq> key v p) (dangers v (us @ p # vs))"
    unfolding km by simp
qed

section \<open>Reading the state after an operation\<close>

lemma upd_vsa_sel [simp]: "vsa (upd_vsa f g) = f (vsa g)" "sys (upd_vsa f g) = sys g" "cg (upd_vsa f g) = cg g"
  by (simp_all add: upd_vsa_def)

lemma upd_cg_vam_sel [simp]: "vsa (upd_cg_vam f g) = vsa g" "sys (upd_cg_vam f g) = sys g"
  "g_vam (cg (upd_cg_vam f g)) = f (g_vam (cg g))"
  by (simp_all add: upd_cg_vam_def)

lemma tell_sys_sel [simp]: "vsa (tell_sys i a g) = vsa g" "cg (tell_sys i a g) = cg g"
  "sys (tell_sys i a g) = snd (sys_add_event_queue (sys g) i 0 a)"
  by (simp_all add: tell_sys_def)

lemma tell_vsa_sel [simp]: "sys (tell_vsa i l a g) = sys g" "cg (tell_vsa i l a g) = cg g"
  "vsa (tell_vsa i l a g) = vsaq.put \<lparr>m_id = i, m_len = l, m_argc = a, m_argv = ()\<rparr> (vsa g)"
  by (simp_all add: tell_vsa_def vsaq.put_def vsa_event_def)

text \<open>Nothing but the queue changes when an event is queued.\<close>

lemma vsa_put_sel [simp]:
  "alert_pend (vsaq.put m v) = alert_pend v" "crd_links (vsaq.put m v) = crd_links v"
  "crd_node (vsaq.put m v) = crd_node v" "next_crd (vsaq.put m v) = next_crd v"
  "position_links (vsaq.put m v) = position_links v" "position_node (vsaq.put m v) = position_node v"
  "alert_mask (vsaq.put m v) = alert_mask v" "vsa_app_handler_tbl (vsaq.put m v) = vsa_app_handler_tbl v"
  "timer_ebd_send (vsaq.put m v) = timer_ebd_send v" "vsa_param (vsaq.put m v) = vsa_param v"
  "timer_position_prepro (vsaq.put m v) = timer_position_prepro v"
  "vsa_remote (vsaq.put m v) = vsa_remote v"
  by (simp_all add: vsaq.put_def vsa_event_def vsa_add_event_queue_def osal_queue_send_def)

text \<open>\<open>crd_list\<close> and \<open>dangers\<close> read three fields.\<close>

lemma crd_list_cong:
  assumes "crd_links w = crd_links v" "crd_node w = crd_node v" "next_crd w = next_crd v"
  shows "crd_list w xs = crd_list v xs" "danger_of w = danger_of v" "key w = key v"
proof -
  show k: "key w = key v" by (simp add: key_def assms fun_eq_iff)
  then show "crd_list w xs = crd_list v xs" by (simp add: crd_list_def assms)
  show "danger_of w = danger_of v" by (simp add: danger_of_def assms k fun_eq_iff)
qed

section \<open>Refinement\<close>

lemma find_ex: "List.find P xs \<noteq> None \<longleftrightarrow> (\<exists>x \<in> set xs. P x)"
  by (auto simp: find_None_iff)

lemma search_warning:
  assumes "crd_list (vsa g) xs"
  shows "vsa_search_warning i g = Some (\<exists>d \<in> set (dangers (vsa g) xs). fst (snd d) = i)"
  using list_find_dll[OF crd_listD(1)[OF assms]] list_empty_dll[OF crd_listD(1)[OF assms]]
  by (simp add: vsa_search_warning_def danger_of_def find_ex Let_def del: not_None_eq)

text \<open>The bit of an application in the word of pending alerts.\<close>

lemma id_bit_iff: "i < 32 \<Longrightarrow> bit (id_bit i) n \<longleftrightarrow> n = i"
  by (auto simp: bit_push_bit_iff bit_1_iff simp del: push_bit_of_1)

lemma has_id_bit: "i < 32 \<Longrightarrow> has_flag x (id_bit i) \<longleftrightarrow> bit x i"
  using id_bit_iff by (auto simp: has_flag_bits simp del: push_bit_of_1)

lemma bit_set_id: "i < 32 \<Longrightarrow> bit (set_flag x (id_bit i)) n \<longleftrightarrow> bit x n \<or> n = i"
  using id_bit_iff by (auto simp: set_flag_def bit_or_iff simp del: push_bit_of_1)

lemma bit_clear_id: "i < 32 \<Longrightarrow> bit (clear_flag x (id_bit i)) n \<longleftrightarrow> bit x n \<and> n \<noteq> i" for x :: u32
  using id_bit_iff[of i n] bit_beyond[of n x]
  by (auto simp: clear_flag_def bit_and_iff bit_not_iff simp del: push_bit_of_1 bit_beyond dest: bit_imp_le_length)

lemma set_id_present: "i < 32 \<Longrightarrow> has_flag x (id_bit i) \<Longrightarrow> set_flag x (id_bit i) = x"
  by (rule bit_eqI) (auto simp: bit_set_id has_id_bit simp del: push_bit_of_1)

lemma send_warning_sel:
  "i < 32 \<Longrightarrow> alert_pend (vsa (vsa_send_ccw_warning i g)) = set_flag (alert_pend (vsa g)) (id_bit i)"
  using set_id_present[of i "alert_pend (vsa g)"]
  by (simp add: vsa_send_ccw_warning_def del: push_bit_of_1)

lemma send_warning_frame [simp]:
  "crd_links (vsa (vsa_send_ccw_warning i g)) = crd_links (vsa g)"
  "crd_node (vsa (vsa_send_ccw_warning i g)) = crd_node (vsa g)"
  "next_crd (vsa (vsa_send_ccw_warning i g)) = next_crd (vsa g)"
  "cg (vsa_send_ccw_warning i g) = cg g"
  by (simp_all add: vsa_send_ccw_warning_def)

lemma ccw_add_refines:
  assumes l: "crd_list (vsa g) xs" and i: "i \<in> {VSA_ID_CRD, VSA_ID_CRD_REAR}"
    and m: "has_flag (alert_mask (vsa g)) (id_bit i)"
  obtains g' xs' where "ccw_add_list i n g = Some g'" "crd_list (vsa g') xs'" "cg g' = cg g"
    "dangers (vsa g') xs' = fst (spec_danger i (take RCP_TEMP_ID_LEN (i_pid n)) (dangers (vsa g) xs))"
    "alert_pend (vsa g') = (if snd (spec_danger i (take RCP_TEMP_ID_LEN (i_pid n)) (dangers (vsa g) xs))
                            then set_flag (alert_pend (vsa g)) (id_bit i) else alert_pend (vsa g))"
proof -
  let ?k = "take RCP_TEMP_ID_LEN (i_pid n)" and ?v = "vsa g"
  have i0: "i \<noteq> 0" "i < 32" using i by (auto simp: vsa_id_defs)
  define r where "r = List.find (\<lambda>p. key ?v p = ?k) xs"
  have df: "danger_find ?k (dangers ?v xs) = map_option (danger_of ?v) r"
    by (simp add: danger_find_map r_def)
  show thesis
  proof (cases r)
    case None
    then have "?k \<notin> key ?v ` set xs" by (auto simp: r_def find_None_iff)
    note c = crd_list_create[OF l this i]
    have "ccw_add_list i n g = Some (upd_vsa (crd_create i (i_pid n)) g)"
      using i0 m None crd_find[OF l, of "i_pid n"]
      by (simp add: ccw_add_list_def r_def Let_def del: push_bit_of_1)
    then show thesis
      by (rule that) (use c df None in \<open>auto simp: spec_danger_def crd_create_def Let_def\<close>)
  next
    case (Some p)
    then have p: "p \<in> set xs" "key ?v p = ?k" by (auto simp: r_def find_Some_iff)
    let ?n = "crd_node ?v p"
    have ne: "\<not> list_empty CrdList (crd_links ?v)"
      using list_empty_dll[OF crd_listD(1)[OF l]] p(1) by auto
    have run: "ccw_add_list i n g = Some (if unat (ccw_id ?n) = i then
                  if ccw_cnt ?n \<ge> CCW_DEBOUNCE then vsa_send_ccw_warning i g
                  else upd_vsa (\<lambda>v. v\<lparr>crd_node := (crd_node v)(p := ?n\<lparr>ccw_cnt := ccw_cnt ?n + 1\<rparr>)\<rparr>) g
                else g)"
      using i0 m ne crd_find[OF l, of "i_pid n"] Some by (simp add: ccw_add_list_def r_def Let_def del: push_bit_of_1)
    have d: "danger_of ?v p = (?k, unat (ccw_id ?n), unat (ccw_cnt ?n))" using p(2) by (simp add: danger_of_def)
    consider (other) "unat (ccw_id ?n) \<noteq> i" | (full) "unat (ccw_id ?n) = i" "5 \<le> ccw_cnt ?n"
      | (more) "unat (ccw_id ?n) = i" "\<not> 5 \<le> ccw_cnt ?n" by blast
    then show thesis
    proof cases
      case other
      then show thesis using that[OF run] l df Some d by (simp add: spec_danger_def)
    next
      case full
      have u: "5 \<le> unat (ccw_cnt ?n)" using full(2) by (simp add: word_le_nat_alt)
      have "crd_list (vsa (vsa_send_ccw_warning i g)) xs" "dangers (vsa (vsa_send_ccw_warning i g)) xs = dangers ?v xs"
        using l crd_list_cong[of "vsa (vsa_send_ccw_warning i g)" ?v] by simp_all
      then show thesis
        using that[OF run, of xs] full u df Some d i0 by (simp add: spec_danger_def send_warning_sel del: push_bit_of_1)
    next
      case more
      then have u: "\<not> 5 \<le> unat (ccw_cnt ?n)" by (simp add: word_le_nat_alt)
      then have "unat (ccw_cnt ?n + 1) = unat (ccw_cnt ?n) + 1" by (subst unat_add_lem[THEN iffD1]) auto
      moreover from this u have "ccw_cnt ?n + 1 \<le> 5" by (simp add: word_le_nat_alt)
      moreover note c = crd_list_node[OF l p(1), of "?n\<lparr>ccw_cnt := ccw_cnt ?n + 1\<rparr>"]
      ultimately show thesis
        using that[OF run, of xs] more u df Some d p(2) by (simp add: spec_danger_def)
    qed
  qed
qed

text \<open>Clearing: what follows depends on the byte that is read from the freed node.\<close>

lemma cancel_warning:
  assumes "crd_list (vsa g) xs" "i < 32"
  obtains g' where "vsa_cancel_ccw_warning i g = Some g'" "cg g' = cg g"
    "crd_links (vsa g') = crd_links (vsa g)" "crd_node (vsa g') = crd_node (vsa g)" "next_crd (vsa g') = next_crd (vsa g)"
    "alert_pend (vsa g') = (if \<exists>d \<in> set (dangers (vsa g) xs). fst (snd d) = i then alert_pend (vsa g)
                            else clear_flag (alert_pend (vsa g)) (id_bit i))"
proof -
  let ?some = "\<exists>d \<in> set (dangers (vsa g) xs). fst (snd d) = i"
  note run = vsa_cancel_ccw_warning_def[of i g] search_warning[OF assms(1), of i]
  show thesis
  proof (cases "has_flag (alert_pend (vsa g)) (id_bit i) \<and> \<not> ?some")
    case True
    show thesis
      by (rule that[of "tell_sys SYS_MSG_STOP_ALERT (of_nat i)
            (upd_vsa (\<lambda>v. v\<lparr>alert_pend := clear_flag (alert_pend v) (id_bit i)\<rparr>) g)"])
        (use True run in \<open>simp_all del: push_bit_of_1 set_map\<close>)
  next
    case False
    then have "?some \<or> clear_flag (alert_pend (vsa g)) (id_bit i) = alert_pend (vsa g)"
      using clear_flag_absent by blast
    moreover have "vsa_cancel_ccw_warning i g = Some g" using run by (simp only: bind.bind_lunit if_not_P[OF False])
    ultimately show thesis by (intro that[of g]) (auto simp del: push_bit_of_1 set_map)
  qed
qed

lemma ccw_del_refines:
  assumes l: "crd_list (vsa g) xs" and f: "\<And>p. p \<in> set xs \<Longrightarrow> unat (freed (crd_node (vsa g) p)) < 32"
  obtains g' xs' where "ccw_del_list freed n g = Some g'" "crd_list (vsa g') xs'" "cg g' = cg g"
    "dangers (vsa g') xs' = fst (spec_clear (take RCP_TEMP_ID_LEN (i_pid n)) (dangers (vsa g) xs))"
    "snd (spec_clear (take RCP_TEMP_ID_LEN (i_pid n)) (dangers (vsa g) xs)) = None
      \<longrightarrow> alert_pend (vsa g') = alert_pend (vsa g)"
    "\<forall>i. snd (spec_clear (take RCP_TEMP_ID_LEN (i_pid n)) (dangers (vsa g) xs)) = Some i
      \<longrightarrow> (\<exists>p \<in> set xs. unat (ccw_id (crd_node (vsa g) p)) = i
        \<and> alert_pend (vsa g') = (let k = unat (freed (crd_node (vsa g) p)) in
             if k \<in> apps (dangers (vsa g') xs') then alert_pend (vsa g)
             else clear_flag (alert_pend (vsa g)) (id_bit k)))"
proof -
  let ?k = "take RCP_TEMP_ID_LEN (i_pid n)" and ?v = "vsa g"
  define r where "r = List.find (\<lambda>p. key ?v p = ?k) xs"
  have df: "danger_find ?k (dangers ?v xs) = map_option (danger_of ?v) r"
    by (simp add: danger_find_map r_def)
  show thesis
  proof (cases r)
    case None
    then have "ccw_del_list freed n g = Some g"
      using crd_find[OF l, of "i_pid n"] by (simp add: ccw_del_list_def r_def)
    then show thesis
      by (rule that) (use l df None in \<open>auto simp: spec_clear_def r_def\<close>)
  next
    case (Some p)
    then have p: "p \<in> set xs" "key ?v p = ?k" by (auto simp: r_def find_Some_iff)
    let ?n = "crd_node ?v p"
    have ne: "\<not> list_empty CrdList (crd_links ?v)"
      using list_empty_dll[OF crd_listD(1)[OF l]] p(1) by auto
    have d: "danger_of ?v p = (?k, unat (ccw_id ?n), unat (ccw_cnt ?n))" using p(2) by (simp add: danger_of_def)
    show thesis
    proof (cases "ccw_cnt ?n = 0")
      case False
      let ?m = "?n\<lparr>ccw_cnt := ccw_cnt ?n - 1\<rparr>"
      have run: "ccw_del_list freed n g = Some (upd_vsa (\<lambda>v. v\<lparr>crd_node := (crd_node v)(p := ?m)\<rparr>) g)"
        using crd_find[OF l, of "i_pid n"] Some False by (simp add: ccw_del_list_def r_def Let_def)
      have u: "unat (ccw_cnt ?n - 1) = unat (ccw_cnt ?n) - 1" "unat (ccw_cnt ?n) \<noteq> 0"
        using False by (simp_all add: unat_minus_one unat_eq_0)
      moreover have "unat (ccw_cnt ?n) \<le> 5" using l p(1) by (auto simp: crd_list_def word_le_nat_alt)
      ultimately have "ccw_cnt ?m \<le> 5" by (simp add: word_le_nat_alt)
      note c = crd_list_node[OF l p(1), of ?m, OF _ _ this]
      show thesis
        by (rule that[OF run, of xs]) (use c u df Some d p(2) in \<open>auto simp: spec_clear_def\<close>)
    next
      case True
      from p(1) obtain us vs where xs: "xs = us @ p # vs" by (auto dest: split_list)
      define g1 where "g1 = upd_vsa (\<lambda>v. v\<lparr>crd_links := list_del p (crd_links v)\<rparr>) g"
      note rm = crd_list_remove[OF l[unfolded xs]]
      have l1: "crd_list (vsa g1) (us @ vs)" using rm(1) by (simp add: g1_def)
      obtain g' where g': "vsa_cancel_ccw_warning (unat (freed ?n)) g1 = Some g'" "cg g' = cg g1"
        "crd_links (vsa g') = crd_links (vsa g1)" "crd_node (vsa g') = crd_node (vsa g1)" "next_crd (vsa g') = next_crd (vsa g1)"
        "alert_pend (vsa g') = (if \<exists>d \<in> set (dangers (vsa g1) (us @ vs)). fst (snd d) = unat (freed ?n) then alert_pend (vsa g1)
                            else clear_flag (alert_pend (vsa g1)) (id_bit (unat (freed ?n))))"
        using cancel_warning[OF l1 f[OF p(1)]] by blast
      have run: "ccw_del_list freed n g = Some g'"
        using crd_find[OF l, of "i_pid n"] Some True ne g'(1)
        by (simp add: ccw_del_list_def r_def Let_def g1_def)
      have c: "crd_list (vsa g') (us @ vs)" "danger_of (vsa g') = danger_of (vsa g1)"
        using crd_list_cong[OF g'(3-5)] l1 by simp_all
      have dg: "dangers (vsa g') (us @ vs) = filter (\<lambda>d. fst d \<noteq> ?k) (dangers ?v xs)"
        using rm(2) c(2) p(2) by (simp add: g1_def xs)
      then have sp: "dangers (vsa g') (us @ vs) = fst (spec_clear ?k (dangers ?v xs))"
        using df Some d True by (simp add: spec_clear_def)
      have "(\<exists>d \<in> S. fst (snd d) = j) \<longleftrightarrow> j \<in> (\<lambda>d. fst (snd d)) ` S" for j :: nat and S :: "danger set"
        by auto
      moreover have "alert_pend (vsa g1) = alert_pend ?v" by (simp add: g1_def)
      ultimately have pend: "alert_pend (vsa g') = (let k = unat (freed ?n) in
             if k \<in> apps (dangers (vsa g') (us @ vs)) then alert_pend ?v else clear_flag (alert_pend ?v) (id_bit k))"
        using g'(6) unfolding c(2) Let_def by (simp only:)
      have "snd (spec_clear ?k (dangers ?v xs)) = Some (unat (ccw_id ?n))"
        using df Some d True by (simp add: spec_clear_def)
      then show thesis
        by (intro that[OF run c(1) _ sp]) (use g'(2) pend p(1) in \<open>auto simp: g1_def simp del: push_bit_of_1\<close>)
    qed
  qed
qed

section \<open>The invariant\<close>

text \<open>\<open>same_rest\<close>: the operations on the close-range list leave everything else of the state alone,
  but for the pending alerts and the events for the system manager.\<close>

definition same_rest :: "cms_global \<Rightarrow> cms_global \<Rightarrow> bool" where
  "same_rest g h \<longleftrightarrow> cg h = cg g \<and> position_links (vsa h) = position_links (vsa g)
     \<and> position_node (vsa h) = position_node (vsa g) \<and> alert_mask (vsa h) = alert_mask (vsa g)
     \<and> vsa_app_handler_tbl (vsa h) = vsa_app_handler_tbl (vsa g) \<and> queue_vsa (vsa h) = queue_vsa (vsa g)
     \<and> vsa_param (vsa h) = vsa_param (vsa g) \<and> sem_vsa_proc (vsa h) = sem_vsa_proc (vsa g)
     \<and> queue_sys_hi (sys h) = queue_sys_hi (sys g)
     \<and> (queue_ok (queue_sys_mng (sys g)) \<longrightarrow> queue_ok (queue_sys_mng (sys h)))"

lemma same_rest_refl [simp]: "same_rest g g"
  by (simp add: same_rest_def)

lemma same_rest_trans: "same_rest g h \<Longrightarrow> same_rest h k \<Longrightarrow> same_rest g k"
  by (simp add: same_rest_def)

lemma sys_queue_ok: "queue_ok (queue_sys_mng s) \<Longrightarrow> queue_ok (queue_sys_mng (snd (sys_add_event_queue s i l a)))"
  by (simp add: sys_add_event_queue_def osal_queue_send_def queue_ok_def)

lemma same_rest_tell [intro]: "same_rest g h \<Longrightarrow> same_rest g (tell_sys i a h)"
  by (simp add: same_rest_def sys_queue_ok)

lemma same_rest_updates [intro]:
  "same_rest g h \<Longrightarrow> same_rest g (upd_vsa (\<lambda>v. v\<lparr>alert_pend := p v\<rparr>) h)"
  "same_rest g h \<Longrightarrow> same_rest g (upd_vsa (\<lambda>v. v\<lparr>crd_node := m v\<rparr>) h)"
  "same_rest g h \<Longrightarrow> same_rest g (upd_vsa (\<lambda>v. v\<lparr>crd_links := k v\<rparr>) h)"
  "same_rest g h \<Longrightarrow> same_rest g (upd_vsa (crd_create i pid) h)"
  by (simp_all add: same_rest_def crd_create_def Let_def)

lemma send_warning_rest [intro]: "same_rest g h \<Longrightarrow> same_rest g (vsa_send_ccw_warning i h)"
  by (auto simp: vsa_send_ccw_warning_def simp del: push_bit_of_1)

lemma cancel_warning_rest: "vsa_cancel_ccw_warning i g = Some h \<Longrightarrow> same_rest g h"
  by (auto simp: vsa_cancel_ccw_warning_def simp del: push_bit_of_1 split: bind_splits if_splits
      intro!: same_rest_tell same_rest_updates)

lemma ccw_add_rest: "ccw_add_list i n g = Some h \<Longrightarrow> same_rest g h"
  by (auto simp: ccw_add_list_def Let_def simp del: push_bit_of_1 split: bind_splits if_splits option.splits)

lemma ccw_del_rest:
  assumes "ccw_del_list freed n g = Some h"
  shows "same_rest g h"
proof -
  have c: "same_rest g k" if "same_rest g a" "vsa_cancel_ccw_warning i a = Some k" for a k i
    using that cancel_warning_rest same_rest_trans by blast
  show ?thesis
    using assms unfolding ccw_del_list_def Let_def
    by (auto split: bind_splits if_splits option.splits dest!: c[rotated] intro: c)
qed

text \<open>Only events that some task sends are in the queue; those of the close-range handlers, whose
  argument is not a message, are not.\<close>

definition event_ids :: "nat set" where "event_ids = {0x301, 0x302, 0x308, 0x309, 0x30C}"

definition vsa_ok :: "vsa_envar \<Rightarrow> bool" where
  "vsa_ok v \<longleftrightarrow> (\<exists>xs. crd_list v xs
       \<and> (\<forall>i \<in> {VSA_ID_CRD, VSA_ID_CRD_REAR}. bit (alert_pend v) i \<longrightarrow> (\<exists>d \<in> set (dangers v xs). fst (snd d) = i)))
     \<and> \<not> bit (alert_pend v) VSA_ID_VOT
     \<and> has_flag (alert_mask v) (id_bit VSA_ID_CRD) \<and> has_flag (alert_mask v) (id_bit VSA_ID_CRD_REAR)
     \<and> dll (position_links v) PositionList (map PNode [0..<VAM_NEIGHBOUR_MAXNUM])
     \<and> vsa_app_handler_tbl v = vsa_app_handlers
     \<and> queue_ok (queue_vsa v) \<and> (\<forall>m \<in> set (q_msgs (queue_vsa v)). unat (m_id m) \<in> event_ids)"

definition vsa_inv :: "cms_global \<Rightarrow> bool" where
  "vsa_inv g \<longleftrightarrow> vsa_ok (vsa g) \<and> queue_ok (queue_sys_mng (sys g))"

lemma danger_find_Some: "danger_find pid ds = Some e \<Longrightarrow> e \<in> set ds \<and> fst e = pid"
  by (auto simp: danger_find_def find_Some_iff)

lemma danger_unique: "distinct (map fst ds) \<Longrightarrow> d \<in> set ds \<Longrightarrow> e \<in> set ds \<Longrightarrow> fst d = fst e \<Longrightarrow> d = e"
  by (auto simp: distinct_map dest: inj_onD)

lemma apps_relabel:
  assumes "\<And>d. d \<in> set ds \<Longrightarrow> fst d = pid \<Longrightarrow> fst (snd d) = j"
  shows "apps (map (\<lambda>d. if fst d = pid then (pid, j, c) else d) ds) = apps ds"
  unfolding set_map image_image by (rule image_cong) (use assms in auto)

lemma same_app:
  assumes "distinct (map fst ds)" "danger_find pid ds = Some (p, j, c)" "d \<in> set ds" "fst d = pid"
  shows "fst (snd d) = j"
  using danger_unique[OF assms(1,3), of "(p, j, c)"] danger_find_Some[OF assms(2)] assms(4) by simp

text \<open>No application loses its last station but by the removal that is reported.\<close>

lemma spec_danger_ids:
  assumes "distinct (map fst ds)"
  shows "apps ds \<subseteq> apps (fst (spec_danger i pid ds))"
    "snd (spec_danger i pid ds) \<Longrightarrow> i \<in> apps (fst (spec_danger i pid ds))"
proof -
  show "apps ds \<subseteq> apps (fst (spec_danger i pid ds))"
  proof (cases "danger_find pid ds")
    case (Some e)
    obtain p j c where e: "e = (p, j, c)" by (rule prod_cases3)
    have "apps ds \<subseteq> apps (map (\<lambda>d. if fst d = pid then (pid, j, c + 1) else d) ds)"
      by (subst apps_relabel) (rule same_app[OF assms Some[unfolded e]], auto)
    moreover have "fst (spec_danger i pid ds) =
        (if j = i \<and> \<not> 5 \<le> c then map (\<lambda>d. if fst d = pid then (pid, j, c + 1) else d) ds else ds)"
      using Some by (auto simp: spec_danger_def e)
    ultimately show ?thesis by (simp del: set_map)
  qed (auto simp: spec_danger_def)
  assume raise: "snd (spec_danger i pid ds)"
  then obtain p c where f: "danger_find pid ds = Some (p, i, c)" "fst (spec_danger i pid ds) = ds"
    by (auto simp: spec_danger_def split: option.splits if_splits)
  show "i \<in> apps (fst (spec_danger i pid ds))"
    using danger_find_Some[OF f(1)] f(2) by (intro image_eqI[of _ _ "(p, i, c)"]) auto
qed

lemma spec_clear_ids:
  assumes "distinct (map fst ds)"
  shows "apps ds \<subseteq> apps (fst (spec_clear pid ds)) \<union> set_option (snd (spec_clear pid ds))"
proof (cases "danger_find pid ds")
  case (Some e)
  obtain p j c where e: "e = (p, j, c)" by (rule prod_cases3)
  note same = same_app[OF assms Some[unfolded e]]
  have "apps (map (\<lambda>d. if fst d = pid then (pid, j, c - 1) else d) ds) = apps ds"
    by (rule apps_relabel) (rule same)
  moreover have "apps ds \<subseteq> apps (filter (\<lambda>d. fst d \<noteq> pid) ds) \<union> {j}" using same by auto
  ultimately show ?thesis using Some by (simp add: spec_clear_def e del: set_map set_filter)
qed (auto simp: spec_clear_def)

lemma dangers_distinct: "crd_list v xs \<Longrightarrow> distinct (map fst (dangers v xs))"
  using crd_listD(2) by (simp add: danger_of_def comp_def cong: map_cong)

section \<open>One round of the close-range task\<close>

definition judged :: "vsa_envar \<Rightarrow> nat \<Rightarrow> nat" where
  "judged v i = (let n = position_node v (PNode i); f = cfcw_judge (vsa_param v) n
     in if f \<noteq> 0 then f else crcw_judge (vsa_param v) n)"

lemma judged_range: "judged v i \<in> {0, VSA_ID_CRD, VSA_ID_CRD_REAR}"
  by (simp add: judged_def cfcw_judge_def crcw_judge_def Let_def vsa_id_defs)

text \<open>With the table as initialised the four questions come down to the two judgements.\<close>

lemma ask_all:
  assumes "vsa_app_handler_tbl (vsa g) = vsa_app_handlers" "i < VAM_NEIGHBOUR_MAXNUM"
  shows "do { r \<leftarrow> ask False 3 i (x, g); r \<leftarrow> ask True 4 i r; r \<leftarrow> ask True 5 i r; ask True 6 i r }
    = Some (Some (judged (vsa g) i), g)"
  using assms
  by (simp add: ask_def vsa_app_handlers_def vsa_app_def vsa_cfcw_alarm_proc_def vsa_crcw_alarm_proc_def
      judged_def Let_def)

lemma alarm_loop_step:
  assumes "vsa_app_handler_tbl (vsa g) = vsa_app_handlers" "i < VAM_NEIGHBOUR_MAXNUM"
  shows "alarm_loop freed (i # is) x g = do {
      g' \<leftarrow> (if judged (vsa g) i \<noteq> 0
            then ccw_add_list (judged (vsa g) i) (position_node (vsa g) (PNode i)) g
            else ccw_del_list freed (position_node (vsa g) (PNode i)) g);
      alarm_loop freed is (Some (judged (vsa g) i)) g'
    }"
proof -
  have "alarm_loop freed (i # is) x g = do {
      (y, h) \<leftarrow> do { r \<leftarrow> ask False 3 i (x, g); r \<leftarrow> ask True 4 i r; r \<leftarrow> ask True 5 i r; ask True 6 i r };
      n \<leftarrow> y;
      g' \<leftarrow> (if n \<noteq> 0 then ccw_add_list n (position_node (vsa h) (PNode i)) h
            else ccw_del_list freed (position_node (vsa h) (PNode i)) h);
      alarm_loop freed is y g'
    }"
    by simp
  also have "\<dots> = do {
      g' \<leftarrow> (if judged (vsa g) i \<noteq> 0
            then ccw_add_list (judged (vsa g) i) (position_node (vsa g) (PNode i)) g
            else ccw_del_list freed (position_node (vsa g) (PNode i)) g);
      alarm_loop freed is (Some (judged (vsa g) i)) g'
    }"
    unfolding ask_all[OF assms] by simp
  finally show ?thesis .
qed

text \<open>\<open>keeps_id\<close>: reading a freed node still gives its application.\<close>

definition keeps_id :: "(vsa_crd_node \<Rightarrow> u8) \<Rightarrow> bool" where
  "keeps_id freed \<longleftrightarrow> (\<forall>n. freed n = ccw_id n)"

lemma vsa_ok_same_rest:
  assumes "vsa_ok (vsa g)" "same_rest g h" "crd_list (vsa h) xs"
    and "\<And>i. i \<in> {VSA_ID_CRD, VSA_ID_CRD_REAR} \<Longrightarrow> bit (alert_pend (vsa h)) i \<Longrightarrow> i \<in> apps (dangers (vsa h) xs)"
    and "\<not> bit (alert_pend (vsa h)) VSA_ID_VOT"
  shows "vsa_ok (vsa h)"
proof -
  have "\<forall>i \<in> {VSA_ID_CRD, VSA_ID_CRD_REAR}. bit (alert_pend (vsa h)) i \<longrightarrow> (\<exists>d \<in> set (dangers (vsa h) xs). fst (snd d) = i)"
    using assms(4) by (metis (no_types, lifting) imageE)
  then show ?thesis
    using assms(1,2,3,5) unfolding vsa_ok_def same_rest_def by simp blast
qed

lemma vsa_okE:
  assumes "vsa_ok v"
  obtains xs where "crd_list v xs"
    "\<And>k. k \<in> {VSA_ID_CRD, VSA_ID_CRD_REAR} \<Longrightarrow> bit (alert_pend v) k \<Longrightarrow> k \<in> apps (dangers v xs)"
  using assms unfolding vsa_ok_def by (metis (no_types, lifting) image_eqI)

lemma vsa_okD:
  assumes "vsa_ok v"
  shows "\<not> bit (alert_pend v) VSA_ID_VOT" "vsa_app_handler_tbl v = vsa_app_handlers"
    "i \<in> {VSA_ID_CRD, VSA_ID_CRD_REAR} \<Longrightarrow> has_flag (alert_mask v) (id_bit i)"
  using assms by (auto simp: vsa_ok_def simp del: push_bit_of_1)

lemma ccw_add_ok:
  assumes ok: "vsa_ok (vsa g)" and j: "j \<in> {VSA_ID_CRD, VSA_ID_CRD_REAR}"
  obtains g' where "ccw_add_list j n g = Some g'" "vsa_ok (vsa g')" "same_rest g g'"
proof -
  obtain xs where l: "crd_list (vsa g) xs"
    and p: "\<And>k. k \<in> {VSA_ID_CRD, VSA_ID_CRD_REAR} \<Longrightarrow> bit (alert_pend (vsa g)) k \<Longrightarrow> k \<in> apps (dangers (vsa g) xs)"
    by (rule vsa_okE[OF ok]) blast
  have j': "j < 32" "j \<noteq> VSA_ID_VOT" using j by (auto simp: vsa_id_defs)
  define sp where "sp = spec_danger j (take RCP_TEMP_ID_LEN (i_pid n)) (dangers (vsa g) xs)"
  obtain g' xs' where g': "ccw_add_list j n g = Some g'" "crd_list (vsa g') xs'" "dangers (vsa g') xs' = fst sp"
    "alert_pend (vsa g') = (if snd sp then set_flag (alert_pend (vsa g)) (id_bit j) else alert_pend (vsa g))"
    by (rule ccw_add_refines[OF l j vsa_okD(3)[OF ok j], of n]) (simp add: sp_def)
  note ids = spec_danger_ids[OF dangers_distinct[OF l], of j "take RCP_TEMP_ID_LEN (i_pid n)", folded sp_def, folded g'(3)]
  have pend: "bit (alert_pend (vsa g')) k \<longleftrightarrow> bit (alert_pend (vsa g)) k \<or> (snd sp \<and> k = j)" for k
    using g'(4) j'(1) by (simp add: bit_set_id del: push_bit_of_1)
  have "vsa_ok (vsa g')"
  proof (rule vsa_ok_same_rest[OF ok ccw_add_rest[OF g'(1)] g'(2)])
    show "k \<in> apps (dangers (vsa g') xs')"
      if k: "k \<in> {VSA_ID_CRD, VSA_ID_CRD_REAR}" "bit (alert_pend (vsa g')) k" for k
      using k(2) p[OF k(1)] ids unfolding pend by (elim disjE) (blast, simp)
    show "\<not> bit (alert_pend (vsa g')) VSA_ID_VOT"
      using vsa_okD(1)[OF ok] j'(2) unfolding pend by blast
  qed
  then show thesis using that g'(1) ccw_add_rest[OF g'(1)] by blast
qed

lemma ccw_del_ok:
  assumes ok: "vsa_ok (vsa g)" and f: "keeps_id freed"
  obtains g' where "ccw_del_list freed n g = Some g'" "vsa_ok (vsa g')" "same_rest g g'"
proof -
  obtain xs where l: "crd_list (vsa g) xs"
    and p: "\<And>k. k \<in> {VSA_ID_CRD, VSA_ID_CRD_REAR} \<Longrightarrow> bit (alert_pend (vsa g)) k \<Longrightarrow> k \<in> apps (dangers (vsa g) xs)"
    by (rule vsa_okE[OF ok]) blast
  have fk: "freed n = ccw_id n" for n using f by (simp add: keeps_id_def)
  have small: "unat (freed (crd_node (vsa g) p)) < 32" if "p \<in> set xs" for p
    using l that unfolding fk by (auto simp: crd_list_def vsa_id_defs)
  define sp where "sp = spec_clear (take RCP_TEMP_ID_LEN (i_pid n)) (dangers (vsa g) xs)"
  obtain g' xs' where g': "ccw_del_list freed n g = Some g'" "crd_list (vsa g') xs'" "dangers (vsa g') xs' = fst sp"
    and none: "snd sp = None \<longrightarrow> alert_pend (vsa g') = alert_pend (vsa g)"
    and some: "\<forall>i. snd sp = Some i \<longrightarrow> (\<exists>p \<in> set xs. unat (ccw_id (crd_node (vsa g) p)) = i
        \<and> alert_pend (vsa g') = (let k = unat (freed (crd_node (vsa g) p)) in
             if k \<in> apps (dangers (vsa g') xs') then alert_pend (vsa g)
             else clear_flag (alert_pend (vsa g)) (id_bit k)))"
    unfolding sp_def by (rule ccw_del_refines[where g = g and xs = xs and freed = freed and n = n, OF l small])
  have some': "alert_pend (vsa g') = (if i \<in> apps (dangers (vsa g') xs') then alert_pend (vsa g)
             else clear_flag (alert_pend (vsa g)) (id_bit i)) \<and> i < 32" if "snd sp = Some i" for i
    using some that small by (fastforce simp: fk Let_def simp del: push_bit_of_1 set_map)
  note ids = spec_clear_ids[OF dangers_distinct[OF l], of "take RCP_TEMP_ID_LEN (i_pid n)", folded sp_def, folded g'(3)]
  have pend: "bit (alert_pend (vsa g')) k \<longleftrightarrow> bit (alert_pend (vsa g)) k
      \<and> (\<forall>i. snd sp = Some i \<longrightarrow> i \<in> apps (dangers (vsa g') xs') \<or> k \<noteq> i)" for k
    using none some' by (cases "snd sp") (auto simp: bit_clear_id simp del: push_bit_of_1 set_map)
  have "vsa_ok (vsa g')"
  proof (rule vsa_ok_same_rest[OF ok ccw_del_rest[OF g'(1)] g'(2)])
    show "k \<in> apps (dangers (vsa g') xs')"
      if k: "k \<in> {VSA_ID_CRD, VSA_ID_CRD_REAR}" "bit (alert_pend (vsa g')) k" for k
    proof -
      have "k \<in> apps (dangers (vsa g') xs') \<union> set_option (snd sp)"
        using k(2) p[OF k(1)] ids unfolding pend by blast
      then show ?thesis using k(2) unfolding pend by auto
    qed
    show "\<not> bit (alert_pend (vsa g')) VSA_ID_VOT" using vsa_okD(1)[OF ok] unfolding pend by blast
  qed
  then show thesis using that g'(1) ccw_del_rest[OF g'(1)] by blast
qed

lemma round_step:
  assumes ok: "vsa_ok (vsa g)" and f: "keeps_id freed" and i: "i < VAM_NEIGHBOUR_MAXNUM"
  shows "\<exists>h. alarm_loop freed (i # is) x g = alarm_loop freed is (Some (judged (vsa g) i)) h
    \<and> vsa_ok (vsa h) \<and> same_rest g h"
proof -
  let ?n = "position_node (vsa g) (PNode i)" and ?j = "judged (vsa g) i"
  note step = alarm_loop_step[OF vsa_okD(2)[OF ok] i, of freed "is" x]
  show ?thesis
  proof (cases "?j = 0")
    case True
    obtain h where h: "ccw_del_list freed ?n g = Some h" "vsa_ok (vsa h)" "same_rest g h"
      by (rule ccw_del_ok[OF ok f])
    then show ?thesis unfolding step using True by (intro exI[of _ h]) simp
  next
    case False
    then have "?j \<in> {VSA_ID_CRD, VSA_ID_CRD_REAR}" using judged_range[of "vsa g" i] by auto
    then obtain h where h: "ccw_add_list ?j ?n g = Some h" "vsa_ok (vsa h)" "same_rest g h"
      by (rule ccw_add_ok[OF ok])
    then show ?thesis unfolding step using False by (intro exI[of _ h]) simp
  qed
qed

lemma alarm_loop_ok:
  "vsa_ok (vsa g) \<Longrightarrow> keeps_id freed \<Longrightarrow> \<forall>i \<in> set is. i < VAM_NEIGHBOUR_MAXNUM \<Longrightarrow>
    \<exists>g'. alarm_loop freed is x g = Some g' \<and> vsa_ok (vsa g') \<and> same_rest g g'"
proof (induction "is" arbitrary: g x)
  case (Cons i "is")
  obtain h where h: "alarm_loop freed (i # is) x g = alarm_loop freed is (Some (judged (vsa g) i)) h"
    "vsa_ok (vsa h)" "same_rest g h"
    using round_step[OF Cons.prems(1,2), of i "is" x] Cons.prems(3) by auto
  have "\<forall>i \<in> set is. i < VAM_NEIGHBOUR_MAXNUM" using Cons.prems(3) by simp
  from Cons.IH[OF h(2) Cons.prems(2) this] obtain g'
    where "alarm_loop freed is (Some (judged (vsa g) i)) h = Some g'" "vsa_ok (vsa g')" "same_rest h g'"
    by blast
  then show ?case using h(1) same_rest_trans[OF h(3)] by (intro exI[of _ g']) simp
qed simp

section \<open>Every step\<close>

text \<open>\<open>vsa_ok\<close> does not read the other fields.\<close>

lemma vsa_ok_cong:
  assumes "crd_links w = crd_links v" "crd_node w = crd_node v" "next_crd w = next_crd v"
    "alert_pend w = alert_pend v" "alert_mask w = alert_mask v" "position_links w = position_links v"
    "vsa_app_handler_tbl w = vsa_app_handler_tbl v" "queue_vsa w = queue_vsa v"
  shows "vsa_ok w = vsa_ok v"
  unfolding vsa_ok_def crd_list_cong[OF assms(1-3)] by (simp only: assms(4-8))

lemma vsa_ok_fields [simp]:
  "vsa_ok (v\<lparr>vsa_local := a\<rparr>) = vsa_ok v" "vsa_ok (v\<lparr>vsa_remote := a\<rparr>) = vsa_ok v"
  "vsa_ok (v\<lparr>gps_status := b\<rparr>) = vsa_ok v" "vsa_ok (v\<lparr>sem_vsa_proc := c\<rparr>) = vsa_ok v"
  "vsa_ok (v\<lparr>position_node := d\<rparr>) = vsa_ok v" "vsa_ok (v\<lparr>timer_ebd_send := e\<rparr>) = vsa_ok v"
  "vsa_ok (v\<lparr>timer_position_prepro := e\<rparr>) = vsa_ok v"
  by (rule vsa_ok_cong; simp)+

lemma vsa_ok_put:
  assumes "vsa_ok v" "unat (m_id m) \<in> event_ids"
  shows "vsa_ok (vsaq.put m v)"
proof -
  have "queue_vsa (vsaq.put m v) = snd (osal_queue_send m (queue_vsa v))"
    by (cases m) (simp add: vsaq.put_def vsa_event_def vsa_add_event_queue_def Let_def split: prod.split)
  moreover note crd_list_cong[of "vsaq.put m v" v]
  ultimately show ?thesis
    using assms by (auto simp: vsa_ok_def osal_queue_send_def queue_ok_def simp del: push_bit_of_1)
qed

text \<open>The pending bits of the applications other than close range may change.\<close>

lemma vsa_ok_pend:
  assumes "vsa_ok v" "\<And>i. i \<in> {VSA_ID_CRD, VSA_ID_CRD_REAR, VSA_ID_VOT} \<Longrightarrow> bit x i \<Longrightarrow> bit (alert_pend v) i"
  shows "vsa_ok (v\<lparr>alert_pend := x\<rparr>)"
proof -
  have d: "danger_of (v\<lparr>alert_pend := x\<rparr>) = danger_of v" "crd_list (v\<lparr>alert_pend := x\<rparr>) = crd_list v"
    using crd_list_cong[of "v\<lparr>alert_pend := x\<rparr>" v] by (simp_all add: fun_eq_iff)
  show ?thesis using assms unfolding vsa_ok_def d by (simp del: push_bit_of_1) blast
qed

lemma vsa_inv_tell [intro]: "vsa_inv g \<Longrightarrow> vsa_inv (tell_sys i a g)"
  by (simp add: vsa_inv_def sys_queue_ok)

lemma vsa_inv_event [intro]: "vsa_inv g \<Longrightarrow> unat i \<in> event_ids \<Longrightarrow> vsa_inv (tell_vsa i l a g)"
  by (simp add: vsa_inv_def vsa_ok_put)

lemma vsa_inv_vam [simp]: "vsa_inv (upd_cg_vam f g) = vsa_inv g" "vsa_inv (g\<lparr>cg := c\<rparr>) = vsa_inv g"
  by (simp_all add: vsa_inv_def)

lemma vsa_inv_fields [simp]:
  "vsa_inv (upd_vsa (\<lambda>v. v\<lparr>vsa_local := a\<rparr>) g) = vsa_inv g"
  "vsa_inv (upd_vsa (\<lambda>v. v\<lparr>vsa_remote := a\<rparr>) g) = vsa_inv g"
  "vsa_inv (upd_vsa (\<lambda>v. v\<lparr>gps_status := b\<rparr>) g) = vsa_inv g"
  "vsa_inv (upd_vsa (\<lambda>v. v\<lparr>sem_vsa_proc := c v\<rparr>) g) = vsa_inv g"
  "vsa_inv (upd_vsa (\<lambda>v. v\<lparr>position_node := d v\<rparr>) g) = vsa_inv g"
  "vsa_inv (upd_vsa (\<lambda>v. v\<lparr>timer_ebd_send := e v\<rparr>) g) = vsa_inv g"
  "vsa_inv (upd_vsa (\<lambda>v. v\<lparr>timer_position_prepro := e v\<rparr>) g) = vsa_inv g"
  by (simp_all add: vsa_inv_def)

lemma relay_alarm_inv [intro]:
  "vsa_inv g \<Longrightarrow> unat m \<in> event_ids \<Longrightarrow> vsa_inv (relay_alarm on i m a g)"
  by (auto simp: relay_alarm_def Let_def simp del: push_bit_of_1)

lemma vsa_callback_inv:
  assumes "vsa_callback h = Some f" "f a g = Some g'" "vsa_inv g"
  shows "vsa_inv g'"
proof -
  have ids: "unat VSA_MSG_ACC_RC \<in> event_ids" "unat VSA_MSG_EEBL_RC \<in> event_ids"
    "unat VSA_MSG_XXX_RC \<in> event_ids" "unat VSA_MSG_EEBL_BC \<in> event_ids"
    by (simp_all add: event_ids_def)
  have "f \<in> {vsa_local_status_update, vsa_bsm_status_update, vsa_receive_alarm_update, vsa_gps_status_update,
      vsa_eebl_broadcast_update, vsa_receive_rsa_update}"
    using assms(1) by (auto simp: vsa_callback_def split: if_splits)
  then consider "f = vsa_local_status_update" | "f = vsa_bsm_status_update" | "f = vsa_receive_alarm_update"
    | "f = vsa_gps_status_update" | "f = vsa_eebl_broadcast_update" | "f = vsa_receive_rsa_update" by blast
  then show ?thesis
  proof cases
    case 3
    then show ?thesis
      using assms(2,3) unfolding vsa_receive_alarm_update_def Let_def
      by (auto simp: vsa_inv_fields simp del: push_bit_of_1 split: bind_splits evt_arg.splits
          intro!: relay_alarm_inv ids)
  qed (use assms(2,3) ids in \<open>auto simp: vsa_local_status_update_def vsa_bsm_status_update_def
      vsa_gps_status_update_def vsa_eebl_broadcast_update_def vsa_receive_rsa_update_def Let_def
      simp del: push_bit_of_1 split: evt_arg.splits if_splits\<close>)
qed

lemma vsa_deliver_inv: "vsa_deliver g = Some g' \<Longrightarrow> vsa_inv g \<Longrightarrow> vsa_inv g'"
  by (auto simp: vsa_deliver_def split: list.splits bind_splits) (erule (1) vsa_callback_inv, simp)

lemma vsa_start_inv: "vsa_start g = Some g' \<Longrightarrow> vsa_inv g \<Longrightarrow> vsa_inv g'"
  by (auto simp: vsa_start_def vsa_gps_status_update_def Let_def split: if_splits)

lemma stop_alert_inv:
  assumes "vsa_inv g" "i < 32"
  shows "vsa_inv (stop_alert i g)"
proof -
  have "vsa_ok ((vsa g)\<lparr>alert_pend := clear_flag (alert_pend (vsa g)) (id_bit i)\<rparr>)"
    using assms by (intro vsa_ok_pend) (auto simp: vsa_inv_def bit_clear_id simp del: push_bit_of_1)
  then show ?thesis
    using assms(1) by (auto simp: stop_alert_def vsa_inv_def sys_queue_ok simp del: push_bit_of_1)
qed

lemma latch_alarm_inv:
  assumes "vsa_inv g" "i \<in> {VSA_ID_VBD, VSA_ID_EBD}"
  shows "vsa_inv (latch_alarm i n g)"
proof -
  have i: "i < 32" "i \<notin> {VSA_ID_CRD, VSA_ID_CRD_REAR, VSA_ID_VOT}" using assms(2) by (auto simp: vsa_id_defs)
  have "vsa_ok ((vsa g)\<lparr>alert_pend := set_flag (alert_pend (vsa g)) (id_bit i)\<rparr>)"
    "vsa_ok ((vsa g)\<lparr>alert_pend := clear_flag (alert_pend (vsa g)) (id_bit i)\<rparr>)"
    using assms(1) i
    by (auto intro!: vsa_ok_pend simp: vsa_inv_def bit_clear_id bit_set_id simp del: push_bit_of_1)
  then show ?thesis
    using assms(1) by (auto simp: latch_alarm_def vsa_inv_def sys_queue_ok simp del: push_bit_of_1)
qed

text \<open>The task for the events never leaves the handler table: every event it takes has a handler,
  and the handler takes a message.\<close>

lemma vsa_thread_ok:
  assumes "vsa_inv g"
  shows "\<exists>g'. vsa_thread_entry g = Some g' \<and> vsa_inv g'"
proof (cases "q_msgs (queue_vsa (vsa g))")
  case Nil
  then show ?thesis using assms by (simp add: vsa_thread_entry_def osal_queue_recv_def)
next
  case (Cons m ms)
  define g1 where "g1 = upd_vsa (\<lambda>v. v\<lparr>queue_vsa := (queue_vsa (vsa g))\<lparr>q_msgs := ms\<rparr>\<rparr>) g"
  have tbl: "vsa_app_handler_tbl (vsa g1) = vsa_app_handlers"
    using assms by (simp add: g1_def vsa_inv_def vsa_ok_def)
  have ok: "vsa_inv g1"
  proof -
    have "vsa_ok (vsa g)" using assms by (simp add: vsa_inv_def)
    then obtain xs where "crd_list (vsa g) xs" "\<And>k. k \<in> {VSA_ID_CRD, VSA_ID_CRD_REAR} \<Longrightarrow>
        bit (alert_pend (vsa g)) k \<Longrightarrow> \<exists>d \<in> set (dangers (vsa g) xs). fst (snd d) = k"
      unfolding vsa_ok_def by blast
    moreover have "danger_of (vsa g1) = danger_of (vsa g)" "crd_list (vsa g1) = crd_list (vsa g)"
      using crd_list_cong[of "vsa g1" "vsa g"] by (simp_all add: g1_def fun_eq_iff)
    ultimately show ?thesis
      using assms Cons unfolding vsa_inv_def vsa_ok_def
      by (auto simp: g1_def queue_ok_def simp del: push_bit_of_1)
  qed
  have m: "unat (m_id m) \<in> event_ids" using assms Cons by (simp add: vsa_inv_def vsa_ok_def)
  have run: "vsa_thread_entry g = (case vsa_app_handlers ! (unat (m_id m) - 0x301) of None \<Rightarrow> Some g1
      | Some h \<Rightarrow> map_option snd (vsa_app h (ArgMsg m) g1))"
    using m tbl by (auto simp: vsa_thread_entry_def osal_queue_recv_def Cons g1_def event_ids_def vsa_app_handlers_def)
  show ?thesis
    using m ok unfolding run event_ids_def
    by (auto simp: vsa_app_handlers_def vsa_app_def vsa_manual_broadcast_proc_def vsa_eebl_broadcast_proc_def
        vsa_accident_recieve_proc_def vsa_eebl_recieve_proc_def intro!: latch_alarm_inv vsa_inv_tell)
qed

lemma preprocess_loop_inv: "preprocess_loop M l i ps r t g = Some g' \<Longrightarrow> vsa_inv g \<Longrightarrow> vsa_inv g'"
proof (induction ps arbitrary: i r t g)
  case (Cons pid ps)
  then obtain a b c d e where "preprocess_loop M l (i + 1) ps a b
      ((upd_vsa (\<lambda>v. v\<lparr>position_node := c v\<rparr>) g)\<lparr>cg := (cg (upd_vsa d g))\<lparr>g_vam := e\<rparr>\<rparr>) = Some g'"
    by (auto simp: Let_def split: bind_splits)
  then show ?case by (rule Cons.IH) (simp add: Cons.prems(2))
qed simp

lemma vsa_preprocess_inv:
  assumes "vsa_preprocess_pos M g = Some (n, g')" "vsa_inv g"
  shows "vsa_inv g'"
proof (cases "g' = g")
  case False
  then obtain l i ps r t where "preprocess_loop M l i ps r t g = Some g'"
    using assms(1) by (auto simp: vsa_preprocess_pos_def Let_def split: bind_splits if_splits)
  then show ?thesis using preprocess_loop_inv assms(2) by blast
qed (use assms in simp)

text \<open>A round of the task: it waited, or it assessed the neighbours and one of three things followed.\<close>

lemma vsa_base_round:
  assumes "vsa_base_proc M freed g = Some h"
  obtains (waits) "h = g"
  | (round) n g2 where "vsa_preprocess_pos M (upd_vsa (\<lambda>v. v\<lparr>sem_vsa_proc := sem_vsa_proc v - 1\<rparr>) g) = Some (n, g2)"
      "h = g2 \<or> h = stop_alert VSA_ID_CRD_REAR (stop_alert VSA_ID_CRD g2)
       \<or> n \<le> VAM_NEIGHBOUR_MAXNUM \<and> alarm_loop freed [0..<n] None g2 = Some h"
proof (cases "sem_vsa_proc (vsa g) = 0")
  case False
  define g1 where "g1 = upd_vsa (\<lambda>v. v\<lparr>sem_vsa_proc := sem_vsa_proc v - 1\<rparr>) g"
  have run: "vsa_preprocess_pos M g1 \<bind> (\<lambda>(n, g).
      if n > VAM_NEIGHBOUR_MAXNUM then Some g
      else if n = 0 then Some (stop_alert VSA_ID_CRD_REAR (stop_alert VSA_ID_CRD g))
      else alarm_loop freed [0..<n] None g) = Some h"
    using assms False unfolding vsa_base_proc_def Let_def g1_def by simp
  then obtain n g2 where g2: "vsa_preprocess_pos M g1 = Some (n, g2)"
    by (cases "vsa_preprocess_pos M g1") auto
  show thesis
    by (rule round[OF g2[unfolded g1_def]])
      (use run g2 in \<open>cases "n > VAM_NEIGHBOUR_MAXNUM"; cases "n = 0"; simp\<close>)
qed (use assms waits in \<open>simp add: vsa_base_proc_def\<close>)

lemma vsa_base_inv:
  assumes "vsa_base_proc M freed g = Some g'" "vsa_inv g" "keeps_id freed"
  shows "vsa_inv g'"
  using assms(1)
proof (cases rule: vsa_base_round)
  case (round n g2)
  have i2: "vsa_inv g2" by (rule vsa_preprocess_inv[OF round(1)]) (simp add: assms(2))
  from round(2) show ?thesis
  proof (elim disjE conjE)
    assume "g' = stop_alert VSA_ID_CRD_REAR (stop_alert VSA_ID_CRD g2)"
    then show ?thesis using stop_alert_inv[OF stop_alert_inv[OF i2]] by (simp add: vsa_id_defs)
  next
    assume n: "n \<le> VAM_NEIGHBOUR_MAXNUM" and l: "alarm_loop freed [0..<n] None g2 = Some g'"
    have "\<forall>i \<in> set [0..<n]. i < VAM_NEIGHBOUR_MAXNUM" using n by auto
    moreover have "vsa_ok (vsa g2)" using i2 by (simp add: vsa_inv_def)
    ultimately obtain h where "alarm_loop freed [0..<n] None g2 = Some h" "vsa_ok (vsa h)" "same_rest g2 h"
      using alarm_loop_ok[of g2 freed "[0..<n]" None] assms(3) by blast
    then show ?thesis using l i2 by (simp add: vsa_inv_def same_rest_def)
  qed (use i2 in simp)
qed (use assms(2) in simp)

text \<open>
  The steps of the applications: the two tasks, the two timers, the calls of the vehicle
  manager, the request of an operator to announce a break-down, and everything the other tasks
  do to the vehicle manager's state and the system manager's queue.
\<close>

inductive vsa_step :: "libm \<Rightarrow> (vsa_crd_node \<Rightarrow> u8) \<Rightarrow> cms_global \<Rightarrow> cms_global \<Rightarrow> bool" for M freed where
  base: "vsa_base_proc M freed g = Some g' \<Longrightarrow> vsa_step M freed g g'"
| thread: "vsa_thread_entry g = Some g' \<Longrightarrow> vsa_step M freed g g'"
| tick: "vsa_step M freed g (timer_preprocess_pos_callback g)"
| braking_over: "vsa_step M freed g (timer_ebd_send_callback g)"
| deliver: "vsa_deliver g = Some g' \<Longrightarrow> vsa_step M freed g g'"
| begin_apps: "vsa_start g = Some g' \<Longrightarrow> vsa_step M freed g g'"
| operator: "vsa_step M freed g (tell_vsa VSA_MSG_MANUAL_BC 0 a g)"
| vehicle: "vsa_step M freed g (g\<lparr>cg := c\<rparr>)"
| manager: "queue_ok (queue_sys_mng s) \<Longrightarrow> vsa_step M freed g (g\<lparr>sys := s\<rparr>)"

inductive vsa_reachable :: "libm \<Rightarrow> (vsa_crd_node \<Rightarrow> u8) \<Rightarrow> cms_global \<Rightarrow> bool" for M freed where
  init: "vsa_init hc hp cfg = Some v \<Longrightarrow> vsa_reachable M freed \<lparr>cg = c, vsa = v, sys = sys_init\<rparr>"
| step: "vsa_reachable M freed g \<Longrightarrow> vsa_step M freed g g' \<Longrightarrow> vsa_reachable M freed g'"

lemma vsa_step_inv: "vsa_step M freed g g' \<Longrightarrow> vsa_inv g \<Longrightarrow> keeps_id freed \<Longrightarrow> vsa_inv g'"
proof (induction rule: vsa_step.induct)
  case (thread g g')
  then show ?case using vsa_thread_ok[of g] by auto
next
  case (operator g a)
  then show ?case by (auto simp: event_ids_def)
next
  case (manager s g)
  then show ?case by (simp add: vsa_inv_def)
qed (auto simp: timer_preprocess_pos_callback_def timer_ebd_send_callback_def
    dest: vsa_base_inv vsa_deliver_inv vsa_start_inv)

lemma position_list_init:
  "dll (fold (\<lambda>i. list_add_tail (PNode i) PositionList) [0..<n] (INIT_LIST_HEAD PositionList h))
     PositionList (map PNode [0..<n])"
proof (induction n)
  case (Suc n)
  have "PNode n \<notin> set (PositionList # map PNode [0..<n])" by auto
  from dll_list_add_tail[OF Suc this] show ?case by simp
qed (simp add: dll_init)

lemma vsa_init_inv:
  assumes "vsa_init hc hp cfg = Some v"
  shows "vsa_inv \<lparr>cg = c, vsa = v, sys = sys_init\<rparr>"
proof -
  have h: "map2 (\<lambda>i. If False None) [0..<12] vsa_app_handlers = vsa_app_handlers"
    by (simp add: vsa_app_handlers_def upt_rec)
  have "has_flag (id_bit VSA_ID_CRD OR id_bit VSA_ID_CRD_REAR OR id_bit VSA_ID_VBD OR id_bit VSA_ID_EBD :: u32) (id_bit i)"
    if "i \<in> {VSA_ID_CRD, VSA_ID_CRD_REAR}" for i
    using that by (auto simp: has_flag_def vsa_id_defs)
  moreover have "crd_list v []" "alert_pend v = 0" "queue_vsa v = osal_queue_create VSA_QUEUE_SIZE"
    "vsa_app_handler_tbl v = vsa_app_handlers"
    "dll (position_links v) PositionList (map PNode [0..<VAM_NEIGHBOUR_MAXNUM])"
    "alert_mask v = id_bit VSA_ID_CRD OR id_bit VSA_ID_CRD_REAR OR id_bit VSA_ID_VBD OR id_bit VSA_ID_EBD"
    using assms h position_list_init[of VAM_NEIGHBOUR_MAXNUM hp]
    by (auto simp: vsa_init_def Let_def crd_list_def dll_init split: bind_splits simp del: push_bit_of_1)
  ultimately show ?thesis
    by (auto simp: vsa_inv_def vsa_ok_def osal_queue_create_def queue_ok_def sys_init_def
        simp del: push_bit_of_1 intro!: exI[of _ "[]"])
qed

lemma vsa_reachable_inv: "vsa_reachable M freed g \<Longrightarrow> keeps_id freed \<Longrightarrow> vsa_inv g"
  by (induction rule: vsa_reachable.induct) (auto intro: vsa_init_inv vsa_step_inv)

section \<open>Debouncing\<close>

primrec repeat :: "nat \<Rightarrow> ('a \<Rightarrow> 'a option) \<Rightarrow> 'a \<Rightarrow> 'a option" where
  "repeat 0 f x = Some x"
| "repeat (Suc k) f x = do { y \<leftarrow> repeat k f x; f y }"

lemma danger_counted:
  assumes "crd_list (vsa g) xs" "i \<in> {VSA_ID_CRD, VSA_ID_CRD_REAR}" "has_flag (alert_mask (vsa g)) (id_bit i)"
    "take RCP_TEMP_ID_LEN (i_pid n) \<notin> key (vsa g) ` set xs"
  shows "\<exists>g' xs'. repeat k (ccw_add_list i n) g = Some g' \<and> crd_list (vsa g') xs' \<and> same_rest g g'
    \<and> dangers (vsa g') xs' = (if k = 0 then [] else [(take RCP_TEMP_ID_LEN (i_pid n), i, min k 5)]) @ dangers (vsa g) xs
    \<and> alert_pend (vsa g') = (if 6 \<le> k then set_flag (alert_pend (vsa g)) (id_bit i) else alert_pend (vsa g))"
proof (induction k)
  case 0
  show ?case by (intro exI[of _ g] exI[of _ xs]) (use assms(1) in simp)
next
  case (Suc k)
  let ?p = "take RCP_TEMP_ID_LEN (i_pid n)" and ?ds = "dangers (vsa g) xs"
  from Suc obtain g' xs' where g': "repeat k (ccw_add_list i n) g = Some g'" "crd_list (vsa g') xs'" "same_rest g g'"
    "dangers (vsa g') xs' = (if k = 0 then [] else [(?p, i, min k 5)]) @ ?ds"
    "alert_pend (vsa g') = (if 6 \<le> k then set_flag (alert_pend (vsa g)) (id_bit i) else alert_pend (vsa g))"
    by blast
  have m: "has_flag (alert_mask (vsa g')) (id_bit i)" using g'(3) assms(3) by (simp add: same_rest_def)
  obtain h ys where h: "ccw_add_list i n g' = Some h" "crd_list (vsa h) ys"
    "dangers (vsa h) ys = fst (spec_danger i ?p (dangers (vsa g') xs'))"
    "alert_pend (vsa h) = (if snd (spec_danger i ?p (dangers (vsa g') xs'))
                            then set_flag (alert_pend (vsa g')) (id_bit i) else alert_pend (vsa g'))"
    by (rule ccw_add_refines[OF g'(2) assms(2) m])
  have new: "d \<in> set ?ds \<Longrightarrow> fst d \<noteq> ?p" for d using assms(4) by (auto simp: danger_of_def dest: image_eqI[OF sym])
  then have none: "danger_find ?p ?ds = None" by (simp add: danger_find_def find_None_iff)
  have keep: "map (\<lambda>d. if fst d = ?p then (?p, i, c) else d) ?ds = ?ds" for c
    by (rule map_idI) (use new in auto)
  have sp: "spec_danger i ?p (dangers (vsa g') xs') = ((?p, i, min (Suc k) 5) # ?ds, 5 \<le> k)"
    using none keep[of "k + 1"] unfolding g'(4)
    by (cases "k = 0"; cases "5 \<le> k") (simp_all add: spec_danger_def danger_find_def del: map_map)
  have twice: "set_flag (set_flag x b) b = set_flag x b" for x b :: u32
    by (simp add: set_flag_def or.assoc)
  show ?case
  proof (intro exI conjI)
    show "repeat (Suc k) (ccw_add_list i n) g = Some h" using g'(1) h(1) by simp
    show "crd_list (vsa h) ys" by (rule h(2))
    show "same_rest g h" using same_rest_trans[OF g'(3) ccw_add_rest[OF h(1)]] .
    show "dangers (vsa h) ys = (if Suc k = 0 then [] else [(?p, i, min (Suc k) 5)]) @ ?ds"
      using h(3) sp by simp
    show "alert_pend (vsa h) = (if 6 \<le> Suc k then set_flag (alert_pend (vsa g)) (id_bit i) else alert_pend (vsa g))"
      using h(4) g'(5) sp twice by (simp del: push_bit_of_1)
  qed
qed

section \<open>Sectors\<close>

lemma div_steps:
  "div_step 3 = Fin (135 / 2)" "div_step 5 = Fin (225 / 2)" "div_step 7 = Fin (315 / 2)" "div_step 9 = Fin (405 / 2)"
  "div_step 11 = Fin (495 / 2)" "div_step 13 = Fin (585 / 2)" "div_step 15 = Fin (675 / 2)"
  by code_simp+

abbreviation (input) sector_names :: "u32 list" where
  "sector_names \<equiv> [AHEAD, AHEAD_RIGHT, RIGHT, BEHIND_RIGHT, BEHIND, BEHIND_LEFT, LEFT, AHEAD_LEFT]"

lemma sector_of_delta:
  assumes "0 \<le> d" "d \<le> (360 :: rat)"
  shows "(if fl_lt (div_step 15) (Fin d) \<or> fl_le (Fin d) DIRECTION_DIVIDE then AHEAD
            else if fl_lt DIRECTION_DIVIDE (Fin d) \<and> fl_le (Fin d) (div_step 3) then AHEAD_RIGHT
            else if fl_lt (div_step 3) (Fin d) \<and> fl_le (Fin d) (div_step 5) then RIGHT
            else if fl_lt (div_step 5) (Fin d) \<and> fl_le (Fin d) (div_step 7) then BEHIND_RIGHT
            else if fl_lt (div_step 7) (Fin d) \<and> fl_le (Fin d) (div_step 9) then BEHIND
            else if fl_lt (div_step 9) (Fin d) \<and> fl_le (Fin d) (div_step 11) then BEHIND_LEFT
            else if fl_lt (div_step 11) (Fin d) \<and> fl_le (Fin d) (div_step 13) then LEFT
            else if fl_lt (div_step 13) (Fin d) \<and> fl_le (Fin d) (div_step 15) then AHEAD_LEFT
            else POSITION_ERROR) = sector_names ! (nat \<lceil>(d - 45 / 2) / 45\<rceil> mod 8)"
proof -
  have c: "\<lceil>(d - 45 / 2) / 45\<rceil> = k" if "of_int k * 45 - 45 < d - 45 / 2" "d - 45 / 2 \<le> of_int k * 45" for k
    using that by (intro ceiling_unique) (simp_all add: field_simps)
  consider "d \<le> 45 / 2" | "45 / 2 < d" "d \<le> 135 / 2" | "135 / 2 < d" "d \<le> 225 / 2"
    | "225 / 2 < d" "d \<le> 315 / 2" | "315 / 2 < d" "d \<le> 405 / 2" | "405 / 2 < d" "d \<le> 495 / 2"
    | "495 / 2 < d" "d \<le> 585 / 2" | "585 / 2 < d" "d \<le> 675 / 2" | "675 / 2 < d" by linarith
  then show ?thesis
    unfolding div_steps using c[of 0] c[of 1] c[of 2] c[of 3] c[of 4] c[of 5] c[of 6] c[of 7] c[of 8] assms
    by cases (simp_all add: DIRECTION_DIVIDE_def fl_le_def)
qed

lemma classify_form:
  "\<exists>delta. vsa_position_classify loc rem pos =
     (if fl_lt (int_f 360) delta \<or> fl_lt delta (Fin 0) then (POSITION_ERROR, None)
      else ((if fl_lt (div_step 15) delta \<or> fl_le delta DIRECTION_DIVIDE then AHEAD
            else if fl_lt DIRECTION_DIVIDE delta \<and> fl_le delta (div_step 3) then AHEAD_RIGHT
            else if fl_lt (div_step 3) delta \<and> fl_le delta (div_step 5) then RIGHT
            else if fl_lt (div_step 5) delta \<and> fl_le delta (div_step 7) then BEHIND_RIGHT
            else if fl_lt (div_step 7) delta \<and> fl_le delta (div_step 9) then BEHIND
            else if fl_lt (div_step 9) delta \<and> fl_le delta (div_step 11) then BEHIND_LEFT
            else if fl_lt (div_step 11) delta \<and> fl_le delta (div_step 13) then LEFT
            else if fl_lt (div_step 13) delta \<and> fl_le delta (div_step 15) then AHEAD_LEFT
            else POSITION_ERROR), Some delta))"
  unfolding vsa_position_classify_def Let_def by (rule exI, rule refl)

section \<open>Undefined offsets\<close>

lemma offset_undefined:
  assumes "trig (fl_div Single (fl_mul Single delta PI_f) (int_f 180)) = Fin s"
    and "of_int dis * s \<le> -1" "\<bar>dis\<bar> < 2 ^ 53"
  shows "offset_of trig dis delta = None"
proof -
  let ?q = "of_int dis * s"
  have "rnd Double 1 = 1" using rnd_of_int[of 1 Double] by simp
  then have "1 \<le> rnd Double (- ?q)" using rnd_mono[of 1 "- ?q" Double] assms(2) by simp
  then have r: "rnd Double ?q \<le> -1" by (simp add: rnd_minus)
  then have "\<not> 0 \<le> trunc (rnd Double ?q)" by (simp add: trunc_def)
  then have "fl_to_u32 (to_fl Double ?q) = None"
    by (simp add: fl_to_u32_def to_fl_def Let_def)
  moreover have "fl_of_int Double dis = Fin (of_int dis)" using assms(3) by (intro fl_of_int_exact) simp
  ultimately show ?thesis by (simp add: offset_of_def assms(1))
qed

section \<open>Dangers nobody assesses\<close>

text \<open>\<open>listed v d\<close>: the close-range list has the entry \<open>d\<close>.\<close>

definition listed :: "vsa_envar \<Rightarrow> danger \<Rightarrow> bool" where
  "listed v d \<longleftrightarrow> (\<exists>xs. crd_list v xs \<and> d \<in> set (dangers v xs))"

lemma spec_keeps:
  assumes "d \<in> set ds" "fst d \<noteq> pid"
  shows "d \<in> set (fst (spec_danger i pid ds))" "d \<in> set (fst (spec_clear pid ds))"
  using assms by (auto simp: spec_danger_def spec_clear_def image_iff split: option.split intro!: bexI[of _ d])

lemma crd_list_unique: "crd_list v xs \<Longrightarrow> crd_list v ys \<Longrightarrow> xs = ys"
  using list_entries_dll crd_listD(1) by (metis option.inject)

lemma ccw_add_keeps:
  assumes ok: "vsa_ok (vsa g)" and j: "j \<in> {VSA_ID_CRD, VSA_ID_CRD_REAR}"
    and d: "listed (vsa g) d" "fst d \<noteq> take RCP_TEMP_ID_LEN (i_pid n)" "bit (alert_pend (vsa g)) (fst (snd d))"
    and run: "ccw_add_list j n g = Some h"
  shows "listed (vsa h) d \<and> bit (alert_pend (vsa h)) (fst (snd d))"
proof -
  obtain xs where xs: "crd_list (vsa g) xs" "d \<in> set (dangers (vsa g) xs)" using d(1) by (auto simp: listed_def)
  have j': "j < 32" using j by (auto simp: vsa_id_defs)
  obtain g' xs' where g': "ccw_add_list j n g = Some g'" "crd_list (vsa g') xs'"
    "dangers (vsa g') xs' = fst (spec_danger j (take RCP_TEMP_ID_LEN (i_pid n)) (dangers (vsa g) xs))"
    "alert_pend (vsa g') = (if snd (spec_danger j (take RCP_TEMP_ID_LEN (i_pid n)) (dangers (vsa g) xs))
                            then set_flag (alert_pend (vsa g)) (id_bit j) else alert_pend (vsa g))"
    by (rule ccw_add_refines[OF xs(1) j vsa_okD(3)[OF ok j], of n])
  have "d \<in> set (dangers (vsa g') xs')" unfolding g'(3) by (rule spec_keeps[OF xs(2) d(2)])
  moreover have "bit (alert_pend (vsa g')) (fst (snd d))"
    using d(3) j' unfolding g'(4) by (simp add: bit_set_id del: push_bit_of_1)
  ultimately show ?thesis using run g'(1,2) by (auto simp: listed_def)
qed

lemma ccw_del_keeps:
  assumes f: "keeps_id freed"
    and d: "listed (vsa g) d" "fst d \<noteq> take RCP_TEMP_ID_LEN (i_pid n)" "bit (alert_pend (vsa g)) (fst (snd d))"
    and run: "ccw_del_list freed n g = Some h"
  shows "listed (vsa h) d \<and> bit (alert_pend (vsa h)) (fst (snd d))"
proof -
  let ?sp = "spec_clear (take RCP_TEMP_ID_LEN (i_pid n))"
  obtain xs where xs: "crd_list (vsa g) xs" "d \<in> set (dangers (vsa g) xs)" using d(1) by (auto simp: listed_def)
  have small: "unat (freed (crd_node (vsa g) p)) < 32" if "p \<in> set xs" for p
    using xs(1) that f by (auto simp: keeps_id_def crd_list_def vsa_id_defs)
  obtain g' xs' where g': "ccw_del_list freed n g = Some g'" "crd_list (vsa g') xs'"
    "dangers (vsa g') xs' = fst (?sp (dangers (vsa g) xs))"
    and none: "snd (?sp (dangers (vsa g) xs)) = None \<longrightarrow> alert_pend (vsa g') = alert_pend (vsa g)"
    and some: "\<forall>i. snd (?sp (dangers (vsa g) xs)) = Some i
      \<longrightarrow> (\<exists>p \<in> set xs. unat (ccw_id (crd_node (vsa g) p)) = i
        \<and> alert_pend (vsa g') = (let k = unat (freed (crd_node (vsa g) p)) in
             if k \<in> apps (dangers (vsa g') xs') then alert_pend (vsa g)
             else clear_flag (alert_pend (vsa g)) (id_bit k)))"
    by (rule ccw_del_refines[where g = g and xs = xs and freed = freed and n = n, OF xs(1) small])
  have keep: "d \<in> set (dangers (vsa g') xs')" unfolding g'(3) by (rule spec_keeps[OF xs(2) d(2)])
  then have app: "fst (snd d) \<in> apps (dangers (vsa g') xs')" by (rule imageI)
  have "bit (alert_pend (vsa g')) (fst (snd d))"
  proof (cases "snd (?sp (dangers (vsa g) xs))")
    case None
    then show ?thesis using none d(3) by simp
  next
    case (Some i)
    obtain p where "p \<in> set xs" and p: "alert_pend (vsa g') = (let k = unat (freed (crd_node (vsa g) p)) in
             if k \<in> apps (dangers (vsa g') xs') then alert_pend (vsa g)
             else clear_flag (alert_pend (vsa g)) (id_bit k))"
      using some Some by blast
    show ?thesis
    proof (cases "unat (freed (crd_node (vsa g) p)) \<in> apps (dangers (vsa g') xs')")
      case False
      then have "fst (snd d) \<noteq> unat (freed (crd_node (vsa g) p))" using app by metis
      then show ?thesis
        using p False d(3) small[OF \<open>p \<in> set xs\<close>] unfolding Let_def
        by (simp add: bit_clear_id del: push_bit_of_1 set_map)
    qed (use p d(3) in \<open>simp add: Let_def del: set_map\<close>)
  qed
  then show ?thesis using run g'(1,2) keep by (auto simp: listed_def)
qed

lemma alarm_loop_keeps:
  "vsa_ok (vsa g) \<Longrightarrow> keeps_id freed \<Longrightarrow> \<forall>i \<in> set is. i < VAM_NEIGHBOUR_MAXNUM \<Longrightarrow>
    \<forall>i \<in> set is. fst d \<noteq> take RCP_TEMP_ID_LEN (i_pid (position_node (vsa g) (PNode i))) \<Longrightarrow>
    listed (vsa g) d \<Longrightarrow> bit (alert_pend (vsa g)) (fst (snd d)) \<Longrightarrow>
    \<exists>h. alarm_loop freed is x g = Some h \<and> listed (vsa h) d \<and> bit (alert_pend (vsa h)) (fst (snd d))"
proof (induction "is" arbitrary: g x)
  case (Cons i "is")
  let ?n = "position_node (vsa g) (PNode i)" and ?j = "judged (vsa g) i"
  have i: "i < VAM_NEIGHBOUR_MAXNUM" and k: "fst d \<noteq> take RCP_TEMP_ID_LEN (i_pid ?n)"
    using Cons.prems(3,4) by simp_all
  note step = alarm_loop_step[OF vsa_okD(2)[OF Cons.prems(1)] i, of freed "is" x]
  have "\<exists>h. (if ?j \<noteq> 0 then ccw_add_list ?j ?n g else ccw_del_list freed ?n g) = Some h \<and> vsa_ok (vsa h)
      \<and> same_rest g h \<and> listed (vsa h) d \<and> bit (alert_pend (vsa h)) (fst (snd d))"
  proof (cases "?j = 0")
    case True
    obtain h where h: "ccw_del_list freed ?n g = Some h" "vsa_ok (vsa h)" "same_rest g h"
      by (rule ccw_del_ok[OF Cons.prems(1,2)])
    then show ?thesis using ccw_del_keeps[OF Cons.prems(2,5) k Cons.prems(6) h(1)] True by simp
  next
    case False
    then have j: "?j \<in> {VSA_ID_CRD, VSA_ID_CRD_REAR}" using judged_range[of "vsa g" i] by auto
    obtain h where h: "ccw_add_list ?j ?n g = Some h" "vsa_ok (vsa h)" "same_rest g h"
      by (rule ccw_add_ok[OF Cons.prems(1) j])
    then show ?thesis using ccw_add_keeps[OF Cons.prems(1) j Cons.prems(5) k Cons.prems(6) h(1)] False by simp
  qed
  then obtain h where h: "(if ?j \<noteq> 0 then ccw_add_list ?j ?n g else ccw_del_list freed ?n g) = Some h"
    "vsa_ok (vsa h)" "same_rest g h" "listed (vsa h) d" "bit (alert_pend (vsa h)) (fst (snd d))"
    by blast
  have "position_node (vsa h) = position_node (vsa g)" using h(3) by (simp add: same_rest_def)
  then have "\<exists>h'. alarm_loop freed is (Some ?j) h = Some h' \<and> listed (vsa h') d \<and> bit (alert_pend (vsa h')) (fst (snd d))"
    using Cons.prems(3,4) by (intro Cons.IH[OF h(2) Cons.prems(2) _ _ h(4,5)]) simp_all
  then show ?case unfolding step h(1) by simp
qed simp

section \<open>A concrete system\<close>

definition demo_vsa :: vsa_envar where
  "demo_vsa = the (vsa_init \<lparr>lnext = \<lambda>x. x, lprev = \<lambda>x. x\<rparr> \<lparr>lnext = \<lambda>x. x, lprev = \<lambda>x. x\<rparr> demo_cfg)"

definition demo_global :: cms_global where
  "demo_global = \<lparr>cg = demo_cms, vsa = demo_vsa, sys = sys_init\<rparr>"

lemma vsa_init_total: "\<exists>v. vsa_init hc hp cfg = Some v"
proof -
  obtain t1 t2 where "osal_timer_create 5000 False True = Some t1" "osal_timer_create 100 False True = Some t2"
    using osal_timer_create_ok[of 5000 False True] osal_timer_create_ok[of 100 False True] by auto
  then show ?thesis by (simp add: vsa_init_def Let_def)
qed

lemma demo_vsa_init:
  "vsa_init \<lparr>lnext = \<lambda>x. x, lprev = \<lambda>x. x\<rparr> \<lparr>lnext = \<lambda>x. x, lprev = \<lambda>x. x\<rparr> demo_cfg = Some demo_vsa"
  using vsa_init_total[of "\<lparr>lnext = \<lambda>x. x, lprev = \<lambda>x. x\<rparr>" "\<lparr>lnext = \<lambda>x. x, lprev = \<lambda>x. x\<rparr>" demo_cfg]
  by (auto simp: demo_vsa_def)

lemma demo_reachable: "vsa_reachable M freed demo_global"
  unfolding demo_global_def by (rule vsa_reachable.init[OF demo_vsa_init])

lemma vsa_init_fields: "vsa_init hc hp cfg = Some v \<Longrightarrow> alert_pend v = 0 \<and> next_crd v = 0 \<and> crd_list v []"
  by (auto simp: vsa_init_def Let_def crd_list_def dll_init split: bind_splits)

lemma demo_vsa_fields: "alert_pend demo_vsa = 0" "next_crd demo_vsa = 0" "crd_list demo_vsa []" "vsa_ok demo_vsa"
  using vsa_init_fields[OF demo_vsa_init] vsa_init_inv[OF demo_vsa_init] by (simp_all add: vsa_inv_def)

lemma demo_crd:
  "crd_list (vsa demo_global) []" "has_flag (alert_mask (vsa demo_global)) (id_bit VSA_ID_CRD)"
  "alert_pend (vsa demo_global) = 0"
  using demo_vsa_fields vsa_okD(3)[of demo_vsa VSA_ID_CRD] by (simp_all add: demo_global_def del: push_bit_of_1)

lemma vsa_init_nodes: "vsa_init hc hp cfg = Some v \<Longrightarrow> position_node v = (\<lambda>_. zero_info)"
  by (auto simp: vsa_init_def Let_def split: bind_splits)

section \<open>A neighbour on the right\<close>

text \<open>A library in which the neighbour is due east at some distance, and this station, which heads west.\<close>

definition demo_right :: libm where
  "demo_right = demo_libm\<lparr>m_sin := \<lambda>_. Fin (1 / 2)\<rparr>"

definition demo_west :: vam_stastatus where
  "demo_west = zero_sta\<lparr>s_dir := Fin 270\<rparr>"

lemma to_fl_nat: "to_fl F (numeral k) = Fin (numeral k)" if "numeral k < (2 :: int) ^ nat (prec F)"
  using fl_of_int_exact[of "numeral k" F] that by (simp add: fl_of_int_def)

lemma demo_right_data:
  obtains x where "vsm_get_data demo_right l r = \<lparr>d_distance_1_2 = Fin x, d_distance_2_3 = Fin x, d_angle = Fin 0\<rparr>"
    "12000 \<le> x" "x \<le> 14000"
proof -
  obtain p where p: "EARTH_RADIUS = Fin p" "6000 \<le> p" "p \<le> 7000"
    unfolding EARTH_RADIUS_def by (rule to_fl_between[of 6000 "6371004 / 1000" 7000 Double]) auto
  obtain q where q: "to_fl Double (2 * p) = Fin q" "12000 \<le> q" "q \<le> 14000"
    by (rule to_fl_between[of 12000 "2 * p" 14000 Double]) (use p in auto)
  obtain x where x: "to_fl Single q = Fin x" "12000 \<le> x" "x \<le> 14000"
    by (rule to_fl_between[of 12000 q 14000 Single]) (use q in auto)
  have "getDistanceVer2 demo_right a b c d = Fin x" for a b c d
    by (simp add: getDistanceVer2_def demo_right_def demo_libm_def Let_def to_fl_nat p(1) q(1) x(1))
  moreover have "m_acos demo_right z = Fin 0" for z by (simp add: demo_right_def demo_libm_def)
  moreover obtain k where k: "PI = Fin k" "3 \<le> k" "k \<le> 4"
    unfolding PI_def by (rule to_fl_between[of 3 "31415926 / 10000000" 4 Double]) auto
  moreover have "fl_div Double (Fin 0) (Fin k) = Fin 0" using k(2) by auto
  ultimately show thesis using that[of x] x by (simp add: vsm_get_data_def Let_def)
qed

lemma demo_right_distance:
  obtains dis where "fl_to_int (-2147483648) 2147483647
      (vsm_get_pos demo_west zero_sta (vsm_get_data demo_right demo_west zero_sta)) = Some dis" "dis \<le> -12000000"
proof -
  obtain x where x: "vsm_get_data demo_right demo_west zero_sta
      = \<lparr>d_distance_1_2 = Fin x, d_distance_2_3 = Fin x, d_angle = Fin 0\<rparr>" "12000 \<le> x" "x \<le> 14000"
    by (rule demo_right_data)
  obtain y where y: "to_fl Single (x * 1000) = Fin y" "12000000 \<le> y" "y \<le> 14000000"
    by (rule to_fl_between[of 12000000 "x * 1000" 14000000 Single]) (use x in auto)
  have "int_f 1000 = Fin 1000" "int_f 180 = Fin 180" "int_f 360 = Fin 360" "int_f 45 = Fin 45"
    by (simp_all add: int_f_small)
  moreover have "fl_sub Single (Fin 270) (Fin 0) = Fin 270" "fl_sub Single (Fin 360) (Fin 270) = Fin 90"
    by (simp_all add: fl_sub_def to_fl_nat)
  ultimately have "vsm_get_pos demo_west zero_sta (vsm_get_data demo_right demo_west zero_sta) = Fin (- y)"
    unfolding x(1) by (simp add: vsm_get_pos_def Let_def demo_west_def zero_sta_def zero_pos_def fl_le_def y(1))
  moreover have "12000000 \<le> \<lfloor>y\<rfloor>" "\<lfloor>y\<rfloor> \<le> 14000000" using y(2,3) by (simp_all add: le_floor_iff floor_le_iff)
  ultimately show thesis using that[of "- \<lfloor>y\<rfloor>"] y(2) by (simp add: trunc_def)
qed

section \<open>Properties\<close>

lemma flag_word: "i < 32 \<Longrightarrow> \<not> bit x i \<Longrightarrow> x AND id_bit i = 0"
  using has_id_bit[of i x] by (simp add: has_flag_def del: push_bit_of_1)



text \<open>The event task of the safety applications never stops in undefined behaviour: whatever has
  happened, the event it takes next - if there is one - has an entry in the handler table and
  carries the argument its handler expects.\<close>

theorem vsa_events_served:
  assumes "vsa_reachable M freed g" "\<forall>n. freed n = ccw_id n"
  shows "\<exists>g'. vsa_thread_entry g = Some g'"
  using vsa_thread_ok[OF vsa_reachable_inv[OF assms(1)]] assms(2) by (auto simp: keeps_id_def)

theorem vsa_events_served_witness: "\<exists>g'. vsa_thread_entry demo_global = Some g'"
  by (rule vsa_events_served[OF demo_reachable[of demo_libm ccw_id]]) simp

text \<open>A vehicle that overturned is never reported: the applications queue an event for it each time
  the alarm of a neighbour arrives, but in no reachable state the alert is pending.\<close>

theorem overturn_never_pending:
  assumes "vsa_reachable M freed g" "\<forall>n. freed n = ccw_id n"
  shows "vsa_get_alarm VSA_ID_VOT (vsa g) = 0"
proof -
  have "vsa_ok (vsa g)"
    using vsa_reachable_inv[OF assms(1)] assms(2) by (simp add: keeps_id_def vsa_inv_def)
  then have "alert_pend (vsa g) AND id_bit VSA_ID_VOT = 0"
    using vsa_okD(1) by (intro flag_word) (simp_all add: VSA_ID_VOT_def)
  then show ?thesis by (simp add: vsa_get_alarm_def VSA_ID_NONE_def VSA_ID_VOT_def)
qed

theorem overturn_never_pending_witness: "vsa_get_alarm VSA_ID_VOT (vsa demo_global) = 0"
  by (rule overturn_never_pending[OF demo_reachable[of demo_libm ccw_id]]) simp



text \<open>C37. An alert is debounced: a station that was not listed and is judged dangerous \<open>k\<close> times in a row
  raises the alert of its application with the sixth time, and not before.\<close>

theorem alert_debounced:
  assumes "crd_list (vsa g) xs" "i \<in> {VSA_ID_CRD, VSA_ID_CRD_REAR}" "has_flag (alert_mask (vsa g)) (id_bit i)"
    "take RCP_TEMP_ID_LEN (i_pid n) \<notin> key (vsa g) ` set xs"
  shows "\<exists>g'. repeat k (ccw_add_list i n) g = Some g'
    \<and> alert_pend (vsa g') = (if 6 \<le> k then set_flag (alert_pend (vsa g)) (id_bit i) else alert_pend (vsa g))"
  using danger_counted[OF assms, of k] by blast

theorem alert_debounced_witness:
  "(\<exists>g'. repeat 5 (ccw_add_list VSA_ID_CRD zero_info) demo_global = Some g' \<and> alert_pend (vsa g') = 0)
    \<and> (\<exists>g'. repeat 6 (ccw_add_list VSA_ID_CRD zero_info) demo_global = Some g' \<and> alert_pend (vsa g') = id_bit VSA_ID_CRD)"
proof -
  have "\<exists>g'. repeat k (ccw_add_list VSA_ID_CRD zero_info) demo_global = Some g'
      \<and> alert_pend (vsa g') = (if 6 \<le> k then set_flag 0 (id_bit VSA_ID_CRD) else 0)" for k
    using alert_debounced[OF demo_crd(1) _ demo_crd(2), of zero_info k] unfolding demo_crd(3) by simp
  from this[of 5] this[of 6] show ?thesis by (simp add: set_flag_def del: push_bit_of_1 repeat.simps)
qed

text \<open>Where a neighbour is: the position is one of the eight sectors of 45 degrees around the
  vehicle's heading, the sector ahead centred on it and every upper limit belonging to its
  sector; with an angle the position is never reported as an error.\<close>

theorem position_sectors:
  assumes "vsa_position_classify loc rem pos = (place, Some (Fin d))"
  shows "0 \<le> d \<and> d \<le> 360
    \<and> place = [AHEAD, AHEAD_RIGHT, RIGHT, BEHIND_RIGHT, BEHIND, BEHIND_LEFT, LEFT, AHEAD_LEFT] ! (nat \<lceil>(d - 45 / 2) / 45\<rceil> mod 8)"
proof -
  obtain delta where f: "vsa_position_classify loc rem pos =
     (if fl_lt (int_f 360) delta \<or> fl_lt delta (Fin 0) then (POSITION_ERROR, None)
      else ((if fl_lt (div_step 15) delta \<or> fl_le delta DIRECTION_DIVIDE then AHEAD
            else if fl_lt DIRECTION_DIVIDE delta \<and> fl_le delta (div_step 3) then AHEAD_RIGHT
            else if fl_lt (div_step 3) delta \<and> fl_le delta (div_step 5) then RIGHT
            else if fl_lt (div_step 5) delta \<and> fl_le delta (div_step 7) then BEHIND_RIGHT
            else if fl_lt (div_step 7) delta \<and> fl_le delta (div_step 9) then BEHIND
            else if fl_lt (div_step 9) delta \<and> fl_le delta (div_step 11) then BEHIND_LEFT
            else if fl_lt (div_step 11) delta \<and> fl_le delta (div_step 13) then LEFT
            else if fl_lt (div_step 13) delta \<and> fl_le delta (div_step 15) then AHEAD_LEFT
            else POSITION_ERROR), Some delta))"
    using classify_form by blast
  show ?thesis
  proof (cases "fl_lt (int_f 360) delta \<or> fl_lt delta (Fin 0)")
    case False
    with f assms have delta: "delta = Fin d" by simp
    with False have "0 \<le> d" "d \<le> 360" using int_f_small[of 360] by auto
    then show ?thesis using f False assms sector_of_delta[of d] unfolding delta by simp
  qed (use f assms in simp)
qed

text \<open>A neighbour 90 degrees to the right.\<close>

theorem position_sectors_witness:
  "(0 :: rat) \<le> 90 \<and> (90 :: rat) \<le> 360
    \<and> RIGHT = [AHEAD, AHEAD_RIGHT, RIGHT, BEHIND_RIGHT, BEHIND, BEHIND_LEFT, LEFT, AHEAD_LEFT] ! (nat \<lceil>(90 - 45 / 2) / 45 :: rat\<rceil> mod 8)"
proof (rule position_sectors)
  show "vsa_position_classify zero_sta zero_sta \<lparr>d_distance_1_2 = Fin 1, d_distance_2_3 = Fin 1, d_angle = Fin 90\<rparr>
      = (RIGHT, Some (Fin 90))"
    by code_simp
qed

text \<open>Some neighbours cannot be assessed: when the signed distance times the sine of the angle is
  -1 or less - a neighbour on the right, whose distance counts as negative, or ahead on the
  left, where the sine is - its side offset is the conversion of a negative number to an
  unsigned integer, which C leaves undefined.\<close>

theorem negative_offset_undefined:
  assumes "vsa_position_classify loc rem (vsm_get_data M loc rem) = (place, Some delta)"
    "fl_to_int (-2147483648) 2147483647 (vsm_get_pos loc rem (vsm_get_data M loc rem)) = Some dis"
    "m_sin M (fl_div Single (fl_mul Single delta PI_f) (int_f 180)) = Fin s" "of_int dis * s \<le> -1"
  shows "vsa_assess M param loc rem t info = None"
proof -
  have "- 2147483648 \<le> dis \<and> dis \<le> 2147483647"
    using assms(2) by (cases "vsm_get_pos loc rem (vsm_get_data M loc rem)") (auto split: if_splits)
  then have "\<bar>dis\<bar> < 2 ^ 53" by (simp add: abs_less_iff)
  from offset_undefined[where trig = "m_sin M", OF assms(3,4) this] show ?thesis
    using assms(1,2) by (cases "offset_of (m_cos M) dis delta") (simp_all add: vsa_assess_def Let_def)
qed

theorem negative_offset_undefined_witness:
  "\<exists>dis. fl_to_int (-2147483648) 2147483647
      (vsm_get_pos demo_west zero_sta (vsm_get_data demo_right demo_west zero_sta)) = Some dis
    \<and> vsa_assess demo_right (c_vsa demo_cfg) demo_west zero_sta (Fin 0) zero_info = None"
proof -
  obtain dis where dis: "fl_to_int (-2147483648) 2147483647
      (vsm_get_pos demo_west zero_sta (vsm_get_data demo_right demo_west zero_sta)) = Some dis" "dis \<le> -12000000"
    by (rule demo_right_distance)
  obtain x where x: "vsm_get_data demo_right demo_west zero_sta
      = \<lparr>d_distance_1_2 = Fin x, d_distance_2_3 = Fin x, d_angle = Fin 0\<rparr>" by (rule demo_right_data)
  have "vsa_position_classify demo_west zero_sta \<lparr>d_distance_1_2 = Fin x, d_distance_2_3 = Fin x, d_angle = Fin 0\<rparr>
      = vsa_position_classify demo_west zero_sta \<lparr>d_distance_1_2 = Fin 1, d_distance_2_3 = Fin 1, d_angle = Fin 0\<rparr>"
    by (simp add: vsa_position_classify_def Let_def)
  also have "\<dots> = (RIGHT, Some (Fin 90))" by code_simp
  finally have c: "vsa_position_classify demo_west zero_sta (vsm_get_data demo_right demo_west zero_sta)
      = (RIGHT, Some (Fin 90))" unfolding x .
  have s: "m_sin demo_right a = Fin (1 / 2)" for a by (simp add: demo_right_def)
  show ?thesis
    by (intro exI conjI, rule dis(1), rule negative_offset_undefined[OF c dis(1) s])
      (use dis(2) in \<open>simp add: of_int_le_iff[symmetric, where 'a = rat]\<close>)
qed

text \<open>The alert of a station that is no longer heard stays: as long as some other station keeps the
  table from being empty, no round of the task takes back a pending alert of a listed station
  that is not among the assessed neighbours.\<close>

theorem lost_neighbour_alert_stays:
  assumes "vsa_ok (vsa g)" "\<forall>n. freed n = ccw_id n" "n \<le> VAM_NEIGHBOUR_MAXNUM"
    "listed (vsa g) d" "bit (alert_pend (vsa g)) (fst (snd d))"
    "\<forall>i < n. fst d \<noteq> take RCP_TEMP_ID_LEN (i_pid (position_node (vsa g) (PNode i)))"
  shows "\<exists>h. alarm_loop freed [0..<n] None g = Some h \<and> listed (vsa h) d \<and> bit (alert_pend (vsa h)) (fst (snd d))"
  by (rule alarm_loop_keeps) (use assms in \<open>auto simp: keeps_id_def\<close>)

lemma repeat_add_ok:
  assumes "repeat k (ccw_add_list j n) g = Some h" "vsa_ok (vsa g)" "j \<in> {VSA_ID_CRD, VSA_ID_CRD_REAR}"
  shows "vsa_ok (vsa h)"
  using assms(1)
proof (induction k arbitrary: h)
  case (Suc k)
  then obtain g' where g': "repeat k (ccw_add_list j n) g = Some g'" "ccw_add_list j n g' = Some h"
    by (auto split: bind_splits)
  from Suc.IH[OF g'(1)] assms(3) show ?case by (rule ccw_add_ok[where n = n]) (use g'(2) in simp)
qed (use assms(2) in simp)

text \<open>Station 9.8.7.6 has raised the alert; one other neighbour is assessed.\<close>

theorem lost_neighbour_alert_stays_witness:
  "\<exists>g h. bit (alert_pend (vsa g)) VSA_ID_CRD \<and> alarm_loop ccw_id [0..<1] None g = Some h
    \<and> bit (alert_pend (vsa h)) VSA_ID_CRD"
proof -
  let ?n = "zero_info\<lparr>i_pid := [9, 8, 7, 6]\<rparr>"
  have pid: "take RCP_TEMP_ID_LEN (i_pid ?n) = [9, 8, 7, 6]" by (simp add: RCP_TEMP_ID_LEN_def)
  obtain g xs where g: "repeat 6 (ccw_add_list VSA_ID_CRD ?n) demo_global = Some g" "crd_list (vsa g) xs"
    "same_rest demo_global g" "dangers (vsa g) xs = [([9, 8, 7, 6], VSA_ID_CRD, 5)]"
    "alert_pend (vsa g) = set_flag 0 (id_bit VSA_ID_CRD)"
    using danger_counted[OF demo_crd(1) _ demo_crd(2), of ?n 6] unfolding pid demo_crd(3)
    by (auto simp del: push_bit_of_1 repeat.simps)
  have ok: "vsa_ok (vsa g)" by (rule repeat_add_ok[OF g(1)]) (simp_all add: demo_global_def demo_vsa_fields)
  have l: "listed (vsa g) ([9, 8, 7, 6], VSA_ID_CRD, 5)"
    using g(2,4) unfolding listed_def by (intro exI[of _ xs]) simp
  have b: "bit (alert_pend (vsa g)) VSA_ID_CRD"
    unfolding g(5) by (subst bit_set_id) (simp_all add: VSA_ID_CRD_def del: push_bit_of_1)
  have "position_node (vsa g) = (\<lambda>_. zero_info)"
    using g(3) vsa_init_nodes[OF demo_vsa_init] by (simp add: same_rest_def demo_global_def)
  then have other: "\<forall>i < 1. fst (([9, 8, 7, 6], VSA_ID_CRD, 5) :: danger) \<noteq> take RCP_TEMP_ID_LEN (i_pid (position_node (vsa g) (PNode i)))"
    by (simp add: zero_info_def RCP_TEMP_ID_LEN_def)
  have "\<exists>h. alarm_loop ccw_id [0..<1] None g = Some h \<and> listed (vsa h) ([9, 8, 7, 6], VSA_ID_CRD, 5)
      \<and> bit (alert_pend (vsa h)) (fst (snd (([9, 8, 7, 6], VSA_ID_CRD, 5) :: danger)))"
    by (rule lost_neighbour_alert_stays[OF ok _ _ l _ other]) (simp_all add: b VAM_NEIGHBOUR_MAXNUM_def)
  then obtain h where "alarm_loop ccw_id [0..<1] None g = Some h" "bit (alert_pend (vsa h)) VSA_ID_CRD" by auto
  with b show ?thesis by blast
qed

end
