(* ===== verification/Param.thy ===== *)
theory Param
  imports CmsDef "HOL-Library.Signed_Division"
begin

text \<open>
  The parameter store, \<open>app/sys/cv_sys_param.c\<close>, as it is built here: the three functions that
  reach the flash memory are the stubs of that file, which return 0 and leave the buffer of the
  caller alone. What such a buffer held before - local arrays and variables nobody initialised -
  is the argument \<open>junk\<close>. The two global variables are \<open>param_store\<close>. Functions that only print
  (\<open>param_get\<close>, \<open>print_init_word\<close>) and the empty \<open>erase_sector4\<close> are left out.
\<close>

section \<open>State and flash memory\<close>

record param_store =
  cms_param :: cfg_param
  param_mode :: u16

abbreviation (input) HIGHWAY_MODE :: u16 where "HIGHWAY_MODE \<equiv> 0x0F9F"
abbreviation (input) MOUNTAIN_MODE :: u16 where "MOUNTAIN_MODE \<equiv> 0x0FBF"
abbreviation (input) CITY_MODE :: u16 where "CITY_MODE \<equiv> 0x0FD7"
abbreviation (input) CUSTOM_MODE :: u16 where "CUSTOM_MODE \<equiv> 0x019F"

definition drv_fls_read :: "'a \<Rightarrow> int \<times> 'a" where "drv_fls_read buf = (0, buf)"
definition drv_fls_erase :: int where "drv_fls_erase = 0"
definition drv_fls_write :: "'a \<Rightarrow> int" where "drv_fls_write buf = 0"

section \<open>Defaults\<close>

text \<open>\<open>memset\<close> to zero.\<close>

definition zero_param :: cfg_param where
  "zero_param = \<lparr>c_pid = [0, 0, 0, 0],
     c_vam = \<lparr>bsm_hops = 0, bsm_boardcast_mode = 0, bsm_boardcast_saftyfactor = 0, bsm_pause_mode = 0,
       bsm_pause_hold_time = 0, bsm_boardcast_period = 0, evam_hops = 0, evam_broadcast_type = 0,
       evam_broadcast_peroid = 0\<rparr>,
     c_vsa = \<lparr>danger_detect_speed_threshold = 0, lane_dis = 0, crd_saftyfactor = 0, crd_oppsite_speed = 0,
       crd_oppsite_rear_speed = 0, crd_rear_distance = 0, ebd_mode = 0, ebd_acceleration_threshold = 0,
       ebd_alert_hold_time = 0\<rparr>,
     c_wnet = \<lparr>w_channel = 0, w_txrate = 0, w_mode = 0\<rparr>, c_print_xxx = 0\<rparr>"

definition load_default_param_custom :: cfg_param where
  "load_default_param_custom = zero_param
     \<lparr>c_vam := \<lparr>bsm_hops = 1, bsm_boardcast_mode = 2, bsm_boardcast_saftyfactor = 5, bsm_pause_mode = 1,
        bsm_pause_hold_time = 5, bsm_boardcast_period = 100, evam_hops = 1, evam_broadcast_type = 2,
        evam_broadcast_peroid = 50\<rparr>,
      c_vsa := \<lparr>danger_detect_speed_threshold = 60, lane_dis = 25, crd_saftyfactor = 4,
        crd_oppsite_speed = 20, crd_oppsite_rear_speed = 15, crd_rear_distance = 60, ebd_mode = 1,
        ebd_acceleration_threshold = 3, ebd_alert_hold_time = 5\<rparr>,
      c_wnet := \<lparr>w_channel = 13, w_txrate = 1, w_mode = 0\<rparr>\<rparr>"

definition load_default_param_highway :: cfg_param where
  "load_default_param_highway = zero_param
     \<lparr>c_vam := \<lparr>bsm_hops = 1, bsm_boardcast_mode = 1, bsm_boardcast_saftyfactor = 5, bsm_pause_mode = 1,
        bsm_pause_hold_time = 5, bsm_boardcast_period = 100, evam_hops = 1, evam_broadcast_type = 2,
        evam_broadcast_peroid = 50\<rparr>,
      c_vsa := \<lparr>danger_detect_speed_threshold = 60, lane_dis = 25, crd_saftyfactor = 4,
        crd_oppsite_speed = 20, crd_oppsite_rear_speed = 15, crd_rear_distance = 60, ebd_mode = 1,
        ebd_acceleration_threshold = 3, ebd_alert_hold_time = 5\<rparr>,
      c_wnet := \<lparr>w_channel = 13, w_txrate = 1, w_mode = 0\<rparr>\<rparr>"

definition load_default_param_mountain :: cfg_param where
  "load_default_param_mountain = zero_param
     \<lparr>c_vam := \<lparr>bsm_hops = 1, bsm_boardcast_mode = 1, bsm_boardcast_saftyfactor = 5, bsm_pause_mode = 1,
        bsm_pause_hold_time = 5, bsm_boardcast_period = 100, evam_hops = 1, evam_broadcast_type = 2,
        evam_broadcast_peroid = 50\<rparr>,
      c_vsa := \<lparr>danger_detect_speed_threshold = 60, lane_dis = 25, crd_saftyfactor = 4,
        crd_oppsite_speed = 20, crd_oppsite_rear_speed = 15, crd_rear_distance = 60, ebd_mode = 1,
        ebd_acceleration_threshold = 3, ebd_alert_hold_time = 5\<rparr>,
      c_wnet := \<lparr>w_channel = 13, w_txrate = 1, w_mode = 0\<rparr>\<rparr>"

definition load_default_param_city :: cfg_param where
  "load_default_param_city = zero_param
     \<lparr>c_vam := \<lparr>bsm_hops = 1, bsm_boardcast_mode = 1, bsm_boardcast_saftyfactor = 5, bsm_pause_mode = 1,
        bsm_pause_hold_time = 5, bsm_boardcast_period = 100, evam_hops = 1, evam_broadcast_type = 2,
        evam_broadcast_peroid = 50\<rparr>,
      c_vsa := \<lparr>danger_detect_speed_threshold = 60, lane_dis = 25, crd_saftyfactor = 4,
        crd_oppsite_speed = 20, crd_oppsite_rear_speed = 15, crd_rear_distance = 60, ebd_mode = 1,
        ebd_acceleration_threshold = 3, ebd_alert_hold_time = 5\<rparr>,
      c_wnet := \<lparr>w_channel = 13, w_txrate = 1, w_mode = 0\<rparr>\<rparr>"

definition load_default_param :: cfg_param where
  "load_default_param = zero_param
     \<lparr>c_pid := [0xcc, 0xcc, 0xcc, 0xcc],
      c_vam := \<lparr>bsm_hops = 1, bsm_boardcast_mode = 2, bsm_boardcast_saftyfactor = 5, bsm_pause_mode = 1,
        bsm_pause_hold_time = 5, bsm_boardcast_period = 100, evam_hops = 1, evam_broadcast_type = 2,
        evam_broadcast_peroid = 50\<rparr>,
      c_vsa := \<lparr>danger_detect_speed_threshold = 60, lane_dis = 25, crd_saftyfactor = 4,
        crd_oppsite_speed = 20, crd_oppsite_rear_speed = 15, crd_rear_distance = 60, ebd_mode = 1,
        ebd_acceleration_threshold = 3, ebd_alert_hold_time = 5\<rparr>,
      c_wnet := \<lparr>w_channel = 13, w_txrate = 1, w_mode = 0\<rparr>\<rparr>"

section \<open>Modes\<close>

text \<open>The four modes have an index and an address; for any other value the C variables keep none.\<close>

abbreviation (input) PARAM_FLAG_ADDR :: u32 where "PARAM_FLAG_ADDR \<equiv> 0x80E0000"
abbreviation (input) PARAM_OFFSET :: u32 where "PARAM_OFFSET \<equiv> 0x200"
abbreviation (input) PARAM_ADDR :: u32 where "PARAM_ADDR \<equiv> PARAM_FLAG_ADDR + 0x10 + 0x10"

definition get_param_addr :: "u16 \<Rightarrow> param_store \<Rightarrow> u32 option" where
  "get_param_addr mode s =
     (if param_mode s = CUSTOM_MODE then Some PARAM_ADDR
      else if param_mode s = HIGHWAY_MODE then Some (PARAM_ADDR + PARAM_OFFSET)
      else if param_mode s = MOUNTAIN_MODE then Some (PARAM_ADDR + 2 * PARAM_OFFSET)
      else if param_mode s = CITY_MODE then Some (PARAM_ADDR + 3 * PARAM_OFFSET) else None)"

definition get_param_num :: "u16 \<Rightarrow> param_store \<Rightarrow> nat option" where
  "get_param_num mode s =
     (if param_mode s = CUSTOM_MODE then Some 0 else if param_mode s = HIGHWAY_MODE then Some 1
      else if param_mode s = MOUNTAIN_MODE then Some 2 else if param_mode s = CITY_MODE then Some 3 else None)"

definition mode_get :: "u16 \<Rightarrow> u16 option" where
  "mode_get junk =
     do {
       let mode = snd (drv_fls_read junk);
       get_str \<leftarrow> (if mode = CUSTOM_MODE then Some 0 else if mode = HIGHWAY_MODE then Some 1
         else if mode = MOUNTAIN_MODE then Some 2 else if mode = CITY_MODE then Some (3 :: nat) else None);
       Some mode
     }"

text \<open>Four configurations are read and written back; neither has an effect.\<close>

definition mode_set :: "u16 \<Rightarrow> param_store \<Rightarrow> param_store" where
  "mode_set mode s = s\<lparr>param_mode := mode\<rparr>"

definition mode_change :: "u8 \<Rightarrow> param_store \<Rightarrow> param_store option" where
  "mode_change mode_num s =
     do {
       mode_setting \<leftarrow> (if mode_num = 1 then Some CUSTOM_MODE else if mode_num = 2 then Some HIGHWAY_MODE
         else if mode_num = 3 then Some MOUNTAIN_MODE else if mode_num = 4 then Some CITY_MODE else None);
       Some (mode_set mode_setting s)
     }"

definition load_param_from_fl :: "param_store \<Rightarrow> param_store option" where
  "load_param_from_fl s =
     do {
       param_addr \<leftarrow> (if param_mode s = CUSTOM_MODE then Some PARAM_ADDR
         else if param_mode s = HIGHWAY_MODE then Some (PARAM_ADDR + PARAM_OFFSET)
         else if param_mode s = MOUNTAIN_MODE then Some (PARAM_ADDR + 2 * PARAM_OFFSET)
         else if param_mode s = CITY_MODE then Some (PARAM_ADDR + 3 * PARAM_OFFSET) else None);
       Some (s\<lparr>cms_param := snd (drv_fls_read (cms_param s))\<rparr>)
     }"

definition write_def_param :: "param_store \<Rightarrow> param_store" where
  "write_def_param s = s\<lparr>param_mode := CUSTOM_MODE\<rparr>"

definition param_init :: "param_store \<Rightarrow> param_store" where
  "param_init s = s\<lparr>cms_param := load_default_param\<rparr>"

section \<open>Setting one parameter\<close>

text \<open>Assigning a signed integer to an unsigned field keeps its low bits.\<close>

abbreviation to8 :: "int \<Rightarrow> u8" where "to8 v \<equiv> word_of_int v"
abbreviation to16 :: "int \<Rightarrow> u16" where "to16 v \<equiv> word_of_int v"

definition pid_digits :: "int \<Rightarrow> bytes" where
  "pid_digits v = [to8 (v sdiv 1000), to8 ((v smod 1000) sdiv 100),
     to8 (((v smod 1000) smod 100) sdiv 10), to8 (((v smod 1000) smod 100) smod 10)]"

text \<open>The \<open>switch\<close>; \<open>None\<close> is the early return of case 0.\<close>

definition param_field :: "u8 \<Rightarrow> int \<Rightarrow> cfg_param \<Rightarrow> cfg_param option" where
  "param_field param v c =
     (let vam = (\<lambda>f. Some (c\<lparr>c_vam := f (c_vam c)\<rparr>)); vsa = (\<lambda>f. Some (c\<lparr>c_vsa := f (c_vsa c)\<rparr>));
          wnet = (\<lambda>f. Some (c\<lparr>c_wnet := f (c_wnet c)\<rparr>))
      in if param = 0 then if v > 9999 then None else Some (c\<lparr>c_pid := pid_digits v\<rparr>)
      else if param = 1 then vam (\<lambda>p. p\<lparr>bsm_hops := to8 v\<rparr>)
      else if param = 2 then vam (\<lambda>p. p\<lparr>bsm_boardcast_mode := to8 v\<rparr>)
      else if param = 3 then vam (\<lambda>p. p\<lparr>bsm_boardcast_saftyfactor := to8 v\<rparr>)
      else if param = 4 then vam (\<lambda>p. p\<lparr>bsm_pause_mode := to8 v\<rparr>)
      else if param = 5 then vam (\<lambda>p. p\<lparr>bsm_pause_hold_time := to8 v\<rparr>)
      else if param = 6 then vam (\<lambda>p. p\<lparr>bsm_boardcast_period := to16 v\<rparr>)
      else if param = 7 then vam (\<lambda>p. p\<lparr>evam_hops := to8 v\<rparr>)
      else if param = 8 then vam (\<lambda>p. p\<lparr>evam_broadcast_type := to8 v\<rparr>)
      else if param = 9 then vam (\<lambda>p. p\<lparr>evam_broadcast_peroid := to16 v\<rparr>)
      else if param = 10 then vsa (\<lambda>p. p\<lparr>danger_detect_speed_threshold := to8 v\<rparr>)
      else if param = 11 then vsa (\<lambda>p. p\<lparr>lane_dis := to16 v\<rparr>)
      else if param = 12 then vsa (\<lambda>p. p\<lparr>crd_saftyfactor := to8 v\<rparr>)
      else if param = 13 then vsa (\<lambda>p. p\<lparr>crd_oppsite_speed := to8 v\<rparr>)
      else if param = 14 then vsa (\<lambda>p. p\<lparr>crd_oppsite_rear_speed := to8 v\<rparr>)
      else if param = 15 then vsa (\<lambda>p. p\<lparr>crd_rear_distance := to8 v\<rparr>)
      else if param = 16 then vsa (\<lambda>p. p\<lparr>ebd_mode := to8 v\<rparr>)
      else if param = 17 then vsa (\<lambda>p. p\<lparr>ebd_acceleration_threshold := to8 v\<rparr>)
      else if param = 18 then vsa (\<lambda>p. p\<lparr>ebd_alert_hold_time := to8 v\<rparr>)
      else if param = 29 then wnet (\<lambda>p. p\<lparr>w_channel := to8 v\<rparr>)
      else if param = 30 then wnet (\<lambda>p. p\<lparr>w_txrate := to8 v\<rparr>)
      else if param = 31 then Some (c\<lparr>c_print_xxx := to8 v\<rparr>)
      else Some c)"

text \<open>\<open>junk\<close> is what the local array \<open>all_param\<close> holds; \<open>junk_mode\<close> what \<open>mode\<close> holds.\<close>

definition param_set ::
    "cfg_param list \<Rightarrow> u16 \<Rightarrow> u8 \<Rightarrow> int \<Rightarrow> param_store \<Rightarrow> (int \<times> param_store) option" where
  "param_set junk junk_mode param v s =
     do {
       let all_param = map (snd \<circ> drv_fls_read) junk;
       param_num \<leftarrow> get_param_num (snd (drv_fls_read junk_mode)) s;
       let cfg = all_param ! param_num;
       if param = 29 \<and> v < 1 \<and> v > 13 then Some (-1, s)
       else if param = 30 \<and> v \<noteq> 1 \<and> v \<noteq> 2 \<and> v \<noteq> 6 then Some (-1, s)
       else Some (case param_field param v cfg of
           None \<Rightarrow> (-1, s)
         | Some cfg \<Rightarrow> (0, s\<lparr>cms_param := cfg\<rparr>))
     }"

section \<open>Lemmas\<close>

lemma pid_digits_value:
  assumes "0 \<le> v" "v \<le> 9999"
  shows "\<exists>a b c d. pid_digits v = [to8 a, to8 b, to8 c, to8 d] \<and> v = 1000 * a + 100 * b + 10 * c + d
    \<and> {a, b, c, d} \<subseteq> {0..9}"
proof -
  define r q where "r = v mod 1000" and "q = r mod 100"
  have r: "v = 1000 * (v div 1000) + r" "0 \<le> r" "r < 1000" by (simp_all add: r_def)
  have q: "r = 100 * (r div 100) + q" "0 \<le> q" "q < 100" by (simp_all add: q_def)
  have d: "q = 10 * (q div 10) + q mod 10" by simp
  have "v sdiv 1000 = v div 1000" "v smod 1000 = r"
    using assms(1) by (simp_all add: r_def signed_divide_int_def signed_modulo_int_def sgn_if minus_mult_div_eq_mod)
  moreover have "r sdiv 100 = r div 100" "r smod 100 = q"
    using r(2) by (simp_all add: q_def signed_divide_int_def signed_modulo_int_def sgn_if minus_mult_div_eq_mod)
  moreover have "q sdiv 10 = q div 10" "q smod 10 = q mod 10"
    using q(2) by (simp_all add: signed_divide_int_def signed_modulo_int_def sgn_if minus_mult_div_eq_mod)
  ultimately have p: "pid_digits v = [to8 (v div 1000), to8 (r div 100), to8 (q div 10), to8 (q mod 10)]"
    by (simp add: pid_digits_def)
  have bounds: "v div 1000 \<in> {0..9}" "r div 100 \<in> {0..9}" "q div 10 \<in> {0..9}" "q mod 10 \<in> {0..9}"
    using assms r(2,3) q(2,3) by auto
  have "v = 1000 * (v div 1000) + 100 * (r div 100) + 10 * (q div 10) + q mod 10"
    using r(1) q(1) d by linarith
  with p bounds show ?thesis by blast
qed

lemma mode_known: "get_param_num m s \<noteq> None \<longleftrightarrow> param_mode s \<in> {CUSTOM_MODE, HIGHWAY_MODE, MOUNTAIN_MODE, CITY_MODE}"
  by (simp add: get_param_num_def)

lemma mode_change_known: "mode_change k s = Some s' \<Longrightarrow> get_param_num m s' \<noteq> None"
  by (auto simp: mode_change_def mode_set_def get_param_num_def split: bind_splits if_splits)


lemma param_set_known:
  assumes "get_param_num jm s = Some i"
  shows "param_set junk jm k v s =
    (if k = 30 \<and> v \<notin> {1, 2, 6} then Some (-1, s)
     else Some (case param_field k v (map (snd \<circ> drv_fls_read) junk ! i) of
         None \<Rightarrow> (-1, s) | Some cfg \<Rightarrow> (0, s\<lparr>cms_param := cfg\<rparr>)))"
  using assms by (auto simp: param_set_def get_param_num_def drv_fls_read_def split: option.split)

lemma param_num_bound: "get_param_num jm s = Some i \<Longrightarrow> i < 4"
  by (auto simp: get_param_num_def split: if_splits)

lemma param_num_frame [simp]: "get_param_num jm (s\<lparr>cms_param := c\<rparr>) = get_param_num jm s"
  by (simp add: get_param_num_def)

section \<open>Properties\<close>

text \<open>Setting a parameter forgets the others: the configuration that is in force afterwards is made of
  what the uninitialised local array held, with one field assigned; the configuration before
  does not matter. In a system that was just started, with no mode chosen, the index into that
  array is itself undefined.\<close>

theorem param_set_forgets:
  assumes "param_set junk jm k v s = Some (0, s')" "length junk = 4"
  shows "(\<forall>c. param_set junk jm k v (s\<lparr>cms_param := c\<rparr>) = Some (0, s'))
    \<and> (\<exists>old \<in> set junk. param_field k v old = Some (cms_param s'))
    \<and> param_set junk jm k v (param_init \<lparr>cms_param = zero_param, param_mode = 0\<rparr>) = None"
proof -
  obtain i where i: "get_param_num jm s = Some i"
    using assms(1) by (cases "get_param_num jm s") (auto simp: param_set_def drv_fls_read_def)
  have nth: "map (snd \<circ> drv_fls_read) junk ! i = junk ! i" "junk ! i \<in> set junk"
    using param_num_bound[OF i] assms(2) by (simp_all add: drv_fls_read_def)
  obtain c where c: "param_field k v (junk ! i) = Some c" "s' = s\<lparr>cms_param := c\<rparr>"
    "\<not> (k = 30 \<and> v \<notin> {1, 2, 6})"
    using assms(1) unfolding param_set_known[OF i] nth(1) by (auto split: if_splits option.splits)
  have "param_set junk jm k v (s\<lparr>cms_param := d\<rparr>) = Some (0, s')" for d
    using i c unfolding c(2) by (subst param_set_known[of _ _ i]) (simp_all add: nth)
  moreover have "param_set junk jm k v (param_init \<lparr>cms_param = zero_param, param_mode = 0\<rparr>) = None"
    by (simp add: param_set_def param_init_def get_param_num_def drv_fls_read_def)
  ultimately show ?thesis using c nth(2) by auto
qed

theorem param_set_forgets_witness:
  "\<exists>s'. (\<forall>c. param_set (replicate 4 zero_param) 0 1 3 \<lparr>cms_param = c, param_mode = CITY_MODE\<rparr> = Some (0, s'))
    \<and> (\<exists>old \<in> set (replicate 4 zero_param). param_field 1 3 old = Some (cms_param s'))"
proof -
  define s :: param_store where "s = \<lparr>cms_param = load_default_param, param_mode = CITY_MODE\<rparr>"
  have "\<exists>s'. param_set (replicate 4 zero_param) 0 1 3 s = Some (0, s')"
    by (simp add: s_def param_set_def get_param_num_def drv_fls_read_def param_field_def Let_def)
  then obtain s' where "param_set (replicate 4 zero_param) 0 1 3 s = Some (0, s')" by blast
  from param_set_forgets[OF this] show ?thesis unfolding s_def by (intro exI[of _ s']) simp
qed

text \<open>What is checked before a parameter is stored: the identity must not exceed four digits and is
  taken apart into them, the transmission rate must be 1, 2 or 6 - and every number is taken as
  a channel, of which the low eight bits are kept.\<close>

theorem param_set_checks:
  assumes "get_param_num jm s = Some i" "length junk = 4"
  shows "(\<forall>v. (\<exists>s'. param_set junk jm 30 v s = Some (0, s')) \<longleftrightarrow> v \<in> {1, 2, 6})
    \<and> (\<forall>v. 9999 < v \<longrightarrow> param_set junk jm 0 v s = Some (-1, s))
    \<and> (\<forall>v. 0 \<le> v \<longrightarrow> v \<le> 9999 \<longrightarrow> (\<exists>s' a b c d. param_set junk jm 0 v s = Some (0, s')
        \<and> c_pid (cms_param s') = [to8 a, to8 b, to8 c, to8 d] \<and> {a, b, c, d} \<subseteq> {0..9}
        \<and> v = 1000 * a + 100 * b + 10 * c + d))
    \<and> (\<forall>v. \<exists>s'. param_set junk jm 29 v s = Some (0, s') \<and> w_channel (c_wnet (cms_param s')) = to8 v)"
proof (intro conjI allI impI)
  fix v :: int
  note set = param_set_known[OF assms(1), of junk]
  show "(\<exists>s'. param_set junk jm 30 v s = Some (0, s')) \<longleftrightarrow> v \<in> {1, 2, 6}"
    by (auto simp: set param_field_def Let_def)
  show "param_set junk jm 0 v s = Some (-1, s)" if "9999 < v"
    using that by (simp add: set param_field_def)
  show "\<exists>s'. param_set junk jm 29 v s = Some (0, s') \<and> w_channel (c_wnet (cms_param s')) = to8 v"
    by (simp add: set param_field_def Let_def)
  assume v: "0 \<le> v" "v \<le> 9999"
  obtain a b c d where "pid_digits v = [to8 a, to8 b, to8 c, to8 d]" "v = 1000 * a + 100 * b + 10 * c + d"
    "{a, b, c, d} \<subseteq> {0..9}"
    using pid_digits_value[OF v] by blast
  moreover have "\<exists>s'. param_set junk jm 0 v s = Some (0, s') \<and> c_pid (cms_param s') = pid_digits v"
    using v by (simp add: set param_field_def)
  ultimately show "\<exists>s' a b c d. param_set junk jm 0 v s = Some (0, s')
      \<and> c_pid (cms_param s') = [to8 a, to8 b, to8 c, to8 d] \<and> {a, b, c, d} \<subseteq> {0..9}
      \<and> v = 1000 * a + 100 * b + 10 * c + d"
    by (elim exE conjE) (intro exI conjI, assumption, simp, assumption, assumption)
qed

text \<open>Channel 300 is stored as 44.\<close>

theorem param_set_checks_witness:
  "\<exists>s'. param_set (replicate 4 zero_param) 0 29 300 \<lparr>cms_param = zero_param, param_mode = CUSTOM_MODE\<rparr> = Some (0, s')
    \<and> w_channel (c_wnet (cms_param s')) = 44"
proof -
  have i: "get_param_num 0 \<lparr>cms_param = zero_param, param_mode = CUSTOM_MODE\<rparr> = Some 0"
    by (simp add: get_param_num_def)
  have j: "length (replicate 4 zero_param) = 4" by simp
  have "\<exists>s'. param_set (replicate 4 zero_param) 0 29 300 \<lparr>cms_param = zero_param, param_mode = CUSTOM_MODE\<rparr> = Some (0, s')
    \<and> w_channel (c_wnet (cms_param s')) = to8 300"
    using param_set_checks[OF i j] by blast
  moreover have "to8 300 = 44" by (simp add: word_uint_eq_iff)
  ultimately show ?thesis by metis
qed

end
