(* ===== verification/SysMan.thy ===== *)
theory SysMan
  imports VsaSafe Param
begin

text \<open>
  The system manager, \<open>app/sys/cv_sys_manager.c\<close>, the start of the program, \<open>app/sys/cv_sys_main.c\<close>,
  and the whole system: a step relation in which the tasks of the vehicle manager, the relay, the
  receiver, the safety applications, the manager and the human interface take turns in any order.
  The body of \<open>sys_human_interface_proc\<close> is compiled out, so the human interface only empties
  its queue. \<open>main\<close> has the two calls that start the safety applications commented out; they are
  started here, as the manager does when it handles \<open>SYS_MSG_INITED\<close>.
\<close>

section \<open>The manager\<close>

definition hi_update :: "u32 \<Rightarrow> sys_envar \<Rightarrow> sys_envar" where
  "hi_update t p_sys = snd (hi_add_event_queue p_sys SYS_MSG_HI_OUT_UPDATE 0 t)"

definition sys_manage_proc :: "unit sys_msg \<Rightarrow> cms_global \<Rightarrow> cms_global option" where
  "sys_manage_proc p_msg g =
     (let a = m_argc p_msg; is = (\<lambda>i. a = of_nat i);
          out = (\<lambda>t g. Some (g\<lparr>sys := hi_update t (sys g)\<rparr>)) in
      if m_id p_msg = SYS_MSG_INITED then do {
        let g = upd_cg_vam (\<lambda>v. snd (vam_start v)) g;
        g \<leftarrow> vsa_start g;
        out (hi_argc HI_OUT_SYS_INIT) g }
      else if m_id p_msg = SYS_MSG_BSM_UPDATE then out a g
      else if m_id p_msg = SYS_MSG_START_ALERT then
        out (hi_argc (if is VSA_ID_CRD then HI_OUT_CRD_ALERT else if is VSA_ID_CRD_REAR then HI_OUT_CRD_REAR_ALERT
             else if is VSA_ID_VBD then HI_OUT_VBD_ALERT else if is VSA_ID_EBD then HI_OUT_EBD_ALERT
             else HI_OUT_NONE)) g
      else if m_id p_msg = SYS_MSG_STOP_ALERT then
        (let type = (if is VSA_ID_CRD then HI_OUT_CRD_CANCEL else HI_OUT_NONE);
             type = (if is VSA_ID_CRD_REAR then HI_OUT_CRD_REAR_CANCEL else if is VSA_ID_VBD then HI_OUT_VBD_CANCEL
                     else if is VSA_ID_EBD then HI_OUT_EBD_CANCEL else type)
         in out (hi_argc type) g)
      else if m_id p_msg = SYS_MSG_ALARM_ACTIVE then
        out (hi_argc (if is VSA_ID_VBD then HI_OUT_VBD_STATUS else if is VSA_ID_EBD then HI_OUT_EBD_STATUS
             else HI_OUT_NONE)) g
      else if m_id p_msg = SYS_MSG_ALARM_CANCEL then
        out (hi_argc (if is VSA_ID_VBD then HI_OUT_VBD_STOP else if is VSA_ID_EBD then HI_OUT_EBD_STOP
             else HI_OUT_NONE)) g
      else if m_id p_msg = SYS_MSG_GPS_UPDATE then
        out (hi_argc (if a = 0 then HI_OUT_GPS_LOST else HI_OUT_GPS_CAPTURED)) g
      else Some g)"

text \<open>One round of each of the two tasks; with an empty queue they wait.\<close>

definition sysc_thread_entry :: "cms_global \<Rightarrow> cms_global option" where
  "sysc_thread_entry g =
     (case osal_queue_recv (queue_sys_mng (sys g)) of
        None \<Rightarrow> Some g
      | Some (p_msg, q) \<Rightarrow> sys_manage_proc p_msg (g\<lparr>sys := (sys g)\<lparr>queue_sys_mng := q\<rparr>\<rparr>))"

definition tk_hi_thread_entry :: "cms_global \<Rightarrow> cms_global" where
  "tk_hi_thread_entry g =
     (case osal_queue_recv (queue_sys_hi (sys g)) of
        None \<Rightarrow> g
      | Some (p_msg, q) \<Rightarrow> g\<lparr>sys := (sys g)\<lparr>queue_sys_hi := q\<rparr>\<rparr>)"

section \<open>Starting the program\<close>

text \<open>
  \<open>main\<close> up to the point where the tasks run: the parameters, the vehicle manager, the relay and
  the manager are initialised and the vehicle manager is sent its start message. The wireless
  interface, whose initialisation asks the kernel, is the argument \<open>w\<close>; \<open>hv\<close> and \<open>hm\<close> are the list
  heads before, \<open>c\<close> the rest of the memory.
\<close>

definition main_init ::
    "laddr list_heap \<Rightarrow> faddr list_heap \<Rightarrow> wnet_envar \<Rightarrow> param_store \<Rightarrow> cms
     \<Rightarrow> (param_store \<times> cms \<times> sys_envar) option" where
  "main_init hv hm w p c =
     do {
       let p = param_init p;
       let c = c\<lparr>g_wnet := w\<rparr>;
       v \<leftarrow> vam_init hv (cms_param p);
       let c = c\<lparr>g_vam := v, g_mda := mda_init hm\<rparr>;
       let s = sys_init;
       Some (p, upd_vam (\<lambda>v. snd (vam_start v)) c, s)
     }"

section \<open>What the manager does\<close>

lemma hi_update_frames [simp]:
  "queue_sys_mng (hi_update t s) = queue_sys_mng s" "sys_status (hi_update t s) = sys_status s"
  by (simp_all add: hi_update_def)

lemma hi_update_queue:
  "queue_sys_hi (hi_update t s) = snd (osal_queue_send
     \<lparr>m_id = SYS_MSG_HI_OUT_UPDATE, m_len = 0, m_argc = t, m_argv = ()\<rparr> (queue_sys_hi s))"
  by (simp add: hi_update_def hi_add_event_queue_def Let_def case_prod_beta)

lemma hi_update_ok [simp]: "queue_ok (queue_sys_hi s) \<Longrightarrow> queue_ok (queue_sys_hi (hi_update t s))"
  by (simp add: hi_update_queue osal_queue_send_ok)

lemma vsa_start_defined: "\<exists>g'. vsa_start g = Some g'"
  by (simp add: vsa_start_def vsa_gps_status_update_def Let_def)

text \<open>What a message leads to, apart from the start.\<close>

lemma sys_manage_cases:
  obtains (start) g' where "m_id m = SYS_MSG_INITED" "vsa_start (upd_cg_vam (\<lambda>v. snd (vam_start v)) g) = Some g'"
      "sys_manage_proc m g = Some (g'\<lparr>sys := hi_update (hi_argc HI_OUT_SYS_INIT) (sys g')\<rparr>)"
  | (out) t where "sys_manage_proc m g = Some (g\<lparr>sys := hi_update t (sys g)\<rparr>)"
  | (ignored) "sys_manage_proc m g = Some g"
proof (cases "m_id m = SYS_MSG_INITED")
  case True
  obtain g' where "vsa_start (upd_cg_vam (\<lambda>v. snd (vam_start v)) g) = Some g'" using vsa_start_defined by blast
  then show thesis by (intro start[OF True]) (simp_all add: True sys_manage_proc_def Let_def)
next
  case False
  have both: "p (if b then x else y)" if "p x" "p y" for p b and x y :: "cms_global option"
    using that by simp
  have "(\<exists>t. sys_manage_proc m g = Some (g\<lparr>sys := hi_update t (sys g)\<rparr>)) \<or> sys_manage_proc m g = Some g"
    unfolding sys_manage_proc_def Let_def if_not_P[OF False]
    by (intro both[where p = "\<lambda>r. (\<exists>t. r = Some (g\<lparr>sys := hi_update t (sys g)\<rparr>)) \<or> r = Some g"])
      (rule disjI1, rule exI, rule refl | rule disjI2, rule refl)+
  then show thesis using out ignored by blast
qed

lemma sysc_thread_defined: "\<exists>g'. sysc_thread_entry g = Some g'"
proof (cases "osal_queue_recv (queue_sys_mng (sys g))")
  case (Some r)
  obtain m q where "r = (m, q)" by (rule prod.exhaust)
  then show ?thesis
    using Some by (cases m "g\<lparr>sys := (sys g)\<lparr>queue_sys_mng := q\<rparr>\<rparr>" rule: sys_manage_cases)
      (simp_all add: sysc_thread_entry_def)
qed (simp add: sysc_thread_entry_def)

section \<open>The whole system\<close>

record rsu =
  rsu_cms :: cms_global
  rsu_gps :: gps_envar

definition rsu_task :: "rsu \<Rightarrow> vam_task" where
  "rsu_task s = \<lparr>vt_cms = cg (rsu_cms s), vt_gps = rsu_gps s\<rparr>"

definition rsu_put :: "vam_task \<Rightarrow> rsu \<Rightarrow> rsu" where
  "rsu_put t s = s\<lparr>rsu_cms := (rsu_cms s)\<lparr>cg := vt_cms t\<rparr>, rsu_gps := vt_gps t\<rparr>"

text \<open>Every step of every task; \<open>vehicle\<close> are the steps of the vehicle manager, its timers, the relay, the
  receiver and the users of the interface.\<close>

inductive rsu_step :: "libm \<Rightarrow> (vsa_crd_node \<Rightarrow> u8) \<Rightarrow> rsu \<Rightarrow> rsu \<Rightarrow> bool" for M freed where
  vehicle: "task_step M (rsu_task s) t \<Longrightarrow> rsu_step M freed s (rsu_put t s)"
| close_range: "vsa_base_proc M freed (rsu_cms s) = Some g \<Longrightarrow> rsu_step M freed s (s\<lparr>rsu_cms := g\<rparr>)"
| events: "vsa_thread_entry (rsu_cms s) = Some g \<Longrightarrow> rsu_step M freed s (s\<lparr>rsu_cms := g\<rparr>)"
| position_timer: "rsu_step M freed s (s\<lparr>rsu_cms := timer_preprocess_pos_callback (rsu_cms s)\<rparr>)"
| braking_timer: "rsu_step M freed s (s\<lparr>rsu_cms := timer_ebd_send_callback (rsu_cms s)\<rparr>)"
| deliver: "vsa_deliver (rsu_cms s) = Some g \<Longrightarrow> rsu_step M freed s (s\<lparr>rsu_cms := g\<rparr>)"
| operator: "rsu_step M freed s (s\<lparr>rsu_cms := tell_vsa VSA_MSG_MANUAL_BC 0 a (rsu_cms s)\<rparr>)"
| initialised: "rsu_step M freed s (s\<lparr>rsu_cms := tell_sys SYS_MSG_INITED 0 (rsu_cms s)\<rparr>)"
| manager: "sysc_thread_entry (rsu_cms s) = Some g \<Longrightarrow> rsu_step M freed s (s\<lparr>rsu_cms := g\<rparr>)"
| human: "rsu_step M freed s (s\<lparr>rsu_cms := tk_hi_thread_entry (rsu_cms s)\<rparr>)"

inductive rsu_reachable :: "libm \<Rightarrow> (vsa_crd_node \<Rightarrow> u8) \<Rightarrow> rsu \<Rightarrow> bool" for M freed where
  boot: "main_init hv hm w p c0 = Some (q, c, sm) \<Longrightarrow> vsa_init hc hp (cms_param q) = Some v \<Longrightarrow>
    rsu_reachable M freed \<lparr>rsu_cms = \<lparr>cg = c, vsa = v, sys = sm\<rparr>, rsu_gps = gp\<rparr>"
| step: "rsu_reachable M freed s \<Longrightarrow> rsu_step M freed s s' \<Longrightarrow> rsu_reachable M freed s'"

text \<open>The invariant joins those of the parts.\<close>

definition rsu_inv :: "cms_global \<Rightarrow> bool" where
  "rsu_inv g \<longleftrightarrow> vam_inv (g_vam (cg g)) \<and> vsa_inv g \<and> queue_ok (queue_sys_hi (sys g))"

text \<open>What the applications do to the vehicle manager keeps its invariant, and they leave the queue
  of the human interface alone.\<close>

definition apps_frame :: "cms_global \<Rightarrow> cms_global \<Rightarrow> bool" where
  "apps_frame g h \<longleftrightarrow> (vam_inv (g_vam (cg g)) \<longrightarrow> vam_inv (g_vam (cg h)))
     \<and> queue_sys_hi (sys h) = queue_sys_hi (sys g)"

lemma apps_frame_refl [simp]: "apps_frame g g"
  by (simp add: apps_frame_def)

lemma apps_frame_trans: "apps_frame g h \<Longrightarrow> apps_frame h k \<Longrightarrow> apps_frame g k"
  by (simp add: apps_frame_def)

lemma apps_frame_tell [simp]:
  "apps_frame g (tell_sys i a h) = apps_frame g h" "apps_frame g (tell_vsa i l a h) = apps_frame g h"
  "apps_frame g (upd_vsa f h) = apps_frame g h"
  by (simp_all add: apps_frame_def tell_vsa_def)

lemma apps_frame_vam:
  "apps_frame g h \<Longrightarrow> (vam_inv (g_vam (cg h)) \<Longrightarrow> vam_inv (f (g_vam (cg h)))) \<Longrightarrow> apps_frame g (upd_cg_vam f h)"
  by (simp add: apps_frame_def)

lemma apps_frame_latch: "apps_frame g (latch_alarm i n h) = apps_frame g h"
  "apps_frame g (stop_alert i h) = apps_frame g h" "apps_frame g (relay_alarm on i m a h) = apps_frame g h"
  by (simp_all add: latch_alarm_def stop_alert_def relay_alarm_def Let_def)

lemma apps_frame_rest: "same_rest g h \<Longrightarrow> apps_frame g h"
  by (simp add: same_rest_def apps_frame_def)

lemma alarm_loop_frame: "alarm_loop freed is x g = Some h \<Longrightarrow> vsa_ok (vsa g) \<Longrightarrow> keeps_id freed \<Longrightarrow>
    \<forall>i \<in> set is. i < VAM_NEIGHBOUR_MAXNUM \<Longrightarrow> apps_frame g h"
  using alarm_loop_ok[of g freed "is" x] apps_frame_rest by fastforce

lemma peer_cnt_frame:
  "vam_set_peer_cnt pid cnt (g_vam (cg g)) = Some (r, v) \<Longrightarrow> apps_frame g (g\<lparr>cg := (cg g)\<lparr>g_vam := v\<rparr>\<rparr>)"
  using vam_inv_set_cnt by (simp add: apps_frame_def)

lemma preprocess_loop_frame: "preprocess_loop M l i ps r t g = Some h \<Longrightarrow> apps_frame g h"
proof (induction ps arbitrary: i r t g)
  case (Cons pid ps)
  then obtain a b c pid' cnt rr w where run: "preprocess_loop M l (i + 1) ps a b
      ((upd_vsa (\<lambda>v. v\<lparr>position_node := c v\<rparr>) g)\<lparr>cg := (cg (upd_vsa (\<lambda>v. v\<lparr>position_node := c v\<rparr>) g))\<lparr>g_vam := w\<rparr>\<rparr>) = Some h"
    and cnt: "vam_set_peer_cnt pid' cnt (g_vam (cg (upd_vsa (\<lambda>v. v\<lparr>position_node := c v\<rparr>) g))) = Some (rr, w)"
    by (auto simp: Let_def split: bind_splits)
  have "apps_frame g (upd_vsa (\<lambda>v. v\<lparr>position_node := c v\<rparr>) g)" by simp
  from apps_frame_trans[OF this apps_frame_trans[OF peer_cnt_frame[OF cnt] Cons.IH[OF run]]]
  show ?case .
qed simp

lemma vsa_base_frame:
  assumes "vsa_base_proc M freed g = Some h" "vsa_inv g" "keeps_id freed"
  shows "apps_frame g h"
  using assms(1)
proof (cases rule: vsa_base_round)
  case (round n g2)
  have i2: "vsa_inv g2" by (rule vsa_preprocess_inv[OF round(1)]) (simp add: assms(2))
  have "apps_frame g (upd_vsa (\<lambda>v. v\<lparr>sem_vsa_proc := sem_vsa_proc v - 1\<rparr>) g)" by simp
  moreover have "apps_frame (upd_vsa (\<lambda>v. v\<lparr>sem_vsa_proc := sem_vsa_proc v - 1\<rparr>) g) g2"
    using round(1) preprocess_loop_frame
    by (auto simp: vsa_preprocess_pos_def Let_def split: bind_splits if_splits)
  moreover have "apps_frame g2 h"
    using round(2) alarm_loop_frame[of freed "[0..<n]" None g2 h] i2 assms(3)
    by (auto simp: apps_frame_latch vsa_inv_def)
  ultimately show ?thesis using apps_frame_trans by blast
qed simp

lemma alert_mask_frame:
  "vam_inv v \<Longrightarrow> vam_inv (snd (vam_active_alert m v))" "vam_inv v \<Longrightarrow> vam_inv (snd (vam_cancel_alert m v))"
  using vam_inv_callbacks(5)[of v 1 m] vam_inv_callbacks(5)[of v 2 m] by (simp_all add: vam_alert_def)

lemma vsa_thread_frame:
  assumes "vsa_thread_entry g = Some h"
  shows "apps_frame g h"
proof (cases "osal_queue_recv (queue_vsa (vsa g))")
  case (Some r)
  obtain m q where r: "r = (m, q)" by (rule prod.exhaust)
  define g1 where "g1 = upd_vsa (\<lambda>v. v\<lparr>queue_vsa := q\<rparr>) g"
  have "h = g1 \<or> (\<exists>k n. vsa_app k (ArgMsg m) g1 = Some (n, h))"
    using assms Some r by (auto simp: vsa_thread_entry_def g1_def Let_def split: if_splits option.splits)
  moreover have "apps_frame g1 h" if "vsa_app k (ArgMsg m) g1 = Some (n, h)" for k n
    using that by (cases k) (auto simp: vsa_app_def vsa_manual_broadcast_proc_def vsa_eebl_broadcast_proc_def
        vsa_accident_recieve_proc_def vsa_eebl_recieve_proc_def apps_frame_latch alert_mask_frame
        intro!: apps_frame_vam)
  ultimately have "apps_frame g1 h" by auto
  moreover have "apps_frame g g1" by (simp add: g1_def)
  ultimately show ?thesis by (rule apps_frame_trans[rotated])
qed (use assms in \<open>simp add: vsa_thread_entry_def\<close>)

lemma vsa_callback_frame:
  assumes "vsa_callback h = Some f" "f a g = Some g'"
  shows "apps_frame g g'"
proof -
  have "f \<in> {vsa_local_status_update, vsa_bsm_status_update, vsa_receive_alarm_update, vsa_gps_status_update,
      vsa_eebl_broadcast_update, vsa_receive_rsa_update}"
    using assms(1) by (auto simp: vsa_callback_def split: if_splits)
  then consider "f = vsa_local_status_update" | "f = vsa_bsm_status_update" | "f = vsa_receive_alarm_update"
    | "f = vsa_gps_status_update" | "f = vsa_eebl_broadcast_update" | "f = vsa_receive_rsa_update" by blast
  then show ?thesis
  proof cases
    case 3
    then show ?thesis
      using assms(2) unfolding vsa_receive_alarm_update_def Let_def
      by (auto simp: apps_frame_latch simp del: push_bit_of_1 split: bind_splits evt_arg.splits)
  qed (use assms(2) in \<open>auto simp: vsa_local_status_update_def vsa_bsm_status_update_def
      vsa_gps_status_update_def vsa_eebl_broadcast_update_def vsa_receive_rsa_update_def Let_def
      simp del: push_bit_of_1 split: evt_arg.splits if_splits\<close>)
qed

lemma vam_inv_calls: "vam_inv v \<Longrightarrow> vam_inv (v\<lparr>calls := cs\<rparr>)"
  by (rule vam_inv_frame) (auto simp: timers_ok_def)

lemma vsa_deliver_frame:
  assumes "vsa_deliver g = Some h"
  shows "apps_frame g h"
proof (cases "calls (g_vam (cg g))")
  case (Cons c cs)
  obtain k x where "c = (k, x)" by (rule prod.exhaust)
  then obtain f where "vsa_callback k = Some f" "f x (upd_cg_vam (\<lambda>v. v\<lparr>calls := cs\<rparr>) g) = Some h"
    using assms Cons by (auto simp: vsa_deliver_def split: bind_splits)
  moreover have "apps_frame g (upd_cg_vam (\<lambda>v. v\<lparr>calls := cs\<rparr>) g)"
    by (rule apps_frame_vam) (simp_all add: vam_inv_calls)
  ultimately show ?thesis using vsa_callback_frame apps_frame_trans by blast
qed (use assms in \<open>simp add: vsa_deliver_def\<close>)

lemma vsa_start_frame:
  assumes "vsa_start g = Some h"
  shows "apps_frame g h"
proof -
  define k where "k e n g = upd_cg_vam (\<lambda>v. snd (vam_set_event_handler e (Some n) v)) g" for e n g
  have k: "apps_frame g (k e n h)" if "apps_frame g h" for e n g h
    unfolding k_def by (rule apps_frame_vam[OF that]) (rule vam_inv_callbacks)
  have "apps_frame g (k 5 6 (k 4 5 (k 3 4 (k 2 3 (k 1 2 (k 0 1 g))))))" by (intro k apps_frame_refl)
  then show ?thesis
    using assms by (auto simp: vsa_start_def Let_def k_def[symmetric] vsa_gps_status_update_def split: if_splits)
qed

lemma recv_ok: "osal_queue_recv q = Some (m, q') \<Longrightarrow> queue_ok q \<Longrightarrow> queue_ok q'"
  by (auto simp: osal_queue_recv_def queue_ok_def split: list.splits)

lemma sysc_thread_inv:
  assumes "sysc_thread_entry g = Some h" "rsu_inv g"
  shows "rsu_inv h"
proof (cases "osal_queue_recv (queue_sys_mng (sys g))")
  case (Some r)
  obtain m q where r: "r = (m, q)" by (rule prod.exhaust)
  define g1 where "g1 = g\<lparr>sys := (sys g)\<lparr>queue_sys_mng := q\<rparr>\<rparr>"
  have g1: "rsu_inv g1"
    using assms(2) recv_ok[OF Some[unfolded r]] by (simp add: rsu_inv_def vsa_inv_def g1_def)
  have run: "sys_manage_proc m g1 = Some h" using assms(1) Some r by (simp add: sysc_thread_entry_def g1_def)
  have put: "rsu_inv (k\<lparr>sys := hi_update t (sys k)\<rparr>)" if "rsu_inv k" for k t
    using that by (simp add: rsu_inv_def vsa_inv_def)
  show ?thesis
  proof (cases m g1 rule: sys_manage_cases)
    case (start g2)
    have "rsu_inv (upd_cg_vam (\<lambda>v. snd (vam_start v)) g1)"
      using g1 vam_inv_post by (simp add: rsu_inv_def vam_start_def)
    then have "rsu_inv g2"
      using vsa_start_frame[OF start(2)] vsa_start_inv[OF start(2)] by (simp add: rsu_inv_def apps_frame_def)
    then show ?thesis using start(3) run put by simp
  next
    case (out t)
    then show ?thesis using run put[OF g1] by simp
  next
    case ignored
    then show ?thesis using run g1 by simp
  qed
qed (use assms in \<open>simp add: sysc_thread_entry_def\<close>)

lemma tk_hi_inv: "rsu_inv g \<Longrightarrow> rsu_inv (tk_hi_thread_entry g)"
  using recv_ok by (auto simp: tk_hi_thread_entry_def rsu_inv_def vsa_inv_def split: option.split)

lemma rsu_inv_apps: "rsu_inv g \<Longrightarrow> apps_frame g h \<Longrightarrow> vsa_inv h \<Longrightarrow> rsu_inv h"
  by (simp add: rsu_inv_def apps_frame_def)

lemma rsu_inv_vsa: "rsu_inv g \<Longrightarrow> vsa_inv g"
  by (simp add: rsu_inv_def)

lemma rsu_step_inv:
  assumes "rsu_step M freed s s'" "rsu_inv (rsu_cms s)" "keeps_id freed"
  shows "rsu_inv (rsu_cms s')"
  using assms
proof (induction rule: rsu_step.induct)
  case (vehicle s t)
  have "task_inv (rsu_task s)" using vehicle(2) by (simp add: task_inv_def rsu_task_def rsu_inv_def)
  then have "task_inv t" using task_step_inv vehicle(1) by blast
  then show ?case using vehicle(2) by (simp add: task_inv_def rsu_put_def rsu_inv_def vsa_inv_def)
next
  case (close_range s g)
  note v = rsu_inv_vsa[OF close_range(2)]
  show ?case
    using rsu_inv_apps[OF close_range(2) vsa_base_frame[OF close_range(1) v close_range(3)]
      vsa_base_inv[OF close_range(1) v close_range(3)]] by simp
next
  case (events s g)
  have "vsa_inv g" using vsa_thread_ok[OF rsu_inv_vsa[OF events(2)]] events(1) by auto
  then show ?case using rsu_inv_apps[OF events(2) vsa_thread_frame[OF events(1)]] by simp
next
  case (braking_timer s)
  have "apps_frame (rsu_cms s) (timer_ebd_send_callback (rsu_cms s))"
    unfolding timer_ebd_send_callback_def apps_frame_tell
    by (rule apps_frame_vam) (simp_all add: alert_mask_frame)
  then show ?case
    using rsu_inv_apps[OF braking_timer(1)] rsu_inv_vsa[OF braking_timer(1)]
    by (simp add: timer_ebd_send_callback_def vsa_inv_tell)
next
  case (deliver s g)
  then show ?case
    using rsu_inv_apps[OF deliver(2) vsa_deliver_frame[OF deliver(1)]
      vsa_deliver_inv[OF deliver(1) rsu_inv_vsa[OF deliver(2)]]] by simp
next
  case (manager s g)
  then show ?case using sysc_thread_inv by simp
next
  case (operator s a)
  note v = rsu_inv_vsa[OF operator(1)]
  have "vsa_inv (tell_vsa VSA_MSG_MANUAL_BC 0 a (rsu_cms s))"
    using v by (rule vsa_inv_event) (simp add: event_ids_def)
  then show ?case using rsu_inv_apps[OF operator(1)] by simp
next
  case (initialised s)
  then show ?case using rsu_inv_apps[OF initialised(1)] vsa_inv_tell[OF rsu_inv_vsa[OF initialised(1)]] by simp
next
  case (human s)
  then show ?case using tk_hi_inv by simp
next
  case (position_timer s)
  then show ?case
    using rsu_inv_apps[OF position_timer(1)] rsu_inv_vsa[OF position_timer(1)]
    by (simp add: timer_preprocess_pos_callback_def)
qed

lemma rsu_reachable_inv:
  assumes "rsu_reachable M freed s" "keeps_id freed"
  shows "rsu_inv (rsu_cms s)"
  using assms(1)
proof (induction rule: rsu_reachable.induct)
  case (boot hv hm w p c0 q c sm hc hp v gp)
  from boot(1) have c: "sm = sys_init" and "\<exists>v0. vam_init hv (cms_param (param_init p)) = Some v0
      \<and> g_vam c = snd (vam_start v0)"
    by (auto simp: main_init_def Let_def upd_vam_def split: bind_splits)
  then have "vam_inv (g_vam c)" using vam_init_inv vam_inv_post by (auto simp: vam_start_def)
  then show ?case
    using vsa_init_inv[OF boot(2)] c by (simp add: rsu_inv_def sys_init_def osal_queue_create_def queue_ok_def)
qed (use rsu_step_inv assms(2) in blast)

section \<open>Properties\<close>


lemma boots:
  "\<exists>s. rsu_reachable M freed s \<and> q_msgs (queue_sys_mng (sys (rsu_cms s))) = []
    \<and> q_msgs (queue_sys_hi (sys (rsu_cms s))) = [] \<and> alert_pend (vsa (rsu_cms s)) = 0
    \<and> q_depth (queue_sys_mng (sys (rsu_cms s))) = SYS_QUEUE_SIZE \<and> q_depth (queue_sys_hi (sys (rsu_cms s))) = SYS_QUEUE_SIZE"
proof -
  let ?p = "\<lparr>cms_param = zero_param, param_mode = 0\<rparr>" and ?h = "\<lparr>lnext = \<lambda>x. x, lprev = \<lambda>x. x\<rparr>"
  obtain v where v: "vsa_init ?h ?h (cms_param (param_init ?p)) = Some v" using vsa_init_total by blast
  have "\<exists>c. main_init ?h ?h (g_wnet demo_cms) ?p demo_cms = Some (param_init ?p, c, sys_init)"
    using vam_init_spec[of ?h "cms_param (param_init ?p)"] by (auto simp: main_init_def Let_def)
  then obtain c where c: "main_init ?h ?h (g_wnet demo_cms) ?p demo_cms = Some (param_init ?p, c, sys_init)" by blast
  show ?thesis
    by (rule exI, rule conjI, rule rsu_reachable.boot[OF c v, of M freed "vt_gps demo_task"])
      (use vsa_init_fields[OF v] in \<open>simp add: sys_init_def osal_queue_create_def\<close>)
qed




end
