(* ===== verification/Gps.thy ===== *)
theory Gps
  imports VamMain
begin

text \<open>
  The receiver of the satellite positions: \<open>drivers/gps/cv_drv_gps.c\<close> cuts the byte stream of the
  serial line into sentences, which it keeps in a ring of five buffers, and sends the task of
  the vehicle manager a pointer into that ring; \<open>drivers/gps/ublox.c\<close> builds the packets that
  configure the receiver chip. A pointer is the number of its buffer: what a message stands for
  is what that buffer holds when the message is read. The serial line is the argument of
  the reading loop and the return value of the functions that write to it.
\<close>

section \<open>The ring of buffers\<close>

abbreviation (input) GPS_BUFF_SIZE :: nat where "GPS_BUFF_SIZE \<equiv> 256"
abbreviation (input) GPS_PIPE :: nat where "GPS_PIPE \<equiv> 5"

record t_buff =
  gb_flag :: bool
  gb_buf :: bytes
  gb_len :: nat

record t_gps_buff =
  gps_pipe :: nat
  gps_ppbuf :: "t_buff list"
  get_gps :: bool

definition gps_init :: t_gps_buff where
  "gps_init = \<lparr>gps_pipe = 0,
     gps_ppbuf = replicate GPS_PIPE \<lparr>gb_flag = False, gb_buf = replicate GPS_BUFF_SIZE 0, gb_len = 0\<rparr>,
     get_gps = False\<rparr>"

text \<open>A message: the buffer and the length it is sent with. There always is a queue to send it to.\<close>

type_synonym gps_msg = "nat \<times> nat"

text \<open>One byte of the line.\<close>

definition gps_read_byte :: "u8 \<Rightarrow> t_gps_buff \<Rightarrow> gps_msg list \<times> t_gps_buff" where
  "gps_read_byte tmp g =
     (let p = gps_pipe g; b = gps_ppbuf g ! p;
          put = (\<lambda>b. g\<lparr>gps_ppbuf := (gps_ppbuf g)[p := b]\<rparr>);
          store = (\<lambda>b. b\<lparr>gb_buf := (gb_buf b)[gb_len b := tmp], gb_len := (gb_len b + 1) mod GPS_BUFF_SIZE\<rparr>)
      in if tmp = 0x24 then
           ([], put (b\<lparr>gb_buf := (replicate GPS_BUFF_SIZE 0)[0 := 0x24], gb_len := 1, gb_flag := True\<rparr>))
         else if tmp = 0x0A then
           (let b = (store b)\<lparr>gb_flag := False\<rparr>
            in ([(p, gb_len b)], (put b)\<lparr>gps_pipe := (p + 1) mod GPS_PIPE, get_gps := True\<rparr>))
         else ([], if gb_flag b then put (store b) else g))"

text \<open>The loop over the bytes that can be read; it ends when the line gives none.\<close>

fun gps_read_data :: "bytes \<Rightarrow> t_gps_buff \<Rightarrow> gps_msg list \<times> t_gps_buff" where
  "gps_read_data [] g = ([], g)"
| "gps_read_data (tmp # line) g =
     (let (m, g) = gps_read_byte tmp g; (ms, g) = gps_read_data line g in (m @ ms, g))"

text \<open>What the vehicle manager finds behind a message, whose argument count nobody sets.\<close>

definition gps_message :: "u32 \<Rightarrow> gps_msg \<Rightarrow> t_gps_buff \<Rightarrow> vam_ptr sys_msg" where
  "gps_message junk m g = \<lparr>m_id = VAM_MSG_GPSDATA, m_len = of_nat (snd m), m_argc = junk,
     m_argv = VGps (gb_buf (gps_ppbuf g ! fst m))\<rparr>"

section \<open>Packets for the receiver\<close>

definition ubx_pkt_checknum_calc :: "bytes \<Rightarrow> u8 \<times> u8" where
  "ubx_pkt_checknum_calc buf =
     (let (ckA, ckB) = fold (\<lambda>x (ckA, ckB). (ckA + ucast x, ckB + (ckA + ucast x))) buf (0 :: u16, 0 :: u16)
      in (ucast ckA, ucast ckB))"

definition ubx_cfg_msg_std_nmea :: "u8 \<Rightarrow> u8 \<Rightarrow> bytes" where
  "ubx_cfg_msg_std_nmea nmea_id enable =
     (let pkt = [0xB5, 0x62, 0x06, 0x01] @ le16 8;
          cfg = [0xF0, nmea_id, 0, enable, 0, 0, 0, 0];
          (a, b) = ubx_pkt_checknum_calc (drop 2 (pkt @ cfg))
      in pkt @ cfg @ [a, b])"

definition ubx_cfg_sbas :: "u8 \<Rightarrow> bytes" where
  "ubx_cfg_sbas enable =
     (let cfg_sbas = [0xB5, 0x62, 0x06, 0x16, 0x08, 0x00, 0x00, 0x01, 0x03, 0x00, 0x00, 0x00, 0x00, 0x00];
          cfg_sbas = cfg_sbas[6 := enable];
          (a, b) = ubx_pkt_checknum_calc (drop 2 cfg_sbas)
      in cfg_sbas @ [a, b])"

text \<open>The identifiers of the sentences that are switched off, in the order of the calls: GLL, GSV, VTG;
  and those that are switched on again, with GGA.\<close>

definition ubx_cfg_needed_nmea :: "bytes list" where
  "ubx_cfg_needed_nmea = [ubx_cfg_msg_std_nmea 1 0, ubx_cfg_msg_std_nmea 3 0, ubx_cfg_msg_std_nmea 5 0]"

definition ubx_cfg_recovery :: "bytes list" where
  "ubx_cfg_recovery = [ubx_cfg_msg_std_nmea 0 1, ubx_cfg_msg_std_nmea 1 1, ubx_cfg_msg_std_nmea 3 1,
     ubx_cfg_msg_std_nmea 5 1]"

definition ubx_cfg_uart_port :: bytes where
  "ubx_cfg_uart_port = [0xB5, 0x62, 0x06, 0x00, 0x14, 0x00, 0x01, 0x00, 0x00, 0x00, 0xD0,
     0x08, 0x00, 0x00, 0x00, 0xC2, 0x01, 0x00, 0x03, 0x00, 0x03, 0x00,
     0x00, 0x00, 0x00, 0x00, 0xBC, 0x5E]"

definition ubx_cfg_nmea_freq :: "u8 \<Rightarrow> bytes" where
  "ubx_cfg_nmea_freq freq =
     (let cfg_pkt = [0xB5, 0x62, 0x06, 0x08, 0x06, 0x00, 0xF4, 0x01, 0x01, 0x00, 0x01, 0x00, 0x0B, 0x77]
      in if freq = 1 then cfg_pkt[6 := 0xE8, 7 := 0x03, 12 := 0x01, 13 := 0x39]
         else if freq = 2 then cfg_pkt[6 := 0xF4, 7 := 0x01, 12 := 0x0B, 13 := 0x77]
         else if freq = 5 then cfg_pkt[6 := 0xC8, 7 := 0x00, 12 := 0xDE, 13 := 0x6A]
         else cfg_pkt)"

definition gps_chip_config :: "bytes list" where
  "gps_chip_config = ubx_cfg_needed_nmea"

section \<open>Framing\<close>

text \<open>The ring has its five buffers of 256 bytes, and its positions are inside.\<close>

definition gps_ok :: "t_gps_buff \<Rightarrow> bool" where
  "gps_ok g \<longleftrightarrow> gps_pipe g < GPS_PIPE \<and> length (gps_ppbuf g) = GPS_PIPE
     \<and> (\<forall>b \<in> set (gps_ppbuf g). length (gb_buf b) = GPS_BUFF_SIZE \<and> gb_len b < GPS_BUFF_SIZE)"

lemma gps_init_ok: "gps_ok gps_init"
  by (simp add: gps_ok_def gps_init_def)

lemma gps_ok_put:
  assumes "gps_ok g" "length (gb_buf b) = GPS_BUFF_SIZE" "gb_len b < GPS_BUFF_SIZE"
  shows "gps_ok (g\<lparr>gps_ppbuf := (gps_ppbuf g)[gps_pipe g := b]\<rparr>)"
  using assms by (auto simp: gps_ok_def dest!: set_update_subset_insert[THEN subsetD])

lemma gps_ok_nth: "gps_ok g \<Longrightarrow> length (gb_buf (gps_ppbuf g ! gps_pipe g)) = GPS_BUFF_SIZE
    \<and> gb_len (gps_ppbuf g ! gps_pipe g) < GPS_BUFF_SIZE"
  by (simp add: gps_ok_def)

lemma gps_read_byte_ok: "gps_ok g \<Longrightarrow> gps_ok (snd (gps_read_byte c g))"
  using gps_ok_nth[of g] gps_ok_put[of g]
  by (auto simp: gps_read_byte_def Let_def) (auto simp: gps_ok_def dest!: set_update_subset_insert[THEN subsetD])

lemma gps_read_data_append:
  "gps_read_data (xs @ ys) g =
     (let (ms, g) = gps_read_data xs g; (ns, g) = gps_read_data ys g in (ms @ ns, g))"
  by (induction xs arbitrary: g) (simp_all add: Let_def case_prod_beta)

text \<open>A sentence on the line, and the buffer it leaves.\<close>

abbreviation sentence :: "bytes \<Rightarrow> bytes" where "sentence body \<equiv> 0x24 # body @ [0x0A]"

definition is_body :: "bytes \<Rightarrow> bool" where
  "is_body body \<longleftrightarrow> 0x24 \<notin> set body \<and> 0x0A \<notin> set body \<and> length body \<le> 254"

definition framed :: "bytes \<Rightarrow> t_buff" where
  "framed body = \<lparr>gb_flag = False, gb_buf = sentence body @ replicate (254 - length body) 0,
     gb_len = (length body + 2) mod GPS_BUFF_SIZE\<rparr>"

lemma read_body:
  assumes "gps_ok g" "0x24 \<notin> set body" "0x0A \<notin> set body"
    "gps_ppbuf g ! gps_pipe g = \<lparr>gb_flag = True, gb_buf = pre @ replicate (n + length body) 0, gb_len = length pre\<rparr>"
    "0 < n"
  shows "gps_read_data body g = ([], g\<lparr>gps_ppbuf := (gps_ppbuf g)[gps_pipe g :=
    \<lparr>gb_flag = True, gb_buf = pre @ body @ replicate n 0, gb_len = length pre + length body\<rparr>]\<rparr>)"
  using assms
proof (induction body arbitrary: g pre)
  case Nil
  then have "gps_pipe g < length (gps_ppbuf g)" by (simp add: gps_ok_def)
  then have "(gps_ppbuf g)[gps_pipe g := \<lparr>gb_flag = True, gb_buf = pre @ replicate n 0, gb_len = length pre\<rparr>] = gps_ppbuf g"
    using Nil.prems(4) by (metis add.right_neutral list.size(3) list_update_id)
  then show ?case by simp
next
  case (Cons c body)
  let ?b = "\<lparr>gb_flag = True, gb_buf = (pre @ [c]) @ replicate (n + length body) 0, gb_len = length (pre @ [c])\<rparr>"
  define g1 where "g1 = g\<lparr>gps_ppbuf := (gps_ppbuf g)[gps_pipe g := ?b]\<rparr>"
  have p: "gps_pipe g < length (gps_ppbuf g)" using Cons.prems(1) by (simp add: gps_ok_def)
  have l: "length pre + (n + length (c # body)) = GPS_BUFF_SIZE"
    using gps_ok_nth[OF Cons.prems(1)] Cons.prems(4) by simp
  have step: "gps_read_byte c g = ([], g1)"
    using Cons.prems l by (simp add: gps_read_byte_def Let_def g1_def list_update_append)
  have ok: "gps_ok g1" using gps_read_byte_ok[OF Cons.prems(1), of c] step by simp
  have "gps_read_data body g1 = ([], g1\<lparr>gps_ppbuf := (gps_ppbuf g1)[gps_pipe g1 :=
    \<lparr>gb_flag = True, gb_buf = (pre @ [c]) @ body @ replicate n 0, gb_len = length (pre @ [c]) + length body\<rparr>]\<rparr>)"
    using Cons.prems p by (intro Cons.IH ok) (simp_all add: g1_def)
  then show ?case using step by (simp add: g1_def)
qed

lemma read_sentence:
  assumes "gps_ok g" "is_body body"
  shows "gps_read_data (sentence body) g = ([(gps_pipe g, (length body + 2) mod GPS_BUFF_SIZE)],
    g\<lparr>gps_ppbuf := (gps_ppbuf g)[gps_pipe g := framed body], gps_pipe := (gps_pipe g + 1) mod GPS_PIPE, get_gps := True\<rparr>)"
proof -
  have body: "0x24 \<notin> set body" "0x0A \<notin> set body" "length body \<le> 254" using assms(2) by (simp_all add: is_body_def)
  have p: "gps_pipe g < length (gps_ppbuf g)" using assms(1) by (simp add: gps_ok_def)
  have r: "(replicate GPS_BUFF_SIZE 0)[0 := 0x24] = ([0x24] :: bytes) @ replicate ((255 - length body) + length body) 0"
    using body(3) by (simp add: numeral_eq_Suc)
  define b0 where "b0 = \<lparr>gb_flag = True, gb_buf = [0x24] @ replicate ((255 - length body) + length body) 0, gb_len = length ([0x24] :: bytes)\<rparr>"
  define g1 where "g1 = g\<lparr>gps_ppbuf := (gps_ppbuf g)[gps_pipe g := b0]\<rparr>"
  have s1: "gps_read_byte 0x24 g = ([], g1)"
    unfolding gps_read_byte_def Let_def r
    by (cases "gps_ppbuf g ! gps_pipe g") (simp add: g1_def b0_def)
  have ok: "gps_ok g1" using gps_read_byte_ok[OF assms(1), of "0x24"] s1 by simp
  define b1 where "b1 = \<lparr>gb_flag = True, gb_buf = [0x24] @ body @ replicate (255 - length body) 0,
      gb_len = length ([0x24] :: bytes) + length body\<rparr>"
  have s2: "gps_read_data body g1 = ([], g1\<lparr>gps_ppbuf := (gps_ppbuf g1)[gps_pipe g1 := b1]\<rparr>)"
    unfolding b1_def using p body by (intro read_body ok) (simp_all add: g1_def b0_def)
  define g2 where "g2 = g\<lparr>gps_ppbuf := (gps_ppbuf g)[gps_pipe g := b1]\<rparr>"
  have "(replicate (255 - length body) 0)[0 := 0x0A] = (0x0A :: u8) # replicate (254 - length body) 0"
    using body(3) by (cases "255 - length body") (auto simp: Suc_diff_le)
  then have "(gb_buf b1)[gb_len b1 := 0x0A] = sentence body @ replicate (254 - length body) 0"
    by (simp add: b1_def list_update_append)
  then have s3: "gps_read_byte 0x0A g2 = ([(gps_pipe g, (length body + 2) mod GPS_BUFF_SIZE)],
    g\<lparr>gps_ppbuf := (gps_ppbuf g)[gps_pipe g := framed body], gps_pipe := (gps_pipe g + 1) mod GPS_PIPE, get_gps := True\<rparr>)"
    using p by (simp add: gps_read_byte_def Let_def g2_def framed_def b1_def)
  have "g1\<lparr>gps_ppbuf := (gps_ppbuf g1)[gps_pipe g1 := b1]\<rparr> = g2" by (simp add: g1_def g2_def)
  then show ?thesis using s1 s2 s3 by (simp add: gps_read_data_append)
qed

definition sentences :: "bytes list \<Rightarrow> bytes" where
  "sentences bs = concat (map sentence bs)"

text \<open>A stream of sentences: one message for each, and each of the last five buffers used holds its
  sentence.\<close>

lemma read_sentences:
  assumes "gps_ok g" "\<forall>b \<in> set bs. is_body b"
  shows "\<exists>ms g'. gps_read_data (sentences bs) g = (ms, g') \<and> gps_ok g'
    \<and> gps_pipe g' = (gps_pipe g + length bs) mod GPS_PIPE
    \<and> ms = map (\<lambda>k. ((gps_pipe g + k) mod GPS_PIPE, (length (bs ! k) + 2) mod GPS_BUFF_SIZE)) [0..<length bs]
    \<and> (\<forall>k < length bs. length bs \<le> k + GPS_PIPE \<longrightarrow> gps_ppbuf g' ! ((gps_pipe g + k) mod GPS_PIPE) = framed (bs ! k))"
  using assms(2)
proof (induction bs rule: rev_induct)
  case Nil
  have "gps_pipe g mod GPS_PIPE = gps_pipe g" using assms(1) by (simp add: gps_ok_def)
  then show ?case using assms(1) by (simp add: sentences_def)
next
  case (snoc b bs)
  let ?p = "gps_pipe g" and ?n = "length bs"
  obtain ms g1 where g1: "gps_read_data (sentences bs) g = (ms, g1)" "gps_ok g1"
    "gps_pipe g1 = (?p + ?n) mod GPS_PIPE"
    "ms = map (\<lambda>k. ((?p + k) mod GPS_PIPE, (length (bs ! k) + 2) mod GPS_BUFF_SIZE)) [0..<?n]"
    and held: "\<And>k. k < ?n \<Longrightarrow> ?n \<le> k + GPS_PIPE \<Longrightarrow> gps_ppbuf g1 ! ((?p + k) mod GPS_PIPE) = framed (bs ! k)"
    using snoc by auto
  define g2 where "g2 = g1\<lparr>gps_ppbuf := (gps_ppbuf g1)[gps_pipe g1 := framed b],
    gps_pipe := (gps_pipe g1 + 1) mod GPS_PIPE, get_gps := True\<rparr>"
  have r: "gps_read_data (sentence b) g1 = ([(gps_pipe g1, (length b + 2) mod GPS_BUFF_SIZE)], g2)"
    unfolding g2_def using g1(2) snoc.prems by (intro read_sentence) auto
  have run: "gps_read_data (sentences (bs @ [b])) g = (ms @ [((?p + ?n) mod GPS_PIPE, (length b + 2) mod GPS_BUFF_SIZE)], g2)"
    using g1(1,3) r by (simp add: sentences_def gps_read_data_append)
  have len: "length (gps_ppbuf g1) = GPS_PIPE" using g1(2) by (simp add: gps_ok_def)
  have ok: "gps_ok g2"
  proof -
    have "length (gb_buf (framed b)) = GPS_BUFF_SIZE" "gb_len (framed b) < GPS_BUFF_SIZE"
      using snoc.prems by (auto simp: framed_def is_body_def)
    from gps_ok_put[OF g1(2) this] show ?thesis by (simp add: g2_def gps_ok_def)
  qed
  have "gps_ppbuf g2 ! ((?p + k) mod GPS_PIPE) = framed ((bs @ [b]) ! k)"
    if k: "k < Suc ?n" "Suc ?n \<le> k + GPS_PIPE" for k
  proof (cases "k = ?n")
    case True
    then show ?thesis using len g1(3) by (simp add: g2_def)
  next
    case False
    have "(?p + k) mod GPS_PIPE \<noteq> (?p + ?n) mod GPS_PIPE"
    proof
      assume "(?p + k) mod GPS_PIPE = (?p + ?n) mod GPS_PIPE"
      then have "GPS_PIPE dvd (?p + ?n) - (?p + k)" by (metis mod_eq_dvd_iff_nat nat_add_left_cancel_le nless_le k(1) less_Suc_eq_le)
      then have "GPS_PIPE dvd ?n - k" by simp
      moreover have "0 < ?n - k" "?n - k < GPS_PIPE" using k False by auto
      ultimately show False by (meson nat_dvd_not_less)
    qed
    moreover have "k < ?n" "?n \<le> k + GPS_PIPE" using k False by auto
    ultimately show ?thesis using held[of k] g1(3) by (simp add: g2_def nth_append)
  qed
  moreover have "gps_pipe g2 = (?p + length (bs @ [b])) mod GPS_PIPE" by (simp add: g2_def g1(3) mod_simps)
  moreover have "ms @ [((?p + ?n) mod GPS_PIPE, (length b + 2) mod GPS_BUFF_SIZE)]
      = map (\<lambda>k. ((?p + k) mod GPS_PIPE, (length ((bs @ [b]) ! k) + 2) mod GPS_BUFF_SIZE)) [0..<length (bs @ [b])]"
    unfolding g1(4) by (simp add: nth_append)
  ultimately show ?case using run ok by auto
qed

section \<open>Properties\<close>

text \<open>Sentences arrive whole and in order: a stream of sentences gives one message for each, and the
  buffers of the last five hold what was sent. The sixth message refers to the buffer of the
  first again, although the queue has room for twenty; and a sentence that fills its buffer is
  announced with length 0.\<close>

theorem gps_sentences_framed:
  assumes "gps_ok g" "\<forall>b \<in> set bs. is_body b"
  shows "\<exists>ms g'. gps_read_data (sentences bs) g = (ms, g') \<and> length ms = length bs
    \<and> (\<forall>k < length bs. snd (ms ! k) = (if length (bs ! k) = 254 then 0 else length (bs ! k) + 2))
    \<and> (\<forall>k < length bs. length bs \<le> k + 5 \<longrightarrow>
         gb_buf (gps_ppbuf g' ! fst (ms ! k)) = sentence (bs ! k) @ replicate (254 - length (bs ! k)) 0)
    \<and> (\<forall>k. k + 5 < length bs \<longrightarrow> fst (ms ! (k + 5)) = fst (ms ! k))"
proof -
  obtain ms g' where r: "gps_read_data (sentences bs) g = (ms, g')"
    "ms = map (\<lambda>k. ((gps_pipe g + k) mod GPS_PIPE, (length (bs ! k) + 2) mod GPS_BUFF_SIZE)) [0..<length bs]"
    and held: "\<And>k. k < length bs \<Longrightarrow> length bs \<le> k + 5 \<Longrightarrow> gps_ppbuf g' ! ((gps_pipe g + k) mod GPS_PIPE) = framed (bs ! k)"
    using read_sentences[OF assms] by blast
  have "(length b + 2) mod GPS_BUFF_SIZE = (if length b = 254 then 0 else length b + 2)" if "b \<in> set bs" for b
    using that assms(2) by (auto simp: is_body_def)
  then have "\<forall>k < length bs. snd (ms ! k) = (if length (bs ! k) = 254 then 0 else length (bs ! k) + 2)"
    by (simp add: r(2))
  moreover have "\<forall>k. k + 5 < length bs \<longrightarrow> fst (ms ! (k + 5)) = fst (ms ! k)"
    by (simp add: r(2) flip: add.assoc)
  ultimately show ?thesis using r(1) held by (auto simp: r(2) framed_def)
qed

theorem gps_sentences_framed_witness:
  "\<exists>ms g'. gps_read_data (sentences [[71, 80], [71, 81]]) gps_init = (ms, g')
    \<and> gb_buf (gps_ppbuf g' ! fst (ms ! 0)) = [36, 71, 80, 10] @ replicate 252 0"
proof -
  have "\<forall>b \<in> set [[71, 80], [71, 81]]. is_body b" by (simp add: is_body_def)
  from gps_sentences_framed[OF gps_init_ok this] show ?thesis by auto
qed

definition ubx_valid :: "bytes \<Rightarrow> bool" where
  "ubx_valid p \<longleftrightarrow> take 2 p = [0xB5, 0x62] \<and> length p = unat (get16 p 4) + 8
     \<and> drop (length p - 2) p = (let (a, b) = ubx_pkt_checknum_calc (drop 2 (take (length p - 2) p)) in [a, b])"

text \<open>C40. Every packet the program can send to the receiver is well-formed: it opens with the two
  synchronisation characters, its length field counts its payload, and it ends with the
  checksum of what lies between.\<close>

theorem ubx_packets_valid:
  "ubx_valid (ubx_cfg_msg_std_nmea i e) \<and> ubx_valid (ubx_cfg_sbas e) \<and> ubx_valid (ubx_cfg_nmea_freq f)
    \<and> ubx_valid ubx_cfg_uart_port"
proof (intro conjI)
  show "ubx_valid (ubx_cfg_msg_std_nmea i e)"
    by (simp add: ubx_valid_def ubx_cfg_msg_std_nmea_def Let_def case_prod_beta le16_def get16.simps)
  show "ubx_valid (ubx_cfg_sbas e)"
    by (simp add: ubx_valid_def ubx_cfg_sbas_def Let_def case_prod_beta get16.simps)
  show "ubx_valid ubx_cfg_uart_port" by code_simp
  show "ubx_valid (ubx_cfg_nmea_freq f)"
    by (simp add: ubx_valid_def ubx_cfg_nmea_freq_def Let_def ubx_pkt_checknum_calc_def get16.simps)
qed

end
