(* ===== verification/OsTimer.thy ===== *)
theory OsTimer
  imports Osal ListH
begin

text \<open>
  The timer module below \<open>osal_timer\<close>, \<open>osal/linux/os_timer.c\<close>: a pool of 256 timers and one of 16
  threads, a queue of armed timers per thread in the order of their expiry, and the loop of a
  thread that expires what is due. All of them are intrusive circular lists in one heap, whose
  addresses are the list heads and the \<open>links\<close> of timers and threads.

  The mutex makes every operation atomic; the condition variable only says when a thread looks at
  its queue again, so a thread may take its next step at any time. Of \<open>__timer_create\<close> the case
  the program uses is modelled, a timer that calls a function (\<open>SIGEV_THREAD\<close>); \<open>errno\<close>, the
  process number and the \<open>abstime\<close> field, which nobody reads, are left out. A failed assertion is \<open>None\<close>.
\<close>

section \<open>Lists with shared cells\<close>

text \<open>\<open>lists_ok h H L\<close>: every head in \<open>H\<close> has the list \<open>L\<close> says, and no cell belongs to two lists. A node
  that is in no list but linked to itself is a head with an empty list.\<close>

definition lists_ok :: "'p list_heap \<Rightarrow> 'p set \<Rightarrow> ('p \<Rightarrow> 'p list) \<Rightarrow> bool" where
  "lists_ok h H L \<longleftrightarrow> (\<forall>a \<in> H. dll h a (L a))
     \<and> (\<forall>a \<in> H. \<forall>b \<in> H. a \<noteq> b \<longrightarrow> set (a # L a) \<inter> set (b # L b) = {})"

definition owned :: "'p set \<Rightarrow> ('p \<Rightarrow> 'p list) \<Rightarrow> 'p set" where
  "owned H L = (\<Union>a \<in> H. set (a # L a))"

lemma lists_okD: "lists_ok h H L \<Longrightarrow> a \<in> H \<Longrightarrow> dll h a (L a)"
  by (simp add: lists_ok_def)

lemma lists_ok_subset: "lists_ok h H L \<Longrightarrow> K \<subseteq> H \<Longrightarrow> lists_ok h K L"
  unfolding lists_ok_def by blast

lemma lists_ok_cong: "lists_ok h H L \<Longrightarrow> (\<And>a. a \<in> H \<Longrightarrow> L a = M a) \<Longrightarrow> lists_ok h H M"
  by (simp add: lists_ok_def)

text \<open>The four assignments of \<open>list_append\<close>.\<close>

definition list_append :: "'p \<Rightarrow> 'p \<Rightarrow> 'p list_heap \<Rightarrow> 'p list_heap" where
  "list_append lst newp h =
     (let h = set_prev newp (lprev h lst) h;
          h = set_next newp lst h;
          h = set_next (lprev h lst) newp h
      in set_prev lst newp h)"

definition list_unlink :: "'p \<Rightarrow> 'p list_heap \<Rightarrow> 'p list_heap" where
  "list_unlink e h =
     (let n = lnext h e; p = lprev h e in set_next p n (set_prev n p h))"

definition list_unlink_ip :: "'p \<Rightarrow> 'p list_heap \<Rightarrow> 'p list_heap" where
  "list_unlink_ip e h =
     (let n = lnext h e; p = lprev h e; h = set_next p n (set_prev n p h)
      in set_prev e e (set_next e e h))"

lemma list_unlink_del: "list_unlink e h = list_del e h"
  by (simp add: list_unlink_def list_del_def list_del_between_def Let_def)

lemma list_unlink_ip_init: "list_unlink_ip e h = INIT_LIST_HEAD e (list_unlink e h)"
  by (simp add: list_unlink_ip_def list_unlink_def INIT_LIST_HEAD_def Let_def)

lemma list_append_between:
  "newp \<noteq> lst \<Longrightarrow> newp \<noteq> lprev h lst \<Longrightarrow> list_append lst newp h = list_add_between newp (lprev h lst) lst h"
  by (auto simp: list_append_def list_add_between_def Let_def set_next_def set_prev_def fun_upd_twist)

text \<open>Inserting a free cell in front of any position of a list, in particular at its end.\<close>

lemma lists_ok_insert:
  assumes ok: "lists_ok h H L" and a: "a \<in> H" "L a = xs @ ys" and e: "e \<notin> owned H L"
  shows "lists_ok (list_append (hd (ys @ [a])) e h) H (L(a := xs @ e # ys))"
proof -
  let ?i = "hd (ys @ [a])" and ?p = "last (a # xs)"
  have d: "dll h a (xs @ ys)" using lists_okD[OF ok a(1)] a(2) by simp
  have new: "e \<notin> set (a # xs @ ys)" using e a by (auto simp: owned_def)
  have prev: "lprev h ?i = ?p"
    using d by (cases ys) (auto simp: dll_def dest: chain_last)
  have "?i \<in> set (a # xs @ ys)" "?p \<in> set (a # xs @ ys)" by (cases ys; simp)+
  then have eq: "list_append ?i e h = list_add_between e ?p ?i h"
    using list_append_between[of e ?i h] new unfolding prev by metis
  have "dll (list_append ?i e h) a (xs @ e # ys)" unfolding eq by (rule dll_add_between[OF d new])
  moreover have "dll (list_append ?i e h) b (L b)" if "b \<in> H" "b \<noteq> a" for b
  proof -
    have "set (a # L a) \<inter> set (b # L b) = {}" using ok a(1) that by (auto simp: lists_ok_def)
    moreover have "e \<notin> set (b # L b)" using e that(1) by (auto simp: owned_def)
    ultimately have "{e, ?p, ?i} \<inter> set (b # L b) = {}"
      using \<open>?i \<in> _\<close> \<open>?p \<in> _\<close> a(2) by auto
    then show ?thesis unfolding eq by (rule dll_frame_add_between[OF lists_okD[OF ok that(1)]])
  qed
  moreover have "set (b # (L(a := xs @ e # ys)) b) \<inter> set (c # (L(a := xs @ e # ys)) c) = {}"
    if "b \<in> H" "c \<in> H" "b \<noteq> c" for b c
  proof -
    have "set (b # L b) \<inter> set (c # L c) = {}" using ok that by (auto simp: lists_ok_def)
    moreover have "e \<notin> set (b # L b)" "e \<notin> set (c # L c)" using e that by (auto simp: owned_def)
    ultimately show ?thesis using a(2) by auto
  qed
  ultimately show ?thesis by (simp add: lists_ok_def)
qed

lemma lists_ok_append:
  assumes "lists_ok h H L" "a \<in> H" "e \<notin> owned H L"
  shows "lists_ok (list_append a e h) H (L(a := L a @ [e]))"
  using lists_ok_insert[OF assms(1,2), of "L a" "[]"] assms(3) by simp

lemma lists_ok_unlink:
  assumes ok: "lists_ok h H L" and a: "a \<in> H" "L a = xs @ e # ys"
  shows "lists_ok (list_unlink e h) H (L(a := xs @ ys))"
proof -
  have d: "dll h a (xs @ e # ys)" using lists_okD[OF ok a(1)] a(2) by simp
  have apart: "set (b # L b) \<inter> set (c # L c) = {}" if "b \<in> H" "c \<in> H" "b \<noteq> c" for b c
    using ok that unfolding lists_ok_def by blast
  have "dll (list_unlink e h) b (L b)" if b: "b \<in> H" "b \<noteq> a" for b
  proof -
    have "set (a # xs @ e # ys) \<inter> set (b # L b) = {}" using apart[OF a(1) b(1)] b(2) a(2) by simp
    with d show ?thesis
      unfolding list_unlink_del
      by (intro dll_frame_list_del[of h a "xs @ e # ys"] lists_okD[OF ok b(1)]) simp_all
  qed
  moreover have "dll (list_unlink e h) a (xs @ ys)" unfolding list_unlink_del by (rule dll_list_del[OF d])
  moreover have "set (b # (L(a := xs @ ys)) b) \<inter> set (c # (L(a := xs @ ys)) c) = {}"
    if "b \<in> H" "c \<in> H" "b \<noteq> c" for b c
    using apart[OF that] that(3) a(2) by auto
  ultimately show ?thesis by (simp add: lists_ok_def)
qed

lemma lists_ok_init:
  assumes ok: "lists_ok h H L" and e: "e \<notin> owned H L"
  shows "lists_ok (INIT_LIST_HEAD e h) (insert e H) (L(e := []))"
proof -
  have "dll (INIT_LIST_HEAD e h) b (L b)" if "b \<in> H" for b
    by (rule dll_frame[OF lists_okD[OF ok that]])
      (use e that in \<open>auto simp: owned_def INIT_LIST_HEAD_def\<close>)
  then show ?thesis using ok e dll_init by (auto simp: lists_ok_def owned_def)
qed

lemma owned_removed:
  assumes "lists_ok h H L" "a \<in> H" "L a = xs @ e # ys"
  shows "e \<notin> owned H (L(a := xs @ ys))"
proof -
  have "distinct (a # xs @ e # ys)" using lists_okD[OF assms(1,2)] assms(3) by (simp add: dll_def)
  moreover have "e \<notin> set (b # L b)" if "b \<in> H" "b \<noteq> a" for b
  proof -
    have "set (a # L a) \<inter> set (b # L b) = {}" using assms(1,2) that unfolding lists_ok_def by blast
    then show ?thesis using assms(3) by auto
  qed
  ultimately show ?thesis by (auto simp: owned_def split: if_splits)
qed

lemma lists_ok_unlink_ip:
  assumes "lists_ok h H L" "a \<in> H" "L a = xs @ e # ys"
  shows "lists_ok (list_unlink_ip e h) (insert e H) (L(a := xs @ ys, e := []))"
  unfolding list_unlink_ip_init
  using lists_ok_init[OF lists_ok_unlink[OF assms] owned_removed[OF assms]] .

text \<open>A node that is in no list may be unlinked again.\<close>

lemma list_unlink_ip_idle:
  assumes "lists_ok h H L" "e \<in> H" "L e = []"
  shows "list_unlink_ip e h = h"
proof -
  have "lnext h e = e" "lprev h e = e" using lists_okD[OF assms(1,2)] assms(3) by (simp_all add: dll_def)
  then show ?thesis by (simp add: list_unlink_ip_def Let_def set_next_def set_prev_def fun_upd_idem)
qed

lemma lists_ok_remove:
  assumes ok: "lists_ok h H L" and e: "e \<in> owned H L" "L e = []"
  shows "lists_ok (list_unlink_ip e h) (insert e H) (\<lambda>a. removeAll e (L a))"
proof (cases "e \<in> H")
  case True
  have "removeAll e (L a) = L a" if "a \<in> H" for a
  proof (cases "a = e")
    case False
    then have "set (a # L a) \<inter> set (e # L e) = {}" using ok True that unfolding lists_ok_def by blast
    then show ?thesis by auto
  qed (simp add: e)
  then show ?thesis using True ok e by (simp add: list_unlink_ip_idle insert_absorb lists_ok_def)
next
  case False
  then obtain a where a: "a \<in> H" "e \<in> set (L a)" using e(1) by (auto simp: owned_def)
  then obtain xs ys where L: "L a = xs @ e # ys" using split_list by fast
  have "distinct (xs @ e # ys)" using lists_okD[OF ok a(1)] L by (simp add: dll_def)
  then have here: "removeAll e (L a) = xs @ ys" using L by simp
  have "removeAll e (L b) = L b" if "b \<in> H" "b \<noteq> a" for b
  proof -
    have "set (a # L a) \<inter> set (b # L b) = {}" using ok a(1) that unfolding lists_ok_def by blast
    then have "e \<notin> set (L b)" using a(2) by auto
    then show ?thesis by simp
  qed
  then show ?thesis
    using here e(2)
    by (intro lists_ok_cong[OF lists_ok_unlink_ip[OF ok a(1) L]]) auto
qed

lemma lists_ok_claim:
  assumes ok: "lists_ok h H L" and e: "e \<in> H" "L e = []"
  shows "lists_ok h (H - {e}) L" "e \<notin> owned (H - {e}) L"
proof -
  show "lists_ok h (H - {e}) L" by (rule lists_ok_subset[OF ok]) auto
  have "e \<notin> set (b # L b)" if "b \<in> H" "b \<noteq> e" for b
  proof -
    have "set (b # L b) \<inter> set (e # L e) = {}" using ok e(1) that unfolding lists_ok_def by blast
    then show ?thesis by auto
  qed
  then show "e \<notin> owned (H - {e}) L" by (auto simp: owned_def)
qed

section \<open>State of the module\<close>

text \<open>The addresses of the list cells: three global heads, the head of the queue of a thread, and the
  \<open>links\<close> of the timers and threads of the two arrays. Thread 16 is the one for signals.\<close>

datatype taddr = TimerFree | ThreadFree | ThreadActive
  | TimerQueue nat | TimerLink nat | ThreadLink nat

definition THREAD_MAXNODES :: nat where "THREAD_MAXNODES = 16"
definition TIMER_MAX :: nat where "TIMER_MAX = 256"
definition DELAYTIMER_MAX :: int where "DELAYTIMER_MAX = 2147483647"

lemmas timer_limits = THREAD_MAXNODES_def TIMER_MAX_def DELAYTIMER_MAX_def

datatype clockid = CLOCK_REALTIME | CLOCK_MONOTONIC

text \<open>What \<open>thread_attr_compare\<close> reads of the attributes of a thread.\<close>

record thread_attr =
  at_policy :: int
  at_priority :: int

definition default_attr :: thread_attr where
  "default_attr = \<lparr>at_policy = 0, at_priority = 0\<rparr>"

record 'h timer_node = os_timer +
  tn_event :: "'h option"
  tn_clock :: clockid
  tn_attr :: thread_attr
  tn_expiry :: timespec
  tn_thread :: "nat option"
  tn_refcount :: int
  tn_overrun :: int

record thread_node =
  th_attr :: thread_attr
  th_exists :: bool
  th_current :: "nat option"
  th_clock :: clockid

record 'h timer_module =
  mt_links :: "taddr list_heap"
  mt_timer :: "nat \<Rightarrow> 'h timer_node"
  mt_thread :: "nat \<Rightarrow> thread_node"

definition upd_timer :: "nat \<Rightarrow> ('h timer_node \<Rightarrow> 'h timer_node) \<Rightarrow> 'h timer_module \<Rightarrow> 'h timer_module" where
  "upd_timer i f m = m\<lparr>mt_timer := (mt_timer m)(i := f (mt_timer m i))\<rparr>"

definition upd_thread :: "nat \<Rightarrow> (thread_node \<Rightarrow> thread_node) \<Rightarrow> 'h timer_module \<Rightarrow> 'h timer_module" where
  "upd_thread t f m = m\<lparr>mt_thread := (mt_thread m)(t := f (mt_thread m t))\<rparr>"

definition upd_links :: "(taddr list_heap \<Rightarrow> taddr list_heap) \<Rightarrow> 'h timer_module \<Rightarrow> 'h timer_module" where
  "upd_links f m = m\<lparr>mt_links := f (mt_links m)\<rparr>"

lemma upd_sel [simp]:
  "mt_links (upd_timer i f m) = mt_links m" "mt_thread (upd_timer i f m) = mt_thread m"
  "mt_timer (upd_timer i f m) = (mt_timer m)(i := f (mt_timer m i))"
  "mt_links (upd_thread t g m) = mt_links m" "mt_timer (upd_thread t g m) = mt_timer m"
  "mt_thread (upd_thread t g m) = (mt_thread m)(t := g (mt_thread m t))"
  "mt_links (upd_links k m) = k (mt_links m)" "mt_timer (upd_links k m) = mt_timer m"
  "mt_thread (upd_links k m) = mt_thread m"
  by (simp_all add: upd_timer_def upd_thread_def upd_links_def)

text \<open>\<open>timer_links2ptr\<close> and \<open>thread_links2ptr\<close>; an address of another kind is inside no such node.\<close>

fun timer_links2ptr :: "taddr \<Rightarrow> nat" where
  "timer_links2ptr (TimerLink i) = i"
| "timer_links2ptr _ = TIMER_MAX"

fun thread_links2ptr :: "taddr \<Rightarrow> nat" where
  "thread_links2ptr (ThreadLink i) = i"
| "thread_links2ptr _ = THREAD_MAXNODES"

section \<open>Threads and their queues\<close>

definition thread_init :: "nat \<Rightarrow> thread_attr option \<Rightarrow> clockid \<Rightarrow> 'h timer_module \<Rightarrow> 'h timer_module" where
  "thread_init t attr clk m =
     (let m = upd_thread t (\<lambda>th. th\<lparr>th_attr := (case attr of Some a \<Rightarrow> a | None \<Rightarrow> default_attr),
                                   th_exists := False\<rparr>) m;
          m = upd_links (INIT_LIST_HEAD (TimerQueue t)) m
      in upd_thread t (\<lambda>th. th\<lparr>th_current := None, th_clock := clk\<rparr>) m)"

definition init_timer_slot :: "'h timer_module \<Rightarrow> nat \<Rightarrow> 'h timer_module" where
  "init_timer_slot m i =
     upd_timer i (\<lambda>t. t\<lparr>tm_inuse := TIMER_FREE\<rparr>) (upd_links (list_append TimerFree (TimerLink i)) m)"

definition init_module :: "'h timer_module \<Rightarrow> 'h timer_module" where
  "init_module m =
     (let m = upd_links (INIT_LIST_HEAD TimerFree) m;
          m = upd_links (INIT_LIST_HEAD ThreadFree) m;
          m = upd_links (INIT_LIST_HEAD ThreadActive) m;
          m = foldl init_timer_slot m [0..<TIMER_MAX];
          m = foldl (\<lambda>m i. upd_links (list_append ThreadFree (ThreadLink i)) m) m [0..<THREAD_MAXNODES]
      in thread_init THREAD_MAXNODES None CLOCK_REALTIME m)"

definition timer_thread_alloc ::
    "thread_attr \<Rightarrow> clockid \<Rightarrow> 'h timer_module \<Rightarrow> nat option \<times> 'h timer_module" where
  "timer_thread_alloc desired_attr clk m =
     (let node = lnext (mt_links m) ThreadFree
      in if node \<noteq> ThreadFree
         then let t = thread_links2ptr node;
                  m = upd_links (list_unlink node) m;
                  m = thread_init t (Some desired_attr) clk m;
                  m = upd_links (list_append ThreadActive node) m
              in (Some t, m)
         else (None, m))"

definition timer_thread_dealloc :: "nat \<Rightarrow> 'h timer_module \<Rightarrow> 'h timer_module option" where
  "timer_thread_dealloc t m =
     (if \<not> list_empty (TimerQueue t) (mt_links m) then None
      else Some (upd_links (list_append ThreadFree (ThreadLink t))
                   (upd_links (list_unlink (ThreadLink t)) m)))"

text \<open>\<open>spawn\<close> says whether \<open>pthread_create\<close> succeeds.\<close>

definition timer_thread_start :: "bool \<Rightarrow> nat \<Rightarrow> 'h timer_module \<Rightarrow> (int \<times> 'h timer_module) option" where
  "timer_thread_start spawn t m =
     (if th_exists (mt_thread m t) then None
      else let m = upd_thread t (\<lambda>th. th\<lparr>th_exists := True\<rparr>) m
        in Some (if spawn then (1, m) else (-1, upd_thread t (\<lambda>th. th\<lparr>th_exists := False\<rparr>) m)))"

definition thread_attr_compare :: "thread_attr \<Rightarrow> thread_attr \<Rightarrow> bool" where
  "thread_attr_compare l r \<longleftrightarrow> at_policy l = at_policy r \<and> at_priority l = at_priority r"

definition timer_thread_find_matching ::
    "thread_attr \<Rightarrow> clockid \<Rightarrow> 'h timer_module \<Rightarrow> nat option option" where
  "timer_thread_find_matching desired_attr clk m =
     map_option (map_option thread_links2ptr)
       (list_find (\<lambda>p. thread_attr_compare desired_attr (th_attr (mt_thread m (thread_links2ptr p)))
                       \<and> clk = th_clock (mt_thread m (thread_links2ptr p))) (mt_links m) ThreadActive)"

text \<open>The loop of \<open>__timer_thread_queue_timer\<close>: where to insert, and whether that is the head.\<close>

partial_function (option) queue_seek ::
    "(nat \<Rightarrow> 'h timer_node) \<Rightarrow> timespec \<Rightarrow> taddr list_heap \<Rightarrow> taddr \<Rightarrow> taddr \<Rightarrow> bool
      \<Rightarrow> (taddr \<times> bool) option" where
  "queue_seek nodes expiry h q iter athead =
     (if iter = q then Some (iter, athead)
      else if timespec_compare expiry (tn_expiry (nodes (timer_links2ptr iter))) < 0
        then Some (iter, athead)
      else queue_seek nodes expiry h q (lnext h iter) False)"

definition timer_thread_queue_timer ::
    "nat \<Rightarrow> nat \<Rightarrow> 'h timer_module \<Rightarrow> (bool \<times> 'h timer_module) option" where
  "timer_thread_queue_timer t i m =
     (case queue_seek (mt_timer m) (tn_expiry (mt_timer m i)) (mt_links m)
             (TimerQueue t) (lnext (mt_links m) (TimerQueue t)) True of
        None \<Rightarrow> None
      | Some (iter, athead) \<Rightarrow> Some (athead, upd_links (list_append iter (TimerLink i)) m))"

section \<open>Allocation of timers\<close>

definition timer_alloc :: "'h timer_module \<Rightarrow> nat option \<times> 'h timer_module" where
  "timer_alloc m =
     (let node = lnext (mt_links m) TimerFree
      in if node \<noteq> TimerFree
         then let i = timer_links2ptr node;
                  m = upd_links (list_unlink_ip node) m
              in (Some i, upd_timer i (\<lambda>t. t\<lparr>tm_inuse := TIMER_INUSE, tn_refcount := 1\<rparr>) m)
         else (None, m))"

definition timer_dealloc :: "nat \<Rightarrow> 'h timer_module \<Rightarrow> 'h timer_module option" where
  "timer_dealloc i m =
     (if tn_refcount (mt_timer m i) \<noteq> 0 then None
      else let m = upd_links (list_unlink_ip (TimerLink i)) m;
               m = upd_timer i (\<lambda>t. t\<lparr>tn_thread := None, tm_inuse := TIMER_FREE\<rparr>) m
           in Some (upd_links (list_append TimerFree (TimerLink i)) m))"

definition timer_addref :: "nat \<Rightarrow> 'h timer_module \<Rightarrow> 'h timer_module" where
  "timer_addref i m = upd_timer i (\<lambda>t. t\<lparr>tn_refcount := tn_refcount t + 1\<rparr>) m"

definition timer_delref :: "nat \<Rightarrow> 'h timer_module \<Rightarrow> 'h timer_module option" where
  "timer_delref i m =
     (let m = upd_timer i (\<lambda>t. t\<lparr>tn_refcount := tn_refcount t - 1\<rparr>) m
      in if tn_refcount (mt_timer m i) = 0 then timer_dealloc i m else Some m)"

text \<open>The tail of \<open>__timer_create\<close> at \<open>unlock_bail\<close>.\<close>

definition timer_create_bail ::
    "nat option \<Rightarrow> nat option \<Rightarrow> 'h timer_module \<Rightarrow> (nat option \<times> 'h timer_module) option" where
  "timer_create_bail thread newtimer m =
     do { m \<leftarrow> (case thread of None \<Rightarrow> Some m | Some t \<Rightarrow> timer_thread_dealloc t m);
          m \<leftarrow> (case newtimer of None \<Rightarrow> Some m
                | Some i \<Rightarrow> Option.bind (timer_delref i m) (timer_dealloc i));
          Some (None, m) }"

definition timer_create ::
    "bool \<Rightarrow> clockid \<Rightarrow> 'h option \<Rightarrow> thread_attr \<Rightarrow> 'h timer_module
      \<Rightarrow> (nat option \<times> 'h timer_module) option" where
  "timer_create spawn clk event attr m =
     (case timer_alloc m of
        (None, m) \<Rightarrow> timer_create_bail None None m
      | (Some i, m) \<Rightarrow>
          let m = upd_timer i (\<lambda>t. t\<lparr>tn_event := event, tn_attr := attr\<rparr>) m
          in do { found \<leftarrow> timer_thread_find_matching attr clk m;
                  let (thread, m) = (case found of Some t \<Rightarrow> (Some t, m)
                                     | None \<Rightarrow> timer_thread_alloc attr clk m);
                  case thread of
                    None \<Rightarrow> timer_create_bail None (Some i) m
                  | Some t \<Rightarrow>
                      do { (started, m) \<leftarrow> (if th_exists (mt_thread m t) then Some (0, m)
                                             else timer_thread_start spawn t m);
                           if started < 0 then timer_create_bail (Some t) (Some i) m
                           else Some (Some i, upd_timer i (\<lambda>n. n\<lparr>tn_clock := clk, tm_armed := False,
                                                              tn_thread := Some t\<rparr>) m) } })"

text \<open>\<open>__timer_delete\<close>. \<open>self\<close> is the thread that calls, if it is one of the module: another one waits
  while the handler of the timer runs, and then goes on from the state it finds; the value is
  \<open>None\<close> as long as it waits.\<close>

definition delete_waits :: "nat option \<Rightarrow> nat \<Rightarrow> 'h timer_module \<Rightarrow> bool" where
  "delete_waits self i m \<longleftrightarrow>
     (tm_armed (mt_timer m i) \<and>
      (case tn_thread (mt_timer m i) of None \<Rightarrow> False
       | Some t \<Rightarrow> th_current (mt_thread m t) = Some i \<and> self \<noteq> Some t))"

definition timer_delete :: "nat option \<Rightarrow> nat \<Rightarrow> 'h timer_module \<Rightarrow> (int \<times> 'h timer_module) option" where
  "timer_delete self i m =
     (if tm_inuse (mt_timer m i) \<noteq> TIMER_INUSE then Some (-1, m)
      else if delete_waits self i m then None
      else let m = upd_timer i (\<lambda>t. t\<lparr>tm_inuse := TIMER_DELETED\<rparr>) m;
               m = upd_links (list_unlink_ip (TimerLink i)) m
           in do { m \<leftarrow> timer_delref i m; Some (0, m) })"

text \<open>\<open>__timer_settime\<close> with no place for the old value, which is how it is called. \<open>now\<close> is the clock of
  the timer at the call.\<close>

definition timer_settime_in ::
    "bool \<Rightarrow> timespec \<Rightarrow> nat \<Rightarrow> timespec \<Rightarrow> timespec \<Rightarrow> 'h timer_module
      \<Rightarrow> (int \<times> 'h timer_module) option" where
  "timer_settime_in abstime now i val itv m =
     (if tv_nsec itv < 0 \<or> tv_nsec itv \<ge> 1000000000
         \<or> tv_nsec val < 0 \<or> tv_nsec val \<ge> 1000000000 then Some (-1, m)
      else let m = timer_addref i m
        in if tm_inuse (mt_timer m i) \<noteq> TIMER_INUSE
           then do { m \<leftarrow> timer_delref i m; Some (-1, m) }
           else let m = upd_timer i (\<lambda>t. t\<lparr>tm_value := val, tm_interval := itv\<rparr>) m;
                    m = upd_links (list_unlink_ip (TimerLink i)) m;
                    m = upd_timer i (\<lambda>t. t\<lparr>tm_armed := False\<rparr>) m
                in do { m \<leftarrow> (if tv_sec val \<noteq> 0 \<or> tv_nsec val \<noteq> 0
                             then let m = upd_timer i (\<lambda>t. t\<lparr>tn_expiry := (if abstime then val
                                                               else timespec_add now val)\<rparr>) m
                               in do { m \<leftarrow> (case tn_thread (mt_timer m i) of None \<Rightarrow> Some m
                                             | Some t \<Rightarrow> map_option snd (timer_thread_queue_timer t i m));
                                       Some (upd_timer i (\<lambda>t. t\<lparr>tm_armed := True\<rparr>) m) }
                             else Some m);
                        m \<leftarrow> timer_delref i m;
                        Some (0, m) })"

section \<open>The interface of \<open>os_timer.h\<close>\<close>

definition TIMER_ABSTIME :: u32 where "TIMER_ABSTIME = 1"
definition TIMER_ONESHOT :: u32 where "TIMER_ONESHOT = 2"
definition TIMER_INTERVAL :: u32 where "TIMER_INTERVAL = 4"
definition TIMER_STOPPED :: u32 where "TIMER_STOPPED = 8"

lemmas timer_flags = TIMER_ABSTIME_def TIMER_ONESHOT_def TIMER_INTERVAL_def TIMER_STOPPED_def

definition SCHED_RR :: int where "SCHED_RR = 2"

definition os_timer_add ::
    "bool \<Rightarrow> timespec \<Rightarrow> int \<Rightarrow> int \<Rightarrow> u32 \<Rightarrow> 'h option \<Rightarrow> 'h timer_module
      \<Rightarrow> (nat option \<times> 'h timer_module) option" where
  "os_timer_add spawn now prio millisec flag handler m =
     (if millisec \<le> 0 \<or> handler = None then Some (None, m)
      else do { (tid, m) \<leftarrow> timer_create spawn CLOCK_MONOTONIC handler
                              \<lparr>at_policy = SCHED_RR, at_priority = prio\<rparr> m;
                case tid of None \<Rightarrow> Some (None, m)
                | Some i \<Rightarrow>
                    if tm_inuse (mt_timer m i) \<noteq> TIMER_INUSE then Some (None, m)
                    else let m = upd_timer i (\<lambda>t. t\<lparr>tm_oneshot := has_flag flag TIMER_ONESHOT,
                                                    tm_millisec := millisec\<rparr>) m;
                             val = (if has_flag flag TIMER_STOPPED then zero_timespec
                                    else ms2ts millisec);
                             itv = (if has_flag flag TIMER_ONESHOT then zero_timespec else val)
                         in do { (ret, m) \<leftarrow> timer_settime_in (has_flag flag TIMER_ABSTIME) now i val itv m;
                                 Some (if ret \<noteq> 0 then None else Some i, m) } })"

definition os_timer_del :: "nat option \<Rightarrow> nat \<Rightarrow> 'h timer_module \<Rightarrow> (int \<times> 'h timer_module) option" where
  "os_timer_del self i m = timer_delete self i m"

definition os_timer_start_in :: "timespec \<Rightarrow> nat \<Rightarrow> 'h timer_module \<Rightarrow> (int \<times> 'h timer_module) option" where
  "os_timer_start_in now i m =
     (if tm_inuse (mt_timer m i) \<noteq> TIMER_INUSE then Some (-1, m)
      else let val = ms2ts (tm_millisec (mt_timer m i));
               itv = (if tm_oneshot (mt_timer m i) then zero_timespec else val)
           in timer_settime_in False now i val itv m)"

definition os_timer_stop_in :: "timespec \<Rightarrow> nat \<Rightarrow> 'h timer_module \<Rightarrow> (int \<times> 'h timer_module) option" where
  "os_timer_stop_in now i m = timer_settime_in False now i zero_timespec zero_timespec m"

definition os_timer_reset_in :: "timespec \<Rightarrow> nat \<Rightarrow> 'h timer_module \<Rightarrow> (int \<times> 'h timer_module) option" where
  "os_timer_reset_in now i m = os_timer_start_in now i m"

definition os_timer_settime_in :: "nat \<Rightarrow> int \<Rightarrow> 'h timer_module \<Rightarrow> int \<times> 'h timer_module" where
  "os_timer_settime_in i millisec m =
     (if millisec \<le> 0 then (-1, m)
      else if tm_inuse (mt_timer m i) \<noteq> TIMER_INUSE then (-1, m)
      else (0, upd_timer i (\<lambda>t. t\<lparr>tm_millisec := millisec\<rparr>) m))"

end
