(* ===== verification/OsTimerInv.thy ===== *)
theory OsTimerInv
  imports OsTimer
begin

text \<open>
  What the operations of the timer module keep true: every cell is where it belongs, each timer is
  free, idle or in the queue of its thread, and the queues are in the order of expiry.
\<close>

section \<open>Where the cells are\<close>

fun timer_lists :: "nat list \<Rightarrow> nat list \<Rightarrow> nat list \<Rightarrow> (nat \<Rightarrow> nat list) \<Rightarrow> taddr \<Rightarrow> taddr list" where
  "timer_lists fr tfr tac qs TimerFree = map TimerLink fr"
| "timer_lists fr tfr tac qs ThreadFree = map ThreadLink tfr"
| "timer_lists fr tfr tac qs ThreadActive = map ThreadLink tac"
| "timer_lists fr tfr tac qs (TimerQueue t) = map TimerLink (qs t)"
| "timer_lists fr tfr tac qs (TimerLink i) = []"
| "timer_lists fr tfr tac qs (ThreadLink t) = []"

definition timer_heads :: "nat list \<Rightarrow> nat set \<Rightarrow> taddr set" where
  "timer_heads tac idle =
     {TimerFree, ThreadFree, ThreadActive} \<union> TimerQueue ` set tac \<union> TimerLink ` idle"

definition links_ok ::
    "taddr list_heap \<Rightarrow> nat list \<Rightarrow> nat list \<Rightarrow> nat list \<Rightarrow> (nat \<Rightarrow> nat list) \<Rightarrow> nat set \<Rightarrow> bool" where
  "links_ok h fr tfr tac qs idle \<longleftrightarrow> lists_ok h (timer_heads tac idle) (timer_lists fr tfr tac qs)"

definition timer_cells :: "nat list \<Rightarrow> nat list \<Rightarrow> (nat \<Rightarrow> nat list) \<Rightarrow> nat set \<Rightarrow> nat set" where
  "timer_cells fr tac qs idle = set fr \<union> (\<Union>t \<in> set tac. set (qs t)) \<union> idle"

lemma heads_mem [simp]:
  "TimerFree \<in> timer_heads tac idle" "ThreadFree \<in> timer_heads tac idle"
  "ThreadActive \<in> timer_heads tac idle"
  "TimerQueue t \<in> timer_heads tac idle \<longleftrightarrow> t \<in> set tac"
  "TimerLink i \<in> timer_heads tac idle \<longleftrightarrow> i \<in> idle"
  "ThreadLink t \<notin> timer_heads tac idle"
  by (auto simp: timer_heads_def)

lemma removeAll_map_links [simp]:
  "removeAll (TimerLink i) (map TimerLink xs) = map TimerLink (removeAll i xs)"
  "removeAll (TimerLink i) (map ThreadLink xs) = map ThreadLink xs"
  by (induction xs) auto

lemma timer_lists_remove:
  "(\<lambda>a. removeAll (TimerLink i) (timer_lists fr tfr tac qs a)) =
    timer_lists (removeAll i fr) tfr tac (\<lambda>t. removeAll i (qs t))"
proof
  fix a show "removeAll (TimerLink i) (timer_lists fr tfr tac qs a) =
    timer_lists (removeAll i fr) tfr tac (\<lambda>t. removeAll i (qs t)) a" by (cases a) simp_all
qed

lemma owned_timer: "TimerLink i \<in> owned (timer_heads tac idle) (timer_lists fr tfr tac qs)
    \<longleftrightarrow> i \<in> timer_cells fr tac qs idle"
  by (auto simp: owned_def timer_cells_def timer_heads_def)

lemma owned_thread: "ThreadLink t \<in> owned (timer_heads tac idle) (timer_lists fr tfr tac qs)
    \<longleftrightarrow> t \<in> set tfr \<union> set tac"
  by (auto simp: owned_def timer_heads_def)

lemma owned_queue: "TimerQueue t \<in> owned (timer_heads tac idle) (timer_lists fr tfr tac qs)
    \<longleftrightarrow> t \<in> set tac"
  by (auto simp: owned_def timer_heads_def)

text \<open>Unlinking a timer, wherever it is.\<close>

lemma links_ok_unlink:
  assumes "links_ok h fr tfr tac qs idle" "i \<in> timer_cells fr tac qs idle"
  shows "links_ok (list_unlink_ip (TimerLink i) h) (removeAll i fr) tfr tac
           (\<lambda>t. removeAll i (qs t)) (insert i idle)"
proof -
  have "insert (TimerLink i) (timer_heads tac idle) = timer_heads tac (insert i idle)"
    by (auto simp: timer_heads_def)
  with lists_ok_remove[of h _ _ "TimerLink i"] assms show ?thesis
    unfolding links_ok_def by (metis owned_timer timer_lists_remove timer_lists.simps(5))
qed

lemma links_ok_claim:
  assumes "links_ok h fr tfr tac qs idle" "i \<in> idle"
  shows "links_ok h fr tfr tac qs (idle - {i})" "i \<notin> timer_cells fr tac qs (idle - {i})"
proof -
  have h: "timer_heads tac idle - {TimerLink i} = timer_heads tac (idle - {i})"
    by (auto simp: timer_heads_def)
  have "TimerLink i \<in> timer_heads tac idle" using assms(2) by simp
  from lists_ok_claim[OF assms(1)[unfolded links_ok_def] this] h
  show "links_ok h fr tfr tac qs (idle - {i})" "i \<notin> timer_cells fr tac qs (idle - {i})"
    by (simp_all add: links_ok_def owned_timer)
qed

lemma links_ok_free:
  assumes "links_ok h fr tfr tac qs idle" "i \<in> idle"
  shows "links_ok (list_append TimerFree (TimerLink i) h) (fr @ [i]) tfr tac qs (idle - {i})"
proof -
  let ?L = "timer_lists fr tfr tac qs"
  have eq: "?L(TimerFree := ?L TimerFree @ [TimerLink i]) = timer_lists (fr @ [i]) tfr tac qs"
  proof
    fix a show "(?L(TimerFree := ?L TimerFree @ [TimerLink i])) a = timer_lists (fr @ [i]) tfr tac qs a"
      by (cases a) simp_all
  qed
  have "TimerLink i \<notin> owned (timer_heads tac (idle - {i})) ?L"
    using links_ok_claim(2)[OF assms] by (simp add: owned_timer)
  from lists_ok_append[OF links_ok_claim(1)[OF assms, unfolded links_ok_def] _ this, of TimerFree]
  show ?thesis by (simp add: links_ok_def eq[symmetric])
qed

lemma links_ok_enqueue:
  assumes "links_ok h fr tfr tac qs idle" "i \<in> idle" "t \<in> set tac" "qs t = xs @ ys"
  shows "links_ok (list_append (hd (map TimerLink ys @ [TimerQueue t])) (TimerLink i) h) fr tfr tac
           (qs(t := xs @ i # ys)) (idle - {i})"
proof -
  let ?L = "timer_lists fr tfr tac qs"
  have eq: "?L(TimerQueue t := map TimerLink xs @ TimerLink i # map TimerLink ys) =
      timer_lists fr tfr tac (qs(t := xs @ i # ys))"
  proof
    fix a show "(?L(TimerQueue t := map TimerLink xs @ TimerLink i # map TimerLink ys)) a =
      timer_lists fr tfr tac (qs(t := xs @ i # ys)) a" by (cases a) simp_all
  qed
  have "TimerLink i \<notin> owned (timer_heads tac (idle - {i})) ?L"
    using links_ok_claim(2)[OF assms(1,2)] by (simp add: owned_timer)
  from lists_ok_insert[OF links_ok_claim(1)[OF assms(1,2), unfolded links_ok_def] _ _ this,
      of "TimerQueue t" "map TimerLink xs" "map TimerLink ys"]
  show ?thesis using assms(3,4) by (simp add: links_ok_def eq)
qed

lemma timer_lists_alloc:
  "(timer_lists fr (t # tfr) tac qs)(ThreadFree := map ThreadLink tfr, TimerQueue t := [],
      ThreadActive := map ThreadLink tac @ [ThreadLink t]) =
    timer_lists fr tfr (tac @ [t]) (qs(t := []))" (is "?l = ?r")
proof
  fix a show "?l a = ?r a" by (cases a) simp_all
qed

lemma links_ok_thread_alloc:
  assumes ok: "links_ok h fr (t # tfr) tac qs idle"
  shows "links_ok (list_append ThreadActive (ThreadLink t)
           (INIT_LIST_HEAD (TimerQueue t) (list_unlink (ThreadLink t) h))) fr tfr (tac @ [t]) (qs(t := [])) idle"
proof -
  let ?H = "timer_heads tac idle" and ?L = "timer_lists fr (t # tfr) tac qs"
  let ?L1 = "?L(ThreadFree := map ThreadLink tfr)"
  have first: "?L ThreadFree = [] @ ThreadLink t # map ThreadLink tfr" by simp
  note ok' = ok[unfolded links_ok_def]
  have apart: "set (ThreadFree # ?L ThreadFree) \<inter> set (ThreadActive # ?L ThreadActive) = {}"
    using ok' unfolding lists_ok_def by (meson heads_mem(2,3) taddr.distinct(11))
  have new: "t \<notin> set tac" "t \<notin> set tfr"
    using apart lists_okD[OF ok', of ThreadFree] by (auto simp: dll_def)
  have "lists_ok (list_unlink (ThreadLink t) h) ?H ?L1"
    using lists_ok_unlink[OF ok' _ first] by simp
  moreover have "TimerQueue t \<notin> owned ?H ?L1"
    using new by (auto simp: owned_def timer_heads_def)
  ultimately have 2: "lists_ok (INIT_LIST_HEAD (TimerQueue t) (list_unlink (ThreadLink t) h))
      (insert (TimerQueue t) ?H) (?L1(TimerQueue t := []))"
    by (rule lists_ok_init)
  have "ThreadLink t \<notin> owned (insert (TimerQueue t) ?H) (?L1(TimerQueue t := []))"
    using new by (auto simp: owned_def timer_heads_def)
  from lists_ok_append[OF 2 _ this, of ThreadActive]
  have "lists_ok (list_append ThreadActive (ThreadLink t)
           (INIT_LIST_HEAD (TimerQueue t) (list_unlink (ThreadLink t) h)))
      (insert (TimerQueue t) ?H) (timer_lists fr tfr (tac @ [t]) (qs(t := [])))"
    by (simp add: timer_lists_alloc)
  moreover have "insert (TimerQueue t) ?H = timer_heads (tac @ [t]) idle"
    by (auto simp: timer_heads_def)
  ultimately show ?thesis by (simp add: links_ok_def)
qed

lemma timer_lists_dealloc:
  "(timer_lists fr tfr (xs @ t # ys) qs)(ThreadActive := map ThreadLink (xs @ ys),
      ThreadFree := map ThreadLink tfr @ [ThreadLink t]) =
    timer_lists fr (tfr @ [t]) (xs @ ys) qs" (is "?l = ?r")
proof
  fix a show "?l a = ?r a" by (cases a) simp_all
qed

lemma links_ok_thread_dealloc:
  assumes ok: "links_ok h fr tfr (xs @ t # ys) qs idle"
  shows "links_ok (list_append ThreadFree (ThreadLink t) (list_unlink (ThreadLink t) h))
           fr (tfr @ [t]) (xs @ ys) qs idle"
proof -
  let ?H = "timer_heads (xs @ t # ys) idle" and ?L = "timer_lists fr tfr (xs @ t # ys) qs"
  have last: "?L ThreadActive = map ThreadLink xs @ ThreadLink t # map ThreadLink ys" by simp
  note ok' = ok[unfolded links_ok_def]
  have 1: "lists_ok (list_unlink (ThreadLink t) h) ?H (?L(ThreadActive := map ThreadLink xs @ map ThreadLink ys))"
    by (rule lists_ok_unlink[OF ok' _ last]) simp
  have new: "ThreadLink t \<notin> owned ?H (?L(ThreadActive := map ThreadLink xs @ map ThreadLink ys))"
    by (rule owned_removed[OF ok' _ last]) simp
  from lists_ok_append[OF 1 _ new, of ThreadFree]
  have "lists_ok (list_append ThreadFree (ThreadLink t) (list_unlink (ThreadLink t) h)) ?H
      (timer_lists fr (tfr @ [t]) (xs @ ys) qs)"
    using timer_lists_dealloc[of fr tfr xs t ys qs] by simp
  then show ?thesis
    unfolding links_ok_def by (rule lists_ok_subset) (auto simp: timer_heads_def)
qed

text \<open>What the heap shows of the lists.\<close>

lemma links_dll:
  assumes "links_ok h fr tfr tac qs idle"
  shows "dll h TimerFree (map TimerLink fr)" "dll h ThreadFree (map ThreadLink tfr)"
    "dll h ThreadActive (map ThreadLink tac)"
    "t \<in> set tac \<Longrightarrow> dll h (TimerQueue t) (map TimerLink (qs t))"
proof -
  note d = lists_okD[OF assms[unfolded links_ok_def]]
  show "dll h TimerFree (map TimerLink fr)" using d[of TimerFree] by simp
  show "dll h ThreadFree (map ThreadLink tfr)" using d[of ThreadFree] by simp
  show "dll h ThreadActive (map ThreadLink tac)" using d[of ThreadActive] by simp
  show "t \<in> set tac \<Longrightarrow> dll h (TimerQueue t) (map TimerLink (qs t))" using d[of "TimerQueue t"] by simp
qed

lemma links_apart:
  assumes "links_ok h fr tfr tac qs idle"
  shows "i \<in> set fr \<Longrightarrow> t \<in> set tac \<Longrightarrow> i \<notin> set (qs t)" "i \<in> set fr \<Longrightarrow> i \<notin> idle"
    "t \<in> set tac \<Longrightarrow> i \<in> set (qs t) \<Longrightarrow> i \<notin> idle"
    "t \<in> set tac \<Longrightarrow> u \<in> set tac \<Longrightarrow> t \<noteq> u \<Longrightarrow> i \<in> set (qs t) \<Longrightarrow> i \<notin> set (qs u)"
    "t \<in> set tfr \<Longrightarrow> t \<notin> set tac" "distinct fr" "distinct tfr" "distinct tac"
    "t \<in> set tac \<Longrightarrow> distinct (qs t)"
proof -
  let ?L = "timer_lists fr tfr tac qs"
  have apart: "set (a # ?L a) \<inter> set (b # ?L b) = {}"
    if "a \<in> timer_heads tac idle" "b \<in> timer_heads tac idle" "a \<noteq> b" for a b
    using assms that unfolding links_ok_def lists_ok_def by blast
  show "i \<in> set fr \<Longrightarrow> t \<in> set tac \<Longrightarrow> i \<notin> set (qs t)"
    using apart[of TimerFree "TimerQueue t"] by auto
  show "i \<in> set fr \<Longrightarrow> i \<notin> idle" using apart[of TimerFree "TimerLink i"] by auto
  show "t \<in> set tac \<Longrightarrow> i \<in> set (qs t) \<Longrightarrow> i \<notin> idle"
    using apart[of "TimerQueue t" "TimerLink i"] by auto
  show "t \<in> set tac \<Longrightarrow> u \<in> set tac \<Longrightarrow> t \<noteq> u \<Longrightarrow> i \<in> set (qs t) \<Longrightarrow> i \<notin> set (qs u)"
    using apart[of "TimerQueue t" "TimerQueue u"] by auto
  show "t \<in> set tfr \<Longrightarrow> t \<notin> set tac" using apart[of ThreadFree ThreadActive] by auto
  show "distinct fr" "distinct tfr" "distinct tac" "t \<in> set tac \<Longrightarrow> distinct (qs t)"
    using links_dll[OF assms] by (auto simp: dll_def distinct_map)
qed

section \<open>Inserting into a queue\<close>

text \<open>The place of a timer is in front of the first one that expires strictly later.\<close>

definition expires_before :: "(nat \<Rightarrow> 'h timer_node) \<Rightarrow> nat \<Rightarrow> nat \<Rightarrow> bool" where
  "expires_before nodes i j \<longleftrightarrow> timespec_compare (tn_expiry (nodes i)) (tn_expiry (nodes j)) < 0"

definition enqueue :: "(nat \<Rightarrow> 'h timer_node) \<Rightarrow> nat \<Rightarrow> nat list \<Rightarrow> nat list" where
  "enqueue nodes i xs =
     takeWhile (\<lambda>j. \<not> expires_before nodes i j) xs @ i # dropWhile (\<lambda>j. \<not> expires_before nodes i j) xs"

lemma queue_seek_chain:
  "chain h x (map TimerLink zs) q \<Longrightarrow> q \<notin> set (map TimerLink zs) \<Longrightarrow>
    queue_seek nodes (tn_expiry (nodes i)) h q (lnext h x) a =
      Some (hd (map TimerLink (dropWhile (\<lambda>j. \<not> expires_before nodes i j) zs) @ [q]),
            a \<and> takeWhile (\<lambda>j. \<not> expires_before nodes i j) zs = [])"
proof (induction zs arbitrary: x a)
  case (Cons z zs)
  then show ?case by (subst queue_seek.simps) (auto simp: expires_before_def)
qed (simp add: queue_seek.simps)

lemma enqueue_set [simp]: "set (enqueue nodes i xs) = insert i (set xs)"
proof -
  have "set xs = set (takeWhile P xs) \<union> set (dropWhile P xs)" for P
    by (metis set_append takeWhile_dropWhile_id)
  then show ?thesis by (auto simp: enqueue_def)
qed

lemma enqueue_mset [simp]: "mset (enqueue nodes i xs) = add_mset i (mset xs)"
proof -
  have "mset xs = mset (takeWhile P xs) + mset (dropWhile P xs)" for P
    by (metis mset_append takeWhile_dropWhile_id)
  then show ?thesis by (simp add: enqueue_def)
qed

lemma queue_timer_spec:
  assumes "links_ok (mt_links m) fr tfr tac qs idle" "t \<in> set tac" "i \<in> idle"
  obtains m' where
    "timer_thread_queue_timer t i m = Some (hd (enqueue (mt_timer m) i (qs t)) = i, m')"
    "mt_timer m' = mt_timer m" "mt_thread m' = mt_thread m"
    "links_ok (mt_links m') fr tfr tac (qs(t := enqueue (mt_timer m) i (qs t))) (idle - {i})"
proof -
  let ?P = "\<lambda>j. \<not> expires_before (mt_timer m) i j"
  let ?pos = "hd (map TimerLink (dropWhile ?P (qs t)) @ [TimerQueue t])"
  let ?m = "upd_links (list_append ?pos (TimerLink i)) m"
  have d: "dll (mt_links m) (TimerQueue t) (map TimerLink (qs t))" by (rule links_dll(4)[OF assms(1,2)])
  have i: "i \<notin> set (qs t)" using links_apart(3)[OF assms(1,2)] assms(3) by blast
  have "hd (enqueue (mt_timer m) i (qs t)) = i \<longleftrightarrow> takeWhile ?P (qs t) = []"
  proof (cases "takeWhile ?P (qs t)")
    case (Cons z zs)
    then have "z \<in> set (qs t)" by (metis list.set_intros(1) set_takeWhileD)
    then show ?thesis using i Cons by (auto simp: enqueue_def)
  qed (simp add: enqueue_def)
  then have 1: "timer_thread_queue_timer t i m = Some (hd (enqueue (mt_timer m) i (qs t)) = i, ?m)"
    using d queue_seek_chain[of "mt_links m" "TimerQueue t" "qs t" "TimerQueue t" "mt_timer m" i True]
    by (simp add: timer_thread_queue_timer_def dll_def)
  have 2: "links_ok (mt_links ?m) fr tfr tac (qs(t := enqueue (mt_timer m) i (qs t))) (idle - {i})"
    using links_ok_enqueue[OF assms(1,3,2), of "takeWhile ?P (qs t)" "dropWhile ?P (qs t)"]
    by (simp add: enqueue_def)
  show ?thesis by (rule that[OF 1 _ _ 2]) simp_all
qed

text \<open>Timers queued one after another are a stable sort by expiry.\<close>

definition expiry_ns :: "(nat \<Rightarrow> 'h timer_node) \<Rightarrow> nat \<Rightarrow> int" where
  "expiry_ns nodes i = ts_ns (tn_expiry (nodes i))"

definition expiries_ok :: "(nat \<Rightarrow> 'h timer_node) \<Rightarrow> nat set \<Rightarrow> bool" where
  "expiries_ok nodes A \<longleftrightarrow> (\<forall>i \<in> A. ts_normal (tn_expiry (nodes i)))"

lemma expires_before_ns:
  "expiries_ok nodes A \<Longrightarrow> i \<in> A \<Longrightarrow> j \<in> A \<Longrightarrow>
    expires_before nodes i j \<longleftrightarrow> expiry_ns nodes i < expiry_ns nodes j"
  by (simp add: expires_before_def expiries_ok_def timespec_compare_sound expiry_ns_def sgn_if)

lemma enqueue_ns:
  assumes "expiries_ok nodes (insert i (set xs))"
  shows "enqueue nodes i xs = takeWhile (\<lambda>j. expiry_ns nodes j \<le> expiry_ns nodes i) xs @ i #
    dropWhile (\<lambda>j. expiry_ns nodes j \<le> expiry_ns nodes i) xs"
proof -
  have "(\<not> expires_before nodes i j) = (expiry_ns nodes j \<le> expiry_ns nodes i)" if "j \<in> set xs" for j
    using expires_before_ns[OF assms, of i j] that by auto
  then show ?thesis
    by (simp add: enqueue_def cong: takeWhile_cong dropWhile_cong)
qed

lemma stable_between:
  fixes f :: "'a \<Rightarrow> 'k::linorder"
  assumes "sorted (map f T)" "sorted (map f D)" "\<forall>x \<in> set T. f x \<le> f i" "\<forall>y \<in> set D. f i < f y"
  shows "sorted (map f (T @ i # D))"
    "filter (\<lambda>x. f x = k) (T @ i # D) = filter (\<lambda>x. f x = k) ((T @ D) @ [i])"
proof -
  have "f x \<le> f y" if "x \<in> set T" "y \<in> set D" for x y
    using assms(3,4) that by (meson less_imp_le order_trans)
  moreover have "\<forall>y \<in> set D. f i \<le> f y" using assms(4) by (meson less_imp_le)
  ultimately show "sorted (map f (T @ i # D))" using assms(1-3) by (simp add: sorted_append)
  have "filter (\<lambda>x. f x = k) D = []" if "f i = k"
    unfolding filter_empty_conv
  proof
    fix y assume "y \<in> set D"
    then have "f i < f y" using assms(4) by blast
    then show "f y \<noteq> k" using that by simp
  qed
  then show "filter (\<lambda>x. f x = k) (T @ i # D) = filter (\<lambda>x. f x = k) ((T @ D) @ [i])" by simp
qed

lemma after_equals_stable:
  fixes f :: "'a \<Rightarrow> 'k::linorder" and i :: 'a
  assumes "sorted (map f xs)"
  defines "ys \<equiv> takeWhile (\<lambda>j. f j \<le> f i) xs @ i # dropWhile (\<lambda>j. f j \<le> f i) xs"
  shows "sorted (map f ys)" "filter (\<lambda>x. f x = k) ys = filter (\<lambda>x. f x = k) (xs @ [i])"
proof -
  define T D where TD: "T = takeWhile (\<lambda>j. f j \<le> f i) xs" "D = dropWhile (\<lambda>j. f j \<le> f i) xs"
  have xs: "xs = T @ D" by (simp add: TD)
  have s: "sorted (map f T)" "sorted (map f D)" using assms(1) by (auto simp: xs sorted_append)
  have t: "\<forall>x \<in> set T. f x \<le> f i" unfolding TD using set_takeWhileD by fast
  have d: "\<forall>y \<in> set D. f i < f y"
  proof (cases D)
    case (Cons z zs)
    have "\<not> f z \<le> f i" using hd_dropWhile[of "\<lambda>j. f j \<le> f i" xs] Cons unfolding TD
      by (metis list.distinct(1) list.sel(1))
    then show ?thesis using s(2) unfolding Cons by auto
  qed simp
  have ys: "ys = T @ i # D" by (simp add: ys_def TD)
  show "sorted (map f ys)" unfolding ys by (rule stable_between(1)[OF s t d])
  show "filter (\<lambda>x. f x = k) ys = filter (\<lambda>x. f x = k) (xs @ [i])"
    unfolding ys xs by (rule stable_between(2)[OF s t d])
qed

lemma enqueue_sorted:
  assumes "expiries_ok nodes (insert i (set xs))" "sorted (map (expiry_ns nodes) xs)"
  shows "sorted (map (expiry_ns nodes) (enqueue nodes i xs))"
  unfolding enqueue_ns[OF assms(1)] by (rule after_equals_stable(1)[OF assms(2)])

lemma enqueue_all_sort_key:
  assumes "expiries_ok nodes (set xs)"
  shows "foldl (\<lambda>q i. enqueue nodes i q) [] xs = sort_key (expiry_ns nodes) xs"
  using assms
proof (induction xs rule: rev_induct)
  case (snoc i xs)
  let ?f = "expiry_ns nodes"
  have IH: "foldl (\<lambda>q i. enqueue nodes i q) [] xs = sort_key ?f xs"
    using snoc by (auto simp: expiries_ok_def)
  have ok: "expiries_ok nodes (insert i (set (sort_key ?f xs)))" using snoc(2) by simp
  note e = enqueue_ns[OF ok]
  have "sort_key ?f (xs @ [i]) = enqueue nodes i (sort_key ?f xs)"
  proof (rule properties_for_sort_key)
    show "mset (enqueue nodes i (sort_key ?f xs)) = mset (xs @ [i])" by simp
    show "sorted (map ?f (enqueue nodes i (sort_key ?f xs)))" by (rule enqueue_sorted[OF ok]) simp
    show "filter (\<lambda>x. ?f k = ?f x) (enqueue nodes i (sort_key ?f xs)) = filter (\<lambda>x. ?f k = ?f x) (xs @ [i])"
      if "k \<in> set (enqueue nodes i (sort_key ?f xs))" for k
    proof -
      have "sorted (map ?f (sort_key ?f xs))" by simp
      from after_equals_stable(2)[OF this, of "?f k" i]
      show ?thesis unfolding e by (simp add: sort_key_stable eq_commute[of "?f k"])
    qed
  qed
  then show ?case by (simp add: IH)
qed simp

section \<open>The invariant\<close>

definition timers_ok ::
    "'h timer_module \<Rightarrow> nat list \<Rightarrow> nat list \<Rightarrow> nat list \<Rightarrow> (nat \<Rightarrow> nat list) \<Rightarrow> nat set \<Rightarrow> bool" where
  "timers_ok m fr tfr tac qs idle \<longleftrightarrow>
     links_ok (mt_links m) fr tfr tac qs idle
     \<and> timer_cells fr tac qs idle = {..<TIMER_MAX}
     \<and> set tfr \<union> set tac = {..<THREAD_MAXNODES}
     \<and> (\<forall>t \<in> set tac. sorted (map (expiry_ns (mt_timer m)) (qs t))
          \<and> (\<forall>i \<in> set (qs t). tn_thread (mt_timer m i) = Some t \<and> tm_armed (mt_timer m i)
                            \<and> ts_normal (tn_expiry (mt_timer m i))))"

definition timer_free_ok :: "'h timer_node \<Rightarrow> bool" where
  "timer_free_ok t \<longleftrightarrow> tm_inuse t = TIMER_FREE \<and> tn_refcount t = 0"

definition timer_bound :: "nat list \<Rightarrow> 'h timer_node \<Rightarrow> bool" where
  "timer_bound tac t \<longleftrightarrow> tm_inuse t = TIMER_INUSE \<and> tn_refcount t = 1
     \<and> (\<exists>u \<in> set tac. tn_thread t = Some u)"

definition timer_set_ok :: "'h timer_node \<Rightarrow> bool" where
  "timer_set_ok t \<longleftrightarrow> 0 < tm_millisec t \<and> ts_normal (tm_interval t) \<and> 0 \<le> ts_ns (tm_interval t)"

text \<open>The timers in \<open>X\<close> are allocated and have their thread, but no period yet.\<close>

definition timer_module_rep ::
    "nat set \<Rightarrow> 'h timer_module \<Rightarrow> nat list \<Rightarrow> nat list \<Rightarrow> nat list \<Rightarrow> (nat \<Rightarrow> nat list) \<Rightarrow> nat set \<Rightarrow> bool" where
  "timer_module_rep X m fr tfr tac qs idle \<longleftrightarrow> timers_ok m fr tfr tac qs idle
     \<and> (\<forall>t \<in> set tac. th_exists (mt_thread m t))
     \<and> (\<forall>i \<in> set fr. timer_free_ok (mt_timer m i))
     \<and> (\<forall>i < TIMER_MAX. i \<notin> set fr \<longrightarrow> timer_bound tac (mt_timer m i) \<and> (i \<notin> X \<longrightarrow> timer_set_ok (mt_timer m i)))"

definition timer_module_inv :: "'h timer_module \<Rightarrow> bool" where
  "timer_module_inv m \<longleftrightarrow> (\<exists>fr tfr tac qs idle. timer_module_rep {} m fr tfr tac qs idle)"

lemma rep_inv: "timer_module_rep {} m fr tfr tac qs idle \<Longrightarrow> timer_module_inv m"
  unfolding timer_module_inv_def by blast

text \<open>Fields that no list and no queue depends on may change freely.\<close>

lemma timers_ok_upd_timer:
  assumes "timers_ok m fr tfr tac qs idle"
    and "\<And>t. tn_expiry (f t) = tn_expiry t" "\<And>t. tn_thread (f t) = tn_thread t"
    and "\<And>t. tm_armed (f t) = tm_armed t"
  shows "timers_ok (upd_timer i f m) fr tfr tac qs idle"
proof -
  have "expiry_ns ((mt_timer m)(i := f (mt_timer m i))) = expiry_ns (mt_timer m)"
    by (auto simp: expiry_ns_def assms(2))
  then show ?thesis using assms by (auto simp: timers_ok_def)
qed

text \<open>Those of a timer in no queue may change in every way.\<close>

lemma timers_ok_upd_unqueued:
  assumes "timers_ok m fr tfr tac qs idle" "\<forall>t \<in> set tac. i \<notin> set (qs t)"
  shows "timers_ok (upd_timer i f m) fr tfr tac qs idle"
proof -
  have eq: "map (expiry_ns ((mt_timer m)(i := f (mt_timer m i)))) (qs t) = map (expiry_ns (mt_timer m)) (qs t)"
    if "t \<in> set tac" for t
    using assms(2) that by (auto simp: expiry_ns_def)
  then show ?thesis using assms by (auto simp: timers_ok_def eq simp del: map_eq_conv)
qed

lemma timers_ok_unlink:
  assumes "timers_ok m fr tfr tac qs idle" "i < TIMER_MAX"
  shows "timers_ok (upd_links (list_unlink_ip (TimerLink i)) m) (removeAll i fr) tfr tac
           (\<lambda>t. removeAll i (qs t)) (insert i idle)"
proof -
  have "i \<in> timer_cells fr tac qs idle" using assms by (simp add: timers_ok_def)
  note l = links_ok_unlink[OF conjunct1[OF assms(1)[unfolded timers_ok_def]] this]
  have "sorted (map f (removeAll i xs))" if "sorted (map f xs)" for f :: "nat \<Rightarrow> int" and xs
    using that by (simp add: sorted_map_remove1 removeAll_filter_not_eq sorted_filter)
  moreover have "timer_cells (removeAll i fr) tac (\<lambda>t. removeAll i (qs t)) (insert i idle) = {..<TIMER_MAX}"
    using assms by (auto simp: timers_ok_def timer_cells_def)
  ultimately show ?thesis using assms l by (simp add: timers_ok_def)
qed

lemma timers_ok_idle_free:
  assumes "timers_ok m fr tfr tac qs idle" "i \<in> idle"
  shows "timers_ok (upd_links (list_append TimerFree (TimerLink i)) m) (fr @ [i]) tfr tac qs (idle - {i})"
  using links_ok_free[of "mt_links m" fr tfr tac qs idle i] assms
  by (auto simp: timers_ok_def timer_cells_def)

lemma timers_ok_enqueue:
  assumes ok: "timers_ok m fr tfr tac qs idle" and t: "t \<in> set tac" and i: "i \<in> idle"
    and n: "tn_thread (mt_timer m i) = Some t" "ts_normal (tn_expiry (mt_timer m i))"
  obtains m' where
    "timer_thread_queue_timer t i m = Some (hd (enqueue (mt_timer m) i (qs t)) = i, m')"
    "mt_timer m' = mt_timer m" "mt_thread m' = mt_thread m"
    "timers_ok (upd_timer i (\<lambda>t. t\<lparr>tm_armed := True\<rparr>) m') fr tfr tac
       (qs(t := enqueue (mt_timer m) i (qs t))) (idle - {i})"
proof -
  have l: "links_ok (mt_links m) fr tfr tac qs idle" using ok by (simp add: timers_ok_def)
  obtain m' where m': "timer_thread_queue_timer t i m = Some (hd (enqueue (mt_timer m) i (qs t)) = i, m')"
    "mt_timer m' = mt_timer m" "mt_thread m' = mt_thread m"
    "links_ok (mt_links m') fr tfr tac (qs(t := enqueue (mt_timer m) i (qs t))) (idle - {i})"
    by (rule queue_timer_spec[OF l t i])
  let ?m = "upd_timer i (\<lambda>t. t\<lparr>tm_armed := True\<rparr>) m'"
  let ?qs = "qs(t := enqueue (mt_timer m) i (qs t))"
  have e: "expiry_ns (mt_timer ?m) = expiry_ns (mt_timer m)" by (auto simp: expiry_ns_def m'(2))
  have "expiries_ok (mt_timer m) (insert i (set (qs t)))"
    using ok t n by (auto simp: timers_ok_def expiries_ok_def)
  then have s: "sorted (map (expiry_ns (mt_timer m)) (enqueue (mt_timer m) i (qs t)))"
    by (rule enqueue_sorted) (use ok t in \<open>simp add: timers_ok_def\<close>)
  have c: "timer_cells fr tac ?qs (idle - {i}) = timer_cells fr tac qs idle"
    using i t by (auto simp: timer_cells_def split: if_splits)
  have "timers_ok ?m fr tfr tac ?qs (idle - {i})"
    unfolding timers_ok_def e c using ok s m' n by (auto simp: timers_ok_def)
  then show ?thesis using that m' by blast
qed

section \<open>Releasing a timer\<close>

lemma timer_dealloc_spec:
  assumes "timers_ok m fr tfr tac qs idle" "i < TIMER_MAX" "tn_refcount (mt_timer m i) = 0"
  obtains m' where "timer_dealloc i m = Some m'"
    "timers_ok m' (removeAll i fr @ [i]) tfr tac (\<lambda>t. removeAll i (qs t)) (idle - {i})"
    "mt_timer m' = (mt_timer m)(i := (mt_timer m i)\<lparr>tn_thread := None, tm_inuse := TIMER_FREE\<rparr>)"
    "mt_thread m' = mt_thread m"
proof -
  let ?m1 = "upd_links (list_unlink_ip (TimerLink i)) m"
  let ?m2 = "upd_timer i (\<lambda>t. t\<lparr>tn_thread := None, tm_inuse := TIMER_FREE\<rparr>) ?m1"
  let ?m3 = "upd_links (list_append TimerFree (TimerLink i)) ?m2"
  have "timers_ok ?m2 (removeAll i fr) tfr tac (\<lambda>t. removeAll i (qs t)) (insert i idle)"
    by (rule timers_ok_upd_unqueued[OF timers_ok_unlink[OF assms(1,2)]]) simp
  from timers_ok_idle_free[OF this, of i]
  have "timers_ok ?m3 (removeAll i fr @ [i]) tfr tac (\<lambda>t. removeAll i (qs t)) (idle - {i})" by simp
  then show ?thesis using that[of ?m3] assms(3) by (simp add: timer_dealloc_def Let_def)
qed

lemma timer_delref_last:
  assumes ok: "timers_ok m fr tfr tac qs idle" and i: "i < TIMER_MAX" "tn_refcount (mt_timer m i) = 1"
  obtains m' where "timer_delref i m = Some m'"
    "timers_ok m' (removeAll i fr @ [i]) tfr tac (\<lambda>t. removeAll i (qs t)) (idle - {i})"
    "mt_timer m' = (mt_timer m)(i := (mt_timer m i)\<lparr>tn_refcount := 0, tn_thread := None, tm_inuse := TIMER_FREE\<rparr>)"
    "mt_thread m' = mt_thread m"
proof -
  let ?m = "upd_timer i (\<lambda>t. t\<lparr>tn_refcount := tn_refcount t - 1\<rparr>) m"
  have "timers_ok ?m fr tfr tac qs idle" by (rule timers_ok_upd_timer[OF ok]) simp_all
  moreover have "tn_refcount (mt_timer ?m i) = 0" using i(2) by simp
  ultimately obtain m' where "timer_dealloc i ?m = Some m'"
    "timers_ok m' (removeAll i fr @ [i]) tfr tac (\<lambda>t. removeAll i (qs t)) (idle - {i})"
    "mt_timer m' = (mt_timer ?m)(i := (mt_timer ?m i)\<lparr>tn_thread := None, tm_inuse := TIMER_FREE\<rparr>)"
    "mt_thread m' = mt_thread ?m"
    using timer_dealloc_spec[of ?m fr tfr tac qs idle i] i(1) by blast
  then show ?thesis using that[of m'] i(2) by (simp add: timer_delref_def Let_def)
qed

text \<open>After a release the timer is free and everything else as before.\<close>

lemma rep_released:
  assumes r: "timer_module_rep X m fr tfr tac qs idle"
    and ok: "timers_ok m' (removeAll i fr @ [i]) tfr tac qs' idle'"
    and n: "mt_timer m' = (mt_timer m)(i := t)" "timer_free_ok t"
    and th: "mt_thread m' = mt_thread m"
  shows "timer_module_rep (X - {i}) m' (removeAll i fr @ [i]) tfr tac qs' idle'"
  using r ok n th by (auto simp: timer_module_rep_def)

lemma rep_weaken: "timer_module_rep X m fr tfr tac qs idle \<Longrightarrow> X \<subseteq> Y \<Longrightarrow> timer_module_rep Y m fr tfr tac qs idle"
  by (auto simp: timer_module_rep_def)

lemma rep_free: "timer_module_rep X m fr tfr tac qs idle \<Longrightarrow> i < TIMER_MAX \<Longrightarrow>
    i \<in> set fr \<longleftrightarrow> tm_inuse (mt_timer m i) \<noteq> TIMER_INUSE"
  by (auto simp: timer_module_rep_def timer_free_ok_def timer_bound_def)

lemma rep_bound:
  assumes "timer_module_rep X m fr tfr tac qs idle" "i < TIMER_MAX" "tm_inuse (mt_timer m i) = TIMER_INUSE"
  shows "timer_bound tac (mt_timer m i)" "i \<notin> set fr"
  using assms by (auto simp: timer_module_rep_def rep_free[OF assms(1,2)])

lemma timer_delete_spec:
  assumes r: "timer_module_rep {} m fr tfr tac qs idle" and i: "i < TIMER_MAX"
    and w: "\<not> delete_waits self i m"
  obtains ret m' where "timer_delete self i m = Some (ret, m')" "timer_module_inv m'"
    "ret = (if tm_inuse (mt_timer m i) = TIMER_INUSE then 0 else -1)"
    "ret = 0 \<longrightarrow> tm_inuse (mt_timer m' i) = TIMER_FREE"
    "mt_thread m' = mt_thread m" "\<forall>j. j \<noteq> i \<longrightarrow> mt_timer m' j = mt_timer m j"
proof (cases "tm_inuse (mt_timer m i) = TIMER_INUSE")
  case True
  let ?m1 = "upd_timer i (\<lambda>t. t\<lparr>tm_inuse := TIMER_DELETED\<rparr>) m"
  let ?m2 = "upd_links (list_unlink_ip (TimerLink i)) ?m1"
  note b = rep_bound[OF r i True]
  have "timers_ok ?m1 fr tfr tac qs idle"
    by (rule timers_ok_upd_timer[OF conjunct1[OF r[unfolded timer_module_rep_def]]]) simp_all
  note ok = timers_ok_unlink[OF this i]
  have "tn_refcount (mt_timer ?m2 i) = 1" using b(1) by (simp add: timer_bound_def)
  from timer_delref_last[OF ok i this] obtain m' where m': "timer_delref i ?m2 = Some m'"
    "timers_ok m' (removeAll i (removeAll i fr) @ [i]) tfr tac (\<lambda>t. removeAll i (removeAll i (qs t))) (insert i idle - {i})"
    "mt_timer m' = (mt_timer ?m2)(i := (mt_timer ?m2 i)\<lparr>tn_refcount := 0, tn_thread := None, tm_inuse := TIMER_FREE\<rparr>)"
    "mt_thread m' = mt_thread ?m2" .
  have "mt_timer m' = (mt_timer m)(i := (mt_timer m i)\<lparr>tn_refcount := 0, tn_thread := None, tm_inuse := TIMER_FREE\<rparr>)"
    using m'(3) by simp
  note rep_released[OF r _ this _ , unfolded timer_free_ok_def]
  then have "timer_module_rep ({} - {i}) m' (removeAll i fr @ [i]) tfr tac (\<lambda>t. removeAll i (removeAll i (qs t))) (insert i idle - {i})"
    using m'(2,4) by (simp add: removeAll_filter_not_eq)
  then have "timer_module_inv m'" by (simp only: empty_Diff) (rule rep_inv)
  then show ?thesis using that[of 0 m'] True w m' by (simp add: timer_delete_def Let_def)
next
  case False
  then show ?thesis using that[of "-1" m] rep_inv[OF r] by (simp add: timer_delete_def)
qed

section \<open>Arming a timer\<close>

lemma rep_updated:
  assumes r: "timer_module_rep X m fr tfr tac qs idle"
    and i: "i \<notin> set fr" and ok: "timers_ok m' fr tfr tac qs' idle'"
    and n: "mt_timer m' = (mt_timer m)(i := t)" "timer_bound tac t" "timer_set_ok t"
    and th: "mt_thread m' = mt_thread m"
  shows "timer_module_rep (X - {i}) m' fr tfr tac qs' idle'"
  using r i ok n th by (auto simp: timer_module_rep_def)

text \<open>The part of \<open>__timer_settime\<close> between the two counts of references, for a timer in use.\<close>

lemma timer_settime_spec:
  assumes r: "timer_module_rep X m fr tfr tac qs idle" and i: "i < TIMER_MAX"
    and v: "tm_inuse (mt_timer m i) = TIMER_INUSE" "0 < tm_millisec (mt_timer m i)"
    and t: "ts_normal now" "ts_normal val" "ts_normal itv" "0 \<le> ts_ns itv"
  obtains m' qs' idle' where "timer_settime_in False now i val itv m = Some (0, m')"
    "timer_module_rep (X - {i}) m' fr tfr tac qs' idle'"
    "mt_timer m' = (mt_timer m)(i := mt_timer m' i)"
    "os_timer.truncate (mt_timer m' i) = os_timer.truncate ((mt_timer m i)\<lparr>tm_value := val, tm_interval := itv,
        tm_armed := (tv_sec val \<noteq> 0 \<or> tv_nsec val \<noteq> 0)\<rparr>)"
    "mt_thread m' = mt_thread m"
proof -
  define n where "n = (mt_timer m i)\<lparr>tn_refcount := 2, tm_value := val, tm_interval := itv, tm_armed := False\<rparr>"
  define armed where "armed = (tv_sec val \<noteq> 0 \<or> tv_nsec val \<noteq> 0)"
  define m3 where "m3 = upd_timer i (\<lambda>t. t\<lparr>tm_armed := False\<rparr>) (upd_links (list_unlink_ip (TimerLink i))
      (upd_timer i (\<lambda>t. t\<lparr>tm_value := val, tm_interval := itv\<rparr>) (timer_addref i m)))"
  note b = rep_bound[OF r i v(1)]
  obtain u where u: "u \<in> set tac" "tn_thread (mt_timer m i) = Some u" using b(1) by (auto simp: timer_bound_def)
  have rc: "tn_refcount (mt_timer m i) = 1" using b(1) by (simp add: timer_bound_def)
  have "timers_ok (upd_timer i (\<lambda>t. t\<lparr>tm_value := val, tm_interval := itv\<rparr>) (timer_addref i m)) fr tfr tac qs idle"
    unfolding timer_addref_def
    by (intro timers_ok_upd_timer conjunct1[OF r[unfolded timer_module_rep_def]]) simp_all
  from timers_ok_upd_unqueued[OF timers_ok_unlink[OF this i], of i]
  have ok3: "timers_ok m3 fr tfr tac (\<lambda>t. removeAll i (qs t)) (insert i idle)"
    using b(2) by (simp add: m3_def)
  have t3: "mt_timer m3 = (mt_timer m)(i := n)" "mt_thread m3 = mt_thread m"
    using rc by (simp_all add: m3_def timer_addref_def n_def)
  define step where "step = (if armed
      then let m = upd_timer i (\<lambda>t. t\<lparr>tn_expiry := timespec_add now val\<rparr>) m3
        in do { m \<leftarrow> (case tn_thread (mt_timer m i) of None \<Rightarrow> Some m
                      | Some t \<Rightarrow> map_option snd (timer_thread_queue_timer t i m));
                Some (upd_timer i (\<lambda>t. t\<lparr>tm_armed := True\<rparr>) m) }
      else Some m3)"
  have start: "timer_settime_in False now i val itv m =
      do { m \<leftarrow> step; m \<leftarrow> timer_delref i m; Some (0, m) }"
    using v t by (simp add: timer_settime_in_def Let_def m3_def step_def ts_normal_def armed_def timer_addref_def)
  obtain m4 e qs' idle' where m4: "step = Some m4" "timers_ok m4 fr tfr tac qs' idle'"
      "mt_timer m4 = (mt_timer m)(i := n\<lparr>tn_expiry := e, tm_armed := armed\<rparr>)" "mt_thread m4 = mt_thread m"
  proof (cases armed)
    case True
    let ?m = "upd_timer i (\<lambda>t. t\<lparr>tn_expiry := timespec_add now val\<rparr>) m3"
    have ok: "timers_ok ?m fr tfr tac (\<lambda>t. removeAll i (qs t)) (insert i idle)"
      by (rule timers_ok_upd_unqueued[OF ok3]) simp
    have th: "tn_thread (mt_timer ?m i) = Some u" using u t3 by (simp add: n_def)
    have ex: "ts_normal (tn_expiry (mt_timer ?m i))" using timespec_add_sound(2)[OF t(1,2)] by simp
    obtain m' where m': "timer_thread_queue_timer u i ?m = Some (hd (enqueue (mt_timer ?m) i (removeAll i (qs u))) = i, m')"
      "mt_timer m' = mt_timer ?m" "mt_thread m' = mt_thread ?m"
      "timers_ok (upd_timer i (\<lambda>t. t\<lparr>tm_armed := True\<rparr>) m') fr tfr tac
         ((\<lambda>t. removeAll i (qs t))(u := enqueue (mt_timer ?m) i (removeAll i (qs u)))) (insert i idle - {i})"
      by (rule timers_ok_enqueue[OF ok u(1) _ th ex]) auto
    show thesis
      by (rule that[OF _ m'(4), of "timespec_add now val"])
        (use True th m' t3 in \<open>simp_all add: step_def Let_def\<close>)
  next
    case False
    show thesis
      by (rule that[OF _ ok3, of "tn_expiry n"]) (use False t3 in \<open>simp_all add: step_def n_def\<close>)
  qed
  let ?m5 = "upd_timer i (\<lambda>t. t\<lparr>tn_refcount := tn_refcount t - 1\<rparr>) m4"
  have d: "timer_delref i m4 = Some ?m5" using m4(3) by (simp add: timer_delref_def Let_def n_def)
  have ok5: "timers_ok ?m5 fr tfr tac qs' idle'" by (rule timers_ok_upd_timer[OF m4(2)]) simp_all
  let ?n = "n\<lparr>tn_expiry := e, tm_armed := armed, tn_refcount := 1\<rparr>"
  have n5: "mt_timer ?m5 = (mt_timer m)(i := ?n)" using m4(3) by (simp add: n_def)
  have bn: "timer_bound tac ?n" using b(1) by (auto simp: timer_bound_def n_def)
  have sn: "timer_set_ok ?n" using v(2) t by (simp add: timer_set_ok_def n_def)
  have th5: "mt_thread ?m5 = mt_thread m" using m4(4) by simp
  show ?thesis
  proof (rule that[OF _ rep_updated[OF r b(2) ok5 n5 bn sn th5]])
    show "timer_settime_in False now i val itv m = Some (0, ?m5)" unfolding start m4(1) by (simp add: d)
    show "mt_timer ?m5 = (mt_timer m)(i := mt_timer ?m5 i)" using n5 by simp
    show "mt_thread ?m5 = mt_thread m" by (rule th5)
    show "os_timer.truncate (mt_timer ?m5 i) = os_timer.truncate ((mt_timer m i)\<lparr>tm_value := val, tm_interval := itv,
        tm_armed := (tv_sec val \<noteq> 0 \<or> tv_nsec val \<noteq> 0)\<rparr>)"
      unfolding n5 by (simp add: os_timer.truncate_def n_def armed_def)
  qed
qed

text \<open>On a timer that is free the call fails, and the timer moves to the end of the free list.\<close>

lemma timer_settime_free:
  assumes r: "timer_module_rep X m fr tfr tac qs idle" and i: "i < TIMER_MAX"
    and v: "tm_inuse (mt_timer m i) \<noteq> TIMER_INUSE" and t: "ts_normal val" "ts_normal itv"
  obtains m' where "timer_settime_in False now i val itv m = Some (-1, m')"
    "timer_module_rep (X - {i}) m' (removeAll i fr @ [i]) tfr tac (\<lambda>t. removeAll i (qs t)) (idle - {i})"
    "mt_timer m' = (mt_timer m)(i := mt_timer m' i)"
    "os_timer.truncate (mt_timer m' i) = os_timer.truncate (mt_timer m i)"
    "mt_thread m' = mt_thread m"
proof -
  have f: "timer_free_ok (mt_timer m i)" using r v i rep_free[OF r i] by (auto simp: timer_module_rep_def)
  have ok: "timers_ok (timer_addref i m) fr tfr tac qs idle"
    unfolding timer_addref_def
    by (intro timers_ok_upd_timer conjunct1[OF r[unfolded timer_module_rep_def]]) simp_all
  have "tn_refcount (mt_timer (timer_addref i m) i) = 1" using f by (simp add: timer_addref_def timer_free_ok_def)
  from timer_delref_last[OF ok i this] obtain m' where m': "timer_delref i (timer_addref i m) = Some m'"
    "timers_ok m' (removeAll i fr @ [i]) tfr tac (\<lambda>t. removeAll i (qs t)) (idle - {i})"
    "mt_timer m' = (mt_timer (timer_addref i m))(i := (mt_timer (timer_addref i m) i)\<lparr>tn_refcount := 0,
        tn_thread := None, tm_inuse := TIMER_FREE\<rparr>)" "mt_thread m' = mt_thread (timer_addref i m)" .
  let ?n = "(mt_timer m i)\<lparr>tn_refcount := 0, tn_thread := None, tm_inuse := TIMER_FREE\<rparr>"
  have n: "mt_timer m' = (mt_timer m)(i := ?n)" using m'(3) by (simp add: timer_addref_def)
  have fn: "timer_free_ok ?n" by (simp add: timer_free_ok_def)
  have th: "mt_thread m' = mt_thread m" using m'(4) by (simp add: timer_addref_def)
  have u: "tm_inuse (mt_timer m i) = TIMER_FREE" using f by (simp add: timer_free_ok_def)
  show ?thesis
  proof (rule that[OF _ rep_released[OF r m'(2) n fn th]])
    show "timer_settime_in False now i val itv m = Some (-1, m')"
      using t v m'(1) by (simp add: timer_settime_in_def Let_def ts_normal_def timer_addref_def)
    show "os_timer.truncate (mt_timer m' i) = os_timer.truncate (mt_timer m i)"
      unfolding n by (simp add: os_timer.truncate_def u)
  qed (use n th in simp_all)
qed

section \<open>Threads\<close>

lemma find_matching_spec:
  assumes "links_ok (mt_links m) fr tfr tac qs idle"
  obtains "timer_thread_find_matching attr clk m = Some None"
  | t where "timer_thread_find_matching attr clk m = Some (Some t)" "t \<in> set tac"
proof -
  let ?P = "\<lambda>p. thread_attr_compare attr (th_attr (mt_thread m (thread_links2ptr p)))
      \<and> clk = th_clock (mt_thread m (thread_links2ptr p))"
  have f: "list_find ?P (mt_links m) ThreadActive = Some (List.find ?P (map ThreadLink tac))"
    by (rule list_find_dll[OF links_dll(3)[OF assms]])
  show ?thesis
  proof (cases "List.find ?P (map ThreadLink tac)")
    case None
    then show ?thesis using that(1) f by (simp add: timer_thread_find_matching_def)
  next
    case (Some p)
    then obtain t where "p = ThreadLink t" "t \<in> set tac" by (auto simp: find_Some_iff nth_mem)
    then show ?thesis using that(2)[of t] f Some by (simp add: timer_thread_find_matching_def)
  qed
qed

lemma thread_alloc_none:
  "links_ok (mt_links m) fr [] tac qs idle \<Longrightarrow> timer_thread_alloc attr clk m = (None, m)"
  using links_dll(2)[of "mt_links m" fr "[]" tac qs idle]
  by (simp add: timer_thread_alloc_def dll_def Let_def)

lemma thread_alloc_some:
  assumes ok: "timers_ok m fr (t # tfr) tac qs idle"
  obtains m' where "timer_thread_alloc attr clk m = (Some t, m')"
    "timers_ok m' fr tfr (tac @ [t]) (qs(t := [])) idle" "mt_timer m' = mt_timer m"
    "\<not> th_exists (mt_thread m' t)" "\<forall>u. u \<noteq> t \<longrightarrow> mt_thread m' u = mt_thread m u"
proof -
  have l: "links_ok (mt_links m) fr (t # tfr) tac qs idle" using ok by (simp add: timers_ok_def)
  have first: "lnext (mt_links m) ThreadFree = ThreadLink t"
    using links_dll(2)[OF l] by (simp add: dll_def)
  have new: "t \<notin> set tac" using links_apart(5)[OF l] by simp
  let ?m = "snd (timer_thread_alloc attr clk m)"
  have sel: "timer_thread_alloc attr clk m = (Some t, ?m)" "mt_timer ?m = mt_timer m"
    "\<not> th_exists (mt_thread ?m t)" "\<forall>u. u \<noteq> t \<longrightarrow> mt_thread ?m u = mt_thread m u"
    "mt_links ?m = list_append ThreadActive (ThreadLink t)
           (INIT_LIST_HEAD (TimerQueue t) (list_unlink (ThreadLink t) (mt_links m)))"
    using first by (simp_all add: timer_thread_alloc_def thread_init_def Let_def)
  have "links_ok (mt_links ?m) fr tfr (tac @ [t]) (qs(t := [])) idle"
    unfolding sel(5) by (rule links_ok_thread_alloc[OF l])
  moreover have "timer_cells fr (tac @ [t]) (qs(t := [])) idle = timer_cells fr tac qs idle"
    using new by (auto simp: timer_cells_def split: if_splits)
  ultimately have "timers_ok ?m fr tfr (tac @ [t]) (qs(t := [])) idle"
    using ok sel new by (auto simp: timers_ok_def)
  then show ?thesis using that sel by blast
qed

lemma thread_dealloc_last:
  assumes ok: "timers_ok m fr tfr (tac @ [t]) qs idle" and q: "qs t = []"
  obtains m' where "timer_thread_dealloc t m = Some m'" "timers_ok m' fr (tfr @ [t]) tac qs idle"
    "mt_timer m' = mt_timer m" "mt_thread m' = mt_thread m"
proof -
  have l: "links_ok (mt_links m) fr tfr (tac @ t # []) qs idle" using ok by (simp add: timers_ok_def)
  have e: "list_empty (TimerQueue t) (mt_links m)"
    using list_empty_dll[OF links_dll(4)[OF l, of t]] q by simp
  let ?m = "upd_links (list_append ThreadFree (ThreadLink t)) (upd_links (list_unlink (ThreadLink t)) m)"
  have "links_ok (mt_links ?m) fr (tfr @ [t]) tac qs idle"
    using links_ok_thread_dealloc[OF l] by simp
  moreover have "timer_cells fr tac qs idle = timer_cells fr (tac @ [t]) qs idle"
    using q by (auto simp: timer_cells_def)
  ultimately have "timers_ok ?m fr (tfr @ [t]) tac qs idle"
    using ok by (auto simp: timers_ok_def)
  then show ?thesis using that[of ?m] e by (simp add: timer_thread_dealloc_def)
qed

section \<open>Creating a timer\<close>

lemma rep_rebuild:
  assumes r: "timer_module_rep X m fr tfr tac qs idle" and ok: "timers_ok m' fr' tfr' tac' qs' idle'"
    and th: "set tac \<subseteq> set tac'" "\<forall>t \<in> set tac'. th_exists (mt_thread m' t)"
    and n: "mt_timer m' = (mt_timer m)(i := n)" "set fr' - {i} = set fr - {i}"
    and f: "i \<in> set fr' \<Longrightarrow> timer_free_ok n" "i \<notin> set fr' \<Longrightarrow> timer_bound tac' n"
  shows "timer_module_rep (if i \<in> set fr' then X else insert i X) m' fr' tfr' tac' qs' idle'"
proof -
  have same: "j \<in> set fr' \<longleftrightarrow> j \<in> set fr" if "j \<noteq> i" for j using n(2) that by blast
  have mono: "timer_bound tac t \<Longrightarrow> timer_bound tac' t" for t :: "'a timer_node"
    using th(1) by (auto simp: timer_bound_def)
  have "timer_free_ok (mt_timer m' j)" if "j \<in> set fr'" for j
    using that r f(1) same[of j] by (cases "j = i") (auto simp: n timer_module_rep_def)
  moreover have "timer_bound tac' (mt_timer m' j) \<and> (j \<notin> (if i \<in> set fr' then X else insert i X) \<longrightarrow>
      timer_set_ok (mt_timer m' j))" if "j < TIMER_MAX" "j \<notin> set fr'" for j
    using that r f(2) same[of j] mono by (cases "j = i") (auto simp: n timer_module_rep_def)
  ultimately show ?thesis using ok th(2) by (simp add: timer_module_rep_def)
qed

lemma create_bail_timer:
  assumes ok: "timers_ok m fr tfr tac qs idle" and i: "i < TIMER_MAX" "tn_refcount (mt_timer m i) = 1"
  obtains m' fr' qs' where "timer_create_bail None (Some i) m = Some (None, m')"
    "timers_ok m' fr' tfr tac qs' (idle - {i})" "set fr' = insert i (set fr)"
    "mt_timer m' = (mt_timer m)(i := (mt_timer m i)\<lparr>tn_refcount := 0, tn_thread := None, tm_inuse := TIMER_FREE\<rparr>)"
    "mt_thread m' = mt_thread m"
proof -
  obtain m1 where m1: "timer_delref i m = Some m1"
    "timers_ok m1 (removeAll i fr @ [i]) tfr tac (\<lambda>t. removeAll i (qs t)) (idle - {i})"
    "mt_timer m1 = (mt_timer m)(i := (mt_timer m i)\<lparr>tn_refcount := 0, tn_thread := None, tm_inuse := TIMER_FREE\<rparr>)"
    "mt_thread m1 = mt_thread m"
    by (rule timer_delref_last[OF ok i])
  have "tn_refcount (mt_timer m1 i) = 0" using m1(3) by simp
  from timer_dealloc_spec[OF m1(2) i(1) this] obtain m2 where m2: "timer_dealloc i m1 = Some m2"
    "timers_ok m2 (removeAll i (removeAll i fr @ [i]) @ [i]) tfr tac (\<lambda>t. removeAll i (removeAll i (qs t))) (idle - {i} - {i})"
    "mt_timer m2 = (mt_timer m1)(i := (mt_timer m1 i)\<lparr>tn_thread := None, tm_inuse := TIMER_FREE\<rparr>)"
    "mt_thread m2 = mt_thread m1" .
  have ok2: "timers_ok m2 (removeAll i (removeAll i fr @ [i]) @ [i]) tfr tac (\<lambda>t. removeAll i (removeAll i (qs t))) (idle - {i})"
    using m2(2) by (simp only: Diff_idemp)
  show ?thesis
    by (rule that[OF _ ok2]) (use m1 m2 in \<open>auto simp: timer_create_bail_def\<close>)
qed

lemma timer_alloc_none: "links_ok (mt_links m) [] tfr tac qs idle \<Longrightarrow> timer_alloc m = (None, m)"
  using links_dll(1)[of "mt_links m" "[]" tfr tac qs idle] by (simp add: timer_alloc_def dll_def Let_def)

lemma timer_alloc_some:
  assumes ok: "timers_ok m (i # fr) tfr tac qs idle"
  obtains m' where "timer_alloc m = (Some i, m')" "i < TIMER_MAX"
    "timers_ok m' fr tfr tac (\<lambda>t. removeAll i (qs t)) (insert i idle)" "i \<notin> set fr"
    "mt_timer m' = (mt_timer m)(i := (mt_timer m i)\<lparr>tm_inuse := TIMER_INUSE, tn_refcount := 1\<rparr>)"
    "mt_thread m' = mt_thread m"
proof -
  have l: "links_ok (mt_links m) (i # fr) tfr tac qs idle" using ok by (simp add: timers_ok_def)
  have first: "lnext (mt_links m) TimerFree = TimerLink i" using links_dll(1)[OF l] by (simp add: dll_def)
  have i: "i < TIMER_MAX" using ok by (auto simp: timers_ok_def timer_cells_def)
  have d: "i \<notin> set fr" using links_apart(6)[OF l] by simp
  let ?m1 = "upd_links (list_unlink_ip (TimerLink i)) m"
  let ?m = "upd_timer i (\<lambda>t. t\<lparr>tm_inuse := TIMER_INUSE, tn_refcount := 1\<rparr>) ?m1"
  have "timers_ok ?m fr tfr tac (\<lambda>t. removeAll i (qs t)) (insert i idle)"
    using timers_ok_upd_unqueued[OF timers_ok_unlink[OF ok i], of i] d by simp
  then show ?thesis using that[of ?m] i d first by (simp add: timer_alloc_def Let_def)
qed

text \<open>The state in which \<open>__timer_create\<close> looks for a thread: timer \<open>i\<close> is taken from the free list.\<close>

definition creating ::
    "nat \<Rightarrow> 'h timer_module \<Rightarrow> 'h timer_module \<Rightarrow> nat list \<Rightarrow> nat list \<Rightarrow> nat list \<Rightarrow> (nat \<Rightarrow> nat list)
      \<Rightarrow> nat set \<Rightarrow> bool" where
  "creating i m m2 fr tfr tac qs idle \<longleftrightarrow> i < TIMER_MAX \<and> i \<in> idle \<and> timers_ok m2 fr tfr tac qs idle
     \<and> (\<forall>t \<in> set tac. i \<notin> set (qs t))
     \<and> (\<exists>n. mt_timer m2 = (mt_timer m)(i := n) \<and> tm_inuse n = TIMER_INUSE \<and> tn_refcount n = 1)"

lemma creating_bail:
  assumes r: "timer_module_rep {} m (i # fr) tfr0 tac0 qs0 idle0" and c: "creating i m m2 fr tfr tac qs idle"
    and th: "set tac0 \<subseteq> set tac" "\<forall>t \<in> set tac. th_exists (mt_thread m2 t)"
  obtains m' where "timer_create_bail None (Some i) m2 = Some (None, m')" "timer_module_inv m'"
proof -
  obtain n where n: "mt_timer m2 = (mt_timer m)(i := n)" "tm_inuse n = TIMER_INUSE" "tn_refcount n = 1"
    using c by (auto simp: creating_def)
  have i: "i < TIMER_MAX" and ok: "timers_ok m2 fr tfr tac qs idle" using c by (auto simp: creating_def)
  have "tn_refcount (mt_timer m2 i) = 1" using n by simp
  from create_bail_timer[OF ok i this] obtain m' fr' qs' where
    m': "timer_create_bail None (Some i) m2 = Some (None, m')"
    "timers_ok m' fr' tfr tac qs' (idle - {i})" "set fr' = insert i (set fr)"
    "mt_timer m' = (mt_timer m2)(i := (mt_timer m2 i)\<lparr>tn_refcount := 0, tn_thread := None, tm_inuse := TIMER_FREE\<rparr>)"
    "mt_thread m' = mt_thread m2" .
  let ?n = "n\<lparr>tn_refcount := 0, tn_thread := None, tm_inuse := TIMER_FREE\<rparr>"
  have "mt_timer m' = (mt_timer m)(i := ?n)" using m'(4) n(1) by simp
  from rep_rebuild[OF r m'(2) th(1) _ this, of] have "timer_module_rep {} m' fr' tfr tac qs' (idle - {i})"
    using m'(3,5) th(2) by (simp add: timer_free_ok_def)
  then show ?thesis using that m'(1) rep_inv by blast
qed

lemma creating_done:
  fixes clk :: clockid
  assumes r: "timer_module_rep {} m (i # fr) tfr0 tac0 qs0 idle0" and c: "creating i m m2 fr tfr tac qs idle"
    and th: "set tac0 \<subseteq> set tac" "\<forall>t \<in> set tac. th_exists (mt_thread m2 t)" and t: "t \<in> set tac"
    and d: "i \<notin> set fr"
  defines "m' \<equiv> upd_timer i (\<lambda>n. n\<lparr>tn_clock := clk, tm_armed := False, tn_thread := Some t\<rparr>) m2"
  shows "timer_module_rep {i} m' fr tfr tac qs idle" "mt_timer m' = (mt_timer m)(i := mt_timer m' i)"
proof -
  obtain n where n: "mt_timer m2 = (mt_timer m)(i := n)" "tm_inuse n = TIMER_INUSE" "tn_refcount n = 1"
    using c by (auto simp: creating_def)
  have "timers_ok m' fr tfr tac qs idle"
    unfolding m'_def by (rule timers_ok_upd_unqueued) (use c in \<open>simp_all add: creating_def\<close>)
  moreover have "\<forall>t \<in> set tac. th_exists (mt_thread m' t)" using th(2) by (simp add: m'_def)
  moreover have e: "mt_timer m' = (mt_timer m)(i := n\<lparr>tn_clock := clk, tm_armed := False, tn_thread := Some t\<rparr>)"
    by (simp add: m'_def n)
  ultimately show "timer_module_rep {i} m' fr tfr tac qs idle"
    using rep_rebuild[OF r _ th(1)] d n t by (fastforce simp: timer_bound_def)
  show "mt_timer m' = (mt_timer m)(i := mt_timer m' i)" unfolding e by simp
qed

lemma timer_create_some:
  assumes r: "timer_module_rep {} m (i # fr) tfr tac qs idle"
  obtains m' where "timer_create spawn clk ev attr m = Some (None, m')" "timer_module_inv m'"
      "\<not> spawn \<or> tfr = []"
  | m' fr' tfr' tac' qs' idle' where "timer_create spawn clk ev attr m = Some (Some i, m')"
    "timer_module_rep {i} m' fr' tfr' tac' qs' idle'" "i < TIMER_MAX" "i \<notin> set fr'"
    "mt_timer m' = (mt_timer m)(i := mt_timer m' i)"
proof -
  have ok: "timers_ok m (i # fr) tfr tac qs idle" and ex: "\<forall>t \<in> set tac. th_exists (mt_thread m t)"
    using r by (simp_all add: timer_module_rep_def)
  obtain m1 where m1: "timer_alloc m = (Some i, m1)" "i < TIMER_MAX"
    "timers_ok m1 fr tfr tac (\<lambda>t. removeAll i (qs t)) (insert i idle)" "i \<notin> set fr"
    "mt_timer m1 = (mt_timer m)(i := (mt_timer m i)\<lparr>tm_inuse := TIMER_INUSE, tn_refcount := 1\<rparr>)"
    "mt_thread m1 = mt_thread m"
    by (rule timer_alloc_some[OF ok])
  let ?m2 = "upd_timer i (\<lambda>t. t\<lparr>tn_event := ev, tn_attr := attr\<rparr>) m1"
  let ?qs = "\<lambda>t. removeAll i (qs t)"
  have "timers_ok ?m2 fr tfr tac ?qs (insert i idle)" by (rule timers_ok_upd_timer[OF m1(3)]) simp_all
  then have c2: "creating i m ?m2 fr tfr tac ?qs (insert i idle)" 
    unfolding creating_def using m1(2,5)
    by (auto intro!: exI[of _ "(mt_timer m i)\<lparr>tm_inuse := TIMER_INUSE, tn_refcount := 1,
      tn_event := ev, tn_attr := attr\<rparr>"])
  have ex2: "\<forall>t \<in> set tac. th_exists (mt_thread ?m2 t)" using ex m1(6) by simp
  have l2: "links_ok (mt_links ?m2) fr tfr tac ?qs (insert i idle)" using c2 by (simp add: creating_def timers_ok_def)
  show thesis
  proof (rule find_matching_spec[OF l2, of attr clk])
    fix t assume f: "timer_thread_find_matching attr clk ?m2 = Some (Some t)" "t \<in> set tac"
    note d = creating_done[OF r c2 subset_refl ex2 f(2) m1(4), of clk]
    show thesis
      by (rule that(2)[OF _ d(1) m1(2,4) d(2)]) (use f ex2 m1 in \<open>simp add: timer_create_def Let_def\<close>)
  next
    assume f: "timer_thread_find_matching attr clk ?m2 = Some None"
    show thesis
    proof (cases tfr)
      case Nil
      obtain m' where m': "timer_create_bail None (Some i) ?m2 = Some (None, m')" "timer_module_inv m'"
        by (rule creating_bail[OF r c2 subset_refl ex2])
      have "timer_thread_alloc attr clk ?m2 = (None, ?m2)"
        using l2 unfolding Nil by (rule thread_alloc_none)
      then show thesis
        using m' f m1(1) Nil by (intro that(1)[of m']) (simp_all add: timer_create_def Let_def)
    next
      case (Cons t tfr')
      obtain m3 where m3: "timer_thread_alloc attr clk ?m2 = (Some t, m3)"
        "timers_ok m3 fr tfr' (tac @ [t]) (?qs(t := [])) (insert i idle)" "mt_timer m3 = mt_timer ?m2"
        "\<not> th_exists (mt_thread m3 t)" "\<forall>u. u \<noteq> t \<longrightarrow> mt_thread m3 u = mt_thread ?m2 u"
        using thread_alloc_some c2 unfolding Cons creating_def by blast
      show thesis
      proof (cases spawn)
        case True
        let ?m4 = "upd_thread t (\<lambda>th. th\<lparr>th_exists := True\<rparr>) m3"
        have c4: "creating i m ?m4 fr tfr' (tac @ [t]) (?qs(t := [])) (insert i idle)"
          using c2 m3(2,3) by (auto simp: creating_def timers_ok_def)
        have ex4: "\<forall>u \<in> set (tac @ [t]). th_exists (mt_thread ?m4 u)" using ex2 m3(5) by simp
        have sub: "set tac \<subseteq> set (tac @ [t])" "t \<in> set (tac @ [t])" by auto
        note d = creating_done[OF r c4 sub(1) ex4 sub(2) m1(4), of clk]
        show thesis
          by (rule that(2)[OF _ d(1) m1(2,4) d(2)])
            (use f True m1(1) m3(1,4) in \<open>simp add: timer_create_def timer_thread_start_def Let_def\<close>)
      next
        case False
        let ?m4 = "upd_thread t (\<lambda>th. th\<lparr>th_exists := False\<rparr>) (upd_thread t (\<lambda>th. th\<lparr>th_exists := True\<rparr>) m3)"
        have ok4: "timers_ok ?m4 fr tfr' (tac @ [t]) (?qs(t := [])) (insert i idle)"
          using m3(2) by (simp add: timers_ok_def)
        obtain m5 where m5: "timer_thread_dealloc t ?m4 = Some m5"
          "timers_ok m5 fr (tfr' @ [t]) tac (?qs(t := [])) (insert i idle)"
          "mt_timer m5 = mt_timer ?m4" "mt_thread m5 = mt_thread ?m4"
          by (rule thread_dealloc_last[OF ok4]) simp_all
        have c5: "creating i m m5 fr (tfr' @ [t]) tac (?qs(t := [])) (insert i idle)"
          using c2 m3(3) m5(2,3) by (simp add: creating_def)
        have "t \<notin> set tac" using links_apart(5)[OF l2] Cons by simp
        then have ex5: "\<forall>u \<in> set tac. th_exists (mt_thread m5 u)" using ex2 m3(5) m5(4) by auto
        obtain m' where m': "timer_create_bail None (Some i) m5 = Some (None, m')" "timer_module_inv m'"
          by (rule creating_bail[OF r c5 subset_refl ex5])
        show thesis
          by (rule that(1)[OF _ m'(2)])
            (use f False m1(1) m3(1,4) m5(1) m'(1) in
              \<open>simp_all add: timer_create_def timer_thread_start_def timer_create_bail_def Let_def\<close>)
      qed
    qed
  qed
qed

lemma timer_create_none:
  assumes r: "timer_module_rep {} m [] tfr tac qs idle"
  shows "timer_create spawn clk ev attr m = Some (None, m)"
  using timer_alloc_none[of m tfr tac qs idle] r
  by (simp add: timer_create_def timer_create_bail_def timer_module_rep_def timers_ok_def)

section \<open>The interface keeps the invariant\<close>

lemma zero_ts [simp]: "ts_normal zero_timespec" "ts_ns zero_timespec = 0"
  by (simp_all add: zero_timespec_def ts_normal_def ts_ns_def)

lemma ms2ts_ok: "0 < ms \<Longrightarrow> ts_normal (ms2ts ms) \<and> 0 \<le> ts_ns (ms2ts ms)"
  using ms2ts_range by (simp add: ms2ts_sound)

lemma timer_settime_inv:
  assumes inv: "timer_module_inv m" and i: "i < TIMER_MAX"
    and ms: "tm_inuse (mt_timer m i) = TIMER_INUSE \<Longrightarrow> 0 < tm_millisec (mt_timer m i)"
    and t: "ts_normal now" "ts_normal val" "ts_normal itv" "0 \<le> ts_ns itv"
  obtains m' where
    "timer_settime_in False now i val itv m =
       Some (fst (timer_settime val itv (os_timer.truncate (mt_timer m i))), m')"
    "os_timer.truncate (mt_timer m' i) = snd (timer_settime val itv (os_timer.truncate (mt_timer m i)))"
    "timer_module_inv m'" "mt_timer m' = (mt_timer m)(i := mt_timer m' i)" "mt_thread m' = mt_thread m"
proof -
  obtain fr tfr tac qs idle where r: "timer_module_rep {} m fr tfr tac qs idle"
    using inv unfolding timer_module_inv_def by blast
  show ?thesis
  proof (cases "tm_inuse (mt_timer m i) = TIMER_INUSE")
    case True
    from timer_settime_spec[OF r i True ms[OF True] t] obtain m' qs' idle' where
      m': "timer_settime_in False now i val itv m = Some (0, m')"
      "timer_module_rep ({} - {i}) m' fr tfr tac qs' idle'"
      "mt_timer m' = (mt_timer m)(i := mt_timer m' i)"
      "os_timer.truncate (mt_timer m' i) = os_timer.truncate ((mt_timer m i)\<lparr>tm_value := val, tm_interval := itv,
          tm_armed := (tv_sec val \<noteq> 0 \<or> tv_nsec val \<noteq> 0)\<rparr>)"
      "mt_thread m' = mt_thread m" .
    have "timer_module_inv m'" using m'(2) by (simp only: empty_Diff) (rule rep_inv)
    then show ?thesis
      using that[OF _ _ _ m'(3,5)] m'(1,4) True t
      by (simp add: timer_settime_def timer_valid_def ts_normal_def os_timer.truncate_def)
  next
    case False
    from timer_settime_free[OF r i False t(2,3)] obtain m' where
      m': "timer_settime_in False now i val itv m = Some (-1, m')"
      "timer_module_rep ({} - {i}) m' (removeAll i fr @ [i]) tfr tac (\<lambda>t. removeAll i (qs t)) (idle - {i})"
      "mt_timer m' = (mt_timer m)(i := mt_timer m' i)"
      "os_timer.truncate (mt_timer m' i) = os_timer.truncate (mt_timer m i)"
      "mt_thread m' = mt_thread m" .
    have "timer_module_inv m'" using m'(2) by (simp only: empty_Diff) (rule rep_inv)
    then show ?thesis
      using that[OF _ _ _ m'(3,5)] m'(1,4) False t
      by (simp add: timer_settime_def timer_valid_def ts_normal_def os_timer.truncate_def)
  qed
qed

lemma inv_millisec:
  assumes "timer_module_inv m" "i < TIMER_MAX" "tm_inuse (mt_timer m i) = TIMER_INUSE"
  shows "0 < tm_millisec (mt_timer m i)"
proof -
  obtain fr tfr tac qs idle where r: "timer_module_rep {} m fr tfr tac qs idle"
    using assms(1) unfolding timer_module_inv_def by blast
  show ?thesis using r assms(2) rep_bound(2)[OF r assms(2,3)] by (simp add: timer_module_rep_def timer_set_ok_def)
qed

end
