(* ===== verification/OsTimerRun.thy ===== *)
theory OsTimerRun
  imports OsTimerInv
begin

text \<open>
  A thread of the timer module at work, \<open>thread_func\<close> of \<open>osal/linux/os_timer.c\<close>: one round expires what
  is due, puts periodic timers back at their next time and leaves the thread waiting for the first
  timer of its queue. Then the properties of the module: its invariant over everything a program
  and the threads can do, and its refinement of the timers the other theories use.
\<close>

section \<open>One round of a thread\<close>

text \<open>The loop that skips the periods a timer has missed.\<close>

partial_function (option) overrun_loop ::
    "timespec \<Rightarrow> timespec \<Rightarrow> timespec \<Rightarrow> int \<Rightarrow> (timespec \<times> int) option" where
  "overrun_loop itv now e n =
     (if timespec_compare e now < 0
      then overrun_loop itv now (timespec_add e itv) (if n < DELAYTIMER_MAX then n + 1 else n)
      else Some (e, n))"

text \<open>What is done with a due timer before its handler runs.\<close>

definition expire_one :: "timespec \<Rightarrow> nat \<Rightarrow> nat \<Rightarrow> 'h timer_module \<Rightarrow> 'h timer_module option" where
  "expire_one now t i m =
     (let m = upd_links (list_unlink_ip (TimerLink i)) m; itv = tm_interval (mt_timer m i)
      in if tv_sec itv \<noteq> 0 \<or> tv_nsec itv \<noteq> 0
         then do { (e, n) \<leftarrow> overrun_loop itv now (timespec_add (tn_expiry (mt_timer m i)) itv) 0;
                   (athead, m) \<leftarrow> timer_thread_queue_timer t i
                       (upd_timer i (\<lambda>n'. n'\<lparr>tn_expiry := e, tn_overrun := n\<rparr>) m);
                   Some m }
         else Some m)"

text \<open>The handler runs without the mutex: \<open>run\<close> is what it, and every other thread meanwhile, does to
  the module and to the rest of the program \<open>w\<close>.\<close>

definition thread_expire_timer ::
    "('h option \<Rightarrow> 'h timer_module \<Rightarrow> 'w \<Rightarrow> 'h timer_module \<times> 'w) \<Rightarrow> nat \<Rightarrow> nat
      \<Rightarrow> 'h timer_module \<Rightarrow> 'w \<Rightarrow> 'h timer_module \<times> 'w" where
  "thread_expire_timer run t i m w =
     (let m = upd_thread t (\<lambda>th. th\<lparr>th_current := Some i\<rparr>) m;
          (m, w) = run (tn_event (mt_timer m i)) m w
      in (upd_thread t (\<lambda>th. th\<lparr>th_current := None\<rparr>) m, w))"

partial_function (option) expire_loop ::
    "('h option \<Rightarrow> 'h timer_module \<Rightarrow> 'w \<Rightarrow> 'h timer_module \<times> 'w) \<Rightarrow> timespec \<Rightarrow> nat \<Rightarrow> taddr
      \<Rightarrow> 'h timer_module \<Rightarrow> 'w \<Rightarrow> (nat option \<times> 'h timer_module \<times> 'w) option" where
  "expire_loop run now t first m w =
     (let i = timer_links2ptr first
      in if timespec_compare now (tn_expiry (mt_timer m i)) < 0 then Some (Some i, m, w)
         else Option.bind (expire_one now t i m)
           (\<lambda>m. let (m, w) = thread_expire_timer run t i m w;
                    first = lnext (mt_links m) (TimerQueue t)
                in if first = TimerQueue t then Some (None, m, w)
                   else expire_loop run now t first m w))"

text \<open>From the lock to the wait: the timer to wait for is the result.\<close>

definition thread_round ::
    "('h option \<Rightarrow> 'h timer_module \<Rightarrow> 'w \<Rightarrow> 'h timer_module \<times> 'w) \<Rightarrow> timespec \<Rightarrow> nat
      \<Rightarrow> 'h timer_module \<Rightarrow> 'w \<Rightarrow> (nat option \<times> 'h timer_module \<times> 'w) option" where
  "thread_round run now t m w =
     (let first = lnext (mt_links m) (TimerQueue t)
      in if first = TimerQueue t then Some (None, m, w) else expire_loop run now t first m w)"

text \<open>The deadline of \<open>pthread_cond_timedwait\<close>, which is on the real-time clock.\<close>

definition wait_deadline :: "timespec \<Rightarrow> timespec \<Rightarrow> 'h timer_node \<Rightarrow> timespec" where
  "wait_deadline mono_now real_now n =
     (if tn_clock n = CLOCK_MONOTONIC
      then timespec_add real_now (timespec_sub (tn_expiry n) mono_now) else tn_expiry n)"

section \<open>Missed periods\<close>

lemma overrun_loop_spec:
  assumes "ts_normal e" "ts_normal itv" "ts_normal now" "0 < ts_ns itv"
  obtains e' k n' where "overrun_loop itv now e n = Some (e', n')" "ts_normal e'"
    "ts_ns e' = ts_ns e + int k * ts_ns itv" "ts_ns now \<le> ts_ns e'"
    "0 < k \<Longrightarrow> ts_ns e' - ts_ns itv < ts_ns now"
  using assms
proof (induction "nat (ts_ns now - ts_ns e)" arbitrary: e n thesis rule: less_induct)
  case less
  have c: "timespec_compare e now < 0 \<longleftrightarrow> ts_ns e < ts_ns now"
    using timespec_compare_sound less.prems by (simp add: sgn_if)
  show ?case
  proof (cases "ts_ns e < ts_ns now")
    case True
    let ?e = "timespec_add e itv" and ?n = "if n < DELAYTIMER_MAX then n + 1 else n"
    have e: "ts_normal ?e" "ts_ns ?e = ts_ns e + ts_ns itv"
      using timespec_add_sound less.prems by auto
    have "nat (ts_ns now - ts_ns ?e) < nat (ts_ns now - ts_ns e)" using True e(2) less.prems(5) by simp
    from less.hyps[OF this _ e(1) less.prems(3,4,5), of ?n] obtain e' k n' where
      r: "overrun_loop itv now ?e ?n = Some (e', n')" "ts_normal e'"
      "ts_ns e' = ts_ns ?e + int k * ts_ns itv" "ts_ns now \<le> ts_ns e'"
      "0 < k \<Longrightarrow> ts_ns e' - ts_ns itv < ts_ns now" by blast
    have "ts_ns e' = ts_ns e + int (Suc k) * ts_ns itv" using r(3) e(2) by (simp add: algebra_simps)
    moreover have "ts_ns e' - ts_ns itv < ts_ns now" using r(3,5) e(2) True by (cases k) auto
    moreover have "overrun_loop itv now e n = Some (e', n')"
      using r(1) c True by (subst overrun_loop.simps) simp
    ultimately show ?thesis using less.prems(1)[of e' n' "Suc k"] r(2,4) by blast
  next
    case False
    then have "overrun_loop itv now e n = Some (e, n)" using c by (subst overrun_loop.simps) simp
    then show ?thesis using less.prems(1)[of e n 0] less.prems(2) False by simp
  qed
qed

section \<open>Expiring one timer\<close>

lemma rep_upd_thread:
  assumes "timer_module_rep X m fr tfr tac qs idle" "\<And>th. th_exists (f th) = th_exists th"
  shows "timer_module_rep X (upd_thread t f m) fr tfr tac qs idle"
  using assms by (auto simp: timer_module_rep_def timers_ok_def)

text \<open>The next time of a timer that was due at \<open>now\<close>: a whole number of periods later.\<close>

definition next_expiry :: "'h timer_node \<Rightarrow> timespec \<Rightarrow> int \<Rightarrow> bool" where
  "next_expiry n now e \<longleftrightarrow> (\<exists>k. 1 \<le> k \<and> e = ts_ns (tn_expiry n) + k * ts_ns (tm_interval n)
     \<and> ts_ns now \<le> e \<and> (1 < k \<longrightarrow> e - ts_ns (tm_interval n) < ts_ns now))"

definition periodic :: "'h timer_node \<Rightarrow> bool" where
  "periodic n \<longleftrightarrow> 0 < ts_ns (tm_interval n)"

lemma periodic_test:
  assumes "ts_normal itv" "0 \<le> ts_ns itv"
  shows "tv_sec itv \<noteq> 0 \<or> tv_nsec itv \<noteq> 0 \<longleftrightarrow> 0 < ts_ns itv"
proof (cases "tv_sec itv = 0")
  case False
  then have "0 < tv_sec itv" using assms unfolding ts_normal_def ts_ns_def by linarith
  then show ?thesis using assms(1) by (simp add: ts_normal_def ts_ns_def)
qed (use assms in \<open>auto simp: ts_normal_def ts_ns_def\<close>)

lemma armed_again: "tm_armed n \<Longrightarrow> n\<lparr>tm_armed := True\<rparr> = (n :: 'h timer_node)"
  by (cases n) simp

lemma expire_one_spec:
  assumes r: "timer_module_rep {} m fr tfr tac qs idle" and t: "t \<in> set tac" and q: "qs t = i # q"
    and now: "ts_normal now" and due: "expiry_ns (mt_timer m) i \<le> ts_ns now"
  obtains m' qs' idle' where "expire_one now t i m = Some m'"
    "timer_module_rep {} m' fr tfr tac qs' idle'" "mt_thread m' = mt_thread m"
    "mt_timer m' = (mt_timer m)(i := mt_timer m' i)" "tn_event (mt_timer m' i) = tn_event (mt_timer m i)"
    "if periodic (mt_timer m i)
     then next_expiry (mt_timer m i) now (expiry_ns (mt_timer m') i) \<and> qs' t = enqueue (mt_timer m') i q
     else qs' t = q \<and> expiry_ns (mt_timer m') i = expiry_ns (mt_timer m) i"
proof -
  let ?itv = "tm_interval (mt_timer m i)" and ?qs = "\<lambda>t. removeAll i (qs t)"
  let ?m1 = "upd_links (list_unlink_ip (TimerLink i)) m"
  have ok: "timers_ok m fr tfr tac qs idle" using r by (simp add: timer_module_rep_def)
  have inq: "i \<in> set (qs t)" using q by simp
  have i: "i < TIMER_MAX" using ok t inq by (auto simp: timers_ok_def timer_cells_def)
  have free: "i \<notin> set fr" using links_apart(1) ok t inq unfolding timers_ok_def by blast
  have bound: "timer_bound tac (mt_timer m i)" "timer_set_ok (mt_timer m i)"
    using r i free by (auto simp: timer_module_rep_def)
  have itv: "ts_normal ?itv" "0 \<le> ts_ns ?itv" using bound(2) by (auto simp: timer_set_ok_def)
  have node: "tn_thread (mt_timer m i) = Some t" "tm_armed (mt_timer m i)" "ts_normal (tn_expiry (mt_timer m i))"
    using ok t inq by (auto simp: timers_ok_def)
  have fr: "removeAll i fr = fr" using free by simp
  have qt: "?qs t = q" using q links_apart(9) ok t unfolding timers_ok_def by fastforce
  have ok1: "timers_ok ?m1 fr tfr tac ?qs (insert i idle)"
    using timers_ok_unlink[OF ok i] by (simp add: fr)
  show ?thesis
  proof (cases "periodic (mt_timer m i)")
    case True
    then have pos: "0 < ts_ns ?itv" by (simp add: periodic_def)
    let ?e0 = "timespec_add (tn_expiry (mt_timer m i)) ?itv"
    have e0: "ts_normal ?e0" "ts_ns ?e0 = ts_ns (tn_expiry (mt_timer m i)) + ts_ns ?itv"
      using timespec_add_sound node(3) itv(1) by auto
    obtain e k n where e: "overrun_loop ?itv now ?e0 0 = Some (e, n)" "ts_normal e"
      "ts_ns e = ts_ns ?e0 + int k * ts_ns ?itv" "ts_ns now \<le> ts_ns e"
      "0 < k \<Longrightarrow> ts_ns e - ts_ns ?itv < ts_ns now"
      using overrun_loop_spec[where n = 0, OF e0(1) itv(1) now pos] by blast
    let ?m2 = "upd_timer i (\<lambda>n'. n'\<lparr>tn_expiry := e, tn_overrun := n\<rparr>) ?m1"
    have ok2: "timers_ok ?m2 fr tfr tac ?qs (insert i idle)"
      by (rule timers_ok_upd_unqueued[OF ok1]) simp
    have th2: "tn_thread (mt_timer ?m2 i) = Some t" "ts_normal (tn_expiry (mt_timer ?m2 i))"
      using node(1) e(2) by simp_all
    from timers_ok_enqueue[OF ok2 t insertI1 th2] obtain m' where
      m': "timer_thread_queue_timer t i ?m2 = Some (hd (enqueue (mt_timer ?m2) i (?qs t)) = i, m')"
      "mt_timer m' = mt_timer ?m2" "mt_thread m' = mt_thread ?m2"
      "timers_ok (upd_timer i (\<lambda>t. t\<lparr>tm_armed := True\<rparr>) m') fr tfr tac
         (?qs(t := enqueue (mt_timer ?m2) i (?qs t))) (insert i idle - {i})" .
    have same: "upd_timer i (\<lambda>t. t\<lparr>tm_armed := True\<rparr>) m' = m'"
    proof -
      have "(mt_timer m' i)\<lparr>tm_armed := True\<rparr> = mt_timer m' i"
        by (rule armed_again) (use node(2) m'(2) in simp)
      then show ?thesis by (simp add: upd_timer_def)
    qed
    let ?n = "(mt_timer m i)\<lparr>tn_expiry := e, tn_overrun := n\<rparr>"
    have n': "mt_timer m' = (mt_timer m)(i := ?n)" using m'(2) by simp
    have bn: "timer_bound tac ?n" "timer_set_ok ?n"
      using bound by (simp_all add: timer_bound_def timer_set_ok_def)
    have th': "mt_thread m' = mt_thread m" using m'(3) by simp
    have r': "timer_module_rep ({} - {i}) m' fr tfr tac (?qs(t := enqueue (mt_timer ?m2) i (?qs t))) (insert i idle - {i})"
      by (rule rep_updated[OF r free m'(4)[unfolded same] n' bn th'])
    have nx: "next_expiry (mt_timer m i) now (expiry_ns (mt_timer m') i)"
      unfolding next_expiry_def
      by (rule exI[of _ "1 + int k"]) (use e e0 in \<open>auto simp: n' expiry_ns_def algebra_simps\<close>)
    show ?thesis
    proof (rule that[OF _ r'[unfolded empty_Diff] th'])
      show "expire_one now t i m = Some m'"
        using e(1) m'(1) pos periodic_test[OF itv] by (simp add: expire_one_def Let_def)
    qed (use True nx n' m'(2) qt in simp_all)
  next
    case False
    then have z: "\<not> 0 < ts_ns ?itv" by (simp add: periodic_def)
    have n': "mt_timer ?m1 = (mt_timer m)(i := mt_timer m i)" by simp
    have r': "timer_module_rep ({} - {i}) ?m1 fr tfr tac ?qs (insert i idle)"
      by (rule rep_updated[OF r free ok1 n' bound]) simp
    show ?thesis
    proof (rule that[OF _ r'[unfolded empty_Diff]])
      show "expire_one now t i m = Some ?m1"
        using z periodic_test[OF itv] by (simp add: expire_one_def Let_def)
    qed (use False qt in simp_all)
  qed
qed

section \<open>A round ends and fires what is due\<close>

text \<open>How often a timer can still fire in the round: twice if it has missed its time, since it may land
  exactly on \<open>now\<close> when the missed periods are skipped.\<close>

definition shots :: "(nat \<Rightarrow> 'h timer_node) \<Rightarrow> timespec \<Rightarrow> nat \<Rightarrow> nat" where
  "shots nodes now i =
     (if ts_ns now < expiry_ns nodes i then 0 else if expiry_ns nodes i = ts_ns now then 1 else 2)"

definition shots_left :: "(nat \<Rightarrow> 'h timer_node) \<Rightarrow> timespec \<Rightarrow> nat list \<Rightarrow> nat" where
  "shots_left nodes now xs = sum_list (map (shots nodes now) xs)"

lemma shots_left_cong:
  "(\<And>j. j \<in> set xs \<Longrightarrow> nodes' j = nodes j) \<Longrightarrow> shots_left nodes' now xs = shots_left nodes now xs"
  unfolding shots_left_def by (intro arg_cong[where f = sum_list] map_cong) (auto simp: shots_def expiry_ns_def)

lemma shots_left_enqueue: "shots_left nodes now (enqueue n i xs) = shots nodes now i + shots_left nodes now xs"
proof -
  have "mset (map (shots nodes now) (enqueue n i xs)) = mset (map (shots nodes now) (i # xs))" by simp
  then show ?thesis unfolding shots_left_def by (metis sum_mset_sum_list sum_list.Cons list.simps(9))
qed

lemma next_expiry_shots:
  assumes "periodic (nodes i)" "next_expiry (nodes i) now (expiry_ns nodes' i)" "expiry_ns nodes i \<le> ts_ns now"
  shows "shots nodes' now i < shots nodes now i"
proof -
  obtain k where k: "1 \<le> k" "expiry_ns nodes' i = ts_ns (tn_expiry (nodes i)) + k * ts_ns (tm_interval (nodes i))"
    "ts_ns now \<le> expiry_ns nodes' i"
    using assms(2) unfolding next_expiry_def by blast
  have "0 < k * ts_ns (tm_interval (nodes i))" using k(1) assms(1) by (simp add: periodic_def)
  then have "expiry_ns nodes i < expiry_ns nodes' i" using k(2) by (simp add: expiry_ns_def)
  then show ?thesis using k(3) assms(3) by (simp add: shots_def)
qed

text \<open>The timers fired: the due ones, each at most as often as \<open>shots\<close> says.\<close>

definition fired_ok :: "(nat \<Rightarrow> 'h timer_node) \<Rightarrow> timespec \<Rightarrow> nat list \<Rightarrow> nat list \<Rightarrow> bool" where
  "fired_ok nodes now xs fired \<longleftrightarrow> set fired = {i \<in> set xs. expiry_ns nodes i \<le> ts_ns now}
     \<and> (\<forall>i. count_list fired i \<le> shots nodes now i)"

text \<open>A handler that only acts on the rest of the program, as those of this program do (they post
  an event in the queue of their task).\<close>

definition handler_acts :: "('h option \<Rightarrow> 'w \<Rightarrow> 'w) \<Rightarrow> 'h option \<Rightarrow> 'h timer_module \<Rightarrow> 'w \<Rightarrow> 'h timer_module \<times> 'w" where
  "handler_acts act ev m w = (m, act ev w)"

definition fire_all :: "('h option \<Rightarrow> 'w \<Rightarrow> 'w) \<Rightarrow> (nat \<Rightarrow> 'h timer_node) \<Rightarrow> nat list \<Rightarrow> 'w \<Rightarrow> 'w" where
  "fire_all act nodes fired w = foldl (\<lambda>w i. act (tn_event (nodes i)) w) w fired"

text \<open>What is known after the round: nothing in the queue is due, and the thread waits for its head.\<close>

definition round_done ::
    "('h option \<Rightarrow> 'w \<Rightarrow> 'w) \<Rightarrow> timespec \<Rightarrow> nat \<Rightarrow> 'h timer_module \<Rightarrow> nat list \<Rightarrow> 'w
      \<Rightarrow> nat option \<times> 'h timer_module \<times> 'w \<Rightarrow> bool" where
  "round_done act now t m xs w res \<longleftrightarrow> (\<exists>m' fr tfr tac qs idle fired.
     res = ((if qs t = [] then None else Some (hd (qs t))), m', fire_all act (mt_timer m) fired w)
     \<and> timer_module_rep {} m' fr tfr tac qs idle \<and> t \<in> set tac
     \<and> (\<forall>i \<in> set (qs t). ts_ns now < expiry_ns (mt_timer m') i)
     \<and> fired_ok (mt_timer m) now xs fired)"

lemma queue_first:
  assumes "timer_module_rep X m fr tfr tac qs idle" "t \<in> set tac"
  shows "lnext (mt_links m) (TimerQueue t) = (if qs t = [] then TimerQueue t else TimerLink (hd (qs t)))"
proof -
  have "dll (mt_links m) (TimerQueue t) (map TimerLink (qs t))"
    using assms links_dll(4) unfolding timer_module_rep_def timers_ok_def by blast
  then show ?thesis by (cases "qs t") (auto simp: dll_def)
qed

text \<open>One pass of the loop, with what the next passes fire added.\<close>

lemma fired_ok_step:
  assumes d: "expiry_ns nodes i \<le> ts_ns now" "i \<notin> set q"
    and n: "nodes' = nodes(i := nodes' i)"
    and ys: "if periodic (nodes i) then next_expiry (nodes i) now (expiry_ns nodes' i) \<and> set ys = insert i (set q)
             else set ys = set q"
    and f: "fired_ok nodes' now ys fired"
  shows "fired_ok nodes now (i # q) (i # fired)"
proof -
  have o: "expiry_ns nodes' j = expiry_ns nodes j" "shots nodes' now j = shots nodes now j" if "j \<noteq> i" for j
    using n that by (metis expiry_ns_def fun_upd_apply shots_def)+
  have s: "set fired = {j \<in> set ys. expiry_ns nodes' j \<le> ts_ns now}" and c: "\<forall>j. count_list fired j \<le> shots nodes' now j"
    using f by (auto simp: fired_ok_def)
  have oq: "expiry_ns nodes' j = expiry_ns nodes j" if "j \<in> set q" for j using o(1)[of j] d(2) that by blast
  have "set (i # fired) = {j \<in> set (i # q). expiry_ns nodes j \<le> ts_ns now}"
    using s d ys by (auto simp: oq split: if_splits)
  moreover have "count_list (i # fired) i \<le> shots nodes now i"
  proof (cases "periodic (nodes i)")
    case True
    then have "shots nodes' now i < shots nodes now i"
      using next_expiry_shots[of nodes i now nodes'] d(1) ys True by simp
    then show ?thesis using c by (simp add: Suc_le_eq) (metis order_le_less_trans)
  next
    case False
    then have "i \<notin> set fired" using s ys d(2) by auto
    then have "count_list fired i = 0" by (simp add: count_list_0_iff)
    then show ?thesis using d(1) by (simp add: shots_def)
  qed
  moreover have "count_list (i # fired) j \<le> shots nodes now j" if "j \<noteq> i" for j
    using c o(2)[OF that] that by (simp add: eq_commute)
  ultimately have "\<forall>j. count_list (i # fired) j \<le> shots nodes now j" by metis
  with \<open>set (i # fired) = _\<close> show ?thesis unfolding fired_ok_def by blast
qed

lemma expire_loop_step:
  assumes r: "timer_module_rep {} m fr tfr tac qs idle" and t: "t \<in> set tac" and q: "qs t = i # q"
    and now: "ts_normal now" and due: "expiry_ns (mt_timer m) i \<le> ts_ns now"
  obtains m2 qs2 idle2 where
    "timer_module_rep {} m2 fr tfr tac qs2 idle2"
    "expire_loop (handler_acts act) now t (TimerLink i) m w =
       (if qs2 t = [] then Some (None, m2, act (tn_event (mt_timer m i)) w)
        else expire_loop (handler_acts act) now t (TimerLink (hd (qs2 t))) m2 (act (tn_event (mt_timer m i)) w))"
    "shots_left (mt_timer m2) now (qs2 t) < shots_left (mt_timer m) now (qs t)"
    "\<forall>j. tn_event (mt_timer m2 j) = tn_event (mt_timer m j)"
    "\<forall>fired. fired_ok (mt_timer m2) now (qs2 t) fired \<longrightarrow> fired_ok (mt_timer m) now (qs t) (i # fired)"
proof -
  from expire_one_spec[OF r t q now due] obtain m1 qs1 idle1 where m1: "expire_one now t i m = Some m1"
    "timer_module_rep {} m1 fr tfr tac qs1 idle1" "mt_thread m1 = mt_thread m"
    "mt_timer m1 = (mt_timer m)(i := mt_timer m1 i)" "tn_event (mt_timer m1 i) = tn_event (mt_timer m i)"
    "if periodic (mt_timer m i)
     then next_expiry (mt_timer m i) now (expiry_ns (mt_timer m1) i) \<and> qs1 t = enqueue (mt_timer m1) i q
     else qs1 t = q \<and> expiry_ns (mt_timer m1) i = expiry_ns (mt_timer m) i" .
  let ?m2 = "upd_thread t (\<lambda>th. th\<lparr>th_current := None\<rparr>) (upd_thread t (\<lambda>th. th\<lparr>th_current := Some i\<rparr>) m1)"
  have r2: "timer_module_rep {} ?m2 fr tfr tac qs1 idle1"
    by (intro rep_upd_thread m1(2)) simp_all
  have ok: "timers_ok m fr tfr tac qs idle" using r by (simp add: timer_module_rep_def)
  have iq: "i \<notin> set q" using links_apart(9) ok t q unfolding timers_ok_def by fastforce
  have cmp: "\<not> timespec_compare now (tn_expiry (mt_timer m i)) < 0"
  proof -
    have "ts_normal (tn_expiry (mt_timer m i))" using ok t q by (auto simp: timers_ok_def)
    then show ?thesis using timespec_compare_sound[OF now] due by (simp add: expiry_ns_def sgn_if)
  qed
  have loop: "expire_loop (handler_acts act) now t (TimerLink i) m w =
       (if qs1 t = [] then Some (None, ?m2, act (tn_event (mt_timer m i)) w)
        else expire_loop (handler_acts act) now t (TimerLink (hd (qs1 t))) ?m2 (act (tn_event (mt_timer m i)) w))"
    using m1(1,5) cmp queue_first[OF m1(2) t]
    by (subst expire_loop.simps) (simp add: thread_expire_timer_def handler_acts_def Let_def)
  have o: "mt_timer m1 j = mt_timer m j" if "j \<noteq> i" for j using m1(4) that by (metis fun_upd_other)
  have oq: "shots_left (mt_timer m1) now q = shots_left (mt_timer m) now q"
    by (rule shots_left_cong) (use o iq in metis)
  have less: "shots_left (mt_timer m1) now (qs1 t) < shots_left (mt_timer m) now (qs t)"
  proof (cases "periodic (mt_timer m i)")
    case True
    then have "shots (mt_timer m1) now i < shots (mt_timer m) now i"
      using next_expiry_shots[of "mt_timer m" i now "mt_timer m1"] m1(6) due True by simp
    then show ?thesis using True m1(6) oq q by (simp add: shots_left_enqueue) (simp add: shots_left_def)
  next
    case False
    then show ?thesis using m1(6) oq q due by (simp add: shots_left_def shots_def)
  qed
  have ev: "tn_event (mt_timer m1 j) = tn_event (mt_timer m j)" for j
    using o[of j] m1(5) by (cases "j = i") simp_all
  have ys: "if periodic (mt_timer m i) then next_expiry (mt_timer m i) now (expiry_ns (mt_timer m1) i)
      \<and> set (qs1 t) = insert i (set q) else set (qs1 t) = set q"
    using m1(6) by auto
  show ?thesis
    by (rule that[OF r2 loop])
      (use less ev fired_ok_step[OF due iq m1(4) ys] q in simp_all)
qed

lemma expire_loop_done:
  assumes "timer_module_rep {} m fr tfr tac qs idle" "t \<in> set tac" "qs t \<noteq> []" "ts_normal now"
  shows "\<exists>res. expire_loop (handler_acts act) now t (TimerLink (hd (qs t))) m w = Some res
    \<and> round_done act now t m (qs t) w res"
  using assms
proof (induction "shots_left (mt_timer m) now (qs t)" arbitrary: m qs idle w rule: less_induct)
  case less
  then obtain i q where q: "qs t = i # q" by (cases "qs t") auto
  note r = less.prems(1)
  have ok: "timers_ok m fr tfr tac qs idle" using r by (simp add: timer_module_rep_def)
  show ?case
  proof (cases "expiry_ns (mt_timer m) i \<le> ts_ns now")
    case False
    have n: "ts_normal (tn_expiry (mt_timer m i))" using ok less.prems(2) q by (auto simp: timers_ok_def)
    have "timespec_compare now (tn_expiry (mt_timer m i)) < 0"
      using timespec_compare_sound[OF less.prems(4) n] False by (simp add: expiry_ns_def sgn_if)
    then have l: "expire_loop (handler_acts act) now t (TimerLink (hd (qs t))) m w = Some (Some i, m, w)"
      using q by (subst expire_loop.simps) simp
    have "sorted (map (expiry_ns (mt_timer m)) (qs t))" using ok less.prems(2) by (simp add: timers_ok_def)
    then have later: "\<forall>j \<in> set (qs t). ts_ns now < expiry_ns (mt_timer m) j" using False q by auto
    then have "fired_ok (mt_timer m) now (qs t) []" by (auto simp: fired_ok_def)
    then have "round_done act now t m (qs t) w (Some i, m, w)"
      unfolding round_done_def using r less.prems(2) later q
      by (intro exI[of _ m] exI[of _ fr] exI[of _ tfr] exI[of _ tac] exI[of _ qs] exI[of _ idle] exI[of _ "[]"])
        (simp add: fire_all_def)
    then show ?thesis using l by blast
  next
    case True
    let ?w = "act (tn_event (mt_timer m i)) w"
    from expire_loop_step[OF r less.prems(2) q less.prems(4) True, of act w]
    obtain m2 qs2 idle2 where s: "timer_module_rep {} m2 fr tfr tac qs2 idle2"
      "expire_loop (handler_acts act) now t (TimerLink i) m w =
         (if qs2 t = [] then Some (None, m2, ?w)
          else expire_loop (handler_acts act) now t (TimerLink (hd (qs2 t))) m2 ?w)"
      "shots_left (mt_timer m2) now (qs2 t) < shots_left (mt_timer m) now (qs t)"
      "\<forall>j. tn_event (mt_timer m2 j) = tn_event (mt_timer m j)"
      "\<forall>fired. fired_ok (mt_timer m2) now (qs2 t) fired \<longrightarrow> fired_ok (mt_timer m) now (qs t) (i # fired)" .
    have fire: "fire_all act (mt_timer m) (i # fired) w = fire_all act (mt_timer m2) fired ?w" for fired
      using s(4) by (simp add: fire_all_def)
    show ?thesis
    proof (cases "qs2 t = []")
      case True
      then have "fired_ok (mt_timer m2) now (qs2 t) []" by (simp add: fired_ok_def)
      with s(5) have "fired_ok (mt_timer m) now (qs t) [i]" by blast
      then have "round_done act now t m (qs t) w (None, m2, ?w)"
        unfolding round_done_def using s(1) less.prems(2) True fire[of "[]"]
        by (intro exI[of _ m2] exI[of _ fr] exI[of _ tfr] exI[of _ tac] exI[of _ qs2] exI[of _ idle2] exI[of _ "[i]"])
          (simp add: fire_all_def)
      then show ?thesis using s(2) True q by simp
    next
      case False
      from less.hyps[OF s(3,1) less.prems(2) False less.prems(4), of ?w] obtain res where
        res: "expire_loop (handler_acts act) now t (TimerLink (hd (qs2 t))) m2 ?w = Some res"
        "round_done act now t m2 (qs2 t) ?w res" by blast
      obtain m' fr' tfr' tac' qs' idle' fired where
        d: "res = ((if qs' t = [] then None else Some (hd (qs' t))), m', fire_all act (mt_timer m2) fired ?w)"
        "timer_module_rep {} m' fr' tfr' tac' qs' idle'" "t \<in> set tac'"
        "\<forall>i \<in> set (qs' t). ts_ns now < expiry_ns (mt_timer m') i"
        "fired_ok (mt_timer m2) now (qs2 t) fired"
        using res(2) unfolding round_done_def by blast
      have "round_done act now t m (qs t) w res"
        unfolding round_done_def using d s(5) fire[of fired]
        by (intro exI[of _ m'] exI[of _ fr'] exI[of _ tfr'] exI[of _ tac'] exI[of _ qs'] exI[of _ idle'] exI[of _ "i # fired"])
          simp
      then show ?thesis using s(2) False res(1) q by simp
    qed
  qed
qed

section \<open>The interface refines the timers of the other theories\<close>

lemma timer_set_period:
  fixes oneshot stopped :: bool
  assumes r: "timer_module_rep {i} m fr tfr tac qs idle" and i: "i < TIMER_MAX" "i \<notin> set fr"
    and ms: "0 < ms" and now: "ts_normal now"
  defines "val \<equiv> (if stopped then zero_timespec else ms2ts ms)"
  defines "itv \<equiv> (if oneshot then zero_timespec else val)"
  obtains m' where
    "timer_settime_in False now i val itv (upd_timer i (\<lambda>t. t\<lparr>tm_oneshot := oneshot, tm_millisec := ms\<rparr>) m) = Some (0, m')"
    "timer_module_inv m'" "osal_timer_create ms oneshot stopped = Some (os_timer.truncate (mt_timer m' i))"
proof -
  let ?m = "upd_timer i (\<lambda>t. t\<lparr>tm_oneshot := oneshot, tm_millisec := ms\<rparr>) m"
  have "timers_ok ?m fr tfr tac qs idle"
    using r by (intro timers_ok_upd_timer) (simp_all add: timer_module_rep_def)
  then have r2: "timer_module_rep {i} ?m fr tfr tac qs idle"
    using r i by (auto simp: timer_module_rep_def timer_bound_def)
  have "timer_bound tac (mt_timer m i)" using r i by (auto simp: timer_module_rep_def)
  then have v: "tm_inuse (mt_timer ?m i) = TIMER_INUSE" "0 < tm_millisec (mt_timer ?m i)"
    using ms by (simp_all add: timer_bound_def)
  have t: "ts_normal val" "ts_normal itv" "0 \<le> ts_ns itv"
    using ms2ts_ok[OF ms] by (simp_all add: val_def itv_def)
  from timer_settime_spec[OF r2 i(1) v now t] obtain m' qs' idle' where
    m': "timer_settime_in False now i val itv ?m = Some (0, m')"
    "timer_module_rep ({i} - {i}) m' fr tfr tac qs' idle'"
    "mt_timer m' = (mt_timer ?m)(i := mt_timer m' i)"
    "os_timer.truncate (mt_timer m' i) = os_timer.truncate ((mt_timer ?m i)\<lparr>tm_value := val, tm_interval := itv,
        tm_armed := (tv_sec val \<noteq> 0 \<or> tv_nsec val \<noteq> 0)\<rparr>)" "mt_thread m' = mt_thread ?m" .
  have "timer_module_inv m'" using m'(2) by (simp only: Diff_cancel) (rule rep_inv)
  moreover have "osal_timer_create ms oneshot stopped = Some (os_timer.truncate (mt_timer m' i))"
    unfolding m'(4) using v(1) ms t
    by (simp add: osal_timer_create_def timer_settime_def timer_valid_def os_timer.truncate_def
        ts_normal_def val_def itv_def Let_def zero_timespec_def)
  ultimately show ?thesis using that m'(1) by blast
qed

text \<open>What a call of \<open>os_timer_add\<close> gives: the timer \<open>osal_timer_create\<close> describes, or nothing. It never
  gives one for a period that is not positive or without a handler.\<close>

definition add_result ::
    "int \<Rightarrow> u32 \<Rightarrow> 'h option \<Rightarrow> nat option \<times> 'h timer_module \<Rightarrow> bool" where
  "add_result ms flag h res \<longleftrightarrow> timer_module_inv (snd res) \<and>
     (case fst res of None \<Rightarrow> True
      | Some i \<Rightarrow> i < TIMER_MAX \<and> h \<noteq> None \<and>
          osal_timer_create ms (has_flag flag TIMER_ONESHOT) (has_flag flag TIMER_STOPPED) =
            Some (os_timer.truncate (mt_timer (snd res) i)))"

definition out_of_nodes :: "'h timer_module \<Rightarrow> bool" where
  "out_of_nodes m \<longleftrightarrow> list_empty TimerFree (mt_links m) \<or> list_empty ThreadFree (mt_links m)"

lemma out_of_nodes_rep:
  assumes "timer_module_rep X m fr tfr tac qs idle"
  shows "out_of_nodes m \<longleftrightarrow> fr = [] \<or> tfr = []"
proof -
  have "links_ok (mt_links m) fr tfr tac qs idle" using assms by (simp add: timer_module_rep_def timers_ok_def)
  note d = links_dll(1,2)[OF this]
  show ?thesis using list_empty_dll[OF d(1)] list_empty_dll[OF d(2)] by (simp add: out_of_nodes_def)
qed

lemma os_timer_add_spec:
  assumes inv: "timer_module_inv m" and now: "ts_normal now" and abs: "\<not> has_flag flag TIMER_ABSTIME"
  obtains res where "os_timer_add spawn now prio ms flag h m = Some res" "add_result ms flag h res"
    "fst res = None \<longrightarrow> ms \<le> 0 \<or> h = None \<or> \<not> spawn \<or> out_of_nodes m"
proof (cases "ms \<le> 0 \<or> h = None")
  case True
  show ?thesis by (rule that[of "(None, m)"]) (use True inv in \<open>auto simp: os_timer_add_def add_result_def\<close>)
next
  case False
  obtain fr tfr tac qs idle where r: "timer_module_rep {} m fr tfr tac qs idle"
    using inv unfolding timer_module_inv_def by blast
  let ?c = "timer_create spawn CLOCK_MONOTONIC h \<lparr>at_policy = SCHED_RR, at_priority = prio\<rparr> m"
  note result = that
  have none: ?thesis if "?c = Some (None, m')" "timer_module_inv m'" "\<not> spawn \<or> fr = [] \<or> tfr = []" for m'
    by (rule result[of "(None, m')"]) (use False that out_of_nodes_rep[OF r] in \<open>auto simp: os_timer_add_def add_result_def\<close>)
  show ?thesis
  proof (cases fr)
    case Nil
    show ?thesis by (rule none[OF timer_create_none[OF r[unfolded Nil]] inv]) (simp add: Nil)
  next
    case (Cons i fr')
    show ?thesis
    proof (rule timer_create_some[OF r[unfolded Cons], of spawn CLOCK_MONOTONIC h "\<lparr>at_policy = SCHED_RR, at_priority = prio\<rparr>"])
      fix m' assume n: "?c = Some (None, m')" "timer_module_inv m'" "\<not> spawn \<or> tfr = []"
      show ?thesis by (rule none[OF n(1,2)]) (use n(3) in blast)
    next
      fix m1 fr1 tfr1 tac1 qs1 idle1
      assume c: "?c = Some (Some i, m1)" and r1: "timer_module_rep {i} m1 fr1 tfr1 tac1 qs1 idle1"
        and i: "i < TIMER_MAX" "i \<notin> set fr1" and "mt_timer m1 = (mt_timer m)(i := mt_timer m1 i)"
      have u: "tm_inuse (mt_timer m1 i) = TIMER_INUSE"
        using r1 i by (auto simp: timer_module_rep_def timer_bound_def)
      have ms: "0 < ms" using False by simp
      obtain m2 where m2: "timer_settime_in False now i (if has_flag flag TIMER_STOPPED then zero_timespec else ms2ts ms)
          (if has_flag flag TIMER_ONESHOT then zero_timespec
           else if has_flag flag TIMER_STOPPED then zero_timespec else ms2ts ms)
          (upd_timer i (\<lambda>t. t\<lparr>tm_oneshot := has_flag flag TIMER_ONESHOT, tm_millisec := ms\<rparr>) m1) = Some (0, m2)"
        "timer_module_inv m2" "osal_timer_create ms (has_flag flag TIMER_ONESHOT) (has_flag flag TIMER_STOPPED) =
           Some (os_timer.truncate (mt_timer m2 i))"
        by (rule timer_set_period[OF r1 i ms now])
      show ?thesis
        by (rule result[of "(Some i, m2)"])
          (use False c u abs m2 i in \<open>simp_all add: os_timer_add_def add_result_def Let_def\<close>)
    qed
  qed
qed

section \<open>Everything that can happen to the module\<close>

definition active_thread :: "'h timer_module \<Rightarrow> nat \<Rightarrow> bool" where
  "active_thread m t \<longleftrightarrow>
     (case list_entries (mt_links m) ThreadActive of None \<Rightarrow> False | Some ts \<Rightarrow> ThreadLink t \<in> set ts)"

text \<open>One critical section of the mutex. The handler of a timer runs between \<open>fire\<close> and \<open>fired\<close>, so that
  what it and the other threads do in the meantime are steps of this relation too.\<close>

inductive timer_step :: "'h timer_module \<Rightarrow> 'h timer_module \<Rightarrow> bool" where
  add: "os_timer_add spawn now prio ms flag h m = Some (r, m') \<Longrightarrow> ts_normal now \<Longrightarrow>
    \<not> has_flag flag TIMER_ABSTIME \<Longrightarrow> timer_step m m'"
| del: "os_timer_del self i m = Some (r, m') \<Longrightarrow> i < TIMER_MAX \<Longrightarrow> timer_step m m'"
| start: "os_timer_start_in now i m = Some (r, m') \<Longrightarrow> ts_normal now \<Longrightarrow> i < TIMER_MAX \<Longrightarrow> timer_step m m'"
| stop: "os_timer_stop_in now i m = Some (r, m') \<Longrightarrow> ts_normal now \<Longrightarrow> i < TIMER_MAX \<Longrightarrow> timer_step m m'"
| settime: "os_timer_settime_in i ms m = (r, m') \<Longrightarrow> i < TIMER_MAX \<Longrightarrow> timer_step m m'"
| fire: "active_thread m t \<Longrightarrow> lnext (mt_links m) (TimerQueue t) = TimerLink i \<Longrightarrow> ts_normal now \<Longrightarrow>
    \<not> timespec_compare now (tn_expiry (mt_timer m i)) < 0 \<Longrightarrow> expire_one now t i m = Some m' \<Longrightarrow>
    timer_step m (upd_thread t (\<lambda>th. th\<lparr>th_current := Some i\<rparr>) m')"
| fired: "timer_step m (upd_thread t (\<lambda>th. th\<lparr>th_current := None\<rparr>) m)"

definition static_memory :: "'h timer_module \<Rightarrow> bool" where
  "static_memory m \<longleftrightarrow> (\<forall>i. tn_refcount (mt_timer m i) = 0)"

inductive timer_reachable :: "'h timer_module \<Rightarrow> bool" where
  init: "static_memory m \<Longrightarrow> timer_reachable (init_module m)"
| step: "timer_reachable m \<Longrightarrow> timer_step m m' \<Longrightarrow> timer_reachable m'"

lemma active_thread_rep:
  assumes "timer_module_rep X m fr tfr tac qs idle"
  shows "active_thread m t \<longleftrightarrow> t \<in> set tac"
proof -
  have "dll (mt_links m) ThreadActive (map ThreadLink tac)"
    using assms links_dll(3) unfolding timer_module_rep_def timers_ok_def by blast
  then show ?thesis by (auto simp: active_thread_def list_entries_dll)
qed

text \<open>The three loops of \<open>init_module\<close>.\<close>

lemma links_ok_grow:
  assumes "links_ok h fr tfr [] qs {}"
  shows "i \<notin> set fr \<Longrightarrow> links_ok (list_append TimerFree (TimerLink i) h) (fr @ [i]) tfr [] qs {}"
    "t \<notin> set tfr \<Longrightarrow> links_ok (list_append ThreadFree (ThreadLink t) h) fr (tfr @ [t]) [] qs {}"
proof -
  let ?L = "timer_lists fr tfr [] qs"
  note ok = assms[unfolded links_ok_def]
  have "?L(TimerFree := ?L TimerFree @ [TimerLink i]) = timer_lists (fr @ [i]) tfr [] qs"
  proof
    fix a show "(?L(TimerFree := ?L TimerFree @ [TimerLink i])) a = timer_lists (fr @ [i]) tfr [] qs a"
      by (cases a) simp_all
  qed
  then show "i \<notin> set fr \<Longrightarrow> links_ok (list_append TimerFree (TimerLink i) h) (fr @ [i]) tfr [] qs {}"
    using lists_ok_append[OF ok, of TimerFree "TimerLink i"]
    by (simp add: links_ok_def owned_timer timer_cells_def)
  have "?L(ThreadFree := ?L ThreadFree @ [ThreadLink t]) = timer_lists fr (tfr @ [t]) [] qs"
  proof
    fix a show "(?L(ThreadFree := ?L ThreadFree @ [ThreadLink t])) a = timer_lists fr (tfr @ [t]) [] qs a"
      by (cases a) simp_all
  qed
  then show "t \<notin> set tfr \<Longrightarrow> links_ok (list_append ThreadFree (ThreadLink t) h) fr (tfr @ [t]) [] qs {}"
    using lists_ok_append[OF ok, of ThreadFree "ThreadLink t"]
    by (simp add: links_ok_def owned_thread)
qed

lemma const_upd [simp]: "(\<lambda>a. c)(x := c) = (\<lambda>a. c)"
  by auto

lemma links_ok_three_heads:
  "links_ok (INIT_LIST_HEAD ThreadActive (INIT_LIST_HEAD ThreadFree (INIT_LIST_HEAD TimerFree h))) [] [] [] qs {}"
proof -
  have 0: "lists_ok h {} (\<lambda>a. [])" by (simp add: lists_ok_def)
  have 1: "lists_ok (INIT_LIST_HEAD TimerFree h) {TimerFree} (\<lambda>a. [])"
    using lists_ok_init[OF 0, of TimerFree] by (simp add: owned_def)
  have 2: "lists_ok (INIT_LIST_HEAD ThreadFree (INIT_LIST_HEAD TimerFree h)) {ThreadFree, TimerFree} (\<lambda>a. [])"
    using lists_ok_init[OF 1, of ThreadFree] by (simp add: owned_def)
  have "lists_ok (INIT_LIST_HEAD ThreadActive (INIT_LIST_HEAD ThreadFree (INIT_LIST_HEAD TimerFree h)))
      {ThreadActive, ThreadFree, TimerFree} (\<lambda>a. [])"
    using lists_ok_init[OF 2, of ThreadActive] by (simp add: owned_def)
  moreover have "{ThreadActive, ThreadFree, TimerFree} = timer_heads [] {}" by (auto simp: timer_heads_def)
  ultimately have "lists_ok (INIT_LIST_HEAD ThreadActive (INIT_LIST_HEAD ThreadFree (INIT_LIST_HEAD TimerFree h)))
      (timer_heads [] {}) (\<lambda>a. [])" by (simp only:)
  then show ?thesis
    unfolding links_ok_def by (rule lists_ok_cong) (auto simp: timer_heads_def)
qed

definition slots_ready :: "nat list \<Rightarrow> (nat \<Rightarrow> nat list) \<Rightarrow> nat \<Rightarrow> 'h timer_module \<Rightarrow> bool" where
  "slots_ready tfr qs k m \<longleftrightarrow> links_ok (mt_links m) [0..<k] tfr [] qs {}
     \<and> (\<forall>i < k. timer_free_ok (mt_timer m i)) \<and> static_memory m"

lemma init_slot: "slots_ready tfr qs k m \<Longrightarrow> slots_ready tfr qs (Suc k) (init_timer_slot m k)"
  using links_ok_grow(1)[of "mt_links m" "[0..<k]" tfr qs k]
  by (auto simp: slots_ready_def init_timer_slot_def timer_free_ok_def static_memory_def less_Suc_eq)

lemma init_timer_slots:
  "slots_ready tfr qs 0 m \<Longrightarrow> slots_ready tfr qs k (foldl init_timer_slot m [0..<k])"
  by (induction k) (simp_all add: init_slot)

lemma init_threads:
  fixes k :: nat
  assumes "links_ok (mt_links m) fr [] [] qs {}"
  defines "m' \<equiv> foldl (\<lambda>m i. upd_links (list_append ThreadFree (ThreadLink i)) m) m [0..<k]"
  shows "links_ok (mt_links m') fr [0..<k] [] qs {} \<and> mt_timer m' = mt_timer m"
  unfolding m'_def
proof (induction k)
  case (Suc k)
  then show ?case using links_ok_grow(2)[of _ fr "[0..<k]" qs k] by simp
qed (use assms in simp)

lemma init_module_rep:
  assumes "static_memory m"
  shows "timer_module_rep {} (init_module m) [0..<TIMER_MAX] [0..<THREAD_MAXNODES] [] (\<lambda>t. []) {}"
proof -
  let ?m1 = "upd_links (INIT_LIST_HEAD ThreadActive) (upd_links (INIT_LIST_HEAD ThreadFree) (upd_links (INIT_LIST_HEAD TimerFree) m))"
  let ?m2 = "foldl init_timer_slot ?m1 [0..<TIMER_MAX]"
  let ?m3 = "foldl (\<lambda>m i. upd_links (list_append ThreadFree (ThreadLink i)) m) ?m2 [0..<THREAD_MAXNODES]"
  have "slots_ready [] (\<lambda>t. []) 0 ?m1"
    using assms links_ok_three_heads by (simp add: slots_ready_def static_memory_def)
  from init_timer_slots[OF this, of TIMER_MAX]
  have 2: "links_ok (mt_links ?m2) [0..<TIMER_MAX] [] [] (\<lambda>t. []) {}" "\<forall>i < TIMER_MAX. timer_free_ok (mt_timer ?m2 i)"
    unfolding slots_ready_def by blast+
  note 3 = init_threads[OF 2(1), of THREAD_MAXNODES]
  have "lists_ok (INIT_LIST_HEAD (TimerQueue THREAD_MAXNODES) (mt_links ?m3))
      (insert (TimerQueue THREAD_MAXNODES) (timer_heads [] {}))
      ((timer_lists [0..<TIMER_MAX] [0..<THREAD_MAXNODES] [] (\<lambda>t. []))(TimerQueue THREAD_MAXNODES := []))"
    using lists_ok_init[OF conjunct1[OF 3, unfolded links_ok_def], of "TimerQueue THREAD_MAXNODES"]
    by (simp add: owned_queue)
  then have "links_ok (INIT_LIST_HEAD (TimerQueue THREAD_MAXNODES) (mt_links ?m3))
      [0..<TIMER_MAX] [0..<THREAD_MAXNODES] [] (\<lambda>t. []) {}"
    unfolding links_ok_def
    by (rule lists_ok_cong[OF lists_ok_subset]) (auto simp: timer_heads_def)
  moreover have "\<forall>i < TIMER_MAX. timer_free_ok (mt_timer ?m3 i)" using 2(2) conjunct2[OF 3] by (simp only:)
  moreover have "mt_links (init_module m) = INIT_LIST_HEAD (TimerQueue THREAD_MAXNODES) (mt_links ?m3)"
    "mt_timer (init_module m) = mt_timer ?m3"
    by (simp_all only: init_module_def thread_init_def Let_def upd_sel)
  ultimately show ?thesis
    by (simp add: timer_module_rep_def timers_ok_def timer_cells_def atLeast0LessThan)
qed

lemma start_spec:
  assumes inv: "timer_module_inv m" and i: "i < TIMER_MAX" and now: "ts_normal now"
  shows "\<exists>m'. os_timer_start_in now i m = Some (fst (os_timer_start (os_timer.truncate (mt_timer m i))), m')
    \<and> os_timer.truncate (mt_timer m' i) = snd (os_timer_start (os_timer.truncate (mt_timer m i)))
    \<and> timer_module_inv m' \<and> mt_timer m' = (mt_timer m)(i := mt_timer m' i)"
proof (cases "tm_inuse (mt_timer m i) = TIMER_INUSE")
  case True
  let ?val = "ms2ts (tm_millisec (mt_timer m i))"
  let ?itv = "if tm_oneshot (mt_timer m i) then zero_timespec else ?val"
  note ms = inv_millisec[OF inv i True]
  have t: "ts_normal ?val" "ts_normal ?itv" "0 \<le> ts_ns ?itv" using ms2ts_ok[OF ms] by simp_all
  from timer_settime_inv[OF inv i ms now t] obtain m' where
    m': "timer_settime_in False now i ?val ?itv m =
       Some (fst (timer_settime ?val ?itv (os_timer.truncate (mt_timer m i))), m')"
    "os_timer.truncate (mt_timer m' i) = snd (timer_settime ?val ?itv (os_timer.truncate (mt_timer m i)))"
    "timer_module_inv m'" "mt_timer m' = (mt_timer m)(i := mt_timer m' i)" "mt_thread m' = mt_thread m" .
  have "os_timer_start (os_timer.truncate (mt_timer m i)) = timer_settime ?val ?itv (os_timer.truncate (mt_timer m i))"
    using True by (simp add: os_timer_start_def timer_valid_def os_timer.truncate_def Let_def)
  moreover have "os_timer_start_in now i m = timer_settime_in False now i ?val ?itv m"
    using True by (simp add: os_timer_start_in_def Let_def)
  ultimately show ?thesis using m' by (intro exI[of _ m']) simp
next
  case False
  then show ?thesis
    using inv by (intro exI[of _ m]) (simp add: os_timer_start_in_def os_timer_start_def timer_valid_def os_timer.truncate_def)
qed

lemma stop_spec:
  assumes inv: "timer_module_inv m" and i: "i < TIMER_MAX" and now: "ts_normal now"
  shows "\<exists>m'. os_timer_stop_in now i m = Some (fst (os_timer_stop (os_timer.truncate (mt_timer m i))), m')
    \<and> os_timer.truncate (mt_timer m' i) = snd (os_timer_stop (os_timer.truncate (mt_timer m i)))
    \<and> timer_module_inv m' \<and> mt_timer m' = (mt_timer m)(i := mt_timer m' i)"
proof -
  have t: "ts_normal zero_timespec" "ts_normal zero_timespec" "0 \<le> ts_ns zero_timespec" by simp_all
  from timer_settime_inv[OF inv i inv_millisec[OF inv i] now t] obtain m' where
    m': "timer_settime_in False now i zero_timespec zero_timespec m =
       Some (fst (timer_settime zero_timespec zero_timespec (os_timer.truncate (mt_timer m i))), m')"
    "os_timer.truncate (mt_timer m' i) = snd (timer_settime zero_timespec zero_timespec (os_timer.truncate (mt_timer m i)))"
    "timer_module_inv m'" "mt_timer m' = (mt_timer m)(i := mt_timer m' i)" "mt_thread m' = mt_thread m" .
  then show ?thesis by (intro exI[of _ m']) (simp add: os_timer_stop_in_def os_timer_stop_def)
qed

lemma settime_spec:
  assumes inv: "timer_module_inv m" and i: "i < TIMER_MAX"
  shows "\<exists>m'. os_timer_settime_in i ms m = (fst (os_timer_settime ms (os_timer.truncate (mt_timer m i))), m')
    \<and> os_timer.truncate (mt_timer m' i) = snd (os_timer_settime ms (os_timer.truncate (mt_timer m i)))
    \<and> timer_module_inv m' \<and> mt_timer m' = (mt_timer m)(i := mt_timer m' i)"
proof (cases "0 < ms \<and> tm_inuse (mt_timer m i) = TIMER_INUSE")
  case True
  obtain fr tfr tac qs idle where r: "timer_module_rep {} m fr tfr tac qs idle"
    using inv unfolding timer_module_inv_def by blast
  let ?m = "upd_timer i (\<lambda>t. t\<lparr>tm_millisec := ms\<rparr>) m"
  have "timers_ok ?m fr tfr tac qs idle"
    using r by (intro timers_ok_upd_timer) (simp_all add: timer_module_rep_def)
  then have "timer_module_rep {} ?m fr tfr tac qs idle"
    using r True by (auto simp: timer_module_rep_def timer_bound_def timer_set_ok_def timer_free_ok_def)
  then have "timer_module_inv ?m" by (rule rep_inv)
  then show ?thesis
    using True by (intro exI[of _ ?m])
      (simp add: os_timer_settime_in_def os_timer_settime_def timer_valid_def os_timer.truncate_def)
next
  case False
  then show ?thesis
    using inv by (intro exI[of _ m])
      (auto simp: os_timer_settime_in_def os_timer_settime_def timer_valid_def os_timer.truncate_def)
qed

lemma del_spec:
  assumes inv: "timer_module_inv m" and i: "i < TIMER_MAX" and w: "\<not> delete_waits self i m"
  shows "\<exists>r m'. os_timer_del self i m = Some (r, m') \<and> timer_module_inv m'
    \<and> osal_status_of r = fst (osal_timer_delete (os_timer.truncate (mt_timer m i)))
    \<and> tm_inuse (mt_timer m' i) \<noteq> TIMER_INUSE \<and> (\<forall>j. j \<noteq> i \<longrightarrow> mt_timer m' j = mt_timer m j)"
proof -
  obtain fr tfr tac qs idle where r: "timer_module_rep {} m fr tfr tac qs idle"
    using inv unfolding timer_module_inv_def by blast
  from timer_delete_spec[OF r i w] obtain ret m' where
    m': "timer_delete self i m = Some (ret, m')" "timer_module_inv m'"
    "ret = (if tm_inuse (mt_timer m i) = TIMER_INUSE then 0 else -1)"
    "ret = 0 \<longrightarrow> tm_inuse (mt_timer m' i) = TIMER_FREE"
    "mt_thread m' = mt_thread m" "\<forall>j. j \<noteq> i \<longrightarrow> mt_timer m' j = mt_timer m j" .
  have "tm_inuse (mt_timer m' i) \<noteq> TIMER_INUSE"
  proof (cases "tm_inuse (mt_timer m i) = TIMER_INUSE")
    case False
    then have "m' = m" using m'(1) by (simp add: timer_delete_def)
    then show ?thesis using False by simp
  qed (use m'(3,4) in simp)
  then show ?thesis
    using m' by (intro exI[of _ ret] exI[of _ m'])
      (simp add: os_timer_del_def osal_timer_delete_def timer_valid_def os_timer.truncate_def osal_status_of_def)
qed

section \<open>Properties\<close>

lemma timer_step_inv:
  assumes "timer_step m m'" "timer_module_inv m"
  shows "timer_module_inv m'"
  using assms
proof (induction rule: timer_step.induct)
  case (add spawn now prio ms flag h m r m')
  then obtain res where "os_timer_add spawn now prio ms flag h m = Some res" "add_result ms flag h res"
    using os_timer_add_spec by metis
  then show ?case using add(1) by (auto simp: add_result_def)
next
  case (del self i m r m')
  show ?case
  proof (cases "delete_waits self i m")
    case True
    then have "m' = m" using del(1) by (auto simp: os_timer_del_def timer_delete_def split: if_splits)
    then show ?thesis using del(3) by simp
  qed (use del_spec[OF del(3,2), of self] del(1) in auto)
next
  case (start now i m r m')
  then show ?case using start_spec[OF start(4,3,2)] by auto
next
  case (stop now i m r m')
  then show ?case using stop_spec[OF stop(4,3,2)] by auto
next
  case (settime i ms m r m')
  then show ?case using settime_spec[OF settime(3,2), of ms] by auto
next
  case (fire m t i now m')
  obtain fr tfr tac qs idle where r: "timer_module_rep {} m fr tfr tac qs idle"
    using fire(6) unfolding timer_module_inv_def by blast
  have t: "t \<in> set tac" using fire(1) active_thread_rep[OF r] by blast
  then obtain q where q: "qs t = i # q"
    using fire(2) queue_first[OF r t] by (cases "qs t") (auto split: if_splits)
  have "ts_normal (tn_expiry (mt_timer m i))"
    using r t q by (auto simp: timer_module_rep_def timers_ok_def)
  then have "expiry_ns (mt_timer m) i \<le> ts_ns now"
    using fire(4) timespec_compare_sound[OF fire(3)] by (simp add: expiry_ns_def sgn_if split: if_splits)
  from expire_one_spec[OF r t q fire(3) this] fire(5) obtain qs' idle' where
    "timer_module_rep {} m' fr tfr tac qs' idle'" by (metis option.inject)
  then have "timer_module_rep {} (upd_thread t (\<lambda>th. th\<lparr>th_current := Some i\<rparr>) m') fr tfr tac qs' idle'"
    by (rule rep_upd_thread) simp
  then show ?case by (rule rep_inv)
next
  case (fired m t)
  obtain fr tfr tac qs idle where r: "timer_module_rep {} m fr tfr tac qs idle"
    using fired unfolding timer_module_inv_def by blast
  show ?case by (rule rep_inv, rule rep_upd_thread[OF r]) simp
qed

lemma timer_reachable_inv: "timer_reachable m \<Longrightarrow> timer_module_inv m"
  by (induction rule: timer_reachable.induct) (blast intro: rep_inv init_module_rep timer_step_inv)+

lemma used_timer_active:
  assumes "timer_module_inv m" "i < TIMER_MAX" "tm_inuse (mt_timer m i) = TIMER_INUSE"
  obtains t where "tn_thread (mt_timer m i) = Some t" "active_thread m t"
proof -
  obtain fr tfr tac qs idle where r: "timer_module_rep {} m fr tfr tac qs idle"
    using assms(1) unfolding timer_module_inv_def by blast
  have "timer_bound tac (mt_timer m i)" by (rule rep_bound[OF r assms(2,3)])
  then show ?thesis using that active_thread_rep[OF r] by (auto simp: timer_bound_def)
qed

text \<open>The state of the module before anything has run: static memory.\<close>

definition static_module :: "'h timer_module" where
  "static_module =
     (let ts0 = zero_timespec; zero_attr = \<lparr>at_policy = 0, at_priority = 0\<rparr>
      in \<lparr>mt_links = \<lparr>lnext = (\<lambda>_. TimerFree), lprev = (\<lambda>_. TimerFree)\<rparr>,
          mt_timer = (\<lambda>_. \<lparr>tm_inuse = TIMER_FREE, tm_oneshot = False, tm_millisec = 0, tm_armed = False,
             tm_value = ts0, tm_interval = ts0, tn_event = None, tn_clock = CLOCK_REALTIME, tn_attr = zero_attr,
             tn_expiry = ts0, tn_thread = None, tn_refcount = 0, tn_overrun = 0\<rparr>),
          mt_thread = (\<lambda>_. \<lparr>th_attr = zero_attr, th_exists = False, th_current = None, th_clock = CLOCK_REALTIME\<rparr>)\<rparr>)"

lemma static_module_reachable: "timer_reachable (init_module static_module)"
  by (rule timer_reachable.init) (simp add: static_memory_def static_module_def Let_def)

lemma ts0_normal: "ts_normal \<lparr>tv_sec = 5, tv_nsec = 0\<rparr>"
  by (simp add: ts_normal_def)



text \<open>Queueing several timers, as several calls of \<open>__timer_settime\<close> do.\<close>

primrec queue_all :: "nat \<Rightarrow> nat list \<Rightarrow> 'h timer_module \<Rightarrow> 'h timer_module option" where
  "queue_all t [] m = Some m"
| "queue_all t (i # is) m = do { (athead, m) \<leftarrow> timer_thread_queue_timer t i m; queue_all t is m }"

lemma queue_all_enqueue:
  assumes "links_ok (mt_links m) fr tfr tac qs idle" "t \<in> set tac" "distinct is" "set is \<subseteq> idle"
  shows "\<exists>m'. queue_all t is m = Some m' \<and>
    dll (mt_links m') (TimerQueue t) (map TimerLink (foldl (\<lambda>q i. enqueue (mt_timer m) i q) (qs t) is))"
  using assms
proof (induction "is" arbitrary: m qs idle)
  case Nil
  then show ?case using links_dll(4) by auto
next
  case (Cons i js)
  have i: "i \<in> idle" using Cons.prems(4) by simp
  from queue_timer_spec[OF Cons.prems(1,2) i] obtain m1 where
    m1: "timer_thread_queue_timer t i m = Some (hd (enqueue (mt_timer m) i (qs t)) = i, m1)"
    "mt_timer m1 = mt_timer m" "mt_thread m1 = mt_thread m"
    "links_ok (mt_links m1) fr tfr tac (qs(t := enqueue (mt_timer m) i (qs t))) (idle - {i})" .
  have "distinct js" "set js \<subseteq> idle - {i}" using Cons.prems(3,4) by auto
  from Cons.IH[OF m1(4) Cons.prems(2) this] m1(1,2) show ?case by simp
qed

text \<open>C11. The search of \<open>__timer_thread_queue_timer\<close> for a place is a stable sort: timers queued one after
  another on an idle thread stand in its queue in the order of their expiry, and those with the same
  expiry in the order in which they were queued.\<close>

theorem timer_queue_sorts:
  assumes "links_ok (mt_links m) fr tfr tac qs idle" "t \<in> set tac" "qs t = []"
    and "distinct is" "set is \<subseteq> idle" "\<forall>i \<in> set is. ts_normal (tn_expiry (mt_timer m i))"
  shows "\<exists>m'. queue_all t is m = Some m' \<and> list_entries (mt_links m') (TimerQueue t) =
    Some (map TimerLink (sort_key (\<lambda>i. ts_ns (tn_expiry (mt_timer m i))) is))"
proof -
  have "foldl (\<lambda>q i. enqueue (mt_timer m) i q) [] is = sort_key (expiry_ns (mt_timer m)) is"
    by (rule enqueue_all_sort_key) (use assms(6) in \<open>simp add: expiries_ok_def\<close>)
  moreover have "expiry_ns (mt_timer m) = (\<lambda>i. ts_ns (tn_expiry (mt_timer m i)))"
    by (simp add: expiry_ns_def fun_eq_iff)
  ultimately show ?thesis
    using queue_all_enqueue[OF assms(1,2,4,5)] assms(3) list_entries_dll by fastforce
qed

text \<open>A thread with three timers at 2, 1 and 2 seconds.\<close>

definition three_timers :: "nat timer_module" where
  "three_timers = static_module\<lparr>
     mt_links := \<lparr>lnext = id(ThreadActive := ThreadLink 0, ThreadLink 0 := ThreadActive),
                  lprev = id(ThreadActive := ThreadLink 0, ThreadLink 0 := ThreadActive)\<rparr>,
     mt_timer := (\<lambda>i. (mt_timer static_module i)\<lparr>tn_expiry := \<lparr>tv_sec = (if i = 1 then 1 else 2), tv_nsec = 0\<rparr>\<rparr>)\<rparr>"

lemma three_timers_links: "links_ok (mt_links three_timers) [] [] [0] (\<lambda>t. []) {0, 1, 2}"
  unfolding links_ok_def lists_ok_def timer_heads_def
  by (auto simp: three_timers_def dll_def)

lemma timer_queue_sorts_witness:
  "\<exists>m'. queue_all 0 [0, 1, 2] three_timers = Some m' \<and>
    list_entries (mt_links m') (TimerQueue 0) = Some [TimerLink 1, TimerLink 0, TimerLink 2]"
  using timer_queue_sorts[OF three_timers_links, of 0 "[0, 1, 2]"]
  by (auto simp: three_timers_def ts_normal_def ts_ns_def)



text \<open>\<open>os_timer_add\<close> gives the timer \<open>osal_timer_create\<close> describes: in use, with its period, armed unless
  it was asked to be stopped. It gives none only for a period that is not positive, a missing handler,
  a thread that cannot be created, or when all timers or threads are taken.\<close>

theorem timer_add_refines:
  assumes "timer_reachable m" "ts_normal now" "\<not> has_flag flag TIMER_ABSTIME"
  shows "\<exists>r m'. os_timer_add spawn now prio ms flag h m = Some (r, m') \<and> timer_module_inv m' \<and>
    (case r of
       Some i \<Rightarrow> h \<noteq> None \<and> osal_timer_create ms (has_flag flag TIMER_ONESHOT) (has_flag flag TIMER_STOPPED)
           = Some (os_timer.truncate (mt_timer m' i))
     | None \<Rightarrow> ms \<le> 0 \<or> h = None \<or> \<not> spawn \<or> out_of_nodes m)"
proof -
  obtain res where res: "os_timer_add spawn now prio ms flag h m = Some res" "add_result ms flag h res"
    "fst res = None \<longrightarrow> ms \<le> 0 \<or> h = None \<or> \<not> spawn \<or> out_of_nodes m"
    by (rule os_timer_add_spec[OF timer_reachable_inv[OF assms(1)] assms(2,3)])
  show ?thesis
    by (rule exI[of _ "fst res"], rule exI[of _ "snd res"])
      (use res in \<open>auto simp: add_result_def split: option.splits\<close>)
qed

lemma timer_add_refines_witness:
  "\<exists>r m'. os_timer_add True \<lparr>tv_sec = 5, tv_nsec = 0\<rparr> 60 100 TIMER_STOPPED (Some (1 :: nat))
    (init_module static_module) = Some (r, m') \<and> timer_module_inv m'"
  using timer_add_refines[OF static_module_reachable ts0_normal, of TIMER_STOPPED True 60 100 "Some (1 :: nat)"]
  by (fastforce simp: has_flag_def timer_flags)

text \<open>C12. The other calls of \<open>os_timer.h\<close> do to a timer of the module what the operations on a single timer
  say which the tasks are verified with, with the same status, and they leave every other timer as it
  was; a timer that is deleted is no longer valid.\<close>

theorem timer_calls_refine:
  assumes "timer_reachable m" "ts_normal now" "i < TIMER_MAX"
  shows "\<exists>m1 m2 m3.
    os_timer_start_in now i m = Some (fst (os_timer_start (os_timer.truncate (mt_timer m i))), m1)
    \<and> os_timer.truncate (mt_timer m1 i) = snd (os_timer_start (os_timer.truncate (mt_timer m i)))
    \<and> os_timer_stop_in now i m = Some (fst (os_timer_stop (os_timer.truncate (mt_timer m i))), m2)
    \<and> os_timer.truncate (mt_timer m2 i) = snd (os_timer_stop (os_timer.truncate (mt_timer m i)))
    \<and> os_timer_settime_in i ms m = (fst (os_timer_settime ms (os_timer.truncate (mt_timer m i))), m3)
    \<and> os_timer.truncate (mt_timer m3 i) = snd (os_timer_settime ms (os_timer.truncate (mt_timer m i)))
    \<and> (\<forall>j. j \<noteq> i \<longrightarrow> mt_timer m1 j = mt_timer m j \<and> mt_timer m2 j = mt_timer m j \<and> mt_timer m3 j = mt_timer m j)
    \<and> (\<not> delete_waits self i m \<longrightarrow> (\<exists>r m4. os_timer_del self i m = Some (r, m4)
        \<and> osal_status_of r = fst (osal_timer_delete (os_timer.truncate (mt_timer m i)))
        \<and> tm_inuse (mt_timer m4 i) \<noteq> TIMER_INUSE \<and> (\<forall>j. j \<noteq> i \<longrightarrow> mt_timer m4 j = mt_timer m j)))"
proof -
  note inv = timer_reachable_inv[OF assms(1)]
  have other: "mt_timer m' j = mt_timer m j" if "mt_timer m' = (mt_timer m)(i := mt_timer m' i)" "j \<noteq> i" for m' j
    using that by (metis fun_upd_other)
  obtain m1 where 1: "os_timer_start_in now i m = Some (fst (os_timer_start (os_timer.truncate (mt_timer m i))), m1)"
    "os_timer.truncate (mt_timer m1 i) = snd (os_timer_start (os_timer.truncate (mt_timer m i)))"
    "mt_timer m1 = (mt_timer m)(i := mt_timer m1 i)"
    using start_spec[OF inv assms(3,2)] by blast
  obtain m2 where 2: "os_timer_stop_in now i m = Some (fst (os_timer_stop (os_timer.truncate (mt_timer m i))), m2)"
    "os_timer.truncate (mt_timer m2 i) = snd (os_timer_stop (os_timer.truncate (mt_timer m i)))"
    "mt_timer m2 = (mt_timer m)(i := mt_timer m2 i)"
    using stop_spec[OF inv assms(3,2)] by blast
  obtain m3 where 3: "os_timer_settime_in i ms m = (fst (os_timer_settime ms (os_timer.truncate (mt_timer m i))), m3)"
    "os_timer.truncate (mt_timer m3 i) = snd (os_timer_settime ms (os_timer.truncate (mt_timer m i)))"
    "mt_timer m3 = (mt_timer m)(i := mt_timer m3 i)"
    using settime_spec[OF inv assms(3), of ms] by blast
  have 4: "\<not> delete_waits self i m \<longrightarrow> (\<exists>r m4. os_timer_del self i m = Some (r, m4)
        \<and> osal_status_of r = fst (osal_timer_delete (os_timer.truncate (mt_timer m i)))
        \<and> tm_inuse (mt_timer m4 i) \<noteq> TIMER_INUSE \<and> (\<forall>j. j \<noteq> i \<longrightarrow> mt_timer m4 j = mt_timer m j))"
    using del_spec[OF inv assms(3), of self] by blast
  show ?thesis
    by (rule exI[of _ m1], rule exI[of _ m2], rule exI[of _ m3])
      (intro conjI allI impI 1 2 3 4 other)
qed

lemma timer_calls_refine_witness:
  "\<exists>m1. os_timer_start_in \<lparr>tv_sec = 5, tv_nsec = 0\<rparr> 7 (init_module static_module :: nat timer_module) = Some (-1, m1)"
proof -
  have rep: "timer_module_rep {} (init_module static_module :: nat timer_module) [0..<TIMER_MAX] [0..<THREAD_MAXNODES] [] (\<lambda>t. []) {}"
    by (rule init_module_rep) (simp add: static_memory_def static_module_def Let_def)
  have "tm_inuse (mt_timer (init_module static_module :: nat timer_module) 7) \<noteq> TIMER_INUSE"
    using rep_free[OF rep, of 7] by (simp add: TIMER_MAX_def)
  then show ?thesis
    using timer_calls_refine[OF static_module_reachable ts0_normal, where i = 7 and ms = 10 and self = None and ?'a = nat]
    by (auto simp: TIMER_MAX_def os_timer_start_def timer_valid_def os_timer.truncate_def)
qed

end
