(* ===== verification/Oam.thy ===== *)
theory Oam
  imports VamApi Wnet
begin

text \<open>
  The management interface, \<open>app/oam\<close>: the command shell is a client that sends requests over a local
  socket (\<open>oam_ext_sdk.c\<close>, \<open>oam_ext_main.c\<close>), the program is the server that runs their handlers and
  answers (\<open>oam_int_main.c\<close>, \<open>oam_int_sdk.c\<close>), and both convert the data of a request with the same
  table of functions (\<open>test_sdk_xlat.c\<close>).

  Messages are the bytes of their packed structs, in buffers of the size the code gives them; reading or
  writing past the end of a buffer is \<open>None\<close>. The socket is what is put on it; whether \<open>send\<close>
  succeeds and whether the wait for an answer runs out are parameters.
\<close>

section \<open>Byte order\<close>

text \<open>The macros of \<open>oam_types.h\<close> for a little-endian processor.\<close>

definition oam_ntohs :: "u16 \<Rightarrow> u16" where
  "oam_ntohs x = push_bit 8 (x AND 0x00ff) OR drop_bit 8 (x AND 0xff00)"

definition oam_ntohl :: "u32 \<Rightarrow> u32" where
  "oam_ntohl x = push_bit 24 (x AND 0x000000ff) OR push_bit 8 (x AND 0x0000ff00)
     OR drop_bit 8 (x AND 0x00ff0000) OR drop_bit 24 (x AND 0xff000000)"

text \<open>The macro of 32 bits at an operand of 64 bits, as \<open>oam_ntohll\<close> uses it.\<close>

definition oam_ntohl64 :: "u64 \<Rightarrow> u64" where
  "oam_ntohl64 x = push_bit 24 (x AND 0x000000ff) OR push_bit 8 (x AND 0x0000ff00)
     OR drop_bit 8 (x AND 0x00ff0000) OR drop_bit 24 (x AND 0xff000000)"

definition oam_ntohll :: "u64 \<Rightarrow> u64" where
  "oam_ntohll x = push_bit 32 (oam_ntohl64 x) OR oam_ntohl64 (drop_bit 32 x)"

datatype xlat = CV_SDK_DATA_HTON | CV_SDK_DATA_NTOH

definition cv_short_byte_reverse :: "u16 \<Rightarrow> xlat \<Rightarrow> u16" where
  "cv_short_byte_reverse d type = (case type of CV_SDK_DATA_HTON \<Rightarrow> oam_ntohs d | CV_SDK_DATA_NTOH \<Rightarrow> oam_ntohs d)"

definition cv_int_byte_reverse :: "u32 \<Rightarrow> xlat \<Rightarrow> u32" where
  "cv_int_byte_reverse d type = (case type of CV_SDK_DATA_HTON \<Rightarrow> oam_ntohl d | CV_SDK_DATA_NTOH \<Rightarrow> oam_ntohl d)"

definition cv_long_byte_reverse :: "u64 \<Rightarrow> xlat \<Rightarrow> u64" where
  "cv_long_byte_reverse d type = (case type of CV_SDK_DATA_HTON \<Rightarrow> oam_ntohll d | CV_SDK_DATA_NTOH \<Rightarrow> oam_ntohll d)"

text \<open>A double is its eight bytes in memory. \<open>probe\<close> is the image of the constant \<open>1.982031\<close>, by which the
  code finds out how the machine stores a double.\<close>

definition cv_hton_double :: "bytes \<Rightarrow> bytes \<Rightarrow> bytes" where
  "cv_hton_double probe d =
     (if probe = [0xE4, 0x87, 0x4A, 0x23, 0x66, 0xB6, 0xFF, 0x3F]
      then foldl (\<lambda>b i. b[i := b ! (7 - i), 7 - i := b ! i]) d [0..<4]
      else if probe = [0x3F, 0xFF, 0xB6, 0x66, 0x23, 0x4A, 0x87, 0xE4] then d
      else if probe = [0x66, 0xB6, 0xFF, 0x3F, 0xE4, 0x87, 0x4A, 0x23]
        then foldl (\<lambda>b i. b[i := b ! (11 - i), 11 - i := b ! i])
               (foldl (\<lambda>b i. b[i := b ! (3 - i), 3 - i := b ! i]) d [0..<2]) [4..<6]
      else probe)"

definition double_byte_reverse :: "bytes \<Rightarrow> bytes \<Rightarrow> xlat \<Rightarrow> bytes" where
  "double_byte_reverse probe d type =
     (case type of CV_SDK_DATA_HTON \<Rightarrow> cv_hton_double probe d | CV_SDK_DATA_NTOH \<Rightarrow> cv_hton_double probe d)"

definition cv_ipv6_byte_reverse :: "u16 list \<Rightarrow> xlat \<Rightarrow> u16 list" where
  "cv_ipv6_byte_reverse ip type = foldl (\<lambda>a i. a[i := cv_short_byte_reverse (a ! i) type]) ip [0..<8]"

lemma oam_ntohs_eq: "oam_ntohs x = cv_ntohs x"
  by (simp add: oam_ntohs_def cv_ntohs_def)

lemma oam_ntohl_eq: "oam_ntohl x = cv_ntohl x"
  by (simp add: oam_ntohl_def cv_ntohl_def)

lemma oam_twice [simp]: "oam_ntohs (oam_ntohs x) = x" "oam_ntohl (oam_ntohl y) = y"
  by (simp_all add: oam_ntohs_eq oam_ntohl_eq)

section \<open>Messages in buffers\<close>

definition rd8 :: "nat \<Rightarrow> bytes \<Rightarrow> u8 option" where
  "rd8 i b = (if i < length b then Some (b ! i) else None)"

definition rd16 :: "nat \<Rightarrow> bytes \<Rightarrow> u16 option" where
  "rd16 i b = (if i + 2 \<le> length b then Some (get16 b i) else None)"

definition rd32 :: "nat \<Rightarrow> bytes \<Rightarrow> u32 option" where
  "rd32 i b = (if i + 4 \<le> length b then Some (get32 b i) else None)"

definition rd_n :: "nat \<Rightarrow> nat \<Rightarrow> bytes \<Rightarrow> bytes option" where
  "rd_n i n b = (if i + n \<le> length b then Some (take n (drop i b)) else None)"

definition wr :: "nat \<Rightarrow> bytes \<Rightarrow> bytes \<Rightarrow> bytes option" where
  "wr i x b = (if i + length x \<le> length b then Some (poke i x b) else None)"

text \<open>Offsets of the fields of \<open>cv_sdk_msg_t\<close>, a packed struct, from its start.\<close>

definition MSG_RET :: nat where "MSG_RET = 0"
definition MSG_REQ_ID :: nat where "MSG_REQ_ID = 4"
definition MSG_SDK_ID :: nat where "MSG_SDK_ID = 12"
definition MSG_LEN :: nat where "MSG_LEN = 14"
definition MSG_DATA :: nat where "MSG_DATA = 16"

lemmas msg_offsets = MSG_RET_def MSG_REQ_ID_def MSG_SDK_ID_def MSG_LEN_def MSG_DATA_def

definition CV_FRAME_HEADER_LEN :: nat where "CV_FRAME_HEADER_LEN = 4"
definition CV_OAM_PKT_MAX_LEN :: nat where "CV_OAM_PKT_MAX_LEN = 1200"
definition CV_SDK_MSG_MAX_LEN :: nat where "CV_SDK_MSG_MAX_LEN = 1024"

definition CV_OAM_FRAME_TYPE_CMD_MSG :: u16 where "CV_OAM_FRAME_TYPE_CMD_MSG = 2"
definition CV_OAM_L2_MSG_CMD_REQ :: u16 where "CV_OAM_L2_MSG_CMD_REQ = 1"
definition CV_OAM_L2_MSG_CMD_RSP :: u16 where "CV_OAM_L2_MSG_CMD_RSP = 2"

lemmas oam_consts = CV_FRAME_HEADER_LEN_def CV_OAM_PKT_MAX_LEN_def CV_SDK_MSG_MAX_LEN_def
  CV_OAM_FRAME_TYPE_CMD_MSG_def CV_OAM_L2_MSG_CMD_REQ_def CV_OAM_L2_MSG_CMD_RSP_def

definition OAM_E_OK :: u32 where "OAM_E_OK = 0"
definition OAM_E_PARAM :: u32 where "OAM_E_PARAM = 3"
definition OAM_E_TIMEOUT :: u32 where "OAM_E_TIMEOUT = 7"
definition OAM_E_TOO_MUCH_API :: u32 where "OAM_E_TOO_MUCH_API = 8"
definition OAM_E_WRONG_SDK_ID :: u32 where "OAM_E_WRONG_SDK_ID = 9"
definition OAM_E_SOCKET_ERROR :: u32 where "OAM_E_SOCKET_ERROR = 10"
definition OAM_E_ERROR :: u32 where "OAM_E_ERROR = 0xffffffff"

lemmas oam_status_defs = OAM_E_OK_def OAM_E_PARAM_def OAM_E_TIMEOUT_def OAM_E_TOO_MUCH_API_def
  OAM_E_WRONG_SDK_ID_def OAM_E_SOCKET_ERROR_def OAM_E_ERROR_def

text \<open>The requests of \<open>test_sdk_msg.h\<close>.\<close>

definition CV_SDK_VAM_PARAM_CFG_GET :: nat where "CV_SDK_VAM_PARAM_CFG_GET = 0"
definition CV_SDK_VAM_PARAM_CFG_SET :: nat where "CV_SDK_VAM_PARAM_CFG_SET = 1"
definition CV_SDK_VAM_BSM_TRIGGER :: nat where "CV_SDK_VAM_BSM_TRIGGER = 2"
definition CV_SDK_VAM_SET_PRINT :: nat where "CV_SDK_VAM_SET_PRINT = 3"
definition CV_SDK_REQ_TYPE_END :: nat where "CV_SDK_REQ_TYPE_END = 4"

lemmas sdk_ids = CV_SDK_VAM_PARAM_CFG_GET_def CV_SDK_VAM_PARAM_CFG_SET_def CV_SDK_VAM_BSM_TRIGGER_def
  CV_SDK_VAM_SET_PRINT_def CV_SDK_REQ_TYPE_END_def

section \<open>The data of the requests\<close>

text \<open>\<open>vam_config_t\<close> in memory: natural alignment leaves a byte unused before the first period.\<close>

definition config_image :: "vam_config \<Rightarrow> bytes" where
  "config_image c =
     [bsm_hops c, bsm_boardcast_mode c, bsm_boardcast_saftyfactor c, bsm_pause_mode c,
      bsm_pause_hold_time c, 0] @ le16 (bsm_boardcast_period c) @ [evam_hops c, evam_broadcast_type c]
      @ le16 (evam_broadcast_peroid c)"

definition config_of_image :: "bytes \<Rightarrow> vam_config" where
  "config_of_image b =
     \<lparr>bsm_hops = b ! 0, bsm_boardcast_mode = b ! 1, bsm_boardcast_saftyfactor = b ! 2, bsm_pause_mode = b ! 3,
      bsm_pause_hold_time = b ! 4, bsm_boardcast_period = get16 b 6, evam_hops = b ! 8,
      evam_broadcast_type = b ! 9, evam_broadcast_peroid = get16 b 10\<rparr>"

type_synonym xlat_fun = "nat \<Rightarrow> xlat \<Rightarrow> bytes \<Rightarrow> bytes option"

definition cv_oam_vam_cfg_get_byte_reverse :: xlat_fun where
  "cv_oam_vam_cfg_get_byte_reverse data type b =
     do { x \<leftarrow> rd16 (data + 6) b; wr (data + 6) (le16 (cv_short_byte_reverse x type)) b }"

definition cv_oam_vam_cfg_set_byte_reverse :: xlat_fun where
  "cv_oam_vam_cfg_set_byte_reverse data type b =
     do { m \<leftarrow> rd32 data b;
          b \<leftarrow> wr data (le32 (cv_int_byte_reverse m type)) b;
          x \<leftarrow> rd16 (data + 10) b;
          wr (data + 10) (le16 (cv_short_byte_reverse x type)) b }"

text \<open>The result of the conversion of 32 bits is stored in a byte.\<close>

definition cv_oam_vam_bsm_trigger_byte_reverse :: xlat_fun where
  "cv_oam_vam_bsm_trigger_byte_reverse data type b =
     do { t \<leftarrow> rd8 data b; wr data [ucast (cv_int_byte_reverse (ucast t) type)] b }"

definition cv_oam_vam_set_print_byte_reverse :: xlat_fun where
  "cv_oam_vam_set_print_byte_reverse data type b =
     do { x \<leftarrow> rd32 data b; wr data (le32 (cv_int_byte_reverse x type)) b }"

definition g_sdk_xlat_table :: "xlat_fun option list" where
  "g_sdk_xlat_table =
     [Some cv_oam_vam_cfg_get_byte_reverse, Some cv_oam_vam_cfg_set_byte_reverse,
      Some cv_oam_vam_bsm_trigger_byte_reverse, Some cv_oam_vam_set_print_byte_reverse, None]"

text \<open>\<open>xlats[sdk_id](data, len, type)\<close> where the table has an entry; an index past the table is \<open>None\<close>.\<close>

definition xlat_data :: "nat \<Rightarrow> nat \<Rightarrow> xlat \<Rightarrow> bytes \<Rightarrow> bytes option" where
  "xlat_data sdk_id data type b =
     (if length g_sdk_xlat_table \<le> sdk_id then None
      else case g_sdk_xlat_table ! sdk_id of None \<Rightarrow> Some b | Some f \<Rightarrow> f data type b)"

section \<open>The server\<close>

record oam_conn =
  oc_valid :: bool
  oc_fd :: int

text \<open>\<open>srv_latest\<close> is the variable \<open>client_sockfd\<close> of \<open>cv_oam_proc_thread\<close>; its address is what every
  receiving thread gets. \<open>srv_rx\<close> are the sockets those threads have copied for themselves.\<close>

record oam_server =
  srv_client :: "oam_conn list"
  srv_cnt :: u32
  srv_latest :: int
  srv_rx :: "int list"
  srv_sent :: "(int \<times> bytes) list"
  srv_vam :: vam_envar
  srv_print :: u32

definition OAM_MAX_CLIENT_NUM :: nat where "OAM_MAX_CLIENT_NUM = 10"

definition cv_oam_server_init :: "vam_envar \<Rightarrow> oam_server" where
  "cv_oam_server_init v =
     \<lparr>srv_client = replicate OAM_MAX_CLIENT_NUM \<lparr>oc_valid = False, oc_fd = 0\<rparr>, srv_cnt = 0,
      srv_latest = -1, srv_rx = [], srv_sent = [], srv_vam = v, srv_print = 0\<rparr>"

definition free_client_step :: "int \<Rightarrow> oam_server \<Rightarrow> nat \<Rightarrow> oam_server" where
  "free_client_step fd s i =
     (if oc_valid (srv_client s ! i) \<and> oc_fd (srv_client s ! i) = fd
      then s\<lparr>srv_client := (srv_client s)[i := \<lparr>oc_valid = False, oc_fd = -1\<rparr>], srv_cnt := srv_cnt s - 1\<rparr>
      else s)"

definition cv_oam_server_free_client :: "int \<Rightarrow> oam_server \<Rightarrow> oam_server" where
  "cv_oam_server_free_client fd s = foldl (free_client_step fd) s [0..<OAM_MAX_CLIENT_NUM]"

fun add_client_loop :: "int \<Rightarrow> nat list \<Rightarrow> oam_server \<Rightarrow> oam_server" where
  "add_client_loop fd [] s = s"
| "add_client_loop fd (i # is) s =
     (if oc_fd (srv_client s ! i) = fd then s
      else if \<not> oc_valid (srv_client s ! i)
        then s\<lparr>srv_client := (srv_client s)[i := (srv_client s ! i)\<lparr>oc_fd := fd\<rparr>], srv_cnt := srv_cnt s + 1\<rparr>
      else add_client_loop fd is s)"

definition cv_oam_server_add_client :: "int \<Rightarrow> oam_server \<Rightarrow> oam_server" where
  "cv_oam_server_add_client fd s = add_client_loop fd [0..<OAM_MAX_CLIENT_NUM] s"

text \<open>One pass of the accepting loop: \<open>fd\<close> is what \<open>accept\<close> gives. \<open>None\<close> is the pass that sleeps.\<close>

definition server_accept :: "int \<Rightarrow> oam_server \<Rightarrow> oam_server option" where
  "server_accept fd s =
     (if srv_cnt s > of_nat OAM_MAX_CLIENT_NUM then None
      else let s = s\<lparr>srv_latest := fd\<rparr>
        in Some (if fd > 0 then cv_oam_server_add_client fd (s\<lparr>srv_rx := srv_rx s @ [fd]\<rparr>) else s))"

text \<open>The handlers of \<open>test_sdk_handler.c\<close> and what they call.\<close>

definition cv_oam_vam_cfg_set :: "u32 \<Rightarrow> vam_config \<Rightarrow> vam_envar \<Rightarrow> u32 \<times> vam_envar" where
  "cv_oam_vam_cfg_set msk cfg v =
     (let oldcfg = snd (vam_get_config v);
          oldcfg = (if has_flag msk 2 then oldcfg\<lparr>bsm_boardcast_mode := bsm_boardcast_mode cfg\<rparr> else oldcfg);
          oldcfg = (if has_flag msk 4 then oldcfg\<lparr>bsm_boardcast_period := bsm_boardcast_period cfg\<rparr> else oldcfg)
      in (0, snd (vam_set_config oldcfg v)))"

definition cv_oam_vam_bsm_trigger :: "u8 \<Rightarrow> vam_envar \<Rightarrow> u32 \<times> vam_envar" where
  "cv_oam_vam_bsm_trigger trigger v = (0, if trigger \<noteq> 0 then snd (vam_start v) else snd (vam_stop v))"

type_synonym oam_handler = "nat \<Rightarrow> bytes \<Rightarrow> oam_server \<Rightarrow> (u32 \<times> bytes \<times> oam_server) option"

definition cv_oam_vam_cfg_get_cb :: oam_handler where
  "cv_oam_vam_cfg_get_cb data b s =
     do { b \<leftarrow> wr data (config_image (snd (vam_get_config (srv_vam s)))) b; Some (0, b, s) }"

definition cv_oam_vam_cfg_set_cb :: oam_handler where
  "cv_oam_vam_cfg_set_cb data b s =
     do { msk \<leftarrow> rd32 data b;
          image \<leftarrow> rd_n (data + 4) 12 b;
          let (ret, v) = cv_oam_vam_cfg_set msk (config_of_image image) (srv_vam s);
          Some (ret, b, s\<lparr>srv_vam := v\<rparr>) }"

definition cv_oam_vam_bsm_trigger_cb :: oam_handler where
  "cv_oam_vam_bsm_trigger_cb data b s =
     do { bsm_trigger \<leftarrow> rd32 data b;
          let (ret, v) = cv_oam_vam_bsm_trigger (ucast bsm_trigger) (srv_vam s);
          Some (ret, b, s\<lparr>srv_vam := v\<rparr>) }"

definition cv_oam_vam_set_print_cb :: oam_handler where
  "cv_oam_vam_set_print_cb data b s = do { t \<leftarrow> rd32 data b; Some (0, b, s\<lparr>srv_print := t\<rparr>) }"

definition g_sdk_handler_table :: "oam_handler option list" where
  "g_sdk_handler_table =
     [Some cv_oam_vam_cfg_get_cb, Some cv_oam_vam_cfg_set_cb, Some cv_oam_vam_bsm_trigger_cb,
      Some cv_oam_vam_set_print_cb, None]"

text \<open>\<open>cv_oam_send_msg\<close>: the message starts at \<open>msg\<close> of buffer \<open>b\<close>, its length is cut to 16 bits by the call.\<close>

definition oam_packet :: "u16 \<Rightarrow> u16 \<Rightarrow> nat \<Rightarrow> u16 \<Rightarrow> bytes \<Rightarrow> (u32 \<times> bytes option) option" where
  "oam_packet frame_type msg_type msg msg_len b =
     (if unat msg_len > CV_OAM_PKT_MAX_LEN - CV_FRAME_HEADER_LEN then Some (OAM_E_PARAM, None)
      else do { payload \<leftarrow> rd_n msg (unat msg_len) b;
                Some (OAM_E_OK, Some (le16 (oam_ntohs frame_type) @ le16 (oam_ntohs msg_type) @ payload)) })"

definition cv_oam_send_msg :: "bool \<Rightarrow> int \<Rightarrow> u16 \<Rightarrow> nat \<Rightarrow> u16 \<Rightarrow> bytes \<Rightarrow> oam_server \<Rightarrow> (u32 \<times> oam_server) option" where
  "cv_oam_send_msg sent destfd msg_type msg msg_len b s =
     do { (st, pkt) \<leftarrow> oam_packet CV_OAM_FRAME_TYPE_CMD_MSG msg_type msg msg_len b;
          case pkt of None \<Rightarrow> Some (st, s)
          | Some p \<Rightarrow> Some (if sent then (OAM_E_OK, s\<lparr>srv_sent := srv_sent s @ [(destfd, p)]\<rparr>)
                            else (OAM_E_SOCKET_ERROR, s)) }"

definition cv_oam_sdk_msg_handler :: "bool \<Rightarrow> nat \<Rightarrow> bytes \<Rightarrow> oam_server \<Rightarrow> oam_server option" where
  "cv_oam_sdk_msg_handler sent msg b s =
     do { let clientfd = srv_latest s;
          id0 \<leftarrow> rd16 (msg + MSG_SDK_ID) b;
          len0 \<leftarrow> rd16 (msg + MSG_LEN) b;
          let sdk_id = unat (oam_ntohs id0);
          let data = msg + MSG_DATA;
          if sdk_id \<ge> CV_SDK_REQ_TYPE_END then Some s
          else case (g_sdk_xlat_table ! sdk_id, g_sdk_handler_table ! sdk_id) of
            (Some xlat, Some handler) \<Rightarrow>
              do { b \<leftarrow> xlat data CV_SDK_DATA_NTOH b;
                   (ret, b, s) \<leftarrow> handler data b s;
                   b \<leftarrow> wr (msg + MSG_RET) (le32 (oam_ntohl ret)) b;
                   b \<leftarrow> xlat data CV_SDK_DATA_HTON b;
                   len1 \<leftarrow> rd16 (msg + MSG_LEN) b;
                   (st, s) \<leftarrow> cv_oam_send_msg sent clientfd CV_OAM_L2_MSG_CMD_RSP msg
                              (oam_ntohs len1 + of_nat MSG_DATA) b s;
                   Some s }
          | _ \<Rightarrow> Some s }"

definition cv_oam_frame_proc :: "bool \<Rightarrow> bytes \<Rightarrow> oam_server \<Rightarrow> oam_server option" where
  "cv_oam_frame_proc sent pdu s =
     do { ft \<leftarrow> rd16 0 pdu;
          ct \<leftarrow> rd16 2 pdu;
          if oam_ntohs ft = CV_OAM_FRAME_TYPE_CMD_MSG \<and> oam_ntohs ct = CV_OAM_L2_MSG_CMD_REQ
          then cv_oam_sdk_msg_handler sent CV_FRAME_HEADER_LEN pdu s else Some s }"

text \<open>\<open>recv\<close> into a cleared buffer, cut to its size; then one pass of \<open>cv_oam_rx_thread\<close> for socket \<open>fd\<close>,
  where no bytes mean that the connection is closed.\<close>

definition recv_buf :: "bytes \<Rightarrow> bytes" where
  "recv_buf bs = (let d = take CV_OAM_PKT_MAX_LEN bs in d @ replicate (CV_OAM_PKT_MAX_LEN - length d) 0)"

definition cv_oam_rx_step :: "bool \<Rightarrow> int \<Rightarrow> bytes \<Rightarrow> oam_server \<Rightarrow> oam_server option" where
  "cv_oam_rx_step sent fd bs s =
     (if bs = [] then let s = cv_oam_server_free_client fd s in Some (s\<lparr>srv_rx := removeAll fd (srv_rx s)\<rparr>)
      else cv_oam_frame_proc sent (recv_buf bs) s)"

section \<open>The client\<close>

text \<open>A caller's message is a buffer; \<open>rq_msg\<close> is the number of the buffer, and \<open>rq_posted\<close> says that the
  semaphore of the record has been posted.\<close>

record sdk_req =
  rq_valid :: bool
  rq_id :: u32
  rq_msg :: "nat option"
  rq_posted :: bool

record oam_client =
  cl_reqs :: "sdk_req list"
  cl_next :: u32
  cl_buf :: "nat \<Rightarrow> bytes"
  cl_sent :: "bytes list"

definition CV_SDK_MAX_REQ :: nat where "CV_SDK_MAX_REQ = 255"

definition sdk_req_zero :: sdk_req where
  "sdk_req_zero = \<lparr>rq_valid = False, rq_id = 0, rq_msg = None, rq_posted = False\<rparr>"

definition cv_oam_client_new :: "(nat \<Rightarrow> bytes) \<Rightarrow> oam_client" where
  "cv_oam_client_new bufs = \<lparr>cl_reqs = replicate CV_SDK_MAX_REQ sdk_req_zero, cl_next = 0, cl_buf = bufs, cl_sent = []\<rparr>"

definition first_index :: "('a \<Rightarrow> bool) \<Rightarrow> 'a list \<Rightarrow> nat option" where
  "first_index P xs = List.find (\<lambda>i. P (xs ! i)) [0..<length xs]"

definition cv_sdk_req_record_alloc :: "nat \<Rightarrow> oam_client \<Rightarrow> nat option \<times> oam_client" where
  "cv_sdk_req_record_alloc msg c =
     (case first_index (\<lambda>r. \<not> rq_valid r) (cl_reqs c) of
        None \<Rightarrow> (None, c)
      | Some i \<Rightarrow> (Some i, c\<lparr>cl_reqs := (cl_reqs c)[i := \<lparr>rq_valid = True, rq_id = cl_next c, rq_msg = Some msg,
                                                       rq_posted = False\<rparr>], cl_next := cl_next c + 1\<rparr>))"

definition cv_sdk_req_record_free :: "nat \<Rightarrow> oam_client \<Rightarrow> oam_client" where
  "cv_sdk_req_record_free i c = c\<lparr>cl_reqs := (cl_reqs c)[i := sdk_req_zero]\<rparr>"

definition cv_sdk_req_record_find :: "u32 \<Rightarrow> oam_client \<Rightarrow> nat option" where
  "cv_sdk_req_record_find req_id c = first_index (\<lambda>r. rq_valid r \<and> rq_id r = req_id) (cl_reqs c)"

definition put_buf :: "nat \<Rightarrow> bytes \<Rightarrow> oam_client \<Rightarrow> oam_client" where
  "put_buf k b c = c\<lparr>cl_buf := (cl_buf c)(k := b)\<rparr>"

text \<open>\<open>cv_oam_sdk_api_request\<close> up to the wait: the status it returns at once, or the record it waits on.\<close>

definition sdk_api_request :: "bool \<Rightarrow> nat \<Rightarrow> oam_client \<Rightarrow> ((u32 + nat) \<times> oam_client) option" where
  "sdk_api_request sent k c =
     do { let b = cl_buf c k;
          sdk_id \<leftarrow> rd16 MSG_SDK_ID b;
          if unat sdk_id > CV_SDK_REQ_TYPE_END then Some (Inl OAM_E_WRONG_SDK_ID, c)
          else do {
            b \<leftarrow> wr MSG_RET (le32 OAM_E_OK) b;
            len \<leftarrow> rd16 MSG_LEN b;
            b \<leftarrow> xlat_data (unat sdk_id) MSG_DATA CV_SDK_DATA_HTON b;
            b \<leftarrow> wr MSG_SDK_ID (le16 (oam_ntohs sdk_id)) b;
            b \<leftarrow> wr MSG_LEN (le16 (oam_ntohs len)) b;
            case cv_sdk_req_record_alloc k c of
              (None, c) \<Rightarrow> do { b \<leftarrow> wr MSG_RET (le32 OAM_E_TOO_MUCH_API) b;
                              Some (Inl OAM_E_TOO_MUCH_API, put_buf k b c) }
            | (Some i, c) \<Rightarrow>
                do { b \<leftarrow> wr MSG_REQ_ID (le32 (oam_ntohl (rq_id (cl_reqs c ! i)))) b;
                     (st, pkt) \<leftarrow> oam_packet CV_OAM_FRAME_TYPE_CMD_MSG CV_OAM_L2_MSG_CMD_REQ 0
                                   (of_nat MSG_DATA + len) b;
                     let st = (if st = OAM_E_OK \<and> \<not> sent then OAM_E_ERROR else st);
                     b \<leftarrow> wr MSG_RET (le32 st) b;
                     let c = put_buf k b c;
                     if st \<noteq> OAM_E_OK then Some (Inl st, cv_sdk_req_record_free i c)
                     else Some (Inr i, c\<lparr>cl_sent := cl_sent c @ [the pkt]\<rparr>) } } }"

text \<open>The rest of it: the semaphore has been posted, or the wait has run out.\<close>

definition sdk_api_wake :: "nat \<Rightarrow> nat \<Rightarrow> oam_client \<Rightarrow> (u32 \<times> oam_client) option" where
  "sdk_api_wake k i c =
     do { b \<leftarrow> (if rq_posted (cl_reqs c ! i) then Some (cl_buf c k)
                else wr MSG_RET (le32 OAM_E_TIMEOUT) (cl_buf c k));
          ret \<leftarrow> rd32 MSG_RET b;
          Some (ret, cv_sdk_req_record_free i (put_buf k b c)) }"

definition cv_oam_sdk_api_rsp :: "nat \<Rightarrow> bytes \<Rightarrow> oam_client \<Rightarrow> oam_client option" where
  "cv_oam_sdk_api_rsp msg b c =
     do { req_id \<leftarrow> rd32 (msg + MSG_REQ_ID) b;
          case cv_sdk_req_record_find (oam_ntohl req_id) c of
            None \<Rightarrow> Some c
          | Some i \<Rightarrow>
              (case rq_msg (cl_reqs c ! i) of
                 None \<Rightarrow> Some c
               | Some k \<Rightarrow>
                   do { x \<leftarrow> rd16 (msg + MSG_SDK_ID) b;
                        let sdk_id = oam_ntohs x;
                        b \<leftarrow> wr (msg + MSG_SDK_ID) (le16 sdk_id) b;
                        x \<leftarrow> rd16 (msg + MSG_LEN) b;
                        let len = oam_ntohs x;
                        b \<leftarrow> wr (msg + MSG_LEN) (le16 len) b;
                        x \<leftarrow> rd32 (msg + MSG_RET) b;
                        b \<leftarrow> wr (msg + MSG_RET) (le32 (oam_ntohl x)) b;
                        b \<leftarrow> xlat_data (unat sdk_id) (msg + MSG_DATA) CV_SDK_DATA_NTOH b;
                        expected \<leftarrow> rd16 MSG_LEN (cl_buf c k);
                        if len \<noteq> oam_ntohs expected then Some c
                        else do {
                          answer \<leftarrow> rd_n msg (MSG_DATA + unat len) b;
                          out \<leftarrow> wr 0 answer (cl_buf c k);
                          Some ((put_buf k out c)\<lparr>cl_reqs := (cl_reqs c)[i := (cl_reqs c ! i)\<lparr>rq_posted := True\<rparr>]\<rparr>) } }) }"

definition cv_oam_proc :: "bytes \<Rightarrow> oam_client \<Rightarrow> oam_client option" where
  "cv_oam_proc pdu c =
     do { ft \<leftarrow> rd16 0 pdu;
          ct \<leftarrow> rd16 2 pdu;
          if oam_ntohs ft = CV_OAM_FRAME_TYPE_CMD_MSG \<and> oam_ntohs ct = CV_OAM_L2_MSG_CMD_RSP
          then cv_oam_sdk_api_rsp CV_FRAME_HEADER_LEN pdu c else Some c }"

text \<open>One pass of the receiving thread of the client that gets some bytes.\<close>

definition client_rx_step :: "bytes \<Rightarrow> oam_client \<Rightarrow> oam_client option" where
  "client_rx_step bs c = cv_oam_proc (recv_buf bs) c"

section \<open>The calls of the command shell\<close>

text \<open>The buffers of \<open>test_api.c\<close> as they are handed to \<open>cv_oam_sdk_api_request\<close>: 1024 bytes for a configuration,
  a \<open>cv_sdk_msg_t\<close> (17 bytes) for the other two.\<close>

definition msg_hdr :: "u32 \<Rightarrow> u32 \<Rightarrow> u32 \<Rightarrow> u16 \<Rightarrow> u16 \<Rightarrow> bytes" where
  "msg_hdr ret req_id reservd sdk_id len = le32 ret @ le32 req_id @ le32 reservd @ le16 sdk_id @ le16 len"

definition new_msg :: "nat \<Rightarrow> nat \<Rightarrow> bytes \<Rightarrow> bytes" where
  "new_msg room sdk_id data =
     msg_hdr 0 0 0 (of_nat sdk_id) (of_nat (length data)) @ data @ replicate (room - 16 - length data) 0"

definition cfg_get_msg :: bytes where
  "cfg_get_msg = new_msg CV_SDK_MSG_MAX_LEN CV_SDK_VAM_PARAM_CFG_GET (replicate 12 0)"

definition cfg_set_msg :: "u32 \<Rightarrow> vam_config \<Rightarrow> bytes" where
  "cfg_set_msg msk cfg = new_msg CV_SDK_MSG_MAX_LEN CV_SDK_VAM_PARAM_CFG_SET (le32 msk @ config_image cfg)"

definition bsm_trigger_msg :: "u8 \<Rightarrow> bytes" where
  "bsm_trigger_msg trigger = new_msg 17 CV_SDK_VAM_BSM_TRIGGER [trigger]"

definition set_print_msg :: "u8 \<Rightarrow> bytes" where
  "set_print_msg type = new_msg 17 CV_SDK_VAM_SET_PRINT [type]"

text \<open>What the caller of \<open>cv_oam_vam_cfg_get\<close> finds in the buffer.\<close>

definition cfg_of_msg :: "bytes \<Rightarrow> vam_config" where
  "cfg_of_msg b = config_of_image (take 12 (drop MSG_DATA b))"

text \<open>A whole call over a connection that loses nothing: the client's socket is \<open>fd\<close> on the server, and the
  answer, if any, is read by the client.\<close>

definition oam_call :: "nat \<Rightarrow> int \<Rightarrow> oam_client \<Rightarrow> oam_server \<Rightarrow> (u32 \<times> oam_client \<times> oam_server) option" where
  "oam_call k fd c s =
     do { (r, c) \<leftarrow> sdk_api_request True k c;
          case r of Inl st \<Rightarrow> Some (st, c, s)
          | Inr i \<Rightarrow> do { s \<leftarrow> cv_oam_rx_step True fd (last (cl_sent c)) s;
                        c \<leftarrow> client_rx_step (snd (last (srv_sent s))) c;
                        (ret, c) \<leftarrow> sdk_api_wake k i c;
                        Some (ret, c, s) } }"

section \<open>Raw data\<close>

text \<open>The registry of \<open>oam_ext_raw.c\<close>, a list that grows at its head, and the packet of \<open>oam_int_raw.c\<close>,
  which is built and then not sent. A handler acts on the state \<open>'w\<close> of its user.\<close>

record 'w raw_cfg =
  rc_type :: u32
  rc_handler :: "(u16 \<Rightarrow> bytes \<Rightarrow> 'w \<Rightarrow> 'w) option"

definition cv_oam_raw_pkt_reg ::
    "u32 \<Rightarrow> (u16 \<Rightarrow> bytes \<Rightarrow> 'w \<Rightarrow> 'w) option \<Rightarrow> 'w raw_cfg list \<Rightarrow> 'w raw_cfg list" where
  "cv_oam_raw_pkt_reg type func cfgs = \<lparr>rc_type = type, rc_handler = func\<rparr> # cfgs"

definition raw_call :: "u32 \<Rightarrow> u16 \<Rightarrow> bytes \<Rightarrow> 'w \<Rightarrow> 'w raw_cfg \<Rightarrow> 'w" where
  "raw_call pkt_type len data w cfg =
     (case rc_handler cfg of None \<Rightarrow> w
      | Some f \<Rightarrow> if rc_type cfg = pkt_type then f len data w else w)"

definition cv_oam_raw_pkt_proc :: "nat \<Rightarrow> bytes \<Rightarrow> 'w raw_cfg list \<Rightarrow> 'w \<Rightarrow> 'w option" where
  "cv_oam_raw_pkt_proc msg b cfgs w =
     do { t \<leftarrow> rd32 msg b;
          l \<leftarrow> rd16 (msg + 4) b;
          Some (foldl (raw_call (oam_ntohl t) (oam_ntohs l) (drop (msg + 6) b)) w cfgs) }"

definition cv_oam_raw_data_send :: "u32 \<Rightarrow> u16 \<Rightarrow> bytes \<Rightarrow> bytes option option" where
  "cv_oam_raw_data_send data_type len data =
     (if unat len > CV_OAM_PKT_MAX_LEN - CV_FRAME_HEADER_LEN - 7 + 1 then Some None
      else do { d \<leftarrow> rd_n 0 (unat len) data;
                Some (Some (le16 (oam_ntohs 4) @ le16 0 @ le32 (oam_ntohl data_type) @ le16 (oam_ntohs len) @ d)) })"

lemma raw_pkt_newest_first:
  "cv_oam_raw_pkt_proc msg b (cv_oam_raw_pkt_reg t f cfgs) w =
    do { ty \<leftarrow> rd32 msg b; l \<leftarrow> rd16 (msg + 4) b;
         cv_oam_raw_pkt_proc msg b cfgs
           (raw_call (oam_ntohl ty) (oam_ntohs l) (drop (msg + 6) b) w \<lparr>rc_type = t, rc_handler = f\<rparr>) }"
  by (auto simp: cv_oam_raw_pkt_proc_def cv_oam_raw_pkt_reg_def split: bind_splits)

section \<open>Reading and writing packed messages\<close>

lemma get_skip: "get16 (p @ b) (length p + i) = get16 b i" "get32 (p @ b) (length p + i) = get32 b i"
  by (simp_all add: get16.simps get32.simps nth_append add.assoc)

lemma rd_skip:
  assumes "length p = n"
  shows "rd8 (n + i) (p @ b) = rd8 i b" "rd16 (n + i) (p @ b) = rd16 i b" "rd32 (n + i) (p @ b) = rd32 i b"
    "rd_n (n + i) k (p @ b) = rd_n i k b" "wr (n + i) x (p @ b) = map_option ((@) p) (wr i x b)"
  using assms
  by (auto simp: rd8_def rd16_def rd32_def rd_n_def wr_def poke_def nth_append add.assoc get_skip)

lemma length_hdr [simp]: "length (msg_hdr a b c d e) = 16"
  by (simp add: msg_hdr_def)

lemma hdr_read [simp]:
  "rd32 MSG_RET (msg_hdr a b c d e @ x) = Some a" "rd32 MSG_REQ_ID (msg_hdr a b c d e @ x) = Some b"
  "rd16 MSG_SDK_ID (msg_hdr a b c d e @ x) = Some d" "rd16 MSG_LEN (msg_hdr a b c d e @ x) = Some e"
  by (simp_all add: rd32_def rd16_def msg_hdr_def msg_offsets le32_def le16_def get16.simps get32.simps join16 join32)

lemma hdr_write [simp]:
  "wr MSG_RET (le32 v) (msg_hdr a b c d e @ x) = Some (msg_hdr v b c d e @ x)"
  "wr MSG_REQ_ID (le32 v) (msg_hdr a b c d e @ x) = Some (msg_hdr a v c d e @ x)"
  "wr MSG_SDK_ID (le16 w) (msg_hdr a b c d e @ x) = Some (msg_hdr a b c w e @ x)"
  "wr MSG_LEN (le16 w) (msg_hdr a b c d e @ x) = Some (msg_hdr a b c d w @ x)"
  by (simp_all add: wr_def poke_def msg_hdr_def msg_offsets le32_def le16_def)

lemma xlat_skip:
  assumes "length p = n"
  shows "cv_oam_vam_cfg_get_byte_reverse (n + i) t (p @ b) = map_option ((@) p) (cv_oam_vam_cfg_get_byte_reverse i t b)"
    "cv_oam_vam_cfg_set_byte_reverse (n + i) t (p @ b) = map_option ((@) p) (cv_oam_vam_cfg_set_byte_reverse i t b)"
    "cv_oam_vam_bsm_trigger_byte_reverse (n + i) t (p @ b) = map_option ((@) p) (cv_oam_vam_bsm_trigger_byte_reverse i t b)"
    "cv_oam_vam_set_print_byte_reverse (n + i) t (p @ b) = map_option ((@) p) (cv_oam_vam_set_print_byte_reverse i t b)"
  using rd_skip[OF assms]
  by (auto simp: cv_oam_vam_cfg_get_byte_reverse_def cv_oam_vam_cfg_set_byte_reverse_def
      cv_oam_vam_bsm_trigger_byte_reverse_def cv_oam_vam_set_print_byte_reverse_def add.assoc
      split: bind_splits option.splits)

lemma image_parts:
  "length (config_image c) = 12" "config_of_image (config_image c @ x) = c"
  by (simp_all add: config_image_def config_of_image_def le16_def get16.simps join16)

lemma data_read [simp]:
  "rd32 0 (le32 v @ x) = Some v" "rd16 10 (le32 m @ config_image c @ x) = Some (bsm_boardcast_period c)"
  "rd16 6 (config_image c @ x) = Some (bsm_boardcast_period c)"
  by (simp_all add: rd32_def rd16_def config_image_def le32_def le16_def get16.simps get32.simps join16 join32)

lemma data_write [simp]:
  "wr 0 (le32 v) (le32 m @ x) = Some (le32 v @ x)"
  "wr 10 (le16 w) (le32 m @ config_image c @ x) = Some (le32 m @ config_image (c\<lparr>bsm_boardcast_period := w\<rparr>) @ x)"
  "wr 6 (le16 w) (config_image c @ x) = Some (config_image (c\<lparr>bsm_boardcast_period := w\<rparr>) @ x)"
  by (simp_all add: wr_def poke_def config_image_def le32_def le16_def)

text \<open>What the conversion does to the two configuration requests.\<close>

lemma xlat_cfg:
  "cv_oam_vam_cfg_set_byte_reverse 0 t (le32 m @ config_image c @ x) =
     Some (le32 (oam_ntohl m) @ config_image (c\<lparr>bsm_boardcast_period := oam_ntohs (bsm_boardcast_period c)\<rparr>) @ x)"
  "cv_oam_vam_cfg_get_byte_reverse 0 t (config_image c @ x) =
     Some (config_image (c\<lparr>bsm_boardcast_period := oam_ntohs (bsm_boardcast_period c)\<rparr>) @ x)"
  by (cases t; simp add: cv_oam_vam_cfg_set_byte_reverse_def cv_oam_vam_cfg_get_byte_reverse_def
      cv_int_byte_reverse_def cv_short_byte_reverse_def)+

lemma zero_image: "config_image (config_of_image (replicate 12 0)) = replicate 12 0"
  by (simp add: config_image_def config_of_image_def le16_def numeral_eq_Suc get16.simps)

text \<open>Sending a message of header and data, and receiving it.\<close>

lemma oam_packet_msg:
  assumes "unat w = 16 + length d" "16 + length d \<le> 1196"
  shows "oam_packet ft mt 0 w (msg_hdr r q v i l @ d @ x) =
    Some (OAM_E_OK, Some (le16 (oam_ntohs ft) @ le16 (oam_ntohs mt) @ msg_hdr r q v i l @ d))"
  using assms by (simp add: oam_packet_def oam_consts rd_n_def)

lemma recv_buf_msg:
  assumes "length d < 1000"
  shows "\<exists>n \<ge> 100. recv_buf (le16 a @ le16 b @ msg_hdr r q v i l @ d) = (le16 a @ le16 b) @ msg_hdr r q v i l @ d @ replicate n 0"
  using assms by (simp add: recv_buf_def oam_consts Let_def)

lemma recv_types:
  "rd16 0 ((le16 a @ le16 b) @ x) = Some a" "rd16 2 ((le16 a @ le16 b) @ x) = Some b"
  by (simp_all add: rd16_def le16_def get16.simps join16)

lemma frame_skip:
  assumes "length p = 4"
  shows "rd32 (CV_FRAME_HEADER_LEN + i) (p @ b) = rd32 i b" "rd16 (CV_FRAME_HEADER_LEN + i) (p @ b) = rd16 i b"
    "wr (CV_FRAME_HEADER_LEN + i) x (p @ b) = map_option ((@) p) (wr i x b)"
    "rd_n CV_FRAME_HEADER_LEN k (p @ b) = rd_n 0 k b"
  using rd_skip[OF assms, of i] rd_skip(4)[OF assms, of 0] by (simp_all add: oam_consts)

lemma oam_swap_consts:
  "oam_ntohs 0 = 0" "oam_ntohs 1 = 0x100" "oam_ntohs 2 = 0x200" "oam_ntohs 3 = 0x300" "oam_ntohs 4 = 0x400"
  by (simp_all add: oam_ntohs_def)

text \<open>The server at a request whose data are \<open>d\<close>: conversion, handler, conversion back, answer.\<close>

lemma server_answers:
  assumes id: "sdk_id < CV_SDK_REQ_TYPE_END" "g_sdk_xlat_table ! sdk_id = Some f" "g_sdk_handler_table ! sdk_id = Some g"
    and f1: "f (4 + MSG_DATA) CV_SDK_DATA_NTOH (p @ msg_hdr r q v i l @ d @ x) = Some (p @ msg_hdr r q v i l @ d1 @ x)"
    and g: "g (4 + MSG_DATA) (p @ msg_hdr r q v i l @ d1 @ x) s = Some (0, p @ msg_hdr r q v i l @ d2 @ x, s')"
    and f2: "f (4 + MSG_DATA) CV_SDK_DATA_HTON (p @ msg_hdr 0 q v i l @ d2 @ x) = Some (p @ msg_hdr 0 q v i l @ d3 @ x)"
    and p: "length p = 4" "i = oam_ntohs (of_nat sdk_id)" "l = oam_ntohs (of_nat (length d3))" "length d3 < 1000"
  shows "cv_oam_sdk_msg_handler True CV_FRAME_HEADER_LEN (p @ msg_hdr r q v i l @ d @ x) s =
    Some (s'\<lparr>srv_sent := srv_sent s' @ [(srv_latest s, le16 (oam_ntohs CV_OAM_FRAME_TYPE_CMD_MSG)
      @ le16 (oam_ntohs CV_OAM_L2_MSG_CMD_RSP) @ msg_hdr 0 q v i l @ d3)]\<rparr>)"
proof -
  have si: "unat (of_nat sdk_id :: u16) = sdk_id" using id(1) by (simp add: sdk_ids unat_of_nat)
  have w: "unat (of_nat (length d3) + of_nat MSG_DATA :: u16) = 16 + length d3"
    using p(4) by (simp add: unat_word_ariths unat_of_nat MSG_DATA_def)
  have small: "\<not> CV_OAM_PKT_MAX_LEN - CV_FRAME_HEADER_LEN < 16 + length d3" using p(4) by (simp add: oam_consts)
  have rd: "rd_n CV_FRAME_HEADER_LEN (16 + length d3) (p @ msg_hdr 0 q v i l @ d3 @ x) = Some (msg_hdr 0 q v i l @ d3)"
    using p(1) by (simp add: rd_n_def oam_consts)
  have m: "CV_FRAME_HEADER_LEN + MSG_DATA = 4 + MSG_DATA" by (simp add: oam_consts)
  have z: "oam_ntohl 0 = 0" by (simp add: oam_ntohl_def)
  show ?thesis
    unfolding cv_oam_sdk_msg_handler_def m
    using id si p f1 g f2 w rd small
    by (simp add: frame_skip[OF p(1)] cv_oam_send_msg_def oam_packet_def z)
qed

section \<open>A call from end to end\<close>

text \<open>A conversion, and a handler, seen as what they do to the data of a request wherever they lie.\<close>

definition xlat_does :: "xlat_fun \<Rightarrow> bytes \<Rightarrow> bytes \<Rightarrow> bool" where
  "xlat_does f d d' \<longleftrightarrow> length d' = length d \<and> (\<forall>p t x. f (length p) t (p @ d @ x) = Some (p @ d' @ x))"

definition handler_does :: "oam_handler \<Rightarrow> bytes \<Rightarrow> bytes \<Rightarrow> oam_server \<Rightarrow> oam_server \<Rightarrow> bool" where
  "handler_does g d d' s s' \<longleftrightarrow> length d' = length d \<and> (\<forall>p n. 100 \<le> n \<longrightarrow>
     g (length p) (p @ d @ replicate n 0) s = Some (0, p @ d' @ replicate n 0, s'))"

definition ids_fresh :: "oam_client \<Rightarrow> bool" where
  "ids_fresh c \<longleftrightarrow> (\<forall>r \<in> set (cl_reqs c). rq_valid r \<longrightarrow> rq_id r \<noteq> cl_next c)"

lemma first_index_only:
  assumes "i < length xs" "P (xs ! i)" "\<And>j. j < length xs \<Longrightarrow> j \<noteq> i \<Longrightarrow> \<not> P (xs ! j)"
  shows "first_index P xs = Some i"
  unfolding first_index_def find_Some_iff
  by (rule exI[of _ i]) (use assms in auto)

lemma first_index_Some:
  "first_index P xs = Some i \<Longrightarrow> i < length xs \<and> P (xs ! i)"
  by (auto simp: first_index_def find_Some_iff)

lemma xlat_at_header:
  assumes "xlat_does f d d'"
  shows "f MSG_DATA t (msg_hdr r q v i l @ d @ x) = Some (msg_hdr r q v i l @ d' @ x)"
    "length p = 4 \<Longrightarrow> f (4 + MSG_DATA) t (p @ msg_hdr r q v i l @ d @ x) = Some (p @ msg_hdr r q v i l @ d' @ x)"
proof -
  have f: "f (length h) t (h @ d @ x) = Some (h @ d' @ x)" for h using assms by (simp add: xlat_does_def)
  show "f MSG_DATA t (msg_hdr r q v i l @ d @ x) = Some (msg_hdr r q v i l @ d' @ x)"
    using f[of "msg_hdr r q v i l"] by (simp add: MSG_DATA_def)
  show "length p = 4 \<Longrightarrow> f (4 + MSG_DATA) t (p @ msg_hdr r q v i l @ d @ x) = Some (p @ msg_hdr r q v i l @ d' @ x)"
    using f[of "p @ msg_hdr r q v i l"] by (simp add: MSG_DATA_def)
qed

lemma handler_at_header:
  assumes "handler_does g d d' s s'" "length p = 4" "100 \<le> n"
  shows "g (4 + MSG_DATA) (p @ msg_hdr r q v i l @ d @ replicate n 0) s =
    Some (0, p @ msg_hdr r q v i l @ d' @ replicate n 0, s')"
proof -
  have "g (length h) (h @ d @ replicate n 0) s = Some (0, h @ d' @ replicate n 0, s')" for h
    using assms by (simp add: handler_does_def)
  from this[of "p @ msg_hdr r q v i l"] show ?thesis using assms(2) by (simp add: MSG_DATA_def)
qed

definition cmd_frame :: "u16 \<Rightarrow> bytes \<Rightarrow> bytes" where
  "cmd_frame msg_type m = le16 (oam_ntohs CV_OAM_FRAME_TYPE_CMD_MSG) @ le16 (oam_ntohs msg_type) @ m"

lemma client_request:
  assumes buf: "cl_buf c k = msg_hdr 0 0 0 (of_nat sdk_id) (of_nat (length d)) @ d @ x"
    and id: "sdk_id < CV_SDK_REQ_TYPE_END" "g_sdk_xlat_table ! sdk_id = Some f" and f: "xlat_does f d d'"
    and room: "first_index (\<lambda>r. \<not> rq_valid r) (cl_reqs c) = Some i" and small: "length d < 1000"
  defines "m \<equiv> msg_hdr 0 (oam_ntohl (cl_next c)) 0 (oam_ntohs (of_nat sdk_id)) (oam_ntohs (of_nat (length d))) @ d'"
  shows "sdk_api_request True k c = Some (Inr i, c\<lparr>
      cl_reqs := (cl_reqs c)[i := \<lparr>rq_valid = True, rq_id = cl_next c, rq_msg = Some k, rq_posted = False\<rparr>],
      cl_next := cl_next c + 1, cl_buf := (cl_buf c)(k := m @ x),
      cl_sent := cl_sent c @ [cmd_frame CV_OAM_L2_MSG_CMD_REQ m]\<rparr>)"
proof -
  have si: "unat (of_nat sdk_id :: u16) = sdk_id" using id(1) by (simp add: sdk_ids unat_of_nat)
  have len: "length d' = length d" using f by (simp add: xlat_does_def)
  have i: "i < length (cl_reqs c)" using first_index_Some[OF room] by simp
  have w: "unat (of_nat MSG_DATA + of_nat (length d) :: u16) = 16 + length d'"
    using small len by (simp add: unat_word_ariths unat_of_nat MSG_DATA_def)
  have tab: "\<not> length g_sdk_xlat_table \<le> sdk_id" "\<not> CV_SDK_REQ_TYPE_END < sdk_id"
    using id(1) by (simp_all add: g_sdk_xlat_table_def sdk_ids)
  have pkt: "oam_packet ft mt 0 (of_nat MSG_DATA + of_nat (length d)) (msg_hdr r q v a b @ d' @ x) =
      Some (OAM_E_OK, Some (le16 (oam_ntohs ft) @ le16 (oam_ntohs mt) @ msg_hdr r q v a b @ d'))" for ft mt r q v a b
    by (rule oam_packet_msg) (use w small len in simp_all)
  show ?thesis
    unfolding sdk_api_request_def
    using buf si tab id(2) room i len pkt
    by (simp add: xlat_data_def xlat_at_header(1)[OF f] cv_sdk_req_record_alloc_def put_buf_def m_def
        cmd_frame_def OAM_E_OK_def)
qed

lemma cmd_frame_received:
  assumes "length d < 1000"
  obtains p n where "100 \<le> n" "recv_buf (cmd_frame mt (msg_hdr r q v i l @ d)) = p @ msg_hdr r q v i l @ d @ replicate n 0"
    "length p = 4" "\<forall>x. rd16 0 (p @ x) = Some (oam_ntohs CV_OAM_FRAME_TYPE_CMD_MSG)"
    "\<forall>x. rd16 2 (p @ x) = Some (oam_ntohs mt)"
proof -
  obtain n where "100 \<le> n" "recv_buf (cmd_frame mt (msg_hdr r q v i l @ d)) =
      (le16 (oam_ntohs CV_OAM_FRAME_TYPE_CMD_MSG) @ le16 (oam_ntohs mt)) @ msg_hdr r q v i l @ d @ replicate n 0"
    using recv_buf_msg[OF assms] unfolding cmd_frame_def by blast
  then show ?thesis by (rule that) (use recv_types in simp_all)
qed

lemma server_request:
  assumes id: "sdk_id < CV_SDK_REQ_TYPE_END" "g_sdk_xlat_table ! sdk_id = Some f" "g_sdk_handler_table ! sdk_id = Some g"
    and f1: "xlat_does f d d1" and g: "handler_does g d1 d2 s s'" and f2: "xlat_does f d2 d3"
    and small: "length d < 1000"
  defines "i \<equiv> oam_ntohs (of_nat sdk_id)" and "l \<equiv> oam_ntohs (of_nat (length d))"
  shows "cv_oam_rx_step True fd (cmd_frame CV_OAM_L2_MSG_CMD_REQ (msg_hdr r q v i l @ d)) s =
    Some (s'\<lparr>srv_sent := srv_sent s' @ [(srv_latest s, cmd_frame CV_OAM_L2_MSG_CMD_RSP (msg_hdr 0 q v i l @ d3))]\<rparr>)"
proof -
  obtain p n where n: "100 \<le> n" and b: "recv_buf (cmd_frame CV_OAM_L2_MSG_CMD_REQ (msg_hdr r q v i l @ d)) = p @ msg_hdr r q v i l @ d @ replicate n 0"
    and p: "length p = 4" and ty: "\<forall>x. rd16 0 (p @ x) = Some (oam_ntohs CV_OAM_FRAME_TYPE_CMD_MSG)"
    "\<forall>x. rd16 2 (p @ x) = Some (oam_ntohs CV_OAM_L2_MSG_CMD_REQ)"
    by (rule cmd_frame_received[OF small])
  have l: "length d3 = length d" using f1 f2 g by (simp add: xlat_does_def handler_does_def)
  have "cv_oam_sdk_msg_handler True CV_FRAME_HEADER_LEN (p @ msg_hdr r q v i l @ d @ replicate n 0) s =
      Some (s'\<lparr>srv_sent := srv_sent s' @ [(srv_latest s, le16 (oam_ntohs CV_OAM_FRAME_TYPE_CMD_MSG)
        @ le16 (oam_ntohs CV_OAM_L2_MSG_CMD_RSP) @ msg_hdr 0 q v i l @ d3)]\<rparr>)"
    by (rule server_answers[OF id xlat_at_header(2)[OF f1 p] handler_at_header[OF g p n] xlat_at_header(2)[OF f2 p] p])
      (use l small in \<open>simp_all add: i_def l_def\<close>)
  moreover have "cmd_frame CV_OAM_L2_MSG_CMD_REQ (msg_hdr r q v i l @ d) \<noteq> []" by (simp add: cmd_frame_def le16_def)
  ultimately show ?thesis
    by (simp add: cv_oam_rx_step_def b cv_oam_frame_proc_def ty) (simp add: cmd_frame_def)
qed

lemma client_answer:
  assumes id: "sdk_id < CV_SDK_REQ_TYPE_END" "g_sdk_xlat_table ! sdk_id = Some f"
    and f: "xlat_does f d d'" and small: "length d < 1000"
    and req: "cv_sdk_req_record_find req_id c = Some j" "rq_msg (cl_reqs c ! j) = Some k"
    and buf: "cl_buf c k = msg_hdr r0 q0 v0 i0 (oam_ntohs (of_nat (length d))) @ d0 @ x" "length d0 = length d"
  shows "client_rx_step (cmd_frame CV_OAM_L2_MSG_CMD_RSP
      (msg_hdr 0 (oam_ntohl req_id) v (oam_ntohs (of_nat sdk_id)) (oam_ntohs (of_nat (length d))) @ d)) c =
    Some (c\<lparr>cl_buf := (cl_buf c)(k := msg_hdr 0 (oam_ntohl req_id) v (of_nat sdk_id) (of_nat (length d)) @ d' @ x),
            cl_reqs := (cl_reqs c)[j := (cl_reqs c ! j)\<lparr>rq_posted := True\<rparr>]\<rparr>)"
proof -
  let ?i = "oam_ntohs (of_nat sdk_id)" and ?l = "oam_ntohs (of_nat (length d))"
  obtain p n where n: "100 \<le> n" and b: "recv_buf (cmd_frame CV_OAM_L2_MSG_CMD_RSP (msg_hdr 0 (oam_ntohl req_id) v ?i ?l @ d)) =
      p @ msg_hdr 0 (oam_ntohl req_id) v ?i ?l @ d @ replicate n 0"
    and p: "length p = 4" and ty: "\<forall>x. rd16 0 (p @ x) = Some (oam_ntohs CV_OAM_FRAME_TYPE_CMD_MSG)"
    "\<forall>x. rd16 2 (p @ x) = Some (oam_ntohs CV_OAM_L2_MSG_CMD_RSP)"
    by (rule cmd_frame_received[OF small])
  have si: "unat (of_nat sdk_id :: u16) = sdk_id" using id(1) by (simp add: sdk_ids unat_of_nat)
  have sl: "unat (of_nat (length d) :: u16) = length d" using small by (simp add: unat_of_nat)
  have len: "length d' = length d" using f by (simp add: xlat_does_def)
  have tab: "\<not> length g_sdk_xlat_table \<le> sdk_id" using id(1) by (simp add: g_sdk_xlat_table_def sdk_ids)
  have z: "oam_ntohl 0 = 0" by (simp add: oam_ntohl_def)
  have x: "xlat_data sdk_id (CV_FRAME_HEADER_LEN + MSG_DATA) CV_SDK_DATA_NTOH (p @ msg_hdr r q w a e @ d @ y) =
      Some (p @ msg_hdr r q w a e @ d' @ y)" for r q w a e y
    using tab id(2) xlat_at_header(2)[OF f p] by (simp add: xlat_data_def CV_FRAME_HEADER_LEN_def)
  have rd: "rd_n 0 (MSG_DATA + length d) (msg_hdr r q w a e @ d' @ y) = Some (msg_hdr r q w a e @ d')"
    for r q w a e y using len by (simp add: rd_n_def MSG_DATA_def)
  have out: "wr 0 (msg_hdr r q w a e @ d') (msg_hdr r0 q0 v0 i0 ?l @ d0 @ x) = Some (msg_hdr r q w a e @ d' @ x)"
    for r q w a e using len buf(2) by (simp add: wr_def poke_def)
  show ?thesis
    using req buf(1) si sl
    by (simp add: ty client_rx_step_def b cv_oam_proc_def cv_oam_sdk_api_rsp_def frame_skip[OF p] x rd out z put_buf_def Let_def)
qed

lemma oam_call_spec:
  assumes buf: "cl_buf c k = msg_hdr 0 0 0 (of_nat sdk_id) (of_nat (length d)) @ d @ x"
    and id: "sdk_id < CV_SDK_REQ_TYPE_END" "g_sdk_xlat_table ! sdk_id = Some f" "g_sdk_handler_table ! sdk_id = Some g"
    and data: "xlat_does f d d1" "xlat_does f d1 d2" "handler_does g d2 d3 s s'" "xlat_does f d3 d4" "xlat_does f d4 d5"
    and room: "first_index (\<lambda>r. \<not> rq_valid r) (cl_reqs c) = Some i" and fresh: "ids_fresh c"
    and small: "length d < 1000"
  shows "\<exists>c' m. oam_call k fd c s = Some (OAM_E_OK, c', s'\<lparr>srv_sent := srv_sent s' @ [(srv_latest s, m)]\<rparr>)
    \<and> (\<exists>h. length h = MSG_DATA \<and> cl_buf c' k = h @ d5 @ x) \<and> cl_reqs c' = (cl_reqs c)[i := sdk_req_zero]"
proof -
  let ?id = "oam_ntohs (of_nat sdk_id)" and ?l = "oam_ntohs (of_nat (length d))"
  let ?m = "msg_hdr 0 (oam_ntohl (cl_next c)) 0 ?id ?l"
  let ?req = "\<lparr>rq_valid = True, rq_id = cl_next c, rq_msg = Some k, rq_posted = False\<rparr>"
  define c1 where "c1 = c\<lparr>cl_reqs := (cl_reqs c)[i := ?req], cl_next := cl_next c + 1,
      cl_buf := (cl_buf c)(k := (?m @ d1) @ x), cl_sent := cl_sent c @ [cmd_frame CV_OAM_L2_MSG_CMD_REQ (?m @ d1)]\<rparr>"
  have len: "length d1 = length d" "length d4 = length d"
    using data by (simp_all add: xlat_does_def handler_does_def)
  have i: "i < length (cl_reqs c)" using first_index_Some[OF room] by simp
  have req: "sdk_api_request True k c = Some (Inr i, c1)"
    unfolding c1_def by (rule client_request[OF buf id(1,2) data(1) room small])
  have srv: "cv_oam_rx_step True fd (cmd_frame CV_OAM_L2_MSG_CMD_REQ (?m @ d1)) s =
      Some (s'\<lparr>srv_sent := srv_sent s' @ [(srv_latest s, cmd_frame CV_OAM_L2_MSG_CMD_RSP (?m @ d4))]\<rparr>)"
    using server_request[OF id data(2,3,4), of fd 0 "oam_ntohl (cl_next c)" 0] small by (simp add: len)
  have find: "cv_sdk_req_record_find (cl_next c) c1 = Some i"
    unfolding cv_sdk_req_record_find_def
    by (rule first_index_only) (use i fresh in \<open>auto simp: c1_def ids_fresh_def\<close>)
  have k: "rq_msg (cl_reqs c1 ! i) = Some k" using i by (simp add: c1_def)
  have buf1: "cl_buf c1 k = msg_hdr 0 (oam_ntohl (cl_next c)) 0 ?id (oam_ntohs (of_nat (length d4))) @ d1 @ x"
    by (simp add: c1_def len)
  have ans: "client_rx_step (cmd_frame CV_OAM_L2_MSG_CMD_RSP (?m @ d4)) c1 =
      Some (c1\<lparr>cl_buf := (cl_buf c1)(k := msg_hdr 0 (oam_ntohl (cl_next c)) 0 (of_nat sdk_id) (of_nat (length d)) @ d5 @ x),
            cl_reqs := (cl_reqs c1)[i := (cl_reqs c1 ! i)\<lparr>rq_posted := True\<rparr>]\<rparr>)"
    using client_answer[OF id(1,2) data(5) _ find k buf1, of 0] small len by simp
  have wake: "sdk_api_wake k i (c1\<lparr>cl_buf := (cl_buf c1)(k := msg_hdr 0 (oam_ntohl (cl_next c)) 0 (of_nat sdk_id) (of_nat (length d)) @ d5 @ x),
            cl_reqs := (cl_reqs c1)[i := (cl_reqs c1 ! i)\<lparr>rq_posted := True\<rparr>]\<rparr>) =
      Some (OAM_E_OK, c1\<lparr>cl_buf := (cl_buf c1)(k := msg_hdr 0 (oam_ntohl (cl_next c)) 0 (of_nat sdk_id) (of_nat (length d)) @ d5 @ x),
            cl_reqs := (cl_reqs c)[i := sdk_req_zero]\<rparr>)"
    using i by (simp add: sdk_api_wake_def c1_def put_buf_def cv_sdk_req_record_free_def OAM_E_OK_def)
  have last: "last (cl_sent c1) = cmd_frame CV_OAM_L2_MSG_CMD_REQ (?m @ d1)" by (simp add: c1_def)
  have "oam_call k fd c s = Some (OAM_E_OK, c1\<lparr>cl_buf := (cl_buf c1)(k := msg_hdr 0 (oam_ntohl (cl_next c)) 0 (of_nat sdk_id) (of_nat (length d)) @ d5 @ x),
            cl_reqs := (cl_reqs c)[i := sdk_req_zero]\<rparr>,
      s'\<lparr>srv_sent := srv_sent s' @ [(srv_latest s, cmd_frame CV_OAM_L2_MSG_CMD_RSP (?m @ d4))]\<rparr>)"
    using req srv ans wake by (simp add: oam_call_def last)
  then show ?thesis
    by (rule_tac exI, rule_tac exI, intro conjI)
      (assumption, auto simp: MSG_DATA_def intro!: exI[of _ "msg_hdr 0 (oam_ntohl (cl_next c)) 0 (of_nat sdk_id) (of_nat (length d))"])
qed

lemma xlat_does_table:
  "xlat_does cv_oam_vam_cfg_set_byte_reverse (le32 m @ config_image c)
     (le32 (oam_ntohl m) @ config_image (c\<lparr>bsm_boardcast_period := oam_ntohs (bsm_boardcast_period c)\<rparr>))"
  "xlat_does cv_oam_vam_cfg_get_byte_reverse (config_image c)
     (config_image (c\<lparr>bsm_boardcast_period := oam_ntohs (bsm_boardcast_period c)\<rparr>))"
  "xlat_does cv_oam_vam_bsm_trigger_byte_reverse [t] [0]"
proof -
  have z: "(ucast (oam_ntohl (ucast (t :: u8))) :: u8) = 0"
    by (simp add: oam_ntohl_def bitwise)
  show "xlat_does cv_oam_vam_cfg_set_byte_reverse (le32 m @ config_image c)
     (le32 (oam_ntohl m) @ config_image (c\<lparr>bsm_boardcast_period := oam_ntohs (bsm_boardcast_period c)\<rparr>))"
    using xlat_skip(2)[OF refl, of _ 0] by (simp add: xlat_does_def image_parts xlat_cfg)
  show "xlat_does cv_oam_vam_cfg_get_byte_reverse (config_image c)
     (config_image (c\<lparr>bsm_boardcast_period := oam_ntohs (bsm_boardcast_period c)\<rparr>))"
    using xlat_skip(1)[OF refl, of _ 0] by (simp add: xlat_does_def image_parts xlat_cfg)
  show "xlat_does cv_oam_vam_bsm_trigger_byte_reverse [t] [0]"
    unfolding xlat_does_def cv_oam_vam_bsm_trigger_byte_reverse_def cv_int_byte_reverse_def
    using z by (auto simp: rd8_def wr_def poke_def split: xlat.split)
qed

lemma handler_does_table:
  "handler_does cv_oam_vam_cfg_set_cb (le32 m @ config_image c) (le32 m @ config_image c) s
     (s\<lparr>srv_vam := snd (cv_oam_vam_cfg_set m c (srv_vam s))\<rparr>)"
  "length d = 12 \<Longrightarrow> handler_does cv_oam_vam_cfg_get_cb d (config_image (working_param (srv_vam s))) s s"
  "handler_does cv_oam_vam_bsm_trigger_cb [0] [0] s (s\<lparr>srv_vam := snd (vam_stop (srv_vam s))\<rparr>)"
proof -
  have "cv_oam_vam_cfg_set_cb (length p) (p @ (le32 m @ config_image c) @ y) s =
      Some (0, p @ (le32 m @ config_image c) @ y, s\<lparr>srv_vam := snd (cv_oam_vam_cfg_set m c (srv_vam s))\<rparr>)" for p y
  proof -
    have 1: "rd32 (length p) (p @ le32 m @ config_image c @ y) = Some m"
      using rd_skip(3)[OF refl, of p 0] by simp
    have 2: "rd_n (length p + 4) 12 (p @ le32 m @ config_image c @ y) = Some (config_image c)"
      by (simp add: rd_n_def image_parts)
    show ?thesis
      using 1 2 image_parts(2)[of c "[]"]
      by (simp add: cv_oam_vam_cfg_set_cb_def cv_oam_vam_cfg_set_def Let_def)
  qed
  then show "handler_does cv_oam_vam_cfg_set_cb (le32 m @ config_image c) (le32 m @ config_image c) s
     (s\<lparr>srv_vam := snd (cv_oam_vam_cfg_set m c (srv_vam s))\<rparr>)" by (simp add: handler_does_def)
  show "length d = 12 \<Longrightarrow> handler_does cv_oam_vam_cfg_get_cb d (config_image (working_param (srv_vam s))) s s"
    by (simp add: handler_does_def cv_oam_vam_cfg_get_cb_def vam_get_config_def wr_def poke_def image_parts)
  have z: "get32 ([0, 0, 0, 0] @ y) 0 = 0" for y :: bytes by (simp add: get32.simps)
  have "rd32 (length p) (p @ [0] @ replicate n 0) = Some 0" if n100: "100 \<le> n" for p n
  proof -
    obtain k where "n = 3 + k" using le_Suc_ex[of 3 n] n100 by auto
    then have n: "replicate n 0 = [0, 0, 0 :: u8] @ replicate k 0" by (simp add: replicate_add numeral_3_eq_3)
    have "rd32 (length p + 0) (p @ [0] @ replicate n 0) = Some 0"
      unfolding rd_skip(3)[OF refl] n using z[of "replicate k 0"] by (simp add: rd32_def)
    then show ?thesis by simp
  qed
  then show "handler_does cv_oam_vam_bsm_trigger_cb [0] [0] s (s\<lparr>srv_vam := snd (vam_stop (srv_vam s))\<rparr>)"
    by (simp add: handler_does_def cv_oam_vam_bsm_trigger_cb_def cv_oam_vam_bsm_trigger_def)
qed

lemma oam_cfg_set_call:
  assumes room: "first_index (\<lambda>r. \<not> rq_valid r) (cl_reqs c) = Some i" and fresh: "ids_fresh c"
    and buf: "cl_buf c k = cfg_set_msg msk cfg"
  shows "\<exists>c' s'. oam_call k fd c s = Some (OAM_E_OK, c', s') \<and> cl_reqs c' = (cl_reqs c)[i := sdk_req_zero]
      \<and> srv_vam s' = snd (cv_oam_vam_cfg_set msk cfg (srv_vam s))"
proof -
  let ?sw = "\<lambda>c. c\<lparr>bsm_boardcast_period := oam_ntohs (bsm_boardcast_period c)\<rparr>"
  have b: "cl_buf c k = msg_hdr 0 0 0 (of_nat CV_SDK_VAM_PARAM_CFG_SET) (of_nat (length (le32 msk @ config_image cfg)))
      @ (le32 msk @ config_image cfg) @ replicate 992 0"
    using buf by (simp add: cfg_set_msg_def new_msg_def CV_SDK_MSG_MAX_LEN_def image_parts)
  have t: "CV_SDK_VAM_PARAM_CFG_SET < CV_SDK_REQ_TYPE_END"
    "g_sdk_xlat_table ! CV_SDK_VAM_PARAM_CFG_SET = Some cv_oam_vam_cfg_set_byte_reverse"
    "g_sdk_handler_table ! CV_SDK_VAM_PARAM_CFG_SET = Some cv_oam_vam_cfg_set_cb"
    by (simp_all add: sdk_ids g_sdk_xlat_table_def g_sdk_handler_table_def)
  have x: "xlat_does cv_oam_vam_cfg_set_byte_reverse (le32 msk @ config_image cfg) (le32 (oam_ntohl msk) @ config_image (?sw cfg))"
    "xlat_does cv_oam_vam_cfg_set_byte_reverse (le32 (oam_ntohl msk) @ config_image (?sw cfg)) (le32 msk @ config_image cfg)"
    using xlat_does_table(1)[of msk cfg] xlat_does_table(1)[of "oam_ntohl msk" "?sw cfg"] by simp_all
  from oam_call_spec[OF b t x handler_does_table(1) x room fresh, of fd] show ?thesis
    by (fastforce simp: image_parts)
qed

lemma oam_cfg_get_call:
  assumes room: "first_index (\<lambda>r. \<not> rq_valid r) (cl_reqs c) = Some i" and fresh: "ids_fresh c"
    and buf: "cl_buf c k = cfg_get_msg"
  shows "\<exists>c' s'. oam_call k fd c s = Some (OAM_E_OK, c', s') \<and> cl_reqs c' = (cl_reqs c)[i := sdk_req_zero]
      \<and> srv_vam s' = srv_vam s \<and> cfg_of_msg (cl_buf c' k) = working_param (srv_vam s)"
proof -
  let ?sw = "\<lambda>c. c\<lparr>bsm_boardcast_period := oam_ntohs (bsm_boardcast_period c)\<rparr>"
  let ?z = "config_of_image (replicate 12 0)" and ?w = "working_param (srv_vam s)"
  have b: "cl_buf c k = msg_hdr 0 0 0 (of_nat CV_SDK_VAM_PARAM_CFG_GET) (of_nat (length (config_image ?z)))
      @ config_image ?z @ replicate 996 0"
    using buf by (simp add: cfg_get_msg_def new_msg_def CV_SDK_MSG_MAX_LEN_def zero_image)
  have t: "CV_SDK_VAM_PARAM_CFG_GET < CV_SDK_REQ_TYPE_END"
    "g_sdk_xlat_table ! CV_SDK_VAM_PARAM_CFG_GET = Some cv_oam_vam_cfg_get_byte_reverse"
    "g_sdk_handler_table ! CV_SDK_VAM_PARAM_CFG_GET = Some cv_oam_vam_cfg_get_cb"
    by (simp_all add: sdk_ids g_sdk_xlat_table_def g_sdk_handler_table_def)
  have y: "xlat_does cv_oam_vam_cfg_get_byte_reverse (config_image ?w) (config_image (?sw ?w))"
    "xlat_does cv_oam_vam_cfg_get_byte_reverse (config_image (?sw ?w)) (config_image ?w)"
    using xlat_does_table(2)[of ?w] xlat_does_table(2)[of "?sw ?w"] by simp_all
  have g: "handler_does cv_oam_vam_cfg_get_cb (config_image (?sw (?sw ?z))) (config_image ?w) s s"
    by (rule handler_does_table(2)) (simp add: image_parts)
  from oam_call_spec[OF b t xlat_does_table(2) xlat_does_table(2) g y room fresh, of fd]
  obtain c' m h where r: "oam_call k fd c s = Some (OAM_E_OK, c', s\<lparr>srv_sent := srv_sent s @ [(srv_latest s, m)]\<rparr>)"
    "length h = MSG_DATA" "cl_buf c' k = h @ config_image ?w @ replicate 996 0" "cl_reqs c' = (cl_reqs c)[i := sdk_req_zero]"
    by (auto simp: image_parts)
  have "cfg_of_msg (cl_buf c' k) = ?w"
    using r(2,3) image_parts(2)[of ?w "[]"] by (simp add: cfg_of_msg_def image_parts)
  then show ?thesis
    by (intro exI[of _ c'] exI[of _ "s\<lparr>srv_sent := srv_sent s @ [(srv_latest s, m)]\<rparr>"]) (simp add: r)
qed

lemma oam_trigger_call:
  assumes room: "first_index (\<lambda>r. \<not> rq_valid r) (cl_reqs c) = Some i" and fresh: "ids_fresh c"
    and buf: "cl_buf c k = bsm_trigger_msg t"
  shows "\<exists>c' s'. oam_call k fd c s = Some (OAM_E_OK, c', s') \<and> srv_vam s' = snd (vam_stop (srv_vam s))"
proof -
  have b: "cl_buf c k = msg_hdr 0 0 0 (of_nat CV_SDK_VAM_BSM_TRIGGER) (of_nat (length [t])) @ [t] @ []"
    using buf by (simp add: bsm_trigger_msg_def new_msg_def)
  have tab: "CV_SDK_VAM_BSM_TRIGGER < CV_SDK_REQ_TYPE_END"
    "g_sdk_xlat_table ! CV_SDK_VAM_BSM_TRIGGER = Some cv_oam_vam_bsm_trigger_byte_reverse"
    "g_sdk_handler_table ! CV_SDK_VAM_BSM_TRIGGER = Some cv_oam_vam_bsm_trigger_cb"
    by (simp_all add: sdk_ids g_sdk_xlat_table_def g_sdk_handler_table_def)
  from oam_call_spec[OF b tab xlat_does_table(3) xlat_does_table(3) handler_does_table(3)
      xlat_does_table(3) xlat_does_table(3) room fresh, of fd] show ?thesis
    by fastforce
qed

section \<open>Properties\<close>


lemma new_client_ready:
  "first_index (\<lambda>r. \<not> rq_valid r) (cl_reqs (cv_oam_client_new b)) = Some 0" "ids_fresh (cv_oam_client_new b)"
proof -
  have "[0..<255] ! 0 = (0 :: nat)" by (subst nth_upt) simp_all
  then show "first_index (\<lambda>r. \<not> rq_valid r) (cl_reqs (cv_oam_client_new b)) = Some 0"
    unfolding first_index_def find_Some_iff
    by (intro exI[of _ 0]) (simp add: cv_oam_client_new_def CV_SDK_MAX_REQ_def sdk_req_zero_def)
  show "ids_fresh (cv_oam_client_new b)" by (simp add: ids_fresh_def cv_oam_client_new_def sdk_req_zero_def)
qed


text \<open>C39. Starting the broadcast from the shell stops it: the conversion of the one byte of the request swaps it as
  32 bits and keeps the low byte, which is always zero, so the program is told to stop, whatever the
  shell asked for, and answers \<open>OAM_E_OK\<close>.\<close>

theorem oam_trigger_always_stops:
  assumes "first_index (\<lambda>r. \<not> rq_valid r) (cl_reqs c) = Some i" "ids_fresh c"
    and "cl_buf c k = bsm_trigger_msg t"
  shows "\<exists>c' s'. oam_call k fd c s = Some (OAM_E_OK, c', s') \<and> srv_vam s' = snd (vam_stop (srv_vam s))"
  by (rule oam_trigger_call[OF assms])

lemma oam_trigger_always_stops_witness:
  "\<forall>s. \<exists>c' s'. oam_call 0 5 (cv_oam_client_new (\<lambda>k. bsm_trigger_msg 1)) s = Some (OAM_E_OK, c', s')
    \<and> srv_vam s' = snd (vam_stop (srv_vam s))"
  by (rule allI, rule oam_trigger_always_stops[OF new_client_ready, where t = 1])
    (simp add: cv_oam_client_new_def)

text \<open>The message to set the printed output is a byte long, and the conversion reads four behind its header.\<close>

lemma oam_set_print_overruns:
  assumes "cl_buf c k = set_print_msg t"
  shows "sdk_api_request sent k c = None"
proof -
  have b: "cl_buf c k = msg_hdr 0 0 0 (of_nat CV_SDK_VAM_SET_PRINT) 1 @ [t]"
    using assms by (simp add: set_print_msg_def new_msg_def)
  have x: "xlat_data CV_SDK_VAM_SET_PRINT MSG_DATA CV_SDK_DATA_HTON (msg_hdr 0 0 0 (of_nat CV_SDK_VAM_SET_PRINT) 1 @ [t]) = None"
    by (simp add: xlat_data_def g_sdk_xlat_table_def sdk_ids cv_oam_vam_set_print_byte_reverse_def rd32_def MSG_DATA_def)
  have i: "unat (of_nat CV_SDK_VAM_SET_PRINT :: u16) = CV_SDK_VAM_SET_PRINT" by (simp add: sdk_ids)
  have "\<not> CV_SDK_REQ_TYPE_END < CV_SDK_VAM_SET_PRINT" by (simp add: sdk_ids)
  then show ?thesis
    by (simp add: sdk_api_request_def b i x OAM_E_OK_def)
qed

text \<open>What the handlers and the sending leave alone.\<close>

lemma handler_frame:
  assumes "g_sdk_handler_table ! sdk_id = Some g" "sdk_id < CV_SDK_REQ_TYPE_END" "g data b s = Some (ret, b', s')"
  shows "srv_sent s' = srv_sent s \<and> srv_latest s' = srv_latest s \<and> srv_client s' = srv_client s \<and> srv_cnt s' = srv_cnt s"
proof -
  have "sdk_id = 0 \<or> sdk_id = 1 \<or> sdk_id = 2 \<or> sdk_id = 3" using assms(2) by (auto simp: sdk_ids)
  then show ?thesis
    using assms(1,3)
    by (elim disjE) (auto simp: g_sdk_handler_table_def cv_oam_vam_cfg_get_cb_def cv_oam_vam_cfg_set_cb_def
        cv_oam_vam_bsm_trigger_cb_def cv_oam_vam_set_print_cb_def cv_oam_vam_cfg_set_def cv_oam_vam_bsm_trigger_def
        Let_def split: bind_splits)
qed

lemma send_msg_frame:
  assumes "cv_oam_send_msg sent fd mt msg w b s = Some (st, s')"
  shows "srv_latest s' = srv_latest s \<and> srv_client s' = srv_client s \<and> srv_cnt s' = srv_cnt s
    \<and> (srv_sent s' = srv_sent s \<or> (\<exists>m. srv_sent s' = srv_sent s @ [(fd, m)]))"
  using assms by (auto simp: cv_oam_send_msg_def split: bind_splits option.splits if_splits)

lemma msg_handler_frame:
  assumes "cv_oam_sdk_msg_handler sent msg b s = Some s'"
  shows "srv_latest s' = srv_latest s \<and> srv_client s' = srv_client s \<and> srv_cnt s' = srv_cnt s
    \<and> (srv_sent s' = srv_sent s \<or> (\<exists>m. srv_sent s' = srv_sent s @ [(srv_latest s, m)]))"
  using assms unfolding cv_oam_sdk_msg_handler_def
  by (auto simp: Let_def not_le split: bind_splits option.splits if_splits
      dest!: send_msg_frame) (metis handler_frame)+

section \<open>Connections are never given back\<close>

text \<open>A client that connects and goes away again.\<close>

definition serve_client :: "oam_server option \<Rightarrow> int \<Rightarrow> oam_server option" where
  "serve_client so fd = do { s \<leftarrow> so; s \<leftarrow> server_accept fd s; cv_oam_rx_step True fd [] s }"

definition no_valid_client :: "oam_server \<Rightarrow> bool" where
  "no_valid_client s \<longleftrightarrow> length (srv_client s) = OAM_MAX_CLIENT_NUM \<and> (\<forall>x \<in> set (srv_client s). \<not> oc_valid x)"

lemma free_client_idle:
  assumes "no_valid_client s"
  shows "cv_oam_server_free_client fd s = s"
proof -
  have "free_client_step fd s i = s" if "i < OAM_MAX_CLIENT_NUM" for i
    using assms that by (auto simp: free_client_step_def no_valid_client_def)
  moreover have "set is \<subseteq> {..<OAM_MAX_CLIENT_NUM} \<Longrightarrow> foldl (free_client_step fd) s is = s" for "is"
    using calculation by (induction "is") auto
  ultimately show ?thesis by (simp add: cv_oam_server_free_client_def subset_iff)
qed

lemma accept_step:
  assumes s: "no_valid_client s" and fd: "0 < fd" "oc_fd (srv_client s ! 0) \<noteq> fd" and room: "srv_cnt s \<le> of_nat OAM_MAX_CLIENT_NUM"
  obtains s' where "server_accept fd s = Some s'" "no_valid_client s'" "oc_fd (srv_client s' ! 0) = fd"
    "srv_cnt s' = srv_cnt s + 1" "srv_latest s' = fd" "srv_sent s' = srv_sent s"
proof -
  let ?s = "s\<lparr>srv_latest := fd, srv_rx := srv_rx s @ [fd]\<rparr>"
  let ?s1 = "?s\<lparr>srv_client := (srv_client s)[0 := (srv_client s ! 0)\<lparr>oc_fd := fd\<rparr>], srv_cnt := srv_cnt s + 1\<rparr>"
  have l: "0 < length (srv_client s)" using s by (simp add: no_valid_client_def OAM_MAX_CLIENT_NUM_def)
  then have v: "\<not> oc_valid (srv_client s ! 0)" using s nth_mem[OF l] unfolding no_valid_client_def by blast
  have "[0..<OAM_MAX_CLIENT_NUM] = 0 # [1..<OAM_MAX_CLIENT_NUM]" by (simp add: OAM_MAX_CLIENT_NUM_def upt_rec)
  then have add: "cv_oam_server_add_client fd ?s = ?s1"
    using fd(2) v by (simp add: cv_oam_server_add_client_def)
  have acc: "server_accept fd s = Some ?s1"
    using add room fd(1) by (simp add: server_accept_def Let_def not_less)
  have n: "no_valid_client ?s1"
    using s v by (auto simp: no_valid_client_def dest: subsetD[OF set_update_subset_insert])
  show ?thesis by (rule that[OF acc n]) (use l in simp_all)
qed

lemma serve_client_step:
  assumes s: "no_valid_client s" and fd: "0 < fd" "oc_fd (srv_client s ! 0) \<noteq> fd" and room: "srv_cnt s \<le> of_nat OAM_MAX_CLIENT_NUM"
  shows "\<exists>s'. serve_client (Some s) fd = Some s' \<and> no_valid_client s' \<and> oc_fd (srv_client s' ! 0) = fd
    \<and> srv_cnt s' = srv_cnt s + 1"
proof -
  from accept_step[OF s fd room] obtain s' where a: "server_accept fd s = Some s'" "no_valid_client s'"
    "oc_fd (srv_client s' ! 0) = fd" "srv_cnt s' = srv_cnt s + 1" "srv_latest s' = fd" "srv_sent s' = srv_sent s" .
  then show ?thesis
    by (simp add: serve_client_def cv_oam_rx_step_def free_client_idle Let_def no_valid_client_def)
qed

lemma server_init_idle: "no_valid_client (cv_oam_server_init v)" "srv_cnt (cv_oam_server_init v) = 0"
    "oc_fd (srv_client (cv_oam_server_init v) ! 0) = 0" "srv_sent (cv_oam_server_init v) = []"
  by (simp_all add: no_valid_client_def cv_oam_server_init_def OAM_MAX_CLIENT_NUM_def)

text \<open>The server answers the connection it accepted last: every receiving thread is given the address of the one
  variable with the last accepted socket and reads it when it answers. So once a second client has
  connected, a request of the first is carried out, and its answer goes to the second.\<close>

theorem oam_answers_last_accepted:
  assumes "server_accept fd2 s = Some s1" "cv_oam_rx_step sent fd1 bs s1 = Some s2" "bs \<noteq> []"
  shows "srv_sent s2 = srv_sent s \<or> (\<exists>m. srv_sent s2 = srv_sent s @ [(fd2, m)])"
proof -
  have loop: "srv_latest (add_client_loop fd is s) = srv_latest s \<and> srv_sent (add_client_loop fd is s) = srv_sent s" for fd "is" s
    by (induction "is") auto
  have "srv_latest s1 = fd2 \<and> srv_sent s1 = srv_sent s"
    using assms(1) loop by (auto simp: server_accept_def cv_oam_server_add_client_def Let_def split: if_splits)
  moreover have "srv_sent s2 = srv_sent s1 \<or> (\<exists>m. srv_sent s2 = srv_sent s1 @ [(srv_latest s1, m)])"
    using assms(2,3) msg_handler_frame
    by (auto simp: cv_oam_rx_step_def cv_oam_frame_proc_def split: bind_splits if_splits)
  ultimately show ?thesis by simp
qed

lemma oam_answers_last_accepted_witness:
  "\<forall>v. \<exists>s1 s2 m. server_accept 6 (the (server_accept 5 (cv_oam_server_init v))) = Some s1
    \<and> cv_oam_rx_step True 5 (cmd_frame CV_OAM_L2_MSG_CMD_REQ (msg_hdr 0 0 0 0x0200 0x0100 @ [0])) s1 = Some s2
    \<and> srv_sent s2 = [(6, m)]"
proof
  fix v
  let ?s = "cv_oam_server_init v"
  from accept_step[OF server_init_idle(1), of 5 v] obtain s0 where s0: "server_accept 5 ?s = Some s0"
    "no_valid_client s0" "oc_fd (srv_client s0 ! 0) = 5" "srv_cnt s0 = 1" and sent: "srv_sent s0 = []"
    by (auto simp: server_init_idle OAM_MAX_CLIENT_NUM_def)
  from accept_step[OF s0(2), of 6] obtain s1 where s1: "server_accept 6 s0 = Some s1" "srv_latest s1 = 6"
    "srv_sent s1 = srv_sent s0"
    by (auto simp: s0 OAM_MAX_CLIENT_NUM_def)
  let ?m = "cmd_frame CV_OAM_L2_MSG_CMD_REQ (msg_hdr 0 0 0 0x0200 0x0100 @ [0])"
  have "g_sdk_xlat_table ! CV_SDK_VAM_BSM_TRIGGER = Some cv_oam_vam_bsm_trigger_byte_reverse"
    "g_sdk_handler_table ! CV_SDK_VAM_BSM_TRIGGER = Some cv_oam_vam_bsm_trigger_cb"
    "CV_SDK_VAM_BSM_TRIGGER < CV_SDK_REQ_TYPE_END"
    by (simp_all add: sdk_ids g_sdk_xlat_table_def g_sdk_handler_table_def)
  from server_request[OF this(3,1,2) xlat_does_table(3) handler_does_table(3) xlat_does_table(3), of 0 5 0 0 0 s1]
  obtain s2 m where s2: "cv_oam_rx_step True 5 ?m s1 = Some s2" "srv_sent s2 = [(6, m)]"
    by (auto simp: sdk_ids oam_swap_consts s1 sent)
  have "?m \<noteq> []" by (simp add: cmd_frame_def le16_def)
  from oam_answers_last_accepted[OF s1(1) s2(1) this]
  have "srv_sent s2 = srv_sent s0 \<or> (\<exists>m. srv_sent s2 = srv_sent s0 @ [(6, m)])" .
  then show "\<exists>s1 s2 m. server_accept 6 (the (server_accept 5 ?s)) = Some s1
    \<and> cv_oam_rx_step True 5 ?m s1 = Some s2 \<and> srv_sent s2 = [(6, m)]"
    using s0(1) s1(1) s2 by auto
qed


lemma serve_clients:
  assumes "no_valid_client s" "\<forall>fd \<in> set fds. 0 < fd" "successively (\<noteq>) (oc_fd (srv_client s ! 0) # fds)"
    and "unat (srv_cnt s) + length fds \<le> 11"
  shows "\<exists>s'. foldl serve_client (Some s) fds = Some s' \<and> no_valid_client s' \<and> unat (srv_cnt s') = unat (srv_cnt s) + length fds"
  using assms
proof (induction fds arbitrary: s)
  case (Cons fd fds)
  have room: "srv_cnt s \<le> of_nat OAM_MAX_CLIENT_NUM"
    using Cons.prems(4) by (simp add: OAM_MAX_CLIENT_NUM_def word_le_nat_alt)
  obtain s1 where s1: "serve_client (Some s) fd = Some s1" "no_valid_client s1" "oc_fd (srv_client s1 ! 0) = fd"
    "srv_cnt s1 = srv_cnt s + 1"
    using serve_client_step[OF Cons.prems(1) _ _ room, of fd] Cons.prems(2,3) by auto
  have "unat (srv_cnt s1) = unat (srv_cnt s) + 1"
    using Cons.prems(4) by (simp add: s1(4) unat_word_ariths)
  then show ?case
    using Cons.IH[OF s1(2)] Cons.prems(2-4) s1(1,3) by fastforce
qed auto

text \<open>A connection is counted when it is accepted and never given back, since no entry of the table of clients is ever
  marked valid. After eleven clients that have come and gone, each on another socket than the one before,
  the server accepts nobody any more: the loop only sleeps.\<close>

theorem oam_server_fills_up:
  assumes "length fds = 11" "\<forall>fd \<in> set fds. 0 < fd" "successively (\<noteq>) fds"
  shows "\<exists>s. foldl serve_client (Some (cv_oam_server_init v)) fds = Some s \<and> (\<forall>fd. server_accept fd s = None)"
proof -
  have "successively (\<noteq>) (0 # fds)" using assms by (cases fds) auto
  then obtain s where s: "foldl serve_client (Some (cv_oam_server_init v)) fds = Some s" "unat (srv_cnt s) = 11"
    using serve_clients[OF server_init_idle(1), of fds v] assms(1,2) by (auto simp: server_init_idle)
  have "of_nat OAM_MAX_CLIENT_NUM < srv_cnt s" using s(2) by (simp add: word_less_nat_alt OAM_MAX_CLIENT_NUM_def)
  then show ?thesis using s(1) by (auto simp: server_accept_def)
qed

lemma oam_server_fills_up_witness:
  "\<forall>v. \<exists>s. foldl serve_client (Some (cv_oam_server_init v)) [5, 6, 5, 6, 5, 6, 5, 6, 5, 6, 5] = Some s
    \<and> (\<forall>fd. server_accept fd s = None)"
  by (rule allI, rule oam_server_fills_up) auto

end
