(* ===== verification/LoopBuf.thy ===== *)
theory LoopBuf
  imports Prelude
begin

text \<open>
  The ring of bytes between a terminal and the command shell, \<open>app/oam/agent/cli/common/loop_buf.c\<close>, and
  the queue it stands for. One of its 4096 cells always stays empty. Its mutex makes the two transfers
  atomic; the size and the empty test are read without it.
\<close>

section \<open>Operations\<close>

definition LOOP_BUF_LEN :: u32 where "LOOP_BUF_LEN = 4096"

record loop_buf =
  lb_buffer :: bytes
  lb_in :: u32
  lb_out :: u32

definition init_loop_buf :: loop_buf where
  "init_loop_buf = \<lparr>lb_buffer = replicate (unat LOOP_BUF_LEN) 0, lb_in = 0, lb_out = 0\<rparr>"

definition loop_buf_sz :: "loop_buf \<Rightarrow> u32" where
  "loop_buf_sz b = (lb_in b - lb_out b + LOOP_BUF_LEN) mod LOOP_BUF_LEN"

definition loop_buf_remain :: "loop_buf \<Rightarrow> u32" where
  "loop_buf_remain b = (lb_out b + LOOP_BUF_LEN - 1 - lb_in b) mod LOOP_BUF_LEN"

definition loop_buf_isfull :: "loop_buf \<Rightarrow> bool" where
  "loop_buf_isfull b \<longleftrightarrow> (lb_in b + 1) mod LOOP_BUF_LEN = lb_out b"

definition loop_buf_isempty :: "loop_buf \<Rightarrow> bool" where
  "loop_buf_isempty b \<longleftrightarrow> lb_out b = lb_in b"

definition loop_buf_reset :: "loop_buf \<Rightarrow> loop_buf" where
  "loop_buf_reset b = b\<lparr>lb_in := 0, lb_out := 0\<rparr>"

definition push_byte :: "loop_buf \<Rightarrow> u8 \<Rightarrow> loop_buf" where
  "push_byte b x = b\<lparr>lb_buffer := (lb_buffer b)[unat (lb_in b) := x], lb_in := (lb_in b + 1) mod LOOP_BUF_LEN\<rparr>"

text \<open>\<open>p\<close> are the \<open>len\<close> bytes of the caller; the result is how many were taken.\<close>

definition loop_buf_push_n :: "bytes \<Rightarrow> loop_buf \<Rightarrow> nat \<times> loop_buf" where
  "loop_buf_push_n p b =
     (if unat (loop_buf_remain b) < length p then (0, b)
      else (length p, foldl push_byte b p))"

text \<open>The loop of \<open>loop_buf_pop_n\<close>, which ends behind a carriage return.\<close>

fun pop_loop :: "nat \<Rightarrow> loop_buf \<Rightarrow> bytes \<times> loop_buf" where
  "pop_loop 0 b = ([], b)"
| "pop_loop (Suc n) b =
     (let x = lb_buffer b ! unat (lb_out b);
          b = b\<lparr>lb_out := (lb_out b + 1) mod LOOP_BUF_LEN\<rparr>
      in if x = 13 then ([x], b)
         else let (xs, b) = pop_loop n b in (x # xs, b))"

definition loop_buf_pop_n :: "nat \<Rightarrow> loop_buf \<Rightarrow> bytes \<times> loop_buf" where
  "loop_buf_pop_n len b =
     (if len = 0 then ([], b) else pop_loop (min len (unat (loop_buf_sz b))) b)"

section \<open>The queue it stands for\<close>

definition loop_buf_ok :: "loop_buf \<Rightarrow> bool" where
  "loop_buf_ok b \<longleftrightarrow> length (lb_buffer b) = 4096 \<and> unat (lb_in b) < 4096 \<and> unat (lb_out b) < 4096"

definition lb_used :: "loop_buf \<Rightarrow> nat" where
  "lb_used b = (unat (lb_in b) + 4096 - unat (lb_out b)) mod 4096"

definition contents :: "loop_buf \<Rightarrow> bytes" where
  "contents b = map (\<lambda>k. lb_buffer b ! ((unat (lb_out b) + k) mod 4096)) [0..<lb_used b]"

lemma length_contents [simp]: "length (contents b) = lb_used b"
  by (simp add: contents_def)

lemma used_bound: "lb_used b < 4096"
  by (simp add: lb_used_def)

lemma unat_mod_len: "unat (x mod LOOP_BUF_LEN) = unat x mod 4096"
  by (simp add: LOOP_BUF_LEN_def unat_mod_distrib)

text \<open>Positions in the ring, without the remainder.\<close>

lemma ring_pos: "a < 4096 \<Longrightarrow> k \<le> 4096 \<Longrightarrow> (a + k) mod 4096 = (if a + k < 4096 then a + k else a + k - 4096)"
  for a k :: nat
  by (simp add: mod_if)

lemma ring_next: "a < 4096 \<Longrightarrow> Suc a mod 4096 = (if a = 4095 then 0 else Suc a)" for a :: nat
  by auto

lemma used_cases:
  assumes "loop_buf_ok b"
  shows "lb_used b = (if unat (lb_out b) \<le> unat (lb_in b) then unat (lb_in b) - unat (lb_out b)
    else unat (lb_in b) + 4096 - unat (lb_out b))"
proof (cases "unat (lb_out b) \<le> unat (lb_in b)")
  case True
  then have "unat (lb_in b) + 4096 - unat (lb_out b) = (unat (lb_in b) - unat (lb_out b)) + 4096" by simp
  moreover have "unat (lb_in b) - unat (lb_out b) < 4096" using assms less_imp_diff_less by (simp add: loop_buf_ok_def)
  ultimately show ?thesis using True by (simp only: lb_used_def mod_add_self2 mod_less if_True)
qed (use assms in \<open>simp add: lb_used_def loop_buf_ok_def\<close>)

lemma sz_used:
  assumes "loop_buf_ok b"
  shows "unat (loop_buf_sz b) = lb_used b"
proof -
  have e: "lb_in b - lb_out b + LOOP_BUF_LEN = lb_in b + LOOP_BUF_LEN - lb_out b" by (simp add: algebra_simps)
  have "unat (lb_in b + LOOP_BUF_LEN - lb_out b) = unat (lb_in b) + 4096 - unat (lb_out b)"
    using assms by (simp add: loop_buf_ok_def LOOP_BUF_LEN_def unat_sub_if' unat_word_ariths)
  then show ?thesis by (simp only: loop_buf_sz_def unat_mod_len lb_used_def e)
qed

lemma remain_used:
  assumes "loop_buf_ok b"
  shows "unat (loop_buf_remain b) = 4095 - lb_used b"
proof -
  define i o' where "i = unat (lb_in b)" and "o' = unat (lb_out b)"
  have a: "i < 4096" "o' < 4096" using assms by (auto simp: loop_buf_ok_def i_def o'_def)
  have u: "unat (lb_out b + LOOP_BUF_LEN - 1 - lb_in b) = o' + 4095 - i"
    using a unfolding i_def o'_def by (simp add: LOOP_BUF_LEN_def unat_sub_if' unat_word_ariths)
  have "(o' + 4095 - i) mod 4096 = 4095 - (if o' \<le> i then i - o' else i + 4096 - o')"
  proof (cases "o' \<le> i")
    case False
    then have e: "o' + 4095 - i = (o' - i - 1) + 4096" by simp
    have "(o' + 4095 - i) mod 4096 = o' - i - 1"
      using a unfolding e by (simp only: mod_add_self2) simp
    then show ?thesis using False a by simp
  qed (use a in simp)
  then show ?thesis unfolding loop_buf_remain_def unat_mod_len u used_cases[OF assms] i_def o'_def .
qed

lemma push_byte_ok: "loop_buf_ok b \<Longrightarrow> loop_buf_ok (push_byte b x)"
  by (simp add: loop_buf_ok_def push_byte_def unat_mod_len)

lemma succ_pos: "unat (i :: u32) < 4096 \<Longrightarrow> unat ((i + 1) mod LOOP_BUF_LEN) = Suc (unat i) mod 4096"
  by (subst unat_mod_len) (simp add: unat_word_ariths)

lemma push_byte_contents:
  assumes ok: "loop_buf_ok b" and room: "lb_used b < 4095"
  shows "contents (push_byte b x) = contents b @ [x]" "lb_used (push_byte b x) = Suc (lb_used b)"
proof -
  define i o' where "i = unat (lb_in b)" and "o' = unat (lb_out b)"
  have io: "i < 4096" "o' < 4096" "length (lb_buffer b) = 4096" using ok by (auto simp: loop_buf_ok_def i_def o'_def)
  have u: "lb_used b = (if o' \<le> i then i - o' else i + 4096 - o')" using used_cases[OF ok] by (simp add: i_def o'_def)
  have n: "unat (lb_in (push_byte b x)) = Suc i mod 4096" "unat (lb_out (push_byte b x)) = o'"
    "lb_buffer (push_byte b x) = (lb_buffer b)[i := x]"
    using ok by (simp_all add: push_byte_def succ_pos loop_buf_ok_def i_def o'_def)
  show used: "lb_used (push_byte b x) = Suc (lb_used b)"
    using room io unfolding used_cases[OF push_byte_ok[OF ok]] n u by (auto simp: ring_next split: if_splits)
  have at_end: "(o' + lb_used b) mod 4096 = i"
    using io used_bound[of b] unfolding ring_pos[OF io(2) less_imp_le[OF used_bound]] u by auto
  have other: "(o' + k) mod 4096 \<noteq> i" if "k < lb_used b" for k
  proof -
    have k: "k \<le> 4096" using that used_bound[of b] by simp
    show ?thesis using that io unfolding ring_pos[OF io(2) k] u by (auto split: if_splits)
  qed
  have "map (\<lambda>k. (lb_buffer b)[i := x] ! ((o' + k) mod 4096)) [0..<lb_used b] =
      map (\<lambda>k. lb_buffer b ! ((o' + k) mod 4096)) [0..<lb_used b]"
    using other[THEN not_sym] by (intro map_cong) (auto simp: nth_list_update_neq)
  then show "contents (push_byte b x) = contents b @ [x]"
    unfolding contents_def used n using at_end io by (simp add: o'_def)
qed

lemma push_bytes:
  assumes "loop_buf_ok b" "length p \<le> 4095 - lb_used b"
  shows "loop_buf_ok (foldl push_byte b p) \<and> contents (foldl push_byte b p) = contents b @ p"
  using assms
proof (induction p arbitrary: b)
  case (Cons x p)
  have room: "lb_used b < 4095" using Cons.prems(2) by simp
  then show ?case
    using Cons.IH[OF push_byte_ok[OF Cons.prems(1)], of x] push_byte_contents[OF Cons.prems(1) room] Cons.prems(2)
    by simp
qed simp

lemma pop_byte:
  assumes ok: "loop_buf_ok b" and c: "contents b = x # xs"
  defines "b' \<equiv> b\<lparr>lb_out := (lb_out b + 1) mod LOOP_BUF_LEN\<rparr>"
  shows "lb_buffer b ! unat (lb_out b) = x" "loop_buf_ok b'" "contents b' = xs"
proof -
  define i o' where "i = unat (lb_in b)" and "o' = unat (lb_out b)"
  have io: "i < 4096" "o' < 4096" using ok by (auto simp: loop_buf_ok_def i_def o'_def)
  have u: "lb_used b = (if o' \<le> i then i - o' else i + 4096 - o')" using used_cases[OF ok] by (simp add: i_def o'_def)
  have l: "lb_used b = Suc (length xs)" using length_contents[of b] c by simp
  have n: "unat (lb_in b') = i" "unat (lb_out b') = Suc o' mod 4096" "lb_buffer b' = lb_buffer b"
    using ok by (simp_all add: b'_def succ_pos loop_buf_ok_def i_def o'_def)
  show "loop_buf_ok b'" using ok n(2) by (simp add: loop_buf_ok_def b'_def)
  have "contents b = lb_buffer b ! o' # map (\<lambda>k. lb_buffer b ! ((o' + Suc k) mod 4096)) [0..<length xs]"
    unfolding contents_def l using io by (simp add: o'_def upt_rec[of 0] map_Suc_upt[symmetric] del: upt_Suc)
  then have h: "lb_buffer b ! o' = x" "map (\<lambda>k. lb_buffer b ! ((o' + Suc k) mod 4096)) [0..<length xs] = xs"
    using c by simp_all
  show "lb_buffer b ! unat (lb_out b) = x" using h(1) by (simp add: o'_def)
  have used: "lb_used b' = length xs"
    using l io unfolding used_cases[OF \<open>loop_buf_ok b'\<close>] n u by (auto simp: ring_next split: if_splits)
  have "(Suc o' mod 4096 + k) mod 4096 = (o' + Suc k) mod 4096" for k by (simp add: mod_simps)
  then show "contents b' = xs"
    unfolding contents_def used n(2,3) using h(2) by simp
qed

text \<open>What one read takes of a queue: at most \<open>n\<close> bytes, none behind the first carriage return.\<close>

fun one_line :: "nat \<Rightarrow> bytes \<Rightarrow> bytes" where
  "one_line 0 q = []"
| "one_line (Suc n) [] = []"
| "one_line (Suc n) (x # q) = (if x = 13 then [x] else x # one_line n q)"

lemma one_line_min: "one_line (min n (length q)) q = one_line n q"
  by (induction n q rule: one_line.induct) auto

lemma one_line_length: "length (one_line n q) \<le> n"
  by (induction n q rule: one_line.induct) auto

lemma one_line_prefix: "\<exists>r. q = one_line n q @ r"
  by (induction n q rule: one_line.induct) auto

lemma one_line_stops: "13 \<notin> set (butlast (one_line n q))"
  by (induction n q rule: one_line.induct) auto

lemma one_line_whole: "length (one_line n q) = min n (length q) \<or> (one_line n q \<noteq> [] \<and> last (one_line n q) = 13)"
  by (induction n q rule: one_line.induct) auto

lemma pop_loop_contents:
  assumes "loop_buf_ok b" "n \<le> lb_used b"
  shows "fst (pop_loop n b) = one_line n (contents b) \<and> loop_buf_ok (snd (pop_loop n b)) \<and>
    contents (snd (pop_loop n b)) = drop (length (one_line n (contents b))) (contents b)"
  using assms
proof (induction n arbitrary: b)
  case (Suc n)
  define b' where "b' = b\<lparr>lb_out := (lb_out b + 1) mod LOOP_BUF_LEN\<rparr>"
  obtain x xs where c: "contents b = x # xs" using Suc.prems(2) length_contents[of b] by (cases "contents b") auto
  have p: "lb_buffer b ! unat (lb_out b) = x" "loop_buf_ok b'" "contents b' = xs"
    unfolding b'_def by (rule pop_byte[OF Suc.prems(1) c])+
  have "n \<le> lb_used b'" using Suc.prems(2) c p(3) length_contents[of b] length_contents[of b'] by simp
  note Suc.IH[OF p(2) this]
  then show ?case using p c by (simp add: b'_def Let_def split_beta)
qed simp

section \<open>Properties\<close>

lemma init_loop_buf_empty: "loop_buf_ok init_loop_buf \<and> contents init_loop_buf = []"
  by (simp add: loop_buf_ok_def init_loop_buf_def contents_def lb_used_def LOOP_BUF_LEN_def)

lemma reset_empty: "loop_buf_ok b \<Longrightarrow> loop_buf_ok (loop_buf_reset b) \<and> contents (loop_buf_reset b) = []"
  by (simp add: loop_buf_ok_def loop_buf_reset_def contents_def lb_used_def)

lemma empty_contents:
  assumes "loop_buf_ok b"
  shows "loop_buf_isempty b \<longleftrightarrow> contents b = []"
proof -
  have "contents b = [] \<longleftrightarrow> lb_used b = 0" using length_contents[of b] by (metis length_0_conv)
  also have "\<dots> \<longleftrightarrow> unat (lb_in b) = unat (lb_out b)"
    using assms unfolding used_cases[OF assms] by (auto simp: loop_buf_ok_def)
  also have "\<dots> \<longleftrightarrow> lb_out b = lb_in b" by (metis word_unat_eq_iff)
  finally show ?thesis by (simp add: loop_buf_isempty_def)
qed

lemma full_contents:
  assumes "loop_buf_ok b"
  shows "loop_buf_isfull b \<longleftrightarrow> length (contents b) = 4095"
proof -
  have i: "unat (lb_in b) < 4096" "unat (lb_out b) < 4096" using assms by (auto simp: loop_buf_ok_def)
  have "loop_buf_isfull b \<longleftrightarrow> Suc (unat (lb_in b)) mod 4096 = unat (lb_out b)"
    unfolding loop_buf_isfull_def using succ_pos[OF i(1)] by (metis word_unat_eq_iff)
  also have "\<dots> \<longleftrightarrow> lb_used b = 4095"
    using i unfolding used_cases[OF assms] ring_next[OF i(1)] by auto
  finally show ?thesis by simp
qed

lemma push_n_contents:
  assumes "loop_buf_ok b"
  shows "loop_buf_ok (snd (loop_buf_push_n p b)) \<and>
    (if length (contents b) + length p \<le> 4095
     then fst (loop_buf_push_n p b) = length p \<and> contents (snd (loop_buf_push_n p b)) = contents b @ p
     else loop_buf_push_n p b = (0, b))"
proof (cases "length p \<le> 4095 - lb_used b")
  case True
  then show ?thesis
    using push_bytes[OF assms True] used_bound[of b] by (auto simp: loop_buf_push_n_def remain_used[OF assms])
qed (use assms in \<open>auto simp: loop_buf_push_n_def remain_used\<close>)

lemma pop_n_contents:
  assumes "loop_buf_ok b"
  shows "loop_buf_ok (snd (loop_buf_pop_n len b)) \<and> fst (loop_buf_pop_n len b) = one_line len (contents b) \<and>
    contents b = fst (loop_buf_pop_n len b) @ contents (snd (loop_buf_pop_n len b))"
proof (cases "len = 0")
  case False
  have m: "one_line (min len (lb_used b)) (contents b) = one_line len (contents b)"
    using one_line_min[of len "contents b"] by simp
  obtain r where "contents b = one_line len (contents b) @ r" using one_line_prefix by blast
  then have "contents b = one_line len (contents b) @ drop (length (one_line len (contents b))) (contents b)"
    by (metis append_eq_conv_conj)
  then show ?thesis
    using pop_loop_contents[OF assms, of "min len (lb_used b)"] False
    by (simp add: loop_buf_pop_n_def sz_used[OF assms] m)
qed (use assms in \<open>simp add: loop_buf_pop_n_def\<close>)

section \<open>What the reader of lines relies on\<close>

locale byte_queue =
  fixes ok :: "'q \<Rightarrow> bool"
    and bytes_of :: "'q \<Rightarrow> bytes"
    and push :: "bytes \<Rightarrow> 'q \<Rightarrow> nat \<times> 'q"
    and pop :: "nat \<Rightarrow> 'q \<Rightarrow> bytes \<times> 'q"
    and is_empty :: "'q \<Rightarrow> bool"
    and room :: nat
  assumes push: "ok q \<Longrightarrow> length (bytes_of q) + length p \<le> room \<Longrightarrow>
      ok (snd (push p q)) \<and> bytes_of (snd (push p q)) = bytes_of q @ p"
    and pop: "ok q \<Longrightarrow> ok (snd (pop n q)) \<and> bytes_of q = fst (pop n q) @ bytes_of (snd (pop n q))"
    and pop_stops: "ok q \<Longrightarrow> 13 \<notin> set (butlast (fst (pop n q)))"
    and pop_whole: "ok q \<Longrightarrow> length (fst (pop n q)) = min n (length (bytes_of q)) \<or>
      (fst (pop n q) \<noteq> [] \<and> last (fst (pop n q)) = 13)"
    and is_empty: "ok q \<Longrightarrow> is_empty q \<longleftrightarrow> bytes_of q = []"
begin

lemma pop_line:
  assumes q: "ok q" "bytes_of q = s @ 13 # rest" and s: "13 \<notin> set s" "length s < n"
  shows "fst (pop n q) = s @ [13] \<and> ok (snd (pop n q)) \<and> bytes_of (snd (pop n q)) = rest"
proof -
  define b where "b = fst (pop n q)"
  have e: "s @ 13 # rest = b @ bytes_of (snd (pop n q))" using pop[OF q(1), of n] q(2) by (simp add: b_def)
  then have b: "b = take (length b) (s @ 13 # rest)" by simp
  have "length s < length b"
  proof (rule ccontr)
    assume "\<not> length s < length b"
    then have "b = take (length b) s" using b by simp
    then have "set b \<subseteq> set s" by (metis set_take_subset)
    then have "length b = min n (length (bytes_of q))" using pop_whole[OF q(1), of n] s(1) unfolding b_def by (metis last_in_set subsetD)
    then show False using q(2) s(2) \<open>\<not> length s < length b\<close> by simp
  qed
  moreover have "\<not> length s + 1 < length b"
  proof
    assume l: "length s + 1 < length b"
    then have "butlast b = take (length b - 1) (s @ 13 # rest)" using b by (metis butlast_take e le_add1 length_append)
    moreover define m where "m = length b - 2 - length s"
    then have m: "length b - 1 = length s + Suc m" using l by simp
    ultimately have "butlast b = s @ 13 # take m rest" unfolding m by simp
    then have "13 \<in> set (butlast b)" by simp
    then show False using pop_stops[OF q(1), of n] by (simp add: b_def)
  qed
  ultimately have "length b = length s + 1" by simp
  then have "b = s @ [13]" using b by simp
  then show ?thesis using e pop[OF q(1), of n] by (simp add: b_def)
qed

lemma push_line:
  assumes "ok q" "bytes_of q = []" "length s < room"
  shows "ok (snd (push (s @ [13]) q)) \<and> bytes_of (snd (push (s @ [13]) q)) = s @ [13]"
  using push[OF assms(1), of "s @ [13]"] assms(2,3) by simp

end

interpretation lb: byte_queue loop_buf_ok contents loop_buf_push_n loop_buf_pop_n loop_buf_isempty 4095
proof unfold_locales
  fix q p n
  assume ok: "loop_buf_ok q"
  show "length (contents q) + length p \<le> 4095 \<Longrightarrow>
    loop_buf_ok (snd (loop_buf_push_n p q)) \<and> contents (snd (loop_buf_push_n p q)) = contents q @ p"
    using push_n_contents[OF ok, of p] by simp
  have line: "fst (loop_buf_pop_n n q) = one_line n (contents q)" using pop_n_contents[OF ok] by blast
  show "13 \<notin> set (butlast (fst (loop_buf_pop_n n q)))" unfolding line by (rule one_line_stops)
  show "length (fst (loop_buf_pop_n n q)) = min n (length (contents q)) \<or>
      (fst (loop_buf_pop_n n q) \<noteq> [] \<and> last (fst (loop_buf_pop_n n q)) = 13)"
    unfolding line by (rule one_line_whole)
  show "loop_buf_ok (snd (loop_buf_pop_n n q)) \<and> contents q = fst (loop_buf_pop_n n q) @ contents (snd (loop_buf_pop_n n q))"
    using pop_n_contents[OF ok] by blast
  show "loop_buf_isempty q \<longleftrightarrow> contents q = []"
    by (rule empty_contents[OF ok])
qed

section \<open>Properties\<close>

text \<open>C14. The ring buffer of the shell is a queue of at most 4095 bytes, whatever position the ring has been
turned to. A write appends all of its bytes when they fit and otherwise changes nothing and returns 0; a read
returns the oldest bytes, at most as many as asked for and none behind the first carriage return, and leaves
the rest in their order; the size, the room left and the two tests are those of the queue.\<close>

theorem loop_buf_is_queue:
  assumes "loop_buf_ok b"
  shows "unat (loop_buf_sz b) = length (contents b) \<and> unat (loop_buf_remain b) = 4095 - length (contents b) \<and>
    (loop_buf_isempty b \<longleftrightarrow> contents b = []) \<and> (loop_buf_isfull b \<longleftrightarrow> length (contents b) = 4095) \<and>
    loop_buf_ok (snd (loop_buf_push_n p b)) \<and>
    (if length (contents b) + length p \<le> 4095
     then fst (loop_buf_push_n p b) = length p \<and> contents (snd (loop_buf_push_n p b)) = contents b @ p
     else loop_buf_push_n p b = (0, b)) \<and>
    loop_buf_ok (snd (loop_buf_pop_n len b)) \<and>
    contents b = fst (loop_buf_pop_n len b) @ contents (snd (loop_buf_pop_n len b)) \<and>
    length (fst (loop_buf_pop_n len b)) \<le> len \<and>
    13 \<notin> set (butlast (fst (loop_buf_pop_n len b))) \<and>
    (length (fst (loop_buf_pop_n len b)) = min len (length (contents b)) \<or>
     (fst (loop_buf_pop_n len b) \<noteq> [] \<and> last (fst (loop_buf_pop_n len b)) = 13)) \<and>
    loop_buf_ok (loop_buf_reset b) \<and> contents (loop_buf_reset b) = []"
  using sz_used[OF assms] remain_used[OF assms] empty_contents[OF assms] full_contents[OF assms]
    push_n_contents[OF assms, of p] pop_n_contents[OF assms, of len] reset_empty[OF assms]
    one_line_length[of len "contents b"] one_line_stops[of len "contents b"] one_line_whole[of len "contents b"]
  by (metis length_contents)

text \<open>The ring turned to its last cell: three bytes written there wrap round, and a read stops at the
carriage return.\<close>

theorem loop_buf_is_queue_witness:
  "let b = \<lparr>lb_buffer = replicate 4096 0, lb_in = 4095, lb_out = 4095\<rparr>
   in loop_buf_ok b \<and> contents (snd (loop_buf_push_n [104, 13, 105] b)) = [104, 13, 105]"
proof -
  define b where "b = \<lparr>lb_buffer = replicate 4096 0, lb_in = 4095, lb_out = 4095\<rparr>"
  have ok: "loop_buf_ok b" by (simp add: b_def loop_buf_ok_def)
  have "contents b = []" by (simp add: b_def contents_def lb_used_def)
  then show ?thesis using loop_buf_is_queue[OF ok, of "[104, 13, 105]"] ok by (simp add: b_def Let_def)
qed

end
