(* ===== verification/OverAir.thy ===== *)
theory OverAir
  imports VamMain
begin

text \<open>
  Two stations: the receive thread of the wireless stack (\<open>app/wnet/cv_wnet_main.c\<close>), which joins the
  driver, the link layers and the message parser, and the way of a basic safety message from the status of
  one station to the neighbour table of another, through every layer of both.
\<close>

section \<open>The receive thread\<close>

text \<open>One pass of \<open>wnet_rx_thread_entry\<close> in which the monitor socket gives the frame \<open>fr\<close>. A frame that is
  not one of ours keeps the driver waiting.\<close>

definition wnet_rx_pass :: "libm \<Rightarrow> bytes \<Rightarrow> bytes \<Rightarrow> cms \<Rightarrow> cms option" where
  "wnet_rx_pass M mac fr c =
     do { r \<leftarrow> drv_vnet_recv mac fr;
          case r of None \<Rightarrow> Some c
          | Some (src, frame) \<Rightarrow>
              if frame = [] then Some c
              else do {
                let c = c\<lparr>g_wnet := wnet_recv_stat (g_dbg_print_type c) (g_wnet c)\<rparr>;
                (_, c) \<leftarrow> fp_recv (vam_rcp_recv M) (zero_rxinfo\<lparr>rx_src_mac := src\<rparr>) frame c;
                Some c } }"

text \<open>The statistics timer. \<open>cnt\<close> is the static \<open>wnet_dbg_cacul_cnt\<close>; what is printed is left out, and the loop that
  prints a dot for each frame counts them down to zero.\<close>

definition wnet_dbg_cacul_peroid :: int where "wnet_dbg_cacul_peroid = 10"

definition test_comm :: "int \<Rightarrow> cms \<Rightarrow> int \<times> cms" where
  "test_comm cnt c =
     (let cnt = cnt + 1;
          (cnt, c) = (if cnt \<ge> wnet_dbg_cacul_peroid * 10
                      then (0, c\<lparr>g_wnet := (g_wnet c)\<lparr>wnet_dbg_rx_actual := 0\<rparr>,
                                 test_comm_list := empty_test_list (test_comm_list c)\<rparr>)
                      else (cnt, c))
      in (cnt, if wnet_dbg_rx_fresh (g_wnet c) > 0 then c\<lparr>g_wnet := (g_wnet c)\<lparr>wnet_dbg_rx_fresh := 0\<rparr>\<rparr> else c))"

definition timer_stat_callback :: "int \<Rightarrow> cms \<Rightarrow> int \<times> cms" where
  "timer_stat_callback cnt c = (if g_dbg_print_type c AND 0x1 \<noteq> 0 then test_comm cnt c else (cnt, c))"

text \<open>The initialisation. The address of the station and the monitor socket come from the kernel.\<close>

definition wnet_init :: "wnet_config \<Rightarrow> bytes \<Rightarrow> int \<Rightarrow> bool \<Rightarrow> wnet_envar \<times> os_timer option" where
  "wnet_init cfg mac sock sendmsg_ok =
     (\<lparr>wn_param = cfg, wn_mac = mac, wn_monitor_sock = sock, wn_sendmsg_ok = sendmsg_ok, wn_air = [],
       wnet_dbg_rx_actual = 0, wnet_dbg_rx_fresh = 0\<rparr>, osal_timer_create 100 False False)"

section \<open>The message on its way\<close>

text \<open>What is left of a status that was sent in a basic safety message: every field is decoded from the code of
  the sender's.\<close>

definition through_codec :: "vam_stastatus \<Rightarrow> vam_stastatus \<Rightarrow> bool" where
  "through_codec cur st \<longleftrightarrow>
     Some (p_lat (s_pos st)) = map_option decode_longtitude (encode_longtitude (p_lat (s_pos cur))) \<and>
     Some (p_lon (s_pos st)) = map_option decode_longtitude (encode_longtitude (p_lon (s_pos cur))) \<and>
     Some (p_elev (s_pos st)) = map_option decode_elevation (encode_elevation (p_elev (s_pos cur))) \<and>
     Some (p_accu (s_pos st)) = map_option decode_longtitude (encode_longtitude (p_accu (s_pos cur))) \<and>
     Some (s_dir st) = map_option decode_heading (encode_heading (s_dir cur)) \<and>
     Some (s_speed st) = map_option decode_speed (encode_speed (s_speed cur)) \<and>
     Some (a_lon (s_acce st)) = map_option decode_acce_lon (encode_acce_lon (a_lon (s_acce cur))) \<and>
     Some (a_lat (s_acce st)) = map_option decode_acce_lat (encode_acce_lat (a_lat (s_acce cur))) \<and>
     Some (a_vert (s_acce st)) = map_option decode_acce_vert (encode_acce_vert (a_vert (s_acce cur))) \<and>
     Some (a_yaw (s_acce st)) = map_option decode_acce_yaw (encode_acce_yaw (a_yaw (s_acce cur)))"

lemma bsm_status_codec:
  assumes "bsm_message v cur ds = Some msg" "length (s_pid cur) = 4"
  shows "through_codec cur (bsm_status (msg @ z) t s)"
  unfolding through_codec_def bsm_status_def
  using bsm_message_fields(6-15)[OF assms, of z] by simp

lemma through_codec_alert: "through_codec cur (st\<lparr>s_alert_mask := m\<rparr>) = through_codec cur st"
  by (simp add: through_codec_def)

text \<open>Without an alert the last two bytes of the message are zero, and the length leaves them out.\<close>

lemma bsm_message_ends:
  assumes "bsm_message v cur ds = Some msg"
  shows "\<not> has_flag (flag v) VAM_FLAG_TX_BSM_ALERT \<Longrightarrow> \<exists>m. msg = m @ [0, 0]"
    and "bsm_hops (working_param v) = 1 \<or> \<not> has_flag (flag v) VAM_FLAG_TX_BSM_ALERT \<Longrightarrow> msgid_hops (msg ! 0) = 1"
  using assms by (auto simp: bsm_message_def Let_def msgid_roundtrip split: bind_splits)

lemma bsm_on_air:
  assumes "bsm_message v cur ds = Some msg" "length (s_pid cur) = 4"
    and "len = (if has_flag (flag v) VAM_FLAG_TX_BSM_ALERT then 44 else 44 - 2)"
  shows "take len msg @ replicate (492 - len) 0 = msg @ replicate 448 0"
proof (cases "has_flag (flag v) VAM_FLAG_TX_BSM_ALERT")
  case False
  then obtain m where m: "msg = m @ [0, 0]" using bsm_message_ends(1)[OF assms(1)] by blast
  moreover have "length m = 42" using bsm_message_fields(1)[OF assms(1,2)] m by simp
  moreover have "replicate 450 0 = [0, 0] @ (replicate 448 0 :: bytes)"
    by (simp add: replicate_add[of 2 448, simplified] numeral_2_eq_2)
  ultimately show ?thesis using False assms(3) by simp
qed (use assms bsm_message_fields(1)[OF assms(1,2)] in simp)

text \<open>The relay lets a message on its last hop pass.\<close>

lemma mda_handle_last:
  assumes "mi_left_hops src = 1" "fwd_list (g_mda c) xs"
  shows "\<exists>c'. mda_handle M src d n c = Some (0, c')"
proof (cases "find_history_record (g_mda c) src")
  case (Some r)
  then show ?thesis using mda_handle_known[OF _ assms(2), of src M d n] by (auto split: option.splits)
qed (use mda_handle_last_hop[OF assms(1)] in blast)

text \<open>A station with room takes the message in.\<close>

lemma bsm_stored:
  assumes ok: "table_ok (g_vam c)" and fl: "fwd_list (g_mda c) xs" and room: "neighbour_cnt (g_vam c) < 80"
    and b: "msgid_id (b ! 0) = 2" "msgid_hops (b ! 0) = 1" "42 \<le> len" "44 \<le> length b"
    and foreign: "\<not> pid_eq (slice 2 4 b) (s_pid (local (g_vam c)))"
  shows "\<exists>c' old. vam_rcp_recv M rxinfo b len c = Some (0, c') \<and>
    vam_get_peer_status (slice 2 4 b) junk (g_vam c') = Some (0, (bsm_status b (systime c) old)
      \<lparr>s_alert_mask := if 42 < len then decode_vehicle_alert (get16 b 42) else s_alert_mask old\<rparr>)"
proof -
  obtain x where mda: "rcp_mda_process M (msgid_hops (b ! 0)) (b ! 1) (slice 2 4 b) (slice 6 4 b) b len c = Some (0, x)"
    using mda_handle_last[OF _ fl] b(2) unfolding rcp_mda_process_def by fastforce
  obtain nb fr where pool: "sta_pool (g_vam c) nb fr" using ok by (auto simp: table_ok_def)
  obtain r w where found: "vam_find_sta (slice 2 4 b) (g_vam c) = Some (r, w)"
    using vam_find_sta_cases[OF pool] by metis
  obtain p nb fr where p: "r = Some p" "sta_pool w nb fr" "p \<in> set nb" "pid_of w p = take RCP_TEMP_ID_LEN (slice 2 4 b)"
    using find_sta_with_room[OF ok room found] by blast
  have "(if 42 < len then 44 else 42) \<le> length b" using b(4) by simp
  from rcp_parse_bsm_effect[OF b(3) this foreign mda found[unfolded p(1)]]
  obtain c' where c': "rcp_parse_bsm M b len c = Some (0, c')" "g_vam c' = bsm_effect b len (systime c) p w" by blast
  have "b \<noteq> []" using b(4) by auto
  then have "vam_rcp_recv M rxinfo b len c = Some (0, c')"
    using c'(1) b(1,3) by (simp add: vam_rcp_recv_def rcp_parse_msg_def Let_def RCP_MSG_ID_BSM_def)
  moreover have "vam_get_peer_status (slice 2 4 b) junk (g_vam c') = Some (0, (bsm_status b (systime c) (n_s (remote w p)))
      \<lparr>s_alert_mask := if 42 < len then decode_vehicle_alert (get16 b 42) else s_alert_mask (n_s (remote w p))\<rparr>)"
    unfolding c'(2) bsm_effect_lookup[OF p(2-4)] bsm_effect_node ..
  ultimately show ?thesis by blast
qed

text \<open>What the sender's program makes of a message: the frame, and what the receiver's parser gets.\<close>

lemma bsm_frame:
  assumes ready: "wnet_ready (g_wnet a)" and pid: "length (s_pid cur) = 4" and mac: "wn_mac (g_wnet a) \<noteq> mac"
    and cur: "cur = snd (vam_get_local_current_status M (systime a) (g_vam a))"
    and msg: "bsm_message (g_vam a) cur (rcp_get_system_time a) = Some msg"
    and len: "len = (if has_flag (flag (g_vam a)) VAM_FLAG_TX_BSM_ALERT then 44 else 44 - 2)"
  shows "\<exists>frame x a'. rcp_send_bsm M a = Some (0, a') \<and> wn_air (g_wnet a') = wn_air (g_wnet a) @ [frame] \<and>
    drv_vnet_recv mac frame = Some (Some (wn_mac (g_wnet a), x)) \<and> x \<noteq> [] \<and>
    (\<forall>rcp rxinfo c. fp_recv rcp rxinfo x c = map_option (\<lambda>(_, c). (0, c :: cms))
        (rcp (rxinfo\<lparr>rx_protocol := 0\<rparr>) (msg @ replicate 448 0) len c))"
proof -
  let ?d = "poke 0 msg (tb_data wnet_get_txbuf)" and ?tx = "rcp_txinfo 0 (systime a)"
  let ?a = "upd_vam (\<lambda>v. v\<lparr>tx_bsm_msg_cnt := tx_bsm_msg_cnt v + 1\<rparr>) a"
  have g: "g_wnet ?a = g_wnet a" "systime ?a = systime a" by (simp_all add: upd_vam_def systime_def)
  have l: "length msg = 44" by (rule bsm_message_fields(1)[OF msg pid])
  then have d: "len \<le> length ?d" "take len ?d = take len msg" using wnet_get_txbuf_room(2) len by (simp_all add: poke_def)
  have p: "tx_protocol ?tx = 0" "tx_encryption ?tx = 0" by (simp_all add: rcp_txinfo_def)
  have "len \<le> 484" using len by simp
  from frame_through[OF _ _ _ p d(1) this mac wnet_get_txbuf_room(1)] ready obtain frame x where
    f: "wnet_send (g_wnet a) ?tx (tb_room wnet_get_txbuf, ?d) len = Some (0, (g_wnet a)\<lparr>wn_air := wn_air (g_wnet a) @ [frame]\<rparr>)"
    "drv_vnet_recv mac frame = Some (Some (wn_mac (g_wnet a), x))"
    "\<forall>rcp rxinfo s. fp_recv rcp rxinfo x (s :: cms) = map_option (\<lambda>(_, s). (0, s))
        (rcp (rxinfo\<lparr>rx_protocol := 0\<rparr>) (take len ?d @ replicate (492 - len) 0) len s)"
    unfolding wnet_ready_def by blast
  have b: "take len ?d @ replicate (492 - len) 0 = msg @ replicate 448 0"
    unfolding d(2) by (rule bsm_on_air[OF msg pid len])
  have "rcp_send_bsm M a = Some (0, ?a\<lparr>g_wnet := (g_wnet a)\<lparr>wn_air := wn_air (g_wnet a) @ [frame]\<rparr>\<rparr>)"
    using msg f(1) by (simp add: rcp_send_bsm_def rcp_transmit_def Let_def g len flip: cur)
  moreover have "x \<noteq> []"
  proof
    assume "x = []"
    moreover have "fp_recv (\<lambda>_ _ _ _. None) zero_rxinfo [] (undefined :: cms) \<noteq> None"
      by (simp add: fp_recv_def llc_recv_def)
    ultimately show False using f(3) by simp
  qed
  ultimately show ?thesis
    using f(2,3) unfolding b by (intro exI[of _ frame] exI[of _ x] exI) auto
qed

section \<open>Properties\<close>


text \<open>Two stations with the default configuration, one with the identifier 1.2.3.4, the other 9.8.7.6.\<close>

definition demo_peer :: cms where
  "demo_peer = demo_cms\<lparr>g_vam := demo_vam\<lparr>local := (local demo_vam)\<lparr>s_pid := [9, 8, 7, 6]\<rparr>\<rparr>\<rparr>"

lemma demo_current: "snd (vam_get_local_current_status M (systime demo_cms) (g_vam demo_cms)) = zero_sta\<lparr>s_pid := [1, 2, 3, 4]\<rparr>"
  by (simp add: vam_get_local_current_status_def systime_def osal_get_systemtime_zero demo_cms_def demo_local
      dr_current_same_time zero_sta_def)

lemma encode_acce_zero:
  "encode_acce_lon (Fin 0) = Some 0" "encode_acce_lat (Fin 0) = Some 0" "encode_acce_vert (Fin 0) = Some 0"
  "encode_acce_yaw (Fin 0) = Some 0"
  by (simp_all add: encode_acce_lon_def encode_acce_lat_def encode_acce_vert_def encode_acce_yaw_def
      fl_to_u16_def fl_to_u8_def trunc_0 cv_ntohs_def)

lemma zero_sta_message: "\<exists>msg. bsm_message v (zero_sta\<lparr>s_pid := p\<rparr>) ds = Some msg"
  by (simp add: bsm_message_def zero_sta_def zero_pos_def zero_acce_def encode_zero encode_acce_zero Let_def)


end
