(* ===== verification/Wifi.thy ===== *)
theory Wifi
  imports Wnet "HOL-Library.Signed_Division"
begin

text \<open>
  What lies under the wireless driver's interface: the radiotap header in front of every frame of the monitor
  socket, on both ways (\<open>cv_drv_wifi_dev.c\<close>, the first half of \<open>radiotap.c\<close>), the packet filter the program
  attaches to that socket, and the frequencies of the channels (\<open>cv_drv_wifi_util.c\<close>).

  The filter is a program for the classic packet filter machine; the instructions it uses and what they do are
  written down here as the language of that program. A load behind the end of the packet ends the program
  with 0, which drops the packet.
\<close>

section \<open>The language of the filter\<close>

datatype bpf_insn =
  LD_B_ABS nat | LD_B_IND nat | LD_H_IND nat | LD_W_IND nat | LD_W_LEN
| TAX | ALU_LSH_K u32 | ALU_RSH_K u32 | ALU_AND_K u32 | ALU_ADD_K u32 | ALU_OR_X | ALU_ADD_X
| JEQ_K u32 nat nat | JEQ_X nat nat | RET_K u32

text \<open>Network byte order.\<close>

definition load :: "nat \<Rightarrow> nat \<Rightarrow> bytes \<Rightarrow> u32 option" where
  "load n i p =
     (if i + n \<le> length p then Some (foldl (\<lambda>a b. push_bit 8 a OR ucast b) 0 (take n (drop i p))) else None)"

definition insn_load :: "u32 \<Rightarrow> bytes \<Rightarrow> bpf_insn \<Rightarrow> u32 option option" where
  "insn_load x p insn =
     (case insn of
        LD_B_ABS k \<Rightarrow> Some (load 1 k p)
      | LD_B_IND k \<Rightarrow> Some (load 1 (unat x + k) p)
      | LD_H_IND k \<Rightarrow> Some (load 2 (unat x + k) p)
      | LD_W_IND k \<Rightarrow> Some (load 4 (unat x + k) p)
      | LD_W_LEN \<Rightarrow> Some (Some (of_nat (length p)))
      | _ \<Rightarrow> None)"

definition insn_alu :: "u32 \<Rightarrow> u32 \<Rightarrow> bpf_insn \<Rightarrow> u32" where
  "insn_alu a x insn =
     (case insn of
        ALU_LSH_K k \<Rightarrow> push_bit (unat k) a
      | ALU_RSH_K k \<Rightarrow> drop_bit (unat k) a
      | ALU_AND_K k \<Rightarrow> a AND k
      | ALU_ADD_K k \<Rightarrow> a + k
      | ALU_OR_X \<Rightarrow> a OR x
      | ALU_ADD_X \<Rightarrow> a + x
      | _ \<Rightarrow> a)"

text \<open>Jumps only go forward. \<open>a\<close> and \<open>x\<close> are the two registers, \<open>p\<close> is the packet.\<close>

function bpf_run :: "bpf_insn list \<Rightarrow> u32 \<Rightarrow> u32 \<Rightarrow> bytes \<Rightarrow> u32" where
  "bpf_run [] a x p = 0"
| "bpf_run (insn # is) a x p =
     (case insn_load x p insn of
        Some None \<Rightarrow> 0
      | Some (Some v) \<Rightarrow> bpf_run is v x p
      | None \<Rightarrow>
          (case insn of
             TAX \<Rightarrow> bpf_run is a a p
           | JEQ_K k jt jf \<Rightarrow> bpf_run (drop (if a = k then jt else jf) is) a x p
           | JEQ_X jt jf \<Rightarrow> bpf_run (drop (if a = x then jt else jf) is) a x p
           | RET_K k \<Rightarrow> k
           | _ \<Rightarrow> bpf_run is (insn_alu a x insn) x p))"
  by pat_completeness auto
termination by (relation "measure (\<lambda>(is, _). length is)") auto

section \<open>The filter of the monitor socket\<close>

definition PASS :: nat where "PASS = 0xFF"
definition FAIL :: nat where "FAIL = 0xFE"

definition msock_filter_insns :: "bpf_insn list" where
  "msock_filter_insns =
    [LD_B_ABS 2, TAX, LD_B_ABS 3, ALU_LSH_K 8, ALU_OR_X, TAX,
     LD_B_IND 0, ALU_AND_K 0xF, JEQ_K 0 PASS 0,
     LD_H_IND 0, ALU_AND_K 0x0F03, JEQ_K 0x0801 PASS 0,
     LD_B_IND 1, ALU_AND_K 0x03, JEQ_K 3 PASS 0,
     LD_B_IND 0, ALU_AND_K 0x80, ALU_RSH_K 6, ALU_ADD_K 24, ALU_ADD_X, TAX,
     LD_W_LEN, JEQ_X PASS 0,
     LD_W_IND 0, JEQ_K 0xAAAA0300 0 FAIL,
     LD_W_IND 4, JEQ_K 0x0000888E PASS FAIL,
     RET_K 0, RET_K 0xFFFFFFFF]"

text \<open>\<open>add_monitor_filter\<close> replaces the two marks by the distances to the last two instructions.\<close>

definition jump_offset :: "nat \<Rightarrow> nat \<Rightarrow> nat \<Rightarrow> nat" where
  "jump_offset len idx j = (if j = PASS then len - idx - 2 else if j = FAIL then len - idx - 3 else j)"

definition add_monitor_filter :: "bpf_insn list \<Rightarrow> bpf_insn list" where
  "add_monitor_filter insns =
     map (\<lambda>idx. case insns ! idx of
            JEQ_K k jt jf \<Rightarrow> JEQ_K k (jump_offset (length insns) idx jt) (jump_offset (length insns) idx jf)
          | JEQ_X jt jf \<Rightarrow> JEQ_X (jump_offset (length insns) idx jt) (jump_offset (length insns) idx jf)
          | insn \<Rightarrow> insn)
       [0..<length insns]"

definition monitor_filter :: "bytes \<Rightarrow> u32" where
  "monitor_filter p = bpf_run (add_monitor_filter msock_filter_insns) 0 0 p"

section \<open>The radiotap header\<close>

text \<open>What the iterator holds after its initialisation; positions are offsets from the start of the packet.\<close>

record radiotap_iterator =
  ri_max_length :: u16
  ri_bitmap_shifter :: u32
  ri_arg :: nat

text \<open>The loop over the extended bitmaps: \<open>Some None\<close> is \<open>-EINVAL\<close>, \<open>None\<close> a read outside the packet.\<close>

definition rd_le32 :: "nat \<Rightarrow> bytes \<Rightarrow> u32 option" where
  "rd_le32 i b = (if i + 4 \<le> length b then Some (get32 b i) else None)"

function ext_loop :: "bytes \<Rightarrow> nat \<Rightarrow> nat \<Rightarrow> nat option option" where
  "ext_loop b max_length arg =
     (if max_length < arg + 4 then Some None
      else case rd_le32 arg b of
          None \<Rightarrow> None
        | Some w \<Rightarrow> if bit w 31 then ext_loop b max_length (arg + 4) else Some (Some (arg + 4)))"
  by auto
termination by (relation "measure (\<lambda>(_, max_length, arg). max_length - arg)") auto

declare ext_loop.simps [simp del]

definition ieee80211_radiotap_iterator_init :: "bytes \<Rightarrow> radiotap_iterator option option" where
  "ieee80211_radiotap_iterator_init b =
     (if length b < 8 then Some None
      else if b ! 0 \<noteq> 0 then Some None
      else if length b < unat (get16 b 2) then Some None
      else
        let it = \<lparr>ri_max_length = get16 b 2, ri_bitmap_shifter = get32 b 4, ri_arg = 8\<rparr>
        in if bit (ri_bitmap_shifter it) 31 then
             (case ext_loop b (unat (ri_max_length it)) (ri_arg it) of
                None \<Rightarrow> None
              | Some None \<Rightarrow> Some None
              | Some (Some arg) \<Rightarrow> Some (Some (it\<lparr>ri_arg := arg\<rparr>)))
           else Some (Some it))"

text \<open>The header the program puts in front of what it sends. The call of \<open>nl80211_send_monitor\<close> leaves its last
  argument out, so \<open>noack\<close> is any value.\<close>

definition rtap_hdr :: "bool \<Rightarrow> bool \<Rightarrow> bytes" where
  "rtap_hdr encrypt noack =
     [0x00, 0x00, 0x0e, 0x00, 0x02, 0xc0, 0x00, 0x00, 0x08 OR (if encrypt then 0x04 else 0), 0x00, 0x00, 0x00]
     @ le16 (if noack then 0x0008 else 0)"

text \<open>A packet of the monitor interface: the filter lets it through or not; the rest is \<open>drv_vnet_recv\<close>, which
  reads at most 2048 bytes of it. \<open>RxError\<close> is the return with -1, \<open>RxWait\<close> another round of the loop.\<close>

datatype rx_result = RxError | RxWait | RxFrame bytes bytes

definition drv_vnet_recv_packet :: "bytes \<Rightarrow> bytes \<Rightarrow> rx_result option" where
  "drv_vnet_recv_packet mac pkt =
     (if monitor_filter pkt = 0 then Some RxWait
      else
        let buf = take 2048 pkt
        in case ieee80211_radiotap_iterator_init buf of
             None \<Rightarrow> None
           | Some None \<Rightarrow> Some RxError
           | Some (Some it) \<Rightarrow>
               map_option (\<lambda>r. case r of None \<Rightarrow> RxWait | Some (src, x) \<Rightarrow> RxFrame src x)
                 (drv_vnet_recv mac (drop (unat (ri_max_length it)) buf)))"

section \<open>Channels\<close>

datatype nl80211_band = NL80211_BAND_2GHZ | NL80211_BAND_5GHZ | NL80211_BAND_60GHZ

definition ieee80211_channel_to_frequency :: "int \<Rightarrow> nl80211_band \<Rightarrow> int" where
  "ieee80211_channel_to_frequency chan band =
     (if chan \<le> 0 then 0
      else case band of
          NL80211_BAND_2GHZ \<Rightarrow> if chan = 14 then 2484 else if chan < 14 then 2407 + chan * 5 else 0
        | NL80211_BAND_5GHZ \<Rightarrow> if chan \<ge> 182 \<and> chan \<le> 196 then 4000 + chan * 5 else 5000 + chan * 5
        | NL80211_BAND_60GHZ \<Rightarrow> if chan < 5 then 56160 + chan * 2160 else 0)"

text \<open>Division as in C, towards zero.\<close>

definition ieee80211_frequency_to_channel :: "int \<Rightarrow> int" where
  "ieee80211_frequency_to_channel freq =
     (if freq = 2484 then 14
      else if freq < 2484 then (freq - 2407) sdiv 5
      else if freq \<ge> 4910 \<and> freq \<le> 4980 then (freq - 4000) sdiv 5
      else if freq \<le> 45000 then (freq - 5000) sdiv 5
      else if freq \<ge> 58320 \<and> freq \<le> 64800 then (freq - 56160) sdiv 2160
      else 0)"

text \<open>The frequency \<open>nl80211_set_wiphy_channel\<close> asks for.\<close>

definition wiphy_freq :: "int \<Rightarrow> int" where
  "wiphy_freq ch = ieee80211_channel_to_frequency ch (if ch \<le> 14 then NL80211_BAND_2GHZ else NL80211_BAND_5GHZ)"

section \<open>What the filter accepts\<close>

text \<open>The same decision written over the packet: its bytes from the 802.11 header on, which starts behind the
  radiotap header.\<close>

definition filter_spec :: "bytes \<Rightarrow> bool" where
  "filter_spec p =
     (if length p < 4 then False
      else
        let rl = unat (get16 p 2); h = drop rl p;
            body = drop (24 + (if bit (h ! 0) 7 then 2 else 0)) h
        in if length h < 1 then False
           else if h ! 0 AND 0xF = 0 then True
           else if length h < 2 then False
           else if h ! 0 AND 0xF = 8 \<and> h ! 1 AND 3 = 1 then True
           else if h ! 1 AND 3 = 3 then True
           else if length h = 24 + (if bit (h ! 0) 7 then 2 else 0) then True
           else take 8 body = [0xAA, 0xAA, 0x03, 0x00, 0x00, 0x00, 0x88, 0x8E])"

lemma filter_code:
  "add_monitor_filter msock_filter_insns =
    [LD_B_ABS 2, TAX, LD_B_ABS 3, ALU_LSH_K 8, ALU_OR_X, TAX,
     LD_B_IND 0, ALU_AND_K 0xF, JEQ_K 0 19 0,
     LD_H_IND 0, ALU_AND_K 0x0F03, JEQ_K 0x0801 16 0,
     LD_B_IND 1, ALU_AND_K 0x03, JEQ_K 3 13 0,
     LD_B_IND 0, ALU_AND_K 0x80, ALU_RSH_K 6, ALU_ADD_K 24, ALU_ADD_X, TAX,
     LD_W_LEN, JEQ_X 5 0,
     LD_W_IND 0, JEQ_K 0xAAAA0300 0 2,
     LD_W_IND 4, JEQ_K 0x0000888E 1 0,
     RET_K 0, RET_K 0xFFFFFFFF]"
  by code_simp

definition hdr_len :: "u8 \<Rightarrow> nat" where
  "hdr_len c = 24 + (if bit c 7 then 2 else 0)"

definition filter_run :: "bytes \<Rightarrow> bool" where
  "filter_run p =
     (case (load 1 2 p, load 1 3 p) of
        (Some lo, Some hi) \<Rightarrow>
          (let x = push_bit 8 hi OR lo in
           case load 1 (unat x) p of None \<Rightarrow> False
           | Some c \<Rightarrow>
             if c AND 0xF = 0 then True
             else case load 2 (unat x) p of None \<Rightarrow> False
               | Some w \<Rightarrow>
                 if w AND 0x0F03 = 0x0801 then True
                 else case load 1 (unat x + 1) p of None \<Rightarrow> False
                   | Some d \<Rightarrow>
                     if d AND 3 = 3 then True
                     else
                       let y = drop_bit 6 (c AND 0x80) + 24 + x
                       in if of_nat (length p) = y then True
                          else load 4 (unat y) p = Some 0xAAAA0300 \<and> load 4 (unat y + 4) p = Some 0x0000888E)
      | _ \<Rightarrow> False)"

lemma filter_runs: "monitor_filter p = (if filter_run p then 0xFFFFFFFF else 0)"
  unfolding monitor_filter_def filter_code filter_run_def
  by (simp add: insn_load_def insn_alu_def Let_def split: option.split)

lemma load_byte: "load (Suc 0) i p = (if i < length p then Some (ucast (p ! i)) else None)"
  by (simp add: load_def take_Suc_conv_app_nth hd_drop_conv_nth)

lemma load_half: "load 2 i p = (if i + 2 \<le> length p then Some (push_bit 8 (ucast (p ! i)) OR ucast (p ! (i + 1))) else None)"
proof -
  have "drop i p = p ! i # p ! (i + 1) # drop (i + 2) p" if "i + 2 \<le> length p"
    using that by (simp add: Cons_nth_drop_Suc)
  then show ?thesis by (simp add: load_def)
qed

lemma fold_be32: "foldl (\<lambda>a b. push_bit 8 a OR ucast b) 0 (be32 w) = (w :: u32)"
  by (simp add: be32_def bitwise)

lemma be32_fold: "be32 (foldl (\<lambda>a b. push_bit 8 a OR ucast b) 0 [b0, b1, b2, b3]) = [b0, b1, b2, b3]"
  by (simp add: be32_def bitwise)

lemma load_word: "load 4 i p = Some w \<longleftrightarrow> take 4 (drop i p) = be32 w"
proof (cases "i + 4 \<le> length p")
  case True
  then have "length (take 4 (drop i p)) = 4" by simp
  then obtain b0 b1 b2 b3 where "take 4 (drop i p) = [b0, b1, b2, b3]" by (rule length_4E)
  then show ?thesis using True be32_fold[of b0 b1 b2 b3] fold_be32[of w]
    by (simp add: load_def del: foldl_Cons foldl_Nil) metis
next
  case False
  then have "length (take 4 (drop i p)) \<noteq> length (be32 w)" by (simp add: be32_def)
  then have "take 4 (drop i p) \<noteq> be32 w" by metis
  then show ?thesis using False by (simp add: load_def)
qed

lemma byte_bits:
  fixes c d :: u8
  shows byte_bits_mgmt: "(ucast c :: u32) AND 0xF = 0 \<longleftrightarrow> c AND 0xF = 0"
    and byte_bits_data: "(push_bit 8 (ucast c) OR ucast d :: u32) AND 0x0F03 = 0x0801 \<longleftrightarrow> c AND 0xF = 8 \<and> d AND 3 = 1"
    and "(ucast d :: u32) AND 3 = 3 \<longleftrightarrow> d AND 3 = 3"
    and "unat (drop_bit 6 ((ucast c :: u32) AND 0x80)) = (if bit c 7 then 2 else 0)"
    and "unat (push_bit 8 (ucast d) OR ucast c :: u32) = unat (push_bit 8 (ucast d) OR ucast c :: u16)"
proof -
  have "(push_bit 8 (ucast d) OR ucast c :: u32) = ucast (push_bit 8 (ucast d) OR ucast c :: u16)"
    by (simp add: bitwise)
  moreover have "unat y < 2 ^ 32" for y :: u16 using unsigned_less[of y, where ?'a = nat] by simp
  ultimately show "unat (push_bit 8 (ucast d) OR ucast c :: u32) = unat (push_bit 8 (ucast d) OR ucast c :: u16)"
    by (simp add: unsigned_ucast_eq take_bit_nat_eq_self)
  have "drop_bit 6 ((ucast c :: u32) AND 0x80) = (if bit c 7 then 2 else 0)"
    by (simp add: bitwise)
  then show "unat (drop_bit 6 ((ucast c :: u32) AND 0x80)) = (if bit c 7 then 2 else 0)" by simp
qed (auto simp: bitwise)

lemma load_word8:
  "load 4 i p = Some 0xAAAA0300 \<and> load 4 (i + 4) p = Some 0x0000888E \<longleftrightarrow>
    take 8 (drop i p) = [0xAA, 0xAA, 0x03, 0x00, 0x00, 0x00, 0x88, 0x8E]"
proof -
  have "take 8 (drop i p) = take 4 (drop i p) @ take 4 (drop (i + 4) p)"
    using take_add[of 4 4 "drop i p"] by (simp add: add.commute)
  moreover have "be32 0xAAAA0300 = [0xAA, 0xAA, 0x03, 0x00]" "be32 0x0000888E = [0x00, 0x00, 0x88, 0x8E]"
    by (simp_all add: be32_def)
  moreover have "a = [0xAA, 0xAA, 0x03, 0x00] \<and> b = [0x00, 0x00, 0x88, 0x8E] \<longleftrightarrow>
      a @ b = [0xAA, 0xAA, 0x03, 0x00, 0x00, 0x00, 0x88, 0x8E]" if "length a \<le> 4" "length b \<le> 4" for a b :: bytes
    using that by (auto simp: append_eq_Cons_conv)
  ultimately show ?thesis by (simp add: load_word)
qed

lemma filter_correct:
  assumes "length p < 2 ^ 32"
  shows "filter_run p = filter_spec p"
proof (cases "length p < 4")
  case True
  then show ?thesis by (auto simp: filter_run_def filter_spec_def load_byte split: option.splits)
next
  case False
  define x :: u32 where "x = push_bit 8 (ucast (p ! 3)) OR ucast (p ! 2)"
  define rl where "rl = unat (get16 p 2)"
  define h where "h = drop rl p"
  have x: "unat x = rl" unfolding x_def rl_def byte_bits by (simp add: get16.simps or.commute)
  have rl: "rl < 2 ^ 16" unfolding rl_def using unsigned_less[of "get16 p 2", where ?'a = nat] by simp
  define y where "y = drop_bit 6 ((ucast (h ! 0) :: u32) AND 0x80) + 24 + x"
  have y: "unat y = rl + (24 + (if bit (h ! 0) 7 then 2 else 0))"
    using rl byte_bits(4)[of "h ! 0"] x by (simp add: y_def unat_word_ariths)
  have len: "of_nat (length p) = y \<longleftrightarrow> length p = unat y"
    using assms by (simp add: word_unat_eq_iff unsigned_of_nat take_bit_nat_eq_self)
  have hd: "p ! rl = h ! 0" "p ! Suc rl = h ! 1" if "rl < length p" using that by (simp_all add: h_def)
  have run: "filter_run p =
     (rl < length p \<and> (h ! 0 AND 0xF = 0 \<or>
       rl + 2 \<le> length p \<and> (h ! 0 AND 0xF = 8 \<and> h ! 1 AND 3 = 1 \<or> h ! 1 AND 3 = 3 \<or>
         length p = unat y \<or> take 8 (drop (unat y) p) = [0xAA, 0xAA, 0x03, 0x00, 0x00, 0x00, 0x88, 0x8E])))"
  proof (cases "rl < length p")
    case True
    have l: "load (Suc 0) 2 p = Some (ucast (p ! 2))" "load (Suc 0) 3 p = Some (ucast (p ! 3))"
      "load (Suc 0) rl p = Some (ucast (h ! 0))" "load (Suc 0) (Suc rl) p = (if rl + 2 \<le> length p then Some (ucast (h ! 1)) else None)"
      "load 2 rl p = (if rl + 2 \<le> length p then Some (push_bit 8 (ucast (h ! 0)) OR ucast (h ! 1)) else None)"
      using False True hd by (simp_all add: load_byte load_half)
    show ?thesis
      unfolding filter_run_def One_nat_def add_Suc_right add_0_right l option.case prod.case Let_def x_def[symmetric] x
      by (cases "rl + 2 \<le> length p") (simp_all only: l if_True if_False option.case byte_bits_mgmt byte_bits_data byte_bits(3)
        y_def[symmetric] len load_word8 True, auto)
  next
    case False': False
    have l: "load (Suc 0) 2 p = Some (ucast (p ! 2))" "load (Suc 0) 3 p = Some (ucast (p ! 3))"
      "load (Suc 0) rl p = None" using False False' by (simp_all add: load_byte)
    show ?thesis using False'
      unfolding filter_run_def One_nat_def l option.case prod.case Let_def x_def[symmetric] x by simp
  qed
  define q :: nat where "q = 24 + (if bit (h ! 0) 7 then 2 else 0)"
  define M A B E where "M \<longleftrightarrow> h ! 0 AND 0xF = 0" and "A \<longleftrightarrow> h ! 0 AND 0xF = 8 \<and> h ! 1 AND 3 = 1"
    and "B \<longleftrightarrow> h ! 1 AND 3 = 3"
    and "E \<longleftrightarrow> take 8 (drop (unat y) p) = [0xAA, 0xAA, 0x03, 0x00, 0x00, 0x00, 0x88, 0x8E]"
  have h: "length h = length p - rl" "drop q h = drop (unat y) p" "unat y = rl + q"
    by (simp_all add: h_def y q_def add.commute)
  have "filter_spec p = (if length h < 1 then False else if M then True else if length h < 2 then False
      else if A then True else if B then True else if length h = q then True else E)"
    unfolding filter_spec_def Let_def rl_def[symmetric] h_def[symmetric] q_def[symmetric] h(2) M_def A_def B_def E_def
    using False by (simp only: if_False)
  moreover have "filter_run p \<longleftrightarrow> rl < length p \<and> (M \<or> rl + 2 \<le> length p \<and> (A \<or> B \<or> length p = rl + q \<or> E))"
    unfolding run M_def A_def B_def E_def h(3) by blast
  moreover have "length h < 1 \<longleftrightarrow> \<not> rl < length p" "length h < 2 \<longleftrightarrow> \<not> rl + 2 \<le> length p"
    "length h = q \<longleftrightarrow> length p = rl + q" if "0 < q" using that by (auto simp: h(1))
  moreover have "0 < q" by (simp add: q_def)
  ultimately show ?thesis by presburger
qed

section \<open>Packets\<close>

lemma ext_loop_inside:
  assumes "max_length \<le> length b"
  shows "ext_loop b max_length arg \<noteq> None \<and> (\<forall>e. ext_loop b max_length arg = Some (Some e) \<longrightarrow> e \<le> max_length)"
  using assms
proof (induction b max_length arg rule: ext_loop.induct)
  case (1 b max_length arg)
  show ?case
  proof (cases "max_length < arg + 4")
    case False
    then have "rd_le32 arg b = Some (get32 b arg)" using 1(2) by (simp add: rd_le32_def)
    then show ?thesis using 1(1)[OF False] 1(2) False by (subst (1 2) ext_loop.simps) auto
  qed (simp add: ext_loop.simps)
qed

lemma iterator_init_inside:
  "ieee80211_radiotap_iterator_init b \<noteq> None \<and>
   (\<forall>it. ieee80211_radiotap_iterator_init b = Some (Some it) \<longrightarrow>
      unat (ri_max_length it) \<le> length b \<and> (ri_arg it = 8 \<or> ri_arg it \<le> unat (ri_max_length it)))"
  using ext_loop_inside[of "unat (get16 b 2)" b 8]
  by (auto simp: ieee80211_radiotap_iterator_init_def Let_def not_less split: option.splits if_splits)

text \<open>A radiotap header without extended bitmaps.\<close>

definition radiotap_header :: "bytes \<Rightarrow> bool" where
  "radiotap_header r \<longleftrightarrow> 8 \<le> length r \<and> unat (get16 r 2) = length r \<and> r ! 0 = 0 \<and> \<not> bit (get32 r 4) 31"

lemma rtap_hdr_ok: "radiotap_header (rtap_hdr encrypt noack)" "length (rtap_hdr encrypt noack) = 14"
proof -
  have no_ext: "\<not> bit (0xc002 :: u32) 31" by code_simp
  have "get16 (rtap_hdr encrypt noack) 2 = 14" "get32 (rtap_hdr encrypt noack) 4 = 0xc002"
    by (simp_all add: rtap_hdr_def get16.simps get32.simps nth_append le16_def)
  then show "radiotap_header (rtap_hdr encrypt noack)" "length (rtap_hdr encrypt noack) = 14"
    using no_ext by (simp_all add: radiotap_header_def) (simp_all add: rtap_hdr_def)
qed

lemma management_packet:
  assumes r: "radiotap_header r" and f: "f \<noteq> []" "f ! 0 AND 0xF = 0" and len: "length r + length f \<le> 2048"
  shows "monitor_filter (r @ f) \<noteq> 0"
    and "drv_vnet_recv_packet mac (r @ f) =
      map_option (\<lambda>x. case x of None \<Rightarrow> RxWait | Some (src, x) \<Rightarrow> RxFrame src x) (drv_vnet_recv mac f)"
proof -
  have l: "8 \<le> length r" using r by (simp add: radiotap_header_def)
  have g: "get16 (r @ f) 2 = get16 r 2" "get32 (r @ f) 4 = get32 r 4" "(r @ f) ! 0 = r ! 0"
    using l by (auto simp: get16.simps get32.simps nth_append)
  have n: "unat (get16 r 2) = length r" "8 \<le> length r" using r by (simp_all add: radiotap_header_def)
  have "filter_spec (r @ f)" using f n by (simp add: filter_spec_def g Let_def)
  then show pass: "monitor_filter (r @ f) \<noteq> 0" using filter_correct[of "r @ f"] len by (simp add: filter_runs)
  have "ieee80211_radiotap_iterator_init (r @ f) =
      Some (Some \<lparr>ri_max_length = get16 r 2, ri_bitmap_shifter = get32 r 4, ri_arg = 8\<rparr>)"
    using r n by (simp add: ieee80211_radiotap_iterator_init_def g Let_def radiotap_header_def)
  then show "drv_vnet_recv_packet mac (r @ f) =
      map_option (\<lambda>x. case x of None \<Rightarrow> RxWait | Some (src, x) \<Rightarrow> RxFrame src x) (drv_vnet_recv mac f)"
    using pass len n by (simp add: drv_vnet_recv_packet_def)
qed

lemma packet_through:
  assumes w: "wn_monitor_sock w > 0" "wn_sendmsg_ok w" "length (wn_mac w) = 6"
    and info: "tx_protocol txinfo = 0" "tx_encryption txinfo = 0" and len: "len \<le> length d" "len \<le> 484"
    and mac: "wn_mac w \<noteq> mac" and room: "length room = 58"
  shows "\<exists>frame x. wnet_send w txinfo (room, d) len = Some (0, w\<lparr>wn_air := wn_air w @ [frame]\<rparr>) \<and>
    (\<forall>r. radiotap_header r \<and> length r \<le> 1500 \<longrightarrow> drv_vnet_recv_packet mac (r @ frame) = Some (RxFrame (wn_mac w) x)) \<and>
    (\<forall>rcp rxinfo s. fp_recv rcp rxinfo x s = map_option (\<lambda>(_, s). (0, s))
        (rcp (rxinfo\<lparr>rx_protocol := 0\<rparr>) (take len d @ replicate (492 - len) 0) len s))"
proof -
  obtain a b c s0 s1 r e where room': "room = [] @ a @ b @ c @ [s0, s1] @ r @ e"
    "length a = 24" "length b = 14" "length c = 8" "length r = 2" "length e = 8"
    using split_room[OF room] by (metis append_Nil)
  define x where "x = llc_frame r (take len d)"
  define f where "f = hdr80211 (wn_mac w) @ BeaconFixedElement @ x"
  have send: "wnet_send w txinfo (room, d) len = Some (0, w\<lparr>wn_air := wn_air w @ [f]\<rparr>)"
    unfolding f_def x_def room'(1) by (rule wnet_send_frame) (use assms room' in simp_all)
  have recv: "drv_vnet_recv mac f = Some (Some (wn_mac w, x))"
    unfolding f_def x_def by (rule drv_vnet_recv_frame) (use assms room' in simp_all)
  have "f \<noteq> []" "f ! 0 AND 0xF = 0" by (simp_all add: f_def hdr80211_def)
  moreover have "length f \<le> 542"
    using len room'(5) by (simp add: f_def x_def length_hdr80211[OF w(3)] length_llc_frame)
  ultimately have "drv_vnet_recv_packet mac (r @ f) = Some (RxFrame (wn_mac w) x)" if "radiotap_header r" "length r \<le> 1500" for r
    using management_packet(2)[OF that(1), of f mac] that(2) recv by simp
  moreover have "fp_recv rcp rxinfo x s = map_option (\<lambda>(_, s). (0, s))
        (rcp (rxinfo\<lparr>rx_protocol := 0\<rparr>) (take len d @ replicate (492 - len) 0) len s)" for rcp rxinfo s
    using fp_recv_frame[OF room'(5), of "take len d" rcp rxinfo s] len unfolding x_def by (simp add: min_def)
  ultimately show ?thesis using send by blast
qed

section \<open>Properties\<close>

text \<open>C13. The packet filter the program attaches to its monitor socket decides as intended: it keeps, whatever the
  radiotap header in front, the management frames, the data frames to the distribution system, the frames
  between two of them, the empty data frames and those that carry EAPOL, and drops everything else, packets
  that end before the byte it needs included.\<close>

theorem monitor_filter_meets_spec:
  assumes "length p < 2 ^ 32"
  shows "monitor_filter p = (if filter_spec p then 0xFFFFFFFF else 0)"
  using filter_correct[OF assms] by (simp add: filter_runs)

theorem monitor_filter_meets_spec_witness:
  "monitor_filter ([0, 0, 8, 0, 0, 0, 0, 0] @ [0x80, 0] @ replicate 38 0) = 0xFFFFFFFF \<and>
   monitor_filter ([0, 0, 8, 0, 0, 0, 0, 0] @ [0xD4, 0] @ replicate 8 0) = 0"
proof -
  have "filter_spec ([0, 0, 8, 0, 0, 0, 0, 0] @ [0x80, 0] @ replicate 38 0)"
    "\<not> filter_spec ([0, 0, 8, 0, 0, 0, 0, 0] @ [0xD4, 0] @ replicate 8 0)"
    by (simp_all add: filter_spec_def Let_def get16.simps)
  then show ?thesis
    using monitor_filter_meets_spec[of "[0, 0, 8, 0, 0, 0, 0, 0] @ [0x80, 0] @ replicate 38 0"]
      monitor_filter_meets_spec[of "[0, 0, 8, 0, 0, 0, 0, 0] @ [0xD4, 0] @ replicate 8 0"] by simp
qed



text \<open>C6. A message handed to \<open>wnet_send\<close> becomes one frame on the air, and that frame, behind any radiotap header
  without extended bitmaps (the one the program itself writes is one), passes the filter of another station's
  monitor socket, is taken by its driver, and reaches its upper layer as exactly the message, zero-padded, with
  its length: driver, frame process, link layer and short-message layer undo each other.\<close>

theorem packet_roundtrip:
  assumes "length (wn_mac w) = 6" "0 < wn_monitor_sock w" "wn_sendmsg_ok w"
    and "tx_protocol txinfo = 0" "tx_encryption txinfo = 0" "len \<le> length d" "len \<le> 484"
    and "wn_mac w \<noteq> mac" "length room = 58"
  shows "\<exists>frame x. wnet_send w txinfo (room, d) len = Some (0, w\<lparr>wn_air := wn_air w @ [frame]\<rparr>) \<and>
    (\<forall>r. radiotap_header r \<and> length r \<le> 1500 \<longrightarrow> drv_vnet_recv_packet mac (r @ frame) = Some (RxFrame (wn_mac w) x)) \<and>
    (\<forall>rcp rxinfo s. fp_recv rcp rxinfo x s = map_option (\<lambda>(_, s). (0, s))
        (rcp (rxinfo\<lparr>rx_protocol := 0\<rparr>) (take len d @ replicate (492 - len) 0) len s))"
  by (rule packet_through[OF assms(2,3,1,4-9)])

theorem packet_roundtrip_witness:
  "\<exists>frame x w. wnet_send \<lparr>wn_param = \<lparr>w_channel = 13, w_txrate = 12, w_mode = 0\<rparr>, wn_mac = [2, 0, 0, 0, 0, 1],
        wn_monitor_sock = 3, wn_sendmsg_ok = True, wn_air = [], wnet_dbg_rx_actual = 0, wnet_dbg_rx_fresh = 0\<rparr>
      zero_txinfo (replicate 58 0, [10, 20, 30]) 3 = Some (0, w) \<and> wn_air w = [frame] \<and>
    drv_vnet_recv_packet [2, 0, 0, 0, 0, 2] (rtap_hdr True False @ frame) = Some (RxFrame [2, 0, 0, 0, 0, 1] x)"
proof -
  let ?w = "\<lparr>wn_param = \<lparr>w_channel = 13, w_txrate = 12, w_mode = 0\<rparr>, wn_mac = [2, 0, 0, 0, 0, 1],
        wn_monitor_sock = 3, wn_sendmsg_ok = True, wn_air = [], wnet_dbg_rx_actual = 0, wnet_dbg_rx_fresh = 0\<rparr>
      :: wnet_envar"
  obtain frame x where "wnet_send ?w zero_txinfo (replicate 58 0, [10, 20, 30]) 3 = Some (0, ?w\<lparr>wn_air := [frame]\<rparr>)"
    "\<forall>r. radiotap_header r \<and> length r \<le> 1500 \<longrightarrow>
      drv_vnet_recv_packet [2, 0, 0, 0, 0, 2] (r @ frame) = Some (RxFrame [2, 0, 0, 0, 0, 1] x)"
    using packet_roundtrip[of ?w zero_txinfo 3 "[10, 20, 30]" "[2, 0, 0, 0, 0, 2]" "replicate 58 0"]
    by (auto simp: zero_txinfo_def)
  then show ?thesis using rtap_hdr_ok[of True False] by auto
qed

text \<open>The two tables of channels and frequencies undo each other on every channel of the three bands, so the
  frequency the driver asks for belongs to the channel it was told.\<close>

theorem channel_frequency_roundtrip:
  assumes "0 < c"
  shows "(c \<le> 14 \<longrightarrow> ieee80211_frequency_to_channel (ieee80211_channel_to_frequency c NL80211_BAND_2GHZ) = c) \<and>
    (c \<le> 8000 \<longrightarrow> ieee80211_frequency_to_channel (ieee80211_channel_to_frequency c NL80211_BAND_5GHZ) = c \<and>
      ieee80211_frequency_to_channel (wiphy_freq c) = c) \<and>
    (c \<le> 4 \<longrightarrow> ieee80211_frequency_to_channel (ieee80211_channel_to_frequency c NL80211_BAND_60GHZ) = c)"
proof -
  have sdiv: "(k * c) sdiv k = c" if "0 < k" for k :: int
    using assms that by (simp add: signed_divide_int_def sgn_mult abs_mult)
  show ?thesis
    using assms sdiv[of 5] sdiv[of 2160]
    by (auto simp: ieee80211_channel_to_frequency_def ieee80211_frequency_to_channel_def wiphy_freq_def mult.commute)
qed

theorem channel_frequency_roundtrip_witness:
  "ieee80211_frequency_to_channel (wiphy_freq 13) = 13 \<and> wiphy_freq 13 = 2472"
  using channel_frequency_roundtrip[of 13]
  by (simp add: wiphy_freq_def ieee80211_channel_to_frequency_def)

end
