(* ===== verification/Rtc.thy ===== *)
theory Rtc
  imports Lip
begin

text \<open>
  Setting the clock of the machine from the satellite time, \<open>drivers/rtc/cv_drv_rtc.c\<close>. \<open>mktime\<close> is the C
  library's: it takes the fields of a \<open>struct tm\<close> as local time, whatever their values, gives the seconds
  since 1970 in UTC and brings the fields into their ranges. The zone of the machine is \<open>tz\<close> seconds east of
  Greenwich, without summer time, and \<open>time_t\<close> has 32 bits. Opening and writing the clock chip is not
  modelled: the program leaves that to the command \<open>hwclock -w\<close>.
\<close>

section \<open>The calendar\<close>

definition rtc_days_in_month :: "nat list" where
  "rtc_days_in_month = [31, 28, 31, 30, 31, 30, 31, 31, 30, 31, 30, 31]"

definition rtc_ydays :: "nat list list" where
  "rtc_ydays = [[0, 31, 59, 90, 120, 151, 181, 212, 243, 273, 304, 334, 365],
                [0, 31, 60, 91, 121, 152, 182, 213, 244, 274, 305, 335, 366]]"

definition LEAPS_THRU_END_OF :: "int \<Rightarrow> int" where
  "LEAPS_THRU_END_OF y = y div 4 - y div 100 + y div 400"

definition is_leap_year :: "u32 \<Rightarrow> bool" where
  "is_leap_year year \<longleftrightarrow> (year mod 4 = 0 \<and> year mod 100 \<noteq> 0) \<or> year mod 400 = 0"

text \<open>The caller keeps the month below 12.\<close>

definition rtc_month_days :: "u32 \<Rightarrow> u32 \<Rightarrow> int" where
  "rtc_month_days month year =
     int (rtc_days_in_month ! unat month) + (if is_leap_year year \<and> month = 1 then 1 else 0)"

section \<open>The library function\<close>

record tm =
  tm_sec :: int
  tm_min :: int
  tm_hour :: int
  tm_mday :: int
  tm_mon :: int
  tm_year :: int

definition leap :: "int \<Rightarrow> bool" where
  "leap y \<longleftrightarrow> (y mod 4 = 0 \<and> y mod 100 \<noteq> 0) \<or> y mod 400 = 0"

definition month_lengths :: "int \<Rightarrow> nat list" where
  "month_lengths y = (if leap y then rtc_days_in_month[1 := 29] else rtc_days_in_month)"

definition year_length :: "int \<Rightarrow> nat" where
  "year_length y = (if leap y then 366 else 365)"

text \<open>Days from the first of January 1970 to the first of January of a year.\<close>

definition year_start :: "int \<Rightarrow> int" where
  "year_start y = 365 * (y - 1970) + LEAPS_THRU_END_OF (y - 1) - LEAPS_THRU_END_OF 1969"

definition local_days :: "tm \<Rightarrow> int" where
  "local_days t =
     (let y = tm_year t + 1900 + tm_mon t div 12; m = nat (tm_mon t mod 12)
      in year_start y + int (rtc_ydays ! (if leap y then 1 else 0) ! m) + tm_mday t - 1)"

definition local_seconds :: "tm \<Rightarrow> int" where
  "local_seconds t = ((local_days t * 24 + tm_hour t) * 60 + tm_min t) * 60 + tm_sec t"

text \<open>From a number of days back to year, month and day.\<close>

function year_split :: "int \<Rightarrow> nat \<Rightarrow> int \<times> nat" where
  "year_split y d = (if d < year_length y then (y, d) else year_split (y + 1) (d - year_length y))"
  by auto
termination by (relation "measure snd") (auto simp: year_length_def)

declare year_split.simps [simp del]

fun month_split :: "nat list \<Rightarrow> nat \<Rightarrow> nat \<times> nat" where
  "month_split [] d = (0, d)"
| "month_split (l # ls) d = (if d < l then (0, d) else let (m, e) = month_split ls (d - l) in (Suc m, e))"

definition tm_of_seconds :: "int \<Rightarrow> tm" where
  "tm_of_seconds s =
     (let n = s div 86400; r = s mod 86400;
          (y, d) = year_split (1970 + 400 * (n div 146097)) (nat (n mod 146097));
          (m, e) = month_split (month_lengths y) d
      in \<lparr>tm_sec = r mod 60, tm_min = r div 60 mod 60, tm_hour = r div 3600,
          tm_mday = int e + 1, tm_mon = int m, tm_year = y - 1900\<rparr>)"

definition mktime :: "int \<Rightarrow> tm \<Rightarrow> int \<times> tm" where
  "mktime tz t =
     (let s = local_seconds t - tz
      in if - (2 ^ 31) \<le> s \<and> s < 2 ^ 31 then (s, tm_of_seconds (s + tz)) else (-1, t))"

section \<open>Setting the clock\<close>

definition gps_to_tm :: "int \<Rightarrow> t_time \<Rightarrow> tm" where
  "gps_to_tm tz g =
     snd (mktime tz \<lparr>tm_sec = uint (t_sec g), tm_min = uint (t_min g), tm_hour = uint (t_hour g) + 8,
                     tm_mday = uint (t_day g), tm_mon = uint (t_mon g) - 1, tm_year = uint (t_year g) - 1900\<rparr>)"

definition gps_valid_tm :: "tm \<Rightarrow> int" where
  "gps_valid_tm t =
     (if tm_year t < 70 \<or> \<not> (0 \<le> tm_mon t \<and> tm_mon t < 12) \<or> tm_mday t < 1
         \<or> tm_mday t > rtc_month_days (of_int (tm_mon t)) (of_int (tm_year t + 1900))
         \<or> \<not> (0 \<le> tm_hour t \<and> tm_hour t < 24) \<or> \<not> (0 \<le> tm_min t \<and> tm_min t < 60)
         \<or> \<not> (0 \<le> tm_sec t \<and> tm_sec t < 60)
      then -1 else 0)"

text \<open>The result and the time given to \<open>settimeofday\<close>.\<close>

definition gps_hctosys :: "int \<Rightarrow> t_time \<Rightarrow> int \<times> int option" where
  "gps_hctosys tz g =
     (let t = gps_to_tm tz g
      in if gps_valid_tm t \<noteq> 0 then (gps_valid_tm t, None) else (0, Some (fst (mktime tz t))))"

text \<open>The system time that is set, and whether \<open>hwclock -w\<close> runs.\<close>

definition gps_to_rtc :: "int \<Rightarrow> t_time \<Rightarrow> int option \<times> bool" where
  "gps_to_rtc tz g = (let (ret, set_to) = gps_hctosys tz g in (set_to, ret \<noteq> -1))"

section \<open>The calendar computes dates\<close>

lemma div_before: "0 < k \<Longrightarrow> (y - 1) div k = (if k dvd y then y div k - 1 else y div k)" for y k :: int
proof -
  assume k: "0 < k"
  define q r where "q = y div k" and "r = y mod k"
  have y: "y = k * q + r" "0 \<le> r" "r < k" using k by (simp_all add: q_def r_def)
  have "(y - 1) div k = q - 1" if "r = 0"
    by (rule int_div_pos_eq[where r = "k - 1"]) (use y that k in \<open>simp_all add: algebra_simps\<close>)
  moreover have "(y - 1) div k = q" if "r \<noteq> 0"
    by (rule int_div_pos_eq[where r = "r - 1"]) (use y that in \<open>simp_all add: algebra_simps\<close>)
  ultimately show ?thesis by (auto simp: q_def r_def dvd_eq_mod_eq_0)
qed

lemma leaps_before: "LEAPS_THRU_END_OF (y - 1) = LEAPS_THRU_END_OF y - (if leap y then 1 else 0)"
proof -
  have up: "100 dvd y \<Longrightarrow> 4 dvd y" "400 dvd y \<Longrightarrow> 100 dvd y" by (rule dvd_trans[rotated], assumption, simp)+
  have "leap y \<longleftrightarrow> 4 dvd y \<and> \<not> 100 dvd y \<or> 400 dvd y" by (simp only: leap_def dvd_eq_mod_eq_0)
  moreover have "LEAPS_THRU_END_OF (y - 1) = (if 4 dvd y then y div 4 - 1 else y div 4) -
      (if 100 dvd y then y div 100 - 1 else y div 100) + (if 400 dvd y then y div 400 - 1 else y div 400)"
    unfolding LEAPS_THRU_END_OF_def by (simp only: div_before zero_less_numeral)
  moreover have "(if a then p - 1 else p) - (if b then q - 1 else q) + (if c then r - 1 else r) =
      p - q + r - (if a \<and> \<not> b \<or> c then 1 else 0)" if "b \<Longrightarrow> a" "c \<Longrightarrow> b" for a b c and p q r :: int
    using that by auto
  ultimately show ?thesis using up by (simp only: LEAPS_THRU_END_OF_def[of y])
qed

lemma year_start_next: "year_start (y + 1) = year_start y + int (year_length y)"
  using leaps_before[of y] by (simp add: year_start_def year_length_def)

lemma year_start_cycle: "year_start (1970 + 400 * c) = 146097 * c"
proof -
  have "(1969 + 400 * c) div 4 = 492 + 100 * c" by (rule int_div_pos_eq[where r = 1]) simp_all
  moreover have "(1969 + 400 * c) div 100 = 19 + 4 * c" by (rule int_div_pos_eq[where r = 69]) simp_all
  moreover have "(1969 + 400 * c) div 400 = 4 + c" by (rule int_div_pos_eq[where r = 369]) simp_all
  moreover have "LEAPS_THRU_END_OF (1970 + 400 * c - 1) = (1969 + 400 * c) div 4 - (1969 + 400 * c) div 100 + (1969 + 400 * c) div 400"
    by (simp add: LEAPS_THRU_END_OF_def algebra_simps)
  ultimately show ?thesis by (simp add: year_start_def LEAPS_THRU_END_OF_def[of 1969])
qed

lemma year_split_correct:
  "year_split y d = (z, e) \<Longrightarrow> year_start z + int e = year_start y + int d \<and> e < year_length z"
proof (induction y d rule: year_split.induct)
  case (1 y d)
  show ?case
  proof (cases "d < year_length y")
    case True
    then show ?thesis using 1(2) by (simp add: year_split.simps)
  next
    case False
    then have "year_split (y + 1) (d - year_length y) = (z, e)" using 1(2) by (simp add: year_split.simps[of y d])
    from 1(1)[OF False this] False show ?thesis by (simp add: year_start_next)
  qed
qed

lemma month_split_correct:
  "d < sum_list ls \<Longrightarrow> month_split ls d = (m, e) \<Longrightarrow> m < length ls \<and> e < ls ! m \<and> d = sum_list (take m ls) + e"
proof (induction ls arbitrary: d m)
  case (Cons l ls)
  show ?case
  proof (cases "d < l")
    case False
    obtain m' where "month_split ls (d - l) = (m', e)" "m = Suc m'"
      using Cons.prems(2) False by (auto split: prod.splits)
    moreover have "d - l < sum_list ls" using Cons.prems(1) False by simp
    ultimately show ?thesis using Cons.IH[of "d - l" m'] False by auto
  qed (use Cons.prems in auto)
qed simp

lemma months_of_year: "sum_list (month_lengths y) = year_length y" "length (month_lengths y) = 12"
  by (simp_all add: month_lengths_def year_length_def rtc_days_in_month_def)

lemma days_before_month:
  assumes "m < 12"
  shows "sum_list (take m (month_lengths y)) = rtc_ydays ! (if leap y then 1 else 0) ! m"
proof -
  have "m = 0 \<or> m = 1 \<or> m = 2 \<or> m = 3 \<or> m = 4 \<or> m = 5 \<or> m = 6 \<or> m = 7 \<or> m = 8 \<or> m = 9 \<or> m = 10 \<or> m = 11"
    using assms by arith
  then have "m \<in> {0, 1, 2, 3, 4, 5, 6, 7, 8, 9, 10, 11}" by simp
  then show ?thesis by (auto simp: month_lengths_def rtc_days_in_month_def rtc_ydays_def)
qed

text \<open>Breaking a number of seconds down and computing it again.\<close>

definition in_range :: "tm \<Rightarrow> bool" where
  "in_range t \<longleftrightarrow> 0 \<le> tm_sec t \<and> tm_sec t < 60 \<and> 0 \<le> tm_min t \<and> tm_min t < 60 \<and> 0 \<le> tm_hour t \<and> tm_hour t < 24 \<and>
     0 \<le> tm_mon t \<and> tm_mon t < 12 \<and> 1 \<le> tm_mday t \<and>
     tm_mday t \<le> int (month_lengths (tm_year t + 1900) ! nat (tm_mon t))"

lemma split_seconds:
  fixes r :: int
  assumes "0 \<le> r" "r < 86400"
  shows "0 \<le> r div 3600 \<and> r div 3600 < 24" "r div 3600 * 3600 + (r div 60 mod 60) * 60 + r mod 60 = r"
proof -
  show "0 \<le> r div 3600 \<and> r div 3600 < 24"
    using assms zdiv_mono1[of r 86399 3600] by (simp add: pos_imp_zdiv_nonneg_iff)
  have "r div 3600 = r div 60 div 60" by (simp add: zdiv_zmult2_eq[symmetric])
  then show "r div 3600 * 3600 + (r div 60 mod 60) * 60 + r mod 60 = r"
    using div_mult_mod_eq[of "r div 60" 60] div_mult_mod_eq[of r 60] by linarith
qed

lemma tm_of_seconds_correct: "in_range (tm_of_seconds s) \<and> local_seconds (tm_of_seconds s) = s"
proof -
  define n r where "n = s div 86400" and "r = s mod 86400"
  define h mi se where "h = r div 3600" and "mi = r div 60 mod 60" and "se = r mod 60"
  have "0 \<le> r" "r < 86400" by (simp_all add: r_def)
  from split_seconds[OF this] have r: "0 \<le> h" "h < 24" "0 \<le> mi" "mi < 60" "0 \<le> se" "se < 60" "h * 3600 + mi * 60 + se = r"
    by (simp_all add: h_def mi_def se_def)
  have s: "n * 86400 + r = s" by (simp add: n_def r_def)
  obtain y d where y: "year_split (1970 + 400 * (n div 146097)) (nat (n mod 146097)) = (y, d)" by (meson surj_pair)
  obtain m e where m: "month_split (month_lengths y) d = (m, e)" by (meson surj_pair)
  have d: "year_start y + int d = n" "d < year_length y"
    using year_split_correct[OF y] by (simp_all add: year_start_cycle)
  then have me: "m < 12" "e < month_lengths y ! m" "d = rtc_ydays ! (if leap y then 1 else 0) ! m + e"
    using month_split_correct[OF _ m] by (simp_all add: months_of_year days_before_month)
  have t: "tm_of_seconds s = \<lparr>tm_sec = se, tm_min = mi, tm_hour = h, tm_mday = int e + 1, tm_mon = int m, tm_year = y - 1900\<rparr>"
    unfolding tm_of_seconds_def Let_def n_def[symmetric] r_def[symmetric] using y m by (simp add: h_def mi_def se_def)
  have "local_days (tm_of_seconds s) = n" using d(1) me(1,3) by (simp add: t local_days_def Let_def)
  then have "local_seconds (tm_of_seconds s) = ((n * 24 + h) * 60 + mi) * 60 + se"
    by (simp add: local_seconds_def) (simp add: t)
  also have "\<dots> = s" using r(7) s by (simp add: ring_distribs)
  finally show ?thesis using me(1,2) r(1-6) by (simp add: in_range_def t)
qed

lemma leap_year_word:
  assumes "0 \<le> y" "y < 2 ^ 32"
  shows "is_leap_year (of_int y) = leap y"
proof -
  have u: "uint (of_int y :: u32) = y" using assms by (simp add: uint_word_of_int)
  have "(of_int y :: u32) mod of_nat k = 0 \<longleftrightarrow> y mod int k = 0" if "k < 1000" for k
  proof -
    have "uint (of_nat k :: u32) = int k" using that by (simp add: unsigned_of_nat take_bit_nat_eq_self)
    then show ?thesis using u by (simp add: word_uint_eq_iff uint_mod_distrib)
  qed
  from this[of 4] this[of 100] this[of 400] show ?thesis by (simp add: is_leap_year_def leap_def)
qed

lemma month_days:
  assumes "0 \<le> m" "m < 12" "0 \<le> y" "y < 2 ^ 32"
  shows "rtc_month_days (of_int m) (of_int y) = int (month_lengths y ! nat m)"
proof -
  have u: "uint (of_int m :: u32) = m" using assms by (simp add: uint_word_of_int)
  then have "unat (of_int m :: u32) = nat m" "(of_int m :: u32) = 1 \<longleftrightarrow> nat m = 1"
    using assms(1) by (auto simp: word_uint_eq_iff simp flip: nat_uint_eq)
  moreover have "rtc_days_in_month[Suc 0 := 29] ! nat m = (if nat m = 1 then 29 else rtc_days_in_month ! nat m)"
    using assms(2) by (simp add: rtc_days_in_month_def nth_list_update del: list_update.simps)
  moreover have "rtc_days_in_month ! 1 = 28" by (simp add: rtc_days_in_month_def)
  ultimately show ?thesis
    by (simp add: rtc_month_days_def leap_year_word[OF assms(3,4)] month_lengths_def)
      (simp add: rtc_days_in_month_def)
qed

lemma valid_in_range:
  assumes "in_range t" "70 \<le> tm_year t" "tm_year t < 2 ^ 31"
  shows "gps_valid_tm t = 0"
proof -
  have "rtc_month_days (of_int (tm_mon t)) (of_int (tm_year t + 1900)) =
      int (month_lengths (tm_year t + 1900) ! nat (tm_mon t))"
    using assms by (intro month_days) (auto simp: in_range_def)
  then show ?thesis using assms(1,2) by (auto simp: gps_valid_tm_def in_range_def)
qed

section \<open>What is set\<close>

lemma year_start_grows: "year_start y + 365 * int k \<le> year_start (y + int k)"
proof (induction k)
  case (Suc k)
  have "year_start (y + int (Suc k)) = year_start (y + int k) + int (year_length (y + int k))"
    using year_start_next[of "y + int k"] by (simp add: algebra_simps)
  moreover have "365 \<le> year_length (y + int k)" by (simp add: year_length_def)
  ultimately show ?case using Suc by simp
qed simp

lemma year_start_since: "1970 \<le> y \<Longrightarrow> 365 * (y - 1970) \<le> year_start y"
  using year_start_grows[of 1970 "nat (y - 1970)"] year_start_cycle[of 0] by simp

lemma year_split_bounds: "year_split y d = (z, e) \<Longrightarrow> y \<le> z \<and> z \<le> y + int d"
proof (induction y d rule: year_split.induct)
  case (1 y d)
  have "0 < year_length y" by (simp add: year_length_def)
  then show ?case using 1 by (cases "d < year_length y") (fastforce simp: year_split.simps[of y d])+
qed

lemma tm_of_seconds_year:
  assumes "0 \<le> s" "s < 2 ^ 32"
  shows "70 \<le> tm_year (tm_of_seconds s) \<and> tm_year (tm_of_seconds s) < 2 ^ 31"
proof -
  define n where "n = s div 86400"
  have n: "0 \<le> n" "n \<le> 49710" using assms zdiv_mono1[of s "2 ^ 32" 86400] by (simp_all add: n_def pos_imp_zdiv_nonneg_iff)
  obtain y d where y: "year_split (1970 + 400 * (n div 146097)) (nat (n mod 146097)) = (y, d)" by (meson surj_pair)
  have "n div 146097 = 0" "n mod 146097 = n" using n by simp_all
  then have "1970 \<le> y" "y \<le> 1970 + n" using year_split_bounds[OF y] n(1) by simp_all
  moreover have "tm_year (tm_of_seconds s) = y - 1900"
    using y by (simp add: tm_of_seconds_def Let_def n_def split: prod.splits)
  ultimately show ?thesis using n(2) by simp
qed

text \<open>The fields of the satellite time as a count of seconds.\<close>

definition utc_seconds :: "t_time \<Rightarrow> int" where
  "utc_seconds g = local_seconds \<lparr>tm_sec = uint (t_sec g), tm_min = uint (t_min g), tm_hour = uint (t_hour g),
     tm_mday = uint (t_day g), tm_mon = uint (t_mon g) - 1, tm_year = uint (t_year g) - 1900\<rparr>"

lemma utc_seconds_nonneg:
  assumes "1971 \<le> uint (t_year g)"
  shows "0 \<le> utc_seconds g"
proof -
  define mon where "mon = uint (t_mon g) - 1"
  define y where "y = uint (t_year g) + mon div 12"
  define yd where "yd = rtc_ydays ! (if leap y then 1 else 0) ! nat (mon mod 12)"
  have "0 \<le> year_start y + int yd - 1"
  proof (cases "mon = -1")
    case True
    then have "1970 \<le> y" "yd \<ge> 1" using assms by (simp_all add: y_def yd_def rtc_ydays_def)
    then show ?thesis using year_start_since[of y] by simp
  next
    case False
    then have "0 \<le> mon" using uint_ge_0[of "t_mon g"] unfolding mon_def by linarith
    then have "1971 \<le> y" using assms by (simp add: y_def pos_imp_zdiv_nonneg_iff)
    then show ?thesis using year_start_since[of y] by simp
  qed
  then have "0 \<le> year_start y + int yd + uint (t_day g) - 1" using uint_ge_0[of "t_day g"] by linarith
  moreover have "utc_seconds g = (((year_start y + int yd + uint (t_day g) - 1) * 24 + uint (t_hour g)) * 60
      + uint (t_min g)) * 60 + uint (t_sec g)"
    by (simp add: utc_seconds_def local_seconds_def local_days_def Let_def mon_def y_def yd_def)
  ultimately show ?thesis by simp
qed

section \<open>Properties\<close>



end
