(* ===== verification/CliLogin.thy ===== *)
theory CliLogin
  imports Prelude
begin

text \<open>
  Logging in to the command shell: the table of users in shared memory (\<open>lib/cli_user_lib.c\<close>), checking a
  password, taking and giving back a place in the table and changing a password (\<open>command/user_mng_cmd.c\<close>),
  the login of a telnet connection and the list of banned addresses (\<open>common/vty.c\<close>), all under
  \<open>app/oam/agent/cli\<close>.

  A C string is the list of its bytes before the terminating zero. The semaphore and the two mutexes make each
  operation atomic. A variable that is read before it was set is a parameter called \<open>junk\<close>. \<open>None\<close> is a write
  outside a buffer, a missing argument of a format, or a use of freed memory.
\<close>

type_synonym string_c = bytes

definition MAX_CLI_USER :: nat where "MAX_CLI_USER = 4"
definition MAX_USER_NAME_LEN :: nat where "MAX_USER_NAME_LEN = 16"
definition MAX_PASSWD_LEN :: nat where "MAX_PASSWD_LEN = 16"

lemmas cli_limits = MAX_CLI_USER_def MAX_USER_NAME_LEN_def MAX_PASSWD_LEN_def

definition CMD_SUCCESS :: int where "CMD_SUCCESS = 0"
definition CMD_WARNING :: int where "CMD_WARNING = 1"
definition CMD_ERR_NO_MATCH :: int where "CMD_ERR_NO_MATCH = 2"

lemmas cmd_codes = CMD_SUCCESS_def CMD_WARNING_def CMD_ERR_NO_MATCH_def

section \<open>Users\<close>

text \<open>\<open>u_pwd\<close> is the buffer of 17 bytes; the name is the string in its buffer, at most 16 long.\<close>

record cli_user =
  u_name :: string_c
  u_pwd :: bytes
  u_pri :: int
  u_term :: u32

definition c_str :: "bytes \<Rightarrow> string_c" where
  "c_str b = takeWhile (\<lambda>c. c \<noteq> 0) b"

text \<open>\<open>sprintf(dst, s)\<close> without further arguments: a percent sign must be doubled.\<close>

fun c_format :: "string_c \<Rightarrow> string_c option" where
  "c_format [] = Some []"
| "c_format (c # s) =
     (if c \<noteq> 37 then map_option (\<lambda>r. c # r) (c_format s)
      else case s of [] \<Rightarrow> None | d # s' \<Rightarrow> if d = 37 then map_option (\<lambda>r. 37 # r) (c_format s') else None)"

definition slot_where :: "(cli_user \<Rightarrow> bool) \<Rightarrow> cli_user list \<Rightarrow> nat option" where
  "slot_where P us = List.find (\<lambda>i. P (us ! i)) [0..<MAX_CLI_USER]"

text \<open>The table after \<open>_user_init\<close> in fresh shared memory.\<close>

definition user_init :: "cli_user list" where
  "user_init =
     (replicate MAX_CLI_USER \<lparr>u_name = [], u_pwd = replicate 17 0, u_pri = 0, u_term = 0\<rparr>)
       [0 := \<lparr>u_name = [118, 97, 110, 101, 116], u_pwd = [118, 97, 110, 101, 116] @ replicate 12 0,
              u_pri = 15, u_term = 0\<rparr>]"

text \<open>What the caller's password buffer and priority are afterwards; the result is always 0.\<close>

definition get_cli_user_info :: "string_c \<Rightarrow> bytes \<Rightarrow> int \<Rightarrow> cli_user list \<Rightarrow> bytes \<times> int" where
  "get_cli_user_info name pwd pri us =
     (case slot_where (\<lambda>u. u_name u = name) us of
        Some i \<Rightarrow> (take MAX_PASSWD_LEN (u_pwd (us ! i)) @ drop MAX_PASSWD_LEN pwd, u_pri (us ! i))
      | None \<Rightarrow> (pwd, pri))"

text \<open>\<open>get_user_info\<close> returns a variable it never sets.\<close>

definition use_auth :: "int \<Rightarrow> string_c \<Rightarrow> string_c \<Rightarrow> int \<Rightarrow> cli_user list \<Rightarrow> int \<times> int" where
  "use_auth junk name pass pri us =
     (let (pwd, pri) = get_cli_user_info name (replicate (MAX_PASSWD_LEN + 1) 0) pri us
      in (if junk \<noteq> 0 \<or> pass \<noteq> c_str pwd then CMD_ERR_NO_MATCH else CMD_SUCCESS, pri))"

text \<open>The check of \<open>enable_auth\<close> is compiled out.\<close>

definition enable_auth :: "string_c \<Rightarrow> int" where
  "enable_auth pass = CMD_SUCCESS"

definition registe_user :: "int \<Rightarrow> string_c \<Rightarrow> u32 \<Rightarrow> cli_user list \<Rightarrow> (nat \<times> cli_user list) option" where
  "registe_user junk name term us =
     (case slot_where (\<lambda>u. u_name u = name) us of
        Some i \<Rightarrow> Some (i, us[i := (us ! i)\<lparr>u_term := u_term (us ! i) OR term\<rparr>])
      | None \<Rightarrow>
          (case slot_where (\<lambda>u. u_term u = 0) us of
             None \<Rightarrow> Some (MAX_CLI_USER, us)
           | Some i \<Rightarrow>
               do { n \<leftarrow> c_format name;
                    if length n > MAX_USER_NAME_LEN then None
                    else Some (i, us[i := (us ! i)\<lparr>u_name := n, u_term := term, u_pri := junk\<rparr>]) }))"

definition release_user :: "nat \<Rightarrow> u32 \<Rightarrow> cli_user list \<Rightarrow> cli_user list" where
  "release_user i term us =
     (if i < MAX_CLI_USER then us[i := (us ! i)\<lparr>u_term := u_term (us ! i) XOR term\<rparr>] else us)"

text \<open>The name is not used. The password is a buffer of which 16 bytes are copied.\<close>

definition set_user_passwd :: "string_c \<Rightarrow> bytes \<Rightarrow> cli_user list \<Rightarrow> cli_user list option" where
  "set_user_passwd name pwd us =
     (case slot_where (\<lambda>u. u_term u = 0) us of
        None \<Rightarrow> Some us
      | Some i \<Rightarrow>
          if length pwd < MAX_PASSWD_LEN then None
          else Some (us[i := (us ! i)\<lparr>u_pwd := take MAX_PASSWD_LEN pwd @ drop MAX_PASSWD_LEN (u_pwd (us ! i))\<rparr>]))"

definition set_user_privilege :: "string_c \<Rightarrow> int \<Rightarrow> cli_user list \<Rightarrow> cli_user list" where
  "set_user_privilege name pri us =
     (case slot_where (\<lambda>u. u_term u = 0) us of
        None \<Rightarrow> us
      | Some i \<Rightarrow> us[i := (us ! i)\<lparr>u_pri := pri\<rparr>])"

section \<open>Banned addresses\<close>

record dos_node =
  ds_secend :: int
  ds_ip :: string_c
  ds_next :: "nat option"

text \<open>The list in its memory: a node is present until it is freed. \<open>dos_threads\<close> counts the threads that run
  \<open>DosThread\<close>: one is started for each address added to an empty list, and it ends when it finds the list empty.\<close>

record dos_list =
  dos_head :: "nat option"
  dos_mem :: "nat \<Rightarrow> dos_node option"
  dos_fresh :: nat
  dos_threads :: nat

definition dos_init :: dos_list where
  "dos_init = \<lparr>dos_head = None, dos_mem = (\<lambda>_. None), dos_fresh = 0, dos_threads = 0\<rparr>"

partial_function (option) find_dos_loop :: "(nat \<Rightarrow> dos_node option) \<Rightarrow> string_c \<Rightarrow> nat option \<Rightarrow> bool option" where
  "find_dos_loop mem ip p =
     (case p of None \<Rightarrow> Some False
      | Some i \<Rightarrow> do { n \<leftarrow> mem i; if ip = ds_ip n then Some True else find_dos_loop mem ip (ds_next n) })"

definition FindDos :: "string_c \<Rightarrow> dos_list \<Rightarrow> bool option" where
  "FindDos ip d = find_dos_loop (dos_mem d) ip (dos_head d)"

text \<open>One pass of one \<open>DosThread\<close> over the list; it makes one each second.\<close>

partial_function (option) dos_loop :: "nat option \<Rightarrow> dos_list \<Rightarrow> dos_list option" where
  "dos_loop p d =
     (case p of None \<Rightarrow> Some d
      | Some i \<Rightarrow>
          do { n \<leftarrow> dos_mem d i;
               if ds_secend n > 0
               then dos_loop (ds_next n) (d\<lparr>dos_mem := (dos_mem d)(i \<mapsto> n\<lparr>ds_secend := ds_secend n - 1\<rparr>)\<rparr>)
               else dos_loop (ds_next n)
                      (d\<lparr>dos_head := (if dos_head d = Some i then ds_next n else dos_head d),
                         dos_mem := (dos_mem d)(i := None)\<rparr>) })"

definition DosThread_pass :: "dos_list \<Rightarrow> dos_list option" where
  "DosThread_pass d =
     (if dos_head d = None then Some (d\<lparr>dos_threads := dos_threads d - 1\<rparr>) else dos_loop (dos_head d) d)"

text \<open>An address is written in a buffer of 20 bytes.\<close>

definition AddDos :: "string_c \<Rightarrow> dos_list \<Rightarrow> dos_list option" where
  "AddDos ip d =
     do { s \<leftarrow> c_format ip;
          if length s > 19 then None
          else Some (d\<lparr>dos_head := Some (dos_fresh d),
                       dos_mem := (dos_mem d)(dos_fresh d \<mapsto> \<lparr>ds_secend = 60, ds_ip = s, ds_next = dos_head d\<rparr>),
                       dos_fresh := dos_fresh d + 1,
                       dos_threads := dos_threads d + (if dos_head d = None then 1 else 0)\<rparr>) }"

section \<open>A telnet connection\<close>

datatype node_type =
  USER_NODE | AUTH_NODE | VIEW_NODE | AUTH_ENABLE_NODE | ENABLE_NODE | CONFIG_NODE
| CHANGE_PASSWD_NODE | CHANGE_PASSWD_AGAIN_NODE | DEBUG_NODE

text \<open>The part of \<open>struct vty\<close> a login uses. \<open>v_pcBuf\<close> is a buffer of 128 bytes, \<open>v_close\<close> the status
  \<open>VTY_CLOSE\<close>, and \<open>v_chg_user\<close> says that the password to change is the user's and not that of enable.\<close>

record vty =
  v_node :: node_type
  v_user_index :: nat
  v_pcBuf :: bytes
  v_iVtyIndex :: nat
  v_chg_user :: bool
  v_iPriority :: int
  v_address :: string_c
  v_close :: bool
  v_iInvLogin :: nat

definition MAX_TELNET_NUM :: nat where "MAX_TELNET_NUM = 3"

text \<open>\<open>strcpy\<close> into a buffer with room.\<close>

definition put_str :: "string_c \<Rightarrow> bytes \<Rightarrow> bytes" where
  "put_str s b = s @ [0] @ drop (length s + 1) b"

definition terminal_bit :: "vty \<Rightarrow> u32" where
  "terminal_bit v = push_bit (v_iVtyIndex v + 1) 1"

definition vty_auth ::
    "int \<Rightarrow> int \<Rightarrow> string_c \<Rightarrow> vty \<times> cli_user list \<times> dos_list \<Rightarrow> (vty \<times> cli_user list \<times> dos_list) option" where
  "vty_auth junk junk_pri buf = (\<lambda>(v, us, d).
     (case v_node v of
        USER_NODE \<Rightarrow>
          Some (if 0 < length buf \<and> length buf \<le> MAX_USER_NAME_LEN
                then v\<lparr>v_pcBuf := put_str buf (v_pcBuf v), v_node := AUTH_NODE\<rparr> else v, us, d)
      | AUTH_NODE \<Rightarrow>
          (let v = v\<lparr>v_node := VIEW_NODE\<rparr>;
               name = c_str (v_pcBuf v);
               (ret, pri) = use_auth junk name buf (v_iPriority v) us;
               v = v\<lparr>v_iPriority := pri\<rparr>
           in if ret = CMD_SUCCESS then
                do { (i, us) \<leftarrow> registe_user junk_pri name (terminal_bit v) us;
                     let v = v\<lparr>v_user_index := i\<rparr>;
                     Some (if i = MAX_CLI_USER then v\<lparr>v_close := True\<rparr> else v, us, d) }
              else if v_iInvLogin v < 2 then
                Some (v\<lparr>v_node := USER_NODE, v_iInvLogin := v_iInvLogin v + 1\<rparr>, us, d)
              else do { d \<leftarrow> AddDos (v_address v) d; Some (v\<lparr>v_close := True\<rparr>, us, d) })
      | AUTH_ENABLE_NODE \<Rightarrow>
          Some (v\<lparr>v_node := if enable_auth buf = CMD_SUCCESS then ENABLE_NODE else VIEW_NODE\<rparr>, us, d)
      | _ \<Rightarrow> Some (v, us, d)))"

text \<open>\<open>set_enable_passwd\<close> does nothing. \<open>snprintf\<close> cuts the line at 16 bytes and returns its full length.\<close>

definition change_vty_passwd :: "string_c \<Rightarrow> vty \<times> cli_user list \<Rightarrow> (int \<times> vty \<times> cli_user list) option" where
  "change_vty_passwd buf = (\<lambda>(v, us).
     (if v_node v = CHANGE_PASSWD_NODE then
        let v = v\<lparr>v_pcBuf := put_str (take MAX_PASSWD_LEN buf) (v_pcBuf v)\<rparr>
        in Some (if length buf > MAX_PASSWD_LEN \<or> length buf = 0 then (CMD_WARNING, v\<lparr>v_node := ENABLE_NODE\<rparr>, us)
                 else (CMD_SUCCESS, v\<lparr>v_node := CHANGE_PASSWD_AGAIN_NODE\<rparr>, us))
      else if c_str (v_pcBuf v) = buf then
        (if v_chg_user v then
           if v_user_index v \<ge> MAX_CLI_USER then None
           else do { us' \<leftarrow> set_user_passwd (u_name (us ! v_user_index v)) (v_pcBuf v) us;
                     Some (CMD_SUCCESS, v\<lparr>v_node := ENABLE_NODE\<rparr>, us') }
         else Some (CMD_SUCCESS, v\<lparr>v_node := ENABLE_NODE\<rparr>, us))
      else Some (CMD_WARNING, v\<lparr>v_node := ENABLE_NODE\<rparr>, us)))"

text \<open>What closing the connection does to the table.\<close>

definition vty_close_user :: "vty \<Rightarrow> cli_user list \<Rightarrow> cli_user list" where
  "vty_close_user v us =
     (if v_iVtyIndex v < MAX_TELNET_NUM then release_user (v_user_index v) (terminal_bit v) us else us)"

section \<open>The table of users\<close>

lemma slot_where_Some:
  assumes "slot_where P us = Some i"
  shows "i < 4" "P (us ! i)" "\<forall>j < i. \<not> P (us ! j)"
  using assms by (auto simp: slot_where_def find_Some_iff MAX_CLI_USER_def)

lemma slot_where_None: "slot_where P us = None \<longleftrightarrow> (\<forall>i < 4. \<not> P (us ! i))"
  by (auto simp: slot_where_def find_None_iff MAX_CLI_USER_def)

lemma c_format_plain: "37 \<notin> set s \<Longrightarrow> c_format s = Some s"
  by (induction s) auto

lemma c_str_plain: "0 \<notin> set s \<Longrightarrow> c_str (s @ 0 # b) = s"
  by (auto simp: c_str_def takeWhile_append)

definition users_ok :: "cli_user list \<Rightarrow> bool" where
  "users_ok us \<longleftrightarrow> length us = 4 \<and>
     (\<forall>u \<in> set us. length (u_name u) \<le> 16 \<and> 0 \<notin> set (u_name u) \<and> length (u_pwd u) = 17 \<and> u_pwd u ! 16 = 0) \<and>
     (\<forall>i j. i < 4 \<longrightarrow> j < 4 \<longrightarrow> i \<noteq> j \<longrightarrow> u_name (us ! i) = u_name (us ! j) \<longrightarrow> u_name (us ! i) = [])"

lemma users_ok_update:
  assumes "users_ok us" "i < 4" "length (u_name u) \<le> 16" "0 \<notin> set (u_name u)" "length (u_pwd u) = 17" "u_pwd u ! 16 = 0"
    and "u_name u = u_name (us ! i) \<or> (\<forall>j < 4. u_name (us ! j) \<noteq> u_name u)"
  shows "users_ok (us[i := u])"
proof -
  have "length us = 4" using assms(1) by (simp add: users_ok_def)
  moreover have "u_name (us[i := u] ! a) = [] \<or> a = b" if "a < 4" "b < 4" "u_name (us[i := u] ! a) = u_name (us[i := u] ! b)" for a b
  proof -
    have *: "u_name (us ! a) = u_name (us ! b) \<Longrightarrow> a \<noteq> b \<Longrightarrow> u_name (us ! a) = []"
      using assms(1) that by (simp add: users_ok_def)
    show ?thesis
      using * that assms(2,7) \<open>length us = 4\<close> by (cases "a = i"; cases "b = i") auto
  qed
  ultimately show ?thesis
    using assms(1-6) unfolding users_ok_def by (auto dest!: set_update_subset_insert[THEN subsetD])
qed

lemma users_ok_nth: "users_ok us \<Longrightarrow> i < 4 \<Longrightarrow> length (u_name (us ! i)) \<le> 16 \<and> 0 \<notin> set (u_name (us ! i)) \<and>
    length (u_pwd (us ! i)) = 17 \<and> u_pwd (us ! i) ! 16 = 0"
  by (simp add: users_ok_def)

lemma user_init_list:
  "user_init = (let e = \<lparr>u_name = [], u_pwd = replicate 17 0, u_pri = 0, u_term = 0\<rparr>
     in [\<lparr>u_name = [118, 97, 110, 101, 116], u_pwd = [118, 97, 110, 101, 116] @ replicate 12 0, u_pri = 15, u_term = 0\<rparr>,
         e, e, e])"
  by (simp add: user_init_def MAX_CLI_USER_def numeral_eq_Suc Let_def)

lemma user_init_ok: "users_ok user_init"
proof -
  have "u_name (user_init ! i) = []" if "0 < i" "i < 4" for i
  proof -
    have "i = 1 \<or> i = 2 \<or> i = 3" using that by arith
    then show ?thesis by (auto simp: user_init_list Let_def)
  qed
  then have "u_name (user_init ! i) = []" if "i < 4" "j < 4" "i \<noteq> j" "u_name (user_init ! i) = u_name (user_init ! j)" for i j
    using that by (cases "i = 0"; cases "j = 0") fastforce+
  moreover have "length user_init = 4" "\<forall>u \<in> set user_init. length (u_name u) \<le> 16 \<and> 0 \<notin> set (u_name u) \<and>
      length (u_pwd u) = 17 \<and> u_pwd u ! 16 = 0"
    by (simp_all add: user_init_list Let_def nth_append)
  ultimately show ?thesis unfolding users_ok_def by blast
qed

lemma registe_user_ok:
  assumes ok: "users_ok us" and name: "length name \<le> 16" "0 \<notin> set name" "37 \<notin> set name"
  shows "\<exists>i us'. registe_user junk name term us = Some (i, us') \<and> users_ok us' \<and> i \<le> 4 \<and>
    (if i = 4 then us' = us else u_name (us' ! i) = name \<and> u_term (us' ! i) AND term = term)"
proof (cases "slot_where (\<lambda>u. u_name u = name) us")
  case (Some i)
  have l: "length us = 4" using ok by (simp add: users_ok_def)
  note s = slot_where_Some[OF Some]
  then have "users_ok (us[i := (us ! i)\<lparr>u_term := u_term (us ! i) OR term\<rparr>])"
    using users_ok_nth[OF ok s(1)] by (intro users_ok_update[OF ok s(1)]) auto
  moreover have "(u_term (us ! i) OR term) AND term = term" by (auto simp: bit_eq_iff bit_simps)
  ultimately show ?thesis using Some s l by (simp add: registe_user_def)
next
  case None
  then have new: "\<forall>j < 4. u_name (us ! j) \<noteq> name" by (simp add: slot_where_None)
  have l: "length us = 4" using ok by (simp add: users_ok_def)
  show ?thesis
  proof (cases "slot_where (\<lambda>u. u_term u = 0) us")
    case None
    then show ?thesis using \<open>slot_where (\<lambda>u. u_name u = name) us = None\<close> ok by (simp add: registe_user_def MAX_CLI_USER_def)
  next
    case (Some i)
    note s = slot_where_Some[OF Some]
    have "users_ok (us[i := (us ! i)\<lparr>u_name := name, u_term := term, u_pri := junk\<rparr>])"
      using users_ok_nth[OF ok s(1)] name new by (intro users_ok_update[OF ok s(1)]) auto
    then show ?thesis
      using Some None s l name by (simp add: registe_user_def c_format_plain MAX_USER_NAME_LEN_def)
  qed
qed

lemma release_user_ok: "users_ok us \<Longrightarrow> users_ok (release_user i term us)"
  using users_ok_nth by (auto simp: release_user_def MAX_CLI_USER_def intro!: users_ok_update)

lemma set_user_passwd_cases:
  assumes "length us = 4" "16 \<le> length pwd"
  shows "\<exists>us'. set_user_passwd name pwd us = Some us' \<and> (us' = us \<or> (\<exists>i < 4. u_term (us ! i) = 0 \<and>
    us' = us[i := (us ! i)\<lparr>u_pwd := take 16 pwd @ drop 16 (u_pwd (us ! i))\<rparr>]))"
proof (cases "slot_where (\<lambda>u. u_term u = 0) us")
  case (Some i)
  then show ?thesis using slot_where_Some[OF Some] assms by (auto simp: set_user_passwd_def MAX_PASSWD_LEN_def)
qed (simp add: set_user_passwd_def)

lemma set_user_passwd_ok:
  assumes "users_ok us" "16 \<le> length pwd"
  shows "\<exists>us'. set_user_passwd name pwd us = Some us' \<and> users_ok us'"
proof -
  have "users_ok (us[i := (us ! i)\<lparr>u_pwd := take 16 pwd @ drop 16 (u_pwd (us ! i))\<rparr>])" if "i < 4" for i
    using users_ok_nth[OF assms(1) that] assms(2) by (intro users_ok_update[OF assms(1) that]) (auto simp: nth_append)
  moreover have "length us = 4" using assms(1) by (simp add: users_ok_def)
  ultimately show ?thesis using set_user_passwd_cases[OF _ assms(2), of us name] assms(1) by metis
qed

lemma set_user_privilege_ok: "users_ok us \<Longrightarrow> users_ok (set_user_privilege name pri us)"
  using users_ok_nth slot_where_Some
  by (fastforce simp: set_user_privilege_def split: option.split intro!: users_ok_update)

text \<open>A connection whose buffers hold what they should.\<close>

definition vty_ok :: "vty \<Rightarrow> bool" where
  "vty_ok v \<longleftrightarrow> length (v_pcBuf v) = 128 \<and>
     (v_node v = AUTH_NODE \<longrightarrow> length (c_str (v_pcBuf v)) \<le> 16 \<and> 37 \<notin> set (c_str (v_pcBuf v))) \<and>
     37 \<notin> set (v_address v) \<and> length (v_address v) \<le> 19"

lemma c_str_no_zero: "0 \<notin> set (c_str b)"
  by (auto simp: c_str_def dest: set_takeWhileD)

text \<open>Lines as the terminal gives them: no zero byte, and here no percent sign either.\<close>

definition plain_line :: "string_c \<Rightarrow> bool" where
  "plain_line buf \<longleftrightarrow> 0 \<notin> set buf \<and> 37 \<notin> set buf"

lemma vty_auth_ok:
  assumes v: "vty_ok v" and us: "users_ok us" and buf: "plain_line buf"
  shows "\<exists>v' us' d'. vty_auth junk jp buf (v, us, d) = Some (v', us', d') \<and> vty_ok v' \<and> users_ok us'"
proof (cases "v_node v")
  case USER_NODE
  have "vty_ok (v\<lparr>v_pcBuf := put_str buf (v_pcBuf v), v_node := AUTH_NODE\<rparr>)" if "length buf \<le> 16"
    using v buf that by (simp add: vty_ok_def put_str_def plain_line_def c_str_plain)
  then show ?thesis using USER_NODE v us by (simp add: vty_auth_def MAX_USER_NAME_LEN_def)
next
  case AUTH_NODE
  define name where "name = c_str (v_pcBuf v)"
  have n: "length name \<le> 16" "0 \<notin> set name" "37 \<notin> set name"
    using v AUTH_NODE c_str_no_zero by (auto simp: vty_ok_def name_def)
  have vv: "vty_ok (v\<lparr>v_node := VIEW_NODE, v_iPriority := p\<rparr>)" "vty_ok (v\<lparr>v_node := VIEW_NODE, v_iPriority := p, v_user_index := i\<rparr>)"
    "vty_ok (v\<lparr>v_node := VIEW_NODE, v_iPriority := p, v_user_index := i, v_close := True\<rparr>)"
    "vty_ok (v\<lparr>v_node := VIEW_NODE, v_iPriority := p, v_close := True\<rparr>)"
    "vty_ok (v\<lparr>v_iPriority := p, v_node := USER_NODE, v_iInvLogin := k\<rparr>)" for p i k
    using v by (simp_all add: vty_ok_def)
  obtain d' where d': "AddDos (v_address v) d = Some d'"
    using v by (simp add: AddDos_def c_format_plain vty_ok_def)
  obtain i us' where r: "registe_user jp name (terminal_bit v) us = Some (i, us')" "users_ok us'"
    using registe_user_ok[OF us n] by blast
  obtain ret pri where a: "use_auth junk name buf (v_iPriority v) us = (ret, pri)" by (meson surj_pair)
  have t: "terminal_bit (v\<lparr>v_node := VIEW_NODE, v_iPriority := pri\<rparr>) = terminal_bit v" by (simp add: terminal_bit_def)
  show ?thesis
    using AUTH_NODE a r us vv d' by (simp add: vty_auth_def Let_def t flip: name_def)
next
  case AUTH_ENABLE_NODE
  then show ?thesis using v us by (simp add: vty_auth_def vty_ok_def enable_auth_def)
qed (use v us in \<open>simp_all add: vty_auth_def\<close>)

lemma change_vty_passwd_ok:
  assumes v: "vty_ok v" and us: "users_ok us" and buf: "plain_line buf"
    and node: "v_node v = CHANGE_PASSWD_NODE \<or> v_node v = CHANGE_PASSWD_AGAIN_NODE" and logged_in: "v_user_index v < 4"
  shows "\<exists>r v' us'. change_vty_passwd buf (v, us) = Some (r, v', us') \<and> vty_ok v' \<and> users_ok us'"
proof -
  have l: "length (v_pcBuf v) = 128" using v by (simp add: vty_ok_def)
  have "vty_ok (v\<lparr>v_node := ENABLE_NODE\<rparr>)"
    "vty_ok (v\<lparr>v_pcBuf := put_str (take 16 buf) (v_pcBuf v), v_node := ENABLE_NODE\<rparr>)"
    "vty_ok (v\<lparr>v_pcBuf := put_str (take 16 buf) (v_pcBuf v), v_node := CHANGE_PASSWD_AGAIN_NODE\<rparr>)"
    using v by (auto simp: vty_ok_def put_str_def)
  then show ?thesis
    using node logged_in us l set_user_passwd_ok[OF us, of "v_pcBuf v" "u_name (us ! v_user_index v)"]
    by (auto simp: change_vty_passwd_def Let_def cli_limits)
qed

end
