(* ===== verification/CliMatch.thy ===== *)
theory CliMatch
  imports CliLogin
begin

text \<open>
  Finding the command a line stands for (\<open>common/command.c\<close> under \<open>app/oam/agent/cli\<close>): splitting the line and the
  templates of the commands into words, comparing a word with a place of a template, filtering the commands
  of a mode word by word, and collecting the arguments. \<open>HAVE_IPV6\<close> is not defined in this program.

  A vector of the code is the list of its slots, \<open>None\<close> where a slot is empty; help texts are left out. The
  C type \<open>long\<close> has 32 bits on the processor of the unit. A copy past the end of a buffer is \<open>None\<close>.
\<close>

section \<open>Characters and numbers\<close>

definition isspace :: "u8 \<Rightarrow> bool" where
  "isspace c \<longleftrightarrow> c = 32 \<or> 9 \<le> c \<and> c \<le> 13"

definition isdigit :: "u8 \<Rightarrow> bool" where
  "isdigit c \<longleftrightarrow> 48 \<le> c \<and> c \<le> 57"

definition tolower :: "u8 \<Rightarrow> u8" where
  "tolower c = (if 65 \<le> c \<and> c \<le> 90 then c + 32 else c)"

definition strcasecmp_eq :: "string_c \<Rightarrow> string_c \<Rightarrow> bool" where
  "strcasecmp_eq s t \<longleftrightarrow> map tolower s = map tolower t"

text \<open>\<open>strncasecmp (s, t, strlen (s)) == 0\<close>\<close>

definition abbreviates :: "string_c \<Rightarrow> string_c \<Rightarrow> bool" where
  "abbreviates s t \<longleftrightarrow> map tolower s = take (length s) (map tolower t)"

definition first_char :: "string_c \<Rightarrow> u8" where
  "first_char s = (case s of [] \<Rightarrow> 0 | c # _ \<Rightarrow> c)"

definition digits_val :: "string_c \<Rightarrow> int" where
  "digits_val s = foldl (\<lambda>n c. 10 * n + (uint c - 48)) 0 s"

text \<open>Reading a number to the base 10: its value and where it ends. \<open>f\<close> puts a sign and digits into the range of the type.\<close>

definition LONG_MAX :: int where "LONG_MAX = 2 ^ 31 - 1"
definition ULONG_MAX :: int where "ULONG_MAX = 2 ^ 32 - 1"

definition number_text :: "(bool \<Rightarrow> int \<Rightarrow> int) \<Rightarrow> string_c \<Rightarrow> int \<times> string_c" where
  "number_text f s =
     (let s1 = dropWhile isspace s;
          neg = (first_char s1 = 45);
          s2 = (if neg \<or> first_char s1 = 43 then drop 1 s1 else s1);
          ds = takeWhile isdigit s2
      in if ds = [] then (0, s) else (f neg (digits_val ds), dropWhile isdigit s2))"

definition strtol :: "string_c \<Rightarrow> int \<times> string_c" where
  "strtol = number_text (\<lambda>neg n. if neg then max (- LONG_MAX - 1) (- n) else min LONG_MAX n)"

text \<open>\<open>strtoul\<close> gives a negative number modulo the range of the type.\<close>

definition strtoul :: "string_c \<Rightarrow> int \<times> string_c" where
  "strtoul = number_text (\<lambda>neg n. if n > ULONG_MAX then ULONG_MAX else if neg then (- n) mod (ULONG_MAX + 1) else n)"

section \<open>Words\<close>

lemma rest_shorter:
  assumes "dropWhile P (dropWhile (\<lambda>c. \<not> P c) s) \<noteq> []"
  shows "length (dropWhile P (dropWhile (\<lambda>c. \<not> P c) s)) < length s"
proof -
  obtain c r where d: "dropWhile (\<lambda>c. \<not> P c) s = c # r" using assms by (cases "dropWhile (\<lambda>c. \<not> P c) s") auto
  then have "P c" by (metis dropWhile_eq_Cons_conv)
  then have "length (dropWhile P (c # r)) \<le> length r" by (simp add: length_dropWhile_le)
  moreover have "length (c # r) \<le> length s" unfolding d[symmetric] by (rule length_dropWhile_le)
  ultimately show ?thesis unfolding d by simp
qed

function strvec_loop :: "string_c \<Rightarrow> string_c list" where
  "strvec_loop s =
     (let token = takeWhile (\<lambda>c. \<not> isspace c) s;
          rest = dropWhile isspace (dropWhile (\<lambda>c. \<not> isspace c) s)
      in if rest = [] then [token] else token # strvec_loop rest)"
  by pat_completeness auto

termination by (relation "measure length") (auto simp: rest_shorter)

declare strvec_loop.simps [simp del]

definition cmd_make_strvec :: "string_c \<Rightarrow> string_c list option" where
  "cmd_make_strvec s =
     (let s = dropWhile isspace s in if s = [] then None else Some (strvec_loop s))"

text \<open>Reading a template: \<open>multiple\<close> is 0 outside parentheses, 1 at their first word, more behind it. A bar outside
  parentheses ends the program.\<close>

definition skip_if :: "u8 \<Rightarrow> string_c \<Rightarrow> string_c" where
  "skip_if c s = (if first_char s = c then drop 1 s else s)"

partial_function (option) descvec_loop :: "nat \<Rightarrow> string_c \<Rightarrow> string_c list list \<Rightarrow> string_c list list option" where
  "descvec_loop multiple s allvec =
     (let s = dropWhile isspace s;
          (multiple, s) = (if first_char s = 40 then (1, drop 1 s) else (multiple, s));
          (multiple, s) = (if first_char s = 41 then (0, drop 1 s) else (multiple, s))
      in if first_char s = 124 \<and> multiple = 0 then None
         else
           let s = dropWhile isspace (skip_if 124 s);
               (multiple, s) = (if first_char s = 40 then (1, drop 1 s) else (multiple, s))
           in if s = [] then Some allvec
              else
                let stop = (\<lambda>c. isspace c \<or> c = 41 \<or> c = 124);
                    token = takeWhile (\<lambda>c. \<not> stop c) s;
                    s = dropWhile (\<lambda>c. \<not> stop c) s
                in if multiple = 0 then descvec_loop 0 s (allvec @ [[token]])
                   else if multiple = 1 then descvec_loop 2 s (allvec @ [[token]])
                   else descvec_loop (multiple + 1) s (butlast allvec @ [last allvec @ [token]]))"

declare descvec_loop.simps [code]

definition cmd_make_descvec :: "string_c \<Rightarrow> string_c list list option" where
  "cmd_make_descvec s = descvec_loop 0 s []"

section \<open>Places of a template\<close>

definition CMD_OPTION :: "string_c \<Rightarrow> bool" where "CMD_OPTION s \<longleftrightarrow> first_char s = 91"
definition CMD_VARIABLE :: "string_c \<Rightarrow> bool" where
  "CMD_VARIABLE s \<longleftrightarrow> 65 \<le> first_char s \<and> first_char s \<le> 90 \<or> first_char s = 60"
definition CMD_VARARG :: "string_c \<Rightarrow> bool" where "CMD_VARARG s \<longleftrightarrow> first_char s = 46"
definition CMD_RANGE :: "string_c \<Rightarrow> bool" where "CMD_RANGE s \<longleftrightarrow> first_char s = 60"
definition CMD_MULTI :: "string_c \<Rightarrow> bool" where "CMD_MULTI s \<longleftrightarrow> first_char s = 123"
definition CMD_IPV4 :: "string_c \<Rightarrow> bool" where "CMD_IPV4 s \<longleftrightarrow> s = [65, 46, 66, 46, 67, 46, 68]"
definition CMD_IPV4_PREFIX :: "string_c \<Rightarrow> bool" where "CMD_IPV4_PREFIX s \<longleftrightarrow> s = [65, 46, 66, 46, 67, 46, 68, 47, 77]"

lemmas place_defs = CMD_OPTION_def CMD_VARIABLE_def CMD_VARARG_def CMD_RANGE_def CMD_MULTI_def CMD_IPV4_def CMD_IPV4_PREFIX_def

definition cmd_cmdsize :: "string_c list list \<Rightarrow> nat" where
  "cmd_cmdsize strvec = length (takeWhile (\<lambda>d. \<not> (length d = 1 \<and> CMD_OPTION (d ! 0))) strvec)"

datatype match_type =
  no_match | extend_match | ipv4_prefix_match | ipv4_match | ipv6_prefix_match | ipv6_match | range_match
| multi_match | vararg_match | partly_match | exact_match

text \<open>Match types are compared as the numbers of the enumeration.\<close>

fun match_rank :: "match_type \<Rightarrow> nat" where
  "match_rank no_match = 0"
| "match_rank extend_match = 1"
| "match_rank ipv4_prefix_match = 2"
| "match_rank ipv4_match = 3"
| "match_rank ipv6_prefix_match = 4"
| "match_rank ipv6_match = 5"
| "match_rank range_match = 6"
| "match_rank multi_match = 7"
| "match_rank vararg_match = 8"
| "match_rank partly_match = 9"
| "match_rank exact_match = 10"

lemma match_rank_inj: "match_rank m = match_rank n \<Longrightarrow> m = n"
  by (cases m; cases n) simp_all

instantiation match_type :: linorder
begin

definition less_eq_match_type :: "match_type \<Rightarrow> match_type \<Rightarrow> bool" where
  "m \<le> n \<longleftrightarrow> match_rank m \<le> match_rank n"

definition less_match_type :: "match_type \<Rightarrow> match_type \<Rightarrow> bool" where
  "m < n \<longleftrightarrow> match_rank m < match_rank n"

instance
  by standard (auto simp: less_eq_match_type_def less_match_type_def intro: match_rank_inj)

end

section \<open>Comparing a word with a place\<close>

text \<open>The numbers here have at most three digits, except the length of a prefix, whose value is taken as it is written.\<close>

lemma dropWhile_tl_shorter: "dropWhile P s \<noteq> [] \<Longrightarrow> length (tl (dropWhile P s)) < length s"
  by (metis length_dropWhile_le length_greater_0_conv length_tl diff_less less_le_trans zero_less_one)

function ipv4_loop :: "nat \<Rightarrow> nat \<Rightarrow> string_c \<Rightarrow> match_type" where
  "ipv4_loop dots nums s =
     (let n = takeWhile isdigit s; r = dropWhile isdigit s
      in if r \<noteq> [] \<and> hd r \<noteq> 46 then no_match
         else if r \<noteq> [] \<and> dots \<ge> 3 then no_match
         else if r \<noteq> [] \<and> first_char (tl r) = 46 then no_match
         else if r \<noteq> [] \<and> tl r = [] then partly_match
         else if length n > 3 then no_match
         else if digits_val n > 255 then no_match
         else if r = [] then (if nums + 1 < 4 then partly_match else exact_match)
         else ipv4_loop (dots + 1) (nums + 1) (tl r))"
  by pat_completeness auto

termination by (relation "measure (\<lambda>(_, _, s). length s)") (auto simp: dropWhile_tl_shorter simp del: dropWhile_eq_Nil_conv length_tl)

declare ipv4_loop.simps [simp del]

definition cmd_ipv4_match :: "string_c \<Rightarrow> match_type" where
  "cmd_ipv4_match s = ipv4_loop 0 0 s"

definition prefix_mask :: "string_c \<Rightarrow> match_type" where
  "prefix_mask s =
     (if \<not> list_all isdigit s then no_match else if digits_val s > 32 then no_match else exact_match)"

function ipv4_prefix_loop :: "nat \<Rightarrow> string_c \<Rightarrow> match_type" where
  "ipv4_prefix_loop dots s =
     (let n = takeWhile isdigit s; r = dropWhile isdigit s; dot = (r \<noteq> [] \<and> hd r = 46)
      in if r \<noteq> [] \<and> hd r \<noteq> 46 \<and> hd r \<noteq> 47 then no_match
         else if dot \<and> dots = 3 then no_match
         else if dot \<and> first_char (tl r) \<in> {46, 47} then no_match
         else if dot \<and> tl r = [] then partly_match
         else
           let dots = (if dot then dots + 1 else dots)
           in if length n > 3 then no_match
              else if digits_val n > 255 then no_match
              else if dots = 3 \<and> r \<noteq> [] \<and> hd r = 47 then (if tl r = [] then partly_match else prefix_mask (tl r))
              else if r = [] then partly_match
              else ipv4_prefix_loop dots (tl r))"
  by pat_completeness auto

termination by (relation "measure (\<lambda>(_, s). length s)") (auto simp: dropWhile_tl_shorter simp del: dropWhile_eq_Nil_conv length_tl)

declare ipv4_prefix_loop.simps [simp del]

definition cmd_ipv4_prefix_match :: "string_c \<Rightarrow> match_type" where
  "cmd_ipv4_prefix_match s = ipv4_prefix_loop 0 s"

definition cmd_range_match :: "string_c \<Rightarrow> string_c \<Rightarrow> bool" where
  "cmd_range_match rng str =
     (let (val, end1) = strtol str;
          (least, end2) = strtol (drop 1 rng);
          (most, end3) = strtol (drop 1 end2)
      in end1 = [] \<and> first_char end2 = 45 \<and> first_char end3 = 62 \<and> least \<le> val \<and> val \<le> most)"

text \<open>The list of numbers and ranges a word may be for a place in braces. A number is copied into a buffer of eleven
  bytes.\<close>

definition DECIMAL_STRLEN_MAX :: nat where "DECIMAL_STRLEN_MAX = 10"

definition multi_stop :: "u8 \<Rightarrow> bool" where
  "multi_stop c \<longleftrightarrow> c = 44 \<or> c = 45"

lemma multi_rest_shorter:
  "dropWhile Q (dropWhile P s) \<noteq> [] \<Longrightarrow> length (tl (dropWhile Q (dropWhile P s))) < length s"
  by (metis dropWhile_tl_shorter length_dropWhile_le less_le_trans)

lemma multi_rest_shorter':
  "dropWhile Q (dropWhile P s) \<noteq> [] \<Longrightarrow> length (dropWhile R (tl (dropWhile Q (dropWhile P s)))) < length s"
  by (metis multi_rest_shorter length_dropWhile_le le_less_trans)

function multi_loop :: "int \<Rightarrow> int \<Rightarrow> string_c \<Rightarrow> bool option" where
  "multi_loop least most s =
     (let s = dropWhile isspace s;
          n = takeWhile (\<lambda>c. \<not> multi_stop c) s; r = dropWhile (\<lambda>c. \<not> multi_stop c) s
      in if s = [] \<or> n = [] then Some True
         else if length n > DECIMAL_STRLEN_MAX then None
         else
           let (val, e) = strtoul n
           in if e \<noteq> [] \<or> val < least \<or> most < val then Some False
              else if r = [] then Some True
              else if hd r = 45 then
                (let m = takeWhile (\<lambda>c. c \<noteq> 44) (tl r)
                 in if m = [] then Some True
                    else if length m > DECIMAL_STRLEN_MAX then None
                    else
                      let (val_max, e) = strtoul m
                      in if e \<noteq> [] \<or> val_max < val \<or> val_max < least \<or> most < val_max then Some False
                         else multi_loop least most (dropWhile (\<lambda>c. c \<noteq> 44) (tl r)))
              else multi_loop least most (tl r))"
  by pat_completeness auto

termination by (relation "measure (\<lambda>(_, _, s). length s)") (auto simp: multi_rest_shorter multi_rest_shorter' simp del: dropWhile_eq_Nil_conv length_tl)

declare multi_loop.simps [simp del]

definition cmd_multi_match :: "string_c \<Rightarrow> string_c \<Rightarrow> bool option" where
  "cmd_multi_match rng str =
     (let rng = drop 1 rng;
          a = takeWhile (\<lambda>c. c \<noteq> 45) rng; r = dropWhile (\<lambda>c. c \<noteq> 45) rng;
          b = takeWhile (\<lambda>c. c \<noteq> 125) (drop 1 r); r' = dropWhile (\<lambda>c. c \<noteq> 125) (drop 1 r)
      in if r = [] \<or> length a > DECIMAL_STRLEN_MAX \<or> snd (strtoul a) \<noteq> [] then Some False
         else if r' = [] \<or> length b > DECIMAL_STRLEN_MAX \<or> snd (strtoul b) \<noteq> [] then Some False
         else multi_loop (fst (strtoul a)) (fst (strtoul b)) str)"

section \<open>Filtering the commands of a mode\<close>

record 'f cmd_element =
  ce_string :: string_c
  ce_strvec :: "string_c list list"
  ce_func :: 'f
  ce_level :: int
  ce_hidden :: bool

definition ce_cmdsize :: "'f cmd_element \<Rightarrow> nat" where
  "ce_cmdsize e = cmd_cmdsize (ce_strvec e)"

text \<open>How a word matches one place, \<open>no_match\<close> when it does not.\<close>

definition place_match :: "string_c \<Rightarrow> string_c \<Rightarrow> match_type option" where
  "place_match command str =
     (if CMD_VARARG str then Some vararg_match
      else if CMD_RANGE str then Some (if cmd_range_match str command then range_match else no_match)
      else if CMD_MULTI str then map_option (\<lambda>b. if b then multi_match else no_match) (cmd_multi_match str command)
      else if CMD_IPV4 str then Some (if cmd_ipv4_match command = exact_match then ipv4_match else no_match)
      else if CMD_IPV4_PREFIX str then
        Some (if cmd_ipv4_prefix_match command \<noteq> no_match then ipv4_prefix_match else no_match)
      else if CMD_OPTION str \<or> CMD_VARIABLE str then Some extend_match
      else if abbreviates command str then Some (if strcasecmp_eq command str then exact_match else partly_match)
      else Some no_match)"

fun places_match :: "string_c \<Rightarrow> string_c list \<Rightarrow> match_type option" where
  "places_match command [] = Some no_match"
| "places_match command (d # ds) =
     do { m \<leftarrow> place_match command d; n \<leftarrow> places_match command ds; Some (max m n) }"

text \<open>\<open>cmd_filter_by_completion\<close>: the best match among all commands, and the commands that match at all.\<close>

fun cmd_filter_by_completion ::
    "string_c \<Rightarrow> nat \<Rightarrow> 'f cmd_element option list \<Rightarrow> (match_type \<times> 'f cmd_element option list) option" where
  "cmd_filter_by_completion command index [] = Some (no_match, [])"
| "cmd_filter_by_completion command index (None # v) =
     do { (m, v) \<leftarrow> cmd_filter_by_completion command index v; Some (m, None # v) }"
| "cmd_filter_by_completion command index (Some e # v) =
     (if index \<ge> length (ce_strvec e) then
        do { (m, v) \<leftarrow> cmd_filter_by_completion command index v; Some (m, None # v) }
      else
        do { k \<leftarrow> places_match command (ce_strvec e ! index);
             (m, v) \<leftarrow> cmd_filter_by_completion command index v;
             Some (max k m, (if k = no_match then None else Some e) # v) })"

text \<open>The test of one place for the best match found; \<open>Inl\<close> ends the search with the result.\<close>

datatype ambiguity = Same_place "string_c option" nat | Ambiguous nat

definition ambiguous_place ::
    "string_c \<Rightarrow> match_type \<Rightarrow> string_c \<Rightarrow> string_c option \<Rightarrow> nat \<Rightarrow> ambiguity option" where
  "ambiguous_place command type str matched n =
     (let same = (\<lambda>hit. if \<not> hit then Same_place matched n
                   else case matched of
                          None \<Rightarrow> Same_place (Some str) (n + 1)
                        | Some m \<Rightarrow> if strcasecmp_eq m str then Same_place (Some str) (n + 1) else Ambiguous 1);
          count = (\<lambda>hit. Same_place matched (if hit then n + 1 else n))
      in case type of
           exact_match \<Rightarrow> Some (count (\<not> (CMD_OPTION str \<or> CMD_VARIABLE str) \<and> strcasecmp_eq command str))
         | partly_match \<Rightarrow> Some (same (\<not> (CMD_OPTION str \<or> CMD_VARIABLE str) \<and> abbreviates command str))
         | range_match \<Rightarrow> Some (same (cmd_range_match str command))
         | multi_match \<Rightarrow> map_option same (cmd_multi_match str command)
         | ipv4_match \<Rightarrow> Some (count (CMD_IPV4 str))
         | ipv4_prefix_match \<Rightarrow>
             Some (if cmd_ipv4_prefix_match command = no_match then Same_place matched n
                   else if cmd_ipv4_prefix_match command = partly_match then Ambiguous 2
                   else Same_place matched (n + 1))
         | extend_match \<Rightarrow> Some (count (CMD_OPTION str \<or> CMD_VARIABLE str))
         | _ \<Rightarrow> Some (Same_place matched n))"

fun ambiguous_places ::
    "string_c \<Rightarrow> match_type \<Rightarrow> string_c list \<Rightarrow> string_c option \<Rightarrow> nat \<Rightarrow> ambiguity option" where
  "ambiguous_places command type [] matched n = Some (Same_place matched n)"
| "ambiguous_places command type (d # ds) matched n =
     do { a \<leftarrow> ambiguous_place command type d matched n;
          case a of Ambiguous r \<Rightarrow> Some (Ambiguous r)
          | Same_place matched n \<Rightarrow> ambiguous_places command type ds matched n }"

fun ambiguous_loop ::
    "string_c \<Rightarrow> nat \<Rightarrow> match_type \<Rightarrow> string_c option \<Rightarrow> 'f cmd_element option list
     \<Rightarrow> (nat \<times> 'f cmd_element option list) option" where
  "ambiguous_loop command index type matched [] = Some (0, [])"
| "ambiguous_loop command index type matched (None # v) =
     do { (r, v) \<leftarrow> ambiguous_loop command index type matched v; Some (r, None # v) }"
| "ambiguous_loop command index type matched (Some e # v) =
     do { a \<leftarrow> ambiguous_places command type (ce_strvec e ! index) matched 0;
          case a of Ambiguous r \<Rightarrow> Some (r, Some e # v)
          | Same_place matched n \<Rightarrow>
              do { (r, v) \<leftarrow> ambiguous_loop command index type matched v;
                   Some (r, (if n = 0 then None else Some e) # v) } }"

definition is_cmd_ambiguous ::
    "string_c \<Rightarrow> nat \<Rightarrow> match_type \<Rightarrow> 'f cmd_element option list \<Rightarrow> (nat \<times> 'f cmd_element option list) option" where
  "is_cmd_ambiguous command index type v = ambiguous_loop command index type None v"

section \<open>The command of a line\<close>

definition CMD_ERR_AMBIGUOUS :: int where "CMD_ERR_AMBIGUOUS = 3"
definition CMD_ERR_INCOMPLETE :: int where "CMD_ERR_INCOMPLETE = 4"
definition CMD_ERR_EXEED_ARGC_MAX :: int where "CMD_ERR_EXEED_ARGC_MAX = 5"
definition CMD_ERR_PRIORITY_LOWER :: int where "CMD_ERR_PRIORITY_LOWER = 10"
definition CMD_ARGC_MAX :: nat where "CMD_ARGC_MAX = 25"

lemmas match_codes = cmd_codes CMD_ERR_AMBIGUOUS_def CMD_ERR_INCOMPLETE_def CMD_ERR_EXEED_ARGC_MAX_def CMD_ERR_PRIORITY_LOWER_def

text \<open>The loop over the words: an error, or the match of the last word looked at, how many were, and what is left.\<close>

fun match_words ::
    "nat \<Rightarrow> match_type \<Rightarrow> string_c list \<Rightarrow> 'f cmd_element option list
     \<Rightarrow> (int + match_type \<times> nat \<times> 'f cmd_element option list) option" where
  "match_words index m [] v = Some (Inr (m, index, v))"
| "match_words index m (w # ws) v =
     do { (m, v) \<leftarrow> cmd_filter_by_completion w index v;
          if m = vararg_match then Some (Inr (m, index, v))
          else do { (r, v) \<leftarrow> is_cmd_ambiguous w index m v;
                    if r = 1 then Some (Inl CMD_ERR_AMBIGUOUS)
                    else if r = 2 then Some (Inl CMD_ERR_NO_MATCH)
                    else match_words (index + 1) m ws v } }"

text \<open>The arguments: words at variable places as they are, at optional and alternative places in small letters.\<close>

definition argc_checked :: "string_c list \<Rightarrow> int + string_c list" where
  "argc_checked argv = (if length argv \<ge> CMD_ARGC_MAX then Inl CMD_ERR_EXEED_ARGC_MAX else Inr argv)"

fun collect_args :: "bool \<Rightarrow> string_c list list \<Rightarrow> string_c list \<Rightarrow> string_c list \<Rightarrow> (int + string_c list) option" where
  "collect_args varflag places [] argv = Some (Inr argv)"
| "collect_args varflag places (w # ws) argv =
     (let go = (\<lambda>varflag argv. case argc_checked argv of
                  Inl e \<Rightarrow> Some (Inl e) | Inr argv \<Rightarrow> collect_args varflag (drop 1 places) ws argv)
      in if varflag then go True (argv @ [w])
         else case places of
                [] \<Rightarrow> None
              | d # _ \<Rightarrow>
                  if length d = 1 then
                    (let str = d ! 0; varflag = CMD_VARARG str
                     in if varflag \<or> CMD_VARIABLE str then go varflag (argv @ [w])
                        else if CMD_OPTION str \<and> CMD_VARIABLE (drop 1 str)
                        then collect_args varflag (drop 1 places) ws (argv @ [w])
                        else if CMD_OPTION str \<or> CMD_MULTI str then go varflag (argv @ [map tolower w])
                        else go varflag argv)
                  else go False (argv @ [map tolower w]))"

text \<open>\<open>cmd_execute_command_real\<close> up to the call of the command: its error, or the command and its arguments.\<close>

definition find_command ::
    "int \<Rightarrow> string_c list \<Rightarrow> 'f cmd_element option list \<Rightarrow> (int + 'f cmd_element \<times> string_c list) option" where
  "find_command priority words v =
     do { res \<leftarrow> match_words 0 no_match words v;
          case res of
            Inl e \<Rightarrow> Some (Inl e)
          | Inr (m, index, v) \<Rightarrow>
              (let left = [e. Some e \<leftarrow> v];
                   matched = filter (\<lambda>e. m = vararg_match \<or> index \<ge> ce_cmdsize e) left
               in if matched = [] then Some (Inl (if left = [] then CMD_ERR_NO_MATCH else CMD_ERR_INCOMPLETE))
                  else if length matched > 1 then Some (Inl CMD_ERR_AMBIGUOUS)
                  else
                    let e = last matched
                    in if priority < ce_level e then Some (Inl CMD_ERR_PRIORITY_LOWER)
                       else map_option (map_sum id (\<lambda>argv. (e, argv))) (collect_args False (ce_strvec e) words [])) }"

section \<open>Words of a line\<close>

lemma strvec_loop_word:
  assumes "w \<noteq> []" "list_all (\<lambda>c. \<not> isspace c) w" "list_all isspace gap" "gap \<noteq> []" "r \<noteq> []" "\<not> isspace (hd r)"
  shows "strvec_loop (w @ gap @ r) = w # strvec_loop r"
proof -
  obtain g gs where gap: "gap = g # gs" "isspace g" using assms(3,4) by (cases gap) auto
  have a: "takeWhile (\<lambda>c. \<not> isspace c) (w @ gap @ r) = w" "dropWhile (\<lambda>c. \<not> isspace c) (w @ gap @ r) = gap @ r"
    using assms(2) gap by (simp_all add: list_all_iff)
  have "dropWhile isspace (gap @ r) = r"
    using assms(3,5,6) by (cases r) (simp_all add: list_all_iff)
  then show ?thesis using assms(5) a by (subst strvec_loop.simps) simp
qed

lemma strvec_loop_last:
  assumes "list_all (\<lambda>c. \<not> isspace c) w" "list_all isspace gap"
  shows "strvec_loop (w @ gap) = [w]"
proof -
  have w: "\<forall>c \<in> set w. \<not> isspace c" and g: "\<forall>c \<in> set gap. isspace c" using assms by (simp_all add: list_all_iff)
  have t: "takeWhile (\<lambda>c. \<not> isspace c) gap = []" "dropWhile (\<lambda>c. \<not> isspace c) gap = gap"
    using g by (cases gap; simp)+
  have "takeWhile (\<lambda>c. \<not> isspace c) (w @ gap) = w" using takeWhile_append2[of w "\<lambda>c. \<not> isspace c" gap] w t by simp
  moreover have "dropWhile (\<lambda>c. \<not> isspace c) (w @ gap) = gap" using dropWhile_append2[of w "\<lambda>c. \<not> isspace c" gap] w t by simp
  moreover have "dropWhile isspace gap = []" using g by (simp only: dropWhile_eq_Nil_conv)
  ultimately show ?thesis by (subst strvec_loop.simps) (simp only: Let_def simp_thms if_True)
qed

text \<open>A line written with any gaps between its words.\<close>

fun write_words :: "(string_c \<times> string_c) list \<Rightarrow> string_c" where
  "write_words [] = []"
| "write_words ((w, gap) # ws) = w @ gap @ write_words ws"

definition spaced :: "(string_c \<times> string_c) list \<Rightarrow> bool" where
  "spaced ws \<longleftrightarrow> (\<forall>(w, gap) \<in> set ws. w \<noteq> [] \<and> list_all (\<lambda>c. \<not> isspace c) w \<and> list_all isspace gap) \<and>
     (\<forall>(w, gap) \<in> set (butlast ws). gap \<noteq> [])"

lemma strvec_loop_words: "ws \<noteq> [] \<Longrightarrow> spaced ws \<Longrightarrow> strvec_loop (write_words ws) = map fst ws"
proof (induction ws)
  case (Cons x ws)
  obtain w gap where x: "x = (w, gap)" by (cases x)
  show ?case
  proof (cases ws)
    case Nil
    then show ?thesis using Cons.prems x by (simp add: spaced_def strvec_loop_last)
  next
    case (Cons y zs)
    obtain w' gap' where y: "y = (w', gap')" by (cases y)
    have s: "spaced ws" using Cons.prems Cons by (auto simp: spaced_def)
    have "w' \<noteq> []" "\<not> isspace (hd w')" using s Cons y by (cases w'; auto simp: spaced_def)+
    then have "strvec_loop (w @ gap @ write_words ws) = w # strvec_loop (write_words ws)"
      using Cons.prems Cons x y by (intro strvec_loop_word) (auto simp: spaced_def)
    then show ?thesis using Cons.IH s x Cons by simp
  qed
qed simp

lemma cmd_make_strvec_words:
  assumes "list_all isspace lead" "ws \<noteq> []" "spaced ws"
  shows "cmd_make_strvec (lead @ write_words ws) = Some (map fst ws)"
proof -
  obtain w gap zs where ws: "ws = (w, gap) # zs" using assms(2) by (cases ws) auto
  then obtain c w' where w: "w = c # w'" "\<not> isspace c" using assms(3) by (cases w) (auto simp: spaced_def)
  have "dropWhile isspace (lead @ write_words ws) = write_words ws"
    using assms(1) ws w by (simp add: list_all_iff)
  then show ?thesis using strvec_loop_words[OF assms(2,3)] ws w by (simp add: cmd_make_strvec_def)
qed

section \<open>Reading a template\<close>

text \<open>A template as it is written: alternatives in parentheses with bars between them.\<close>

fun write_bars :: "string_c list \<Rightarrow> string_c" where
  "write_bars [] = []"
| "write_bars [w] = w"
| "write_bars (w # ws) = w @ 124 # write_bars ws"

definition write_place :: "string_c list \<Rightarrow> string_c" where
  "write_place ws = (if length ws = 1 then hd ws else 40 # write_bars ws @ [41])"

fun write_template :: "string_c list list \<Rightarrow> string_c" where
  "write_template [] = []"
| "write_template [p] = write_place p"
| "write_template (p # ps) = write_place p @ 32 # write_template ps"

definition template_word :: "string_c \<Rightarrow> bool" where
  "template_word w \<longleftrightarrow> w \<noteq> [] \<and> list_all (\<lambda>c. \<not> isspace c \<and> c \<notin> {40, 41, 124}) w"

definition token_end :: "string_c \<Rightarrow> bool" where
  "token_end r \<longleftrightarrow> r = [] \<or> isspace (hd r) \<or> hd r = 41 \<or> hd r = 124"

lemma template_token:
  assumes "template_word w" "token_end r"
  shows "takeWhile (\<lambda>c. \<not> (isspace c \<or> c = 41 \<or> c = 124)) (w @ r) = w"
    and "dropWhile (\<lambda>c. \<not> (isspace c \<or> c = 41 \<or> c = 124)) (w @ r) = r"
    and "first_char (w @ r) \<notin> {40, 41, 124}" "dropWhile isspace (w @ r) = w @ r" "w @ r \<noteq> []"
proof -
  have w: "\<forall>c \<in> set w. \<not> isspace c \<and> c \<notin> {40, 41, 124}" "w \<noteq> []"
    using assms(1) by (simp_all add: template_word_def list_all_iff)
  have r: "takeWhile (\<lambda>c. \<not> (isspace c \<or> c = 41 \<or> c = 124)) r = []"
    "dropWhile (\<lambda>c. \<not> (isspace c \<or> c = 41 \<or> c = 124)) r = r"
    using assms(2) by (cases r; auto simp: token_end_def)+
  show "takeWhile (\<lambda>c. \<not> (isspace c \<or> c = 41 \<or> c = 124)) (w @ r) = w"
    using w r by (subst takeWhile_append2) auto
  show "dropWhile (\<lambda>c. \<not> (isspace c \<or> c = 41 \<or> c = 124)) (w @ r) = r"
    using w r by (subst dropWhile_append2) auto
  show "first_char (w @ r) \<notin> {40, 41, 124}" "dropWhile isspace (w @ r) = w @ r" "w @ r \<noteq> []"
    using w by (cases w; simp add: first_char_def)+
qed

lemma isspace_signs [simp]: "isspace 32" "\<not> isspace 40" "\<not> isspace 41" "\<not> isspace 124"
  by (simp_all add: isspace_def)

lemma first_char_Cons [simp]: "first_char (c # s) = c"
  by (simp add: first_char_def)

lemma descvec_token:
  assumes "dropWhile isspace t = t" "t \<noteq> []" "first_char t \<noteq> 40" "first_char t \<noteq> 41" "first_char t \<noteq> 124"
    and "takeWhile (\<lambda>c. \<not> (isspace c \<or> c = 41 \<or> c = 124)) t = w" "dropWhile (\<lambda>c. \<not> (isspace c \<or> c = 41 \<or> c = 124)) t = r"
  shows "descvec_loop 0 t acc = descvec_loop 0 r (acc @ [[w]])"
    and "descvec_loop 0 (40 # t) acc = descvec_loop 2 r (acc @ [[w]])"
    and "2 \<le> k \<Longrightarrow> descvec_loop k (124 # t) acc = descvec_loop (k + 1) r (butlast acc @ [last acc @ [w]])"
    and "descvec_loop k (41 # 32 # t) acc = descvec_loop 0 t acc"
    and "descvec_loop k (41 # 32 # 40 # t) acc = descvec_loop 0 (40 # t) acc"
proof -
  note [simp] = assms(1-5) assms(6,7)[unfolded de_Morgan_disj]
  show "descvec_loop 0 t acc = descvec_loop 0 r (acc @ [[w]])"
    by (subst descvec_loop.simps) (simp add: skip_if_def)
  show "descvec_loop 0 (40 # t) acc = descvec_loop 2 r (acc @ [[w]])"
    by (subst descvec_loop.simps) (simp add: skip_if_def)
  show "2 \<le> k \<Longrightarrow> descvec_loop k (124 # t) acc = descvec_loop (k + 1) r (butlast acc @ [last acc @ [w]])"
    by (subst descvec_loop.simps) (simp add: skip_if_def)
  show "descvec_loop k (41 # 32 # t) acc = descvec_loop 0 t acc"
    by (subst (1 2) descvec_loop.simps) (simp add: skip_if_def)
  show "descvec_loop k (41 # 32 # 40 # t) acc = descvec_loop 0 (40 # t) acc"
    by (subst (1 2) descvec_loop.simps) (simp add: skip_if_def)
qed

lemmas descvec_word = descvec_token[OF template_token(4,5) _ _ _ template_token(1,2)]

lemma descvec_steps:
  assumes "template_word w" "token_end r"
  shows "descvec_loop 0 (w @ r) acc = descvec_loop 0 r (acc @ [[w]])"
    and "descvec_loop 0 (40 # w @ r) acc = descvec_loop 2 r (acc @ [[w]])"
    and "2 \<le> k \<Longrightarrow> descvec_loop k (124 # w @ r) acc = descvec_loop (k + 1) r (butlast acc @ [last acc @ [w]])"
    and "descvec_loop k (41 # 32 # w @ r) acc = descvec_loop 0 (w @ r) acc"
    and "descvec_loop k (41 # 32 # 40 # w @ r) acc = descvec_loop 0 (40 # w @ r) acc"
  using template_token(3)[OF assms] by (simp_all add: descvec_word[OF assms assms _ _ _ assms assms])

lemma descvec_ends:
  "descvec_loop 0 (32 # s) acc = descvec_loop 0 s acc" "descvec_loop k [41] acc = Some acc" "descvec_loop 0 [] acc = Some acc"
proof -
  show "descvec_loop 0 (32 # s) acc = descvec_loop 0 s acc" by (subst (1 2) descvec_loop.simps) simp
  show "descvec_loop k [41] acc = Some acc" "descvec_loop 0 [] acc = Some acc"
    by (subst descvec_loop.simps, simp add: skip_if_def first_char_def)+
qed

lemma write_bars_Cons: "write_bars (w # ws) = w @ concat (map ((#) 124) ws)"
proof (induction ws arbitrary: w)
  case (Cons v ws)
  show ?case using Cons[of v] by simp
qed simp

lemma token_end_bars: "token_end (concat (map ((#) 124) ws) @ 41 # r)"
  by (cases ws) (simp_all add: token_end_def)

lemma descvec_bars:
  "2 \<le> k \<Longrightarrow> list_all template_word ws \<Longrightarrow>
   \<exists>k'. descvec_loop k (concat (map ((#) 124) ws) @ 41 # r) (acc @ [p]) = descvec_loop k' (41 # r) (acc @ [p @ ws])"
proof (induction ws arbitrary: k p)
  case (Cons w ws)
  have "descvec_loop k (concat (map ((#) 124) (w # ws)) @ 41 # r) (acc @ [p]) =
      descvec_loop (k + 1) (concat (map ((#) 124) ws) @ 41 # r) (acc @ [p @ [w]])"
    using Cons.prems descvec_steps(3)[of w "concat (map ((#) 124) ws) @ 41 # r" k "acc @ [p]"] token_end_bars by simp
  then show ?case using Cons.IH[of "k + 1" "p @ [w]"] Cons.prems by simp
qed auto

definition template_places :: "string_c list list \<Rightarrow> bool" where
  "template_places t \<longleftrightarrow> list_all (\<lambda>p. p \<noteq> [] \<and> list_all template_word p) t"

lemma write_place_start:
  assumes "p \<noteq> []" "list_all template_word p" "token_end r"
  shows "\<exists>w r'. template_word w \<and> token_end r' \<and> (write_place p @ r = w @ r' \<or> write_place p @ r = 40 # w @ r')"
proof -
  obtain w ws where p: "p = w # ws" using assms(1) by (cases p) auto
  show ?thesis
  proof (cases "ws = []")
    case True
    then show ?thesis using assms p by (auto simp: write_place_def)
  next
    case False
    then have "write_place p @ r = 40 # w @ (concat (map ((#) 124) ws) @ 41 # r)"
      using p by (simp add: write_place_def write_bars_Cons)
    then show ?thesis using assms p token_end_bars by (metis list.pred_inject(2))
  qed
qed

lemma write_template_start:
  assumes "template_places (p # t)"
  shows "\<exists>w r. template_word w \<and> token_end r \<and> (write_template (p # t) = w @ r \<or> write_template (p # t) = 40 # w @ r)"
proof (cases t)
  case Nil
  then show ?thesis using write_place_start[of p "[]"] assms by (simp add: template_places_def token_end_def)
next
  case (Cons q t')
  then show ?thesis
    using write_place_start[of p "32 # write_template t"] assms by (simp add: template_places_def token_end_def)
qed

lemma descvec_place:
  assumes "p \<noteq> []" "list_all template_word p" "r = [] \<or> (\<exists>q t. r = 32 # write_template (q # t) \<and> template_places (q # t))"
  shows "descvec_loop 0 (write_place p @ r) acc = descvec_loop 0 (drop 1 r) (acc @ [p])"
proof -
  have r: "token_end r" using assms(3) by (auto simp: token_end_def)
  have after: "descvec_loop k (41 # r) a = descvec_loop 0 (drop 1 r) a" for k a
    using assms(3) write_template_start by (fastforce simp: descvec_ends descvec_steps(4,5))
  obtain w ws where p: "p = w # ws" using assms(1) by (cases p) auto
  show ?thesis
  proof (cases "ws = []")
    case True
    then have "descvec_loop 0 (write_place p @ r) acc = descvec_loop 0 r (acc @ [p])"
      using descvec_steps(1)[OF _ r, of w acc] assms(2) p by (simp add: write_place_def)
    then show ?thesis using assms(3) descvec_ends(1) by auto
  next
    case False
    then have "descvec_loop 0 (write_place p @ r) acc =
        descvec_loop 2 (concat (map ((#) 124) ws) @ 41 # r) (acc @ [[w]])"
      using p assms(2) descvec_steps(2)[OF _ token_end_bars, of w ws r acc] by (simp add: write_place_def write_bars_Cons)
    then show ?thesis using descvec_bars[of 2 ws r acc "[w]"] assms(2) p after by auto
  qed
qed

lemma descvec_template: "template_places t \<Longrightarrow> descvec_loop 0 (write_template t) acc = Some (acc @ t)"
proof (induction t arbitrary: acc rule: write_template.induct)
  case (2 p)
  then show ?case using descvec_place[of p "[]"] by (simp add: template_places_def descvec_ends)
next
  case (3 p q t)
  have q: "template_places (q # t)" and p: "p \<noteq> []" "list_all template_word p"
    using 3 by (simp_all add: template_places_def)
  have "descvec_loop 0 (write_place p @ 32 # write_template (q # t)) acc =
      descvec_loop 0 (write_template (q # t)) (acc @ [p])"
    using descvec_place[OF p, of "32 # write_template (q # t)" acc] q by auto
  then show ?case using "3.IH"[OF q] by simp
qed (simp add: descvec_ends)

lemma cmd_make_descvec_template: "template_places t \<Longrightarrow> cmd_make_descvec (write_template t) = Some t"
  by (simp add: cmd_make_descvec_def descvec_template)

section \<open>Addresses\<close>

text \<open>A number of an address, and an address with \<open>k\<close> numbers to come.\<close>

definition address_number :: "string_c \<Rightarrow> bool" where
  "address_number s \<longleftrightarrow> list_all isdigit s \<and> length s \<le> 3 \<and> digits_val s \<le> 255"

fun address_numbers :: "nat \<Rightarrow> string_c \<Rightarrow> bool" where
  "address_numbers 0 s = address_number s"
| "address_numbers (Suc k) s = (\<exists>n r. s = n @ 46 # r \<and> address_number n \<and> r \<noteq> [] \<and> hd r \<noteq> 46 \<and> address_numbers k r)"

text \<open>The same where no number is missing.\<close>

fun address_rest :: "nat \<Rightarrow> string_c \<Rightarrow> bool" where
  "address_rest 0 s = (address_number s \<and> s \<noteq> [])"
| "address_rest (Suc k) s = (\<exists>n r. s = n @ 46 # r \<and> address_number n \<and> n \<noteq> [] \<and> address_rest k r)"

lemma digit_not_dot: "address_number (c # n) \<Longrightarrow> c \<noteq> 46"
  by (auto simp: address_number_def isdigit_def)

lemma address_rest_iff: "address_rest k s \<longleftrightarrow> address_numbers k s \<and> s \<noteq> [] \<and> hd s \<noteq> 46"
proof (induction k arbitrary: s)
  case 0
  then show ?case using digit_not_dot by (cases s) auto
next
  case (Suc k)
  have n: "n \<noteq> [] \<longleftrightarrow> s \<noteq> [] \<and> hd s \<noteq> 46" if "s = n @ 46 # r" "address_number n" for n r
    using that digit_not_dot by (cases n) auto
  have "address_rest (Suc k) s \<longleftrightarrow> (\<exists>n r. s = n @ 46 # r \<and> address_number n \<and> n \<noteq> [] \<and>
      address_numbers k r \<and> r \<noteq> [] \<and> hd r \<noteq> 46)"
    using Suc by simp
  also have "\<dots> \<longleftrightarrow> (\<exists>n r. s = n @ 46 # r \<and> address_number n \<and> address_numbers k r \<and> r \<noteq> [] \<and> hd r \<noteq> 46) \<and>
      s \<noteq> [] \<and> hd s \<noteq> 46"
    using n by blast
  finally show ?case by (simp add: conj_ac)
qed

lemma digits_then_dot:
  assumes "list_all isdigit n"
  shows "takeWhile isdigit (n @ 46 # r) = n" "dropWhile isdigit (n @ 46 # r) = 46 # r"
proof -
  have "\<forall>c \<in> set n. isdigit c" "\<not> isdigit 46" using assms by (simp_all add: list_all_iff isdigit_def)
  then show "takeWhile isdigit (n @ 46 # r) = n" "dropWhile isdigit (n @ 46 # r) = 46 # r"
    by (simp_all add: takeWhile_append dropWhile_append)
qed

lemma split_at_dot:
  assumes "dropWhile isdigit s = 46 # r"
  shows "s = takeWhile isdigit s @ 46 # r" "list_all isdigit (takeWhile isdigit s)"
  using takeWhile_dropWhile_id[of isdigit s] assms by (auto simp: list_all_iff dest: set_takeWhileD)

lemma ipv4_loop_numbers:
  "k \<le> 3 \<Longrightarrow> ipv4_loop (3 - k) (3 - k) s = exact_match \<longleftrightarrow> address_numbers k s"
proof (induction k arbitrary: s)
  case 0
  show ?case
  proof (cases "list_all isdigit s")
    case True
    then have "takeWhile isdigit s = s" "dropWhile isdigit s = []" by (auto simp: list_all_iff)
    then have "ipv4_loop 3 3 s = (if length s > 3 \<or> digits_val s > 255 then no_match else exact_match)"
      by (subst ipv4_loop.simps) (simp only: Let_def, simp)
    then show ?thesis using True by (auto simp: address_number_def)
  next
    case False
    then have "dropWhile isdigit s \<noteq> []" by (auto simp: list_all_iff)
    then show ?thesis using False by (subst ipv4_loop.simps) (auto simp: address_number_def Let_def)
  qed
next
  case (Suc k)
  have d: "3 - Suc k < 3" "3 - Suc k + 1 = 3 - k" using Suc.prems by auto
  show ?case
  proof (cases "\<exists>r. dropWhile isdigit s = 46 # r \<and> r \<noteq> [] \<and> hd r \<noteq> 46")
    case True
    then obtain r where r: "dropWhile isdigit s = 46 # r" "r \<noteq> []" "hd r \<noteq> 46" by blast
    then have f: "first_char r \<noteq> 46" by (cases r) (auto simp: first_char_def)
    note s = split_at_dot[OF r(1)]
    have "ipv4_loop (3 - Suc k) (3 - Suc k) s =
        (if length (takeWhile isdigit s) > 3 \<or> digits_val (takeWhile isdigit s) > 255 then no_match
         else ipv4_loop (3 - k) (3 - k) r)"
      using r f d by (subst ipv4_loop.simps) (simp add: Let_def del: diff_Suc_Suc)
    moreover have "address_numbers (Suc k) s \<longleftrightarrow> address_number (takeWhile isdigit s) \<and> address_numbers k r"
    proof
      assume "address_numbers (Suc k) s"
      then obtain n r' where "s = n @ 46 # r'" "address_number n" "address_numbers k r'" by auto
      then show "address_number (takeWhile isdigit s) \<and> address_numbers k r"
        using digits_then_dot[of n r'] r(1) by (auto simp: address_number_def)
    next
      assume "address_number (takeWhile isdigit s) \<and> address_numbers k r"
      then show "address_numbers (Suc k) s" using s(1) r(2,3) by auto
    qed
    ultimately show ?thesis using Suc s(2) by (auto simp: address_number_def)
  next
    case False
    then have "\<not> address_numbers (Suc k) s"
      using digits_then_dot by (fastforce simp: address_number_def)
    moreover have "ipv4_loop (3 - Suc k) (3 - Suc k) s \<noteq> exact_match"
    proof (cases "dropWhile isdigit s")
      case Nil
      then show ?thesis using d by (subst ipv4_loop.simps) (simp add: Let_def del: dropWhile_eq_Nil_conv diff_Suc_Suc)
    next
      case (Cons c r)
      then have "c \<noteq> 46 \<or> r = [] \<or> first_char r = 46" using False by (cases r) (auto simp: first_char_def)
      then show ?thesis using Cons by (subst ipv4_loop.simps) (auto simp: first_char_def Let_def)
    qed
    ultimately show ?thesis by blast
  qed
qed

section \<open>What filtering keeps\<close>

text \<open>A slot either keeps its command or is emptied.\<close>

definition narrows :: "'a option list \<Rightarrow> 'a option list \<Rightarrow> bool" where
  "narrows v' v \<longleftrightarrow> list_all2 (\<lambda>a b. a = b \<or> a = None) v' v"

lemma narrows_refl [simp]: "narrows v v"
  by (simp add: narrows_def list_all2_refl)

lemma narrows_Cons [simp]: "narrows (a # v') (b # v) \<longleftrightarrow> (a = b \<or> a = None) \<and> narrows v' v"
  by (simp add: narrows_def)

lemma narrows_trans: "narrows v'' v' \<Longrightarrow> narrows v' v \<Longrightarrow> narrows v'' v"
  unfolding narrows_def by (rule list_all2_trans[of _ _ "\<lambda>a b. a = b \<or> a = None"]) auto

lemma narrows_mem: "narrows v' v \<Longrightarrow> Some e \<in> set v' \<Longrightarrow> Some e \<in> set v"
  unfolding narrows_def by (induction rule: list_all2_induct) auto

text \<open>Whether a word matches a place at all, and whether it is one of its keywords.\<close>

definition matches :: "string_c \<Rightarrow> string_c list \<Rightarrow> bool" where
  "matches w places \<longleftrightarrow> (\<exists>m. places_match w places = Some m \<and> m \<noteq> no_match)"

definition spells :: "string_c \<Rightarrow> string_c list \<Rightarrow> bool" where
  "spells w places \<longleftrightarrow> (\<exists>d \<in> set places. \<not> CMD_OPTION d \<and> \<not> CMD_VARIABLE d \<and> strcasecmp_eq w d)"

lemma filter_narrows:
  "cmd_filter_by_completion w i v = Some (m, v') \<Longrightarrow>
   narrows v' v \<and> (\<forall>e. Some e \<in> set v' \<longrightarrow> i < length (ce_strvec e) \<and> matches w (ce_strvec e ! i)) \<and>
   (\<forall>e. Some e \<in> set v' \<longrightarrow> the (places_match w (ce_strvec e ! i)) \<le> m)"
proof (induction v arbitrary: m v')
  case (Cons a v)
  show ?case
  proof (cases a)
    case None
    then show ?thesis using Cons by (auto split: bind_splits)
  next
    case (Some e)
    then show ?thesis using Cons by (fastforce simp: matches_def le_max_iff_disj split: bind_splits if_splits)
  qed
qed simp

lemma ambiguous_loop_narrows:
  "ambiguous_loop w i type matched v = Some (r, v') \<Longrightarrow> narrows v' v"
  by (induction w i type matched v arbitrary: r v' rule: ambiguous_loop.induct)
    (auto split: bind_splits ambiguity.splits)

text \<open>Templates without optional words, lists in braces and a rest of the line: all that are installed are like this.\<close>

definition plain_place :: "string_c \<Rightarrow> bool" where
  "plain_place d \<longleftrightarrow> \<not> CMD_VARARG d \<and> \<not> CMD_MULTI d \<and> \<not> CMD_OPTION d"

definition plain_element :: "'f cmd_element \<Rightarrow> bool" where
  "plain_element e \<longleftrightarrow> list_all (list_all plain_place) (ce_strvec e) \<and> length (ce_strvec e) < CMD_ARGC_MAX"

definition plain_table :: "'f cmd_element option list \<Rightarrow> bool" where
  "plain_table v \<longleftrightarrow> (\<forall>e. Some e \<in> set v \<longrightarrow> plain_element e)"

lemma plain_table_Cons [simp]:
  "plain_table (None # v) \<longleftrightarrow> plain_table v"
  "plain_table (Some e # v) \<longleftrightarrow> plain_element e \<and> plain_table v"
  by (auto simp: plain_table_def)

lemma plain_table_narrows: "narrows v' v \<Longrightarrow> plain_table v \<Longrightarrow> plain_table v'"
  using narrows_mem by (fastforce simp: plain_table_def)

lemma plain_cmdsize: "plain_element e \<Longrightarrow> ce_cmdsize e = length (ce_strvec e)"
proof -
  assume "plain_element e"
  then have "\<not> (length d = 1 \<and> CMD_OPTION (d ! 0))" if "d \<in> set (ce_strvec e)" for d
    using that by (auto simp: plain_element_def plain_place_def list_all_iff)
  then have "takeWhile (\<lambda>d. \<not> (length d = 1 \<and> CMD_OPTION (d ! 0))) (ce_strvec e) = ce_strvec e"
    by (simp add: takeWhile_eq_all_conv)
  then show ?thesis unfolding ce_cmdsize_def cmd_cmdsize_def by (simp only:)
qed

definition plain_type :: "match_type \<Rightarrow> bool" where
  "plain_type m \<longleftrightarrow> m \<noteq> vararg_match \<and> m \<noteq> multi_match"

lemma plain_type_no_match: "plain_type no_match"
  by (simp add: plain_type_def)

lemma plain_type_max: "plain_type m \<Longrightarrow> plain_type n \<Longrightarrow> plain_type (max m n)"
  by (simp add: max_def)

lemma places_match_plain:
  "list_all plain_place ds \<Longrightarrow> \<exists>m. places_match w ds = Some m \<and> plain_type m"
proof (induction ds)
  case (Cons d ds)
  then obtain n where n: "places_match w ds = Some n" "plain_type n" by auto
  have "\<exists>m. place_match w d = Some m \<and> plain_type m"
    using Cons.prems by (auto simp: place_match_def plain_place_def plain_type_def)
  then show ?case using n plain_type_max by auto
qed (simp add: plain_type_def)

lemma filter_plain:
  "plain_table v \<Longrightarrow> \<exists>m v'. cmd_filter_by_completion w i v = Some (m, v') \<and> plain_type m"
proof (induction v)
  case (Cons a v)
  show ?case
  proof (cases a)
    case (Some e)
    obtain m v' where IH: "cmd_filter_by_completion w i v = Some (m, v')" "plain_type m"
      using Cons Some by auto
    show ?thesis
    proof (cases "i < length (ce_strvec e)")
      case True
      then have "list_all plain_place (ce_strvec e ! i)"
        using Cons.prems Some by (auto simp: plain_element_def list_all_length)
      then obtain k where "places_match w (ce_strvec e ! i) = Some k" "plain_type k" using places_match_plain by blast
      then show ?thesis using Some True IH plain_type_max by simp
    qed (use Some IH in simp)
  qed (use Cons in auto)
qed (simp add: plain_type_def)

lemma ambiguous_places_plain:
  "plain_type t \<Longrightarrow> \<exists>a. ambiguous_places w t ds m n = Some a \<and> (\<forall>r. a = Ambiguous r \<longrightarrow> r = 1 \<or> r = 2)"
proof (induction ds arbitrary: m n)
  case (Cons d ds)
  have "\<exists>a. ambiguous_place w t d m n = Some a \<and> (\<forall>r. a = Ambiguous r \<longrightarrow> r = 1 \<or> r = 2)"
    using Cons.prems by (cases t) (auto simp: ambiguous_place_def plain_type_def Let_def split: option.split)
  then obtain a where a: "ambiguous_place w t d m n = Some a" "\<forall>r. a = Ambiguous r \<longrightarrow> r = 1 \<or> r = 2" by blast
  show ?case using a Cons.IH[OF Cons.prems] by (cases a) auto
qed simp

lemma ambiguous_loop_plain:
  "plain_type t \<Longrightarrow> \<exists>r v'. ambiguous_loop w i t m v = Some (r, v') \<and> r \<in> {0, 1, 2}"
proof (induction v arbitrary: m)
  case (Cons a v)
  show ?case
  proof (cases a)
    case None
    then show ?thesis using Cons.IH[OF Cons.prems, of m] by auto
  next
    case (Some e)
    obtain b where b: "ambiguous_places w t (ce_strvec e ! i) m 0 = Some b" "\<forall>r. b = Ambiguous r \<longrightarrow> r = 1 \<or> r = 2"
      using ambiguous_places_plain[OF Cons.prems] by blast
    show ?thesis
    proof (cases b)
      case (Same_place m' n)
      then show ?thesis using Some b Cons.IH[OF Cons.prems, of m'] by auto
    qed (use Some b in auto)
  qed
qed simp

text \<open>Every command left after the loop over the words has a place for each of them that they match.\<close>

definition fits_from :: "nat \<Rightarrow> string_c list \<Rightarrow> 'f cmd_element \<Rightarrow> bool" where
  "fits_from i ws e \<longleftrightarrow> (\<forall>j < length ws. i + j < length (ce_strvec e) \<and> matches (ws ! j) (ce_strvec e ! (i + j)))"

lemma fits_from_Cons:
  "fits_from i (w # ws) e \<longleftrightarrow> i < length (ce_strvec e) \<and> matches w (ce_strvec e ! i) \<and> fits_from (i + 1) ws e"
  unfolding fits_from_def by (auto simp: less_Suc_eq_0_disj nth_Cons')

lemma fits_from_length:
  assumes "fits_from 0 ws e"
  shows "length ws \<le> length (ce_strvec e)"
proof (rule ccontr)
  assume "\<not> length ws \<le> length (ce_strvec e)"
  then have "length (ce_strvec e) < length ws" by simp
  with assms[unfolded fits_from_def] have "0 + length (ce_strvec e) < length (ce_strvec e)" by blast
  then show False by simp
qed

lemma match_words_plain:
  "plain_table v \<Longrightarrow> plain_type m \<Longrightarrow>
   (\<exists>c \<in> {CMD_ERR_AMBIGUOUS, CMD_ERR_NO_MATCH}. match_words i m ws v = Some (Inl c)) \<or>
   (\<exists>m' v'. match_words i m ws v = Some (Inr (m', i + length ws, v')) \<and> plain_type m' \<and> narrows v' v \<and>
      (\<forall>e. Some e \<in> set v' \<longrightarrow> fits_from i ws e))"
proof (induction ws arbitrary: i m v)
  case (Cons w ws)
  obtain k v1 where f: "cmd_filter_by_completion w i v = Some (k, v1)" "plain_type k"
    using filter_plain[OF Cons.prems(1)] by blast
  obtain r v2 where a: "is_cmd_ambiguous w i k v1 = Some (r, v2)" "r \<in> {0, 1, 2}"
    using ambiguous_loop_plain[OF f(2)] unfolding is_cmd_ambiguous_def by blast
  have n1: "narrows v1 v" "\<forall>e. Some e \<in> set v1 \<longrightarrow> i < length (ce_strvec e) \<and> matches w (ce_strvec e ! i)"
    using filter_narrows[OF f(1)] by auto
  have n2: "narrows v2 v1" using ambiguous_loop_narrows a(1) unfolding is_cmd_ambiguous_def by blast
  have plain: "plain_table v2" by (rule plain_table_narrows[OF narrows_trans[OF n2 n1(1)] Cons.prems(1)])
  have e2: "narrows v' v2 \<Longrightarrow> Some e \<in> set v' \<Longrightarrow> i < length (ce_strvec e) \<and> matches w (ce_strvec e ! i)" for v' e
    using n1(2) narrows_mem[OF narrows_trans[OF _ n2]] by blast
  have step: "match_words i m (w # ws) v = (if r = 1 then Some (Inl CMD_ERR_AMBIGUOUS)
      else if r = 2 then Some (Inl CMD_ERR_NO_MATCH) else match_words (i + 1) k ws v2)"
    using f a by (simp add: plain_type_def)
  show ?case
  proof (cases "r = 0")
    case True
    from Cons.IH[OF plain f(2), of "i + 1"] show ?thesis
    proof (elim disjE)
      assume "\<exists>m' v'. match_words (i + 1) k ws v2 = Some (Inr (m', i + 1 + length ws, v')) \<and> plain_type m' \<and>
          narrows v' v2 \<and> (\<forall>e. Some e \<in> set v' \<longrightarrow> fits_from (i + 1) ws e)"
      then obtain m' v' where r: "match_words (i + 1) k ws v2 = Some (Inr (m', i + 1 + length ws, v'))" "plain_type m'"
        "narrows v' v2" "\<forall>e. Some e \<in> set v' \<longrightarrow> fits_from (i + 1) ws e" by blast
      have "narrows v' v" by (rule narrows_trans[OF narrows_trans[OF r(3) n2] n1(1)])
      moreover have "\<forall>e. Some e \<in> set v' \<longrightarrow> fits_from i (w # ws) e" using r(3,4) e2 fits_from_Cons by blast
      ultimately show ?thesis using step True r(1,2) by simp
    qed (use step True in simp)
  qed (use step a in auto)
qed (simp add: fits_from_def)

text \<open>The arguments of a command without optional words.\<close>

fun args_of :: "string_c list list \<Rightarrow> string_c list \<Rightarrow> string_c list" where
  "args_of (d # ds) (w # ws) =
     (if length d = 1 then if CMD_VARIABLE (d ! 0) then [w] else [] else [map tolower w]) @ args_of ds ws"
| "args_of _ _ = []"

lemma collect_args_plain:
  "list_all (list_all plain_place) ds \<Longrightarrow> length ws \<le> length ds \<Longrightarrow> length argv + length ws < CMD_ARGC_MAX \<Longrightarrow>
   collect_args False ds ws argv = Some (Inr (argv @ args_of ds ws))"
proof (induction ws arbitrary: ds argv)
  case (Cons w ws)
  then obtain d ds' where ds: "ds = d # ds'" by (cases ds) auto
  have IH: "collect_args False ds' ws a = Some (Inr (a @ args_of ds' ws))" if "length a + length ws < CMD_ARGC_MAX" for a
    using Cons ds that by simp
  have d: "length d = 1 \<Longrightarrow> \<not> CMD_VARARG (d ! 0) \<and> \<not> CMD_OPTION (d ! 0) \<and> \<not> CMD_MULTI (d ! 0)"
    using Cons.prems(1) ds by (cases d) (auto simp: plain_place_def)
  show ?case
    using Cons.prems(3) ds d IH by (auto simp: Let_def argc_checked_def)
qed (cases ds; simp)

text \<open>A command and the words of a line that name it.\<close>

definition fits :: "string_c list \<Rightarrow> 'f cmd_element \<Rightarrow> bool" where
  "fits ws e \<longleftrightarrow> list_all2 matches ws (ce_strvec e)"

lemma fits_iff: "fits ws e \<longleftrightarrow> fits_from 0 ws e \<and> length ws = length (ce_strvec e)"
  by (auto simp: fits_def fits_from_def list_all2_conv_all_nth)

lemma find_command_plain:
  assumes "plain_table v"
  shows "(\<exists>c \<in> {CMD_ERR_AMBIGUOUS, CMD_ERR_NO_MATCH, CMD_ERR_INCOMPLETE, CMD_ERR_PRIORITY_LOWER}.
      find_command priority ws v = Some (Inl c)) \<or>
    (\<exists>e. find_command priority ws v = Some (Inr (e, args_of (ce_strvec e) ws)) \<and> Some e \<in> set v \<and>
      ce_level e \<le> priority \<and> fits ws e)"
  using match_words_plain[OF assms plain_type_no_match, of 0 ws]
proof (elim disjE)
  assume "\<exists>m v'. match_words 0 no_match ws v = Some (Inr (m, 0 + length ws, v')) \<and> plain_type m \<and> narrows v' v \<and>
      (\<forall>e. Some e \<in> set v' \<longrightarrow> fits_from 0 ws e)"
  then obtain m v' where r: "match_words 0 no_match ws v = Some (Inr (m, length ws, v'))" "m \<noteq> vararg_match"
    "narrows v' v" "\<And>e. Some e \<in> set v' \<Longrightarrow> fits_from 0 ws e"
    by (auto simp: plain_type_def)
  define matched where "matched = filter (\<lambda>e. length ws \<ge> ce_cmdsize e) [e. Some e \<leftarrow> v']"
  have m: "filter (\<lambda>e. m = vararg_match \<or> length ws \<ge> ce_cmdsize e) [e. Some e \<leftarrow> v'] = matched"
    using r(2) by (simp add: matched_def)
  show ?thesis
  proof (cases "\<exists>e. matched = [e] \<and> ce_level e \<le> priority")
    case True
    then obtain e where e: "matched = [e]" "ce_level e \<le> priority" by blast
    then have "e \<in> set matched" by simp
    then have v': "Some e \<in> set v'" "length ws \<ge> ce_cmdsize e" by (auto simp: matched_def)
    have v: "Some e \<in> set v" by (rule narrows_mem[OF r(3) v'(1)])
    then have p: "plain_element e" using assms by (simp add: plain_table_def)
    have l: "length ws = length (ce_strvec e)"
      using fits_from_length[OF r(4)[OF v'(1)]] v'(2) plain_cmdsize[OF p] by simp
    have c: "collect_args False (ce_strvec e) ws [] = Some (Inr (args_of (ce_strvec e) ws))"
      using collect_args_plain[of "ce_strvec e" ws "[]"] p l by (simp add: plain_element_def)
    have "find_command priority ws v = Some (Inr (e, args_of (ce_strvec e) ws))"
      using r(1) m e c by (simp add: find_command_def Let_def)
    then show ?thesis using v e(2) r(4)[OF v'(1)] l by (simp add: fits_iff)
  next
    case False
    have "find_command priority ws v = Some (Inl (if matched = [] then
          if [e. Some e \<leftarrow> v'] = [] then CMD_ERR_NO_MATCH else CMD_ERR_INCOMPLETE
        else if length matched > 1 then CMD_ERR_AMBIGUOUS else CMD_ERR_PRIORITY_LOWER))"
      using r(1) m False by (cases matched; cases "tl matched") (simp_all add: find_command_def Let_def not_le)
    then show ?thesis by (auto split: if_splits)
  qed
qed (auto simp: find_command_def plain_type_def)

section \<open>Properties\<close>

text \<open>C23. A template of a command is read as it is written: every template, made of places with one word or alternatives in
  parentheses, whose words have no blank, parenthesis or bar, gives the places back.\<close>

theorem template_read_back:
  assumes "template_places t"
  shows "cmd_make_descvec (write_template t) = Some t"
  by (rule cmd_make_descvec_template[OF assms])

text \<open>C24. The address a command takes is checked as it should be, but for one case: a word is an address exactly when it is
  four numbers with dots between them, each of at most three digits and at most 255, where the first number may be
  missing.\<close>

theorem address_checked:
  "cmd_ipv4_match s = exact_match \<longleftrightarrow>
   (\<exists>a b c d. s = a @ [46] @ b @ [46] @ c @ [46] @ d \<and> list_all address_number [a, b, c, d] \<and> [] \<notin> set [b, c, d])"
proof -
  have "cmd_ipv4_match s = exact_match \<longleftrightarrow> address_numbers 3 s"
    using ipv4_loop_numbers[of 3 s] by (simp add: cmd_ipv4_match_def)
  also have "\<dots> \<longleftrightarrow> (\<exists>n r. s = n @ 46 # r \<and> address_number n \<and> address_rest 2 r)"
  proof -
    have "address_numbers 3 s = address_numbers (Suc 2) s" by (simp only: eval_nat_numeral)
    then show ?thesis unfolding address_numbers.simps address_rest_iff by blast
  qed
  also have "\<dots> \<longleftrightarrow> (\<exists>a b c d. s = a @ 46 # b @ 46 # c @ 46 # d \<and> address_number a \<and>
      address_number b \<and> b \<noteq> [] \<and> address_number c \<and> c \<noteq> [] \<and> address_number d \<and> d \<noteq> [])"
    unfolding numeral_2_eq_2 address_rest.simps by blast
  finally show ?thesis by auto
qed

theorem template_read_back_witness:
  "cmd_make_descvec (write_template [[[98, 115, 109]], [[115, 116, 111, 112], [115, 116, 97, 114, 116]]]) =
     Some [[[98, 115, 109]], [[115, 116, 111, 112], [115, 116, 97, 114, 116]]]"
  by (rule template_read_back) (simp add: template_places_def template_word_def isspace_def)

end
