(* ===== verification/CliTable.thy ===== *)
theory CliTable
  imports CliMatch "HOL-Library.List_Lexorder"
begin

text \<open>
  The commands of the shell and their installation: growing vectors (\<open>common/vector.c\<close>), the commands as they are
  declared and installed for the modes (\<open>common/command.c\<close>, \<open>command/dev_manage.c\<close>, \<open>command/user_mng_cmd.c\<close>,
  \<open>command/vam_cmd.c\<close>) and the sorting of the tables, all under \<open>app/oam/agent/cli\<close>.

  \<open>None\<close> is a slot outside a vector, an end of the program (a mode that does not exist, a template that cannot be read)
  or a null pointer that is followed.
\<close>

section \<open>Vectors\<close>

text \<open>The slots that are allocated and how many are in use. A slot is \<open>None\<close> when it holds no pointer.\<close>

record 'a vector =
  vec_index :: "'a option list"
  vec_active :: nat

definition vector_init :: "nat \<Rightarrow> 'a vector" where
  "vector_init n = \<lparr>vec_index = replicate (if n = 0 then 1 else n) None, vec_active = 0\<rparr>"

partial_function (option) vector_ensure :: "'a vector \<Rightarrow> nat \<Rightarrow> 'a vector option" where
  "vector_ensure v num =
     (if length (vec_index v) > num then Some v
      else vector_ensure (v\<lparr>vec_index := vec_index v @ replicate (length (vec_index v)) None\<rparr>) num)"

declare vector_ensure.simps [code]

definition vector_empty_slot :: "'a vector \<Rightarrow> nat" where
  "vector_empty_slot v =
     (case List.find (\<lambda>i. vec_index v ! i = None) [0..<vec_active v] of Some i \<Rightarrow> i | None \<Rightarrow> vec_active v)"

definition vector_set_index :: "'a vector \<Rightarrow> nat \<Rightarrow> 'a \<Rightarrow> 'a vector option" where
  "vector_set_index v i x =
     do { v \<leftarrow> vector_ensure v i;
          Some (v\<lparr>vec_index := (vec_index v)[i := Some x], vec_active := max (vec_active v) (i + 1)\<rparr>) }"

definition vector_set :: "'a vector \<Rightarrow> 'a \<Rightarrow> 'a vector option" where
  "vector_set v x = vector_set_index v (vector_empty_slot v) x"

definition vector_slot :: "'a vector \<Rightarrow> nat \<Rightarrow> 'a option option" where
  "vector_slot v i = (if i < length (vec_index v) then Some (vec_index v ! i) else None)"

definition vector_slots :: "'a vector \<Rightarrow> 'a option list" where
  "vector_slots v = take (vec_active v) (vec_index v)"

section \<open>The commands\<close>

text \<open>The functions of the commands. The last ones print, or act outside the shell; the time-out and the language they
  set are not modelled.\<close>

datatype other_func =
  History | Time_out | Clear_screen | Help | List_commands | Language
| Reboot | Show_info | Write_config | Ping | Show_user | Show_config | Set_config | Bsm_trigger | Dbg_print

datatype cli_func =
  Config_terminal | Enable | Disable | Config_exit | Config_end | Debug_hide
| Passwd | Enable_passwd | Add_user | Add_privilege | Del_user | Other other_func

definition chars :: "string \<Rightarrow> string_c" where
  "chars s = map of_char s"

text \<open>A declaration: template, function, level and whether it is hidden.\<close>

type_synonym defun = "string \<times> cli_func \<times> int \<times> bool"

definition config_terminal_cmd :: defun where "config_terminal_cmd = (''config'', Config_terminal, 0, False)"
definition config_enable_cmd :: defun where "config_enable_cmd = (''enable'', Enable, 0, False)"
definition config_disable_cmd :: defun where "config_disable_cmd = (''disable'', Disable, 0, False)"
definition config_exit_cmd :: defun where "config_exit_cmd = (''exit'', Config_exit, 0, False)"
definition config_quit_cmd :: defun where "config_quit_cmd = (''quit'', Config_exit, 0, False)"
definition config_end_cmd :: defun where "config_end_cmd = (''end'', Config_end, 0, False)"
definition history_cmd :: defun where "history_cmd = (''history'', Other History, 0, False)"
definition time_out_cmd :: defun where "time_out_cmd = (''terminal time-out <1-65535>'', Other Time_out, 5, False)"
definition clear_cmd :: defun where "clear_cmd = (''clear'', Other Clear_screen, 0, False)"
definition config_help_cmd :: defun where "config_help_cmd = (''help'', Other Help, 0, False)"
definition debug_cmd :: defun where "debug_cmd = (''debug-hide 0906'', Debug_hide, 15, True)"
definition config_list_cmd :: defun where "config_list_cmd = (''list'', Other List_commands, 5, False)"
definition language_change_cmd :: defun where
  "language_change_cmd = (''language (english|chinese)'', Other Language, 0, False)"

definition reboot_cmd :: defun where "reboot_cmd = (''reboot'', Other Reboot, 15, False)"
definition show_info_cmd :: defun where
  "show_info_cmd = (''show (information|parameter|version)'', Other Show_info, 10, False)"
definition write_cmd :: defun where "write_cmd = (''write'', Other Write_config, 15, False)"
definition enable_passwd_cmd :: defun where "enable_passwd_cmd = (''enable password'', Enable_passwd, 5, False)"
definition ping_cmd :: defun where "ping_cmd = (''ping A.B.C.D'', Other Ping, 11, False)"
definition ping_cmd_w :: defun where "ping_cmd_w = (''ping A.B.C.D waittime <1-60>'', Other Ping, 11, False)"
definition ping_cmd_s :: defun where "ping_cmd_s = (''ping A.B.C.D size <0-4096>'', Other Ping, 11, False)"
definition ping_cmd_c :: defun where "ping_cmd_c = (''ping A.B.C.D count <1-65535>'', Other Ping, 11, False)"
definition ping_cmd_sw :: defun where
  "ping_cmd_sw = (''ping A.B.C.D size <0-4096> waittime <1-60>'', Other Ping, 11, False)"
definition ping_cmd_cw :: defun where
  "ping_cmd_cw = (''ping A.B.C.D count <1-65535> waittime <1-60>'', Other Ping, 11, False)"
definition ping_cmd_cs :: defun where
  "ping_cmd_cs = (''ping A.B.C.D count <1-65535> size <0-4096>'', Other Ping, 11, False)"
definition ping_cmd_csw :: defun where
  "ping_cmd_csw = (''ping A.B.C.D count <1-65535> size <0-4096> waittime <1-60>'', Other Ping, 11, False)"

definition passwd_cmd :: defun where "passwd_cmd = (''password'', Passwd, 5, False)"
definition add_user_cmd :: defun where
  "add_user_cmd = (''user name USERNAME password PASSWORD'', Add_user, 15, False)"
definition add_privilege_cmd :: defun where
  "add_privilege_cmd = (''user name USERNAME privilege <1-15>'', Add_privilege, 15, False)"
definition del_user_cmd :: defun where "del_user_cmd = (''no username USERNAME'', Del_user, 15, False)"
definition show_user_cmd :: defun where "show_user_cmd = (''show user'', Other Show_user, 5, False)"

definition show_config_cmd :: defun where
  "show_config_cmd = (''show parameter (all|vam|wnet|bsm)'', Other Show_config, 10, False)"
definition set_config_cmd :: defun where
  "set_config_cmd = (''set parameter bsm_cast <10-3000>'', Other Set_config, 10, False)"
definition bsm_trigger_cmd :: defun where "bsm_trigger_cmd = (''bsm (stop|start)'', Other Bsm_trigger, 10, False)"
definition dbg_print_cmd :: defun where
  "dbg_print_cmd = (''dbg_print (stop|wnet_rx|gps)'', Other Dbg_print, 10, False)"

lemmas defuns =
  config_terminal_cmd_def config_enable_cmd_def config_disable_cmd_def config_exit_cmd_def config_quit_cmd_def config_end_cmd_def
  history_cmd_def time_out_cmd_def clear_cmd_def config_help_cmd_def debug_cmd_def config_list_cmd_def
  language_change_cmd_def reboot_cmd_def show_info_cmd_def write_cmd_def enable_passwd_cmd_def ping_cmd_def
  ping_cmd_w_def ping_cmd_s_def ping_cmd_c_def ping_cmd_sw_def ping_cmd_cw_def ping_cmd_cs_def
  ping_cmd_csw_def passwd_cmd_def add_user_cmd_def add_privilege_cmd_def del_user_cmd_def show_user_cmd_def
  show_config_cmd_def set_config_cmd_def bsm_trigger_cmd_def dbg_print_cmd_def

section \<open>Installing them\<close>

text \<open>The number of a mode.\<close>

fun node_num :: "node_type \<Rightarrow> nat" where
  "node_num USER_NODE = 0"
| "node_num AUTH_NODE = 1"
| "node_num VIEW_NODE = 2"
| "node_num AUTH_ENABLE_NODE = 3"
| "node_num ENABLE_NODE = 4"
| "node_num CONFIG_NODE = 5"
| "node_num CHANGE_PASSWD_NODE = 6"
| "node_num CHANGE_PASSWD_AGAIN_NODE = 7"
| "node_num DEBUG_NODE = 8"

type_synonym cmd_vector = "cli_func cmd_element vector"

text \<open>A mode is the vector of its commands; prompts and the functions that write a configuration are left out.\<close>

definition install_node :: "node_type \<Rightarrow> cmd_vector vector \<Rightarrow> cmd_vector vector option" where
  "install_node n cmdvec = vector_set_index cmdvec (node_num n) (vector_init 1)"

definition make_element :: "defun \<Rightarrow> cli_func cmd_element option" where
  "make_element = (\<lambda>(s, f, l, h).
     map_option (\<lambda>d. \<lparr>ce_string = chars s, ce_strvec = d, ce_func = f, ce_level = l, ce_hidden = h\<rparr>) (cmd_make_descvec (chars s)))"

definition install_element :: "node_type \<Rightarrow> defun \<Rightarrow> cmd_vector vector \<Rightarrow> cmd_vector vector option" where
  "install_element n d cmdvec =
     do { slot \<leftarrow> vector_slot cmdvec (node_num n);
          cnode \<leftarrow> slot;
          e \<leftarrow> make_element d;
          cnode \<leftarrow> vector_set cnode e;
          Some (cmdvec\<lparr>vec_index := (vec_index cmdvec)[node_num n := Some cnode]\<rparr>) }"

fun install_all :: "(node_type \<times> defun) list \<Rightarrow> cmd_vector vector \<Rightarrow> cmd_vector vector option" where
  "install_all [] cmdvec = Some cmdvec"
| "install_all ((n, d) # ds) cmdvec = do { cmdvec \<leftarrow> install_element n d cmdvec; install_all ds cmdvec }"

definition install_default :: "node_type \<Rightarrow> cmd_vector vector \<Rightarrow> cmd_vector vector option" where
  "install_default n = install_all (map (\<lambda>d. (n, d))
     ([config_exit_cmd, config_quit_cmd, history_cmd, clear_cmd] @ (if n \<noteq> ENABLE_NODE then [config_end_cmd] else []) @
      [config_list_cmd, config_help_cmd, language_change_cmd]))"

definition install_view_cmd :: "cmd_vector vector \<Rightarrow> cmd_vector vector option" where
  "install_view_cmd cmdvec =
     do { cmdvec \<leftarrow> install_node VIEW_NODE cmdvec;
          install_all (map (\<lambda>d. (VIEW_NODE, d)) [config_list_cmd, config_exit_cmd, config_quit_cmd, config_help_cmd,
            history_cmd, clear_cmd, time_out_cmd, config_enable_cmd, language_change_cmd]) cmdvec }"

definition install_enable_cmd :: "cmd_vector vector \<Rightarrow> cmd_vector vector option" where
  "install_enable_cmd cmdvec =
     do { cmdvec \<leftarrow> install_node ENABLE_NODE cmdvec;
          cmdvec \<leftarrow> install_default ENABLE_NODE cmdvec;
          install_all (map (\<lambda>d. (ENABLE_NODE, d)) [config_disable_cmd, config_terminal_cmd, debug_cmd]) cmdvec }"

definition install_config_cmd :: "cmd_vector vector \<Rightarrow> cmd_vector vector option" where
  "install_config_cmd cmdvec = do { cmdvec \<leftarrow> install_node CONFIG_NODE cmdvec; install_default CONFIG_NODE cmdvec }"

definition install_dev_manage_cmd :: "cmd_vector vector \<Rightarrow> cmd_vector vector option" where
  "install_dev_manage_cmd = install_all
     [(ENABLE_NODE, reboot_cmd), (ENABLE_NODE, show_info_cmd), (ENABLE_NODE, write_cmd), (ENABLE_NODE, enable_passwd_cmd),
      (CONFIG_NODE, show_info_cmd), (ENABLE_NODE, ping_cmd), (ENABLE_NODE, ping_cmd_w), (ENABLE_NODE, ping_cmd_s),
      (ENABLE_NODE, ping_cmd_c), (ENABLE_NODE, ping_cmd_sw), (ENABLE_NODE, ping_cmd_cs), (ENABLE_NODE, ping_cmd_cw),
      (ENABLE_NODE, ping_cmd_csw)]"

definition install_user_mng_cmd :: "cmd_vector vector \<Rightarrow> cmd_vector vector option" where
  "install_user_mng_cmd = install_all (map (\<lambda>d. (ENABLE_NODE, d))
     [passwd_cmd, add_user_cmd, add_privilege_cmd, del_user_cmd, show_user_cmd])"

definition install_vam_manage_cmd :: "cmd_vector vector \<Rightarrow> cmd_vector vector option" where
  "install_vam_manage_cmd = install_all (map (\<lambda>d. (ENABLE_NODE, d))
     [show_config_cmd, set_config_cmd, bsm_trigger_cmd, dbg_print_cmd])"

definition cmd_init :: "cmd_vector vector option" where
  "cmd_init =
     do { v \<leftarrow> install_node USER_NODE (vector_init 1);
          v \<leftarrow> install_node AUTH_NODE v;
          v \<leftarrow> install_node AUTH_ENABLE_NODE v;
          v \<leftarrow> install_node CHANGE_PASSWD_NODE v;
          v \<leftarrow> install_node CHANGE_PASSWD_AGAIN_NODE v;
          v \<leftarrow> install_view_cmd v;
          v \<leftarrow> install_enable_cmd v;
          v \<leftarrow> install_config_cmd v;
          v \<leftarrow> install_dev_manage_cmd v;
          v \<leftarrow> install_user_mng_cmd v;
          install_vam_manage_cmd v }"

text \<open>Sorting the commands of each mode, and the words at the last place of each command. A vector with an empty slot
  cannot be sorted.\<close>

definition sort_last_place :: "'f cmd_element \<Rightarrow> 'f cmd_element" where
  "sort_last_place e =
     (if ce_strvec e = [] then e
      else e\<lparr>ce_strvec := butlast (ce_strvec e) @ [sort (last (ce_strvec e))]\<rparr>)"

definition sort_commands :: "cmd_vector \<Rightarrow> cmd_vector option" where
  "sort_commands v =
     (if None \<in> set (vector_slots v) then None
      else Some (v\<lparr>vec_index :=
        map (\<lambda>e. Some (sort_last_place e)) (sort_key (\<lambda>e. map tolower (ce_string e)) [e. Some e \<leftarrow> vector_slots v]) @
        drop (vec_active v) (vec_index v)\<rparr>))"

fun sort_nodes :: "cmd_vector option list \<Rightarrow> cmd_vector option list option" where
  "sort_nodes [] = Some []"
| "sort_nodes (None # cs) = map_option (Cons None) (sort_nodes cs)"
| "sort_nodes (Some c # cs) = do { c \<leftarrow> sort_commands c; cs \<leftarrow> sort_nodes cs; Some (Some c # cs) }"

definition sort_node :: "cmd_vector vector \<Rightarrow> cmd_vector vector option" where
  "sort_node v =
     do { cs \<leftarrow> sort_nodes (vector_slots v);
          Some (v\<lparr>vec_index := cs @ drop (vec_active v) (vec_index v)\<rparr>) }"

text \<open>The tables the program runs with, and the commands of a mode; a mode without a slot is outside the memory.\<close>

definition command_table :: "cmd_vector vector option" where
  "command_table = do { v \<leftarrow> cmd_init; sort_node v }"

definition cmd_node_vector :: "cmd_vector vector option \<Rightarrow> node_type \<Rightarrow> cli_func cmd_element option list option" where
  "cmd_node_vector cmdvec n =
     do { v \<leftarrow> cmdvec; slot \<leftarrow> vector_slot v (node_num n); cnode \<leftarrow> slot; Some (vector_slots cnode) }"

abbreviation commands_of :: "node_type \<Rightarrow> cli_func cmd_element option list option" where
  "commands_of \<equiv> cmd_node_vector command_table"

section \<open>Vectors are lists\<close>

definition vec_holds :: "'a vector \<Rightarrow> 'a list \<Rightarrow> bool" where
  "vec_holds v xs \<longleftrightarrow> vec_index v \<noteq> [] \<and> vec_active v = length xs \<and> vector_slots v = map Some xs"

lemma vec_holds_init: "vec_holds (vector_init n) []"
  by (simp add: vec_holds_def vector_init_def vector_slots_def)

lemma vector_ensure_grows:
  "vec_index v \<noteq> [] \<Longrightarrow> \<exists>k. vector_ensure v n = Some (v\<lparr>vec_index := vec_index v @ replicate k None\<rparr>) \<and>
     n < length (vec_index v) + k"
proof (induction "n + 1 - length (vec_index v)" arbitrary: v rule: less_induct)
  case less
  show ?case
  proof (cases "n < length (vec_index v)")
    case True
    then show ?thesis by (intro exI[of _ 0]) (simp add: vector_ensure.simps)
  next
    case False
    let ?v = "v\<lparr>vec_index := vec_index v @ replicate (length (vec_index v)) None\<rparr>"
    have l: "0 < length (vec_index v)" using less.prems by simp
    have "n + 1 - length (vec_index ?v) < n + 1 - length (vec_index v)" "vec_index ?v \<noteq> []"
      using False l less.prems by (simp_all del: length_greater_0_conv)
    from less.hyps[OF this] obtain k where
      k: "vector_ensure ?v n = Some (?v\<lparr>vec_index := vec_index ?v @ replicate k None\<rparr>)" "n < length (vec_index ?v) + k"
      by blast
    have "vector_ensure v n = vector_ensure ?v n" using False by (subst vector_ensure.simps) simp
    then show ?thesis using k
      by (intro exI[of _ "length (vec_index v) + k"]) (simp add: replicate_add)
  qed
qed

lemma vector_set_appends:
  assumes v: "vec_holds v xs"
  shows "\<exists>v'. vector_set v x = Some v' \<and> vec_holds v' (xs @ [x])"
proof -
  have h: "vec_index v \<noteq> []" "vec_active v = length xs" "take (length xs) (vec_index v) = map Some xs"
    using v by (auto simp: vec_holds_def vector_slots_def)
  have "length (map Some xs) \<le> length (vec_index v)" unfolding h(3)[symmetric] by simp
  then have l: "length xs \<le> length (vec_index v)" by simp
  have "vec_index v ! i = Some (xs ! i)" if "i < length xs" for i
    using that h(3) by (metis nth_map nth_take)
  then have "vector_empty_slot v = length xs"
    using h(2) by (auto simp: vector_empty_slot_def find_Some_iff split: option.split)
  moreover obtain k where
    "vector_ensure v (length xs) = Some (v\<lparr>vec_index := vec_index v @ replicate k None\<rparr>)" "length xs < length (vec_index v) + k"
    using vector_ensure_grows[OF h(1)] by blast
  ultimately show ?thesis
    using h l by (simp add: vector_set_def vector_set_index_def vec_holds_def vector_slots_def take_Suc_conv_app_nth
        nth_append take_update_cancel)
qed

section \<open>The tables\<close>

definition element :: "defun \<Rightarrow> cli_func cmd_element" where
  "element d = the (make_element d)"

text \<open>The modes that have a slot, with the commands installed in them.\<close>

definition modes_hold :: "cmd_vector vector \<Rightarrow> (node_type \<Rightarrow> cli_func cmd_element list option) \<Rightarrow> bool" where
  "modes_hold v T \<longleftrightarrow> length (vec_index v) = 8 \<and> vec_active v = 8 \<and>
     (\<forall>n. node_num n < 8 \<longrightarrow> (case T n of
        None \<Rightarrow> vec_index v ! node_num n = None
      | Some xs \<Rightarrow> \<exists>c. vec_index v ! node_num n = Some c \<and> vec_holds c xs))"

lemma node_num_inj: "node_num m = node_num n \<longleftrightarrow> m = n"
  by (cases m; cases n) simp_all

lemma modes_hold_update:
  assumes "modes_hold v T" "node_num n < 8" "vec_holds c xs"
  shows "modes_hold (v\<lparr>vec_index := (vec_index v)[node_num n := Some c]\<rparr>) (T(n \<mapsto> xs))"
  using assms by (auto simp: modes_hold_def nth_list_update node_num_inj split: option.splits)

lemma install_node_holds:
  assumes "modes_hold v T" "node_num n < 8"
  shows "\<exists>v'. install_node n v = Some v' \<and> modes_hold v' (T(n \<mapsto> []))"
proof -
  have "install_node n v = Some (v\<lparr>vec_index := (vec_index v)[node_num n := Some (vector_init 1)]\<rparr>)"
    using assms by (simp add: install_node_def vector_set_index_def vector_ensure.simps modes_hold_def)
  then show ?thesis using modes_hold_update[OF assms vec_holds_init] by blast
qed

lemma install_element_holds:
  assumes "modes_hold v T" "node_num n < 8" "T n = Some xs" "make_element d \<noteq> None"
  shows "\<exists>v'. install_element n d v = Some v' \<and> modes_hold v' (T(n \<mapsto> xs @ [element d]))"
proof -
  obtain c where c: "vec_index v ! node_num n = Some c" "vec_holds c xs" "length (vec_index v) = 8"
    using assms by (fastforce simp: modes_hold_def)
  obtain c' where c': "vector_set c (element d) = Some c'" "vec_holds c' (xs @ [element d])"
    using vector_set_appends[OF c(2)] by blast
  have "make_element d = Some (element d)" using assms(4) by (simp add: element_def)
  then have "install_element n d v = Some (v\<lparr>vec_index := (vec_index v)[node_num n := Some c']\<rparr>)"
    using assms(2) c c'(1) by (simp add: install_element_def vector_slot_def)
  then show ?thesis using modes_hold_update[OF assms(1,2) c'(2)] by blast
qed

lemma install_all_holds:
  assumes "modes_hold v T" "\<forall>(n, d) \<in> set ds. node_num n < 8 \<and> T n \<noteq> None \<and> make_element d \<noteq> None"
  shows "\<exists>v'. install_all ds v = Some v' \<and>
    modes_hold v' (\<lambda>n. map_option (\<lambda>xs. xs @ [element d. (m, d) \<leftarrow> ds, m = n]) (T n))"
  using assms
proof (induction ds arbitrary: v T)
  case Nil
  then show ?case by (simp add: option.map_ident_strong)
next
  case (Cons x ds)
  obtain n d where x: "x = (n, d)" by (cases x)
  obtain xs where xs: "T n = Some xs" using Cons.prems x by auto
  obtain v1 where v1: "install_element n d v = Some v1" "modes_hold v1 (T(n \<mapsto> xs @ [element d]))"
    using install_element_holds[OF Cons.prems(1) _ xs, of d] Cons.prems(2) x by auto
  from Cons.IH[OF v1(2)] Cons.prems(2) obtain v2 where v2: "install_all ds v1 = Some v2"
    "modes_hold v2 (\<lambda>m. map_option (\<lambda>xs. xs @ [element d. (m', d) \<leftarrow> ds, m' = m]) ((T(n \<mapsto> xs @ [element d])) m))"
    by (fastforce split: prod.splits)
  have "(\<lambda>m. map_option (\<lambda>xs. xs @ [element d. (m', d) \<leftarrow> ds, m' = m]) ((T(n \<mapsto> xs @ [element d])) m)) =
      (\<lambda>m. map_option (\<lambda>xs. xs @ [element d. (m', d) \<leftarrow> x # ds, m' = m]) (T m))"
    using xs x by (auto simp: fun_eq_iff)
  then show ?case using v1(1) v2 x by simp
qed

text \<open>What the templates say, place by place.\<close>

definition templates :: "(defun \<times> string list list) list" where
  "templates =
     [(config_terminal_cmd, [[''config'']]),
      (config_enable_cmd, [[''enable'']]),
      (config_disable_cmd, [[''disable'']]),
      (config_exit_cmd, [[''exit'']]),
      (config_quit_cmd, [[''quit'']]),
      (config_end_cmd, [[''end'']]),
      (history_cmd, [[''history'']]),
      (time_out_cmd, [[''terminal''], [''time-out''], [''<1-65535>'']]),
      (clear_cmd, [[''clear'']]),
      (config_help_cmd, [[''help'']]),
      (debug_cmd, [[''debug-hide''], [''0906'']]),
      (config_list_cmd, [[''list'']]),
      (language_change_cmd, [[''language''], [''english'', ''chinese'']]),
      (reboot_cmd, [[''reboot'']]),
      (show_info_cmd, [[''show''], [''information'', ''parameter'', ''version'']]),
      (write_cmd, [[''write'']]),
      (enable_passwd_cmd, [[''enable''], [''password'']]),
      (ping_cmd, [[''ping''], [''A.B.C.D'']]),
      (ping_cmd_w, [[''ping''], [''A.B.C.D''], [''waittime''], [''<1-60>'']]),
      (ping_cmd_s, [[''ping''], [''A.B.C.D''], [''size''], [''<0-4096>'']]),
      (ping_cmd_c, [[''ping''], [''A.B.C.D''], [''count''], [''<1-65535>'']]),
      (ping_cmd_sw, [[''ping''], [''A.B.C.D''], [''size''], [''<0-4096>''], [''waittime''], [''<1-60>'']]),
      (ping_cmd_cw, [[''ping''], [''A.B.C.D''], [''count''], [''<1-65535>''], [''waittime''], [''<1-60>'']]),
      (ping_cmd_cs, [[''ping''], [''A.B.C.D''], [''count''], [''<1-65535>''], [''size''], [''<0-4096>'']]),
      (ping_cmd_csw, [[''ping''], [''A.B.C.D''], [''count''], [''<1-65535>''], [''size''], [''<0-4096>''], [''waittime''], [''<1-60>'']]),
      (passwd_cmd, [[''password'']]),
      (add_user_cmd, [[''user''], [''name''], [''USERNAME''], [''password''], [''PASSWORD'']]),
      (add_privilege_cmd, [[''user''], [''name''], [''USERNAME''], [''privilege''], [''<1-15>'']]),
      (del_user_cmd, [[''no''], [''username''], [''USERNAME'']]),
      (show_user_cmd, [[''show''], [''user'']]),
      (show_config_cmd, [[''show''], [''parameter''], [''all'', ''vam'', ''wnet'', ''bsm'']]),
      (set_config_cmd, [[''set''], [''parameter''], [''bsm_cast''], [''<10-3000>'']]),
      (bsm_trigger_cmd, [[''bsm''], [''stop'', ''start'']]),
      (dbg_print_cmd, [[''dbg_print''], [''stop'', ''wnet_rx'', ''gps'']])]"

lemma templates_written:
  "\<forall>(d, t) \<in> set templates. chars (fst d) = write_template (map (map chars) t) \<and> template_places (map (map chars) t)"
  unfolding templates_def
  by (simp add: chars_def defuns write_place_def template_places_def template_word_def isspace_def)

lemma templates_read: "(d, t) \<in> set templates \<Longrightarrow> map_option ce_strvec (make_element d) = Some (map (map chars) t)"
  using templates_written cmd_make_descvec_template[of "map (map chars) t"]
  by (fastforce simp: make_element_def split: prod.splits)

lemma template_of:
  assumes "(d, t) \<in> set templates"
  shows "make_element d \<noteq> None" "ce_strvec (element d) = map (map chars) t"
proof -
  have "map_option ce_strvec (make_element d) = Some (map (map chars) t)"
    by (rule templates_read[OF assms])
  then show "make_element d \<noteq> None" "ce_strvec (element d) = map (map chars) t" by (auto simp: element_def)
qed

lemma element_fields:
  assumes "make_element d \<noteq> None"
  shows "ce_string (element d) = chars (fst d)" "ce_func (element d) = fst (snd d)" "ce_level (element d) = fst (snd (snd d))"
  using assms by (auto simp: element_def make_element_def split: prod.splits)

text \<open>The commands of each mode in the order they are installed; the modes of the login and of passwords have none.\<close>

fun mode_commands_of :: "node_type \<Rightarrow> defun list" where
  "mode_commands_of VIEW_NODE = [config_list_cmd, config_exit_cmd, config_quit_cmd, config_help_cmd,
     history_cmd, clear_cmd, time_out_cmd, config_enable_cmd, language_change_cmd]"
| "mode_commands_of ENABLE_NODE = [config_exit_cmd, config_quit_cmd, history_cmd, clear_cmd, config_list_cmd,
     config_help_cmd, language_change_cmd, config_disable_cmd, config_terminal_cmd, debug_cmd,
     reboot_cmd, show_info_cmd, write_cmd, enable_passwd_cmd, ping_cmd, ping_cmd_w, ping_cmd_s, ping_cmd_c,
     ping_cmd_sw, ping_cmd_cs, ping_cmd_cw, ping_cmd_csw,
     passwd_cmd, add_user_cmd, add_privilege_cmd, del_user_cmd, show_user_cmd,
     show_config_cmd, set_config_cmd, bsm_trigger_cmd, dbg_print_cmd]"
| "mode_commands_of CONFIG_NODE = [config_exit_cmd, config_quit_cmd, history_cmd, clear_cmd, config_end_cmd,
     config_list_cmd, config_help_cmd, language_change_cmd, show_info_cmd]"
| "mode_commands_of _ = []"

lemma mode_commands_made: "d \<in> set (mode_commands_of n) \<Longrightarrow> d \<in> fst ` set templates"
proof -
  have "\<forall>d \<in> set (mode_commands_of n). d \<in> fst ` set templates"
    by (cases n) (simp_all add: templates_def)
  then show "d \<in> set (mode_commands_of n) \<Longrightarrow> d \<in> fst ` set templates" by blast
qed

lemma mode_commands_node: "d \<in> set (mode_commands_of n) \<Longrightarrow> node_num n < 8"
  by (cases n) simp_all

lemma first_modes:
  "\<exists>v. do { v \<leftarrow> install_node USER_NODE (vector_init 1); v \<leftarrow> install_node AUTH_NODE v;
     v \<leftarrow> install_node AUTH_ENABLE_NODE v; v \<leftarrow> install_node CHANGE_PASSWD_NODE v;
     install_node CHANGE_PASSWD_AGAIN_NODE v } = Some v \<and>
   modes_hold v [USER_NODE \<mapsto> [], AUTH_NODE \<mapsto> [], AUTH_ENABLE_NODE \<mapsto> [], CHANGE_PASSWD_NODE \<mapsto> [],
     CHANGE_PASSWD_AGAIN_NODE \<mapsto> []]"
proof -
  let ?c = "Some (vector_init 1) :: cmd_vector option"
  define w :: "cmd_vector vector" where
    "w = \<lparr>vec_index = [?c, ?c, None, ?c, None, None, ?c, ?c], vec_active = 8\<rparr>"
  have "do { v \<leftarrow> install_node USER_NODE (vector_init 1); v \<leftarrow> install_node AUTH_NODE v;
     v \<leftarrow> install_node AUTH_ENABLE_NODE v; v \<leftarrow> install_node CHANGE_PASSWD_NODE v;
     install_node CHANGE_PASSWD_AGAIN_NODE v } = Some w"
    unfolding w_def by code_simp
  moreover have "modes_hold w [USER_NODE \<mapsto> [], AUTH_NODE \<mapsto> [], AUTH_ENABLE_NODE \<mapsto> [], CHANGE_PASSWD_NODE \<mapsto> [],
     CHANGE_PASSWD_AGAIN_NODE \<mapsto> []]"
  proof -
    have "(case [USER_NODE \<mapsto> [], AUTH_NODE \<mapsto> [], AUTH_ENABLE_NODE \<mapsto> [], CHANGE_PASSWD_NODE \<mapsto> [],
        CHANGE_PASSWD_AGAIN_NODE \<mapsto> []] n of None \<Rightarrow> vec_index w ! node_num n = None
      | Some xs \<Rightarrow> \<exists>c. vec_index w ! node_num n = Some c \<and> vec_holds c xs)" if "node_num n < 8" for n
      using that by (cases n) (simp_all add: w_def vec_holds_init)
    moreover have "length (vec_index w) = 8" "vec_active w = 8" by (simp_all add: w_def)
    ultimately show ?thesis by (simp only: modes_hold_def) blast
  qed
  ultimately show ?thesis by blast
qed

definition installs ::
    "(cmd_vector vector \<Rightarrow> cmd_vector vector option) \<Rightarrow> (node_type \<Rightarrow> defun list option) \<Rightarrow> (node_type \<Rightarrow> defun list option) \<Rightarrow> bool" where
  "installs f T T' \<longleftrightarrow> (\<forall>v. modes_hold v (\<lambda>n. map_option (map element) (T n)) \<longrightarrow>
     (\<exists>v'. f v = Some v' \<and> modes_hold v' (\<lambda>n. map_option (map element) (T' n))))"

lemma installs_bind: "installs f T T' \<Longrightarrow> installs g T' T'' \<Longrightarrow> installs (\<lambda>v. do { v \<leftarrow> f v; g v }) T T''"
  by (fastforce simp: installs_def)

lemma installs_node:
  assumes "node_num n < 8"
  shows "installs (install_node n) T (T(n \<mapsto> []))"
proof -
  have "(\<lambda>m. map_option (map element) ((T(n \<mapsto> [])) m)) = (\<lambda>m. map_option (map element) (T m))(n \<mapsto> [])" by auto
  then show ?thesis using install_node_holds[OF _ assms] by (simp add: installs_def)
qed

lemma installs_list:
  assumes "\<forall>(n, d) \<in> set ds. T n \<noteq> None \<and> d \<in> set (mode_commands_of n)"
    and "\<And>n. T' n = map_option (\<lambda>xs. xs @ [d. (m, d) \<leftarrow> ds, m = n]) (T n)"
  shows "installs (install_all ds) T T'"
proof -
  have "map element [d. (m, d) \<leftarrow> ds, m = n] = [element d. (m, d) \<leftarrow> ds, m = n]" for n
    by (induction ds) auto
  then have e: "(\<lambda>n. map_option (map element) (T' n)) =
      (\<lambda>n. map_option (\<lambda>xs. xs @ [element d. (m, d) \<leftarrow> ds, m = n]) (map_option (map element) (T n)))"
    unfolding assms(2) by (simp add: option.map_comp comp_def fun_eq_iff)
  have made: "\<forall>(n, d) \<in> set ds. node_num n < 8 \<and> map_option (map element) (T n) \<noteq> None \<and> make_element d \<noteq> None"
    using assms(1) template_of(1) mode_commands_made mode_commands_node by fastforce
  show ?thesis
    unfolding installs_def e using install_all_holds[OF _ made] by blast
qed

definition mode_list :: "node_type \<Rightarrow> defun list option" where
  "mode_list n = (if n = DEBUG_NODE then None else Some (mode_commands_of n))"

lemma cmd_init_holds: "\<exists>v. cmd_init = Some v \<and> modes_hold v (\<lambda>n. map_option (map element) (mode_list n))"
proof -
  let ?T0 = "[USER_NODE \<mapsto> [], AUTH_NODE \<mapsto> [], AUTH_ENABLE_NODE \<mapsto> [], CHANGE_PASSWD_NODE \<mapsto> [],
     CHANGE_PASSWD_AGAIN_NODE \<mapsto> []] :: node_type \<Rightarrow> defun list option"
  let ?T1 = "?T0(VIEW_NODE \<mapsto> mode_commands_of VIEW_NODE)"
  let ?T2 = "?T1(ENABLE_NODE \<mapsto> take 10 (mode_commands_of ENABLE_NODE))"
  let ?T3 = "?T2(CONFIG_NODE \<mapsto> take 8 (mode_commands_of CONFIG_NODE))"
  let ?T4 = "?T3(ENABLE_NODE \<mapsto> take 22 (mode_commands_of ENABLE_NODE), CONFIG_NODE \<mapsto> mode_commands_of CONFIG_NODE)"
  let ?T5 = "?T4(ENABLE_NODE \<mapsto> take 27 (mode_commands_of ENABLE_NODE))"
  have v: "installs install_view_cmd ?T0 ?T1"
    unfolding install_view_cmd_def
    by (rule installs_bind[OF installs_node installs_list]) simp_all
  have e: "installs install_enable_cmd ?T1 ?T2"
    unfolding install_enable_cmd_def install_default_def
    by (rule installs_bind[OF installs_node installs_bind[OF installs_list[OF _ refl] installs_list]]) simp_all
  have c: "installs install_config_cmd ?T2 ?T3"
    unfolding install_config_cmd_def install_default_def
    by (rule installs_bind[OF installs_node installs_list]) simp_all
  have d: "installs install_dev_manage_cmd ?T3 ?T4"
    unfolding install_dev_manage_cmd_def by (rule installs_list) simp_all
  have u: "installs install_user_mng_cmd ?T4 ?T5"
    unfolding install_user_mng_cmd_def by (rule installs_list) simp_all
  have m: "installs install_vam_manage_cmd ?T5 mode_list"
  proof -
    have "mode_list n = map_option (\<lambda>xs. xs @ [d. (m, d) \<leftarrow> map (\<lambda>d. (ENABLE_NODE, d))
        [show_config_cmd, set_config_cmd, bsm_trigger_cmd, dbg_print_cmd], m = n]) (?T5 n)" for n
      by (cases n) (simp_all add: mode_list_def)
    then show ?thesis
      unfolding install_vam_manage_cmd_def by (rule installs_list[rotated]) simp
  qed
  have rest: "installs (\<lambda>v. do { v \<leftarrow> install_view_cmd v; v \<leftarrow> install_enable_cmd v; v \<leftarrow> install_config_cmd v;
      v \<leftarrow> install_dev_manage_cmd v; v \<leftarrow> install_user_mng_cmd v; install_vam_manage_cmd v }) ?T0 mode_list"
    by (rule installs_bind[OF v installs_bind[OF e installs_bind[OF c installs_bind[OF d installs_bind[OF u m]]]]])
  obtain w where w: "do { v \<leftarrow> install_node USER_NODE (vector_init 1); v \<leftarrow> install_node AUTH_NODE v;
     v \<leftarrow> install_node AUTH_ENABLE_NODE v; v \<leftarrow> install_node CHANGE_PASSWD_NODE v;
     install_node CHANGE_PASSWD_AGAIN_NODE v } = Some w" "modes_hold w (\<lambda>n. map_option (map element) (?T0 n))"
    using first_modes by (auto simp: if_distrib[of "map_option (map element)"] fun_upd_def cong: if_cong)
  have "cmd_init = do { v \<leftarrow> do { v \<leftarrow> install_node USER_NODE (vector_init 1); v \<leftarrow> install_node AUTH_NODE v;
     v \<leftarrow> install_node AUTH_ENABLE_NODE v; v \<leftarrow> install_node CHANGE_PASSWD_NODE v;
     install_node CHANGE_PASSWD_AGAIN_NODE v };
     v \<leftarrow> install_view_cmd v; v \<leftarrow> install_enable_cmd v; v \<leftarrow> install_config_cmd v;
     v \<leftarrow> install_dev_manage_cmd v; v \<leftarrow> install_user_mng_cmd v; install_vam_manage_cmd v }"
    by (simp only: cmd_init_def Option.bind_assoc)
  then have "cmd_init = do { v \<leftarrow> install_view_cmd w; v \<leftarrow> install_enable_cmd v; v \<leftarrow> install_config_cmd v;
     v \<leftarrow> install_dev_manage_cmd v; v \<leftarrow> install_user_mng_cmd v; install_vam_manage_cmd v }"
    unfolding w(1) by (simp only: Option.bind.simps)
  then show ?thesis using rest[unfolded installs_def, rule_format, OF w(2)] by simp
qed

text \<open>The commands of a mode when the program runs: those installed, in alphabetical order.\<close>

definition sorted_commands :: "node_type \<Rightarrow> cli_func cmd_element list" where
  "sorted_commands n =
     map sort_last_place (sort_key (\<lambda>e. map tolower (ce_string e)) (map element (mode_commands_of n)))"

lemma sort_commands_holds:
  assumes "vec_holds c xs"
  shows "\<exists>c'. sort_commands c = Some c' \<and>
    vector_slots c' = map (\<lambda>e. Some (sort_last_place e)) (sort_key (\<lambda>e. map tolower (ce_string e)) xs)"
proof -
  have "[e. Some e \<leftarrow> vector_slots c] = xs" "None \<notin> set (vector_slots c)" "vec_active c = length xs"
    using assms by (auto simp: vec_holds_def comp_def)
  then show ?thesis by (simp add: sort_commands_def) (simp add: vector_slots_def)
qed

lemma sort_nodes_map:
  "(\<And>c. Some c \<in> set cs \<Longrightarrow> sort_commands c \<noteq> None) \<Longrightarrow>
   sort_nodes cs = Some (map (map_option (\<lambda>c. the (sort_commands c))) cs)"
proof (induction cs)
  case (Cons c cs)
  have IH: "sort_nodes cs = Some (map (map_option (\<lambda>c. the (sort_commands c))) cs)" using Cons by simp
  show ?case
  proof (cases c)
    case (Some a)
    then obtain b where "sort_commands a = Some b" using Cons.prems[of a] by auto
    then show ?thesis using IH Some by simp
  qed (use IH in simp)
qed simp

lemma node_of_num: "i < 8 \<Longrightarrow> \<exists>n. n \<noteq> DEBUG_NODE \<and> node_num n = i"
proof -
  assume "i < 8"
  then have "i \<in> {0, 1, 2, 3, 4, 5, 6, 7}" by auto
  moreover have "{0, 1, 2, 3, 4, 5, 6, 7} = node_num ` {USER_NODE, AUTH_NODE, VIEW_NODE, AUTH_ENABLE_NODE, ENABLE_NODE,
      CONFIG_NODE, CHANGE_PASSWD_NODE, CHANGE_PASSWD_AGAIN_NODE}" by simp
  ultimately show ?thesis by auto
qed

lemma command_table_holds:
  "\<exists>v. command_table = Some v \<and> length (vec_index v) = 8 \<and>
     (\<forall>n. n \<noteq> DEBUG_NODE \<longrightarrow> (\<exists>c. vec_index v ! node_num n = Some c \<and> vector_slots c = map Some (sorted_commands n)))"
proof -
  obtain v where v: "cmd_init = Some v" "modes_hold v (\<lambda>n. map_option (map element) (mode_list n))"
    using cmd_init_holds by blast
  have l: "vector_slots v = vec_index v" "length (vec_index v) = 8" "vec_active v = 8"
    using v(2) by (auto simp: modes_hold_def vector_slots_def)
  have slot: "\<exists>c. vec_index v ! node_num n = Some c \<and> vec_holds c (map element (mode_commands_of n))"
    if "n \<noteq> DEBUG_NODE" for n
  proof -
    have "node_num n < 8" using that by (cases n) simp_all
    then show ?thesis using v(2) that by (auto simp: modes_hold_def mode_list_def split: option.splits)
  qed
  have "sort_commands c \<noteq> None" if c: "Some c \<in> set (vec_index v)" for c
  proof -
    obtain i where i: "i < 8" "vec_index v ! i = Some c" using c l(2) by (metis in_set_conv_nth)
    then obtain n where "n \<noteq> DEBUG_NODE" "node_num n = i" using node_of_num by blast
    then show ?thesis using slot sort_commands_holds i(2) by fastforce
  qed
  then have "sort_node v = Some (v\<lparr>vec_index := map (map_option (\<lambda>c. the (sort_commands c))) (vec_index v)\<rparr>)"
    using sort_nodes_map[of "vec_index v"] l by (simp add: sort_node_def)
  then have t: "command_table = Some (v\<lparr>vec_index := map (map_option (\<lambda>c. the (sort_commands c))) (vec_index v)\<rparr>)"
    unfolding command_table_def v(1) by simp
  have "\<exists>c. vec_index (v\<lparr>vec_index := map (map_option (\<lambda>c. the (sort_commands c))) (vec_index v)\<rparr>) ! node_num n = Some c \<and>
      vector_slots c = map Some (sorted_commands n)" if n: "n \<noteq> DEBUG_NODE" for n
  proof -
    have "node_num n < 8" using n by (cases n) simp_all
    then show ?thesis
      using slot[OF n] l sort_commands_holds by (fastforce simp: sorted_commands_def comp_def)
  qed
  then show ?thesis using t l(2) by auto
qed

theorem command_tables:
  "cmd_node_vector command_table n = (if n = DEBUG_NODE then None else Some (map Some (sorted_commands n)))"
proof -
  obtain v where v: "command_table = Some v" "length (vec_index v) = 8"
    "\<forall>n. n \<noteq> DEBUG_NODE \<longrightarrow> (\<exists>c. vec_index v ! node_num n = Some c \<and> vector_slots c = map Some (sorted_commands n))"
    using command_table_holds by blast
  have "node_num n < 8 \<longleftrightarrow> n \<noteq> DEBUG_NODE" by (cases n) simp_all
  then show ?thesis using v(2,3) unfolding cmd_node_vector_def v(1) by (auto simp: vector_slot_def)
qed

lemma debug_slot_outside: "vector_slot (the command_table) (node_num DEBUG_NODE) = None"
proof -
  obtain v where v: "command_table = Some v" "length (vec_index v) = 8" using command_table_holds by blast
  show ?thesis unfolding v(1) using v(2) by (simp add: vector_slot_def)
qed

end
