(* ===== verification/CliFind.thy ===== *)
theory CliFind
  imports CliTable
begin

text \<open>
  A command typed in full is the command that is found (\<open>cmd_execute_command_real\<close> of \<open>common/command.c\<close> under
  \<open>app/oam/agent/cli\<close>): when the templates of a mode differ at a keyword before they differ in the kind of a
  place, the filters leave the command and those that go on after it. The installed templates are of this kind.
\<close>

section \<open>Templates that can be told apart\<close>

definition keyword_place :: "string_c list \<Rightarrow> bool" where
  "keyword_place p \<longleftrightarrow> list_all (\<lambda>d. plain_place d \<and> \<not> CMD_VARIABLE d) p"

definition value_place :: "string_c list \<Rightarrow> bool" where
  "value_place p \<longleftrightarrow> (case p of [d] \<Rightarrow> CMD_VARIABLE d \<and> \<not> CMD_IPV4_PREFIX d | _ \<Rightarrow> False)"

definition common_keyword :: "string_c list \<Rightarrow> string_c list \<Rightarrow> bool" where
  "common_keyword p q \<longleftrightarrow> list_ex (\<lambda>d. list_ex (strcasecmp_eq d) q) p"

fun told_apart :: "string_c list list \<Rightarrow> string_c list list \<Rightarrow> bool" where
  "told_apart [] [] = False"
| "told_apart (p # ps) (q # qs) =
     (if keyword_place p \<and> keyword_place q then common_keyword p q \<longrightarrow> told_apart ps qs
      else p = q \<and> value_place p \<and> told_apart ps qs)"
| "told_apart _ _ = True"

text \<open>The words of a line spell a template: its keywords in letters of any case, and values its other places accept.\<close>

definition spelled_place :: "string_c \<Rightarrow> string_c list \<Rightarrow> bool" where
  "spelled_place w p \<longleftrightarrow> keyword_place p \<and> list_ex (strcasecmp_eq w) p \<or> value_place p \<and> matches w p"

definition spelled :: "string_c list \<Rightarrow> 'f cmd_element \<Rightarrow> bool" where
  "spelled ws e \<longleftrightarrow> list_all2 spelled_place ws (ce_strvec e)"

section \<open>One word\<close>

lemma strcasecmp_eq_abbreviates: "strcasecmp_eq w d \<Longrightarrow> abbreviates w d"
proof -
  assume "strcasecmp_eq w d"
  then have e: "map tolower w = map tolower d" by (simp only: strcasecmp_eq_def)
  then have "length w = length d" by (rule map_eq_imp_length_eq)
  then show ?thesis unfolding abbreviates_def e by simp
qed

lemma place_match_keyword:
  assumes "plain_place d" "\<not> CMD_VARIABLE d"
  shows "place_match w d = Some (if abbreviates w d then if strcasecmp_eq w d then exact_match else partly_match else no_match)"
proof -
  have "\<not> CMD_RANGE d" "\<not> CMD_IPV4 d" "\<not> CMD_IPV4_PREFIX d"
    using assms(2) by (auto simp: CMD_VARIABLE_def CMD_RANGE_def CMD_IPV4_def CMD_IPV4_PREFIX_def)
  then show ?thesis using assms by (simp add: place_match_def plain_place_def)
qed

lemma places_match_keyword:
  assumes "keyword_place p"
  shows "\<exists>m. places_match w p = Some m \<and> m \<in> {no_match, partly_match, exact_match} \<and>
    (m = exact_match \<longleftrightarrow> list_ex (strcasecmp_eq w) p)"
  using assms
proof (induction p)
  case (Cons d p)
  then obtain n where n: "places_match w p = Some n" "n \<in> {no_match, partly_match, exact_match}"
    "n = exact_match \<longleftrightarrow> list_ex (strcasecmp_eq w) p"
    by (auto simp: keyword_place_def)
  show ?case
    using n Cons.prems strcasecmp_eq_abbreviates[of w d]
    by (auto simp: keyword_place_def place_match_keyword max_def less_eq_match_type_def)
qed (simp add: keyword_place_def)

lemma value_place_match:
  assumes "value_place [d]" "matches w [d]"
  obtains k where "place_match w d = Some k" "k \<in> {range_match, ipv4_match, extend_match}" "k \<noteq> no_match"
    "places_match w [d] = Some k" "k = range_match \<Longrightarrow> cmd_range_match d w" "k = ipv4_match \<Longrightarrow> CMD_IPV4 d"
proof -
  have v: "CMD_VARIABLE d" "\<not> CMD_IPV4_PREFIX d" "\<not> CMD_VARARG d" "\<not> CMD_MULTI d"
    using assms(1) by (auto simp: value_place_def CMD_VARIABLE_def CMD_VARARG_def CMD_MULTI_def)
  obtain m where m: "places_match w [d] = Some m" "m \<noteq> no_match" using assms(2) by (auto simp: matches_def)
  then obtain k where k: "place_match w d = Some k" by (auto split: bind_splits)
  then have "m = max k no_match" using m by simp
  then have "m = k" by (simp add: max_def less_eq_match_type_def) (cases k; simp)
  moreover have "k \<in> {range_match, ipv4_match, extend_match, no_match}" "k = range_match \<Longrightarrow> cmd_range_match d w"
    "k = ipv4_match \<Longrightarrow> CMD_IPV4 d"
    using k v by (auto simp: place_match_def split: if_splits)
  ultimately show ?thesis using that k m by blast
qed

section \<open>All commands of a table\<close>

definition keep_slot :: "('a \<Rightarrow> bool) \<Rightarrow> 'a option \<Rightarrow> 'a option" where
  "keep_slot P s = (case s of Some e \<Rightarrow> if P e then Some e else None | None \<Rightarrow> None)"

lemma keep_simps [simp]: "keep_slot P None = None" "keep_slot P (Some e) = (if P e then Some e else None)"
  by (simp_all add: keep_slot_def)

lemma keep_mem: "Some e \<in> set (map (keep_slot P) v) \<longleftrightarrow> Some e \<in> set v \<and> P e"
  by (induction v) (auto simp: keep_slot_def split: option.splits)

lemma plain_table_keep: "plain_table v \<Longrightarrow> plain_table (map (keep_slot P) v)"
  unfolding plain_table_def keep_mem by blast

lemma keep_keep: "map (keep_slot Q) (map (keep_slot P) v) = map (keep_slot (\<lambda>e. P e \<and> Q e)) v"
  by (induction v) (auto simp: keep_slot_def split: option.splits)

lemma keep_distinct: "distinct [e. Some e \<leftarrow> v] \<Longrightarrow> distinct [e. Some e \<leftarrow> map (keep_slot P) v]"
proof (induction v)
  case (Cons a v)
  have "set [e. Some e \<leftarrow> map (keep_slot P) v] \<subseteq> set [e. Some e \<leftarrow> v]"
    by (induction v) (auto simp: keep_slot_def split: option.splits)
  then show ?case using Cons by (cases a) auto
qed simp

lemma filter_result:
  assumes "plain_table v"
  shows "\<exists>m. cmd_filter_by_completion w i v =
      Some (m, map (keep_slot (\<lambda>e. i < length (ce_strvec e) \<and> matches w (ce_strvec e ! i))) v) \<and>
    (\<forall>e k. Some e \<in> set v \<longrightarrow> i < length (ce_strvec e) \<longrightarrow> places_match w (ce_strvec e ! i) = Some k \<longrightarrow> k \<le> m) \<and>
    (m \<noteq> no_match \<longrightarrow> (\<exists>e. Some e \<in> set v \<and> i < length (ce_strvec e) \<and> places_match w (ce_strvec e ! i) = Some m))"
  using assms
proof (induction v)
  case (Cons a v)
  then obtain m where IH: "cmd_filter_by_completion w i v =
      Some (m, map (keep_slot (\<lambda>e. i < length (ce_strvec e) \<and> matches w (ce_strvec e ! i))) v)"
    "\<forall>e k. Some e \<in> set v \<longrightarrow> i < length (ce_strvec e) \<longrightarrow> places_match w (ce_strvec e ! i) = Some k \<longrightarrow> k \<le> m"
    "m \<noteq> no_match \<longrightarrow> (\<exists>e. Some e \<in> set v \<and> i < length (ce_strvec e) \<and> places_match w (ce_strvec e ! i) = Some m)"
    by (cases a) auto
  show ?case
  proof (cases "\<exists>e. a = Some e \<and> i < length (ce_strvec e)")
    case False
    then show ?thesis using IH by (intro exI[of _ m]) (cases a; auto)
  next
    case True
    then obtain e where e: "a = Some e" "i < length (ce_strvec e)" by blast
    have "list_all plain_place (ce_strvec e ! i)"
      using Cons.prems e by (auto simp: plain_element_def list_all_length)
    then obtain k where k: "places_match w (ce_strvec e ! i) = Some k" using places_match_plain by blast
    have f: "cmd_filter_by_completion w i (a # v) =
        Some (max k m, map (keep_slot (\<lambda>e. i < length (ce_strvec e) \<and> matches w (ce_strvec e ! i))) (a # v))"
      using IH(1) e k by (auto simp: matches_def)
    have u: "\<forall>e' k'. Some e' \<in> set (a # v) \<longrightarrow> i < length (ce_strvec e') \<longrightarrow>
        places_match w (ce_strvec e' ! i) = Some k' \<longrightarrow> k' \<le> max k m"
      using IH(2) e k by (auto simp: le_max_iff_disj)
    have x: "max k m \<noteq> no_match \<longrightarrow> (\<exists>e. Some e \<in> set (a # v) \<and> i < length (ce_strvec e) \<and>
        places_match w (ce_strvec e ! i) = Some (max k m))"
      using IH(3) e k by (cases "k \<le> m") (auto simp: max_def less_eq_match_type_def)
    show ?thesis using f u x by blast
  qed
qed simp

lemma plain_table_tl: "plain_table (a # v) \<Longrightarrow> plain_table v"
  by (simp add: plain_table_def)

lemma ambiguous_places_exact:
  "list_all plain_place ds \<Longrightarrow>
   \<exists>n'. ambiguous_places w exact_match ds m n = Some (Same_place m n') \<and>
     (n' = 0 \<longleftrightarrow> n = 0 \<and> \<not> list_ex (\<lambda>d. \<not> CMD_VARIABLE d \<and> strcasecmp_eq w d) ds)"
proof (induction ds arbitrary: n)
  case (Cons d ds)
  have "ambiguous_place w exact_match d m n =
      Some (Same_place m (if \<not> CMD_VARIABLE d \<and> strcasecmp_eq w d then n + 1 else n))"
    using Cons.prems by (simp add: ambiguous_place_def plain_place_def)
  then show ?case
    using Cons.IH[of "if \<not> CMD_VARIABLE d \<and> strcasecmp_eq w d then n + 1 else n"] Cons.prems by auto
qed simp

lemma ambiguous_loop_exact:
  "plain_table v \<Longrightarrow> (\<And>e. Some e \<in> set v \<Longrightarrow> i < length (ce_strvec e)) \<Longrightarrow>
   ambiguous_loop w i exact_match m v =
     Some (0, map (keep_slot (\<lambda>e. list_ex (\<lambda>d. \<not> CMD_VARIABLE d \<and> strcasecmp_eq w d) (ce_strvec e ! i))) v)"
proof (induction v)
  case (Cons a v)
  show ?case
  proof (cases a)
    case None
    then show ?thesis using Cons by simp
  next
    case (Some e)
    have "list_all plain_place (ce_strvec e ! i)"
      using Cons.prems(1) Cons.prems(2)[of e] Some by (auto simp: plain_element_def list_all_length)
    from ambiguous_places_exact[OF this, of w m 0] obtain n' where
      n': "ambiguous_places w exact_match (ce_strvec e ! i) m 0 = Some (Same_place m n')"
      "n' = 0 \<longleftrightarrow> \<not> list_ex (\<lambda>d. \<not> CMD_VARIABLE d \<and> strcasecmp_eq w d) (ce_strvec e ! i)" by auto
    have "ambiguous_loop w i exact_match m v =
     Some (0, map (keep_slot (\<lambda>e. list_ex (\<lambda>d. \<not> CMD_VARIABLE d \<and> strcasecmp_eq w d) (ce_strvec e ! i))) v)"
      using Cons.prems plain_table_tl by (intro Cons.IH) auto
    then show ?thesis using Some n' by simp
  qed
qed simp

lemma ambiguous_loop_value:
  assumes "k \<in> {range_match, ipv4_match, extend_match}" "CMD_VARIABLE d" "k = range_match \<Longrightarrow> cmd_range_match d w"
    "k = ipv4_match \<Longrightarrow> CMD_IPV4 d"
  shows "(\<And>e. Some e \<in> set v \<Longrightarrow> ce_strvec e ! i = [d]) \<Longrightarrow> m = None \<or> m = Some d \<Longrightarrow> ambiguous_loop w i k m v = Some (0, v)"
proof (induction v arbitrary: m)
  case (Cons a v)
  show ?case
  proof (cases a)
    case None
    then show ?thesis using Cons by simp
  next
    case (Some e)
    have "\<exists>m'. ambiguous_place w k d m 0 = Some (Same_place m' 1) \<and> (m' = None \<or> m' = Some d)"
      using assms Cons.prems(2) by (auto simp: ambiguous_place_def strcasecmp_eq_def)
    then obtain m' where m': "ambiguous_places w k (ce_strvec e ! i) m 0 = Some (Same_place m' 1)" "m' = None \<or> m' = Some d"
      using Cons.prems(1)[of e] Some by auto
    have "ambiguous_loop w i k m' v = Some (0, v)" using Cons.prems(1) m'(2) by (intro Cons.IH) auto
    then show ?thesis using Some m'(1) by simp
  qed
qed simp

section \<open>A line typed in full\<close>

text \<open>The command \<open>e\<close> is left after \<open>i\<close> words, with others that can be told apart by the places behind them.\<close>

definition on_track :: "nat \<Rightarrow> 'f cmd_element \<Rightarrow> 'f cmd_element option list \<Rightarrow> bool" where
  "on_track i e v \<longleftrightarrow> plain_table v \<and> distinct [e'. Some e' \<leftarrow> v] \<and> Some e \<in> set v \<and>
     (\<forall>e'. Some e' \<in> set v \<longrightarrow> e' \<noteq> e \<longrightarrow> told_apart (drop i (ce_strvec e)) (drop i (ce_strvec e')))"

lemma on_track_keep:
  assumes "on_track i e v" "P e"
    and "\<And>e'. Some e' \<in> set v \<Longrightarrow> e' \<noteq> e \<Longrightarrow> P e' \<Longrightarrow> told_apart (drop (i + 1) (ce_strvec e)) (drop (i + 1) (ce_strvec e'))"
  shows "on_track (i + 1) e (map (keep_slot P) v)"
  using assms keep_distinct[of v P] unfolding on_track_def keep_mem plain_table_def by blast

lemma told_apart_step:
  assumes "told_apart (drop i ps) (drop i qs)" "i < length ps" "i < length qs"
  shows "if keyword_place (ps ! i) \<and> keyword_place (qs ! i)
    then common_keyword (ps ! i) (qs ! i) \<longrightarrow> told_apart (drop (i + 1) ps) (drop (i + 1) qs)
    else ps ! i = qs ! i \<and> value_place (ps ! i) \<and> told_apart (drop (i + 1) ps) (drop (i + 1) qs)"
  using assms by (simp add: Cons_nth_drop_Suc[symmetric])

lemma value_not_keyword: "value_place p \<Longrightarrow> \<not> keyword_place p"
  by (auto simp: value_place_def keyword_place_def split: list.splits)

lemma common_keyword_word: "list_ex (strcasecmp_eq w) p \<Longrightarrow> list_ex (strcasecmp_eq w) q \<Longrightarrow> common_keyword p q"
  unfolding common_keyword_def list_ex_iff strcasecmp_eq_def by metis

lemma keyword_step:
  assumes t: "on_track i e v" and i: "i < length (ce_strvec e)"
    and p: "keyword_place (ce_strvec e ! i)" "list_ex (strcasecmp_eq w) (ce_strvec e ! i)"
  shows "\<exists>v1 v2. cmd_filter_by_completion w i v = Some (exact_match, v1) \<and>
    is_cmd_ambiguous w i exact_match v1 = Some (0, v2) \<and> on_track (i + 1) e v2"
proof -
  have plain: "plain_table v" and e: "Some e \<in> set v" using t by (auto simp: on_track_def)
  let ?M = "\<lambda>e. i < length (ce_strvec e) \<and> matches w (ce_strvec e ! i)"
  let ?X = "\<lambda>e. list_ex (\<lambda>d. \<not> CMD_VARIABLE d \<and> strcasecmp_eq w d) (ce_strvec e ! i)"
  obtain m where m: "cmd_filter_by_completion w i v = Some (m, map (keep_slot ?M) v)"
    "\<And>e k. Some e \<in> set v \<Longrightarrow> i < length (ce_strvec e) \<Longrightarrow> places_match w (ce_strvec e ! i) = Some k \<Longrightarrow> k \<le> m"
    using filter_result[OF plain, of w i] by (elim exE conjE) blast
  have x: "places_match w (ce_strvec e ! i) = Some exact_match" using places_match_keyword[OF p(1), of w] p(2) by auto
  then have "exact_match \<le> m" by (rule m(2)[OF e i])
  then have m': "m = exact_match" by (cases m) (simp_all add: less_eq_match_type_def)
  have "is_cmd_ambiguous w i exact_match (map (keep_slot ?M) v) = Some (0, map (keep_slot ?X) (map (keep_slot ?M) v))"
    unfolding is_cmd_ambiguous_def
    by (rule ambiguous_loop_exact[OF plain_table_keep[OF plain]]) (simp only: keep_mem)
  then have a: "is_cmd_ambiguous w i exact_match (map (keep_slot ?M) v) = Some (0, map (keep_slot (\<lambda>e. ?M e \<and> ?X e)) v)"
    unfolding keep_keep .
  have ex: "?X e" using p by (auto simp: keyword_place_def list_ex_iff list_all_iff)
  have "on_track (i + 1) e (map (keep_slot (\<lambda>e. ?M e \<and> ?X e)) v)"
  proof (rule on_track_keep[OF t])
    show "?M e \<and> ?X e" using i x ex by (simp add: matches_def)
  next
    fix e'
    assume e': "Some e' \<in> set v" "e' \<noteq> e" "?M e' \<and> ?X e'"
    have s: "told_apart (drop i (ce_strvec e)) (drop i (ce_strvec e'))" using t e' by (auto simp: on_track_def)
    have "list_ex (strcasecmp_eq w) (ce_strvec e' ! i)" using e'(3) by (auto simp: list_ex_iff)
    then show "told_apart (drop (i + 1) (ce_strvec e)) (drop (i + 1) (ce_strvec e'))"
      using told_apart_step[OF s i] e'(3) p value_not_keyword common_keyword_word by (auto split: if_splits)
  qed
  then show ?thesis using m(1) m' a by blast
qed

lemma value_step:
  assumes t: "on_track i e v" and i: "i < length (ce_strvec e)"
    and p: "value_place (ce_strvec e ! i)" "matches w (ce_strvec e ! i)"
  shows "\<exists>k v1. k \<noteq> vararg_match \<and> cmd_filter_by_completion w i v = Some (k, v1) \<and>
    is_cmd_ambiguous w i k v1 = Some (0, v1) \<and> on_track (i + 1) e v1"
proof -
  have plain: "plain_table v" and e: "Some e \<in> set v" using t by (auto simp: on_track_def)
  obtain d where d: "ce_strvec e ! i = [d]" "CMD_VARIABLE d" using p(1) by (auto simp: value_place_def split: list.splits)
  obtain k where k: "k \<in> {range_match, ipv4_match, extend_match}" "k \<noteq> no_match" "places_match w [d] = Some k"
    "k = range_match \<Longrightarrow> cmd_range_match d w" "k = ipv4_match \<Longrightarrow> CMD_IPV4 d"
    using value_place_match[of d w] p d(1) by metis
  let ?M = "\<lambda>e. i < length (ce_strvec e) \<and> matches w (ce_strvec e ! i)"
  obtain m where m: "cmd_filter_by_completion w i v = Some (m, map (keep_slot ?M) v)"
    "\<And>e k. Some e \<in> set v \<Longrightarrow> i < length (ce_strvec e) \<Longrightarrow> places_match w (ce_strvec e ! i) = Some k \<Longrightarrow> k \<le> m"
    "m \<noteq> no_match \<Longrightarrow> \<exists>e. Some e \<in> set v \<and> i < length (ce_strvec e) \<and> places_match w (ce_strvec e ! i) = Some m"
    using filter_result[OF plain, of w i] by blast
  have same: "ce_strvec e' ! i = [d] \<and> told_apart (drop (i + 1) (ce_strvec e)) (drop (i + 1) (ce_strvec e'))"
    if e': "Some e' \<in> set v" "e' \<noteq> e" "i < length (ce_strvec e')" for e'
  proof -
    have "told_apart (drop i (ce_strvec e)) (drop i (ce_strvec e'))" using t e' by (auto simp: on_track_def)
    from told_apart_step[OF this i e'(3)] show ?thesis using value_not_keyword[OF p(1)] d(1) by simp
  qed
  then have places: "ce_strvec e' ! i = [d]" if "Some e' \<in> set v" "i < length (ce_strvec e')" for e'
    using that d(1) by (cases "e' = e") auto
  have "k \<le> m" using m(2)[OF e i] k(3) d(1) by simp
  then have "m \<noteq> no_match" using k(2) by (cases k) (auto simp: less_eq_match_type_def)
  then obtain e' where "Some e' \<in> set v" "i < length (ce_strvec e')" "places_match w (ce_strvec e' ! i) = Some m"
    using m(3) by blast
  then have mk: "m = k" using places k(3) by simp
  have kept: "ce_strvec e' ! i = [d]" if "Some e' \<in> set (map (keep_slot ?M) v)" for e'
    using that places unfolding keep_mem by blast
  have a: "is_cmd_ambiguous w i k (map (keep_slot ?M) v) = Some (0, map (keep_slot ?M) v)"
    unfolding is_cmd_ambiguous_def by (rule ambiguous_loop_value[OF k(1) d(2) k(4,5) kept disjI1[OF refl]])
  have "on_track (i + 1) e (map (keep_slot ?M) v)"
    by (rule on_track_keep[OF t]) (use same i p(2) in auto)
  then show ?thesis using m(1) mk a k(1) by (intro exI[of _ k]) auto
qed

lemma match_words_spelled:
  "on_track i e v \<Longrightarrow> list_all2 spelled_place ws (drop i (ce_strvec e)) \<Longrightarrow> k \<noteq> vararg_match \<Longrightarrow>
   \<exists>k' v'. match_words i k ws v = Some (Inr (k', i + length ws, v')) \<and> k' \<noteq> vararg_match \<and> on_track (i + length ws) e v'"
proof (induction ws arbitrary: i v k)
  case (Cons w ws)
  have "drop i (ce_strvec e) \<noteq> []" using Cons.prems(2) by auto
  then have i: "i < length (ce_strvec e)" by simp
  then have p: "spelled_place w (ce_strvec e ! i)" "list_all2 spelled_place ws (drop (i + 1) (ce_strvec e))"
    using Cons.prems(2) by (simp_all add: Cons_nth_drop_Suc[symmetric])
  have "\<exists>m v1 v2. m \<noteq> vararg_match \<and> cmd_filter_by_completion w i v = Some (m, v1) \<and>
      is_cmd_ambiguous w i m v1 = Some (0, v2) \<and> on_track (i + 1) e v2"
    using p(1) unfolding spelled_place_def
  proof
    assume "keyword_place (ce_strvec e ! i) \<and> list_ex (strcasecmp_eq w) (ce_strvec e ! i)"
    then show ?thesis using keyword_step[OF Cons.prems(1) i, of w] by (intro exI[of _ exact_match]) simp
  next
    assume "value_place (ce_strvec e ! i) \<and> matches w (ce_strvec e ! i)"
    then show ?thesis using value_step[OF Cons.prems(1) i, of w] by blast
  qed
  then obtain m v1 v2 where m: "m \<noteq> vararg_match" "cmd_filter_by_completion w i v = Some (m, v1)"
    "is_cmd_ambiguous w i m v1 = Some (0, v2)" "on_track (i + 1) e v2" by blast
  then have "match_words i k (w # ws) v = match_words (i + 1) m ws v2" by simp
  then show ?case using Cons.IH[OF m(4) p(2) m(1)] by simp
qed simp

lemma told_apart_Nil: "told_apart [] qs \<Longrightarrow> qs \<noteq> []"
  by (cases qs) auto

lemma only_element: "distinct xs \<Longrightarrow> x \<in> set xs \<Longrightarrow> P x \<Longrightarrow> (\<And>y. y \<in> set xs \<Longrightarrow> y \<noteq> x \<Longrightarrow> \<not> P y) \<Longrightarrow> filter P xs = [x]"
proof (induction xs)
  case (Cons a xs)
  then show ?case
  proof (cases "a = x")
    case True
    then have "filter P xs = []" using Cons.prems unfolding filter_empty_conv by auto
    then show ?thesis using True Cons.prems(3) by simp
  qed auto
qed simp

theorem find_command_spelled:
  assumes "on_track 0 e v" "spelled ws e" "ce_level e \<le> priority"
  shows "find_command priority ws v = Some (Inr (e, args_of (ce_strvec e) ws))"
proof -
  obtain k v' where r: "match_words 0 no_match ws v = Some (Inr (k, length ws, v'))" "k \<noteq> vararg_match"
    "on_track (length ws) e v'"
    using match_words_spelled[OF assms(1), of ws no_match] assms(2) by (auto simp: spelled_def)
  have l: "length ws = length (ce_strvec e)" using assms(2) by (simp add: spelled_def list_all2_lengthD)
  have t: "distinct [e'. Some e' \<leftarrow> v']" "e \<in> set [e'. Some e' \<leftarrow> v']" "plain_element e"
    and others: "\<And>e'. Some e' \<in> set v' \<Longrightarrow> e' \<noteq> e \<Longrightarrow> plain_element e' \<and> length ws < length (ce_strvec e')"
    using r(3) told_apart_Nil l by (force simp: on_track_def plain_table_def)+
  have "filter (\<lambda>e'. k = vararg_match \<or> length ws \<ge> ce_cmdsize e') [e'. Some e' \<leftarrow> v'] = [e]"
    using t l r(2) others plain_cmdsize by (intro only_element) (fastforce split: option.splits)+
  moreover have "collect_args False (ce_strvec e) ws [] = Some (Inr (args_of (ce_strvec e) ws))"
    using collect_args_plain[of "ce_strvec e" ws "[]"] t(3) l by (simp add: plain_element_def)
  ultimately show ?thesis using r(1) assms(3) by (simp add: find_command_def Let_def)
qed

section \<open>The installed commands\<close>

text \<open>The words of the templates: keywords in small letters, and names of values.\<close>

definition value_words :: "string list" where
  "value_words = [''<1-65535>'', ''A.B.C.D'', ''<1-60>'', ''<0-4096>'', ''USERNAME'', ''PASSWORD'', ''<1-15>'',
      ''<10-3000>'']"

definition keyword_words :: "string list" where
  "keyword_words =
     [''config'', ''enable'', ''disable'', ''exit'', ''quit'', ''end'', ''history'', ''terminal'',
      ''time-out'', ''clear'', ''help'', ''debug-hide'', ''0906'', ''list'', ''language'', ''english'',
      ''chinese'', ''reboot'', ''show'', ''information'', ''parameter'', ''version'', ''write'',
      ''password'', ''ping'', ''waittime'', ''size'', ''count'', ''user'', ''name'', ''privilege'',
      ''no'', ''username'', ''all'', ''vam'', ''wnet'', ''bsm'', ''set'', ''bsm_cast'', ''stop'',
      ''start'', ''dbg_print'', ''wnet_rx'', ''gps'']"

lemma value_words_places: "s \<in> set value_words \<Longrightarrow> value_place [chars s] \<and> plain_place (chars s) \<and> \<not> keyword_place [chars s]"
proof -
  have "\<forall>s \<in> set value_words. value_place [chars s] \<and> plain_place (chars s)"
    by (simp add: value_words_def value_place_def plain_place_def place_defs chars_def)
  then show "s \<in> set value_words \<Longrightarrow> value_place [chars s] \<and> plain_place (chars s) \<and> \<not> keyword_place [chars s]"
    using value_not_keyword by blast
qed

lemma keyword_words_places:
  "s \<in> set keyword_words \<Longrightarrow> plain_place (chars s) \<and> \<not> CMD_VARIABLE (chars s) \<and> map tolower (chars s) = chars s"
proof -
  have "\<forall>s \<in> set keyword_words. plain_place (chars s) \<and> \<not> CMD_VARIABLE (chars s) \<and> map tolower (chars s) = chars s"
    by (simp add: keyword_words_def plain_place_def place_defs chars_def tolower_def)
  then show "s \<in> set keyword_words \<Longrightarrow>
      plain_place (chars s) \<and> \<not> CMD_VARIABLE (chars s) \<and> map tolower (chars s) = chars s" by blast
qed

text \<open>A place has one name of a value or only keywords.\<close>

definition value_text :: "string list \<Rightarrow> bool" where
  "value_text p \<longleftrightarrow> length p = 1 \<and> hd p \<in> set value_words"

definition keyword_text :: "string list \<Rightarrow> bool" where
  "keyword_text p \<longleftrightarrow> list_all (\<lambda>s. s \<in> set keyword_words) p"

lemma template_texts: "(d, t) \<in> set templates \<Longrightarrow> length t < 25 \<and> list_all (\<lambda>p. value_text p \<or> keyword_text p) t"
proof -
  have "\<forall>(d, t) \<in> set templates. length t < 25 \<and> list_all (\<lambda>p. value_text p \<or> keyword_text p) t"
    by (simp add: templates_def value_text_def keyword_text_def value_words_def keyword_words_def)
  then show "(d, t) \<in> set templates \<Longrightarrow> length t < 25 \<and> list_all (\<lambda>p. value_text p \<or> keyword_text p) t" by blast
qed

lemma of_char_byte: "(of_char c :: u8) = of_char d \<longleftrightarrow> c = d"
proof
  assume e: "(of_char c :: u8) = of_char d"
  have "unat (of_char c :: u8) = of_char c" for c
  proof -
    have "unat (word_of_nat n :: u8) = n" if "n < 256" for n
      using that by (simp add: unsigned_of_nat take_bit_nat_eq_self)
    from this[OF nat_of_char_less_256, of c] show ?thesis by (simp only: of_nat_of_char)
  qed
  then have "(of_char c :: nat) = of_char d" using e by metis
  then show "c = d" by simp
qed simp

lemma chars_inj: "chars s = chars t \<longleftrightarrow> s = t"
  by (induction s arbitrary: t) (auto simp: chars_def of_char_byte Cons_eq_map_conv)

fun texts_apart :: "string list list \<Rightarrow> string list list \<Rightarrow> bool" where
  "texts_apart [] [] = False"
| "texts_apart (p # ps) (q # qs) =
     (if value_text p \<or> value_text q then p = q \<and> texts_apart ps qs
      else list_ex (\<lambda>s. s \<in> set q) p \<longrightarrow> texts_apart ps qs)"
| "texts_apart _ _ = True"

lemma keyword_text_place: "keyword_text p \<Longrightarrow> keyword_place (map chars p)"
  using keyword_words_places by (auto simp: keyword_text_def keyword_place_def list_all_iff)

lemma value_text_place: "value_text p \<Longrightarrow> value_place (map chars p)"
  using value_words_places by (cases p) (auto simp: value_text_def)

lemma common_text:
  "keyword_text p \<Longrightarrow> keyword_text q \<Longrightarrow> common_keyword (map chars p) (map chars q) \<longleftrightarrow> list_ex (\<lambda>s. s \<in> set q) p"
  using keyword_words_places
  by (fastforce simp: common_keyword_def strcasecmp_eq_def keyword_text_def list_ex_iff list_all_iff chars_inj)

lemma texts_told_apart:
  "list_all (\<lambda>p. value_text p \<or> keyword_text p) ps \<Longrightarrow> list_all (\<lambda>p. value_text p \<or> keyword_text p) qs \<Longrightarrow>
   texts_apart ps qs \<Longrightarrow> told_apart (map (map chars) ps) (map (map chars) qs)"
proof (induction ps qs rule: texts_apart.induct)
  case (2 p ps q qs)
  show ?case
  proof (cases "value_text p \<or> value_text q")
    case True
    then have "p = q" "value_text p" "texts_apart ps qs" using 2 by auto
    then show ?thesis using 2 True value_text_place[of p] value_not_keyword by auto
  next
    case False
    then have k: "keyword_text p" "keyword_text q" using 2 by auto
    then show ?thesis using 2 False keyword_text_place common_text[OF k] by auto
  qed
qed simp_all

lemma templates_apart:
  "list_all (\<lambda>(d, t). list_all (\<lambda>(d', t'). t = t' \<or> texts_apart t t') templates) templates"
  by code_simp

text \<open>Sorting the words of the last place changes nothing that matters here.\<close>

definition same_place :: "string_c list \<Rightarrow> string_c list \<Rightarrow> bool" where
  "same_place p q \<longleftrightarrow> set p = set q \<and> length p = length q"

lemma same_place_kind:
  assumes "same_place p q"
  shows "keyword_place p = keyword_place q" "value_place p = value_place q" "value_place p \<Longrightarrow> p = q"
proof -
  have set: "set p = set q" "length p = length q" using assms by (simp_all add: same_place_def)
  then show "keyword_place p = keyword_place q" by (simp add: keyword_place_def list_all_iff)
  have single: "p = q" if l: "length p = 1"
  proof -
    obtain x y where "p = [x]" "q = [y]" using l set(2) by (metis length_0_conv length_Suc_conv One_nat_def)
    then show ?thesis using set(1) by simp
  qed
  have len: "value_place r \<Longrightarrow> length r = 1" for r by (auto simp: value_place_def split: list.splits)
  show "value_place p = value_place q" using single len[of p] len[of q] set(2) by metis
  show "value_place p \<Longrightarrow> p = q" using single len[of p] by blast
qed

lemma told_apart_same:
  "told_apart ps qs \<Longrightarrow> list_all2 same_place ps ps' \<Longrightarrow> list_all2 same_place qs qs' \<Longrightarrow> told_apart ps' qs'"
proof (induction ps qs arbitrary: ps' qs' rule: told_apart.induct)
  case (2 p ps q qs)
  obtain p' ps2 where p: "ps' = p' # ps2" "same_place p p'" "list_all2 same_place ps ps2"
    using 2 by (auto simp: list_all2_Cons1)
  obtain q' qs2 where q: "qs' = q' # qs2" "same_place q q'" "list_all2 same_place qs qs2"
    using 2 by (auto simp: list_all2_Cons1)
  have c: "common_keyword p q = common_keyword p' q'"
    using p(2) q(2) by (simp add: common_keyword_def list_ex_iff same_place_def)
  note kp = same_place_kind[OF p(2)] and kq = same_place_kind[OF q(2)]
  show ?case
  proof (cases "keyword_place p \<and> keyword_place q")
    case True
    then have "common_keyword p q \<Longrightarrow> told_apart ps2 qs2" using "2.IH"(1)[OF True _ _ p(3) q(3)] "2.prems"(1) by simp
    then show ?thesis using True c kp(1) kq(1) unfolding p(1) q(1) by simp
  next
    case False
    then have v: "p = q" "value_place p" "told_apart ps qs" using "2.prems"(1) by simp_all
    then have "told_apart ps2 qs2" using "2.IH"(2)[OF False _ p(3) q(3)] by blast
    moreover have "p' = q'" "value_place p'" using kp(2,3) kq(3) v by simp_all
    moreover have "\<not> (keyword_place p' \<and> keyword_place q')" using False kp(1) kq(1) by simp
    ultimately show ?thesis unfolding p(1) q(1) by simp
  qed
qed (auto simp: list_all2_Cons1)

lemma sort_last_place_same: "list_all2 same_place (ce_strvec e) (ce_strvec (sort_last_place e))"
proof (cases "ce_strvec e = []")
  case False
  have "list_all2 same_place (butlast (ce_strvec e) @ [last (ce_strvec e)])
      (butlast (ce_strvec e) @ [sort (last (ce_strvec e))])"
    by (intro list_all2_appendI list_all2_refl) (simp_all add: same_place_def)
  then show ?thesis using False by (simp add: sort_last_place_def)
qed (simp add: sort_last_place_def)

lemma sort_last_place_fields [simp]:
  "ce_func (sort_last_place e) = ce_func e" "ce_level (sort_last_place e) = ce_level e"
  "ce_string (sort_last_place e) = ce_string e"
  by (simp_all add: sort_last_place_def)

lemma sorted_command_iff: "e \<in> set (sorted_commands n) \<longleftrightarrow> (\<exists>d \<in> set (mode_commands_of n). e = sort_last_place (element d))"
  by (auto simp: sorted_commands_def)

lemma sorted_command_template:
  assumes "e \<in> set (sorted_commands n)"
  obtains d t where "d \<in> set (mode_commands_of n)" "(d, t) \<in> set templates" "e = sort_last_place (element d)"
    "list_all2 same_place (map (map chars) t) (ce_strvec e)" "ce_func e = fst (snd d)" "ce_level e = fst (snd (snd d))"
    "ce_string e = chars (fst d)"
proof -
  obtain d where d: "d \<in> set (mode_commands_of n)" "e = sort_last_place (element d)"
    using assms sorted_command_iff by blast
  then obtain t where t: "(d, t) \<in> set templates" using mode_commands_made by fastforce
  show ?thesis
    using that[OF d(1) t d(2)] template_of[OF t] element_fields[OF template_of(1)[OF t]] sort_last_place_same[of "element d"] d(2)
    by simp
qed

lemma same_place_plain: "same_place p q \<Longrightarrow> list_all plain_place p \<Longrightarrow> list_all plain_place q"
  by (simp add: same_place_def list_all_iff)

lemma text_plain: "value_text p \<or> keyword_text p \<Longrightarrow> list_all plain_place (map chars p)"
  using value_words_places keyword_words_places
  by (cases p) (auto simp: value_text_def keyword_text_def list_all_iff)

lemma sorted_command_plain:
  assumes "e \<in> set (sorted_commands n)"
  shows "plain_element e"
proof -
  obtain d t where t: "(d, t) \<in> set templates" "list_all2 same_place (map (map chars) t) (ce_strvec e)"
    using sorted_command_template[OF assms] by metis
  have l: "length t < 25" "\<forall>p \<in> set t. list_all plain_place (map chars p)"
    using template_texts[OF t(1)] text_plain by (auto simp: list_all_iff)
  have "length (ce_strvec e) = length t" using list_all2_lengthD[OF t(2)] by simp
  moreover have "list_all plain_place (ce_strvec e ! i)" if "i < length t" for i
    using same_place_plain[OF list_all2_nthD[OF t(2), of i]] l(2) that by simp
  ultimately show ?thesis using l(1) by (simp add: plain_element_def list_all_length CMD_ARGC_MAX_def)
qed

lemma sorted_commands_distinct: "distinct (sorted_commands n)"
proof -
  have "distinct (map (\<lambda>d. fst d) (mode_commands_of n))" by (cases n) (simp_all add: defuns)
  then have "distinct (map (\<lambda>d. chars (fst d)) (mode_commands_of n))"
    by (simp add: distinct_map inj_on_def chars_inj)
  moreover have "chars (fst d) = ce_string (sort_last_place (element d))" if "d \<in> set (mode_commands_of n)" for d
  proof -
    obtain t where "(d, t) \<in> set templates" using mode_commands_made[OF \<open>d \<in> set (mode_commands_of n)\<close>] by auto
    then show ?thesis using element_fields(1)[OF template_of(1)] by simp
  qed
  then have "map (\<lambda>d. chars (fst d)) (mode_commands_of n) =
      map ce_string (map (\<lambda>d. sort_last_place (element d)) (mode_commands_of n))"
    by simp
  ultimately have "distinct (map (\<lambda>d. sort_last_place (element d)) (mode_commands_of n))"
    by (metis distinct_map)
  then have "distinct (map (\<lambda>d. sort_last_place (element d)) (mode_commands_of n))" .
  then have "inj_on sort_last_place (set (map element (mode_commands_of n)))" "distinct (map element (mode_commands_of n))"
    by (auto simp: distinct_map comp_def inj_on_def)
  then show ?thesis by (simp add: sorted_commands_def distinct_map)
qed

lemma templates_inj: "(d, t) \<in> set templates \<Longrightarrow> (d', t) \<in> set templates \<Longrightarrow> d = d'"
proof -
  assume "(d, t) \<in> set templates" "(d', t) \<in> set templates"
  moreover have "distinct (map snd templates)" by (simp add: templates_def)
  ultimately show "d = d'" by (metis eq_key_imp_eq_value distinct_map inj_onD prod.inject snd_conv)
qed

theorem installed_on_track:
  assumes "e \<in> set (sorted_commands n)"
  shows "on_track 0 e (map Some (sorted_commands n))"
proof -
  have "told_apart (ce_strvec e) (ce_strvec e')" if e': "e' \<in> set (sorted_commands n)" "e' \<noteq> e" for e'
  proof -
    obtain d t where t: "(d, t) \<in> set templates" "e = sort_last_place (element d)"
      "list_all2 same_place (map (map chars) t) (ce_strvec e)" "ce_string e = chars (fst d)"
      using sorted_command_template[OF assms] by metis
    obtain d' t' where t': "(d', t') \<in> set templates" "e' = sort_last_place (element d')"
      "list_all2 same_place (map (map chars) t') (ce_strvec e')" "ce_string e' = chars (fst d')"
      using sorted_command_template[OF e'(1)] by metis
    have "d \<noteq> d'" using t(2) t'(2) e'(2) by blast
    then have "t \<noteq> t'" using templates_inj t(1) t'(1) by blast
    then have "texts_apart t t'" using templates_apart t(1) t'(1) by (fastforce simp: list_all_iff)
    then have "told_apart (map (map chars) t) (map (map chars) t')"
      using texts_told_apart template_texts t(1) t'(1) by blast
    then show ?thesis by (rule told_apart_same[OF _ t(3) t'(3)])
  qed
  then show ?thesis
    using assms sorted_command_plain sorted_commands_distinct[of n]
    by (auto simp: on_track_def plain_table_def comp_def)
qed

section \<open>Finding an installed command\<close>

lemma installed_plain: "plain_table (map Some (sorted_commands n))"
  using sorted_command_plain by (auto simp: plain_table_def)

text \<open>What is found in the table of a mode: an error, or a command that is installed there, may be used and fits.\<close>

lemmas find_installed = find_command_plain[OF installed_plain]

lemma same_place_single: "same_place [x] q \<longleftrightarrow> q = [x]"
  by (cases q) (auto simp: same_place_def)

lemma value_chars: "CMD_VARIABLE (chars ''USERNAME'')" "CMD_VARIABLE (chars ''PASSWORD'')" "CMD_VARIABLE (chars ''<1-15>'')"
  "\<not> CMD_VARIABLE (chars ''user'')" "\<not> CMD_VARIABLE (chars ''name'')" "\<not> CMD_VARIABLE (chars ''password'')"
  "\<not> CMD_VARIABLE (chars ''privilege'')" "\<not> CMD_VARIABLE (chars ''no'')" "\<not> CMD_VARIABLE (chars ''username'')"
  by (simp_all add: chars_def CMD_VARIABLE_def)

lemma user_templates:
  assumes "(d, t) \<in> set templates"
  shows "fst (snd d) = Add_user \<Longrightarrow> t = [[''user''], [''name''], [''USERNAME''], [''password''], [''PASSWORD'']]"
    and "fst (snd d) = Add_privilege \<Longrightarrow> t = [[''user''], [''name''], [''USERNAME''], [''privilege''], [''<1-15>'']]"
    and "fst (snd d) = Del_user \<Longrightarrow> t = [[''no''], [''username''], [''USERNAME'']]"
proof -
  have "\<forall>(d, t) \<in> set templates.
      (fst (snd d) = Add_user \<longrightarrow> t = [[''user''], [''name''], [''USERNAME''], [''password''], [''PASSWORD'']]) \<and>
      (fst (snd d) = Add_privilege \<longrightarrow> t = [[''user''], [''name''], [''USERNAME''], [''privilege''], [''<1-15>'']]) \<and>
      (fst (snd d) = Del_user \<longrightarrow> t = [[''no''], [''username''], [''USERNAME'']])"
    by (simp add: templates_def defuns)
  then show "fst (snd d) = Add_user \<Longrightarrow> t = [[''user''], [''name''], [''USERNAME''], [''password''], [''PASSWORD'']]"
    "fst (snd d) = Add_privilege \<Longrightarrow> t = [[''user''], [''name''], [''USERNAME''], [''privilege''], [''<1-15>'']]"
    "fst (snd d) = Del_user \<Longrightarrow> t = [[''no''], [''username''], [''USERNAME'']]"
    using assms by blast+
qed

lemma user_command_args:
  assumes "e \<in> set (sorted_commands n)" "fits ws e"
  shows "ce_func e = Add_user \<Longrightarrow> \<exists>a b. args_of (ce_strvec e) ws = [a, b]"
    and "ce_func e = Add_privilege \<Longrightarrow> \<exists>a b. args_of (ce_strvec e) ws = [a, b]"
    and "ce_func e = Del_user \<Longrightarrow> \<exists>a. args_of (ce_strvec e) ws = [a]"
proof -
  obtain d t where t: "(d, t) \<in> set templates" "list_all2 same_place (map (map chars) t) (ce_strvec e)"
    "ce_func e = fst (snd d)"
    using sorted_command_template[OF assms(1)] by metis
  note u = user_templates[OF t(1)]
  show "ce_func e = Add_user \<Longrightarrow> \<exists>a b. args_of (ce_strvec e) ws = [a, b]"
    "ce_func e = Add_privilege \<Longrightarrow> \<exists>a b. args_of (ce_strvec e) ws = [a, b]"
    "ce_func e = Del_user \<Longrightarrow> \<exists>a. args_of (ce_strvec e) ws = [a]"
    using u t assms(2)
    by (auto simp: list_all2_Cons1 list_all2_Cons2 same_place_single fits_def value_chars)
qed

lemma installed_found:
  assumes "e \<in> set (sorted_commands n)" "spelled ws e" "ce_level e \<le> priority"
  shows "find_command priority ws (map Some (sorted_commands n)) = Some (Inr (e, args_of (ce_strvec e) ws))"
  by (rule find_command_spelled[OF installed_on_track[OF assms(1)] assms(2,3)])

lemma table_of_mode:
  "cmd_node_vector command_table n = Some t \<longleftrightarrow> n \<noteq> DEBUG_NODE \<and> t = map Some (sorted_commands n)"
  by (auto simp: command_tables)

section \<open>Properties\<close>

text \<open>C20. Every installed command can be run by typing it in full: in each mode, a line that gives the keywords of one of its
  commands, in letters of any case, and values its other places accept, finds that command and no other, if the user
  has its level. The arguments are the values and the chosen alternatives.\<close>

theorem typed_command_found:
  assumes "cmd_node_vector command_table n = Some t" "Some e \<in> set t" "spelled ws e" "ce_level e \<le> priority"
  shows "find_command priority ws t = Some (Inr (e, args_of (ce_strvec e) ws))"
  using installed_found[OF _ assms(3,4), of n] assms(1,2) by (auto simp: table_of_mode)

text \<open>C21. Whatever the words, the search in the table of a mode ends with one of four errors or with a command that is
  installed in the mode, whose level the user has, and whose places the words match one by one.\<close>

theorem found_command_allowed:
  assumes "cmd_node_vector command_table n = Some t"
  shows "\<exists>r. find_command priority ws t = Some r \<and>
    (case r of
       Inl c \<Rightarrow> c \<in> {CMD_ERR_AMBIGUOUS, CMD_ERR_NO_MATCH, CMD_ERR_INCOMPLETE, CMD_ERR_PRIORITY_LOWER}
     | Inr (e, argv) \<Rightarrow> Some e \<in> set t \<and> ce_level e \<le> priority \<and> list_all2 matches ws (ce_strvec e) \<and>
         argv = args_of (ce_strvec e) ws)"
proof -
  have t: "t = map Some (sorted_commands n)" using assms by (simp add: table_of_mode)
  show ?thesis using find_installed[of priority ws n] unfolding t fits_def by fastforce
qed

text \<open>Witnesses: \<open>terminal time-out 60\<close> in the first mode, by a user who may use it and one who may not.\<close>

definition time_out_element :: "cli_func cmd_element" where
  "time_out_element = sort_last_place (element time_out_cmd)"

lemma time_out_element:
  "time_out_element \<in> set (sorted_commands VIEW_NODE)" "ce_level time_out_element = 5"
  "ce_strvec time_out_element = [[chars ''terminal''], [chars ''time-out''], [chars ''<1-65535>'']]"
proof -
  have t: "(time_out_cmd, [[''terminal''], [''time-out''], [''<1-65535>'']]) \<in> set templates" by (simp add: templates_def)
  show "time_out_element \<in> set (sorted_commands VIEW_NODE)"
    by (auto simp: time_out_element_def sorted_command_iff)
  show "ce_level time_out_element = 5"
    using element_fields(3)[OF template_of(1)[OF t]] by (simp add: time_out_element_def time_out_cmd_def)
  show "ce_strvec time_out_element = [[chars ''terminal''], [chars ''time-out''], [chars ''<1-65535>'']]"
    using template_of(2)[OF t] by (simp add: time_out_element_def sort_last_place_def)
qed

lemma time_out_spelled: "spelled [chars ''TERMINAL'', chars ''time-out'', chars ''60''] time_out_element"
proof -
  have "value_place [chars ''<1-65535>'']" "keyword_place [chars ''terminal'']" "keyword_place [chars ''time-out'']"
    by (simp_all add: value_words_places value_words_def keyword_place_def keyword_words_places keyword_words_def)
  moreover have "matches (chars ''60'') [chars ''<1-65535>'']" 
    unfolding matches_def by (rule exI[of _ range_match]) code_simp
  moreover have "strcasecmp_eq (chars ''TERMINAL'') (chars ''terminal'')" "strcasecmp_eq (chars ''time-out'') (chars ''time-out'')"
    by (simp_all add: strcasecmp_eq_def chars_def tolower_def)
  ultimately show ?thesis by (simp add: spelled_def time_out_element spelled_place_def)
qed

theorem typed_command_found_witness:
  "find_command 5 [chars ''TERMINAL'', chars ''time-out'', chars ''60''] (map Some (sorted_commands VIEW_NODE)) =
     Some (Inr (time_out_element, [chars ''60'']))"
proof -
  have "\<not> CMD_VARIABLE (chars ''terminal'')" "\<not> CMD_VARIABLE (chars ''time-out'')" "CMD_VARIABLE (chars ''<1-65535>'')"
    by (simp_all add: CMD_VARIABLE_def chars_def)
  then show ?thesis
    using typed_command_found[of VIEW_NODE "map Some (sorted_commands VIEW_NODE)" time_out_element
        "[chars ''TERMINAL'', chars ''time-out'', chars ''60'']" 5] time_out_element time_out_spelled
    by (simp add: table_of_mode)
qed

theorem found_command_allowed_witness:
  "\<exists>r. find_command 0 [chars ''exit''] (map Some (sorted_commands CONFIG_NODE)) = Some r"
  using found_command_allowed[of CONFIG_NODE "map Some (sorted_commands CONFIG_NODE)" 0 "[chars ''exit'']"]
  by (auto simp: table_of_mode)

end
