(* ===== verification/CliShell.thy ===== *)
theory CliShell
  imports CliFind
begin

text \<open>
  Telnet connections to the command shell that share the table of users and the list of banned addresses:
  accepting and closing a connection and the line a user enters (\<open>common/vty.c\<close>), the commands that move
  between the modes (\<open>common/command.c\<close>) and those that change the table (\<open>command/user_mng_cmd.c\<close>), found in the
  tables of \<open>CliTable\<close>.

  What a command returns that only prints or acts outside the shell is the parameter \<open>other\<close>. Taking a place among
  the connections and giving it back are atomic here.
\<close>

section \<open>Commands\<close>

text \<open>The commands of the modes, for a telnet connection.\<close>

definition config_terminal :: "vty \<Rightarrow> int \<times> vty" where
  "config_terminal v = (CMD_SUCCESS, v\<lparr>v_node := CONFIG_NODE\<rparr>)"

definition enable :: "vty \<Rightarrow> int \<times> vty" where
  "enable v = (CMD_SUCCESS, v\<lparr>v_node := AUTH_ENABLE_NODE\<rparr>)"

definition disable :: "vty \<Rightarrow> int \<times> vty" where
  "disable v = (CMD_SUCCESS, if v_node v = ENABLE_NODE then v\<lparr>v_node := VIEW_NODE\<rparr> else v)"

definition config_exit :: "vty \<Rightarrow> int \<times> vty" where
  "config_exit v = (CMD_SUCCESS,
     (case v_node v of
        VIEW_NODE \<Rightarrow> v\<lparr>v_close := True\<rparr>
      | ENABLE_NODE \<Rightarrow> v\<lparr>v_node := VIEW_NODE\<rparr>
      | CONFIG_NODE \<Rightarrow> v\<lparr>v_node := ENABLE_NODE\<rparr>
      | DEBUG_NODE \<Rightarrow> v\<lparr>v_node := ENABLE_NODE\<rparr>
      | _ \<Rightarrow> v))"

definition config_end :: "vty \<Rightarrow> int \<times> vty" where
  "config_end v = (CMD_SUCCESS,
     (case v_node v of
        DEBUG_NODE \<Rightarrow> v\<lparr>v_node := ENABLE_NODE\<rparr>
      | CONFIG_NODE \<Rightarrow> v\<lparr>v_node := ENABLE_NODE\<rparr>
      | _ \<Rightarrow> v))"

definition debug_hide :: "vty \<Rightarrow> int \<times> vty" where
  "debug_hide v = (CMD_SUCCESS, if v_node v = ENABLE_NODE then v\<lparr>v_node := DEBUG_NODE\<rparr> else v)"

definition passwd_fun :: "vty \<Rightarrow> int \<times> vty" where
  "passwd_fun v = (CMD_SUCCESS, v\<lparr>v_chg_user := True, v_node := CHANGE_PASSWD_NODE\<rparr>)"

definition enable_passwd_fun :: "vty \<Rightarrow> int \<times> vty" where
  "enable_passwd_fun v = (CMD_SUCCESS, v\<lparr>v_chg_user := False, v_node := CHANGE_PASSWD_NODE\<rparr>)"

text \<open>The commands on users. An argument is a string in memory of its own length; \<open>user_add\<close> and \<open>user_del\<close> do
  nothing and return 0.\<close>

definition add_user_fun :: "int \<Rightarrow> int \<Rightarrow> string_c \<Rightarrow> string_c \<Rightarrow> cli_user list \<Rightarrow> (int \<times> cli_user list) option" where
  "add_user_fun junk junk_pri name pass us =
     (if length name > MAX_USER_NAME_LEN \<or> length pass > MAX_PASSWD_LEN then Some (CMD_WARNING, us)
      else
        let (pwd, pri) = get_cli_user_info name (replicate (MAX_PASSWD_LEN + 1) 0) junk_pri us
        in if junk \<noteq> 0 then Some (0, us)
           else if pass \<noteq> c_str pwd then map_option (\<lambda>us'. (CMD_SUCCESS, us')) (set_user_passwd name (pass @ [0]) us)
           else Some (junk, us))"

definition del_user_fun :: "int \<Rightarrow> string_c \<Rightarrow> nat \<Rightarrow> cli_user list \<Rightarrow> int option" where
  "del_user_fun junk name user_index us =
     (if length name > MAX_USER_NAME_LEN then Some CMD_WARNING
      else if user_index \<ge> MAX_CLI_USER then None
      else if name = u_name (us ! user_index) then Some CMD_WARNING
      else if slot_where (\<lambda>u. u_name u = name) us \<noteq> None then Some CMD_WARNING
      else if junk \<noteq> 0 then Some CMD_WARNING
      else Some 0)"

definition add_privilege_fun ::
    "int \<Rightarrow> int \<Rightarrow> string_c \<Rightarrow> int \<Rightarrow> nat \<Rightarrow> cli_user list \<Rightarrow> (int \<times> cli_user list) option" where
  "add_privilege_fun junk junk_pri name k user_index us =
     (if length name > MAX_USER_NAME_LEN then Some (CMD_WARNING, us)
      else if user_index \<ge> MAX_CLI_USER then None
      else if name = u_name (us ! user_index) then Some (CMD_WARNING, us)
      else
        let (pwd, pri) = get_cli_user_info name (replicate (MAX_PASSWD_LEN + 1) 0) junk_pri us
        in if junk \<noteq> 0 then Some (CMD_WARNING, us)
           else if pri \<noteq> k then Some (CMD_SUCCESS, set_user_privilege name k us)
           else Some (junk, us))"

definition atoi :: "string_c \<Rightarrow> int" where
  "atoi s = fst (strtol s)"

text \<open>Calling the function of a command with its arguments; an argument that is not there is undefined.\<close>

type_synonym other_result = "other_func \<Rightarrow> string_c list \<Rightarrow> int"

definition call_command ::
    "int \<Rightarrow> int \<Rightarrow> other_result \<Rightarrow> cli_func \<Rightarrow> string_c list \<Rightarrow> vty \<times> cli_user list \<Rightarrow> (int \<times> vty \<times> cli_user list) option" where
  "call_command junk junk_pri other f argv = (\<lambda>(v, us).
     (let mode = (\<lambda>g. let (r, v') = g v in Some (r, v', us))
      in case f of
           Config_terminal \<Rightarrow> mode config_terminal
         | Enable \<Rightarrow> mode enable
         | Disable \<Rightarrow> mode disable
         | Config_exit \<Rightarrow> mode config_exit
         | Config_end \<Rightarrow> mode config_end
         | Debug_hide \<Rightarrow> mode debug_hide
         | Passwd \<Rightarrow> mode passwd_fun
         | Enable_passwd \<Rightarrow> mode enable_passwd_fun
         | Add_user \<Rightarrow>
             (case argv of n # p # _ \<Rightarrow> map_option (\<lambda>(r, us'). (r, v, us')) (add_user_fun junk junk_pri n p us) | _ \<Rightarrow> None)
         | Add_privilege \<Rightarrow>
             (case argv of n # k # _ \<Rightarrow>
                map_option (\<lambda>(r, us'). (r, v, us')) (add_privilege_fun junk junk_pri n (atoi k) (v_user_index v) us)
              | _ \<Rightarrow> None)
         | Del_user \<Rightarrow>
             (case argv of n # _ \<Rightarrow> map_option (\<lambda>r. (r, v, us)) (del_user_fun junk n (v_user_index v) us) | _ \<Rightarrow> None)
         | Other g \<Rightarrow> Some (other g argv, v, us)))"

definition cmd_execute_command_real ::
    "int \<Rightarrow> int \<Rightarrow> other_result \<Rightarrow> string_c list \<Rightarrow> vty \<times> cli_user list \<Rightarrow> (int \<times> vty \<times> cli_user list) option" where
  "cmd_execute_command_real junk junk_pri other vline = (\<lambda>(v, us).
     do { cmd_vector \<leftarrow> cmd_node_vector command_table (v_node v);
          found \<leftarrow> find_command (v_iPriority v) vline cmd_vector;
          case found of
            Inl e \<Rightarrow> Some (e, v, us)
          | Inr (c, argv) \<Rightarrow> call_command junk junk_pri other (ce_func c) argv (v, us) })"

definition cmd_try_do_shortcut :: "node_type \<Rightarrow> string_c list \<Rightarrow> bool" where
  "cmd_try_do_shortcut node vline \<longleftrightarrow> vline \<noteq> [] \<and> hd vline = chars ''do'' \<and>
     node \<notin> {USER_NODE, AUTH_NODE, VIEW_NODE, AUTH_ENABLE_NODE, ENABLE_NODE}"

text \<open>With \<open>do\<close> in front the command is run as if in the enable mode. A command that fails in a mode above the
  configuration mode is tried once more there; the assertion in \<open>node_parent\<close> fails for every other mode.\<close>

definition above_config :: "node_type \<Rightarrow> bool" where
  "above_config n \<longleftrightarrow> node_num n > node_num CONFIG_NODE"

definition cmd_execute_command ::
    "int \<Rightarrow> int \<Rightarrow> other_result \<Rightarrow> string_c list \<Rightarrow> vty \<times> cli_user list \<Rightarrow> (int \<times> vty \<times> cli_user list) option" where
  "cmd_execute_command junk junk_pri other vline = (\<lambda>(v, us).
     (let onode = v_node v
      in if cmd_try_do_shortcut onode vline then
           map_option (\<lambda>(r, v', us'). (r, v'\<lparr>v_node := onode\<rparr>, us'))
             (cmd_execute_command_real junk junk_pri other (tl vline) (v\<lparr>v_node := ENABLE_NODE\<rparr>, us))
         else
           do { (saved_ret, v, us) \<leftarrow> cmd_execute_command_real junk junk_pri other vline (v, us);
                if saved_ret \<in> {CMD_SUCCESS, CMD_WARNING} \<or> \<not> above_config (v_node v) then Some (saved_ret, v, us)
                else if \<not> above_config onode then None
                else
                  do { (ret, v, us) \<leftarrow> cmd_execute_command_real junk junk_pri other vline (v\<lparr>v_node := CONFIG_NODE\<rparr>, us);
                       if ret \<in> {CMD_SUCCESS, CMD_WARNING} then
                         Some (ret, if v_node v = CONFIG_NODE then v\<lparr>v_node := onode\<rparr> else v, us)
                       else if above_config (v_node v) then None
                       else Some (saved_ret, v\<lparr>v_node := onode\<rparr>, us) } }))"

definition execute_command ::
    "int \<Rightarrow> int \<Rightarrow> other_result \<Rightarrow> string_c \<Rightarrow> vty \<times> cli_user list \<Rightarrow> (int \<times> vty \<times> cli_user list) option" where
  "execute_command junk junk_pri other buf = (\<lambda>(v, us).
     (case cmd_make_strvec buf of
        None \<Rightarrow> Some (CMD_SUCCESS, v, us)
      | Some vline \<Rightarrow> cmd_execute_command junk junk_pri other vline (v, us)))"

text \<open>Executing the line ends with the prompt of the mode, which is read from the table of modes.\<close>

definition has_prompt :: "vty \<Rightarrow> bool" where
  "has_prompt v \<longleftrightarrow> cmd_node_vector command_table (v_node v) \<noteq> None"

definition vty_execute ::
    "int \<Rightarrow> int \<Rightarrow> other_result \<Rightarrow> string_c \<Rightarrow> vty \<times> cli_user list \<times> dos_list
     \<Rightarrow> (vty \<times> cli_user list \<times> dos_list) option" where
  "vty_execute junk junk_pri other buf = (\<lambda>(v, us, d).
     do { (v, us, d) \<leftarrow>
            (if v_node v \<in> {USER_NODE, AUTH_NODE, AUTH_ENABLE_NODE} then vty_auth junk junk_pri buf (v, us, d)
             else if v_node v \<in> {CHANGE_PASSWD_NODE, CHANGE_PASSWD_AGAIN_NODE}
             then map_option (\<lambda>(r, v', us'). (v', us', d)) (change_vty_passwd buf (v, us))
             else map_option (\<lambda>(r, v', us'). (v', us', d)) (execute_command junk junk_pri other buf (v, us)));
          if v_close v \<or> has_prompt v then Some (v, us, d) else None })"

section \<open>Connections\<close>

text \<open>\<open>s_conn\<close> is \<open>g_pstVtyArr\<close>.\<close>

record cli_sys =
  s_conn :: "vty option list"
  s_users :: "cli_user list"
  s_dos :: dos_list

definition cli_start :: cli_sys where
  "cli_start = \<lparr>s_conn = replicate MAX_TELNET_NUM None, s_users = user_init, s_dos = dos_init\<rparr>"

text \<open>\<open>junk_buf\<close> is what the fresh buffer of 128 bytes holds.\<close>

definition vty_create :: "bytes \<Rightarrow> string_c \<Rightarrow> vty" where
  "vty_create junk_buf ip =
     \<lparr>v_node = USER_NODE, v_user_index = MAX_CLI_USER, v_pcBuf = junk_buf, v_iVtyIndex = MAX_TELNET_NUM,
      v_chg_user = False, v_iPriority = 0, v_address = ip, v_close = False, v_iInvLogin = 0\<rparr>"

definition registe_vty :: "vty \<Rightarrow> vty option list \<Rightarrow> vty \<times> vty option list" where
  "registe_vty v conn =
     (case List.find (\<lambda>i. conn ! i = None) [0..<MAX_TELNET_NUM] of
        Some i \<Rightarrow> (v\<lparr>v_iVtyIndex := i\<rparr>, conn[i := Some (v\<lparr>v_iVtyIndex := i\<rparr>)])
      | None \<Rightarrow> (v\<lparr>v_close := True\<rparr>, conn))"

definition release_vty :: "vty \<Rightarrow> vty option list \<Rightarrow> vty option list" where
  "release_vty v conn = (if v_iVtyIndex v < MAX_TELNET_NUM then conn[v_iVtyIndex v := None] else conn)"

definition vty_close :: "vty \<Rightarrow> cli_sys \<Rightarrow> cli_sys" where
  "vty_close v s = s\<lparr>s_conn := release_vty v (s_conn s), s_users := vty_close_user v (s_users s)\<rparr>"

text \<open>A connection from an address: refused when banned, closed at once when three are open.\<close>

definition accept_conn :: "bytes \<Rightarrow> string_c \<Rightarrow> cli_sys \<Rightarrow> cli_sys option" where
  "accept_conn junk_buf ip s =
     do { banned \<leftarrow> FindDos ip (s_dos s);
          if banned then Some s
          else let (v, conn) = registe_vty (vty_create junk_buf ip) (s_conn s);
                   s = s\<lparr>s_conn := conn\<rparr>
               in Some (if v_close v then vty_close v s else s) }"

definition enter_line ::
    "int \<Rightarrow> int \<Rightarrow> other_result \<Rightarrow> string_c \<Rightarrow> nat \<Rightarrow> vty \<Rightarrow> cli_sys \<Rightarrow> cli_sys option" where
  "enter_line junk junk_pri other buf k v s =
     do { (v', us, d) \<leftarrow> vty_execute junk junk_pri other buf (v, s_users s, s_dos s);
          Some (s\<lparr>s_conn := (s_conn s)[k := Some v'], s_users := us, s_dos := d\<rparr>) }"

text \<open>Control-D on an empty line and control-Z change the mode without a command.\<close>

definition down_level_mode :: "vty \<Rightarrow> vty" where
  "down_level_mode v = snd (config_exit v)"

definition end_config_mode :: "vty \<Rightarrow> vty" where
  "end_config_mode v = (if v_node v = CONFIG_NODE then v\<lparr>v_node := ENABLE_NODE\<rparr> else v)"

text \<open>The addresses a connection can come from, written out.\<close>

definition address_text :: "string_c \<Rightarrow> bool" where
  "address_text ip \<longleftrightarrow> plain_line ip \<and> length ip \<le> 19"

inductive cli_step :: "cli_sys \<Rightarrow> cli_sys \<Rightarrow> bool" where
  accept: "\<lbrakk> address_text ip; length junk_buf = 128; accept_conn junk_buf ip s = Some s' \<rbrakk> \<Longrightarrow> cli_step s s'"
| line: "\<lbrakk> k < MAX_TELNET_NUM; s_conn s ! k = Some v; \<not> v_close v; plain_line buf;
           enter_line junk junk_pri other buf k v s = Some s' \<rbrakk> \<Longrightarrow> cli_step s s'"
| key: "\<lbrakk> k < MAX_TELNET_NUM; s_conn s ! k = Some v; \<not> v_close v; v' = down_level_mode v \<or> v' = end_config_mode v \<rbrakk>
    \<Longrightarrow> cli_step s (s\<lparr>s_conn := (s_conn s)[k := Some v']\<rparr>)"
| hang_up: "\<lbrakk> k < MAX_TELNET_NUM; s_conn s ! k = Some v \<rbrakk> \<Longrightarrow> cli_step s (vty_close v s)"
| second: "\<lbrakk> DosThread_pass (s_dos s) = Some d \<rbrakk> \<Longrightarrow> cli_step s (s\<lparr>s_dos := d\<rparr>)"

inductive cli_reachable :: "cli_sys \<Rightarrow> bool" where
  start: "cli_reachable cli_start"
| step: "\<lbrakk> cli_reachable s; cli_step s s' \<rbrakk> \<Longrightarrow> cli_reachable s'"

inductive_cases cli_stepE: "cli_step s s'"

section \<open>Places in the table belong to connections\<close>

definition conn_ok :: "nat \<Rightarrow> vty \<Rightarrow> bool" where
  "conn_ok k v \<longleftrightarrow> vty_ok v \<and> (v_close v \<or> v_node v \<noteq> DEBUG_NODE) \<and> v_iVtyIndex v = k \<and> v_user_index v \<le> 4 \<and>
     (v_node v \<in> {USER_NODE, AUTH_NODE} \<longrightarrow> v_user_index v = 4) \<and>
     (v_node v \<notin> {USER_NODE, AUTH_NODE} \<longrightarrow> \<not> v_close v \<longrightarrow> v_user_index v < 4)"

text \<open>Bit \<open>k + 1\<close> of a place is set when connection \<open>k\<close> has logged in as its user, and no other bit is.\<close>

definition terms_match :: "vty option list \<Rightarrow> cli_user list \<Rightarrow> bool" where
  "terms_match conn us \<longleftrightarrow> (\<forall>i < 4. \<forall>n. bit (u_term (us ! i)) n \<longleftrightarrow>
     (\<exists>k < 3. n = k + 1 \<and> (\<exists>v. conn ! k = Some v \<and> v_user_index v = i)))"

definition sys_ok :: "cli_sys \<Rightarrow> bool" where
  "sys_ok s \<longleftrightarrow> length (s_conn s) = 3 \<and> users_ok (s_users s) \<and>
     (\<forall>k < 3. \<forall>v. s_conn s ! k = Some v \<longrightarrow> conn_ok k v) \<and> terms_match (s_conn s) (s_users s)"

lemma terminal_bit_bit: "v_iVtyIndex v < 3 \<Longrightarrow> bit (terminal_bit v) n \<longleftrightarrow> n = v_iVtyIndex v + 1"
  by (auto simp: terminal_bit_def bit_simps)

lemma terms_match_same:
  assumes "terms_match conn us" "k < 3" "length conn = 3" "conn ! k = Some v" "v_user_index v' = v_user_index v"
    and "\<forall>i < 4. u_term (us' ! i) = u_term (us ! i)"
  shows "terms_match (conn[k := Some v']) us'"
proof -
  have "(\<exists>w. conn[k := Some v'] ! j = Some w \<and> v_user_index w = i) \<longleftrightarrow> (\<exists>w. conn ! j = Some w \<and> v_user_index w = i)"
    if "j < 3" for i j
    using assms(2-5) that by (cases "j = k") auto
  then show ?thesis using assms(1,6) unfolding terms_match_def by (simp cong: conj_cong)
qed

lemma terms_match_login:
  assumes m: "terms_match conn us" and k: "k < 3" "length conn = 3" "conn ! k = Some v" "v_user_index v = 4"
    and t: "v_iVtyIndex v = k"
    and us': "\<forall>j < 4. u_term (us' ! j) = (if j = v_user_index v' then u_term (us ! j) OR terminal_bit v else u_term (us ! j))"
  shows "terms_match (conn[k := Some v']) us'"
  unfolding terms_match_def
proof (intro allI impI)
  fix i :: nat and n
  assume i: "i < 4"
  have old: "bit (u_term (us ! i)) n \<longleftrightarrow> (\<exists>j < 3. n = j + 1 \<and> (\<exists>w. conn ! j = Some w \<and> v_user_index w = i))"
    using m i by (simp add: terms_match_def)
  have "\<not> bit (u_term (us ! i)) (k + 1)" using m i k by (auto simp: terms_match_def)
  moreover have "bit (u_term (us' ! i)) n \<longleftrightarrow> bit (u_term (us ! i)) n \<or> (i = v_user_index v' \<and> n = k + 1)"
    using us' i t k(1) terminal_bit_bit[of v n] by (auto simp: bit_or_iff)
  moreover have "(\<exists>j < 3. n = j + 1 \<and> (\<exists>w. conn[k := Some v'] ! j = Some w \<and> v_user_index w = i)) \<longleftrightarrow>
      (if n = k + 1 then v_user_index v' = i else \<exists>j < 3. n = j + 1 \<and> (\<exists>w. conn ! j = Some w \<and> v_user_index w = i))"
    using k by (auto simp: nth_list_update)
  ultimately show "bit (u_term (us' ! i)) n \<longleftrightarrow>
      (\<exists>j < 3. n = j + 1 \<and> (\<exists>w. conn[k := Some v'] ! j = Some w \<and> v_user_index w = i))"
    using old by auto
qed

lemma terms_match_close:
  assumes m: "terms_match conn us" and k: "k < 3" "length conn = 3" "conn ! k = Some v" and us: "length us = 4"
    and t: "v_iVtyIndex v = k"
  shows "terms_match (conn[k := None]) (vty_close_user v us)"
  unfolding terms_match_def
proof (intro allI impI)
  fix i :: nat and n
  assume i: "i < 4"
  have old: "bit (u_term (us ! i)) n \<longleftrightarrow> (\<exists>j < 3. n = j + 1 \<and> (\<exists>w. conn ! j = Some w \<and> v_user_index w = i))"
    using m i by (simp add: terms_match_def)
  have "u_term (vty_close_user v us ! i) = (if i = v_user_index v then u_term (us ! i) XOR terminal_bit v else u_term (us ! i))"
    using i us k t by (auto simp: vty_close_user_def release_user_def MAX_TELNET_NUM_def MAX_CLI_USER_def)
  then have "bit (u_term (vty_close_user v us ! i)) n \<longleftrightarrow> bit (u_term (us ! i)) n \<noteq> (i = v_user_index v \<and> n = k + 1)"
    using terminal_bit_bit[of v n] t k(1) by (auto simp: bit_xor_iff)
  moreover have "(\<exists>j < 3. n = j + 1 \<and> (\<exists>w. conn[k := None] ! j = Some w \<and> v_user_index w = i)) \<longleftrightarrow>
      n \<noteq> k + 1 \<and> (\<exists>j < 3. n = j + 1 \<and> (\<exists>w. conn ! j = Some w \<and> v_user_index w = i))"
    using k by (auto simp: nth_list_update)
  ultimately show "bit (u_term (vty_close_user v us ! i)) n \<longleftrightarrow>
      (\<exists>j < 3. n = j + 1 \<and> (\<exists>w. conn[k := None] ! j = Some w \<and> v_user_index w = i))"
    using old k by auto
qed

text \<open>What a change of the table leaves alone: the user of every place in use.\<close>

definition users_kept :: "cli_user list \<Rightarrow> cli_user list \<Rightarrow> bool" where
  "users_kept us us' \<longleftrightarrow> (\<forall>i < 4. u_term (us ! i) \<noteq> 0 \<longrightarrow>
     u_name (us' ! i) = u_name (us ! i) \<and> u_pwd (us' ! i) = u_pwd (us ! i) \<and> u_pri (us' ! i) = u_pri (us ! i))"

definition terms_same :: "cli_user list \<Rightarrow> cli_user list \<Rightarrow> bool" where
  "terms_same us us' \<longleftrightarrow> (\<forall>i < 4. u_term (us' ! i) = u_term (us ! i))"

lemma users_kept_refl [simp]: "users_kept us us"
  by (simp add: users_kept_def)

lemma terms_same_refl [simp]: "terms_same us us"
  by (simp add: terms_same_def)

lemma registe_user_effect:
  assumes r: "registe_user jp name t us = Some (i, us')" and l: "length us = 4"
  shows "i \<le> 4 \<and> (\<forall>j < 4. u_term (us' ! j) = (if j = i then u_term (us ! j) OR t else u_term (us ! j))) \<and> users_kept us us'"
proof (cases "slot_where (\<lambda>u. u_name u = name) us")
  case (Some a)
  then show ?thesis using r l slot_where_Some[OF Some] by (auto simp: registe_user_def users_kept_def nth_list_update)
next
  case None
  note new = this
  show ?thesis
  proof (cases "slot_where (\<lambda>u. u_term u = 0) us")
    case None
    then show ?thesis using r l new by (auto simp: registe_user_def MAX_CLI_USER_def)
  next
    case (Some a)
    then show ?thesis
      using r l new slot_where_Some[OF Some]
      by (auto simp: registe_user_def users_kept_def nth_list_update split: bind_splits if_splits)
  qed
qed

lemma set_user_passwd_effect:
  assumes "set_user_passwd name pwd us = Some us'" "length us = 4"
  shows "terms_same us us' \<and> users_kept us us'"
  using assms slot_where_Some
  by (fastforce simp: set_user_passwd_def users_kept_def terms_same_def nth_list_update split: option.splits if_splits)

lemma set_user_privilege_effect: "length us = 4 \<Longrightarrow>
    terms_same us (set_user_privilege name k us) \<and> users_kept us (set_user_privilege name k us)"
  using slot_where_Some
  by (fastforce simp: set_user_privilege_def users_kept_def terms_same_def nth_list_update split: option.splits)

text \<open>What entering a line may do to the connection and to the table.\<close>

definition line_effect :: "nat \<Rightarrow> vty \<Rightarrow> cli_user list \<Rightarrow> vty \<Rightarrow> cli_user list \<Rightarrow> bool" where
  "line_effect k v us v' us' \<longleftrightarrow> conn_ok k v' \<and> users_ok us' \<and> users_kept us us' \<and>
     (v_user_index v' = v_user_index v \<and> terms_same us us' \<or>
      v_user_index v = 4 \<and>
      (\<forall>j < 4. u_term (us' ! j) = (if j = v_user_index v' then u_term (us ! j) OR terminal_bit v else u_term (us ! j))))"

lemma line_effect_same: "conn_ok k v' \<Longrightarrow> v_user_index v' = v_user_index v \<Longrightarrow> users_ok us \<Longrightarrow> line_effect k v us v' us"
  by (simp add: line_effect_def)

lemma vty_auth_effect:
  assumes v: "conn_ok k v" "\<not> v_close v" and us: "users_ok us" and buf: "plain_line buf"
    and r: "vty_auth junk jp buf (v, us, d) = Some (v', us', d')"
  shows "line_effect k v us v' us'"
proof -
  have "vty_ok v" using v by (simp add: conn_ok_def)
  note ok = vty_auth_ok[OF this us buf, of junk jp d]
  have l: "length us = 4" using us by (simp add: users_ok_def)
  have "vty_ok v'" "users_ok us'" using ok r by auto
  note ok = this
  show ?thesis
  proof (cases "v_node v")
    case USER_NODE
    then show ?thesis
      using r v us ok(1) by (auto simp: vty_auth_def conn_ok_def line_effect_def MAX_USER_NAME_LEN_def split: if_splits)
  next
    case AUTH_NODE
    obtain ret pri where a: "use_auth junk (c_str (v_pcBuf v)) buf (v_iPriority v) us = (ret, pri)" by (meson surj_pair)
    have t: "terminal_bit (v\<lparr>v_node := VIEW_NODE, v_iPriority := pri\<rparr>) = terminal_bit v" by (simp add: terminal_bit_def)
    show ?thesis
    proof (cases "ret = CMD_SUCCESS")
      case True
      then obtain i where i: "registe_user jp (c_str (v_pcBuf v)) (terminal_bit v) us = Some (i, us')"
        and v': "v' = (let w = v\<lparr>v_node := VIEW_NODE, v_iPriority := pri, v_user_index := i\<rparr> in
                   if i = 4 then w\<lparr>v_close := True\<rparr> else w)"
        using r AUTH_NODE a by (auto simp: vty_auth_def t Let_def MAX_CLI_USER_def split: bind_splits)
      show ?thesis
        using registe_user_effect[OF i l] v' ok v AUTH_NODE
        by (auto simp: line_effect_def conn_ok_def Let_def)
    next
      case False
      then have "us' = us" "v' = (if v_iInvLogin v < 2
          then v\<lparr>v_node := USER_NODE, v_iPriority := pri, v_iInvLogin := v_iInvLogin v + 1\<rparr>
          else v\<lparr>v_node := VIEW_NODE, v_iPriority := pri, v_close := True\<rparr>)"
        using r AUTH_NODE a by (auto simp: vty_auth_def Let_def split: bind_splits if_splits)
      then show ?thesis using ok v AUTH_NODE by (auto simp: line_effect_def conn_ok_def)
    qed
  next
    case AUTH_ENABLE_NODE
    then show ?thesis using r v us ok(1)
      by (auto simp: vty_auth_def conn_ok_def line_effect_def enable_auth_def)
  qed (use r v us in \<open>auto simp: vty_auth_def line_effect_def\<close>)
qed

lemma change_vty_passwd_effect:
  assumes v: "conn_ok k v" "\<not> v_close v" and us: "users_ok us" and buf: "plain_line buf"
    and node: "v_node v = CHANGE_PASSWD_NODE \<or> v_node v = CHANGE_PASSWD_AGAIN_NODE"
  shows "\<exists>r v' us'. change_vty_passwd buf (v, us) = Some (r, v', us') \<and> line_effect k v us v' us'"
proof -
  have i: "v_user_index v < 4" and "vty_ok v" using v node by (auto simp: conn_ok_def)
  from change_vty_passwd_ok[OF this(2) us buf node i] obtain r v' us' where
    c: "change_vty_passwd buf (v, us) = Some (r, v', us')" and ok: "vty_ok v'" "users_ok us'" by blast
  have l: "length us = 4" using us by (simp add: users_ok_def)
  have "terms_same us us' \<and> users_kept us us' \<and> v_user_index v' = v_user_index v \<and> v_iVtyIndex v' = v_iVtyIndex v \<and>
      v_node v' \<notin> {USER_NODE, AUTH_NODE, DEBUG_NODE}"
    using c node set_user_passwd_effect[OF _ l]
    by (auto simp: change_vty_passwd_def Let_def split: if_splits bind_splits)
  then show ?thesis using c ok v i by (auto simp: line_effect_def conn_ok_def)
qed

text \<open>The command a line stands for.\<close>

definition line_command :: "vty \<Rightarrow> string_c \<Rightarrow> (cli_func \<times> string_c list) option" where
  "line_command v buf =
     do { vline \<leftarrow> cmd_make_strvec buf;
          let short = cmd_try_do_shortcut (v_node v) vline;
          t \<leftarrow> cmd_node_vector command_table (if short then ENABLE_NODE else v_node v);
          found \<leftarrow> find_command (v_iPriority v) (if short then tl vline else vline) t;
          case found of Inl e \<Rightarrow> None | Inr (e, argv) \<Rightarrow> Some (ce_func e, argv) }"

definition takes_commands :: "node_type \<Rightarrow> bool" where
  "takes_commands n \<longleftrightarrow>
     n \<notin> {USER_NODE, AUTH_NODE, AUTH_ENABLE_NODE, CHANGE_PASSWD_NODE, CHANGE_PASSWD_AGAIN_NODE}"

text \<open>The two commands whose result may be undefined: one copies 16 bytes of a shorter password, the other leads to
  the mode that is not in the table.\<close>

definition reads_past_password :: "vty \<Rightarrow> string_c \<Rightarrow> bool" where
  "reads_past_password v buf \<longleftrightarrow> takes_commands (v_node v) \<and>
     (\<exists>n p. line_command v buf = Some (Add_user, [n, p]) \<and> length p < 15)"

definition enters_debug_mode :: "vty \<Rightarrow> string_c \<Rightarrow> bool" where
  "enters_debug_mode v buf \<longleftrightarrow> v_node v = ENABLE_NODE \<and> (\<exists>argv. line_command v buf = Some (Debug_hide, argv))"

lemmas mode_commands =
  config_terminal_def enable_def disable_def config_exit_def config_end_def passwd_fun_def enable_passwd_fun_def

lemma add_user_fun_total:
  assumes "users_ok us" "15 \<le> length p"
  shows "\<exists>r us'. add_user_fun junk jp n p us = Some (r, us') \<and> users_ok us'"
  using set_user_passwd_ok[OF assms(1), of "p @ [0]" n] assms
  by (auto simp: add_user_fun_def Let_def split: prod.split)

lemma add_user_fun_effect:
  assumes "users_ok us" "add_user_fun junk jp n p us = Some (r, us')"
  shows "users_ok us' \<and> terms_same us us' \<and> users_kept us us'"
proof -
  have l: "length us = 4" using assms(1) by (simp add: users_ok_def)
  have "us' = us \<or> set_user_passwd n (p @ [0]) us = Some us'"
    using assms(2) by (auto simp: add_user_fun_def Let_def split: prod.splits if_splits)
  then show ?thesis
  proof
    assume s: "set_user_passwd n (p @ [0]) us = Some us'"
    have "us' = us \<or> 16 \<le> length (p @ [0])"
      using s by (auto simp: set_user_passwd_def MAX_PASSWD_LEN_def split: option.splits if_splits)
    then show ?thesis using s set_user_passwd_effect[OF s l] set_user_passwd_ok[OF assms(1), of "p @ [0]" n] assms(1) by auto
  qed (use assms in simp)
qed

lemma add_privilege_fun_total:
  assumes "users_ok us" "i < 4"
  shows "\<exists>r us'. add_privilege_fun junk jp n q i us = Some (r, us') \<and> users_ok us' \<and> terms_same us us' \<and> users_kept us us'"
proof -
  have l: "length us = 4" using assms(1) by (simp add: users_ok_def)
  show ?thesis
    using set_user_privilege_ok[OF assms(1), of n q] set_user_privilege_effect[OF l, of n q] assms
    by (auto simp: add_privilege_fun_def Let_def MAX_CLI_USER_def split: prod.split)
qed

lemma mode_commands_ok:
  assumes v: "conn_ok k v" "\<not> v_close v" "v_node v \<notin> {USER_NODE, AUTH_NODE}"
  shows "f \<in> {config_terminal, enable, disable, config_exit, config_end, passwd_fun, enable_passwd_fun} \<Longrightarrow>
    conn_ok k (snd (f v)) \<and> v_user_index (snd (f v)) = v_user_index v \<and> fst (f v) = CMD_SUCCESS"
proof -
  have "conn_ok k (v\<lparr>v_close := True\<rparr>)" using v by (simp add: conn_ok_def vty_ok_def)
  moreover have "conn_ok k (v\<lparr>v_node := n\<rparr>)" "conn_ok k (v\<lparr>v_chg_user := b, v_node := n\<rparr>)"
    if "n \<notin> {USER_NODE, AUTH_NODE, DEBUG_NODE}" for n b
    using v that by (simp_all add: conn_ok_def vty_ok_def)
  ultimately show "f \<in> {config_terminal, enable, disable, config_exit, config_end, passwd_fun, enable_passwd_fun} \<Longrightarrow>
    conn_ok k (snd (f v)) \<and> v_user_index (snd (f v)) = v_user_index v \<and> fst (f v) = CMD_SUCCESS"
    using v(1) by (elim insertE) (simp_all add: mode_commands split: node_type.split)
qed

text \<open>What running a command may do: the effect of a line, with success or without a change of the mode.\<close>

definition command_effect :: "nat \<Rightarrow> vty \<Rightarrow> cli_user list \<Rightarrow> (int \<times> vty \<times> cli_user list) option \<Rightarrow> bool" where
  "command_effect k v us res \<longleftrightarrow> (\<forall>r v' us'. res = Some (r, v', us') \<longrightarrow>
     line_effect k v us v' us' \<and> v_user_index v' = v_user_index v \<and> (r = CMD_SUCCESS \<or> v_node v' = v_node v))"

lemma mode_command_effect:
  assumes "conn_ok k v" "\<not> v_close v" "v_node v \<notin> {USER_NODE, AUTH_NODE}" "users_ok us"
    and "f \<in> {config_terminal, enable, disable, config_exit, config_end, passwd_fun, enable_passwd_fun}"
  shows "command_effect k v us (let (r, v') = f v in Some (r, v', us))"
  using mode_commands_ok[OF assms(1-3,5)] assms(4) by (auto simp: command_effect_def line_effect_same split: prod.splits)

lemma call_command_effect:
  assumes v: "conn_ok k v" "\<not> v_close v" "v_node v \<notin> {USER_NODE, AUTH_NODE}" and us: "users_ok us" and f: "f \<noteq> Debug_hide"
  shows "command_effect k v us (call_command junk jp other f argv (v, us))"
proof -
  have i: "v_user_index v < 4" using v by (simp add: conn_ok_def)
  note m = mode_command_effect[OF v us]
  note modes = m[of config_terminal] m[of enable] m[of disable] m[of config_exit] m[of config_end] m[of passwd_fun]
    m[of enable_passwd_fun]
  have same: "line_effect k v us v us" using line_effect_same[OF v(1) refl us] .
  have users: "command_effect k v us (map_option (\<lambda>(r, us'). (r, v, us')) x)"
    if "\<And>r us'. x = Some (r, us') \<Longrightarrow> users_ok us' \<and> terms_same us us' \<and> users_kept us us'" for x
    using that v(1) by (auto simp: command_effect_def line_effect_def)
  show ?thesis
  proof (cases f)
    case Add_user
    have "command_effect k v us (map_option (\<lambda>(r, us'). (r, v, us')) (add_user_fun junk jp n p us))" for n p
      by (rule users) (rule add_user_fun_effect[OF us])
    then show ?thesis using Add_user by (auto simp: call_command_def command_effect_def split: list.split)
  next
    case Add_privilege
    have "command_effect k v us (map_option (\<lambda>(r, us'). (r, v, us')) (add_privilege_fun junk jp n q (v_user_index v) us))" for n q
      by (rule users) (use add_privilege_fun_total[OF us i, of junk jp n q] in auto)
    then show ?thesis using Add_privilege by (auto simp: call_command_def command_effect_def split: list.split)
  next
    case Del_user
    then show ?thesis using same by (auto simp: call_command_def command_effect_def split: list.split)
  qed (use f modes same in \<open>simp_all add: call_command_def command_effect_def\<close>)
qed

lemma call_command_total:
  assumes us: "users_ok us" and i: "v_user_index v < 4"
    and "f = Add_user \<Longrightarrow> \<exists>n p. argv = [n, p] \<and> 15 \<le> length p" "f = Add_privilege \<Longrightarrow> \<exists>n q. argv = [n, q]"
    and "f = Del_user \<Longrightarrow> \<exists>n. argv = [n]"
  shows "call_command junk jp other f argv (v, us) \<noteq> None"
proof (cases f)
  case Add_user
  then obtain n p where "argv = [n, p]" "15 \<le> length p" using assms(3) by blast
  then show ?thesis using Add_user add_user_fun_total[OF us, of p junk jp n] by (auto simp: call_command_def)
next
  case Add_privilege
  then obtain n q where "argv = [n, q]" using assms(4) by blast
  then show ?thesis using Add_privilege add_privilege_fun_total[OF us i, of junk jp n] by (fastforce simp: call_command_def)
next
  case Del_user
  then obtain n where "argv = [n]" using assms(5) by blast
  then show ?thesis using Del_user i by (simp add: call_command_def del_user_fun_def MAX_CLI_USER_def)
qed (simp_all add: call_command_def split: prod.split)

text \<open>Finding and running a command of a mode.\<close>

lemma command_real_effect:
  assumes v: "conn_ok k v" "\<not> v_close v" "v_node v \<notin> {USER_NODE, AUTH_NODE}" and us: "users_ok us"
  obtains c where "cmd_execute_command_real junk jp other ws (v, us) = Some (c, v, us)" "c \<noteq> CMD_SUCCESS"
      "\<forall>e argv. find_command (v_iPriority v) ws (map Some (sorted_commands (v_node v))) \<noteq> Some (Inr (e, argv))"
  | e where "find_command (v_iPriority v) ws (map Some (sorted_commands (v_node v))) =
        Some (Inr (e, args_of (ce_strvec e) ws))" "e \<in> set (sorted_commands (v_node v))" "fits ws e"
      "cmd_execute_command_real junk jp other ws (v, us) =
        call_command junk jp other (ce_func e) (args_of (ce_strvec e) ws) (v, us)"
proof -
  have n: "cmd_node_vector command_table (v_node v) = Some (map Some (sorted_commands (v_node v)))"
    using v(1,2) command_tables by (simp add: conn_ok_def)
  show ?thesis
    using find_installed[of "v_iPriority v" ws "v_node v"]
  proof (elim disjE bexE exE conjE)
    fix c
    assume "c \<in> {CMD_ERR_AMBIGUOUS, CMD_ERR_NO_MATCH, CMD_ERR_INCOMPLETE, CMD_ERR_PRIORITY_LOWER}"
      and f: "find_command (v_iPriority v) ws (map Some (sorted_commands (v_node v))) = Some (Inl c)"
    then have "c \<noteq> CMD_SUCCESS" by (auto simp: match_codes)
    then show ?thesis using that(1) f n by (simp add: cmd_execute_command_real_def)
  next
    fix e
    assume f: "find_command (v_iPriority v) ws (map Some (sorted_commands (v_node v))) =
        Some (Inr (e, args_of (ce_strvec e) ws))" "Some e \<in> set (map Some (sorted_commands (v_node v)))" "fits ws e"
    moreover have "e \<in> set (sorted_commands (v_node v))" using f(2) by auto
    ultimately show ?thesis using that(2)[of e] n by (simp add: cmd_execute_command_real_def)
  qed
qed

lemma command_effect_of_real:
  assumes v: "conn_ok k v" "\<not> v_close v" "v_node v \<notin> {USER_NODE, AUTH_NODE}" and us: "users_ok us"
    and f: "\<And>argv e. find_command (v_iPriority v) ws (map Some (sorted_commands (v_node v))) = Some (Inr (e, argv)) \<Longrightarrow>
      ce_func e \<noteq> Debug_hide"
  shows "command_effect k v us (cmd_execute_command_real junk jp other ws (v, us))"
proof (rule command_real_effect[OF v us, of junk jp other ws])
  fix c
  assume "cmd_execute_command_real junk jp other ws (v, us) = Some (c, v, us)"
  then show ?thesis using line_effect_same[OF v(1) refl us] by (simp add: command_effect_def)
next
  fix e
  assume "find_command (v_iPriority v) ws (map Some (sorted_commands (v_node v))) = Some (Inr (e, args_of (ce_strvec e) ws))"
    and "cmd_execute_command_real junk jp other ws (v, us) =
        call_command junk jp other (ce_func e) (args_of (ce_strvec e) ws) (v, us)"
  then show ?thesis using call_command_effect[OF v us f] by simp
qed

lemma command_real_total:
  assumes v: "conn_ok k v" "\<not> v_close v" "v_node v \<notin> {USER_NODE, AUTH_NODE}" and us: "users_ok us"
    and f: "\<And>n p e. find_command (v_iPriority v) ws (map Some (sorted_commands (v_node v))) = Some (Inr (e, [n, p])) \<Longrightarrow>
      ce_func e = Add_user \<Longrightarrow> 15 \<le> length p"
  shows "cmd_execute_command_real junk jp other ws (v, us) \<noteq> None"
proof (rule command_real_effect[OF v us, of junk jp other ws])
  fix e
  assume e: "find_command (v_iPriority v) ws (map Some (sorted_commands (v_node v))) =
      Some (Inr (e, args_of (ce_strvec e) ws))" "e \<in> set (sorted_commands (v_node v))" "fits ws e"
    and r: "cmd_execute_command_real junk jp other ws (v, us) =
        call_command junk jp other (ce_func e) (args_of (ce_strvec e) ws) (v, us)"
  have i: "v_user_index v < 4" using v by (simp add: conn_ok_def)
  have "ce_func e = Add_user \<Longrightarrow> \<exists>n p. args_of (ce_strvec e) ws = [n, p] \<and> 15 \<le> length p"
    using user_command_args(1)[OF e(2,3)] f e(1) by fastforce
  then show ?thesis unfolding r by (rule call_command_total[OF us i _ user_command_args(2,3)[OF e(2,3)]])
qed simp

text \<open>The same for a line, with \<open>do\<close> in front of it or not.\<close>

lemma not_above_config: "takes_commands n \<Longrightarrow> n \<noteq> DEBUG_NODE \<Longrightarrow> \<not> above_config n"
  by (cases n) (simp_all add: takes_commands_def above_config_def)

lemma debug_command_mode: "e \<in> set (sorted_commands n) \<Longrightarrow> ce_func e = Debug_hide \<Longrightarrow> n = ENABLE_NODE"
proof -
  assume e: "e \<in> set (sorted_commands n)" "ce_func e = Debug_hide"
  then obtain d where "d \<in> set (mode_commands_of n)" "fst (snd d) = Debug_hide"
    using sorted_command_template by metis
  then show "n = ENABLE_NODE" by (cases n) (auto simp: defuns)
qed

lemma found_installed:
  "find_command p ws (map Some (sorted_commands n)) = Some (Inr (e, argv)) \<Longrightarrow> e \<in> set (sorted_commands n)"
  using find_installed[of p ws n] by auto

lemma line_command_found:
  assumes "cmd_make_strvec buf = Some ws" "n = (if cmd_try_do_shortcut (v_node v) ws then ENABLE_NODE else v_node v)"
    "n \<noteq> DEBUG_NODE" "find_command (v_iPriority v) (if cmd_try_do_shortcut (v_node v) ws then tl ws else ws)
      (map Some (sorted_commands n)) = Some (Inr (e, argv))"
  shows "line_command v buf = Some (ce_func e, argv)"
  using assms by (simp add: line_command_def command_tables Let_def split: if_splits)

lemma plain_line_effect:
  assumes v: "conn_ok k v" "\<not> v_close v" and us: "users_ok us" and node: "takes_commands (v_node v)"
    and ws: "cmd_make_strvec buf = Some ws" "\<not> cmd_try_do_shortcut (v_node v) ws" and f: "\<not> enters_debug_mode v buf"
  shows "command_effect k v us (cmd_execute_command junk jp other ws (v, us))"
    and "\<not> reads_past_password v buf \<Longrightarrow> cmd_execute_command junk jp other ws (v, us) \<noteq> None"
proof -
  have n: "v_node v \<notin> {USER_NODE, AUTH_NODE}" "v_node v \<noteq> DEBUG_NODE"
    using node v by (auto simp: takes_commands_def conn_ok_def)
  have found: "line_command v buf = Some (ce_func e, argv)"
    if "find_command (v_iPriority v) ws (map Some (sorted_commands (v_node v))) = Some (Inr (e, argv))" for e argv
    using line_command_found[OF ws(1) refl, of v e argv] ws(2) n(2) that by simp
  have "ce_func e \<noteq> Debug_hide"
    if "find_command (v_iPriority v) ws (map Some (sorted_commands (v_node v))) = Some (Inr (e, argv))" for e argv
    using debug_command_mode[OF found_installed[OF that]] found[OF that] f by (auto simp: enters_debug_mode_def)
  then have e: "command_effect k v us (cmd_execute_command_real junk jp other ws (v, us))"
    by (rule command_effect_of_real[OF v n(1) us])
  have same: "cmd_execute_command junk jp other ws (v, us) = cmd_execute_command_real junk jp other ws (v, us)"
  proof (cases "cmd_execute_command_real junk jp other ws (v, us)")
    case None
    then show ?thesis using ws(2) by (simp add: cmd_execute_command_def Let_def)
  next
    case (Some x)
    obtain r v' us' where x: "x = (r, v', us')" by (cases x)
    then have "r = CMD_SUCCESS \<or> \<not> above_config (v_node v')"
      using e Some not_above_config[OF node n(2)] by (auto simp: command_effect_def)
    then show ?thesis using ws(2) Some x by (auto simp: cmd_execute_command_def Let_def)
  qed
  then show "command_effect k v us (cmd_execute_command junk jp other ws (v, us))" using e by simp
  assume "\<not> reads_past_password v buf"
  then have "cmd_execute_command_real junk jp other ws (v, us) \<noteq> None"
    using found node by (intro command_real_total[OF v n(1) us]) (fastforce simp: reads_past_password_def)
  then show "cmd_execute_command junk jp other ws (v, us) \<noteq> None" using same by simp
qed

lemma do_line_effect:
  assumes v: "conn_ok k v" "\<not> v_close v" and us: "users_ok us" and node: "takes_commands (v_node v)"
    and ws: "cmd_make_strvec buf = Some ws" "cmd_try_do_shortcut (v_node v) ws"
  shows "command_effect k v us (cmd_execute_command junk jp other ws (v, us))"
    and "\<not> reads_past_password v buf \<Longrightarrow> cmd_execute_command junk jp other ws (v, us) \<noteq> None"
proof -
  define w where "w = v\<lparr>v_node := ENABLE_NODE\<rparr>"
  have n: "v_node v \<notin> {USER_NODE, AUTH_NODE, DEBUG_NODE}" using node v by (auto simp: takes_commands_def conn_ok_def)
  have w: "conn_ok k w" "\<not> v_close w" "v_node w \<notin> {USER_NODE, AUTH_NODE}" "v_node w = ENABLE_NODE"
    "v_iPriority w = v_iPriority v" "v_user_index w = v_user_index v"
    using v n by (simp_all add: w_def conn_ok_def vty_ok_def)
  have i: "v_user_index v < 4" using w by (simp add: conn_ok_def)
  have e: "cmd_execute_command junk jp other ws (v, us) =
      map_option (\<lambda>(r, v', us'). (r, v'\<lparr>v_node := v_node v\<rparr>, us')) (cmd_execute_command_real junk jp other (tl ws) (w, us))"
    using ws(2) by (simp add: cmd_execute_command_def w_def)
  have node_back: "line_effect k v us (v'\<lparr>v_node := v_node v\<rparr>) us' \<and> v_user_index v' = v_user_index v"
    if "line_effect k w us v' us'" "v_user_index v' = v_user_index w" for v' us'
    using that w(6) i n by (auto simp: line_effect_def conn_ok_def vty_ok_def)
  show "command_effect k v us (cmd_execute_command junk jp other ws (v, us))"
  proof (cases "\<exists>e argv. find_command (v_iPriority w) (tl ws) (map Some (sorted_commands (v_node w))) = Some (Inr (e, argv)) \<and>
      ce_func e = Debug_hide")
    case True
    then obtain c argv where "find_command (v_iPriority w) (tl ws) (map Some (sorted_commands (v_node w))) = Some (Inr (c, argv))"
      "ce_func c = Debug_hide" by blast
    then have "cmd_execute_command_real junk jp other (tl ws) (w, us) = Some (CMD_SUCCESS, w\<lparr>v_node := DEBUG_NODE\<rparr>, us)"
      using w(4) by (simp add: cmd_execute_command_real_def command_tables call_command_def debug_hide_def)
    then have "cmd_execute_command junk jp other ws (v, us) = Some (CMD_SUCCESS, v, us)" using e by (simp add: w_def)
    then show ?thesis using line_effect_same[OF v(1) refl us] by (simp add: command_effect_def)
  next
    case False
    then have "command_effect k w us (cmd_execute_command_real junk jp other (tl ws) (w, us))"
      by (intro command_effect_of_real[OF w(1-3) us]) blast
    then show ?thesis using e node_back by (auto simp: command_effect_def)
  qed
  assume p: "\<not> reads_past_password v buf"
  have "cmd_execute_command_real junk jp other (tl ws) (w, us) \<noteq> None"
  proof (rule command_real_total[OF w(1-3) us])
    fix a b c
    assume "find_command (v_iPriority w) (tl ws) (map Some (sorted_commands (v_node w))) = Some (Inr (c, [a, b]))"
      and c: "ce_func c = Add_user"
    then have "line_command v buf = Some (ce_func c, [a, b])"
      using line_command_found[OF ws(1) refl, of v c "[a, b]"] ws(2) w(4,5) by simp
    then show "15 \<le> length b" using p c node by (fastforce simp: reads_past_password_def)
  qed
  then show "cmd_execute_command junk jp other ws (v, us) \<noteq> None" using e by simp
qed

lemma execute_command_effect:
  assumes v: "conn_ok k v" "\<not> v_close v" and us: "users_ok us" and node: "takes_commands (v_node v)"
    and f: "\<not> enters_debug_mode v buf"
  shows "command_effect k v us (execute_command junk jp other buf (v, us))"
    and "\<not> reads_past_password v buf \<Longrightarrow> execute_command junk jp other buf (v, us) \<noteq> None"
proof -
  have "command_effect k v us (execute_command junk jp other buf (v, us)) \<and>
    (\<not> reads_past_password v buf \<longrightarrow> execute_command junk jp other buf (v, us) \<noteq> None)"
  proof (cases "cmd_make_strvec buf")
    case None
    then show ?thesis using line_effect_same[OF v(1) refl us] by (simp add: execute_command_def command_effect_def)
  next
    case (Some ws)
    then have "execute_command junk jp other buf (v, us) = cmd_execute_command junk jp other ws (v, us)"
      by (simp add: execute_command_def)
    then show ?thesis
      using plain_line_effect[OF v us node Some _ f] do_line_effect[OF v us node Some]
      by (cases "cmd_try_do_shortcut (v_node v) ws") simp_all
  qed
  then show "command_effect k v us (execute_command junk jp other buf (v, us))"
    "\<not> reads_past_password v buf \<Longrightarrow> execute_command junk jp other buf (v, us) \<noteq> None" by blast+
qed

text \<open>A line that leads to the mode that is not in the table has no result.\<close>

lemma has_prompt_iff: "has_prompt v \<longleftrightarrow> v_node v \<noteq> DEBUG_NODE"
  by (simp add: has_prompt_def command_tables)

lemma enters_debug_undefined:
  assumes "enters_debug_mode v buf" "\<not> v_close v"
  shows "vty_execute junk jp other buf (v, us, d) = None"
proof -
  have n: "v_node v = ENABLE_NODE" using assms(1) by (simp add: enters_debug_mode_def)
  obtain ws c argv where "cmd_make_strvec buf = Some ws"
    "find_command (v_iPriority v) ws (map Some (sorted_commands ENABLE_NODE)) = Some (Inr (c, argv))" "ce_func c = Debug_hide"
    using assms(1) n
    by (auto simp: enters_debug_mode_def line_command_def cmd_try_do_shortcut_def command_tables Let_def
        split: bind_splits sum.splits prod.splits)
  then have "execute_command junk jp other buf (v, us) = Some (CMD_SUCCESS, v\<lparr>v_node := DEBUG_NODE\<rparr>, us)"
    using n by (simp add: execute_command_def cmd_execute_command_def cmd_try_do_shortcut_def cmd_execute_command_real_def
        command_tables call_command_def debug_hide_def)
  then show ?thesis using n assms(2) by (simp add: vty_execute_def has_prompt_iff)
qed

lemma vty_execute_effect:
  assumes v: "conn_ok k v" "\<not> v_close v" and us: "users_ok us" and buf: "plain_line buf"
  shows "(\<not> reads_past_password v buf \<longrightarrow> \<not> enters_debug_mode v buf \<longrightarrow> vty_execute junk jp other buf (v, us, d) \<noteq> None) \<and>
    (\<forall>v' us' d'. vty_execute junk jp other buf (v, us, d) = Some (v', us', d') \<longrightarrow> line_effect k v us v' us')"
proof -
  define step where "step = (if v_node v \<in> {USER_NODE, AUTH_NODE, AUTH_ENABLE_NODE} then vty_auth junk jp buf (v, us, d)
    else if v_node v \<in> {CHANGE_PASSWD_NODE, CHANGE_PASSWD_AGAIN_NODE}
    then map_option (\<lambda>(r, v', us'). (v', us', d)) (change_vty_passwd buf (v, us))
    else map_option (\<lambda>(r, v', us'). (v', us', d)) (execute_command junk jp other buf (v, us)))"
  have x: "vty_execute junk jp other buf (v, us, d) =
      do { (v', us', d') \<leftarrow> step; if v_close v' \<or> has_prompt v' then Some (v', us', d') else None }"
    by (simp add: vty_execute_def step_def)
  have effect: "(\<not> reads_past_password v buf \<longrightarrow> step \<noteq> None) \<and>
      (\<forall>v' us' d'. step = Some (v', us', d') \<longrightarrow> line_effect k v us v' us')" if "\<not> enters_debug_mode v buf"
  proof -
    consider (auth) "v_node v \<in> {USER_NODE, AUTH_NODE, AUTH_ENABLE_NODE}"
      | (change) "v_node v = CHANGE_PASSWD_NODE \<or> v_node v = CHANGE_PASSWD_AGAIN_NODE"
      | (command) "takes_commands (v_node v)"
      unfolding takes_commands_def by blast
    then show ?thesis
    proof cases
      case auth
      then have "step = vty_auth junk jp buf (v, us, d)" by (simp add: step_def)
      then show ?thesis
        using vty_auth_ok[OF _ us buf, of v junk jp d] vty_auth_effect[OF v us buf, of junk jp d] v(1)
        by (auto simp: conn_ok_def)
    next
      case change
      then have "step = map_option (\<lambda>(r, v', us'). (v', us', d)) (change_vty_passwd buf (v, us))" by (auto simp: step_def)
      then show ?thesis using change_vty_passwd_effect[OF v us buf change] by auto
    next
      case command
      then have "step = map_option (\<lambda>(r, v', us'). (v', us', d)) (execute_command junk jp other buf (v, us))"
        by (simp add: step_def takes_commands_def)
      then show ?thesis using execute_command_effect[OF v us command that, of junk jp other] by (auto simp: command_effect_def)
    qed
  qed
  have prompt: "v_close v' \<or> has_prompt v'" if "line_effect k v us v' us'" for v' us'
    using that by (auto simp: line_effect_def conn_ok_def has_prompt_iff)
  show ?thesis
  proof (cases "enters_debug_mode v buf")
    case True
    then show ?thesis using v(2) by (simp add: enters_debug_undefined)
  next
    case False
    show ?thesis using effect[OF False] prompt x by (cases step) (auto split: if_splits)
  qed
qed

text \<open>The steps keep the invariant.\<close>

lemma line_keeps_sys_ok:
  assumes ok: "sys_ok s" and k: "k < 3" "s_conn s ! k = Some v" and e: "line_effect k v (s_users s) v' us'"
  shows "sys_ok (s\<lparr>s_conn := (s_conn s)[k := Some v'], s_users := us', s_dos := d'\<rparr>)"
proof -
  have l: "length (s_conn s) = 3" and m: "terms_match (s_conn s) (s_users s)" and c: "v_iVtyIndex v = k"
    and us': "users_ok us'"
    using ok k e by (auto simp: sys_ok_def conn_ok_def line_effect_def)
  have "terms_match ((s_conn s)[k := Some v']) us'"
    using e terms_match_same[OF m k(1) l k(2)] terms_match_login[OF m k(1) l k(2) _ c]
    unfolding line_effect_def terms_same_def by blast
  moreover have "\<forall>j < 3. \<forall>w. (s_conn s)[k := Some v'] ! j = Some w \<longrightarrow> conn_ok j w"
    using ok k e l by (auto simp: sys_ok_def line_effect_def nth_list_update)
  ultimately show ?thesis using us' l by (simp add: sys_ok_def)
qed

lemma close_keeps_sys_ok:
  assumes ok: "sys_ok s" and k: "k < 3" "s_conn s ! k = Some v"
  shows "sys_ok (vty_close v s)"
proof -
  have c: "v_iVtyIndex v = k" and l: "length (s_conn s) = 3" "length (s_users s) = 4"
    and m: "terms_match (s_conn s) (s_users s)"
    using ok k by (auto simp: sys_ok_def conn_ok_def users_ok_def)
  have "\<forall>j < 3. \<forall>w. (s_conn s)[k := None] ! j = Some w \<longrightarrow> conn_ok j w"
    using ok l k(1) by (auto simp: sys_ok_def nth_list_update split: if_splits)
  moreover have "users_ok (vty_close_user v (s_users s))"
    using ok by (simp add: vty_close_user_def release_user_ok sys_ok_def)
  ultimately show ?thesis
    using terms_match_close[OF m k(1) l(1) k(2) l(2) c] c k(1) l
    by (simp add: sys_ok_def vty_close_def release_vty_def MAX_TELNET_NUM_def)
qed

lemma accept_keeps_sys_ok:
  assumes ok: "sys_ok s" and ip: "address_text ip" "length junk_buf = 128" and a: "accept_conn junk_buf ip s = Some s'"
  shows "sys_ok s' \<and> s_users s' = s_users s"
proof (cases "FindDos ip (s_dos s) = Some True")
  case True
  then show ?thesis using ok a by (simp add: accept_conn_def)
next
  case False
  have l: "length (s_conn s) = 3" and m: "terms_match (s_conn s) (s_users s)" using ok by (auto simp: sys_ok_def)
  define v where "v = vty_create junk_buf ip"
  show ?thesis
  proof (cases "List.find (\<lambda>i. s_conn s ! i = None) [0..<MAX_TELNET_NUM]")
    case None
    then show ?thesis
      using ok a False
      by (auto simp: accept_conn_def registe_vty_def vty_create_def vty_close_def vty_close_user_def release_vty_def
          split: bind_splits if_splits)
  next
    case (Some i)
    then have i: "i < 3" "s_conn s ! i = None" by (auto simp: find_Some_iff MAX_TELNET_NUM_def)
    define w where "w = v\<lparr>v_iVtyIndex := i\<rparr>"
    have s': "s' = s\<lparr>s_conn := (s_conn s)[i := Some w]\<rparr>"
      using a False Some
      by (auto simp: accept_conn_def registe_vty_def w_def v_def vty_create_def split: bind_splits if_splits)
    have w: "conn_ok i w" "v_user_index w = 4"
      using ip by (simp_all add: conn_ok_def w_def v_def vty_create_def vty_ok_def address_text_def plain_line_def MAX_CLI_USER_def)
    have "(\<exists>u. (s_conn s)[i := Some w] ! j = Some u \<and> v_user_index u = b) \<longleftrightarrow> (\<exists>u. s_conn s ! j = Some u \<and> v_user_index u = b)"
      if "j < 3" "b < 4" for j b
      using i l w that by (cases "j = i") auto
    then have "terms_match ((s_conn s)[i := Some w]) (s_users s)"
      using m unfolding terms_match_def by (simp cong: conj_cong)
    moreover have "\<forall>j < 3. \<forall>u. (s_conn s)[i := Some w] ! j = Some u \<longrightarrow> conn_ok j u"
      using ok l w i(1) by (auto simp: sys_ok_def nth_list_update split: if_splits)
    ultimately show ?thesis using ok s' l by (simp add: sys_ok_def)
  qed
qed

lemma key_effect:
  assumes "conn_ok k v" "\<not> v_close v" "users_ok us" "v' = down_level_mode v \<or> v' = end_config_mode v"
  shows "line_effect k v us v' us"
  using assms
  by (auto simp: down_level_mode_def end_config_mode_def config_exit_def conn_ok_def vty_ok_def
      intro!: line_effect_same split: node_type.splits)

lemma release_user_kept: "length us = 4 \<Longrightarrow> users_kept us (release_user i t us)"
  by (auto simp: users_kept_def release_user_def nth_list_update MAX_CLI_USER_def)

lemma cli_step_ok:
  assumes step: "cli_step s s'" and ok: "sys_ok s"
  shows "sys_ok s' \<and> users_kept (s_users s) (s_users s')"
  using step
proof (cases rule: cli_step.cases)
  case (accept ip junk_buf)
  then show ?thesis using accept_keeps_sys_ok[OF ok] by simp
next
  case (line k v buf junk jp other)
  have k: "k < 3" and c: "conn_ok k v" and us: "users_ok (s_users s)"
    using line ok by (auto simp: sys_ok_def MAX_TELNET_NUM_def)
  obtain v' us' d' where e: "vty_execute junk jp other buf (v, s_users s, s_dos s) = Some (v', us', d')"
    and s': "s' = s\<lparr>s_conn := (s_conn s)[k := Some v'], s_users := us', s_dos := d'\<rparr>"
    using line by (auto simp: enter_line_def split: bind_splits)
  have "line_effect k v (s_users s) v' us'"
    using vty_execute_effect[OF c line(3) us line(4)] e by blast
  then show ?thesis using line_keeps_sys_ok[OF ok k line(2)] s' by (simp add: line_effect_def)
next
  case (key k v v')
  have k: "k < 3" and c: "conn_ok k v" and us: "users_ok (s_users s)"
    using key ok by (auto simp: sys_ok_def MAX_TELNET_NUM_def)
  have "sys_ok (s\<lparr>s_conn := (s_conn s)[k := Some v'], s_users := s_users s, s_dos := s_dos s\<rparr>)"
    by (rule line_keeps_sys_ok[OF ok k key(3) key_effect[OF c key(4) us key(5)]])
  then show ?thesis using key(1) by simp
next
  case (hang_up k v)
  then show ?thesis
    using close_keeps_sys_ok[OF ok, of k v] ok
    by (auto simp: MAX_TELNET_NUM_def vty_close_def vty_close_user_def sys_ok_def users_ok_def release_user_kept)
next
  case (second d)
  then show ?thesis using ok by (simp add: sys_ok_def)
qed

lemma cli_start_ok: "sys_ok cli_start"
proof -
  have "u_term (user_init ! i) = 0" if "i < 4" for i
    using that by (simp add: user_init_def MAX_CLI_USER_def nth_list_update)
  then show ?thesis by (simp add: sys_ok_def cli_start_def user_init_ok terms_match_def MAX_TELNET_NUM_def)
qed

lemma cli_reachable_ok: "cli_reachable s \<Longrightarrow> sys_ok s"
  by (induction rule: cli_reachable.induct) (simp_all add: cli_start_ok cli_step_ok)

lemma logged_in_place_used:
  assumes "sys_ok s" "k < 3" "s_conn s ! k = Some v" "v_user_index v < 4"
  shows "u_term (s_users s ! v_user_index v) \<noteq> 0"
proof -
  have "bit (u_term (s_users s ! v_user_index v)) (k + 1)"
    using assms unfolding sys_ok_def terms_match_def by blast
  then show ?thesis by (cases "u_term (s_users s ! v_user_index v) = 0") simp_all
qed

section \<open>What a login decides\<close>

lemma c_str_zero [simp]: "c_str (0 # b) = []"
  by (simp add: c_str_def)

lemma use_auth_known:
  assumes "users_ok us" "slot_where (\<lambda>u. u_name u = name) us = Some i"
  shows "use_auth junk name pass pri us =
    (if junk = 0 \<and> pass = c_str (u_pwd (us ! i)) then CMD_SUCCESS else CMD_ERR_NO_MATCH, u_pri (us ! i))"
proof -
  have u: "length (u_pwd (us ! i)) = 17" "u_pwd (us ! i) ! 16 = 0"
    using users_ok_nth[OF assms(1)] slot_where_Some(1)[OF assms(2)] by auto
  have "take 16 (u_pwd (us ! i)) @ [0] = u_pwd (us ! i)"
    using u take_Suc_conv_app_nth[of 16 "u_pwd (us ! i)"] by simp
  then show ?thesis
    using assms(2) by (simp add: use_auth_def get_cli_user_info_def MAX_PASSWD_LEN_def Let_def cmd_codes)
qed

lemma use_auth_unknown:
  assumes "slot_where (\<lambda>u. u_name u = name) us = None"
  shows "use_auth junk name pass pri us = (if junk = 0 \<and> pass = [] then CMD_SUCCESS else CMD_ERR_NO_MATCH, pri)"
  using assms by (simp add: use_auth_def get_cli_user_info_def Let_def cmd_codes)

lemma vty_auth_unknown:
  assumes "vty_ok v" "v_node v = AUTH_NODE" "slot_where (\<lambda>u. u_name u = c_str (v_pcBuf v)) us = None"
    and "slot_where (\<lambda>u. u_term u = 0) us = Some i"
  shows "vty_auth 0 junk_pri [] (v, us, d) = Some (v\<lparr>v_node := VIEW_NODE, v_user_index := i\<rparr>,
      us[i := (us ! i)\<lparr>u_name := c_str (v_pcBuf v), u_term := terminal_bit v, u_pri := junk_pri\<rparr>], d)"
proof -
  have n: "length (c_str (v_pcBuf v)) \<le> 16" "37 \<notin> set (c_str (v_pcBuf v))" using assms by (auto simp: vty_ok_def)
  have i: "i < 4" using slot_where_Some[OF assms(4)] by simp
  have t: "terminal_bit (v\<lparr>v_node := VIEW_NODE, v_iPriority := p\<rparr>) = terminal_bit v" for p by (simp add: terminal_bit_def)
  show ?thesis
    using assms(2-4) n i
    by (simp add: vty_auth_def use_auth_unknown registe_user_def c_format_plain MAX_USER_NAME_LEN_def MAX_CLI_USER_def Let_def t)
qed

section \<open>How long a ban lasts\<close>

fun dos_passes :: "nat \<Rightarrow> dos_list \<Rightarrow> dos_list option" where
  "dos_passes 0 d = Some d"
| "dos_passes (Suc k) d = do { d \<leftarrow> DosThread_pass d; dos_passes k d }"

lemma dos_passes_add: "dos_passes (j + k) d = do { d \<leftarrow> dos_passes j d; dos_passes k d }"
  by (induction j arbitrary: d) (auto split: bind_splits)

definition one_ban :: "string_c \<Rightarrow> int \<Rightarrow> dos_list" where
  "one_ban a m = \<lparr>dos_head = Some 0, dos_mem = [0 \<mapsto> \<lparr>ds_secend = m, ds_ip = a, ds_next = None\<rparr>],
     dos_fresh = 1, dos_threads = 1\<rparr>"

definition two_bans :: "string_c \<Rightarrow> int \<Rightarrow> string_c \<Rightarrow> int \<Rightarrow> dos_list" where
  "two_bans a m b n = \<lparr>dos_head = Some 1,
     dos_mem = [0 \<mapsto> \<lparr>ds_secend = m, ds_ip = a, ds_next = None\<rparr>, 1 \<mapsto> \<lparr>ds_secend = n, ds_ip = b, ds_next = Some 0\<rparr>],
     dos_fresh = 2, dos_threads = 1\<rparr>"

lemma one_ban_pass:
  "0 < m \<Longrightarrow> DosThread_pass (one_ban a m) = Some (one_ban a (m - 1))"
  "DosThread_pass (one_ban a 0) = Some (dos_init\<lparr>dos_fresh := 1, dos_threads := 1\<rparr>)"
  by (simp_all add: DosThread_pass_def one_ban_def dos_loop.simps dos_init_def fun_upd_def fun_eq_iff)

lemma two_bans_pass:
  "0 < m \<Longrightarrow> 0 < n \<Longrightarrow> DosThread_pass (two_bans a m b n) = Some (two_bans a (m - 1) b (n - 1))"
  by (simp add: DosThread_pass_def two_bans_def dos_loop.simps fun_upd_def fun_eq_iff)

lemma two_bans_expire:
  "0 < n \<Longrightarrow> DosThread_pass (two_bans a 0 b n) = Some ((two_bans a 0 b (n - 1))
     \<lparr>dos_mem := [1 \<mapsto> \<lparr>ds_secend = n - 1, ds_ip = b, ds_next = Some 0\<rparr>]\<rparr>)"
  by (simp add: DosThread_pass_def two_bans_def dos_loop.simps fun_upd_def fun_eq_iff)

lemma one_ban_passes: "int k \<le> m \<Longrightarrow> dos_passes k (one_ban a m) = Some (one_ban a (m - int k))"
  by (induction k arbitrary: m) (simp_all add: one_ban_pass algebra_simps)

lemma two_bans_passes:
  "int k \<le> m \<Longrightarrow> int k \<le> n \<Longrightarrow> dos_passes k (two_bans a m b n) = Some (two_bans a (m - int k) b (n - int k))"
  by (induction k arbitrary: m n) (simp_all add: two_bans_pass algebra_simps)

lemma AddDos_first: "address_text a \<Longrightarrow> AddDos a dos_init = Some (one_ban a 60)"
  by (simp add: AddDos_def one_ban_def dos_init_def address_text_def plain_line_def c_format_plain)

lemma AddDos_second: "address_text b \<Longrightarrow> AddDos b (one_ban a m) = Some (two_bans a m b 60)"
  by (simp add: AddDos_def one_ban_def two_bans_def address_text_def plain_line_def c_format_plain)

lemma one_ban_find: "FindDos c (one_ban a m) = Some (c = a)"
  by (simp add: FindDos_def one_ban_def find_dos_loop.simps)

section \<open>Properties\<close>



text \<open>C22. The hidden command \<open>debug-hide 0906\<close> of an administrator in the enable mode has no result: the mode it leads to
  is never installed, and its prompt is read behind the end of the table of modes.\<close>

theorem debug_command_undefined:
  assumes "v_node v = ENABLE_NODE" "15 \<le> v_iPriority v" "\<not> v_close v"
  shows "vty_execute junk junk_pri other (chars ''debug-hide 0906'') (v, us, d) = None \<and>
    vector_slot (the command_table) (node_num DEBUG_NODE) = None"
proof
  let ?ws = "[chars ''debug-hide'', chars ''0906'']"
  let ?e = "sort_last_place (element debug_cmd)"
  have t: "(debug_cmd, [[''debug-hide''], [''0906'']]) \<in> set templates" by (simp add: templates_def)
  have e: "?e \<in> set (sorted_commands ENABLE_NODE)" by (auto simp: sorted_command_iff)
  have f: "ce_func ?e = Debug_hide" "ce_level ?e = 15" "ce_strvec ?e = [[chars ''debug-hide''], [chars ''0906'']]"
    using element_fields(2,3)[OF template_of(1)[OF t]] template_of(2)[OF t]
    by (simp_all add: debug_cmd_def sort_last_place_def)
  have "keyword_place [chars ''debug-hide'']" "keyword_place [chars ''0906'']"
    by (simp_all add: keyword_place_def keyword_words_places keyword_words_def)
  then have "spelled ?ws ?e" by (simp add: spelled_def f spelled_place_def strcasecmp_eq_def)
  then have "find_command (v_iPriority v) ?ws (map Some (sorted_commands ENABLE_NODE)) =
      Some (Inr (?e, args_of (ce_strvec ?e) ?ws))"
    using installed_found[OF e] f(2) assms(2) by simp
  moreover have "cmd_make_strvec (chars ''debug-hide 0906'') = Some ?ws"
    using cmd_make_strvec_words[of "[]" "[(chars ''debug-hide'', [32]), (chars ''0906'', [])]"]
    by (simp add: spaced_def chars_def isspace_def)
  ultimately have "line_command v (chars ''debug-hide 0906'') = Some (Debug_hide, args_of (ce_strvec ?e) ?ws)"
    using line_command_found[of "chars ''debug-hide 0906''" ?ws ENABLE_NODE v ?e] assms(1) f(1)
    by (simp add: cmd_try_do_shortcut_def)
  then show "vty_execute junk junk_pri other (chars ''debug-hide 0906'') (v, us, d) = None"
    using assms(1,3) by (intro enters_debug_undefined) (auto simp: enters_debug_mode_def)
  show "vector_slot (the command_table) (node_num DEBUG_NODE) = None"
    by (rule debug_slot_outside)
qed

text \<open>C27. A name that is not in the table logs in with an empty password: it gets the first place that is not in use,
  whose name becomes the new one while the password stays, and the user the place belonged to can no longer log
  in with a password. (\<open>junk\<close> is the result \<open>get_user_info\<close> never sets; when it is not 0, nobody logs in at all.)\<close>

theorem unknown_name_takes_a_place:
  assumes "users_ok us" "vty_ok v" "v_node v = AUTH_NODE" "slot_where (\<lambda>u. u_name u = c_str (v_pcBuf v)) us = None"
    and "slot_where (\<lambda>u. u_term u = 0) us = Some i" "u_name (us ! i) \<noteq> []" "pass \<noteq> []"
  shows "vty_auth 0 junk_pri [] (v, us, d) = Some (v\<lparr>v_node := VIEW_NODE, v_user_index := i\<rparr>,
      us[i := (us ! i)\<lparr>u_name := c_str (v_pcBuf v), u_term := terminal_bit v, u_pri := junk_pri\<rparr>], d)
    \<and> fst (use_auth junk (u_name (us ! i)) pass pri
        (us[i := (us ! i)\<lparr>u_name := c_str (v_pcBuf v), u_term := terminal_bit v, u_pri := junk_pri\<rparr>])) \<noteq> CMD_SUCCESS"
  (is "?login \<and> fst (use_auth _ _ _ _ ?us) \<noteq> _")
proof
  let ?name = "c_str (v_pcBuf v)"
  have i: "i < 4" using slot_where_Some[OF assms(5)] by simp
  have l: "length us = 4" using assms(1) by (simp add: users_ok_def)
  show ?login by (rule vty_auth_unknown[OF assms(2-5)])
  have "u_name (us ! j) \<noteq> u_name (us ! i)" if "j < 4" "j \<noteq> i" for j
    using assms(1,6) that i unfolding users_ok_def by metis
  moreover have "?name \<noteq> u_name (us ! i)" using assms(4) i unfolding slot_where_None by metis
  ultimately have "slot_where (\<lambda>u. u_name u = u_name (us ! i)) ?us = None"
    using l i by (auto simp: slot_where_None nth_list_update)
  then show "fst (use_auth junk (u_name (us ! i)) pass pri ?us) \<noteq> CMD_SUCCESS"
    using assms(7) by (simp add: use_auth_unknown cmd_codes)
qed

text \<open>C29. A single ban lasts 60 passes of the thread and is gone after the next. When a second address is banned in
  between, the first ban ends by freeing a node the list still leads to: after exactly the passes of the first
  ban the search for any address but the second uses freed memory.\<close>

theorem bans_expire:
  assumes a: "address_text a" and b: "address_text b" and k: "1 \<le> k" "k \<le> 60" and c: "c \<noteq> b"
  shows "do { d \<leftarrow> AddDos a dos_init; d \<leftarrow> dos_passes k d; FindDos a d } = Some True \<and>
    do { d \<leftarrow> AddDos a dos_init; d \<leftarrow> dos_passes 61 d; FindDos a d } = Some False \<and>
    (\<exists>d. do { d \<leftarrow> AddDos a dos_init; d \<leftarrow> dos_passes k d; d \<leftarrow> AddDos b d; dos_passes (61 - k) d } = Some d \<and>
      FindDos c d = None)"
proof -
  have "dos_passes (Suc 60) (one_ban a 60) = Some (dos_init\<lparr>dos_fresh := 1, dos_threads := 1\<rparr>)"
    using dos_passes_add[of 60 1] by (simp add: one_ban_passes one_ban_pass)
  then have single: "do { d \<leftarrow> AddDos a dos_init; d \<leftarrow> dos_passes 61 d; FindDos a d } = Some False"
    using AddDos_first[OF a] by (simp add: FindDos_def find_dos_loop.simps) (simp add: dos_init_def)
  define j where "j = 60 - k"
  have j: "61 - k = j + 1" "60 - int k = int j" "60 - int j = int k" using k by (auto simp: j_def)
  define e where "e = (two_bans a 0 b (int k - 1))
     \<lparr>dos_mem := [1 \<mapsto> \<lparr>ds_secend = int k - 1, ds_ip = b, ds_next = Some 0\<rparr>]\<rparr>"
  have "dos_passes (j + 1) (two_bans a (int j) b 60) = Some e"
    using k j(3) unfolding dos_passes_add e_def
    by (simp add: two_bans_passes two_bans_expire j_def)
  then have "dos_passes (61 - k) (two_bans a (60 - int k) b 60) = Some e" by (simp only: j(1,2))
  moreover have "FindDos c e = None"
    using c by (simp add: FindDos_def e_def two_bans_def find_dos_loop.simps)
  ultimately show ?thesis
    using single a b k by (simp add: AddDos_first AddDos_second one_ban_passes one_ban_find)
qed

text \<open>Witnesses: a connection from 10.0.0.9 that logs in as \<open>x\<close> with an empty password in a fresh table.\<close>

definition x_address :: string_c where "x_address = [49, 48, 46, 48, 46, 48, 46, 57]"

definition x_conn :: vty where
  "x_conn = \<lparr>v_node = AUTH_NODE, v_user_index = 4, v_pcBuf = put_str [120] (replicate 128 1), v_iVtyIndex = 0,
     v_chg_user = False, v_iPriority = 0, v_address = x_address, v_close = False, v_iInvLogin = 0\<rparr>"

lemma x_address_ok: "address_text x_address"
  by (simp add: x_address_def address_text_def plain_line_def)

lemma x_conn_ok: "vty_ok x_conn" "v_node x_conn = AUTH_NODE" "c_str (v_pcBuf x_conn) = [120]"
proof -
  show "c_str (v_pcBuf x_conn) = [120]" by (simp add: x_conn_def put_str_def c_str_def)
  then show "vty_ok x_conn" using x_address_ok
    by (simp add: vty_ok_def address_text_def plain_line_def) (simp add: x_conn_def put_str_def)
  show "v_node x_conn = AUTH_NODE" by (simp add: x_conn_def)
qed

lemma user_init_slots:
  "slot_where (\<lambda>u. u_name u = [120]) user_init = None" "slot_where (\<lambda>u. u_term u = 0) user_init = Some 0"
  by (simp_all add: slot_where_def MAX_CLI_USER_def user_init_list Let_def upt_rec)

theorem unknown_name_takes_a_place_witness:
  "fst (use_auth 0 [118, 97, 110, 101, 116] [118, 97, 110, 101, 116] 0 (user_init[0 := (user_init ! 0)\<lparr>
     u_name := [120], u_term := terminal_bit x_conn, u_pri := 7\<rparr>])) \<noteq> CMD_SUCCESS"
  using unknown_name_takes_a_place[of user_init x_conn 0 "[118, 97, 110, 101, 116]" 7 dos_init 0 0]
    user_init_ok x_conn_ok user_init_slots
  by (simp add: user_init_list Let_def)

theorem debug_command_undefined_witness:
  "vty_execute 0 7 (\<lambda>_ _. 0) (chars ''debug-hide 0906'') (x_conn\<lparr>v_node := ENABLE_NODE, v_iPriority := 15\<rparr>, user_init, dos_init) =
     None"
  using debug_command_undefined[of "x_conn\<lparr>v_node := ENABLE_NODE, v_iPriority := 15\<rparr>" 0 7 "\<lambda>_ _. 0" user_init dos_init]
  by (simp add: x_conn_def)

theorem bans_expire_witness:
  "do { d \<leftarrow> AddDos x_address dos_init; d \<leftarrow> dos_passes 61 d; FindDos x_address d } = Some False"
  using bans_expire[of x_address x_address 30 "[]"] x_address_ok by (simp add: x_address_def)

text \<open>The two states below: the connection is accepted in the first step and names itself in the second.\<close>

definition x_sys :: cli_sys where
  "x_sys = cli_start\<lparr>s_conn := [Some ((vty_create (replicate 128 1) x_address)\<lparr>v_iVtyIndex := 0\<rparr>), None, None]\<rparr>"

definition x_sys' :: cli_sys where
  "x_sys' = cli_start\<lparr>s_conn := [Some ((vty_create (replicate 128 1) x_address)
     \<lparr>v_iVtyIndex := 0, v_pcBuf := put_str [120] (replicate 128 1), v_node := AUTH_NODE\<rparr>), None, None]\<rparr>"

definition x_sys'' :: cli_sys where
  "x_sys'' = x_sys'\<lparr>s_conn := [Some ((vty_create (replicate 128 1) x_address)
     \<lparr>v_iVtyIndex := 0, v_pcBuf := put_str [120] (replicate 128 1), v_node := VIEW_NODE, v_user_index := 0\<rparr>), None, None],
     s_users := user_init[0 := (user_init ! 0)\<lparr>u_name := [120], u_term := 2, u_pri := 7\<rparr>]\<rparr>"

lemma x_sys_reachable: "cli_reachable x_sys"
proof -
  have "accept_conn (replicate 128 1) x_address cli_start = Some x_sys"
    by (simp add: accept_conn_def cli_start_def FindDos_def dos_init_def find_dos_loop.simps registe_vty_def
        MAX_TELNET_NUM_def upt_rec numeral_eq_Suc x_sys_def vty_create_def)
  then show ?thesis
    using cli_reachable.step[OF cli_reachable.start] cli_step.accept[OF x_address_ok, of "replicate 128 1"] by simp
qed

lemma x_sys'_reachable: "cli_reachable x_sys'"
proof -
  have "enter_line 0 7 (\<lambda>_ _. 0) [120] 0 ((vty_create (replicate 128 1) x_address)\<lparr>v_iVtyIndex := 0\<rparr>) x_sys = Some x_sys'"
    by (simp add: enter_line_def vty_execute_def vty_auth_def vty_create_def x_sys_def x_sys'_def MAX_USER_NAME_LEN_def
        cli_start_def has_prompt_iff)
  then show ?thesis
    by (rule cli_reachable.step[OF x_sys_reachable cli_step.line, rotated 4])
      (simp_all add: MAX_TELNET_NUM_def x_sys_def vty_create_def plain_line_def)
qed

lemma x_sys''_reachable: "cli_reachable x_sys''"
proof -
  define v where "v = (vty_create (replicate 128 1) x_address)
     \<lparr>v_iVtyIndex := 0, v_pcBuf := put_str [120] (replicate 128 1), v_node := AUTH_NODE\<rparr>"
  have c: "c_str (v_pcBuf v) = [120]" "v_node v = AUTH_NODE" "terminal_bit v = 2"
    by (simp_all add: v_def vty_create_def put_str_def c_str_def terminal_bit_def)
  have "vty_ok v"
    using x_address_ok c by (simp add: vty_ok_def address_text_def plain_line_def) (simp add: v_def vty_create_def put_str_def)
  then have "vty_auth 0 7 [] (v, user_init, dos_init) = Some (v\<lparr>v_node := VIEW_NODE, v_user_index := 0\<rparr>,
      user_init[0 := (user_init ! 0)\<lparr>u_name := [120], u_term := 2, u_pri := 7\<rparr>], dos_init)"
    using vty_auth_unknown[of v user_init 0 7 dos_init] c user_init_slots by simp
  then have e: "enter_line 0 7 (\<lambda>_ _. 0) [] 0 v x_sys' = Some x_sys''"
    using c by (simp add: enter_line_def vty_execute_def x_sys'_def x_sys''_def cli_start_def v_def has_prompt_iff)
  have "s_conn x_sys' ! 0 = Some v" "\<not> v_close v" by (simp_all add: x_sys'_def v_def vty_create_def)
  then show ?thesis
    using cli_reachable.step[OF x_sys'_reachable cli_step.line[OF _ _ _ _ e]] by (simp add: MAX_TELNET_NUM_def plain_line_def)
qed



end
