(* ===== verification/CliLine.thy ===== *)
theory CliLine
  imports CliShell LoopBuf
begin

text \<open>
  The line editor of a telnet connection (\<open>common/vty.c\<close> under \<open>app/oam/agent/cli\<close>): the buffer of the command line, the
  cursor, the keys that move and change, the history, the escape sequences and telnet options in the input, and
  what is written back to the terminal.

  A write or read outside the buffer is \<open>None\<close>. Growing the buffer with \<open>realloc\<close> leaves the new half as it was in
  memory: \<open>junk n\<close> are the \<open>n\<close> fresh bytes. Output is the sequence of bytes, line ends and prompts put into
  \<open>obuf\<close>; what becomes of it there (paging, sending) is not modelled, nor are completion and help; \<open>y_more\<close> is the status in which the sender waits
  between pages.
\<close>

section \<open>State\<close>

definition VTY_BUFSIZ :: nat where "VTY_BUFSIZ = 512"
definition VTY_MAXHIST :: nat where "VTY_MAXHIST = 20"
definition TELNET_NAWS_SB_LEN :: nat where "TELNET_NAWS_SB_LEN = 5"

definition IAC :: u8 where "IAC = 255"
definition SB :: u8 where "SB = 250"
definition SE :: u8 where "SE = 240"
definition TELOPT_NAWS :: u8 where "TELOPT_NAWS = 31"

datatype terminal_out = Out_byte u8 | Out_newline | Out_prompt node_type

datatype escape = ESC_NORMAL | PRE_ESCAPE | ESCAPE

record tty =
  y_vty :: vty
  y_buf :: bytes
  y_cp :: nat
  y_length :: nat
  y_hist :: "string_c option list"
  y_hp :: nat
  y_hindex :: nat
  y_out :: "terminal_out list"
  y_escape :: escape
  y_iac :: bool
  y_sb :: bool
  y_sb_buf :: bytes
  y_sb_len :: nat
  y_more :: bool
  y_width :: int
  y_height :: int

definition get_bytes :: "nat \<Rightarrow> nat \<Rightarrow> bytes \<Rightarrow> bytes option" where
  "get_bytes i n b = (if i + n \<le> length b then Some (take n (drop i b)) else None)"

definition put_bytes :: "nat \<Rightarrow> bytes \<Rightarrow> bytes \<Rightarrow> bytes option" where
  "put_bytes i s b = (if i + length s \<le> length b then Some (take i b @ s @ drop (i + length s) b) else None)"

definition get_byte :: "nat \<Rightarrow> bytes \<Rightarrow> u8 option" where
  "get_byte i b = (if i < length b then Some (b ! i) else None)"

section \<open>Output\<close>

text \<open>The modes in which what is typed is not shown.\<close>

definition echo_off :: "vty \<Rightarrow> bool" where
  "echo_off v \<longleftrightarrow> v_node v \<in> {AUTH_NODE, AUTH_ENABLE_NODE, CHANGE_PASSWD_NODE, CHANGE_PASSWD_AGAIN_NODE}"

definition vty_write :: "bytes \<Rightarrow> tty \<Rightarrow> tty" where
  "vty_write s t = (if echo_off (y_vty t) then t else t\<lparr>y_out := y_out t @ List.map Out_byte s\<rparr>)"

definition vty_newline :: "tty \<Rightarrow> tty" where
  "vty_newline t = t\<lparr>y_out := y_out t @ [Out_newline]\<rparr>"

definition vty_prompt :: "tty \<Rightarrow> tty" where
  "vty_prompt t = t\<lparr>y_out := y_out t @ [Out_prompt (v_node (y_vty t))]\<rparr>"

text \<open>A new connection, after its greeting and first prompt.\<close>

definition tty_create :: "bytes \<Rightarrow> string_c \<Rightarrow> tty" where
  "tty_create junk_buf ip = vty_prompt
     \<lparr>y_vty = vty_create junk_buf ip, y_buf = replicate VTY_BUFSIZ 0, y_cp = 0, y_length = 0,
      y_hist = replicate VTY_MAXHIST None, y_hp = 0, y_hindex = 0, y_out = [], y_escape = ESC_NORMAL,
      y_iac = False, y_sb = False, y_sb_buf = replicate TELNET_NAWS_SB_LEN 0, y_sb_len = 0, y_more = False, y_width = 0, y_height = 0\<rparr>"

section \<open>Keys\<close>

definition vty_ensure :: "(nat \<Rightarrow> bytes) \<Rightarrow> nat \<Rightarrow> tty \<Rightarrow> tty" where
  "vty_ensure junk n t =
     (if length (y_buf t) \<le> n then t\<lparr>y_buf := y_buf t @ junk (length (y_buf t))\<rparr> else t)"

definition vty_self_insert :: "(nat \<Rightarrow> bytes) \<Rightarrow> u8 \<Rightarrow> tty \<Rightarrow> tty option" where
  "vty_self_insert junk c t =
     (let t = vty_ensure junk (y_length t + 1) t;
          cp = y_cp t; n = y_length t - cp
      in if y_length t < cp then None
         else do { rest \<leftarrow> get_bytes cp n (y_buf t);
                   b \<leftarrow> put_bytes (cp + 1) rest (y_buf t);
                   b \<leftarrow> put_bytes cp [c] b;
                   shown \<leftarrow> get_bytes cp (n + 1) b;
                   let t = vty_write (replicate n 8) (vty_write shown (t\<lparr>y_buf := b\<rparr>));
                   Some (t\<lparr>y_cp := cp + 1, y_length := y_length t + 1\<rparr>) })"

definition vty_self_insert_overwrite :: "(nat \<Rightarrow> bytes) \<Rightarrow> u8 \<Rightarrow> tty \<Rightarrow> tty option" where
  "vty_self_insert_overwrite junk c t =
     (let t = vty_ensure junk (y_length t + 1) t
      in do { b \<leftarrow> put_bytes (y_cp t) [c] (y_buf t);
              let t = t\<lparr>y_buf := b, y_cp := y_cp t + 1\<rparr>;
              let t = (if y_length t < y_cp t then t\<lparr>y_length := y_length t + 1\<rparr> else t);
              Some (vty_write [c] t) })"

definition vty_forward_char :: "tty \<Rightarrow> tty option" where
  "vty_forward_char t =
     (if y_cp t < y_length t
      then do { c \<leftarrow> get_byte (y_cp t) (y_buf t);
                let t = vty_write [c] t;
                Some (t\<lparr>y_cp := y_cp t + 1\<rparr>) }
      else Some t)"

definition vty_backward_char :: "tty \<Rightarrow> tty" where
  "vty_backward_char t = (if 0 < y_cp t then vty_write [8] (t\<lparr>y_cp := y_cp t - 1\<rparr>) else t)"

partial_function (option) vty_beginning_of_line :: "tty \<Rightarrow> tty option" where
  "vty_beginning_of_line t = (if y_cp t \<noteq> 0 then vty_beginning_of_line (vty_backward_char t) else Some t)"

partial_function (option) vty_end_of_line :: "tty \<Rightarrow> tty option" where
  "vty_end_of_line t = (if y_cp t < y_length t then do { t \<leftarrow> vty_forward_char t; vty_end_of_line t } else Some t)"

text \<open>The loops of the word commands: go on while the byte after, or before, the cursor satisfies the test.\<close>

partial_function (option) forward_while :: "(u8 \<Rightarrow> bool) \<Rightarrow> (tty \<Rightarrow> tty option) \<Rightarrow> tty \<Rightarrow> tty option" where
  "forward_while P key t =
     (if y_cp t \<noteq> y_length t
      then do { c \<leftarrow> get_byte (y_cp t) (y_buf t);
                if P c then do { t \<leftarrow> key t; forward_while P key t } else Some t }
      else Some t)"

partial_function (option) backward_while :: "(u8 \<Rightarrow> bool) \<Rightarrow> (tty \<Rightarrow> tty option) \<Rightarrow> tty \<Rightarrow> tty option" where
  "backward_while P key t =
     (if 0 < y_cp t
      then do { c \<leftarrow> get_byte (y_cp t - 1) (y_buf t);
                if P c then do { t \<leftarrow> key t; backward_while P key t } else Some t }
      else Some t)"

definition vty_forward_word :: "tty \<Rightarrow> tty option" where
  "vty_forward_word t =
     do { t \<leftarrow> forward_while (\<lambda>c. c \<noteq> 32) vty_forward_char t; forward_while (\<lambda>c. c = 32) vty_forward_char t }"

definition vty_backward_word :: "tty \<Rightarrow> tty option" where
  "vty_backward_word t =
     do { t \<leftarrow> backward_while (\<lambda>c. c = 32) (\<lambda>t. Some (vty_backward_char t)) t;
          backward_while (\<lambda>c. c \<noteq> 32) (\<lambda>t. Some (vty_backward_char t)) t }"

definition vty_down_level :: "tty \<Rightarrow> tty" where
  "vty_down_level t = (vty_prompt ((vty_newline t)\<lparr>y_vty := down_level_mode (y_vty t)\<rparr>))\<lparr>y_cp := 0\<rparr>"

definition vty_end_config :: "tty \<Rightarrow> tty" where
  "vty_end_config t = (vty_prompt ((vty_newline t)\<lparr>y_vty := end_config_mode (y_vty t)\<rparr>))
     \<lparr>y_buf := replicate (length (y_buf t)) 0, y_length := 0, y_cp := 0\<rparr>"

definition vty_delete_char :: "tty \<Rightarrow> tty option" where
  "vty_delete_char t =
     (if y_length t = 0 then Some (vty_down_level t)
      else if y_cp t = y_length t then Some t
      else if y_length t < y_cp t then None
      else
        let size = y_length t - y_cp t; t = t\<lparr>y_length := y_length t - 1\<rparr>
        in do { rest \<leftarrow> get_bytes (y_cp t + 1) (size - 1) (y_buf t);
                b \<leftarrow> put_bytes (y_cp t) rest (y_buf t);
                b \<leftarrow> put_bytes (y_length t) [0] b;
                shown \<leftarrow> get_bytes (y_cp t) (size - 1) b;
                Some (vty_write (replicate size 8) (vty_write [32] (vty_write shown (t\<lparr>y_buf := b\<rparr>)))) })"

definition vty_delete_backward_char :: "tty \<Rightarrow> tty option" where
  "vty_delete_backward_char t = (if y_cp t = 0 then Some t else vty_delete_char (vty_backward_char t))"

definition vty_kill_line :: "tty \<Rightarrow> tty option" where
  "vty_kill_line t =
     (let size = y_length t - y_cp t
      in if y_length t < y_cp t then None
         else if size = 0 then Some t
         else let t = vty_write (replicate size 8) (vty_write (replicate size 32) t)
              in do { b \<leftarrow> put_bytes (y_cp t) (replicate size 0) (y_buf t);
                      Some (t\<lparr>y_buf := b, y_length := y_cp t\<rparr>) })"

definition vty_kill_line_from_beginning :: "tty \<Rightarrow> tty option" where
  "vty_kill_line_from_beginning t = do { t \<leftarrow> vty_beginning_of_line t; vty_kill_line t }"

definition vty_forward_kill_word :: "tty \<Rightarrow> tty option" where
  "vty_forward_kill_word t =
     do { t \<leftarrow> forward_while (\<lambda>c. c = 32) vty_delete_char t; forward_while (\<lambda>c. c \<noteq> 32) vty_delete_char t }"

definition vty_backward_kill_word :: "tty \<Rightarrow> tty option" where
  "vty_backward_kill_word t =
     do { t \<leftarrow> backward_while (\<lambda>c. c = 32) vty_delete_backward_char t;
          backward_while (\<lambda>c. c \<noteq> 32) vty_delete_backward_char t }"

definition vty_transpose_chars :: "(nat \<Rightarrow> bytes) \<Rightarrow> tty \<Rightarrow> tty option" where
  "vty_transpose_chars junk t =
     (if y_length t < 2 \<or> y_cp t < 1 then Some t
      else if y_cp t = y_length t then
        do { c1 \<leftarrow> get_byte (y_cp t - 1) (y_buf t);
             c2 \<leftarrow> get_byte (y_cp t - 2) (y_buf t);
             t \<leftarrow> vty_self_insert_overwrite junk c1 (vty_backward_char (vty_backward_char t));
             vty_self_insert_overwrite junk c2 t }
      else
        do { c1 \<leftarrow> get_byte (y_cp t) (y_buf t);
             c2 \<leftarrow> get_byte (y_cp t - 1) (y_buf t);
             t \<leftarrow> vty_self_insert_overwrite junk c1 (vty_backward_char t);
             vty_self_insert_overwrite junk c2 t })"

section \<open>History\<close>

definition vty_redraw_line :: "tty \<Rightarrow> tty option" where
  "vty_redraw_line t =
     do { shown \<leftarrow> get_bytes 0 (y_length t) (y_buf t);
          Some ((vty_write shown t)\<lparr>y_cp := y_length t\<rparr>) }"

definition vty_history_print :: "tty \<Rightarrow> tty option" where
  "vty_history_print t =
     do { t \<leftarrow> vty_kill_line_from_beginning t;
          h \<leftarrow> y_hist t ! y_hp t;
          b \<leftarrow> put_bytes 0 h (y_buf t);
          vty_redraw_line (t\<lparr>y_buf := b, y_cp := length h, y_length := length h\<rparr>) }"

definition vty_next_line :: "tty \<Rightarrow> tty option" where
  "vty_next_line t =
     (if y_hp t = y_hindex t then Some t
      else
        let try_index = (if y_hp t = VTY_MAXHIST - 1 then 0 else y_hp t + 1)
        in if y_hist t ! try_index = None then Some t else vty_history_print (t\<lparr>y_hp := try_index\<rparr>))"

definition vty_previous_line :: "tty \<Rightarrow> tty option" where
  "vty_previous_line t =
     (let try_index = (if y_hp t = 0 then VTY_MAXHIST - 1 else y_hp t - 1)
      in if y_hist t ! try_index = None then Some t else vty_history_print (t\<lparr>y_hp := try_index\<rparr>))"

definition vty_clear_buf :: "tty \<Rightarrow> tty" where
  "vty_clear_buf t = t\<lparr>y_buf := replicate (length (y_buf t)) 0\<rparr>"

text \<open>A string in the buffer has to end inside it.\<close>

definition c_string :: "bytes \<Rightarrow> string_c option" where
  "c_string b = (if 0 \<in> set b then Some (c_str b) else None)"

definition vty_hist_add :: "tty \<Rightarrow> tty option" where
  "vty_hist_add t =
     (if y_length t = 0 then Some t
      else
        let index = (if y_hindex t \<noteq> 0 then y_hindex t - 1 else VTY_MAXHIST - 1)
        in do { line \<leftarrow> c_string (y_buf t);
                if y_hist t ! index = Some line then Some (t\<lparr>y_hp := y_hindex t\<rparr>)
                else
                  let i = (if y_hindex t + 1 = VTY_MAXHIST then 0 else y_hindex t + 1)
                  in Some (t\<lparr>y_hist := (y_hist t)[y_hindex t := Some line], y_hindex := i, y_hp := i\<rparr>) })"

section \<open>Input\<close>

text \<open>What a connection works on: itself, the table of users and the list of banned addresses.\<close>

type_synonym tty_state = "tty \<times> cli_user list \<times> dos_list"

text \<open>The end of a line. Only a command goes into the history.\<close>

definition tty_execute ::
    "int \<Rightarrow> int \<Rightarrow> other_result \<Rightarrow> tty_state \<Rightarrow> tty_state option" where
  "tty_execute junk junk_pri other = (\<lambda>(t, us, d).
     do { line \<leftarrow> c_string (y_buf t);
          (v, us, d) \<leftarrow> vty_execute junk junk_pri other line (y_vty t, us, d);
          t \<leftarrow> (if v_node (y_vty t) \<in> {USER_NODE, AUTH_NODE, AUTH_ENABLE_NODE, CHANGE_PASSWD_NODE, CHANGE_PASSWD_AGAIN_NODE}
               then Some (t\<lparr>y_vty := v\<rparr>) else vty_hist_add (t\<lparr>y_vty := v\<rparr>));
          let t = vty_clear_buf (t\<lparr>y_cp := 0, y_length := 0\<rparr>);
          Some (if v_close v then t else vty_prompt t, us, d) })"

text \<open>What follows an \<open>IAC\<close>; the result is how many further bytes are skipped.\<close>

definition vty_telnet_option :: "u8 \<Rightarrow> tty \<Rightarrow> nat \<times> tty" where
  "vty_telnet_option c t =
     (if c = SB then (0, t\<lparr>y_sb_len := 0, y_sb := True\<rparr>)
      else if c = SE then
        (0, if \<not> y_sb t then t
            else if y_sb_len t = 0 \<or> y_sb_buf t ! 0 = 0 then t\<lparr>y_sb := False\<rparr>
            else
              let b = (\<lambda>i. uint (y_sb_buf t ! i));
                  t = (if y_sb_buf t ! 0 = TELOPT_NAWS \<and> y_sb_len t = TELNET_NAWS_SB_LEN
                       then t\<lparr>y_width := b 1 * 256 + b 2, y_height := b 3 * 256 + b 4\<rparr> else t)
              in t\<lparr>y_sb := False\<rparr>)
      else (1, t))"

definition vty_escape_map :: "u8 \<Rightarrow> tty \<Rightarrow> tty option" where
  "vty_escape_map c t =
     map_option (\<lambda>t. t\<lparr>y_escape := ESC_NORMAL\<rparr>)
       (if c = 65 then vty_previous_line t
        else if c = 66 then vty_next_line t
        else if c = 67 then vty_forward_char t
        else if c = 68 then Some (vty_backward_char t)
        else Some t)"

definition vty_pre_escape :: "u8 \<Rightarrow> tty \<Rightarrow> tty option" where
  "vty_pre_escape c t =
     (if c = 91 then Some (t\<lparr>y_escape := ESCAPE\<rparr>)
      else map_option (\<lambda>t. t\<lparr>y_escape := ESC_NORMAL\<rparr>)
        (if c = 98 then vty_backward_word t
         else if c = 102 then vty_forward_word t
         else if c = 100 then vty_forward_kill_word t
         else if c = 8 \<or> c = 127 then vty_backward_kill_word t
         else Some t))"

definition vty_buffer_reset :: "tty \<Rightarrow> tty option" where
  "vty_buffer_reset t = vty_redraw_line (vty_prompt (t\<lparr>y_out := []\<rparr>))"

text \<open>\<open>assist\<close> is what the tabulator and, among commands, the question mark do.\<close>

definition vty_key :: "(nat \<Rightarrow> bytes) \<Rightarrow> (u8 \<Rightarrow> tty \<Rightarrow> tty option) \<Rightarrow> u8 \<Rightarrow> tty \<Rightarrow> tty option" where
  "vty_key fresh assist c t =
     (if c = 1 then vty_beginning_of_line t
      else if c = 2 then Some (vty_backward_char t)
      else if c = 4 then vty_delete_char t
      else if c = 5 then vty_end_of_line t
      else if c = 6 then vty_forward_char t
      else if c = 8 \<or> c = 127 then vty_delete_backward_char t
      else if c = 11 then vty_kill_line t
      else if c = 14 then vty_next_line t
      else if c = 16 then vty_previous_line t
      else if c = 20 then vty_transpose_chars fresh t
      else if c = 21 then vty_kill_line_from_beginning t
      else if c = 23 then vty_backward_kill_word t
      else if c = 26 then Some (vty_end_config t)
      else if c = 9 then assist c t
      else if c = 63 then
        if v_node (y_vty t) \<in> {USER_NODE, AUTH_NODE, AUTH_ENABLE_NODE, CHANGE_PASSWD_NODE, CHANGE_PASSWD_AGAIN_NODE}
        then vty_self_insert fresh c t else assist c t
      else if 31 < c \<and> c < 127 then vty_self_insert fresh c t
      else Some t)"

text \<open>One round of the loop over a block of input: \<open>rest\<close> are the bytes behind \<open>c\<close>, of which some are skipped.\<close>

definition read_byte ::
    "(nat \<Rightarrow> bytes) \<Rightarrow> (u8 \<Rightarrow> tty \<Rightarrow> tty option) \<Rightarrow> (tty_state \<Rightarrow> tty_state option) \<Rightarrow> u8 \<Rightarrow> bytes \<Rightarrow> tty_state
     \<Rightarrow> (nat \<times> tty_state) option" where
  "read_byte fresh assist exec c rest = (\<lambda>(t, us, d).
     (if c = IAC \<and> \<not> y_iac t then Some (0, t\<lparr>y_iac := True\<rparr>, us, d)
      else
        let t = (if c = IAC then t\<lparr>y_iac := False\<rparr> else t)
        in if y_sb t \<and> \<not> y_iac t then
             Some (0, t\<lparr>y_sb_buf := (if y_sb_len t < TELNET_NAWS_SB_LEN then (y_sb_buf t)[y_sb_len t := c] else y_sb_buf t),
                        y_sb_len := y_sb_len t + 1\<rparr>, us, d)
           else if y_iac t then
             (let (skip, t) = vty_telnet_option c t in Some (skip, t\<lparr>y_iac := False\<rparr>, us, d))
           else if y_more t then
             map_option (\<lambda>t. (0, t, us, d)) (if c = 3 \<or> c = 113 \<or> c = 81 then vty_buffer_reset t else Some t)
           else if y_escape t = ESCAPE then map_option (\<lambda>t. (0, t, us, d)) (vty_escape_map c t)
           else if y_escape t = PRE_ESCAPE then map_option (\<lambda>t. (0, t, us, d)) (vty_pre_escape c t)
           else if c = 27 then
             (if rest \<noteq> [] \<and> hd rest = 91 then Some (1, t\<lparr>y_escape := ESCAPE\<rparr>, us, d)
              else Some (0, t\<lparr>y_escape := PRE_ESCAPE\<rparr>, us, d))
           else if c = 13 then map_option (\<lambda>s. (0, s)) (exec (vty_newline t, us, d))
           else map_option (\<lambda>t. (0, t, us, d)) (vty_key fresh assist c t)))"

function read_block ::
    "(nat \<Rightarrow> bytes) \<Rightarrow> (u8 \<Rightarrow> tty \<Rightarrow> tty option) \<Rightarrow> (tty_state \<Rightarrow> tty_state option) \<Rightarrow> bytes \<Rightarrow> tty_state
     \<Rightarrow> tty_state option" where
  "read_block fresh assist exec [] s = Some s"
| "read_block fresh assist exec (c # rest) s =
     (case read_byte fresh assist exec c rest s of
        None \<Rightarrow> None
      | Some (skip, s) \<Rightarrow> read_block fresh assist exec (drop skip rest) s)"
  by pat_completeness auto
termination by (relation "measure (\<lambda>(fresh, assist, exec, bs, s). length bs)") auto

text \<open>Reading from the ring until it is empty or the connection is to be closed.\<close>

partial_function (option) vty_read ::
    "(nat \<Rightarrow> bytes) \<Rightarrow> (u8 \<Rightarrow> tty \<Rightarrow> tty option) \<Rightarrow> (tty_state \<Rightarrow> tty_state option) \<Rightarrow> loop_buf \<Rightarrow> tty_state
     \<Rightarrow> (loop_buf \<times> tty_state) option" where
  "vty_read fresh assist exec ring s =
     (let (buf, ring) = loop_buf_pop_n 512 ring
      in case read_block fresh assist exec buf s of
           None \<Rightarrow> None
         | Some s \<Rightarrow>
             if v_close (y_vty (fst s)) \<or> loop_buf_isempty ring then Some (ring, s)
             else vty_read fresh assist exec ring s)"

end
