(* ===== verification/CliEdit.thy ===== *)
theory CliEdit
  imports CliLine
begin

text \<open>
  What the line editor does: each key acts on a line with a cursor, given as the bytes before and behind the
  cursor, and where typing is echoed the terminal shows that line. Then what a typed line hands to the shell.
\<close>

section \<open>The terminal\<close>

text \<open>The bytes on the terminal behind the last prompt and the position of its cursor.\<close>

fun show_out :: "bytes \<times> nat \<Rightarrow> terminal_out \<Rightarrow> bytes \<times> nat" where
  "show_out (s, k) (Out_byte c) = (if c = 8 then (s, k - 1) else (take k s @ c # drop (k + 1) s, k + 1))"
| "show_out _ Out_newline = ([], 0)"
| "show_out _ (Out_prompt _) = ([], 0)"

definition terminal :: "terminal_out list \<Rightarrow> bytes \<times> nat" where
  "terminal out = foldl show_out ([], 0) out"

lemma terminal_append: "terminal (out @ out') = foldl show_out (terminal out) out'"
  by (simp add: terminal_def)

lemma show_bytes:
  "8 \<notin> set s \<Longrightarrow> k \<le> length a \<Longrightarrow> foldl show_out (a, k) (map Out_byte s) = (take k a @ s @ drop (k + length s) a, k + length s)"
proof (induction s arbitrary: a k)
  case (Cons c s)
  let ?a = "take k a @ c # drop (k + 1) a"
  have "foldl show_out (?a, k + 1) (map Out_byte s) = (take (k + 1) ?a @ s @ drop (k + 1 + length s) ?a, k + 1 + length s)"
    using Cons by (intro Cons.IH) auto
  moreover have "take (k + 1) ?a = take k a @ [c]" "drop (k + 1 + length s) ?a = drop (k + 1 + length s) a"
    using Cons.prems by (simp_all add: add.commute)
  moreover have "k + 1 + length s = k + length (c # s)" by simp
  ultimately show ?case using Cons.prems by (simp del: drop_drop)
qed simp

lemma show_backward: "foldl show_out (a, k) (map Out_byte (replicate n 8)) = (a, k - n)"
  by (induction n arbitrary: k) auto

section \<open>A line with a cursor\<close>

definition cursor_at :: "tty \<Rightarrow> bytes \<Rightarrow> bytes \<Rightarrow> bool" where
  "cursor_at t l r \<longleftrightarrow> y_cp t = length l \<and> y_length t = length l + length r \<and>
     (\<exists>free. free \<noteq> [] \<and> y_buf t = l @ r @ free) \<and> 8 \<notin> set l \<and> 8 \<notin> set r \<and>
     (\<not> echo_off (y_vty t) \<longrightarrow> (\<exists>n. terminal (y_out t) = (l @ r @ replicate n 32, length l)))"

text \<open>What every key but those of the history leaves alone.\<close>

definition keeps :: "tty \<Rightarrow> tty \<Rightarrow> bool" where
  "keeps t t' \<longleftrightarrow> echo_off (y_vty t') = echo_off (y_vty t) \<and> y_hist t' = y_hist t \<and> y_hindex t' = y_hindex t \<and>
     y_hp t' = y_hp t \<and> length (y_buf t) \<le> length (y_buf t')"

lemma keeps_refl [simp]: "keeps t t"
  by (simp add: keeps_def)

lemma keeps_trans [trans]: "keeps t t' \<Longrightarrow> keeps t' t'' \<Longrightarrow> keeps t t''"
  by (auto simp: keeps_def)

definition fresh_ok :: "(nat \<Rightarrow> bytes) \<Rightarrow> bool" where
  "fresh_ok fresh \<longleftrightarrow> (\<forall>n. length (fresh n) = n)"

lemma vty_write_sel [simp]:
  "y_vty (vty_write s t) = y_vty t" "y_buf (vty_write s t) = y_buf t" "y_cp (vty_write s t) = y_cp t"
  "y_length (vty_write s t) = y_length t" "y_hist (vty_write s t) = y_hist t" "y_hindex (vty_write s t) = y_hindex t"
  "y_hp (vty_write s t) = y_hp t" "y_escape (vty_write s t) = y_escape t" "y_iac (vty_write s t) = y_iac t" "y_sb (vty_write s t) = y_sb t" "y_more (vty_write s t) = y_more t"
  by (simp_all add: vty_write_def)

lemma vty_write_out: "\<not> echo_off (y_vty t) \<Longrightarrow> terminal (y_out (vty_write s t)) = foldl show_out (terminal (y_out t)) (map Out_byte s)"
  by (simp add: vty_write_def terminal_append)

text \<open>Memory accesses inside the buffer.\<close>

lemma get_bytes_at: "get_bytes (length a) (length b) (a @ b @ c) = Some b"
  by (simp add: get_bytes_def)

lemma put_bytes_at: "length s = length b \<Longrightarrow> put_bytes (length a) s (a @ b @ c) = Some (a @ s @ c)"
  by (simp add: put_bytes_def)

lemma drop1_blanks: "drop 1 (replicate n (32 :: u8)) = replicate (n - 1) 32"
  by simp

text \<open>Growing the buffer leaves room for one byte more.\<close>

lemma ensure_at:
  assumes at: "cursor_at t l r" and f: "fresh_ok fresh"
  shows "cursor_at (vty_ensure fresh (y_length t + 1) t) l r \<and> keeps t (vty_ensure fresh (y_length t + 1) t) \<and>
    (\<exists>x y free. y_buf (vty_ensure fresh (y_length t + 1) t) = l @ r @ x # y # free)"
proof -
  obtain free where b: "free \<noteq> []" "y_buf t = l @ r @ free" using at by (auto simp: cursor_at_def)
  then obtain x free' where x: "free = x # free'" by (cases free) auto
  show ?thesis
  proof (cases "length (y_buf t) \<le> y_length t + 1")
    case True
    then have "free' = []" using at b x by (auto simp: cursor_at_def)
    moreover obtain y z where "fresh (length (y_buf t)) = y # z"
      using f b x by (cases "fresh (length (y_buf t))") (auto simp: fresh_ok_def dest: arg_cong[where f = length])
    ultimately show ?thesis using at b x True by (auto simp: vty_ensure_def cursor_at_def keeps_def)
  next
    case False
    then obtain y z where "free' = y # z" using at b x by (cases free') (auto simp: cursor_at_def)
    then show ?thesis using at b x False by (auto simp: vty_ensure_def)
  qed
qed

lemma self_insert_at:
  assumes at: "cursor_at t l r" and f: "fresh_ok fresh" and c: "c \<noteq> 8"
  shows "\<exists>t'. vty_self_insert fresh c t = Some t' \<and> cursor_at t' (l @ [c]) r \<and> keeps t t' \<and>
    y_vty t' = y_vty t \<and> y_escape t' = y_escape t \<and> y_iac t' = y_iac t \<and> y_sb t' = y_sb t \<and> y_more t' = y_more t"
proof -
  define u where "u = vty_ensure fresh (y_length t + 1) t"
  obtain x y free where u: "cursor_at u l r" "keeps t u" "y_buf u = l @ r @ x # y # free"
    using ensure_at[OF at f] by (auto simp: u_def)
  have same: "y_vty u = y_vty t" "y_escape u = y_escape t" "y_iac u = y_iac t" "y_sb u = y_sb t" "y_more u = y_more t"
    by (simp_all add: u_def vty_ensure_def)
  have n: "y_cp u = length l" "y_length u = length l + length r" using u by (auto simp: cursor_at_def)
  obtain d r' where dr: "r @ [x] = d # r'" by (cases "r @ [x]") auto
  have b1: "get_bytes (length l) (length r) (y_buf u) = Some r" unfolding u(3) by (rule get_bytes_at)
  have b2: "put_bytes (length l + 1) r (y_buf u) = Some (l @ d # r @ y # free)"
  proof -
    have "y_buf u = (l @ [d]) @ r' @ y # free" using dr u(3) by (metis append.assoc append_Cons append_Nil)
    moreover have "length r = length r'" using arg_cong[OF dr, of length] by simp
    ultimately show ?thesis using put_bytes_at[of r r' "l @ [d]" "y # free"] by simp
  qed
  have b3: "put_bytes (length l) [c] (l @ d # r @ y # free) = Some (l @ c # r @ y # free)"
    using put_bytes_at[of "[c]" "[d]" l] by simp
  have b4: "get_bytes (length l) (length r + 1) (l @ c # r @ y # free) = Some (c # r)"
    using get_bytes_at[of l "c # r" "y # free"] by simp
  define w where "w = vty_write (replicate (length r) 8) (vty_write (c # r) (u\<lparr>y_buf := l @ c # r @ y # free\<rparr>))"
  define t' where "t' = w\<lparr>y_cp := length l + 1, y_length := y_length w + 1\<rparr>"
  have "vty_self_insert fresh c t = Some t'"
    by (simp add: vty_self_insert_def n b1 b2 b3 b4 w_def t'_def Let_def del: One_nat_def flip: u_def)
  moreover have "\<exists>m. terminal (y_out t') = (l @ c # r @ replicate m 32, length l + 1)" if e: "\<not> echo_off (y_vty t)"
  proof -
    obtain m where m: "terminal (y_out u) = (l @ r @ replicate m 32, length l)" using u(1) e same by (auto simp: cursor_at_def)
    have "8 \<notin> set (c # r)" using u(1) c by (auto simp: cursor_at_def)
    then have "terminal (y_out t') = (l @ c # r @ drop 1 (replicate m 32), length l + 1)"
      using e m same by (simp add: t'_def w_def vty_write_out show_bytes show_backward del: map_replicate)
    then show ?thesis unfolding drop1_blanks by blast
  qed
  ultimately show ?thesis
    using u same n c by (auto simp: t'_def w_def cursor_at_def keeps_def)
qed

lemma self_insert_overwrite_at:
  assumes at: "cursor_at t l (d # r)" and f: "fresh_ok fresh" and c: "c \<noteq> 8"
  shows "\<exists>t'. vty_self_insert_overwrite fresh c t = Some t' \<and> cursor_at t' (l @ [c]) r \<and> keeps t t'"
proof -
  define u where "u = vty_ensure fresh (y_length t + 1) t"
  obtain free where u: "cursor_at u l (d # r)" "keeps t u" "y_buf u = l @ d # r @ free" "free \<noteq> []"
    using ensure_at[OF at f] by (auto simp: u_def)
  have same: "y_vty u = y_vty t" by (simp add: u_def vty_ensure_def)
  have n: "y_cp u = length l" "y_length u = length l + length (d # r)" using u by (auto simp: cursor_at_def)
  have b: "put_bytes (length l) [c] (y_buf u) = Some (l @ c # r @ free)"
    using put_bytes_at[of "[c]" "[d]" l "r @ free"] by (simp add: u(3))
  define t' where "t' = vty_write [c] (u\<lparr>y_buf := l @ c # r @ free, y_cp := length l + 1\<rparr>)"
  have "vty_self_insert_overwrite fresh c t = Some t'"
    using n b by (simp add: vty_self_insert_overwrite_def t'_def Let_def del: One_nat_def flip: u_def)
  moreover have "\<exists>m. terminal (y_out t') = (l @ c # r @ replicate m 32, length l + 1)" if e: "\<not> echo_off (y_vty t)"
  proof -
    obtain m where m: "terminal (y_out u) = (l @ d # r @ replicate m 32, length l)" using u(1) e same by (auto simp: cursor_at_def)
    show ?thesis using e m same c by (auto simp: t'_def vty_write_out)
  qed
  ultimately show ?thesis using u same n c by (auto simp: t'_def cursor_at_def keeps_def)
qed

lemma forward_char_at:
  assumes "cursor_at t l (c # r)"
  shows "\<exists>t'. vty_forward_char t = Some t' \<and> cursor_at t' (l @ [c]) r \<and> keeps t t'"
proof -
  have "get_byte (y_cp t) (y_buf t) = Some c" using assms by (auto simp: cursor_at_def get_byte_def nth_append)
  moreover have "cursor_at ((vty_write [c] t)\<lparr>y_cp := y_cp t + 1\<rparr>) (l @ [c]) r"
    using assms by (auto simp: cursor_at_def vty_write_out)
  ultimately show ?thesis using assms by (auto simp: vty_forward_char_def cursor_at_def keeps_def)
qed

lemma forward_char_end: "cursor_at t l [] \<Longrightarrow> vty_forward_char t = Some t"
  by (simp add: vty_forward_char_def cursor_at_def)

lemma backward_char_at:
  assumes "cursor_at t (l @ [c]) r"
  shows "cursor_at (vty_backward_char t) l (c # r) \<and> keeps t (vty_backward_char t)"
  using assms by (auto simp: vty_backward_char_def cursor_at_def keeps_def vty_write_out)

lemma backward_char_begin: "cursor_at t [] r \<Longrightarrow> vty_backward_char t = t"
  by (simp add: vty_backward_char_def cursor_at_def)

lemma beginning_of_line_at:
  "cursor_at t l r \<Longrightarrow> \<exists>t'. vty_beginning_of_line t = Some t' \<and> cursor_at t' [] (l @ r) \<and> keeps t t'"
proof (induction l arbitrary: t r rule: rev_induct)
  case Nil
  then show ?case by (subst vty_beginning_of_line.simps) (simp add: cursor_at_def)
next
  case (snoc c l)
  note b = backward_char_at[OF snoc.prems]
  from snoc.IH[of "vty_backward_char t" "c # r"] b obtain t' where
    "vty_beginning_of_line (vty_backward_char t) = Some t'" "cursor_at t' [] (l @ c # r)" "keeps t t'"
    by (blast intro: keeps_trans)
  moreover have "y_cp t \<noteq> 0" using snoc.prems by (simp add: cursor_at_def)
  ultimately show ?case by (subst vty_beginning_of_line.simps) simp
qed

lemma end_of_line_at:
  "cursor_at t l r \<Longrightarrow> \<exists>t'. vty_end_of_line t = Some t' \<and> cursor_at t' (l @ r) [] \<and> keeps t t'"
proof (induction r arbitrary: t l)
  case Nil
  then show ?case by (subst vty_end_of_line.simps) (simp add: cursor_at_def)
next
  case (Cons c r)
  from forward_char_at[OF Cons.prems] obtain u where u: "vty_forward_char t = Some u" "cursor_at u (l @ [c]) r" "keeps t u"
    by blast
  from Cons.IH[OF u(2)] u(3) obtain t' where "vty_end_of_line u = Some t'" "cursor_at t' (l @ c # r) []" "keeps t t'"
    by (auto intro: keeps_trans)
  moreover have "y_cp t < y_length t" using Cons.prems by (simp add: cursor_at_def)
  ultimately show ?case using u(1) by (subst vty_end_of_line.simps) simp
qed

section \<open>Words\<close>

text \<open>A loop forwards: the key either moves over the byte behind the cursor (\<open>keep\<close>) or removes it.\<close>

lemma forward_while_at:
  assumes key: "\<And>t l c r. cursor_at t l (c # r) \<Longrightarrow>
      \<exists>t'. key t = Some t' \<and> cursor_at t' (if keep then l @ [c] else l) r \<and> keeps t t'"
  shows "cursor_at t l r \<Longrightarrow> \<exists>t'. forward_while P key t = Some t' \<and>
    cursor_at t' (if keep then l @ takeWhile P r else l) (dropWhile P r) \<and> keeps t t'"
proof (induction r arbitrary: t l)
  case Nil
  then show ?case by (subst forward_while.simps) (simp add: cursor_at_def)
next
  case (Cons c r)
  have n: "y_cp t \<noteq> y_length t" "get_byte (y_cp t) (y_buf t) = Some c"
    using Cons.prems by (auto simp: cursor_at_def get_byte_def nth_append)
  show ?case
  proof (cases "P c")
    case True
    from key[OF Cons.prems] obtain u where u: "key t = Some u" "cursor_at u (if keep then l @ [c] else l) r" "keeps t u"
      by blast
    from Cons.IH[OF u(2)] u(3) obtain t' where "forward_while P key u = Some t'"
      "cursor_at t' (if keep then l @ takeWhile P (c # r) else l) (dropWhile P (c # r))" "keeps t t'"
      using True by (auto intro: keeps_trans split: if_splits)
    then show ?thesis using n u(1) True by (subst forward_while.simps) simp
  next
    case False
    then show ?thesis using n Cons.prems by (subst forward_while.simps) simp
  qed
qed

text \<open>A loop backwards.\<close>

definition lastWhile :: "('a \<Rightarrow> bool) \<Rightarrow> 'a list \<Rightarrow> 'a list" where
  "lastWhile P l = rev (takeWhile P (rev l))"

definition butlastWhile :: "('a \<Rightarrow> bool) \<Rightarrow> 'a list \<Rightarrow> 'a list" where
  "butlastWhile P l = rev (dropWhile P (rev l))"

lemma lastWhile_snoc [simp]:
  "lastWhile P [] = []" "butlastWhile P [] = []"
  "lastWhile P (l @ [c]) = (if P c then lastWhile P l @ [c] else [])"
  "butlastWhile P (l @ [c]) = (if P c then butlastWhile P l else l @ [c])"
  by (simp_all add: lastWhile_def butlastWhile_def)

lemma backward_while_at:
  assumes key: "\<And>t l c r. cursor_at t (l @ [c]) r \<Longrightarrow>
      \<exists>t'. key t = Some t' \<and> cursor_at t' l (if keep then c # r else r) \<and> keeps t t'"
  shows "cursor_at t l r \<Longrightarrow> \<exists>t'. backward_while P key t = Some t' \<and>
    cursor_at t' (butlastWhile P l) (if keep then lastWhile P l @ r else r) \<and> keeps t t'"
proof (induction l arbitrary: t r rule: rev_induct)
  case Nil
  then show ?case by (subst backward_while.simps) (simp add: cursor_at_def)
next
  case (snoc c l)
  have n: "0 < y_cp t" "get_byte (y_cp t - 1) (y_buf t) = Some c"
    using snoc.prems by (auto simp: cursor_at_def get_byte_def nth_append)
  show ?case
  proof (cases "P c")
    case True
    from key[OF snoc.prems] obtain u where u: "key t = Some u" "cursor_at u l (if keep then c # r else r)" "keeps t u"
      by blast
    from snoc.IH[OF u(2)] u(3) obtain t' where "backward_while P key u = Some t'"
      "cursor_at t' (butlastWhile P (l @ [c])) (if keep then lastWhile P (l @ [c]) @ r else r)" "keeps t t'"
      using True by (auto intro: keeps_trans split: if_splits)
    then show ?thesis using n u(1) True by (subst backward_while.simps) simp
  next
    case False
    then show ?thesis using n snoc.prems by (subst backward_while.simps) simp
  qed
qed

section \<open>Removing\<close>

lemma down_level_at:
  assumes "cursor_at t [] []"
  shows "cursor_at (vty_down_level t) [] [] \<and> keeps t (vty_down_level t)"
proof -
  have "echo_off (down_level_mode v) = echo_off v" for v
    by (auto simp: echo_off_def down_level_mode_def config_exit_def split: node_type.split)
  then show ?thesis
    using assms
    by (auto simp: vty_down_level_def vty_prompt_def vty_newline_def cursor_at_def keeps_def terminal_append)
qed

lemma delete_char_at:
  assumes at: "cursor_at t l (c # r)"
  shows "\<exists>t'. vty_delete_char t = Some t' \<and> cursor_at t' l r \<and> keeps t t'"
proof -
  obtain free where b: "y_buf t = l @ c # r @ free" using at by (auto simp: cursor_at_def)
  have n: "y_cp t = length l" "y_length t = length l + Suc (length r)" using at by (auto simp: cursor_at_def)
  have b1: "get_bytes (length l + 1) (length r) (y_buf t) = Some r"
    using get_bytes_at[of "l @ [c]" r free] b by simp
  obtain d r' where dr: "c # r = r' @ [d]" by (metis list.distinct(1) rev_exhaust)
  then have lr: "length r' = length r" by (metis length_append_singleton length_Cons nat.inject)
  have b2: "put_bytes (length l) r (y_buf t) = Some (l @ r @ d # free)"
  proof -
    have "y_buf t = l @ (c # r) @ free" using b by simp
    also have "\<dots> = l @ r' @ d # free" unfolding dr by simp
    finally show ?thesis using put_bytes_at[of r r' l "d # free"] lr by simp
  qed
  have b3: "put_bytes (length l + length r) [0] (l @ r @ d # free) = Some (l @ r @ 0 # free)"
    using put_bytes_at[of "[0]" "[d]" "l @ r" free] by simp
  have b4: "get_bytes (length l) (length r) (l @ r @ 0 # free) = Some r" by (rule get_bytes_at)
  define t' where "t' = vty_write (replicate (Suc (length r)) 8) (vty_write [32] (vty_write r
      (t\<lparr>y_length := length l + length r, y_buf := l @ r @ 0 # free\<rparr>)))"
  have "vty_delete_char t = Some t'"
    using n b1 b2 b3 b4 by (simp add: vty_delete_char_def t'_def Let_def)
  moreover have "\<exists>m. terminal (y_out t') = (l @ r @ replicate m 32, length l)" if e: "\<not> echo_off (y_vty t)"
  proof -
    obtain m where m: "terminal (y_out t) = (l @ c # r @ replicate m 32, length l)" using at e by (auto simp: cursor_at_def)
    have "8 \<notin> set r" using at by (auto simp: cursor_at_def)
    then have "terminal (y_out t') = (l @ r @ 32 # replicate m 32, length l)"
      using e m by (simp add: t'_def vty_write_out show_bytes show_backward del: map_replicate replicate_Suc)
    then show ?thesis by (metis replicate_Suc)
  qed
  ultimately show ?thesis using at b n by (auto simp: t'_def cursor_at_def keeps_def)
qed

lemma delete_char_end: "cursor_at t l [] \<Longrightarrow> l \<noteq> [] \<Longrightarrow> vty_delete_char t = Some t"
  by (auto simp: vty_delete_char_def cursor_at_def)

lemma delete_backward_char_at:
  assumes "cursor_at t (l @ [c]) r"
  shows "\<exists>t'. vty_delete_backward_char t = Some t' \<and> cursor_at t' l r \<and> keeps t t'"
proof -
  have "y_cp t \<noteq> 0" using assms by (simp add: cursor_at_def)
  then show ?thesis
    using backward_char_at[OF assms] delete_char_at[of "vty_backward_char t" l c r]
    by (auto simp: vty_delete_backward_char_def intro: keeps_trans)
qed

lemma kill_line_at:
  assumes at: "cursor_at t l r"
  shows "\<exists>t'. vty_kill_line t = Some t' \<and> cursor_at t' l [] \<and> keeps t t'"
proof (cases "r = []")
  case True
  then show ?thesis using at by (simp add: vty_kill_line_def cursor_at_def)
next
  case False
  obtain free where b: "y_buf t = l @ r @ free" using at by (auto simp: cursor_at_def)
  define w where "w = vty_write (replicate (length r) 8) (vty_write (replicate (length r) 32) t)"
  have "put_bytes (length l) (replicate (length r) 0) (y_buf t) = Some (l @ replicate (length r) 0 @ free)"
    using put_bytes_at[of "replicate (length r) 0" r l free] b by simp
  then have "vty_kill_line t = Some (w\<lparr>y_buf := l @ replicate (length r) 0 @ free, y_length := length l\<rparr>)"
    using at False by (simp add: vty_kill_line_def cursor_at_def Let_def w_def)
  moreover have "\<exists>m. terminal (y_out w) = (l @ replicate m 32, length l)" if e: "\<not> echo_off (y_vty t)"
  proof -
    obtain m where m: "terminal (y_out t) = (l @ r @ replicate m 32, length l)" using at e by (auto simp: cursor_at_def)
    have "terminal (y_out w) = (l @ replicate (length r) 32 @ replicate m 32, length l)"
      using e m by (simp add: w_def vty_write_out show_bytes show_backward del: map_replicate)
    then show ?thesis by (metis replicate_add)
  qed
  ultimately show ?thesis using at b by (auto simp: cursor_at_def keeps_def w_def)
qed

lemma kill_line_from_beginning_at:
  assumes "cursor_at t l r"
  shows "\<exists>t'. vty_kill_line_from_beginning t = Some t' \<and> cursor_at t' [] [] \<and> keeps t t'"
proof -
  obtain u where u: "vty_beginning_of_line t = Some u" "cursor_at u [] (l @ r)" "keeps t u"
    using beginning_of_line_at[OF assms] by blast
  then show ?thesis
    using kill_line_at[OF u(2)] by (auto simp: vty_kill_line_from_beginning_def intro: keeps_trans)
qed

lemma transpose_at:
  assumes at: "cursor_at t (l @ [a]) (b # r)" and f: "fresh_ok fresh"
  shows "\<exists>t'. vty_transpose_chars fresh t = Some t' \<and> cursor_at t' (l @ [b, a]) r \<and> keeps t t'"
proof -
  have g: "get_byte (y_cp t) (y_buf t) = Some b" "get_byte (y_cp t - 1) (y_buf t) = Some a"
    using at by (auto simp: cursor_at_def get_byte_def nth_append)
  have n: "\<not> (y_length t < 2 \<or> y_cp t < 1)" "y_cp t \<noteq> y_length t" and ab: "a \<noteq> 8" "b \<noteq> 8"
    using at by (auto simp: cursor_at_def)
  note v = backward_char_at[OF at]
  from self_insert_overwrite_at[OF conjunct1[OF v] f ab(2)] obtain u where
    u: "vty_self_insert_overwrite fresh b (vty_backward_char t) = Some u" "cursor_at u (l @ [b]) (b # r)"
      "keeps (vty_backward_char t) u" by blast
  from self_insert_overwrite_at[OF u(2) f ab(1)] obtain t' where
    "vty_self_insert_overwrite fresh a u = Some t'" "cursor_at t' (l @ [b, a]) r" "keeps u t'" by auto
  then show ?thesis using g n u v by (auto simp: vty_transpose_chars_def intro: keeps_trans)
qed

lemma transpose_end:
  assumes at: "cursor_at t (l @ [a, b]) []" and f: "fresh_ok fresh"
  shows "\<exists>t'. vty_transpose_chars fresh t = Some t' \<and> cursor_at t' (l @ [b, a]) [] \<and> keeps t t'"
proof -
  have g: "get_byte (y_cp t - 1) (y_buf t) = Some b" "get_byte (y_cp t - 2) (y_buf t) = Some a"
    using at by (auto simp: cursor_at_def get_byte_def nth_append)
  have n: "\<not> (y_length t < 2 \<or> y_cp t < 1)" "y_cp t = y_length t" and ab: "a \<noteq> 8" "b \<noteq> 8"
    using at by (auto simp: cursor_at_def)
  have "cursor_at t ((l @ [a]) @ [b]) []" using at by simp
  note v = backward_char_at[OF this]
  note w = backward_char_at[OF conjunct1[OF v]]
  from self_insert_overwrite_at[OF conjunct1[OF w] f ab(2)] obtain u where
    u: "vty_self_insert_overwrite fresh b (vty_backward_char (vty_backward_char t)) = Some u" "cursor_at u (l @ [b]) [b]"
      "keeps (vty_backward_char (vty_backward_char t)) u" by blast
  from self_insert_overwrite_at[OF u(2) f ab(1)] obtain t' where
    "vty_self_insert_overwrite fresh a u = Some t'" "cursor_at t' (l @ [b, a]) []" "keeps u t'" by auto
  then show ?thesis using g n u v w by (auto simp: vty_transpose_chars_def intro: keeps_trans)
qed

section \<open>History\<close>

definition hist_ok :: "tty \<Rightarrow> bool" where
  "hist_ok t \<longleftrightarrow> length (y_hist t) = 20 \<and> y_hp t < 20 \<and> y_hindex t < 20 \<and>
     (\<forall>h. Some h \<in> set (y_hist t) \<longrightarrow> length h < length (y_buf t) \<and> 8 \<notin> set h)"

lemma hist_ok_keeps: "hist_ok t \<Longrightarrow> keeps t t' \<Longrightarrow> hist_ok t'"
  by (fastforce simp: hist_ok_def keeps_def)

lemma hist_ok_hp: "hist_ok t \<Longrightarrow> q < 20 \<Longrightarrow> hist_ok (t\<lparr>y_hp := q\<rparr>)"
  by (simp add: hist_ok_def)

lemma cursor_at_hp [simp]: "cursor_at (t\<lparr>y_hp := q\<rparr>) l r = cursor_at t l r"
  by (simp add: cursor_at_def)

lemma history_print_at:
  assumes at: "cursor_at t l r" and ok: "hist_ok t" and h: "y_hist t ! y_hp t = Some h"
  shows "\<exists>t'. vty_history_print t = Some t' \<and> cursor_at t' h [] \<and> keeps t t'"
proof -
  obtain u where u: "vty_kill_line_from_beginning t = Some u" "cursor_at u [] []" "keeps t u"
    using kill_line_from_beginning_at[OF at] by blast
  have "Some h \<in> set (y_hist t)" using ok h by (metis hist_ok_def nth_mem)
  then have len: "length h < length (y_buf u)" and no8: "8 \<notin> set h" using ok u(3) by (auto simp: hist_ok_def keeps_def)
  define b where "b = h @ drop (length h) (y_buf u)"
  have p: "put_bytes 0 h (y_buf u) = Some b" using len by (simp add: put_bytes_def b_def)
  have g: "get_bytes 0 (length h) b = Some h" by (simp add: get_bytes_def b_def)
  define t' where "t' = (vty_write h (u\<lparr>y_buf := b, y_cp := length h, y_length := length h\<rparr>))\<lparr>y_cp := length h\<rparr>"
  have "vty_history_print t = Some t'"
    using u p g h by (simp add: vty_history_print_def vty_redraw_line_def keeps_def t'_def)
  moreover have "\<exists>m. terminal (y_out t') = (h @ replicate m 32, length h)" if e: "\<not> echo_off (y_vty u)"
  proof -
    obtain m where m: "terminal (y_out u) = (replicate m 32, 0)" using u(2) e by (auto simp: cursor_at_def)
    have "terminal (y_out t') = (h @ replicate (m - length h) 32, length h)"
      using e m no8 by (simp add: t'_def vty_write_out show_bytes)
    then show ?thesis by blast
  qed
  moreover have "keeps t t'" using u(3) len by (simp add: t'_def keeps_def b_def)
  ultimately show ?thesis using len no8 by (auto simp: cursor_at_def t'_def b_def)
qed

section \<open>Keys as edits of a line\<close>

datatype edit =
  Self_insert u8 | Forward_char | Backward_char | Beginning_of_line | End_of_line | Forward_word | Backward_word
| Delete_char | Delete_backward_char | Kill_line | Kill_line_from_beginning | Forward_kill_word | Backward_kill_word
| Transpose_chars | Next_line | Previous_line

fun run_edit :: "(nat \<Rightarrow> bytes) \<Rightarrow> edit \<Rightarrow> tty \<Rightarrow> tty option" where
  "run_edit fresh (Self_insert c) t = vty_self_insert fresh c t"
| "run_edit fresh Forward_char t = vty_forward_char t"
| "run_edit fresh Backward_char t = Some (vty_backward_char t)"
| "run_edit fresh Beginning_of_line t = vty_beginning_of_line t"
| "run_edit fresh End_of_line t = vty_end_of_line t"
| "run_edit fresh Forward_word t = vty_forward_word t"
| "run_edit fresh Backward_word t = vty_backward_word t"
| "run_edit fresh Delete_char t = vty_delete_char t"
| "run_edit fresh Delete_backward_char t = vty_delete_backward_char t"
| "run_edit fresh Kill_line t = vty_kill_line t"
| "run_edit fresh Kill_line_from_beginning t = vty_kill_line_from_beginning t"
| "run_edit fresh Forward_kill_word t = vty_forward_kill_word t"
| "run_edit fresh Backward_kill_word t = vty_backward_kill_word t"
| "run_edit fresh Transpose_chars t = vty_transpose_chars fresh t"
| "run_edit fresh Next_line t = vty_next_line t"
| "run_edit fresh Previous_line t = vty_previous_line t"

fun run_edits :: "(nat \<Rightarrow> bytes) \<Rightarrow> edit list \<Rightarrow> tty \<Rightarrow> tty option" where
  "run_edits fresh [] t = Some t"
| "run_edits fresh (e # es) t = do { t \<leftarrow> run_edit fresh e t; run_edits fresh es t }"

text \<open>What the keys promise: the line before and behind the cursor and the place in the history.\<close>

fun edit_spec :: "string_c option list \<Rightarrow> nat \<Rightarrow> edit \<Rightarrow> bytes \<times> bytes \<times> nat \<Rightarrow> bytes \<times> bytes \<times> nat" where
  "edit_spec hist hx (Self_insert c) (l, r, p) = (l @ [c], r, p)"
| "edit_spec hist hx Forward_char (l, r, p) = (l @ take 1 r, drop 1 r, p)"
| "edit_spec hist hx Backward_char (l, r, p) = (if l = [] then (l, r, p) else (butlast l, last l # r, p))"
| "edit_spec hist hx Beginning_of_line (l, r, p) = ([], l @ r, p)"
| "edit_spec hist hx End_of_line (l, r, p) = (l @ r, [], p)"
| "edit_spec hist hx Forward_word (l, r, p) =
     (let r1 = dropWhile (\<lambda>c. c \<noteq> 32) r
      in (l @ takeWhile (\<lambda>c. c \<noteq> 32) r @ takeWhile (\<lambda>c. c = 32) r1, dropWhile (\<lambda>c. c = 32) r1, p))"
| "edit_spec hist hx Backward_word (l, r, p) =
     (let l1 = butlastWhile (\<lambda>c. c = 32) l
      in (butlastWhile (\<lambda>c. c \<noteq> 32) l1, lastWhile (\<lambda>c. c \<noteq> 32) l1 @ lastWhile (\<lambda>c. c = 32) l @ r, p))"
| "edit_spec hist hx Delete_char (l, r, p) = (l, drop 1 r, p)"
| "edit_spec hist hx Delete_backward_char (l, r, p) = (butlast l, r, p)"
| "edit_spec hist hx Kill_line (l, r, p) = (l, [], p)"
| "edit_spec hist hx Kill_line_from_beginning (l, r, p) = ([], [], p)"
| "edit_spec hist hx Forward_kill_word (l, r, p) = (l, dropWhile (\<lambda>c. c \<noteq> 32) (dropWhile (\<lambda>c. c = 32) r), p)"
| "edit_spec hist hx Backward_kill_word (l, r, p) = (butlastWhile (\<lambda>c. c \<noteq> 32) (butlastWhile (\<lambda>c. c = 32) l), r, p)"
| "edit_spec hist hx Transpose_chars (l, r, p) =
     (if l = [] \<or> length l + length r < 2 then (l, r, p)
      else if r = [] then (butlast (butlast l) @ [last l, last (butlast l)], [], p)
      else (butlast l @ [hd r, last l], tl r, p))"
| "edit_spec hist hx Next_line (l, r, p) =
     (if p = hx then (l, r, p)
      else case hist ! ((p + 1) mod 20) of None \<Rightarrow> (l, r, p) | Some h \<Rightarrow> (h, [], (p + 1) mod 20))"
| "edit_spec hist hx Previous_line (l, r, p) =
     (case hist ! ((p + 19) mod 20) of None \<Rightarrow> (l, r, p) | Some h \<Rightarrow> (h, [], (p + 19) mod 20))"

definition edit_done :: "tty \<Rightarrow> tty option \<Rightarrow> bytes \<times> bytes \<times> nat \<Rightarrow> bool" where
  "edit_done t res s' \<longleftrightarrow> (\<exists>t' l' r' p'. res = Some t' \<and> s' = (l', r', p') \<and> cursor_at t' l' r' \<and> y_hp t' = p' \<and>
     hist_ok t' \<and> y_hist t' = y_hist t \<and> y_hindex t' = y_hindex t \<and> echo_off (y_vty t') = echo_off (y_vty t))"

lemma edit_doneI:
  assumes "\<exists>t'. res = Some t' \<and> cursor_at t' l' r' \<and> keeps t t'" "hist_ok t"
  shows "edit_done t res (l', r', y_hp t)"
proof -
  obtain t' where t': "res = Some t'" "cursor_at t' l' r'" "keeps t t'" using assms(1) by blast
  then show ?thesis using hist_ok_keeps[OF assms(2) t'(3)] by (simp add: edit_done_def keeps_def)
qed

lemma split_last: "l \<noteq> [] \<Longrightarrow> \<exists>l' c. l = l' @ [c]"
  by (metis append_butlast_last_id)

lemma word_keys_at:
  assumes at: "cursor_at t l r" and ok: "hist_ok t"
  shows "edit_done t (vty_forward_word t) (edit_spec hist hx Forward_word (l, r, y_hp t))"
    and "edit_done t (vty_backward_word t) (edit_spec hist hx Backward_word (l, r, y_hp t))"
    and "edit_done t (vty_forward_kill_word t) (edit_spec hist hx Forward_kill_word (l, r, y_hp t))"
    and "edit_done t (vty_backward_kill_word t) (edit_spec hist hx Backward_kill_word (l, r, y_hp t))"
proof -
  note fw = forward_while_at[of vty_forward_char True, unfolded if_True, OF forward_char_at at]
  obtain u where u: "forward_while (\<lambda>c. c \<noteq> 32) vty_forward_char t = Some u" "keeps t u"
    "cursor_at u (l @ takeWhile (\<lambda>c. c \<noteq> 32) r) (dropWhile (\<lambda>c. c \<noteq> 32) r)"
    using fw[where P = "\<lambda>c. c \<noteq> 32"] by blast
  from forward_while_at[of vty_forward_char True, unfolded if_True, OF forward_char_at u(3), where P = "\<lambda>c. c = 32"]
  show "edit_done t (vty_forward_word t) (edit_spec hist hx Forward_word (l, r, y_hp t))"
    using u ok by (auto simp: vty_forward_word_def Let_def intro!: edit_doneI intro: keeps_trans)
  have bk: "\<exists>t'. Some (vty_backward_char t) = Some t' \<and> cursor_at t' l (c # r) \<and> keeps t t'"
    if "cursor_at t (l @ [c]) r" for t l c r
    using backward_char_at[OF that] by simp
  note bw = backward_while_at[of "\<lambda>t. Some (vty_backward_char t)" True, unfolded if_True, OF bk at]
  obtain w where w: "backward_while (\<lambda>c. c = 32) (\<lambda>t. Some (vty_backward_char t)) t = Some w" "keeps t w"
    "cursor_at w (butlastWhile (\<lambda>c. c = 32) l) (lastWhile (\<lambda>c. c = 32) l @ r)"
    using bw[where P = "\<lambda>c. c = 32"] by blast
  from backward_while_at[of "\<lambda>t. Some (vty_backward_char t)" True, unfolded if_True, OF bk w(3), where P = "\<lambda>c. c \<noteq> 32"]
  show "edit_done t (vty_backward_word t) (edit_spec hist hx Backward_word (l, r, y_hp t))"
    using w ok by (auto simp: vty_backward_word_def Let_def intro!: edit_doneI intro: keeps_trans)
  have fk: "\<exists>t'. forward_while P vty_delete_char t = Some t' \<and> cursor_at t' l (dropWhile P r) \<and> keeps t t'"
    if "cursor_at t l r" for t l r P
    by (rule forward_while_at[of vty_delete_char False, unfolded if_False, OF _ that]) (rule delete_char_at)
  obtain x where x: "forward_while (\<lambda>c. c = 32) vty_delete_char t = Some x" "keeps t x"
    "cursor_at x l (dropWhile (\<lambda>c. c = 32) r)"
    using fk[OF at, where P = "\<lambda>c. c = 32"] by blast
  from fk[OF x(3), where P = "\<lambda>c. c \<noteq> 32"]
  show "edit_done t (vty_forward_kill_word t) (edit_spec hist hx Forward_kill_word (l, r, y_hp t))"
    using x ok by (auto simp: vty_forward_kill_word_def intro!: edit_doneI intro: keeps_trans)
  have kb: "\<exists>t'. backward_while P vty_delete_backward_char t = Some t' \<and> cursor_at t' (butlastWhile P l) r \<and> keeps t t'"
    if "cursor_at t l r" for t l r P
    by (rule backward_while_at[of vty_delete_backward_char False, unfolded if_False, OF _ that]) (rule delete_backward_char_at)
  obtain y where y: "backward_while (\<lambda>c. c = 32) vty_delete_backward_char t = Some y" "keeps t y"
    "cursor_at y (butlastWhile (\<lambda>c. c = 32) l) r"
    using kb[OF at, where P = "\<lambda>c. c = 32"] by blast
  from kb[OF y(3), where P = "\<lambda>c. c \<noteq> 32"]
  show "edit_done t (vty_backward_kill_word t) (edit_spec hist hx Backward_kill_word (l, r, y_hp t))"
    using y ok by (auto simp: vty_backward_kill_word_def intro!: edit_doneI intro: keeps_trans)
qed

lemma history_key_at:
  assumes at: "cursor_at t l r" and ok: "hist_ok t" and q: "q < 20"
  shows "edit_done t (if y_hist t ! q = None then Some t else vty_history_print (t\<lparr>y_hp := q\<rparr>))
    (case y_hist t ! q of None \<Rightarrow> (l, r, y_hp t) | Some h \<Rightarrow> (h, [], q))"
proof (cases "y_hist t ! q")
  case None
  then show ?thesis using at ok by (auto intro!: edit_doneI)
next
  case (Some h)
  have "edit_done (t\<lparr>y_hp := q\<rparr>) (vty_history_print (t\<lparr>y_hp := q\<rparr>)) (h, [], y_hp (t\<lparr>y_hp := q\<rparr>))"
    using history_print_at[of "t\<lparr>y_hp := q\<rparr>" l r h] at hist_ok_hp[OF ok q] Some by (intro edit_doneI) simp_all
  then show ?thesis using Some by (simp add: edit_done_def)
qed

lemma run_edit_spec:
  assumes at: "cursor_at t l r" and ok: "hist_ok t" and f: "fresh_ok fresh" and c: "\<forall>c. e = Self_insert c \<longrightarrow> c \<noteq> 8"
  shows "edit_done t (run_edit fresh e t) (edit_spec (y_hist t) (y_hindex t) e (l, r, y_hp t))"
proof (cases e)
  case (Self_insert c)
  then show ?thesis using self_insert_at[OF at f, of c] c ok by (auto intro!: edit_doneI)
next
  case Forward_char
  then show ?thesis using forward_char_at[of t l] forward_char_end[of t l] at ok
    by (cases r) (auto intro!: edit_doneI)
next
  case Backward_char
  then show ?thesis using backward_char_at[of t _ _ r] backward_char_begin[of t r] at ok
    by (cases l rule: rev_cases) (auto intro!: edit_doneI)
next
  case Delete_char
  show ?thesis
  proof (cases "l = [] \<and> r = []")
    case True
    then show ?thesis
      using Delete_char down_level_at[of t] at ok by (auto simp: vty_delete_char_def cursor_at_def[of t] intro!: edit_doneI)
  next
    case False
    then show ?thesis using Delete_char delete_char_at[of t l] delete_char_end[of t l] at ok
      by (cases r) (auto intro!: edit_doneI)
  qed
next
  case Delete_backward_char
  have "l = [] \<Longrightarrow> vty_delete_backward_char t = Some t" using at by (simp add: vty_delete_backward_char_def cursor_at_def)
  then show ?thesis using Delete_backward_char delete_backward_char_at[of t _ _ r] at ok
    by (cases l rule: rev_cases) (auto intro!: edit_doneI)
next
  case Transpose_chars
  consider "l = [] \<or> length l + length r < 2" | a b k where "l = k @ [a, b]" "r = []" | k a b s where "l = k @ [a]" "r = b # s"
  proof (cases r)
    case Nil
    then show thesis using that(1,2) by (cases l rule: rev_cases; cases "butlast l" rule: rev_cases) auto
  next
    case (Cons b s)
    then show thesis using that(1,3) by (cases l rule: rev_cases) auto
  qed
  then show ?thesis
  proof cases
    case 1
    then have "vty_transpose_chars fresh t = Some t" using at by (auto simp: vty_transpose_chars_def cursor_at_def)
    then show ?thesis using Transpose_chars 1 at ok by (auto intro!: edit_doneI)
  next
    case 2
    then show ?thesis using Transpose_chars transpose_end[OF _ f] at ok by (auto simp: butlast_append intro!: edit_doneI)
  next
    case 3
    then show ?thesis using Transpose_chars transpose_at[OF _ f] at ok by (auto intro!: edit_doneI)
  qed
next
  case Next_line
  have q: "(if y_hp t = VTY_MAXHIST - 1 then 0 else y_hp t + 1) = (y_hp t + 1) mod 20"
    using ok by (auto simp: hist_ok_def VTY_MAXHIST_def mod_Suc)
  have "edit_done t (Some t) (l, r, y_hp t)" using at ok by (auto intro!: edit_doneI)
  then show ?thesis
    using Next_line history_key_at[OF at ok, of "(y_hp t + 1) mod 20"] by (cases "y_hp t = y_hindex t") (simp_all add: vty_next_line_def q Let_def del: One_nat_def)
next
  case Previous_line
  have q: "(if y_hp t = 0 then VTY_MAXHIST - 1 else y_hp t - 1) = (y_hp t + 19) mod 20"
    using ok by (auto simp: hist_ok_def VTY_MAXHIST_def mod_if)
  show ?thesis
    using Previous_line history_key_at[OF at ok, of "(y_hp t + 19) mod 20"] by (simp add: vty_previous_line_def q Let_def)
qed (use at ok beginning_of_line_at[OF at] end_of_line_at[OF at] kill_line_at[OF at] kill_line_from_beginning_at[OF at]
    word_keys_at[OF at ok] in \<open>auto intro!: edit_doneI simp del: edit_spec.simps(6,7,12,13)\<close>)

section \<open>A typed line\<close>

definition typed :: "tty \<Rightarrow> bytes \<Rightarrow> bool" where
  "typed t l \<longleftrightarrow> cursor_at t l [] \<and> length l < 512 \<and> y_buf t = l @ replicate (512 - length l) 0 \<and>
     y_escape t = ESC_NORMAL \<and> \<not> y_iac t \<and> \<not> y_sb t \<and> \<not> y_more t"

text \<open>Characters every mode takes as they are.\<close>

definition plain_char :: "u8 \<Rightarrow> bool" where
  "plain_char c \<longleftrightarrow> 31 < c \<and> c < 127 \<and> c \<noteq> 63"

lemma plain_char_simps:
  "plain_char c \<Longrightarrow> c \<noteq> 1 \<and> c \<noteq> 2 \<and> c \<noteq> 4 \<and> c \<noteq> 5 \<and> c \<noteq> 6 \<and> c \<noteq> 8 \<and> c \<noteq> 127 \<and> c \<noteq> 11 \<and> c \<noteq> 14 \<and> c \<noteq> 16 \<and> c \<noteq> 20 \<and>
     c \<noteq> 21 \<and> c \<noteq> 23 \<and> c \<noteq> 26 \<and> c \<noteq> 9 \<and> c \<noteq> 63 \<and> c \<noteq> 13 \<and> c \<noteq> 27 \<and> c \<noteq> 255 \<and> c \<noteq> 0 \<and> 31 < c \<and> c < 127"
  by (auto simp: plain_char_def)

lemma self_insert_buf:
  assumes "cursor_at t l []" "vty_self_insert fresh c t = Some t'" "y_buf (vty_ensure fresh (y_length t + 1) t) = l @ x # z"
  shows "y_buf t' = l @ c # z"
proof -
  have "y_cp (vty_ensure fresh (y_length t + 1) t) = length l" "y_length (vty_ensure fresh (y_length t + 1) t) = length l"
    using assms(1) by (simp_all add: vty_ensure_def cursor_at_def)
  moreover have "put_bytes (length l) [c] (l @ x # z) = Some (l @ c # z)" using put_bytes_at[of "[c]" "[x]" l z] by simp
  ultimately show ?thesis
    using assms(2,3) unfolding vty_self_insert_def
    by (auto simp: get_bytes_def put_bytes_def[of "Suc (length l)"] Let_def)
qed

lemma plain_key:
  assumes at: "cursor_at t l []" and f: "fresh_ok fresh" and c: "plain_char c"
    and idle: "y_escape t = ESC_NORMAL" "\<not> y_iac t" "\<not> y_sb t" "\<not> y_more t"
  shows "\<exists>t'. read_byte fresh assist exec c rest (t, us, d) = Some (0, t', us, d) \<and> vty_self_insert fresh c t = Some t' \<and>
    cursor_at t' (l @ [c]) [] \<and> keeps t t' \<and> y_vty t' = y_vty t \<and> y_escape t' = ESC_NORMAL \<and> \<not> y_iac t' \<and> \<not> y_sb t' \<and> \<not> y_more t'"
proof -
  note n = plain_char_simps[OF c]
  obtain t' where t': "vty_self_insert fresh c t = Some t'" "cursor_at t' (l @ [c]) []" "keeps t t'" "y_vty t' = y_vty t"
    "y_escape t' = ESC_NORMAL" "\<not> y_iac t'" "\<not> y_sb t'" "\<not> y_more t'"
    using self_insert_at[OF at f, of c] n idle by auto
  moreover have "vty_key fresh assist c t = Some t'" using n t'(1) by (simp add: vty_key_def)
  ultimately show ?thesis using n idle by (simp add: read_byte_def IAC_def)
qed

lemma type_char:
  assumes t: "typed t l" and l: "length l < 511" and f: "fresh_ok fresh" and c: "plain_char c"
  shows "\<exists>t'. read_byte fresh assist exec c rest (t, us, d) = Some (0, t', us, d) \<and> typed t' (l @ [c]) \<and> y_vty t' = y_vty t \<and>
    keeps t t'"
proof -
  have at: "cursor_at t l []" using t by (simp add: typed_def)
  obtain t' where t': "read_byte fresh assist exec c rest (t, us, d) = Some (0, t', us, d)" "vty_self_insert fresh c t = Some t'"
    "cursor_at t' (l @ [c]) []" "y_vty t' = y_vty t" "keeps t t'" "y_escape t' = ESC_NORMAL" "\<not> y_iac t'" "\<not> y_sb t'" "\<not> y_more t'"
    using plain_key[OF at f c, where assist = assist and exec = exec and rest = rest and us = us and d = d] t
    unfolding typed_def by blast
  obtain k where k: "512 - length l = Suc k" using l by (cases "512 - length l") auto
  have "0 < k" using k l by arith
  then have "y_buf (vty_ensure fresh (y_length t + 1) t) = l @ 0 # replicate k 0"
    using t k by (simp add: vty_ensure_def typed_def cursor_at_def)
  from self_insert_buf[OF at t'(2) this] have "y_buf t' = l @ c # replicate k 0" .
  have "y_buf t' = (l @ [c]) @ replicate (512 - length (l @ [c])) 0"
  proof -
    have "512 - length (l @ [c]) = k" using k by simp
    then show ?thesis using \<open>y_buf t' = l @ c # replicate k 0\<close> by (simp only: append.assoc append_Cons append_Nil)
  qed
  then show ?thesis using t' l by (auto simp: typed_def)
qed

lemma type_line:
  assumes "typed t l" "length l + length s < 512" "fresh_ok fresh" "\<forall>c \<in> set s. plain_char c"
  shows "\<exists>t'. read_block fresh assist exec (s @ rest) (t, us, d) = read_block fresh assist exec rest (t', us, d) \<and>
    typed t' (l @ s) \<and> y_vty t' = y_vty t \<and> keeps t t'"
  using assms
proof (induction s arbitrary: t l)
  case (Cons c s)
  have "length l < 511" "plain_char c" using Cons.prems by auto
  from type_char[OF Cons.prems(1) this(1) Cons.prems(3) this(2), where assist = assist and exec = exec and rest = "s @ rest" and us = us and d = d]
  obtain u where
    u: "read_byte fresh assist exec c (s @ rest) (t, us, d) = Some (0, u, us, d)" "typed u (l @ [c])" "y_vty u = y_vty t" "keeps t u"
    by blast
  from Cons.IH[OF u(2)] Cons.prems obtain t' where
    "read_block fresh assist exec (s @ rest) (u, us, d) = read_block fresh assist exec rest (t', us, d)"
    "typed t' ((l @ [c]) @ s)" "y_vty t' = y_vty u" "keeps u t'" by auto
  then show ?case using u by (auto intro: keeps_trans)
qed auto

lemma typed_string: "typed t s \<Longrightarrow> \<forall>c \<in> set s. plain_char c \<Longrightarrow> c_string (y_buf t) = Some s"
proof -
  assume t: "typed t s" and s: "\<forall>c \<in> set s. plain_char c"
  obtain k where k: "512 - length s = Suc k" using t by (cases "512 - length s") (auto simp: typed_def)
  have "0 \<notin> set s" using s plain_char_simps by blast
  then show ?thesis using t k c_str_plain[of s "replicate k 0"] by (simp add: c_string_def typed_def)
qed

lemma hist_add_ok:
  assumes "hist_ok t" "length (y_buf t) = 512" "c_string (y_buf t) = Some s" "length s < 512" "8 \<notin> set s" "vty_hist_add t = Some t'"
  shows "hist_ok t' \<and> y_buf t' = y_buf t \<and> y_vty t' = y_vty t \<and> y_out t' = y_out t \<and> y_escape t' = y_escape t \<and>
    y_iac t' = y_iac t \<and> y_sb t' = y_sb t \<and> y_more t' = y_more t"
  using assms
  by (auto simp: vty_hist_add_def hist_ok_def VTY_MAXHIST_def Let_def split: if_splits dest!: set_update_subset_insert[THEN subsetD])

text \<open>After a line the editor is ready for the next one.\<close>

lemma execute_ready:
  assumes t: "typed t s" "hist_ok t" "\<forall>c \<in> set s. plain_char c"
    and e: "tty_execute junk junk_pri other (vty_newline t, us, d) = Some (t2, us2, d2)" "\<not> v_close (y_vty t2)"
  shows "typed t2 [] \<and> hist_ok t2"
proof -
  let ?t = "vty_newline t"
  have str: "c_string (y_buf ?t) = Some s" using typed_string[OF t(1,3)] by (simp add: vty_newline_def)
  have s: "length s < 512" "8 \<notin> set s" "length (y_buf ?t) = 512"
    using t plain_char_simps by (auto simp: typed_def vty_newline_def)
  have ok: "hist_ok (?t\<lparr>y_vty := v\<rparr>)" for v using t(2) by (simp add: hist_ok_def vty_newline_def)
  obtain v us1 d1 where x: "vty_execute junk junk_pri other s (y_vty ?t, us, d) = Some (v, us1, d1)"
    using e(1) str by (auto simp: tty_execute_def split: bind_splits)
  let ?login = "v_node (y_vty ?t) \<in> {USER_NODE, AUTH_NODE, AUTH_ENABLE_NODE, CHANGE_PASSWD_NODE, CHANGE_PASSWD_AGAIN_NODE}"
  have "\<exists>u. (if ?login then Some (?t\<lparr>y_vty := v\<rparr>) else vty_hist_add (?t\<lparr>y_vty := v\<rparr>)) = Some u \<and>
    t2 = (let t = vty_clear_buf (u\<lparr>y_cp := 0, y_length := 0\<rparr>) in if v_close v then t else vty_prompt t)"
    using e(1) unfolding tty_execute_def
    by (simp add: str x Let_def Option.bind_eq_Some_conv del: insert_iff split del: if_split) blast
  then obtain u where u: "(if ?login then Some (?t\<lparr>y_vty := v\<rparr>) else vty_hist_add (?t\<lparr>y_vty := v\<rparr>)) = Some u"
    "t2 = (let t = vty_clear_buf (u\<lparr>y_cp := 0, y_length := 0\<rparr>) in if v_close v then t else vty_prompt t)" by blast
  have a: "hist_ok u \<and> y_buf u = y_buf ?t \<and> y_vty u = v \<and> y_escape u = y_escape ?t \<and> y_iac u = y_iac ?t \<and> y_sb u = y_sb ?t \<and> y_more u = y_more ?t"
    using u(1) hist_add_ok[OF ok[of v], of s u] ok str s by (auto simp del: insert_iff split: if_splits)
  then have "\<not> v_close v" using u(2) e(2) by (auto simp: Let_def vty_clear_buf_def split: if_splits)
  then have "t2 = vty_prompt (vty_clear_buf (u\<lparr>y_cp := 0, y_length := 0\<rparr>))" using u(2) by simp
  then show ?thesis
    using a t(1) s(3)
    by (auto simp: vty_prompt_def vty_clear_buf_def typed_def cursor_at_def hist_ok_def terminal_append vty_newline_def)
qed

section \<open>Properties\<close>


text \<open>C26. A line of up to 511 plain characters that waits in the ring buffer is handed to the shell as it was typed, and
  nothing behind its carriage return is looked at before: when the line closes the connection, the rest is never
  read.\<close>

theorem typed_line_runs:
  assumes "loop_buf_ok ring" "contents ring = s @ 13 # rest" "typed t []" "length s < 512" "\<forall>c \<in> set s. plain_char c"
    and "fresh_ok fresh" "hist_ok t"
  shows "\<exists>t' ring'. c_string (y_buf t') = Some s \<and> y_vty t' = y_vty t \<and> loop_buf_ok ring' \<and> contents ring' = rest \<and>
    vty_read fresh assist (tty_execute junk junk_pri other) ring (t, us, d) =
      (case tty_execute junk junk_pri other (t', us, d) of
         None \<Rightarrow> None
       | Some st \<Rightarrow> if v_close (y_vty (fst st)) \<or> rest = [] then Some (ring', st)
                   else vty_read fresh assist (tty_execute junk junk_pri other) ring' st) \<and>
    (\<forall>t2 us2 d2. tty_execute junk junk_pri other (t', us, d) = Some (t2, us2, d2) \<longrightarrow> v_close (y_vty t2) \<or>
      typed t2 [] \<and> hist_ok t2)"
proof -
  let ?exec = "tty_execute junk junk_pri other"
  obtain buf ring' where p: "loop_buf_pop_n 512 ring = (buf, ring')" by (meson surj_pair)
  have "13 \<notin> set s" using assms(5) plain_char_simps by blast
  then have buf: "buf = s @ [13]" and ring': "loop_buf_ok ring'" "contents ring' = rest"
    using lb.pop_line[OF assms(1,2) _ assms(4)] p by auto
  obtain u where u: "read_block fresh assist ?exec buf (t, us, d) = read_block fresh assist ?exec [13] (u, us, d)"
    "typed u s" "y_vty u = y_vty t" "keeps t u"
    using type_line[OF assms(3) _ assms(6,5), where rest = "[13]" and exec = ?exec and assist = assist and us = us and d = d]
      assms(4) buf by auto
  define t' where "t' = vty_newline u"
  have "read_block fresh assist ?exec buf (t, us, d) = ?exec (t', us, d)"
    using u by (simp add: read_byte_def typed_def IAC_def t'_def split: option.split)
  then have "vty_read fresh assist ?exec ring (t, us, d) =
      (case ?exec (t', us, d) of None \<Rightarrow> None
       | Some st \<Rightarrow> if v_close (y_vty (fst st)) \<or> rest = [] then Some (ring', st) else vty_read fresh assist ?exec ring' st)"
    using lb.is_empty[OF ring'(1)] ring'(2) by (subst vty_read.simps) (simp add: p split: option.split)
  moreover have "c_string (y_buf t') = Some s" "y_vty t' = y_vty t"
    using typed_string[OF u(2) assms(5)] u(3) by (simp_all add: t'_def vty_newline_def)
  moreover have "typed t2 [] \<and> hist_ok t2" if "?exec (t', us, d) = Some (t2, us2, d2)" "\<not> v_close (y_vty t2)" for t2 us2 d2
    using execute_ready[OF u(2) hist_ok_keeps[OF assms(7) u(4)] assms(5)] that unfolding t'_def by blast
  ultimately show ?thesis using ring' by blast
qed

text \<open>C28. With the 512th character the buffer grows by memory that is not cleared, and the line no longer ends: the
  string the shell is given goes on with what that memory holds.\<close>

theorem long_line_runs_on:
  assumes "typed t []" "length s = 512" "\<forall>c \<in> set s. plain_char c" "fresh_ok fresh"
  shows "\<exists>t'. read_block fresh assist exec s (t, us, d) = Some (t', us, d) \<and> y_length t' = 512 \<and>
    c_string (y_buf t') = (if 0 \<in> set (fresh 512) then Some (s @ c_str (fresh 512)) else None)"
proof -
  obtain l c where s: "s = l @ [c]" using assms(2) by (cases s rule: rev_cases) auto
  then have l: "length l = 511" "\<forall>x \<in> set l. plain_char x" and c: "plain_char c" using assms(2,3) by auto
  obtain u where u: "read_block fresh assist exec s (t, us, d) = read_block fresh assist exec [c] (u, us, d)" "typed u l"
    using type_line[OF assms(1) _ assms(4) l(2), where rest = "[c]" and exec = exec and assist = assist and us = us and d = d]
      l s by auto
  have at: "cursor_at u l []" and b: "y_buf u = l @ [0]" "y_length u = 511"
    using u(2) l by (auto simp: typed_def cursor_at_def)
  obtain t' where t': "read_byte fresh assist exec c [] (u, us, d) = Some (0, t', us, d)" "vty_self_insert fresh c u = Some t'"
    "cursor_at t' (l @ [c]) []"
    using plain_key[OF at assms(4) c, where assist = assist and exec = exec and rest = "[]" and us = us and d = d] u(2)
    unfolding typed_def by blast
  have "y_buf (vty_ensure fresh (y_length u + 1) u) = l @ 0 # fresh 512"
    using b l by (simp add: vty_ensure_def)
  from self_insert_buf[OF at t'(2) this] have "y_buf t' = s @ fresh 512" using s by simp
  moreover have "0 \<notin> set s" using assms(3) plain_char_simps by blast
  ultimately have "c_string (y_buf t') = (if 0 \<in> set (fresh 512) then Some (s @ c_str (fresh 512)) else None)"
    by (auto simp: c_string_def c_str_def takeWhile_append)
  then show ?thesis using u(1) t' l by (auto simp: cursor_at_def)
qed

text \<open>Witnesses: a new connection.\<close>

definition x_tty :: tty where "x_tty = tty_create (replicate 128 1) x_address"

lemma x_tty_ok: "typed x_tty []" "cursor_at x_tty [] []" "hist_ok x_tty" "y_hist x_tty = replicate 20 None" "y_hindex x_tty = 0"
    "y_hp x_tty = 0"
  by (simp_all add: x_tty_def tty_create_def vty_prompt_def typed_def cursor_at_def hist_ok_def terminal_def VTY_BUFSIZ_def
      VTY_MAXHIST_def)

lemma fresh_replicate: "fresh_ok (\<lambda>n. replicate n c)"
  by (simp add: fresh_ok_def)


theorem typed_line_runs_witness:
  "\<exists>t' :: tty. c_string (y_buf t') = Some [97] \<and> y_vty t' = y_vty x_tty"
proof -
  define ring where "ring = snd (loop_buf_push_n [97, 13] init_loop_buf)"
  have r: "loop_buf_ok ring" "contents ring = [97] @ 13 # []"
    using lb.push_line[of init_loop_buf "[97]"] init_loop_buf_empty by (simp_all add: ring_def)
  have c: "length [97 :: u8] < 512" "\<forall>c \<in> set [97]. plain_char c" by (simp_all add: plain_char_def)
  obtain t' :: tty where "c_string (y_buf t') = Some [97]" "y_vty t' = y_vty x_tty"
    using typed_line_runs[OF r x_tty_ok(1) c fresh_replicate[of 7] x_tty_ok(3), of "\<lambda>_. Some" 0 0 "\<lambda>_ _. 0" user_init dos_init]
    by (elim exE conjE) (rule that, assumption+)
  then show ?thesis by blast
qed

theorem long_line_runs_on_witness:
  "\<exists>t'. read_block (\<lambda>n. replicate n 7) (\<lambda>_. Some) Some (replicate 512 97) (x_tty, user_init, dos_init) =
     Some (t', user_init, dos_init) \<and> c_string (y_buf t') = None"
  using long_line_runs_on[OF x_tty_ok(1) _ _ fresh_replicate[of 7], of "replicate 512 97" "\<lambda>_. Some" Some user_init dos_init]
  by (auto simp: plain_char_def)

end
