(* ===== verification/Spec2Isabelle.thy ===== *)
theory Spec2Isabelle
  imports SysMan Lip Gps OsTimerRun Oam LoopBuf OverAir Wifi Rtc CliEdit
begin

text \<open>
  Verification library of a roadside unit for vehicle communication. All paths are below \<open>src/\<close>.

  \<^bold>\<open>The program.\<close> A receiver of satellite positions (\<open>drivers/gps\<close>) feeds the vehicle application module VAM
  (\<open>app/vam\<close>). VAM keeps the state of its own station and a table of the stations it hears, broadcasts its
  state periodically, codes and decodes the messages, and forwards those that travel more than one hop. Below
  it the wireless stack WNET (\<open>app/wnet\<close>) wraps messages in three headers and the driver
  (\<open>drivers/vnet/wifi\<close>) puts them on the air as beacon frames. The safety applications VSA (\<open>app/vsa\<close>) assess
  the table and raise alerts, which the system manager (\<open>app/sys\<close>) announces. A management interface
  (\<open>app/oam\<close>) lets a command shell, reached by telnet, read and change the configuration. Timers, queues and
  the clock come from \<open>osal\<close>; lists are those of \<open>include/list.h\<close>. The components run in tasks of their own
  and meet in event queues, in the station table, which the applications read through the interface of VAM,
  and in the global structure.

  \<^bold>\<open>How it is modelled.\<close> A definition has the name of the function or type it translates. State is a record
  that functions take and return; a C integer is a word of its width, a float is a rational number rounded
  as the type requires (\<open>CFloat\<close>), memory shared by pointers is a heap from addresses to nodes. A result
  \<open>None\<close> stands for what C leaves undefined (access outside a buffer, use of freed memory, a conversion out of
  range, a failed assertion) and for a loop that does not end. What the program is not the author of is a
  parameter: the functions of \<open>libm\<close> (record \<open>libm\<close>), \<open>mktime\<close>, the clock, the contents of variables that are
  read before they are set (\<open>junk\<close>) and of fresh memory, and whether a system call succeeds. Concurrency is a
  step relation: each task, timer callback and external event is a step that may come at any time; functions
  guarded by a mutex or run by one task are single steps.

  \<^bold>\<open>Theories, from the bottom.\<close>

  \<^item> \<open>Prelude\<close>: integer types, byte order, masks, collections of rewrite rules and shared lemmas. \<open>CFloat\<close>: the
    floating point types.
  \<^item> \<open>ListH\<close>: \<open>include/list.h\<close> on a heap of links. A circular list represents a sequence of nodes (\<open>dll\<close>) and
    each operation is shown to act on that sequence; the locale \<open>node_lists\<close> is what the users of two lists
    over one pool rely on.
  \<^item> \<open>Osal\<close>: \<open>timespec\<close> arithmetic, timers as the modules above see them, the bounded queue (locale
    \<open>event_queue\<close>, interpreted for the queue of every task). \<open>OsTimer\<close>, \<open>OsTimerInv\<close>, \<open>OsTimerRun\<close>: the timer
    module \<open>osal/linux/os_timer.c\<close> itself, its pools and ordered queues, the invariant of its heap, the
    threads that expire timers, and the refinement of the simple timers of \<open>Osal\<close>.
  \<^item> \<open>CmsDef\<close>: the shared types of \<open>include/cv_vam.h\<close>, \<open>cv_vsa.h\<close>, \<open>cv_wnet.h\<close>, \<open>cv_cms_def.h\<close> and the wire layout.
  \<^item> \<open>Vsm\<close> (\<open>cv_vam_vsm.c\<close>): the station table, its aging and the broadcast control; \<open>Util\<close> (\<open>cv_vam_util.c\<close>):
    geometry and dead reckoning; \<open>VamApi\<close> (\<open>cv_vam_api.c\<close>): the interface of the applications; \<open>Rcp\<close>
    (\<open>cv_vam_rcp.c\<close>): the message codec; \<open>Mda\<close> (\<open>cv_vam_mda.c\<close>): relaying; \<open>Lip\<close> (\<open>cv_vam_lip.c\<close>,
    \<open>cv_vam_lip_nmea.c\<close>): the parser of the receiver's sentences; \<open>VamMain\<close> (\<open>cv_vam_main.c\<close>): the VAM task, the
    step relation of everything that touches the table, and the invariants of its reachable states.
  \<^item> \<open>Wnet\<close> (\<open>app/wnet\<close>, \<open>cv_drv_wifi.c\<close>): the protocol layers in both directions; \<open>Wifi\<close> (\<open>cv_drv_wifi_dev.c\<close>,
    \<open>radiotap.c\<close>, \<open>cv_drv_wifi_util.c\<close>): the packet filter of the monitor socket, the radiotap header,
    channels; \<open>OverAir\<close>: two stations, from the state of the one to the table of the other.
  \<^item> \<open>Vsa\<close>, \<open>VsaSafe\<close> (\<open>app/vsa/cv_vsa_main.c\<close>): the assessment of the neighbours, the list of close stations, the
    alerts, and what they guarantee in every interleaving.
  \<^item> \<open>SysQueue\<close>, \<open>SysMan\<close> (\<open>cv_sys_manager.c\<close>, \<open>cv_sys_main.c\<close>): the queues and tasks of the manager, the start of
    the program and the step relation of the whole system. \<open>Param\<close> (\<open>cv_sys_param.c\<close>): the parameter store.
  \<^item> \<open>Gps\<close> (\<open>cv_drv_gps.c\<close>, \<open>ublox.c\<close>): framing of the receiver's bytes and its configuration packets; \<open>Rtc\<close>
    (\<open>cv_drv_rtc.c\<close>): setting the clock from the satellite time.
  \<^item> \<open>Oam\<close> (\<open>app/oam/external\<close>, \<open>internal\<close>, \<open>cmn\<close>, \<open>test\<close>): client, server and converters of the management
    interface. \<open>LoopBuf\<close> (\<open>agent/cli/common/loop_buf.c\<close>): the ring between a connection and the shell, with the
    locale \<open>byte_queue\<close> the reader of lines relies on. \<open>CliMatch\<close> (\<open>common/command.c\<close>): reading templates and
    matching the words of a line; \<open>CliTable\<close> (\<open>common/vector.c\<close>, \<open>command.c\<close>, the files of \<open>command\<close>): the commands and
    their installation; \<open>CliFind\<close>: which command a line finds. \<open>CliLogin\<close>, \<open>CliShell\<close> (\<open>agent/cli/lib\<close>,
    \<open>command/user_mng_cmd.c\<close>, parts of \<open>common/vty.c\<close> and \<open>common/command.c\<close>): users, login, banned addresses,
    running a command, modes, and the step relation of connections that share them. \<open>CliLine\<close>, \<open>CliEdit\<close> (\<open>common/vty.c\<close>): the line editor and its input.
\<close>

text \<open>
  \<^bold>\<open>What the lemmas show.\<close> For the state of each component there is an invariant (\<open>table_ok\<close>, \<open>timer_module_inv\<close>,
  \<open>vsa_inv\<close>, \<open>rsu_inv\<close>, \<open>loop_buf_ok\<close>, \<open>sys_ok\<close> of the shell, \<open>hist_ok\<close> and \<open>cursor_at\<close> of the editor) that every
  operation and every step keeps, and from which follows that the operations are defined. Codecs have round
  trips up to the stated quantisation: messages in \<open>Rcp\<close>, packets in \<open>Wnet\<close> and \<open>Wifi\<close>, requests in \<open>Oam\<close>; \<open>OverAir\<close>
  puts them together, and the templates of the shell are read as they are written. Data structures refine an abstract specification: lists to sequences, the close-range
  list to \<open>VsaSafe\<close>'s specification of counters, the ring to a queue, the timer module to independent timers,
  the editor to a line with a cursor, growing vectors to lists. A command typed in full is found, and only a
  command that is installed and allowed. The ordered insertion of timers and the packet filter equal
  reference definitions. Error paths (bad checksums, missing fixes, full tables and queues, refused
  parameters) have lemmas of their own. Where the code falls short of its purpose the theorem states what
  it does: relayed messages whose delay puts them between others loop for ever, an alert for a lost
  neighbour stays, answers of the management interface go to the client accepted last, an unknown user
  logs in with an empty password, the hidden command leads to a mode that is not installed, a second ban makes the list of bans read freed memory, a command line of
  512 characters has no end.

  \<^bold>\<open>Loops and bounds.\<close> There is no fuel. Loops over data are structural recursion or have a measure; loops over
  linked lists and loops that may not end are partial functions whose value \<open>None\<close> is not returning, and the
  theorems state that they return (or, for the insertion of a forwarded message, when they do not). The table
  sizes (80 stations, 256 timers and 16 threads, 4096 bytes of the ring, 4 users and 3 connections) are those
  of the code. The radio range and periods are bounded as the code clamps them.

  \<^bold>\<open>Not modelled.\<close> Completion and help of the shell (the rest of \<open>common/command.c\<close> and \<open>common/vty.c\<close>), its output
  (\<open>buffer.c\<close>) and the console (\<open>main/vtysh.c\<close>). What the commands print, and those that act outside the shell: their
  result is a parameter. The NTRIP client
  (\<open>drivers/gps/ntrip.c\<close>) is third-party code. The configuration of the wireless interface by netlink and the
  rest of the radiotap iterator, which the receive path does not use. Wrappers of one POSIX call (\<open>osal_sem.c\<close>,
  \<open>osal_thread.c\<close>, \<open>osal_mutex.c\<close>, \<open>osal_spinlock.c\<close>), the serial line, shared memory and sockets. The
  functions of \<open>cv_drv_rtc.c\<close> without a caller. The headers under \<open>library\<close> and \<open>nl80211.h\<close> are declarations of
  other projects. Printing has no counterpart. \<open>main\<close> has the start of the safety applications commented out;
  the step relation starts them as the handler of \<open>SYS_MSG_INITED\<close> does.
\<close>

end
